(* ===== verification/Prelude.thy ===== *)
theory Prelude
  imports Main "HOL-Library.Word" "HOL-Library.Monad_Syntax"
begin

text \<open>
  Vocabulary shared by all the component theories: the machine integer types of the 32-bit ARM
  target, the two ways in which an operation of the code can end badly, and the generic list, word
  and arithmetic facts the component proofs use.

  A kernel function that can run into a failing \<^verbatim>\<open>kassert\<close>, a \<^verbatim>\<open>panic\<close> or an access outside
  an array is modelled in the option type: \<open>None\<close> means that the kernel has crashed.  An error that the
  code returns to its caller is a value of a sum type, \<open>Inl\<close> the error code.
\<close>

unbundle bit_operations_syntax

subsection \<open>Machine types\<close>

type_synonym u8 = "8 word"
type_synonym u16 = "16 word"
type_synonym u32 = "32 word"
type_synonym u64 = "64 word"
type_synonym i32 = "32 word" \<comment> \<open>read with \<open>sint\<close>, widened with \<open>scast\<close>\<close>

subsection \<open>Assertions\<close>

definition kassert :: "bool \<Rightarrow> unit option" where
  "kassert b = (if b then Some () else None)"

lemma kassert_bind [simp]: "Option.bind (kassert b) f = (if b then f () else None)"
  by (simp add: kassert_def)

lemma kassert_eq_Some [simp]: "kassert b = Some u \<longleftrightarrow> b"
  by (simp add: kassert_def)

lemma if_None_eq_Some [simp]: "(if b then x else None) = Some y \<longleftrightarrow> b \<and> x = Some y"
  by simp

text \<open>An early return: the code goes on only when the condition holds.\<close>

abbreviation check :: "bool \<Rightarrow> unit option" where
  "check \<equiv> kassert"

named_theorems state_defs \<open>definitions of the primitive state updates\<close>

subsection \<open>Words\<close>

lemma unat_of_nat_u32: "n < 2 ^ 32 \<Longrightarrow> unat (of_nat n :: u32) = n"
  by (simp add: unat_of_nat)

lemma unat_u32_less: "unat (a :: u32) < 2 ^ 32"
  using unsigned_less [of a] by simp

lemma unat_eq_of_nat_u32: "unat a = n \<Longrightarrow> (a :: u32) = of_nat n"
  by (metis of_nat_unat ucast_id)

lemma unat_add_u32: "unat a + unat b < 2 ^ 32 \<Longrightarrow> unat (a + b :: u32) = unat a + unat b"
  by (simp add: unat_word_ariths)

lemma unat_mult_u32: "unat a * unat b < 2 ^ 32 \<Longrightarrow> unat (a * b :: u32) = unat a * unat b"
  by (simp add: unat_word_ariths)

lemma unat_minus_u32: "unat b \<le> unat a \<Longrightarrow> unat (a - b :: u32) = unat a - unat b"
  by (rule unat_sub) (simp add: word_le_nat_alt)

lemma unat_ucast_u8_u32 [simp]: "unat (ucast (b :: u8) :: u32) = unat b"
  by transfer (simp add: take_bit_eq_mod)

text \<open>
  The value that a 32-bit \<^verbatim>\<open>int\<close> holds after \<open>x\<close> has been stored in it: the machine keeps the low 32 bits.  (For
  C the overflow of a signed addition is undefined; a conversion keeps the low bits.)
\<close>

definition c_int :: "int \<Rightarrow> int" where
  "c_int x = (x + 2147483648) mod 4294967296 - 2147483648"

lemma c_int_id: "- 2147483648 \<le> x \<Longrightarrow> x < 2147483648 \<Longrightarrow> c_int x = x"
  by (simp add: c_int_def)

lemma c_int_range: "- 2147483648 \<le> c_int x" "c_int x < 2147483648"
  by (simp_all add: c_int_def)

subsection \<open>Lists\<close>

lemma upt_join: "i \<le> j \<Longrightarrow> j \<le> k \<Longrightarrow> [i..<j] @ [j..<k] = [i..<k]"
  for i j k :: nat
  using upt_add_eq_append [of i j "k - j"] by simp

text \<open>\<^verbatim>\<open>memcpy(xs + i, ys, length ys)\<close> inside the array \<open>xs\<close>.\<close>

definition overwrite :: "'a list \<Rightarrow> nat \<Rightarrow> 'a list \<Rightarrow> 'a list" where
  "overwrite xs i ys = take i xs @ ys @ drop (i + length ys) xs"

lemma length_overwrite [simp]: "i + length ys \<le> length xs \<Longrightarrow> length (overwrite xs i ys) = length xs"
  by (simp add: overwrite_def)

lemma overwrite_Nil [simp]: "overwrite xs i [] = xs"
  by (simp add: overwrite_def)

text \<open>Two pieces that touch are one piece.\<close>

lemma overwrite_overwrite:
  "i + length ys \<le> length xs \<Longrightarrow> overwrite (overwrite xs i ys) (i + length ys) zs = overwrite xs i (ys @ zs)"
  by (simp add: overwrite_def add.commute add.left_commute)

text \<open>Replacing part of a part replaces the same piece of the whole.\<close>

lemma overwrite_sector:
  assumes "j + length ys \<le> n" and "i + n \<le> length xs"
  shows "overwrite xs i (overwrite (take n (drop i xs)) j ys) = overwrite xs (i + j) ys"
proof -
  let ?k = "j + length ys"
  have "drop ?k (take n (drop i xs)) @ drop (i + n) xs = drop (i + ?k) xs"
  proof -
    have "drop (i + ?k) xs = take (n - ?k) (drop (i + ?k) xs) @ drop (n - ?k) (drop (i + ?k) xs)"
      by (rule append_take_drop_id [symmetric])
    then show ?thesis using assms(1) by (simp add: drop_take add.commute)
  qed
  moreover have "take i xs @ take j (take n (drop i xs)) = take (i + j) xs"
    using assms(1) by (simp add: take_add min_def)
  moreover have "overwrite xs i (overwrite (take n (drop i xs)) j ys) =
      (take i xs @ take j (take n (drop i xs))) @ ys @ (drop ?k (take n (drop i xs)) @ drop (i + n) xs)"
    using assms by (simp add: overwrite_def)
  ultimately show ?thesis by (simp add: overwrite_def add.assoc)
qed

lemma fun_upd_same [simp]: "(f(x := a))(x := b) = f(x := b)"
  by (rule fun_upd_upd)

subsection \<open>Little endian\<close>

definition word_byte :: "nat \<Rightarrow> u32 \<Rightarrow> u8" where
  "word_byte k w = ucast (drop_bit (8 * k) w)"

definition word_bytes :: "u32 \<Rightarrow> u8 list" where
  "word_bytes w = map (\<lambda>k. word_byte k w) [0..<4]"

definition half_at :: "u8 list \<Rightarrow> nat \<Rightarrow> u16 option" where
  "half_at bin i = (if i + 2 \<le> length bin then Some (ucast (bin ! i) OR push_bit 8 (ucast (bin ! (i + 1)))) else None)"

definition word_at :: "u8 list \<Rightarrow> nat \<Rightarrow> u32 option" where
  "word_at bin i = (if i + 4 \<le> length bin
     then Some (ucast (bin ! i) OR push_bit 8 (ucast (bin ! (i + 1))) OR
       push_bit 16 (ucast (bin ! (i + 2))) OR push_bit 24 (ucast (bin ! (i + 3)))) else None)"

lemma length_word_bytes [simp]: "length (word_bytes w) = 4"
  by (simp add: word_bytes_def)

lemma word_of_bytes:
  "ucast (word_byte 0 w) OR push_bit 8 (ucast (word_byte 1 w)) OR push_bit 16 (ucast (word_byte 2 w)) OR
     push_bit 24 (ucast (word_byte 3 w)) = (w :: u32)"
proof (rule bit_word_eqI)
  fix n assume "n < LENGTH(32)"
  then have n: "n < 8 \<or> 8 \<le> n \<and> n < 16 \<or> 16 \<le> n \<and> n < 24 \<or> 24 \<le> n \<and> n < 32" by auto
  then show "bit (ucast (word_byte 0 w) OR push_bit 8 (ucast (word_byte 1 w)) OR push_bit 16 (ucast (word_byte 2 w)) OR
     push_bit 24 (ucast (word_byte 3 w)) :: u32) n = bit w n"
    by (elim disjE) (auto simp: word_byte_def bit_simps)
qed

lemma word_at_word_bytes [simp]: "word_at (xs @ word_bytes w @ ys) (length xs) = Some w"
  using word_of_bytes [of w] by (simp add: word_at_def word_bytes_def nth_append upt_rec numeral_eq_Suc)

end
