(* ===== verification/KernelError.thy ===== *)
theory KernelError
  imports Prelude
begin

text \<open>
  The error values of the kernel (\<^verbatim>\<open>kernel/error.h\<close>) and the negative errno values of the system
  calls (\<^verbatim>\<open>include/api/syscalls.h\<close>).
\<close>

datatype GenericErrorCode =
    Success
  | ResponseTimeout
  | BadParameters
  | BadResponse
  | NotInitialized
  | NotConnected
  | DeviceNotReady
  | DeviceIsBusy
  | OutOfMemory
  | CantRepeat
  | NotSupported
  | InvalidFormat
  | EndOfData
  | NotFound
  | NotAFile
  | NotADirectory
  | PathTooLong
  | InvalidSystemCall
  | TooManyOpenFiles
  | AlreadyInUse
  | NotImplemented

fun generic_error_code_to_string :: "GenericErrorCode \<Rightarrow> string" where
  "generic_error_code_to_string Success = ''Success''"
| "generic_error_code_to_string ResponseTimeout = ''ResponseTimeout''"
| "generic_error_code_to_string BadParameters = ''BadParameters''"
| "generic_error_code_to_string BadResponse = ''BadResponse''"
| "generic_error_code_to_string NotInitialized = ''NotInitialized''"
| "generic_error_code_to_string NotConnected = ''NotConnected''"
| "generic_error_code_to_string DeviceNotReady = ''DeviceNotReady''"
| "generic_error_code_to_string DeviceIsBusy = ''DeviceIsBusy''"
| "generic_error_code_to_string OutOfMemory = ''OutOfMemory''"
| "generic_error_code_to_string CantRepeat = ''CantRepeat''"
| "generic_error_code_to_string NotSupported = ''NotSupported''"
| "generic_error_code_to_string InvalidFormat = ''InvalidFormat''"
| "generic_error_code_to_string EndOfData = ''EndOfData''"
| "generic_error_code_to_string NotFound = ''NotFound''"
| "generic_error_code_to_string NotAFile = ''NotAFile''"
| "generic_error_code_to_string NotADirectory = ''NotADirectory''"
| "generic_error_code_to_string InvalidSystemCall = ''InvalidSystemCall''"
| "generic_error_code_to_string PathTooLong = ''PathTooLong''"
| "generic_error_code_to_string NotImplemented = ''NotImplemented''"
| "generic_error_code_to_string TooManyOpenFiles = ''TooManyOpenFiles''"
| "generic_error_code_to_string AlreadyInUse = ''AlreadyInUse''"

definition is_success :: "GenericErrorCode \<Rightarrow> bool" where
  "is_success e \<longleftrightarrow> e = Success"

text \<open>
  The enumeration \<^verbatim>\<open>Errors\<close>.  A system call returns an error as its negated number.
\<close>

datatype Errors =
    ERR_PERM | ERR_NOENT | ERR_IO | ERR_2BIG | ERR_NOEXEC | ERR_BADF | ERR_NOMEM | ERR_BUSY
  | ERR_EXIST | ERR_NODEV | ERR_NOTDIR | ERR_ISDIR | ERR_INVAL | ERR_NFILE | ERR_NOSPACE
  | ERR_ROFS | ERR_PIPE | ERR_NOSYS | ERR_NOTEMPTY | ERR_NAMETOOLONG | ERR_TIMEDOUT
  | ERR_ALREADY | ERR_NOTSUP

fun errno :: "Errors \<Rightarrow> int" where
  "errno ERR_PERM = 1"
| "errno ERR_NOENT = 2"
| "errno ERR_IO = 5"
| "errno ERR_2BIG = 7"
| "errno ERR_NOEXEC = 8"
| "errno ERR_BADF = 9"
| "errno ERR_NOMEM = 12"
| "errno ERR_BUSY = 16"
| "errno ERR_EXIST = 17"
| "errno ERR_NODEV = 19"
| "errno ERR_NOTDIR = 20"
| "errno ERR_ISDIR = 21"
| "errno ERR_INVAL = 22"
| "errno ERR_NFILE = 23"
| "errno ERR_NOSPACE = 28"
| "errno ERR_ROFS = 30"
| "errno ERR_PIPE = 32"
| "errno ERR_NOSYS = 88"
| "errno ERR_NOTEMPTY = 90"
| "errno ERR_NAMETOOLONG = 91"
| "errno ERR_TIMEDOUT = 116"
| "errno ERR_ALREADY = 120"
| "errno ERR_NOTSUP = 134"

lemma errno_pos [simp]: "0 < errno e"
  by (cases e) simp_all

lemma errno_small: "errno e < 4096"
  by (cases e) simp_all

end
