(* ===== verification/PhysicalAlloc.thy ===== *)
theory PhysicalAlloc
  imports KernelError
begin

text \<open>
  The physical page allocator (\<^verbatim>\<open>kernel/memory/physicalalloc.cpp\<close> and \<^verbatim>\<open>.h\<close>): an array with one
  \<^verbatim>\<open>PhysicalPage\<close> per kilobyte of RAM and three singly linked free lists threaded through it, for blocks
  of 1, 4 and 16 KB.  A \<^verbatim>\<open>PhysicalPage*\<close> is its index in the array.
\<close>

subsection \<open>State\<close>

datatype PageOrder = Order1KB | Order4KB | Order16KB

text \<open>
  The count is an \<open>int\<close> without bounds; the code's is an \<^verbatim>\<open>int32_t\<close>.  A reference is held by a translation table entry of
  four bytes or by a variable of the kernel, so that the machine's memory ends before the 31 bits do.
\<close>

record PhysicalPage =
  ref_count :: int
  next_page :: "nat option"

record phys_alloc =
  pages_data :: "PhysicalPage list"
  ram_starting_address :: u32
  free_pages_lists :: "PageOrder \<Rightarrow> nat option"

record BootParams =
  boot_ram_start :: u32
  boot_ram_size :: u32
  bootmem_start :: u32
  bootmem_size :: u32

text \<open>The static initial values: no page array, empty lists.\<close>

definition phys_alloc_static :: phys_alloc where
  "phys_alloc_static =
     \<lparr>pages_data = [], ram_starting_address = 0, free_pages_lists = (\<lambda>_. None)\<rparr>"

definition order2page_size :: "PageOrder \<Rightarrow> u32" where
  "order2page_size ord =
     (case ord of Order16KB \<Rightarrow> 16 * 1024 | Order4KB \<Rightarrow> 4 * 1024 | Order1KB \<Rightarrow> 1024)"

definition bigger_order :: "PageOrder \<Rightarrow> PageOrder option" where
  "bigger_order ord =
     (case ord of Order1KB \<Rightarrow> Some Order4KB | Order4KB \<Rightarrow> Some Order16KB | Order16KB \<Rightarrow> None)"

definition smaller_order :: "PageOrder \<Rightarrow> PageOrder option" where
  "smaller_order ord =
     (case ord of Order1KB \<Rightarrow> None | Order4KB \<Rightarrow> Some Order1KB | Order16KB \<Rightarrow> Some Order4KB)"

subsection \<open>Pages and addresses\<close>

definition page_at :: "phys_alloc \<Rightarrow> nat \<Rightarrow> PhysicalPage option" where
  "page_at s p = (if p < length (pages_data s) then Some (pages_data s ! p) else None)"

definition set_next :: "nat \<Rightarrow> nat option \<Rightarrow> phys_alloc \<Rightarrow> phys_alloc" where
  "set_next p n s =
     s\<lparr>pages_data := (pages_data s)[p := (pages_data s ! p)\<lparr>next_page := n\<rparr>]\<rparr>"

definition set_ref_count :: "nat \<Rightarrow> int \<Rightarrow> phys_alloc \<Rightarrow> phys_alloc" where
  "set_ref_count p c s =
     s\<lparr>pages_data := (pages_data s)[p := (pages_data s ! p)\<lparr>ref_count := c\<rparr>]\<rparr>"

definition set_free_list :: "PageOrder \<Rightarrow> nat option \<Rightarrow> phys_alloc \<Rightarrow> phys_alloc" where
  "set_free_list ord h s = s\<lparr>free_pages_lists := (free_pages_lists s)(ord := h)\<rparr>"

definition addr2page :: "phys_alloc \<Rightarrow> u32 \<Rightarrow> nat option" where
  "addr2page s addr = do {
     kassert (ram_starting_address s \<le> addr);
     let idx = unat ((addr - ram_starting_address s) div 1024);
     kassert (idx < length (pages_data s));
     Some idx
   }"

definition page2addr :: "phys_alloc \<Rightarrow> nat \<Rightarrow> u32 option" where
  "page2addr s page = do {
     kassert (page < length (pages_data s));
     Some (ram_starting_address s + of_nat page * 1024)
   }"

subsection \<open>The free lists\<close>

definition append_page_to_free_pages_list :: "nat \<Rightarrow> PageOrder \<Rightarrow> phys_alloc \<Rightarrow> phys_alloc option" where
  "append_page_to_free_pages_list page ord s = do {
     pg \<leftarrow> page_at s page;
     kassert (next_page pg = None);
     Some (set_free_list ord (Some page) (set_next page (free_pages_lists s ord) s))
   }"

definition pop_page_from_free_pages_list :: "PageOrder \<Rightarrow> phys_alloc \<Rightarrow> (nat \<times> phys_alloc) option" where
  "pop_page_from_free_pages_list ord s = do {
     page \<leftarrow> free_pages_lists s ord;
     pg \<leftarrow> page_at s page;
     let s' = set_next page None (set_free_list ord (next_page pg) s);
     kassert (ref_count pg = 0);
     Some (page, s')
   }"

text \<open>The loop of \<^verbatim>\<open>remove_page_from_free_pages_list\<close> that looks for the predecessor of the page.\<close>

partial_function (option) unlink_after :: "nat \<Rightarrow> nat \<Rightarrow> phys_alloc \<Rightarrow> phys_alloc option" where
  "unlink_after prev page s = do {
     pg \<leftarrow> page_at s prev;
     (case next_page pg of
        None \<Rightarrow> None
      | Some n \<Rightarrow>
          if n = page then do {
            q \<leftarrow> page_at s page;
            Some (set_next page None (set_next prev (next_page q) s))
          }
          else unlink_after n page s)
   }"

definition remove_page_from_free_pages_list :: "nat \<Rightarrow> PageOrder \<Rightarrow> phys_alloc \<Rightarrow> phys_alloc option" where
  "remove_page_from_free_pages_list page ord s =
     (case free_pages_lists s ord of
        None \<Rightarrow> Some s
      | Some h \<Rightarrow>
          if h = page then do {
            pg \<leftarrow> page_at s page;
            Some (set_next page None (set_free_list ord (next_page pg) s))
          }
          else unlink_after h page s)"

subsection \<open>Initialisation\<close>

definition round_down_u32 :: "u32 \<Rightarrow> u32 \<Rightarrow> u32" where
  "round_down_u32 a b = a div b * b"

definition round_up_u32 :: "u32 \<Rightarrow> u32 \<Rightarrow> u32" where
  "round_up_u32 a b = (a + b - 1) div b * b"

definition sizeof_PhysicalPage :: u32 where
  "sizeof_PhysicalPage = 8"

definition physical_mem_start :: u32 where
  "physical_mem_start = 0xe0000000"

text \<open>
  The loop that threads the 16 KB blocks, from the last one down to the first free one.  The index is
  unsigned, so with a first index below 16 the loop would wrap around and leave the array.
\<close>

partial_function (option) thread_16kb_blocks :: "u32 \<Rightarrow> u32 \<Rightarrow> phys_alloc \<Rightarrow> phys_alloc option" where
  "thread_16kb_blocks i first_idx s =
     (if first_idx \<le> i then do {
        kassert (unat i < length (pages_data s));
        thread_16kb_blocks (i - 16) first_idx
          (set_free_list Order16KB (Some (unat i))
            (set_next (unat i) (free_pages_lists s Order16KB) s))
      }
      else Some s)"

definition physical_page_allocator_init :: "BootParams \<Rightarrow> phys_alloc \<Rightarrow> phys_alloc option" where
  "physical_page_allocator_init bp s = (
     let total = round_down_u32 (boot_ram_size bp) (16 * 1024);
         len = total div 1024;
         first_free_address = bootmem_start bp + bootmem_size bp;
         end_of_pages_data_addr =
           round_up_u32 (first_free_address + len * sizeof_PhysicalPage) (16 * 1024);
         first_free_page_idx = (end_of_pages_data_addr - physical_mem_start) div 1024;
         last_free_page_idx = total div 1024 - 16
     in thread_16kb_blocks last_free_page_idx first_free_page_idx
          (s\<lparr>ram_starting_address := boot_ram_start bp,
             pages_data := replicate (unat len) \<lparr>ref_count = 0, next_page = None\<rparr>\<rparr>))"

subsection \<open>Allocation\<close>

fun append_buddies :: "nat list \<Rightarrow> PageOrder \<Rightarrow> phys_alloc \<Rightarrow> phys_alloc option" where
  "append_buddies [] ord s = Some s"
| "append_buddies (b # bs) ord s = do {
     s' \<leftarrow> append_page_to_free_pages_list b ord s;
     append_buddies bs ord s'
   }"

definition split_page_in_smaller_chunks :: "nat \<Rightarrow> PageOrder \<Rightarrow> phys_alloc \<Rightarrow> phys_alloc option" where
  "split_page_in_smaller_chunks page page_order s = do {
     pg \<leftarrow> page_at s page;
     kassert (next_page pg = None);
     chunks_order \<leftarrow> smaller_order page_order;
     let page_size = order2page_size chunks_order;
     a \<leftarrow> page2addr s page;
     b0 \<leftarrow> addr2page s (a + 0 * page_size);
     b1 \<leftarrow> addr2page s (a + 1 * page_size);
     b2 \<leftarrow> addr2page s (a + 2 * page_size);
     b3 \<leftarrow> addr2page s (a + 3 * page_size);
     append_buddies [b0, b1, b2, b3] chunks_order s
   }"

text \<open>
  \<open>raw_page_alloc\<close> is \<^verbatim>\<open>_physical_page_alloc\<close>: an empty list is refilled by splitting a block of the
  next larger order, recursively.
\<close>

definition pop_result :: "PageOrder \<Rightarrow> phys_alloc \<Rightarrow> ((GenericErrorCode + nat) \<times> phys_alloc) option" where
  "pop_result ord s = do {
     (page, s') \<leftarrow> pop_page_from_free_pages_list ord s;
     Some (Inr page, s')
   }"

definition raw_page_alloc_16KB :: "phys_alloc \<Rightarrow> ((GenericErrorCode + nat) \<times> phys_alloc) option" where
  "raw_page_alloc_16KB s =
     (if free_pages_lists s Order16KB = None then Some (Inl OutOfMemory, s)
      else pop_result Order16KB s)"

definition raw_page_alloc_4KB :: "phys_alloc \<Rightarrow> ((GenericErrorCode + nat) \<times> phys_alloc) option" where
  "raw_page_alloc_4KB s =
     (if free_pages_lists s Order4KB = None then do {
        (r, s1) \<leftarrow> raw_page_alloc_16KB s;
        (case r of
           Inl e \<Rightarrow> Some (Inl e, s1)
         | Inr bigger_page \<Rightarrow> do {
             s2 \<leftarrow> split_page_in_smaller_chunks bigger_page Order16KB s1;
             pop_result Order4KB s2
           })
      }
      else pop_result Order4KB s)"

definition raw_page_alloc_1KB :: "phys_alloc \<Rightarrow> ((GenericErrorCode + nat) \<times> phys_alloc) option" where
  "raw_page_alloc_1KB s =
     (if free_pages_lists s Order1KB = None then do {
        (r, s1) \<leftarrow> raw_page_alloc_4KB s;
        (case r of
           Inl e \<Rightarrow> Some (Inl e, s1)
         | Inr bigger_page \<Rightarrow> do {
             s2 \<leftarrow> split_page_in_smaller_chunks bigger_page Order4KB s1;
             pop_result Order1KB s2
           })
      }
      else pop_result Order1KB s)"

definition raw_page_alloc :: "PageOrder \<Rightarrow> phys_alloc \<Rightarrow> ((GenericErrorCode + nat) \<times> phys_alloc) option" where
  "raw_page_alloc ord s =
     (case ord of
        Order16KB \<Rightarrow> raw_page_alloc_16KB s
      | Order4KB \<Rightarrow> raw_page_alloc_4KB s
      | Order1KB \<Rightarrow> raw_page_alloc_1KB s)"

definition physical_page_alloc :: "PageOrder \<Rightarrow> phys_alloc \<Rightarrow> ((GenericErrorCode + nat) \<times> phys_alloc) option" where
  "physical_page_alloc ord s = do {
     (r, s') \<leftarrow> raw_page_alloc ord s;
     (case r of
        Inl e \<Rightarrow> Some (Inl e, s')
      | Inr page \<Rightarrow> Some (Inr page, set_ref_count page 1 s'))
   }"

subsection \<open>Deallocation\<close>

fun all_buddies_free :: "nat list \<Rightarrow> phys_alloc \<Rightarrow> bool option" where
  "all_buddies_free [] s = Some True"
| "all_buddies_free (b # bs) s = do {
     this_buddy \<leftarrow> page_at s b;
     kassert (0 \<le> ref_count this_buddy);
     (if next_page this_buddy = None then Some False else all_buddies_free bs s)
   }"

fun remove_buddies :: "nat list \<Rightarrow> nat \<Rightarrow> PageOrder \<Rightarrow> phys_alloc \<Rightarrow> phys_alloc option" where
  "remove_buddies [] page ord s = Some s"
| "remove_buddies (b # bs) page ord s =
     (if b = page then remove_buddies bs page ord s
      else do {
        s' \<leftarrow> remove_page_from_free_pages_list b ord s;
        remove_buddies bs page ord s'
      })"

text \<open>The number of 1 KB pages of a block, \<^verbatim>\<open>order2page_size(order) / _1KB\<close>.\<close>

definition order_pages :: "PageOrder \<Rightarrow> nat" where
  "order_pages ord = unat (order2page_size ord div 1024)"

definition buddies_of :: "nat \<Rightarrow> PageOrder \<Rightarrow> nat list" where
  "buddies_of page ord = (
     let dist = order_pages ord;
         first_buddy = page div (4 * dist) * (4 * dist)
     in map (\<lambda>i. first_buddy + i * dist) [0, 1, 2, 3])"

text \<open>\<open>raw_page_free\<close> is \<^verbatim>\<open>_physical_page_free\<close>; the recursion climbs the three orders.\<close>

function raw_page_free :: "nat \<Rightarrow> PageOrder \<Rightarrow> phys_alloc \<Rightarrow> phys_alloc option" where
  "raw_page_free page ord s =
     (if ord = Order16KB then append_page_to_free_pages_list page Order16KB s
      else do {
        all_free \<leftarrow> all_buddies_free (buddies_of page ord) s;
        (if \<not> all_free then append_page_to_free_pages_list page ord s
         else do {
           s' \<leftarrow> remove_buddies (buddies_of page ord) page ord s;
           (case bigger_order ord of
              None \<Rightarrow> None
            | Some bigger \<Rightarrow> raw_page_free (hd (buddies_of page ord)) bigger s')
         })
      })"
  by pat_completeness auto
termination
  by (relation "measure (\<lambda>(page, ord, s). case ord of Order1KB \<Rightarrow> 2 | Order4KB \<Rightarrow> 1 | Order16KB \<Rightarrow> 0)")
     (auto simp: bigger_order_def split: PageOrder.splits)

declare raw_page_free.simps [simp del]

definition physical_page_free :: "nat \<Rightarrow> PageOrder \<Rightarrow> phys_alloc \<Rightarrow> phys_alloc option" where
  "physical_page_free page ord s = do {
     pg \<leftarrow> page_at s page;
     kassert (0 < ref_count pg);
     let s' = set_ref_count page (ref_count pg - 1) s;
     (if ref_count pg - 1 = 0 then raw_page_free page ord s' else Some s')
   }"

subsection \<open>Statistics\<close>

partial_function (option) count_items :: "nat option \<Rightarrow> phys_alloc \<Rightarrow> nat \<Rightarrow> nat option" where
  "count_items p s n =
     (case p of
        None \<Rightarrow> Some n
      | Some q \<Rightarrow> do {
          pg \<leftarrow> page_at s q;
          count_items (next_page pg) s (n + 1)
        })"

text \<open>The six numbers that \<^verbatim>\<open>physical_page_print_statistics\<close> prints, in order.\<close>

definition physical_page_statistics :: "phys_alloc \<Rightarrow> nat list option" where
  "physical_page_statistics s = do {
     f1 \<leftarrow> count_items (free_pages_lists s Order1KB) s 0;
     f4 \<leftarrow> count_items (free_pages_lists s Order4KB) s 0;
     f16 \<leftarrow> count_items (free_pages_lists s Order16KB) s 0;
     let len = length (pages_data s);
     Some [len, len div 16, len div 64, f1, f4, f16]
   }"

end
