(* ===== verification/PhysicalAllocInv.thy ===== *)
theory PhysicalAllocInv
  imports PhysicalAlloc "HOL-Library.Multiset"
begin

text \<open>
  The invariant of the physical page allocator.  Ghost values describe what the pointers mean: \<open>F ord\<close>
  is the list of free blocks of an order, \<open>A\<close> the blocks handed out (reference count positive), \<open>H\<close> the
  blocks that an operation has taken off a list and holds for the moment.  The invariant says that the
  three lists are well linked and that all these blocks are aligned and disjoint.
\<close>

subsection \<open>Linked lists in the page array\<close>

primrec linked :: "PhysicalPage list \<Rightarrow> nat option \<Rightarrow> nat list \<Rightarrow> bool" where
  "linked pgs h [] \<longleftrightarrow> h = None"
| "linked pgs h (p # ps) \<longleftrightarrow> h = Some p \<and> p < length pgs \<and> linked pgs (next_page (pgs ! p)) ps"

lemma linked_update [simp]:
  "q \<notin> set ps \<Longrightarrow> linked (pgs[q := x]) h ps = linked pgs h ps"
  by (induction ps arbitrary: h) auto

lemma linked_same_next:
  assumes "next_page x = next_page (pgs ! q)"
  shows "linked (pgs[q := x]) h ps = linked pgs h ps"
proof -
  have "next_page (pgs[q := x] ! p) = next_page (pgs ! p)" if "p < length pgs" for p
    using assms that by (cases "p = q") simp_all
  then show ?thesis by (induction ps arbitrary: h) auto
qed

lemma linked_None [simp]: "linked pgs None ps \<longleftrightarrow> ps = []"
  by (cases ps) auto

lemma linked_bound: "linked pgs h ps \<Longrightarrow> p \<in> set ps \<Longrightarrow> p < length pgs"
  by (induction ps arbitrary: h) auto

lemma linked_head: "linked pgs h ps \<Longrightarrow> h = None \<longleftrightarrow> ps = []"
  by (cases ps) auto

subsection \<open>Blocks\<close>

lemma order_pages_simps [simp]:
  "order_pages Order1KB = 1" "order_pages Order4KB = 4" "order_pages Order16KB = 16"
  by (simp_all add: order_pages_def order2page_size_def)

lemma order_pages_pos [simp]: "0 < order_pages ord"
  by (cases ord) simp_all

type_synonym block = "nat \<times> PageOrder"

definition block_pages :: "block \<Rightarrow> nat list" where
  "block_pages b = [fst b..<fst b + order_pages (snd b)]"

definition cover :: "block list \<Rightarrow> nat list" where
  "cover bs = concat (map block_pages bs)"

definition free_blocks :: "(PageOrder \<Rightarrow> nat list) \<Rightarrow> block list" where
  "free_blocks F =
     map (\<lambda>p. (p, Order1KB)) (F Order1KB) @ map (\<lambda>p. (p, Order4KB)) (F Order4KB) @
     map (\<lambda>p. (p, Order16KB)) (F Order16KB)"

definition aligned_block :: "nat \<Rightarrow> block \<Rightarrow> bool" where
  "aligned_block len b \<longleftrightarrow>
     fst b mod order_pages (snd b) = 0 \<and> fst b + order_pages (snd b) \<le> len"

definition blocks_ok :: "nat \<Rightarrow> block list \<Rightarrow> bool" where
  "blocks_ok len bs \<longleftrightarrow> distinct (cover bs) \<and> (\<forall>b \<in> set bs. aligned_block len b)"

lemma block_pages_head [simp]: "p \<in> set (block_pages (p, ord))"
  by (simp add: block_pages_def)

lemma cover_simps [simp]:
  "cover [] = []" "cover (b # bs) = block_pages b @ cover bs" "cover (as @ bs) = cover as @ cover bs"
  by (simp_all add: cover_def)

lemma set_cover: "set (cover bs) = (\<Union>b \<in> set bs. set (block_pages b))"
  by (simp add: cover_def)

lemma mset_cover: "mset (cover bs) = (\<Sum>b \<in># mset bs. mset (block_pages b))"
  by (induction bs) simp_all

lemma cover_perm: "mset bs = mset cs \<Longrightarrow> mset (cover bs) = mset (cover cs)"
  by (simp add: mset_cover)

lemma distinct_cover_perm: "mset bs = mset cs \<Longrightarrow> distinct (cover bs) = distinct (cover cs)"
  by (rule mset_eq_imp_distinct_iff) (rule cover_perm)

lemma blocks_ok_perm:
  assumes "mset bs = mset cs"
  shows "blocks_ok len bs = blocks_ok len cs"
  using mset_eq_setD [OF assms] distinct_cover_perm [OF assms] by (simp add: blocks_ok_def)

lemma in_free_blocks: "(p, ord) \<in> set (free_blocks F) \<longleftrightarrow> p \<in> set (F ord)"
  by (cases ord) (auto simp: free_blocks_def)

lemma distinct_cover_disjoint:
  assumes "distinct (cover (as @ b # bs))" and "c \<in> set (as @ bs)"
  shows "set (block_pages b) \<inter> set (block_pages c) = {}"
  using assms by (auto simp: set_cover)

lemma mset_free_blocks_push:
  "mset (free_blocks (F(ord := p # F ord)) @ A @ H) = mset (free_blocks F @ A @ (p, ord) # H)"
  by (cases ord) (simp_all add: free_blocks_def)

lemma mset_free_blocks_pop:
  "F ord = p # ps \<Longrightarrow>
   mset (free_blocks (F(ord := ps)) @ A @ (p, ord) # H) = mset (free_blocks F @ A @ H)"
  by (cases ord) (simp_all add: free_blocks_def)

subsection \<open>The invariant\<close>

definition pa_inv ::
  "phys_alloc \<Rightarrow> (PageOrder \<Rightarrow> nat list) \<Rightarrow> block list \<Rightarrow> block list \<Rightarrow> bool" where
  "pa_inv s F A H \<longleftrightarrow>
     (\<forall>ord. linked (pages_data s) (free_pages_lists s ord) (F ord)) \<and>
     blocks_ok (length (pages_data s)) (free_blocks F @ A @ H) \<and>
     (\<forall>p < length (pages_data s).
        0 \<le> ref_count (pages_data s ! p) \<and>
        (0 < ref_count (pages_data s ! p) \<longleftrightarrow> p \<in> fst ` set A)) \<and>
     (\<forall>p < length (pages_data s).
        next_page (pages_data s ! p) \<noteq> None \<longrightarrow> (\<exists>ord. p \<in> set (F ord))) \<and>
     unat (ram_starting_address s) + length (pages_data s) * 1024 \<le> 2 ^ 32"

lemma pa_inv_linked: "pa_inv s F A H \<Longrightarrow> linked (pages_data s) (free_pages_lists s ord) (F ord)"
  by (simp add: pa_inv_def)

lemma pa_inv_head: "pa_inv s F A H \<Longrightarrow> free_pages_lists s ord = None \<longleftrightarrow> F ord = []"
  by (rule linked_head) (rule pa_inv_linked)

lemma pa_inv_nextD:
  "pa_inv s F A H \<Longrightarrow> q < length (pages_data s) \<Longrightarrow> next_page (pages_data s ! q) \<noteq> None \<Longrightarrow>
   \<exists>ord. q \<in> set (F ord)"
  unfolding pa_inv_def by blast

lemma pa_inv_aligned:
  "pa_inv s F A H \<Longrightarrow> b \<in> set (free_blocks F @ A @ H) \<Longrightarrow> aligned_block (length (pages_data s)) b"
  by (simp add: pa_inv_def blocks_ok_def)

lemma pa_inv_bound:
  assumes "pa_inv s F A H" and "(p, ord) \<in> set (free_blocks F @ A @ H)"
  shows "p < length (pages_data s)"
proof -
  have "p + order_pages ord \<le> length (pages_data s)"
    using pa_inv_aligned [OF assms] by (simp add: aligned_block_def)
  then show ?thesis using order_pages_pos [of ord] by linarith
qed

text \<open>A block that is held or handed out is on no free list.\<close>

lemma pa_inv_not_free:
  assumes inv: "pa_inv s F A H" and mem: "(p, ord) \<in> set (A @ H)"
  shows "p \<notin> set (F ord')"
proof
  assume "p \<in> set (F ord')"
  then have "(p, ord') \<in> set (free_blocks F)" by (simp add: in_free_blocks)
  then have "p \<in> set (cover (free_blocks F))" by (force simp: set_cover)
  moreover have "p \<in> set (cover (A @ H))" using mem by (force simp: set_cover)
  moreover have "distinct (cover (free_blocks F) @ cover (A @ H))"
    using inv by (simp add: pa_inv_def blocks_ok_def)
  ultimately show False unfolding distinct_append by blast
qed

lemma pa_inv_next_None:
  assumes "pa_inv s F A H" and "(p, ord) \<in> set (A @ H)"
  shows "next_page (pages_data s ! p) = None"
proof -
  have "p < length (pages_data s)" using assms by (auto intro: pa_inv_bound)
  moreover have "\<nexists>ord'. p \<in> set (F ord')" using pa_inv_not_free [OF assms] by blast
  ultimately show ?thesis using assms(1) unfolding pa_inv_def by blast
qed

lemma distinct_cover_heads: "distinct (cover bs) \<Longrightarrow> distinct (map fst bs)"
proof (induction bs)
  case (Cons b bs)
  have "fst b \<noteq> fst c" if "c \<in> set bs" for c
  proof -
    have "fst b \<in> set (block_pages b)" "fst c \<in> set (block_pages c)"
      by (simp_all add: block_pages_def)
    moreover have "set (block_pages b) \<inter> set (block_pages c) = {}"
      using Cons.prems that by (auto simp: set_cover)
    ultimately show ?thesis by (metis disjoint_iff)
  qed
  with Cons show ?case by auto
qed simp

lemma pa_inv_heads:
  assumes "pa_inv s F A H"
  shows "distinct (F Order1KB @ F Order4KB @ F Order16KB @ map fst A @ map fst H)"
proof -
  have "distinct (map fst (free_blocks F @ A @ H))"
    using assms by (intro distinct_cover_heads) (simp add: pa_inv_def blocks_ok_def)
  then show ?thesis by (simp add: free_blocks_def comp_def)
qed

lemma pa_inv_free_disjoint:
  "pa_inv s F A H \<Longrightarrow> p \<in> set (F ord) \<Longrightarrow> ord \<noteq> ord' \<Longrightarrow> p \<notin> set (F ord')"
  by (cases ord; cases ord') (auto dest!: pa_inv_heads)

lemma pa_inv_free_distinct: "pa_inv s F A H \<Longrightarrow> distinct (F ord)"
  by (cases ord) (auto dest!: pa_inv_heads)

subsection \<open>The primitive operations keep the invariant\<close>

lemma state_sel [simp]:
  "pages_data (set_next p n s) = (pages_data s)[p := (pages_data s ! p)\<lparr>next_page := n\<rparr>]"
  "free_pages_lists (set_next p n s) = free_pages_lists s"
  "ram_starting_address (set_next p n s) = ram_starting_address s"
  "pages_data (set_ref_count p c s) = (pages_data s)[p := (pages_data s ! p)\<lparr>ref_count := c\<rparr>]"
  "free_pages_lists (set_ref_count p c s) = free_pages_lists s"
  "ram_starting_address (set_ref_count p c s) = ram_starting_address s"
  "pages_data (set_free_list ord h s) = pages_data s"
  "free_pages_lists (set_free_list ord h s) = (free_pages_lists s)(ord := h)"
  "ram_starting_address (set_free_list ord h s) = ram_starting_address s"
  by (simp_all add: set_next_def set_ref_count_def set_free_list_def)

lemma nth_set_next [simp]:
  "p < length pgs \<Longrightarrow>
   ref_count (pgs[q := (pgs ! q)\<lparr>next_page := n\<rparr>] ! p) = ref_count (pgs ! p)"
  by (cases "p = q") simp_all

lemma nth_set_ref [simp]:
  "p < length pgs \<Longrightarrow>
   next_page (pgs[q := (pgs ! q)\<lparr>ref_count := c\<rparr>] ! p) = next_page (pgs ! p)"
  by (cases "p = q") simp_all

lemma append_page_inv:
  assumes inv: "pa_inv s F A ((p, ord) # H)"
  shows "\<exists>s'. append_page_to_free_pages_list p ord s = Some s' \<and>
              pa_inv s' (F(ord := p # F ord)) A H"
proof -
  let ?n = "free_pages_lists s ord"
  let ?s' = "set_free_list ord (Some p) (set_next p ?n s)"
  have bound: "p < length (pages_data s)"
    using pa_inv_bound [OF inv, of p ord] by simp
  have none: "next_page (pages_data s ! p) = None"
    using pa_inv_next_None [OF inv, of p ord] by simp
  have notfree: "p \<notin> set (F ord')" for ord'
    using pa_inv_not_free [OF inv, of p ord] by simp
  have "append_page_to_free_pages_list p ord s = Some ?s'"
    using bound none by (simp add: append_page_to_free_pages_list_def page_at_def)
  moreover have "pa_inv ?s' (F(ord := p # F ord)) A H"
    unfolding pa_inv_def
  proof (intro conjI)
    show "\<forall>ord'. linked (pages_data ?s') (free_pages_lists ?s' ord') ((F(ord := p # F ord)) ord')"
      using inv bound notfree by (simp add: pa_inv_def)
    show "blocks_ok (length (pages_data ?s')) (free_blocks (F(ord := p # F ord)) @ A @ H)"
      using inv by (simp add: pa_inv_def blocks_ok_perm [OF mset_free_blocks_push])
    show "\<forall>q < length (pages_data ?s').
        next_page (pages_data ?s' ! q) \<noteq> None \<longrightarrow> (\<exists>ord'. q \<in> set ((F(ord := p # F ord)) ord'))"
    proof (intro allI impI)
      fix q assume q: "q < length (pages_data ?s')" "next_page (pages_data ?s' ! q) \<noteq> None"
      show "\<exists>ord'. q \<in> set ((F(ord := p # F ord)) ord')"
      proof (cases "q = p")
        case True
        then show ?thesis by (intro exI [of _ ord]) simp
      next
        case False
        then obtain ord' where "q \<in> set (F ord')"
          using inv q pa_inv_nextD [OF inv, of q] by auto
        then show ?thesis by (intro exI [of _ ord']) auto
      qed
    qed
  qed (use inv in \<open>simp_all add: pa_inv_def\<close>)
  ultimately show ?thesis by blast
qed

lemma pop_page_inv:
  assumes inv: "pa_inv s F A H" and F: "F ord = p # ps"
  shows "\<exists>s'. pop_page_from_free_pages_list ord s = Some (p, s') \<and>
              pa_inv s' (F(ord := ps)) A ((p, ord) # H)"
proof -
  let ?pg = "pages_data s ! p"
  let ?s' = "set_next p None (set_free_list ord (next_page ?pg) s)"
  have head: "free_pages_lists s ord = Some p" and bound: "p < length (pages_data s)"
    and rest: "linked (pages_data s) (next_page ?pg) ps"
    using pa_inv_linked [OF inv, of ord] F by simp_all
  have nA: "p \<notin> fst ` set A"
    using pa_inv_heads [OF inv] F by (cases ord) auto
  then have ref: "ref_count ?pg = 0"
    using inv bound unfolding pa_inv_def by fastforce
  have ps: "p \<notin> set ps" using pa_inv_free_distinct [OF inv, of ord] F by simp
  have other: "p \<notin> set (F ord')" if "ord' \<noteq> ord" for ord'
    using pa_inv_free_disjoint [OF inv, of p ord ord'] F that by simp
  have "pop_page_from_free_pages_list ord s = Some (p, ?s')"
    using head bound ref by (simp add: pop_page_from_free_pages_list_def page_at_def)
  moreover have "pa_inv ?s' (F(ord := ps)) A ((p, ord) # H)"
    unfolding pa_inv_def
  proof (intro conjI)
    show "\<forall>ord'. linked (pages_data ?s') (free_pages_lists ?s' ord') ((F(ord := ps)) ord')"
      using inv rest ps other by (auto simp: pa_inv_def)
    show "blocks_ok (length (pages_data ?s')) (free_blocks (F(ord := ps)) @ A @ (p, ord) # H)"
      using inv blocks_ok_perm [OF mset_free_blocks_pop [where F = F and ord = ord, OF F]]
      by (simp add: pa_inv_def)
    show "\<forall>q < length (pages_data ?s').
        next_page (pages_data ?s' ! q) \<noteq> None \<longrightarrow> (\<exists>ord'. q \<in> set ((F(ord := ps)) ord'))"
    proof (intro allI impI)
      fix q assume q: "q < length (pages_data ?s')" "next_page (pages_data ?s' ! q) \<noteq> None"
      then have "q \<noteq> p" and "next_page (pages_data s ! q) \<noteq> None"
        using bound by (auto simp: nth_list_update split: if_splits)
      moreover have "q < length (pages_data s)" using q(1) by simp
      ultimately obtain ord' where "q \<in> set (F ord')" using inv unfolding pa_inv_def by blast
      with \<open>q \<noteq> p\<close> F show "\<exists>ord'. q \<in> set ((F(ord := ps)) ord')"
        by (cases "ord' = ord") (auto intro: exI [of _ ord'])
    qed
  qed (use inv in \<open>simp_all add: pa_inv_def\<close>)
  ultimately show ?thesis by blast
qed

lemma set_ref_count_inv:
  assumes inv: "pa_inv s F A H"
    and perm: "mset (A @ H) = mset (A' @ H')"
    and c: "0 \<le> c" "0 < c \<longleftrightarrow> p \<in> fst ` set A'"
    and same: "fst ` set A' - {p} = fst ` set A - {p}"
  shows "pa_inv (set_ref_count p c s) F A' H'"
proof -
  have "mset (free_blocks F @ A @ H) = mset (free_blocks F @ A' @ H')" using perm by simp
  then have "blocks_ok (length (pages_data s)) (free_blocks F @ A' @ H')"
    using inv blocks_ok_perm unfolding pa_inv_def by blast
  moreover have "0 < ref_count (pages_data (set_ref_count p c s) ! q) \<longleftrightarrow> q \<in> fst ` set A'"
    if "q < length (pages_data s)" for q
    using inv c same that unfolding pa_inv_def by (cases "q = p") auto
  moreover have "0 \<le> ref_count (pages_data (set_ref_count p c s) ! q)"
    if "q < length (pages_data s)" for q
    using inv c that unfolding pa_inv_def by (cases "q = p") auto
  ultimately show ?thesis
    using inv unfolding pa_inv_def by (simp add: linked_same_next)
qed

subsection \<open>Addresses\<close>

lemma page2addr_eq: "p < length (pages_data s) \<Longrightarrow>
   page2addr s p = Some (ram_starting_address s + of_nat p * 1024)"
  by (simp add: page2addr_def)

lemma addr2page_in_page:
  assumes range: "unat (ram_starting_address s) + length (pages_data s) * 1024 \<le> 2 ^ 32"
    and q: "q < length (pages_data s)" and d: "d < 1024"
  shows "addr2page s (ram_starting_address s + of_nat q * 1024 + of_nat d) = Some q"
proof -
  let ?ram = "ram_starting_address s" and ?off = "of_nat (q * 1024 + d) :: u32"
  have bound: "unat ?ram + (q * 1024 + d) < 2 ^ 32" using assms by linarith
  then have off: "unat ?off = q * 1024 + d" by (intro unat_of_nat_u32) simp
  have sum: "ram_starting_address s + of_nat q * 1024 + of_nat d = ?ram + ?off" by simp
  have "?ram \<le> ?ram + ?off"
    unfolding word_le_nat_alt using bound off by (subst unat_add_u32) simp_all
  moreover have "unat (?off div 1024) = q" unfolding unat_div off using d by simp
  ultimately show ?thesis
    using q unfolding sum by (simp add: addr2page_def del: of_nat_add of_nat_mult)
qed

lemma addr2page_of_page:
  assumes "unat (ram_starting_address s) + length (pages_data s) * 1024 \<le> 2 ^ 32"
    and "q < length (pages_data s)"
  shows "addr2page s (ram_starting_address s + of_nat q * 1024) = Some q"
  using addr2page_in_page [OF assms, of 0] by simp

subsection \<open>Splitting a block\<close>

definition chunks :: "nat \<Rightarrow> PageOrder \<Rightarrow> nat list" where
  "chunks p ord = map (\<lambda>i. p + i * order_pages ord) [0, 1, 2, 3]"

lemma smaller_order_pages:
  "smaller_order ord = Some ord' \<Longrightarrow> order_pages ord = 4 * order_pages ord'"
  by (cases ord) (auto simp: smaller_order_def)

lemma upt_split4:
  "[a..<a + m] @ [a + m..<a + 2 * m] @ [a + 2 * m..<a + 3 * m] @ [a + 3 * m..<a + 4 * m]
   = [a..<a + 4 * m]" for a m :: nat
  by (simp add: upt_join)

lemma cover_chunks:
  "smaller_order ord = Some ord' \<Longrightarrow>
   cover (map (\<lambda>q. (q, ord')) (chunks p ord')) = block_pages (p, ord)"
  using upt_split4 [of p "order_pages ord'"]
  by (simp add: chunks_def block_pages_def smaller_order_pages mult_2 mult.commute
      numeral_Bit1 numeral_Bit0 distrib_left add.assoc)

lemma aligned_chunks:
  assumes "smaller_order ord = Some ord'" and "aligned_block len (p, ord)"
    and "q \<in> set (chunks p ord')"
  shows "aligned_block len (q, ord')"
  using assms by (cases ord) (auto simp: smaller_order_def aligned_block_def chunks_def mod_simps)

lemma blocks_ok_chunks:
  assumes "smaller_order ord = Some ord'" and "blocks_ok len (as @ (p, ord) # bs)"
  shows "blocks_ok len (as @ map (\<lambda>q. (q, ord')) (chunks p ord') @ bs)"
  using assms(2) aligned_chunks [OF assms(1), of len p]
  by (auto simp: blocks_ok_def cover_chunks [OF assms(1)])

lemma append_buddies_inv:
  "pa_inv s F A (map (\<lambda>q. (q, ord)) bs @ H) \<Longrightarrow>
   \<exists>s'. append_buddies bs ord s = Some s' \<and> pa_inv s' (F(ord := rev bs @ F ord)) A H"
proof (induction bs arbitrary: s F)
  case (Cons b bs)
  from Cons.prems have "pa_inv s F A ((b, ord) # map (\<lambda>q. (q, ord)) bs @ H)" by simp
  from append_page_inv [OF this] obtain s1 where
    s1: "append_page_to_free_pages_list b ord s = Some s1"
    and inv1: "pa_inv s1 (F(ord := b # F ord)) A (map (\<lambda>q. (q, ord)) bs @ H)" by blast
  from Cons.IH [OF inv1] obtain s' where
    "append_buddies bs ord s1 = Some s'"
    and "pa_inv s' ((F(ord := b # F ord))(ord := rev bs @ (F(ord := b # F ord)) ord)) A H" by blast
  moreover have "(F(ord := b # F ord))(ord := rev bs @ (F(ord := b # F ord)) ord) =
      F(ord := rev (b # bs) @ F ord)"
    by simp
  ultimately show ?case using s1 by (metis append_buddies.simps(2) bind.bind_lunit)
qed auto

lemma order_size_word: "order2page_size ord = of_nat (order_pages ord) * 1024"
  by (cases ord) (simp_all add: order2page_size_def)

lemma split_page_inv:
  assumes inv: "pa_inv s F A ((p, ord) # H)" and smaller: "smaller_order ord = Some ord'"
  shows "\<exists>s'. split_page_in_smaller_chunks p ord s = Some s' \<and>
              pa_inv s' (F(ord' := rev (chunks p ord') @ F ord')) A H"
proof -
  have al: "aligned_block (length (pages_data s)) (p, ord)"
    using pa_inv_aligned [OF inv, of "(p, ord)"] by simp
  have bound: "p < length (pages_data s)"
    using pa_inv_bound [OF inv, of p ord] by simp
  have none: "next_page (pages_data s ! p) = None"
    using pa_inv_next_None [OF inv, of p ord] by simp
  have range: "unat (ram_starting_address s) + length (pages_data s) * 1024 \<le> 2 ^ 32"
    using inv by (simp add: pa_inv_def)
  have buddy: "addr2page s (ram_starting_address s + of_nat p * 1024 + of_nat i * order2page_size ord')
      = Some (p + i * order_pages ord')" if "i < 4" for i
  proof -
    have "p + i * order_pages ord' < length (pages_data s)"
      using al that smaller_order_pages [OF smaller]
      by (cases ord') (auto simp: aligned_block_def)
    from addr2page_of_page [OF range this] show ?thesis
      by (simp add: order_size_word algebra_simps)
  qed
  have "pa_inv s F A (map (\<lambda>q. (q, ord')) (chunks p ord') @ H)"
  proof -
    have "blocks_ok (length (pages_data s)) ((free_blocks F @ A) @ (p, ord) # H)"
      using inv by (simp add: pa_inv_def)
    from blocks_ok_chunks [OF smaller this] show ?thesis
      using inv unfolding pa_inv_def by simp
  qed
  from append_buddies_inv [OF this] show ?thesis
    using bound none smaller buddy [of 0] buddy [of 1] buddy [of 2] buddy [of 3]
    by (simp add: split_page_in_smaller_chunks_def page_at_def page2addr_eq chunks_def)
qed

subsection \<open>What the list operations leave alone\<close>

definition pa_frame :: "phys_alloc \<Rightarrow> phys_alloc \<Rightarrow> bool" where
  "pa_frame s s' \<longleftrightarrow>
     ram_starting_address s' = ram_starting_address s \<and>
     map ref_count (pages_data s') = map ref_count (pages_data s)"

lemma pa_frame_refl [simp]: "pa_frame s s"
  by (simp add: pa_frame_def)

lemma pa_frame_trans [trans]: "pa_frame s t \<Longrightarrow> pa_frame t u \<Longrightarrow> pa_frame s u"
  by (simp add: pa_frame_def)

lemma pa_frame_set_next [simp]: "pa_frame s (set_next p n t) = pa_frame s t"
proof -
  have "map ref_count ((pages_data t)[p := (pages_data t ! p)\<lparr>next_page := n\<rparr>]) =
      map ref_count (pages_data t)"
    by (rule nth_equalityI) simp_all
  then show ?thesis by (simp add: pa_frame_def)
qed

lemma pa_frame_set_free_list [simp]: "pa_frame s (set_free_list ord h t) = pa_frame s t"
  by (simp add: pa_frame_def)

lemma pa_frame_length: "pa_frame s s' \<Longrightarrow> length (pages_data s') = length (pages_data s)"
  unfolding pa_frame_def by (metis length_map)

lemma pa_frame_ref_count:
  assumes "pa_frame s s'" and "p < length (pages_data s)"
  shows "ref_count (pages_data s' ! p) = ref_count (pages_data s ! p)"
proof -
  have "map ref_count (pages_data s') ! p = map ref_count (pages_data s) ! p"
    using assms(1) by (simp add: pa_frame_def)
  then show ?thesis using assms pa_frame_length [OF assms(1)] by simp
qed

lemma append_page_frame:
  "append_page_to_free_pages_list p ord s = Some s' \<Longrightarrow> pa_frame s s'"
  by (auto simp: append_page_to_free_pages_list_def bind_eq_Some_conv)

lemma pop_page_frame:
  "pop_page_from_free_pages_list ord s = Some (p, s') \<Longrightarrow> pa_frame s s'"
  by (auto simp: pop_page_from_free_pages_list_def bind_eq_Some_conv)

lemma append_buddies_frame: "append_buddies bs ord s = Some s' \<Longrightarrow> pa_frame s s'"
proof (induction bs arbitrary: s)
  case (Cons b bs)
  from Cons.prems obtain s1 where
    "append_page_to_free_pages_list b ord s = Some s1" "append_buddies bs ord s1 = Some s'"
    by (auto simp: bind_eq_Some_conv)
  then show ?case by (metis append_page_frame Cons.IH pa_frame_trans)
qed simp

lemma split_page_frame:
  assumes "split_page_in_smaller_chunks p ord s = Some s'"
  shows "pa_frame s s'"
proof -
  obtain bs ord' where "append_buddies bs ord' s = Some s'"
    using assms unfolding split_page_in_smaller_chunks_def Let_def bind_eq_Some_conv by blast
  then show ?thesis by (rule append_buddies_frame)
qed

subsection \<open>Allocation\<close>

definition alloc_post ::
  "phys_alloc \<Rightarrow> (PageOrder \<Rightarrow> nat list) \<Rightarrow> block list \<Rightarrow> block list \<Rightarrow> PageOrder \<Rightarrow>
   GenericErrorCode + nat \<Rightarrow> phys_alloc \<Rightarrow> bool" where
  "alloc_post s F A H ord r s' \<longleftrightarrow>
     (case r of
        Inl e \<Rightarrow> e = OutOfMemory \<and> s' = s \<and>
          (\<forall>ord'. order_pages ord \<le> order_pages ord' \<longrightarrow> F ord' = [])
      | Inr p \<Rightarrow> pa_frame s s' \<and> (\<exists>F'. pa_inv s' F' A ((p, ord) # H) \<and>
          mset (cover (free_blocks F)) =
          mset (block_pages (p, ord)) + mset (cover (free_blocks F'))))"

lemma cover_pop:
  "F ord = p # ps \<Longrightarrow>
   mset (cover (free_blocks F)) =
   mset (block_pages (p, ord)) + mset (cover (free_blocks (F(ord := ps))))"
  by (cases ord) (simp_all add: free_blocks_def)

lemma cover_chunks_push:
  assumes "smaller_order ord = Some ord'"
  shows "mset (cover (free_blocks (F(ord' := rev (chunks p ord') @ F ord')))) =
         mset (block_pages (p, ord)) + mset (cover (free_blocks F))"
proof -
  have "mset (free_blocks (F(ord' := rev (chunks p ord') @ F ord'))) =
      mset (map (\<lambda>q. (q, ord')) (chunks p ord') @ free_blocks F)"
    by (cases ord') (simp_all add: free_blocks_def)
  from cover_perm [OF this] show ?thesis
    by (simp add: cover_chunks [OF assms])
qed

lemma pop_result_post:
  assumes inv: "pa_inv s F A H" and ne: "F ord \<noteq> []"
  shows "\<exists>r s'. pop_result ord s = Some (r, s') \<and> alloc_post s F A H ord r s'"
proof -
  obtain p ps where F: "F ord = p # ps" using ne by (cases "F ord") auto
  from pop_page_inv [where F = F and ord = ord, OF inv F] obtain s' where
    s': "pop_page_from_free_pages_list ord s = Some (p, s')"
    and inv': "pa_inv s' (F(ord := ps)) A ((p, ord) # H)" by blast
  have "alloc_post s F A H ord (Inr p) s'"
    using inv' pop_page_frame [OF s'] cover_pop [where F = F and ord = ord, OF F]
    by (auto simp: alloc_post_def)
  then show ?thesis using s' by (auto simp: pop_result_def)
qed

lemma raw_page_alloc_16KB_post:
  assumes "pa_inv s F A H"
  shows "\<exists>r s'. raw_page_alloc_16KB s = Some (r, s') \<and> alloc_post s F A H Order16KB r s'"
proof (cases "F Order16KB = []")
  case True
  have "F ord' = []" if "order_pages Order16KB \<le> order_pages ord'" for ord'
    using True that by (cases ord') simp_all
  then have "alloc_post s F A H Order16KB (Inl OutOfMemory) s"
    by (simp add: alloc_post_def)
  with True show ?thesis
    using pa_inv_head [OF assms, of Order16KB] by (simp add: raw_page_alloc_16KB_def)
next
  case False
  then have "free_pages_lists s Order16KB \<noteq> None"
    using pa_inv_head [OF assms, of Order16KB] by blast
  then show ?thesis
    using pop_result_post [OF assms False] by (auto simp: raw_page_alloc_16KB_def)
qed

lemma refill_post:
  assumes inv: "pa_inv s F A H" and empty: "F ord = []"
    and smaller: "smaller_order big = Some ord"
    and post: "alloc_post s F A H big r s1"
  shows "\<exists>r' s'. (case r of
             Inl e \<Rightarrow> Some (Inl e, s1)
           | Inr b \<Rightarrow> do { s2 \<leftarrow> split_page_in_smaller_chunks b big s1; pop_result ord s2 })
           = Some (r', s') \<and> alloc_post s F A H ord r' s'"
proof (cases r)
  case (Inl e)
  have "F ord' = []" if "order_pages ord \<le> order_pages ord'" for ord'
  proof (cases "ord' = ord")
    case False
    then have "order_pages big \<le> order_pages ord'"
      using that smaller by (cases ord; cases ord'; cases big) (auto simp: smaller_order_def)
    then show ?thesis using post Inl by (simp add: alloc_post_def)
  qed (simp add: empty)
  then have "alloc_post s F A H ord (Inl e) s1"
    using post Inl by (simp add: alloc_post_def)
  then show ?thesis using Inl by simp
next
  case (Inr b)
  then obtain F1 where frame1: "pa_frame s s1" and inv1: "pa_inv s1 F1 A ((b, big) # H)"
    and cover1: "mset (cover (free_blocks F)) =
        mset (block_pages (b, big)) + mset (cover (free_blocks F1))"
    using post by (auto simp: alloc_post_def)
  let ?F2 = "F1(ord := rev (chunks b ord) @ F1 ord)"
  from split_page_inv [OF inv1 smaller] obtain s2 where
    s2: "split_page_in_smaller_chunks b big s1 = Some s2" and inv2: "pa_inv s2 ?F2 A H" by blast
  have "?F2 ord \<noteq> []" by (simp add: chunks_def)
  from pop_result_post [OF inv2 this] obtain r' s' where
    pop: "pop_result ord s2 = Some (r', s')" and post2: "alloc_post s2 ?F2 A H ord r' s'" by blast
  obtain p where r': "r' = Inr p" using pop by (auto simp: pop_result_def bind_eq_Some_conv)
  have "pa_frame s s2" using frame1 split_page_frame [OF s2] by (rule pa_frame_trans)
  then have "alloc_post s F A H ord r' s'"
    using post2 cover1 cover_chunks_push [OF smaller, of F1 b] pa_frame_trans
    unfolding r' alloc_post_def by auto
  then show ?thesis using Inr s2 pop by simp
qed

lemma raw_page_alloc_4KB_post:
  assumes "pa_inv s F A H"
  shows "\<exists>r s'. raw_page_alloc_4KB s = Some (r, s') \<and> alloc_post s F A H Order4KB r s'"
proof (cases "F Order4KB = []")
  case True
  obtain r s1 where "raw_page_alloc_16KB s = Some (r, s1)" "alloc_post s F A H Order16KB r s1"
    using raw_page_alloc_16KB_post [OF assms] by blast
  with refill_post [OF assms True _ this(2)] True show ?thesis
    using pa_inv_head [OF assms, of Order4KB]
    by (simp add: raw_page_alloc_4KB_def smaller_order_def)
next
  case False
  then have "free_pages_lists s Order4KB \<noteq> None"
    using pa_inv_head [OF assms, of Order4KB] by blast
  then show ?thesis
    using pop_result_post [OF assms False] by (auto simp: raw_page_alloc_4KB_def)
qed

lemma raw_page_alloc_1KB_post:
  assumes "pa_inv s F A H"
  shows "\<exists>r s'. raw_page_alloc_1KB s = Some (r, s') \<and> alloc_post s F A H Order1KB r s'"
proof (cases "F Order1KB = []")
  case True
  obtain r s1 where "raw_page_alloc_4KB s = Some (r, s1)" "alloc_post s F A H Order4KB r s1"
    using raw_page_alloc_4KB_post [OF assms] by blast
  with refill_post [OF assms True _ this(2)] True show ?thesis
    using pa_inv_head [OF assms, of Order1KB]
    by (simp add: raw_page_alloc_1KB_def smaller_order_def)
next
  case False
  then have "free_pages_lists s Order1KB \<noteq> None"
    using pa_inv_head [OF assms, of Order1KB] by blast
  then show ?thesis
    using pop_result_post [OF assms False] by (auto simp: raw_page_alloc_1KB_def)
qed

lemma raw_page_alloc_post:
  "pa_inv s F A H \<Longrightarrow> \<exists>r s'. raw_page_alloc ord s = Some (r, s') \<and> alloc_post s F A H ord r s'"
  by (cases ord)
     (simp_all add: raw_page_alloc_def raw_page_alloc_16KB_post raw_page_alloc_4KB_post
       raw_page_alloc_1KB_post)

definition page_alloc_post ::
  "phys_alloc \<Rightarrow> (PageOrder \<Rightarrow> nat list) \<Rightarrow> block list \<Rightarrow> PageOrder \<Rightarrow>
   GenericErrorCode + nat \<Rightarrow> phys_alloc \<Rightarrow> bool" where
  "page_alloc_post s F A ord r s' \<longleftrightarrow>
    (case r of
       Inl e \<Rightarrow> e = OutOfMemory \<and> s' = s \<and>
         (\<forall>ord'. order_pages ord \<le> order_pages ord' \<longrightarrow> F ord' = [])
     | Inr p \<Rightarrow> ref_count (pages_data s' ! p) = 1 \<and>
         (\<forall>q < length (pages_data s). q \<noteq> p \<longrightarrow>
            ref_count (pages_data s' ! q) = ref_count (pages_data s ! q)) \<and>
         (\<exists>F'. pa_inv s' F' ((p, ord) # A) [] \<and>
            mset (cover (free_blocks F)) =
            mset (block_pages (p, ord)) + mset (cover (free_blocks F'))))"

lemma page_alloc_post_Inl [simp]:
  "page_alloc_post s F A ord (Inl e) s' \<longleftrightarrow> e = OutOfMemory \<and> s' = s \<and>
     (\<forall>ord'. order_pages ord \<le> order_pages ord' \<longrightarrow> F ord' = [])"
  by (simp add: page_alloc_post_def)

lemma page_alloc_post_InrE:
  assumes "page_alloc_post s F A ord (Inr p) s'"
  obtains F' where "ref_count (pages_data s' ! p) = 1"
    "\<And>q. q < length (pages_data s) \<Longrightarrow> q \<noteq> p \<Longrightarrow>
       ref_count (pages_data s' ! q) = ref_count (pages_data s ! q)"
    "pa_inv s' F' ((p, ord) # A) []"
    "mset (cover (free_blocks F)) =
       mset (block_pages (p, ord)) + mset (cover (free_blocks F'))"
  using assms unfolding page_alloc_post_def by auto

lemma physical_page_alloc_post:
  assumes "pa_inv s F A []"
  obtains r s' where "physical_page_alloc ord s = Some (r, s')" "page_alloc_post s F A ord r s'"
proof -
  from raw_page_alloc_post [OF assms, of ord] obtain r s1 where
    raw: "raw_page_alloc ord s = Some (r, s1)" and post: "alloc_post s F A [] ord r s1" by blast
  show ?thesis
  proof (cases r)
    case (Inl e)
    with post have "page_alloc_post s F A ord r s1" by (simp add: alloc_post_def)
    with raw Inl show ?thesis by (intro that [of "Inl e" s1]) (simp_all add: physical_page_alloc_def)
  next
    case (Inr p)
    then obtain F' where frame: "pa_frame s s1" and inv1: "pa_inv s1 F' A [(p, ord)]"
      and cov: "mset (cover (free_blocks F)) =
          mset (block_pages (p, ord)) + mset (cover (free_blocks F'))"
      using post by (auto simp: alloc_post_def)
    have "pa_inv (set_ref_count p 1 s1) F' ((p, ord) # A) []"
      by (rule set_ref_count_inv [OF inv1]) auto
    moreover have "p < length (pages_data s1)"
      using pa_inv_bound [OF inv1, of p ord] by simp
    ultimately have "page_alloc_post s F A ord (Inr p) (set_ref_count p 1 s1)"
      using cov pa_frame_ref_count [OF frame] pa_frame_length [OF frame]
      by (auto simp: page_alloc_post_def)
    with raw Inr show ?thesis
      by (intro that [of "Inr p" "set_ref_count p 1 s1"]) (simp_all add: physical_page_alloc_def)
  qed
qed

subsection \<open>Deallocation\<close>

text \<open>
  The page being freed is on no list, so its \<^verbatim>\<open>next\<close> is null; it is one of the four buddies that are
  examined, so the examination always ends with "not all free".
\<close>

lemma buddies_split:
  assumes "p mod order_pages ord = 0"
  shows "\<exists>xs ys. buddies_of p ord = xs @ p # ys \<and> (\<forall>x \<in> set xs. x < p)"
proof -
  let ?d = "order_pages ord" and ?f = "p div (4 * order_pages ord) * (4 * order_pages ord)"
  define i where "i = p mod (4 * ?d) div ?d"
  have "p mod (4 * ?d) mod ?d = 0" using assms by (simp add: mod_mod_cancel)
  then have "p mod (4 * ?d) = i * ?d"
    unfolding i_def by (metis add.right_neutral div_mult_mod_eq)
  then have p: "?f + i * ?d = p" by (metis div_mult_mod_eq)
  have "i < 4" unfolding i_def by (simp add: less_mult_imp_div_less mult.commute)
  then consider "i = 0" | "i = 1" | "i = 2" | "i = 3" by linarith
  then obtain lo hi where ij: "[0, 1, 2, 3] = lo @ i # hi" and small: "\<forall>j \<in> set lo. j < i"
  proof cases
    case 1 then show ?thesis by (intro that [of "[]" "[1, 2, 3]"]) simp_all
  next
    case 2 then show ?thesis by (intro that [of "[0]" "[2, 3]"]) simp_all
  next
    case 3 then show ?thesis by (intro that [of "[0, 1]" "[3]"]) simp_all
  next
    case 4 then show ?thesis by (intro that [of "[0, 1, 2]" "[]"]) simp_all
  qed
  have "buddies_of p ord = map (\<lambda>j. ?f + j * ?d) lo @ p # map (\<lambda>j. ?f + j * ?d) hi"
    unfolding buddies_of_def Let_def ij by (simp add: p)
  moreover have "?f + j * ?d < p" if "j \<in> set lo" for j
  proof -
    have "j * ?d < i * ?d" using small that by simp
    then show ?thesis using p by linarith
  qed
  ultimately show ?thesis
    by (intro exI [of _ "map (\<lambda>j. ?f + j * ?d) lo"] exI [of _ "map (\<lambda>j. ?f + j * ?d) hi"]) auto
qed

lemma all_buddies_free_False:
  assumes "\<forall>x \<in> set xs. x < p" and "p < length (pages_data s)"
    and "\<forall>q < length (pages_data s). 0 \<le> ref_count (pages_data s ! q)"
    and "next_page (pages_data s ! p) = None"
  shows "all_buddies_free (xs @ p # ys) s = Some False"
  using assms by (induction xs) (auto simp: page_at_def)

lemma raw_page_free_append:
  assumes inv: "pa_inv s F A ((p, ord) # H)"
  shows "raw_page_free p ord s = append_page_to_free_pages_list p ord s"
proof (cases "ord = Order16KB")
  case True
  then show ?thesis by (subst raw_page_free.simps) simp
next
  case False
  have "aligned_block (length (pages_data s)) (p, ord)"
    using pa_inv_aligned [OF inv, of "(p, ord)"] by simp
  then have mod: "p mod order_pages ord = 0" by (simp add: aligned_block_def)
  obtain xs ys where buddies: "buddies_of p ord = xs @ p # ys" and "\<forall>x \<in> set xs. x < p"
    using buddies_split [OF mod] by metis
  then have "all_buddies_free (buddies_of p ord) s = Some False"
    using inv pa_inv_bound [OF inv, of p ord] pa_inv_next_None [OF inv, of p ord]
    by (simp add: all_buddies_free_False pa_inv_def)
  then show ?thesis using False by (subst raw_page_free.simps) simp
qed

lemma physical_page_free_post:
  assumes inv: "pa_inv s F ((p, ord) # A) []"
  shows "\<exists>s'. physical_page_free p ord s = Some s' \<and>
    (if ref_count (pages_data s ! p) = 1 then pa_inv s' (F(ord := p # F ord)) A []
     else s' = set_ref_count p (ref_count (pages_data s ! p) - 1) s \<and>
          pa_inv s' F ((p, ord) # A) [])"
proof -
  let ?c = "ref_count (pages_data s ! p)"
  have bound: "p < length (pages_data s)"
    using pa_inv_bound [OF inv, of p ord] by simp
  then have pos: "0 < ?c" using inv by (simp add: pa_inv_def)
  show ?thesis
  proof (cases "?c = 1")
    case True
    have "p \<notin> fst ` set A" using pa_inv_heads [OF inv] by auto
    then have inv1: "pa_inv (set_ref_count p 0 s) F A [(p, ord)]"
      by (intro set_ref_count_inv [OF inv]) auto
    show ?thesis
      using append_page_inv [OF inv1] raw_page_free_append [OF inv1] True bound
      by (auto simp: physical_page_free_def page_at_def)
  next
    case False
    have "pa_inv (set_ref_count p (?c - 1) s) F ((p, ord) # A) []"
      using pos False by (intro set_ref_count_inv [OF inv]) auto
    then show ?thesis using False bound pos by (simp add: physical_page_free_def page_at_def)
  qed
qed

subsection \<open>Initialisation\<close>

definition init_inv :: "nat \<Rightarrow> u32 \<Rightarrow> nat list \<Rightarrow> phys_alloc \<Rightarrow> bool" where
  "init_inv len ram L s \<longleftrightarrow>
     ram_starting_address s = ram \<and> length (pages_data s) = len \<and>
     linked (pages_data s) (free_pages_lists s Order16KB) L \<and>
     free_pages_lists s Order1KB = None \<and> free_pages_lists s Order4KB = None \<and>
     (\<forall>q < len. ref_count (pages_data s ! q) = 0 \<and>
        (next_page (pages_data s ! q) \<noteq> None \<longrightarrow> q \<in> set L))"

lemma init_inv_push:
  assumes "init_inv len ram L s" and "q \<notin> set L" and "q < len"
  shows "init_inv len ram (q # L)
    (set_free_list Order16KB (Some q) (set_next q (free_pages_lists s Order16KB) s))"
  using assms by (auto simp: init_inv_def nth_list_update)

lemma thread_16kb_blocks_inv:
  assumes "init_inv len ram (map ((*) 16) [k + 1..<m]) s"
    and "16 * k + 16 \<le> len" and "k < m" and "1 \<le> f" and "16 * f < 2 ^ 32" and "len < 2 ^ 32"
  shows "\<exists>s'. thread_16kb_blocks (of_nat (16 * k)) (of_nat (16 * f)) s = Some s' \<and>
    init_inv len ram (map ((*) 16) [min f (k + 1)..<m]) s'"
  using assms
proof (induction k arbitrary: s)
  case 0
  have f: "unat (of_nat (16 * f) :: u32) = 16 * f"
    using 0 by (intro unat_of_nat_u32) simp
  have "\<not> (of_nat (16 * f) :: u32) \<le> of_nat (16 * 0)"
    using 0 unfolding word_le_nat_alt f by simp
  then have "thread_16kb_blocks (of_nat (16 * 0)) (of_nat (16 * f)) s = Some s"
    by (subst thread_16kb_blocks.simps) simp
  moreover have "min f (0 + 1) = 1" using 0 by simp
  ultimately show ?case using 0 by auto
next
  case (Suc k)
  let ?i = "of_nat (16 * Suc k) :: u32"
  have i: "unat ?i = 16 * Suc k"
    using Suc.prems by (intro unat_of_nat_u32) simp
  have f: "unat (of_nat (16 * f) :: u32) = 16 * f"
    using Suc.prems by (intro unat_of_nat_u32) simp
  show ?case
  proof (cases "f \<le> Suc k")
    case False
    then have "\<not> (of_nat (16 * f) :: u32) \<le> ?i"
      unfolding word_le_nat_alt i f by simp
    then have "thread_16kb_blocks ?i (of_nat (16 * f)) s = Some s"
      by (subst thread_16kb_blocks.simps) simp
    moreover have "min f (Suc k + 1) = Suc k + 1" using False by simp
    ultimately show ?thesis using Suc.prems(1) by auto
  next
    case True
    then have le: "(of_nat (16 * f) :: u32) \<le> ?i"
      unfolding word_le_nat_alt i f by simp
    have bound: "16 * Suc k < len" using Suc.prems(2) by simp
    let ?s = "set_free_list Order16KB (Some (16 * Suc k))
        (set_next (16 * Suc k) (free_pages_lists s Order16KB) s)"
    have "16 * Suc k \<notin> set (map ((*) 16) [Suc k + 1..<m])" by auto
    from init_inv_push [OF Suc.prems(1) this bound]
    have inv: "init_inv len ram (map ((*) 16) [k + 1..<m]) ?s"
      using Suc.prems(3) by (simp add: upt_conv_Cons [of "Suc k" m])
    have len: "length (pages_data s) = len" using Suc.prems(1) by (simp add: init_inv_def)
    have pred: "?i - 16 = of_nat (16 * k)" by simp
    have "thread_16kb_blocks ?i (of_nat (16 * f)) s =
        thread_16kb_blocks (of_nat (16 * k)) (of_nat (16 * f)) ?s"
      using le bound unfolding thread_16kb_blocks.simps [of ?i] i pred len by simp
    moreover have "min f (k + 1) = min f (Suc k + 1)" using True by simp
    ultimately show ?thesis
      using Suc.IH [OF inv] Suc.prems by simp
  qed
qed

text \<open>
  Enough conditions on the boot parameters: the RAM fits below \<open>2 ^ 32\<close>, the boot memory lies in the
  kernel's window on the physical memory, and the page array placed after it stays below \<open>2 ^ 32\<close>.
\<close>

definition boot_params_ok :: "BootParams \<Rightarrow> bool" where
  "boot_params_ok bp \<longleftrightarrow>
     16384 \<le> unat (boot_ram_size bp) \<and>
     unat (boot_ram_start bp) + unat (boot_ram_size bp) \<le> 2 ^ 32 \<and>
     0xe0000000 \<le> unat (bootmem_start bp) \<and>
     unat (bootmem_start bp) + unat (bootmem_size bp) +
       unat (boot_ram_size bp) div 16384 * 16 * 8 + 16384 < 2 ^ 32"

definition boot_blocks :: "BootParams \<Rightarrow> nat" where
  "boot_blocks bp = unat (boot_ram_size bp) div 16384"

text \<open>The first 16 KB block that lies after the page array.\<close>

definition boot_first_block :: "BootParams \<Rightarrow> nat" where
  "boot_first_block bp =
     (unat (bootmem_start bp) - 0xe0000000 + unat (bootmem_size bp) + boot_blocks bp * 128 + 16383)
       div 16384"

definition boot_free :: "BootParams \<Rightarrow> PageOrder \<Rightarrow> nat list" where
  "boot_free bp ord =
     (if ord = Order16KB then map ((*) 16) [boot_first_block bp..<boot_blocks bp] else [])"

lemma unat_round_up:
  assumes "unat a + unat b < 2 ^ 32" and "0 < unat b"
  shows "unat (round_up_u32 a b) = (unat a + unat b - 1) div unat b * unat b"
proof -
  have ab: "unat (a + b) = unat a + unat b"
    using assms(1) by (rule unat_add_u32)
  then have minus: "unat (a + b - 1) = unat a + unat b - 1"
    using assms by (subst unat_minus_u32) simp_all
  have "unat ((a + b - 1) div b) * unat b < 2 ^ 32"
    unfolding unat_div minus using assms(1)
    by (meson div_times_less_eq_dividend le_less_trans less_imp_diff_less)
  then show ?thesis
    unfolding round_up_u32_def by (simp only: unat_mult_u32 unat_div minus)
qed

lemma unat_round_down: "unat (round_down_u32 a b) = unat a div unat b * unat b"
proof -
  have "unat (a div b) * unat b < 2 ^ 32"
    unfolding unat_div
    by (rule le_less_trans [OF div_times_less_eq_dividend unat_u32_less])
  then show ?thesis unfolding round_down_u32_def by (simp only: unat_mult_u32 unat_div)
qed

lemma cover_16KB_blocks:
  "cover (map (\<lambda>j. (16 * j, Order16KB)) [f..<m]) = (if f \<le> m then [16 * f..<16 * m] else [])"
  by (induction m) (simp_all add: block_pages_def upt_join add.commute)

lemma init_inv_pa_inv:
  assumes inv: "init_inv (16 * m) ram (F Order16KB) s"
    and F: "F = (\<lambda>ord. if ord = Order16KB then map ((*) 16) [f..<m] else [])"
    and range: "unat ram + 16 * m * 1024 \<le> 2 ^ 32"
  shows "pa_inv s F [] []"
  unfolding pa_inv_def
proof (intro conjI)
  have free: "free_blocks F = map (\<lambda>j. (16 * j, Order16KB)) [f..<m]"
    by (simp add: free_blocks_def F comp_def)
  show "\<forall>ord. linked (pages_data s) (free_pages_lists s ord) (F ord)"
  proof
    fix ord show "linked (pages_data s) (free_pages_lists s ord) (F ord)"
      using inv by (cases ord) (simp_all add: init_inv_def F)
  qed
  show "blocks_ok (length (pages_data s)) (free_blocks F @ [] @ [])"
    using inv by (auto simp: blocks_ok_def free cover_16KB_blocks aligned_block_def init_inv_def)
  show "\<forall>p < length (pages_data s).
      next_page (pages_data s ! p) \<noteq> None \<longrightarrow> (\<exists>ord. p \<in> set (F ord))"
    using inv by (auto simp: init_inv_def)
qed (use inv range in \<open>simp_all add: init_inv_def\<close>)

lemma physical_page_allocator_init_post:
  assumes ok: "boot_params_ok bp"
  shows "\<exists>s. physical_page_allocator_init bp phys_alloc_static = Some s \<and>
    pa_inv s (boot_free bp) [] []"
proof -
  let ?m = "boot_blocks bp" and ?f = "boot_first_block bp"
  let ?total = "round_down_u32 (boot_ram_size bp) (16 * 1024)"
  let ?len = "?total div 1024"
  let ?first = "bootmem_start bp + bootmem_size bp"
  let ?stop = "round_up_u32 (?first + ?len * sizeof_PhysicalPage) (16 * 1024)"
  let ?f_idx = "(?stop - physical_mem_start) div 1024"
  have total: "unat ?total = ?m * 16384"
    by (simp add: unat_round_down boot_blocks_def)
  have len: "unat ?len = 16 * ?m" unfolding unat_div total by simp
  have m: "1 \<le> ?m" using ok by (simp add: boot_params_ok_def boot_blocks_def Suc_le_eq div_greater_zero_iff)
  have m_le: "?m * 16384 \<le> unat (boot_ram_size bp)" by (simp add: boot_blocks_def)
  have "unat (?len * sizeof_PhysicalPage) = ?m * 128"
    using ok m_le len
    by (subst unat_mult_u32) (simp_all add: boot_params_ok_def boot_blocks_def sizeof_PhysicalPage_def)
  moreover have "unat ?first = unat (bootmem_start bp) + unat (bootmem_size bp)"
    using ok by (subst unat_add_u32) (simp_all add: boot_params_ok_def)
  ultimately have "unat (?first + ?len * sizeof_PhysicalPage) =
      unat (bootmem_start bp) + unat (bootmem_size bp) + ?m * 128"
    using ok by (subst unat_add_u32) (simp_all add: boot_params_ok_def boot_blocks_def)
  then have stop_eq: "unat ?stop = (unat (bootmem_start bp) + unat (bootmem_size bp) + ?m * 128 + 16383)
        div 16384 * 16384"
    using ok by (subst unat_round_up) (simp_all add: boot_params_ok_def boot_blocks_def)
  define x where "x = unat (bootmem_start bp) - 0xe0000000 + unat (bootmem_size bp) + ?m * 128 + 16383"
  have x: "unat (bootmem_start bp) + unat (bootmem_size bp) + ?m * 128 + 16383 = x + 229376 * 16384"
    using ok by (simp add: x_def boot_params_ok_def)
  then have stop_x: "unat ?stop = x div 16384 * 16384 + 0xe0000000"
    unfolding stop_eq x by (subst div_mult_self1) simp_all
  have f_def: "?f = x div 16384" by (simp add: boot_first_block_def x_def)
  have "unat physical_mem_start = 0xe0000000" by (simp add: physical_mem_start_def)
  then have "unat (?stop - physical_mem_start) = x div 16384 * 16384"
    by (simp only: unat_minus_u32 stop_x le_add2 add_diff_cancel_right')
  then have "unat ?f_idx = 16 * ?f"
    unfolding unat_div f_def by simp
  then have f_idx: "?f_idx = of_nat (16 * ?f)" by (rule unat_eq_of_nat_u32)
  have f_pos: "1 \<le> ?f" using m by (simp add: f_def x_def)
  have f_lt: "16 * ?f < 2 ^ 32"
    using unat_u32_less [of ?f_idx] \<open>unat ?f_idx = 16 * ?f\<close> by simp
  let ?s0 = "phys_alloc_static\<lparr>ram_starting_address := boot_ram_start bp,
      pages_data := replicate (unat ?len) \<lparr>ref_count = 0, next_page = None\<rparr>\<rparr>"
  have "init_inv (16 * ?m) (boot_ram_start bp) [] ?s0"
    using len by (simp add: init_inv_def phys_alloc_static_def)
  then have "init_inv (16 * ?m) (boot_ram_start bp) (map ((*) 16) [?m - 1 + 1..<?m]) ?s0"
    using m by simp
  then have "\<exists>s. thread_16kb_blocks (of_nat (16 * (?m - 1))) (of_nat (16 * ?f)) ?s0 = Some s \<and>
    init_inv (16 * ?m) (boot_ram_start bp) (map ((*) 16) [min ?f (?m - 1 + 1)..<?m]) s"
  proof (rule thread_16kb_blocks_inv)
    show "16 * ?m < 2 ^ 32" using unat_u32_less [of ?len] unfolding len .
  qed (use m f_pos f_lt in simp_all)
  then obtain s where
    run: "thread_16kb_blocks (of_nat (16 * (?m - 1))) (of_nat (16 * ?f)) ?s0 = Some s"
    and inv: "init_inv (16 * ?m) (boot_ram_start bp) (map ((*) 16) [min ?f (?m - 1 + 1)..<?m]) s"
    by blast
  have "unat (?len - 16) = 16 * (?m - 1)"
    using m len by (subst unat_minus_u32) simp_all
  then have last: "?len - 16 = of_nat (16 * (?m - 1))"
    by (rule unat_eq_of_nat_u32)
  have init: "physical_page_allocator_init bp phys_alloc_static = Some s"
    using run unfolding physical_page_allocator_init_def Let_def f_idx last by simp
  have L: "map ((*) 16) [min ?f (?m - 1 + 1)..<?m] = boot_free bp Order16KB"
    using m by (cases "?f \<le> ?m") (simp_all add: boot_free_def)
  have "pa_inv s (boot_free bp) [] []"
  proof (rule init_inv_pa_inv)
    show "init_inv (16 * ?m) (boot_ram_start bp) (boot_free bp Order16KB) s"
      using inv unfolding L .
    show "boot_free bp = (\<lambda>ord. if ord = Order16KB then map ((*) 16) [?f..<?m] else [])"
      by (rule ext) (simp add: boot_free_def)
    show "unat (boot_ram_start bp) + 16 * ?m * 1024 \<le> 2 ^ 32"
      using ok m_le by (simp add: boot_params_ok_def)
  qed
  with init show ?thesis by blast
qed

end
