(* ===== verification/PageAllocator.thy ===== *)
theory PageAllocator
  imports PhysicalAllocInv
begin

text \<open>
  What the rest of the kernel may rely on when it uses the physical page allocator: the interface as a
  locale, interpreted by the model of the allocator, the reachable states of the allocator, and a client
  that allocates several pages or none (\<^verbatim>\<open>alloc_thread_user_stack\<close> of \<^verbatim>\<open>kernel/scheduler.cpp\<close>).
\<close>

subsection \<open>The interface\<close>

text \<open>
  \<open>owned s A\<close>: the blocks of \<open>A\<close> belong to clients that hold their only reference.
\<close>

locale page_allocator =
  fixes alloc :: "'ord \<Rightarrow> 's \<Rightarrow> ((GenericErrorCode + nat) \<times> 's) option"
    and free :: "nat \<Rightarrow> 'ord \<Rightarrow> 's \<Rightarrow> 's option"
    and owned :: "'s \<Rightarrow> (nat \<times> 'ord) list \<Rightarrow> bool"
  assumes alloc_law: "owned s A \<Longrightarrow> \<exists>r s'. alloc ord s = Some (r, s') \<and>
      (case r of Inl e \<Rightarrow> e = OutOfMemory \<and> s' = s | Inr p \<Rightarrow> owned s' ((p, ord) # A))"
    and free_law: "owned s ((p, ord) # A) \<Longrightarrow> \<exists>s'. free p ord s = Some s' \<and> owned s' A"
    and owned_perm: "owned s A \<Longrightarrow> mset A = mset A' \<Longrightarrow> owned s A'"

subsection \<open>A client: all pages or none\<close>

text \<open>
  \<open>free_pages\<close> is the inner loop of \<^verbatim>\<open>alloc_thread_user_stack\<close> that gives back the pages obtained so far,
  \<open>alloc_pages\<close> the outer loop over the missing pages; \<open>None\<close> in the result is the null pointer.
\<close>

fun free_pages :: "(nat \<Rightarrow> 'ord \<Rightarrow> 's \<Rightarrow> 's option) \<Rightarrow> 'ord \<Rightarrow> nat list \<Rightarrow> 's \<Rightarrow> 's option" where
  "free_pages free ord [] s = Some s"
| "free_pages free ord (p # ps) s = do { s' \<leftarrow> free p ord s; free_pages free ord ps s' }"

fun alloc_pages ::
  "('ord \<Rightarrow> 's \<Rightarrow> ((GenericErrorCode + nat) \<times> 's) option) \<Rightarrow> (nat \<Rightarrow> 'ord \<Rightarrow> 's \<Rightarrow> 's option) \<Rightarrow>
   'ord \<Rightarrow> nat \<Rightarrow> nat list \<Rightarrow> 's \<Rightarrow> (nat list option \<times> 's) option" where
  "alloc_pages alloc free ord 0 pages s = Some (Some pages, s)"
| "alloc_pages alloc free ord (Suc n) pages s = do {
     (r, s1) \<leftarrow> alloc ord s;
     (case r of
        Inl e \<Rightarrow> do { s2 \<leftarrow> free_pages free ord pages s1; Some (None, s2) }
      | Inr p \<Rightarrow> alloc_pages alloc free ord n (pages @ [p]) s1)
   }"

definition alloc_user_stack_pages :: "phys_alloc \<Rightarrow> (nat list option \<times> phys_alloc) option" where
  "alloc_user_stack_pages s = alloc_pages physical_page_alloc physical_page_free Order4KB 4 [] s"

context page_allocator
begin

lemma free_pages_ok:
  "owned s (map (\<lambda>p. (p, ord)) ps @ A) \<Longrightarrow>
   \<exists>s'. free_pages free ord ps s = Some s' \<and> owned s' A"
proof (induction ps arbitrary: s)
  case (Cons p ps)
  then obtain s1 where "free p ord s = Some s1" "owned s1 (map (\<lambda>p. (p, ord)) ps @ A)"
    using free_law [of s p ord] by auto
  with Cons.IH [of s1] show ?case by simp
qed simp

lemma alloc_pages_ok:
  "owned s (map (\<lambda>p. (p, ord)) pages @ A) \<Longrightarrow>
   \<exists>r s'. alloc_pages alloc free ord n pages s = Some (r, s') \<and>
     (case r of
        None \<Rightarrow> owned s' A
      | Some ps \<Rightarrow> length ps = length pages + n \<and> owned s' (map (\<lambda>p. (p, ord)) ps @ A))"
proof (induction n arbitrary: pages s)
  case (Suc n)
  from alloc_law [OF Suc.prems, of ord] obtain r s1 where
    alloc: "alloc ord s = Some (r, s1)"
    and post: "case r of Inl e \<Rightarrow> e = OutOfMemory \<and> s1 = s
      | Inr p \<Rightarrow> owned s1 ((p, ord) # map (\<lambda>p. (p, ord)) pages @ A)" by blast
  show ?case
  proof (cases r)
    case (Inl e)
    with post Suc.prems have "owned s1 (map (\<lambda>p. (p, ord)) pages @ A)" by simp
    from free_pages_ok [OF this] show ?thesis using alloc Inl by auto
  next
    case (Inr p)
    with post have "owned s1 ((p, ord) # map (\<lambda>p. (p, ord)) pages @ A)" by simp
    then have "owned s1 (map (\<lambda>p. (p, ord)) (pages @ [p]) @ A)"
      by (rule owned_perm) simp
    from Suc.IH [OF this] obtain q s' where
      "alloc_pages alloc free ord n (pages @ [p]) s1 = Some (q, s')"
      and "case q of None \<Rightarrow> owned s' A
        | Some ps \<Rightarrow> length ps = length (pages @ [p]) + n \<and> owned s' (map (\<lambda>p. (p, ord)) ps @ A)"
      by blast
    then show ?thesis using alloc Inr by (cases q) simp_all
  qed
qed simp

end

subsection \<open>The model implements the interface\<close>

definition pa_owned :: "phys_alloc \<Rightarrow> block list \<Rightarrow> bool" where
  "pa_owned s A \<longleftrightarrow>
     (\<exists>F B. pa_inv s F (A @ B) [] \<and> (\<forall>b \<in> set A. ref_count (pages_data s ! fst b) = 1))"

lemma pa_inv_perm:
  assumes "pa_inv s F A H" and "mset A = mset A'"
  shows "pa_inv s F A' H"
proof -
  have "mset (free_blocks F @ A @ H) = mset (free_blocks F @ A' @ H)"
    and "set A = set A'"
    using assms(2) by (auto dest: mset_eq_setD)
  then show ?thesis using assms(1) blocks_ok_perm unfolding pa_inv_def by metis
qed

lemma pa_inv_heads_ne:
  assumes "pa_inv s F ((p, ord) # A) []" and "b \<in> set A"
  shows "fst b \<noteq> p"
  using pa_inv_heads [OF assms(1)] assms(2) by auto

lemma pa_owned_alloc:
  assumes "pa_owned s A"
  shows "\<exists>r s'. physical_page_alloc ord s = Some (r, s') \<and>
    (case r of Inl e \<Rightarrow> e = OutOfMemory \<and> s' = s | Inr p \<Rightarrow> pa_owned s' ((p, ord) # A))"
proof -
  obtain F B where inv: "pa_inv s F (A @ B) []"
    and one: "\<forall>b \<in> set A. ref_count (pages_data s ! fst b) = 1"
    using assms by (auto simp: pa_owned_def)
  obtain r s' where run: "physical_page_alloc ord s = Some (r, s')"
    and post: "page_alloc_post s F (A @ B) ord r s'" by (rule physical_page_alloc_post [OF inv])
  show ?thesis
  proof (cases r)
    case (Inl e)
    then show ?thesis using run post by simp
  next
    case (Inr p)
    with post obtain F' where p1: "ref_count (pages_data s' ! p) = 1"
      and same: "\<And>q. q < length (pages_data s) \<Longrightarrow> q \<noteq> p \<Longrightarrow>
            ref_count (pages_data s' ! q) = ref_count (pages_data s ! q)"
      and inv': "pa_inv s' F' ((p, ord) # A @ B) []" by (blast elim: page_alloc_post_InrE)
    have "ref_count (pages_data s' ! fst b) = 1" if "b \<in> set A" for b
    proof -
      have "fst b < length (pages_data s)"
        using pa_inv_bound [OF inv, of "fst b" "snd b"] that by simp
      then show ?thesis using same one that pa_inv_heads_ne [OF inv', of b] by simp
    qed
    then have "pa_owned s' ((p, ord) # A)"
      unfolding pa_owned_def using inv' p1 by auto
    then show ?thesis using run Inr by simp
  qed
qed

lemma pa_owned_free:
  assumes "pa_owned s ((p, ord) # A)"
  shows "\<exists>s'. physical_page_free p ord s = Some s' \<and> pa_owned s' A"
proof -
  obtain F B where inv: "pa_inv s F ((p, ord) # A @ B) []"
    and one: "\<forall>b \<in> set ((p, ord) # A). ref_count (pages_data s ! fst b) = 1"
    using assms by (auto simp: pa_owned_def)
  have p1: "ref_count (pages_data s ! p) = 1" using one by simp
  from physical_page_free_post [OF inv] p1 obtain s' where
    run: "physical_page_free p ord s = Some s'"
    and inv': "pa_inv s' (F(ord := p # F ord)) (A @ B) []" by auto
  have "ref_count (pages_data s' ! fst b) = 1" if b: "b \<in> set A" for b
  proof -
    have ne: "fst b \<noteq> p" using pa_inv_heads_ne [OF inv, of b] b by simp
    have bound: "fst b < length (pages_data s)"
      using pa_inv_bound [OF inv, of "fst b" "snd b"] b by simp
    have pb: "p < length (pages_data s)"
      using pa_inv_bound [OF inv, of p ord] by simp
    have "p \<notin> fst ` set (A @ B)" using pa_inv_heads [OF inv] by auto
    then have inv1: "pa_inv (set_ref_count p 0 s) F (A @ B) [(p, ord)]"
      by (intro set_ref_count_inv [OF inv]) auto
    have "append_page_to_free_pages_list p ord (set_ref_count p 0 s) = Some s'"
      using run p1 pb raw_page_free_append [OF inv1]
      by (simp add: physical_page_free_def page_at_def)
    then have "pa_frame (set_ref_count p 0 s) s'" by (rule append_page_frame)
    then show ?thesis
      using pa_frame_ref_count [of "set_ref_count p 0 s" s' "fst b"] one b ne bound by auto
  qed
  then have "pa_owned s' A" unfolding pa_owned_def using inv' by blast
  with run show ?thesis by blast
qed

lemma pa_owned_perm:
  assumes "pa_owned s A" and "mset A = mset A'"
  shows "pa_owned s A'"
proof -
  obtain F B where inv: "pa_inv s F (A @ B) []"
    and one: "\<forall>b \<in> set A. ref_count (pages_data s ! fst b) = 1"
    using assms(1) by (auto simp: pa_owned_def)
  have "pa_inv s F (A' @ B) []" using inv by (rule pa_inv_perm) (simp add: assms(2))
  moreover have "set A' = set A" using assms(2) by (auto dest: mset_eq_setD)
  ultimately show ?thesis unfolding pa_owned_def using one by auto
qed

interpretation pa: page_allocator physical_page_alloc physical_page_free pa_owned
  by unfold_locales (rule pa_owned_alloc pa_owned_free pa_owned_perm, assumption+)+

subsection \<open>Reachable states\<close>

text \<open>
  The states of the allocator after boot, with the list \<open>A\<close> of the blocks that clients hold.  \<open>share\<close> is
  the \<^verbatim>\<open>ref_count++\<close> with which \<^verbatim>\<open>vm_create_address_space\<close> takes a second reference to a page.
\<close>

inductive pa_reach :: "BootParams \<Rightarrow> phys_alloc \<Rightarrow> block list \<Rightarrow> bool" for bp where
  boot: "physical_page_allocator_init bp phys_alloc_static = Some s \<Longrightarrow> pa_reach bp s []"
| alloc: "pa_reach bp s A \<Longrightarrow> physical_page_alloc ord s = Some (Inr p, s') \<Longrightarrow>
    pa_reach bp s' ((p, ord) # A)"
| alloc_fail: "pa_reach bp s A \<Longrightarrow> physical_page_alloc ord s = Some (Inl e, s') \<Longrightarrow>
    pa_reach bp s' A"
| share: "pa_reach bp s A \<Longrightarrow> (p, ord) \<in> set A \<Longrightarrow>
    pa_reach bp (set_ref_count p (ref_count (pages_data s ! p) + 1) s) A"
| free: "pa_reach bp s A \<Longrightarrow> (p, ord) \<in> set A \<Longrightarrow> physical_page_free p ord s = Some s' \<Longrightarrow>
    pa_reach bp s' (if ref_count (pages_data s ! p) = 1 then remove1 (p, ord) A else A)"

definition boot_pages :: "BootParams \<Rightarrow> nat list" where
  "boot_pages bp = cover (free_blocks (boot_free bp))"

definition reach_inv :: "BootParams \<Rightarrow> phys_alloc \<Rightarrow> block list \<Rightarrow> bool" where
  "reach_inv bp s A \<longleftrightarrow>
     (\<exists>F. pa_inv s F A [] \<and> mset (cover (free_blocks F)) + mset (cover A) = mset (boot_pages bp))"

lemma reach_inv_alloc:
  assumes "reach_inv bp s A" and "physical_page_alloc ord s = Some (r, s')"
  shows "case r of Inl e \<Rightarrow> reach_inv bp s' A | Inr p \<Rightarrow> reach_inv bp s' ((p, ord) # A)"
proof -
  obtain F where inv: "pa_inv s F A []"
    and tot: "mset (cover (free_blocks F)) + mset (cover A) = mset (boot_pages bp)"
    using assms(1) by (auto simp: reach_inv_def)
  obtain q s'' where "physical_page_alloc ord s = Some (q, s'')"
    and "page_alloc_post s F A ord q s''" by (rule physical_page_alloc_post [OF inv])
  then have post: "page_alloc_post s F A ord r s'" using assms(2) by simp
  show ?thesis
  proof (cases r)
    case (Inl e)
    then show ?thesis using post assms(1) by simp
  next
    case (Inr p)
    with post obtain F' where "pa_inv s' F' ((p, ord) # A) []"
      and "mset (cover (free_blocks F)) =
        mset (block_pages (p, ord)) + mset (cover (free_blocks F'))"
      by (blast elim: page_alloc_post_InrE)
    then show ?thesis using Inr tot by (auto simp: reach_inv_def ac_simps)
  qed
qed

lemma reach_inv_free:
  assumes "reach_inv bp s A" and mem: "(p, ord) \<in> set A"
    and run: "physical_page_free p ord s = Some s'"
  shows "reach_inv bp s' (if ref_count (pages_data s ! p) = 1 then remove1 (p, ord) A else A)"
proof -
  obtain F where inv: "pa_inv s F A []"
    and tot: "mset (cover (free_blocks F)) + mset (cover A) = mset (boot_pages bp)"
    using assms(1) by (auto simp: reach_inv_def)
  let ?A = "remove1 (p, ord) A"
  have A: "mset A = mset ((p, ord) # ?A)" using mem by simp
  have inv': "pa_inv s F ((p, ord) # ?A) []" using inv A by (rule pa_inv_perm)
  show ?thesis
  proof (cases "ref_count (pages_data s ! p) = 1")
    case True
    then have post: "pa_inv s' (F(ord := p # F ord)) ?A []"
      using physical_page_free_post [OF inv'] run by simp
    have "mset (cover (free_blocks (F(ord := p # F ord)))) =
        mset (block_pages (p, ord)) + mset (cover (free_blocks F))"
      by (cases ord) (simp_all add: free_blocks_def)
    moreover have "mset (cover A) = mset (block_pages (p, ord)) + mset (cover ?A)"
      using cover_perm [OF A] by simp
    ultimately show ?thesis using True post tot by (auto simp: reach_inv_def ac_simps)
  next
    case False
    then have "pa_inv s' F ((p, ord) # ?A) []"
      using physical_page_free_post [OF inv'] run by auto
    then have "pa_inv s' F A []" by (rule pa_inv_perm) (rule A [symmetric])
    then show ?thesis using False tot by (auto simp: reach_inv_def)
  qed
qed

lemma reach_inv_share:
  assumes "reach_inv bp s A" and "(p, ord) \<in> set A"
  shows "reach_inv bp (set_ref_count p (ref_count (pages_data s ! p) + 1) s) A"
proof -
  obtain F where inv: "pa_inv s F A []"
    and tot: "mset (cover (free_blocks F)) + mset (cover A) = mset (boot_pages bp)"
    using assms(1) by (auto simp: reach_inv_def)
  have "p < length (pages_data s)" using pa_inv_bound [OF inv, of p ord] assms(2) by simp
  then have "0 \<le> ref_count (pages_data s ! p)" using inv by (simp add: pa_inv_def)
  then have "pa_inv (set_ref_count p (ref_count (pages_data s ! p) + 1) s) F A []"
    using assms(2) by (intro set_ref_count_inv [OF inv]) force+
  with tot show ?thesis by (auto simp: reach_inv_def)
qed

lemma pa_reach_inv: "pa_reach bp s A \<Longrightarrow> boot_params_ok bp \<Longrightarrow> reach_inv bp s A"
proof (induction rule: pa_reach.induct)
  case (boot s)
  then show ?case
    using physical_page_allocator_init_post [of bp] by (auto simp: reach_inv_def boot_pages_def)
next
  case (alloc s A ord p s')
  then show ?case using reach_inv_alloc [of bp s A ord "Inr p" s'] by simp
next
  case (alloc_fail s A ord e s')
  then show ?case using reach_inv_alloc [of bp s A ord "Inl e" s'] by simp
qed (simp_all add: reach_inv_share reach_inv_free)

end
