(* ===== verification/PageAllocatorProps.thy ===== *)
theory PageAllocatorProps
  imports PageAllocator
begin

text \<open>The properties of the physical page allocator, with their witnesses.\<close>

subsection \<open>A concrete machine for the witnesses\<close>

text \<open>64 KB of RAM; the boot memory takes the first 256 bytes, the page array follows it.\<close>

definition boot_example :: BootParams where
  "boot_example = \<lparr>boot_ram_start = 0x40000000, boot_ram_size = 0x10000,
     bootmem_start = 0xe0000000, bootmem_size = 0x100\<rparr>"

lemma boot_example_ok: "boot_params_ok boot_example"
  by (simp add: boot_params_ok_def boot_example_def)

lemma boot_example_free:
  "boot_blocks boot_example = 4" "boot_first_block boot_example = 1"
  by (simp_all add: boot_blocks_def boot_first_block_def boot_example_def)

lemma boot_example_state:
  obtains s where "physical_page_allocator_init boot_example phys_alloc_static = Some s"
    "pa_inv s (boot_free boot_example) [] []" "pa_reach boot_example s []"
  using physical_page_allocator_init_post [OF boot_example_ok] pa_reach.boot by blast

lemma thread_16kb_blocks_length:
  assumes "thread_16kb_blocks i f s = Some s'"
  shows "length (pages_data s') = length (pages_data s)"
  by (rule thread_16kb_blocks.raw_induct
        [where P = "\<lambda>i f s s'. length (pages_data s') = length (pages_data s)", OF _ assms])
     (auto split: if_splits)

lemma boot_example_length:
  "physical_page_allocator_init boot_example phys_alloc_static = Some s \<Longrightarrow>
   length (pages_data s) = 64"
  unfolding physical_page_allocator_init_def Let_def
  by (drule thread_16kb_blocks_length) (simp add: boot_example_def round_down_u32_def)

lemma pa_inv_alloc_Some:
  assumes inv: "pa_inv s F A []" and ne: "F Order16KB \<noteq> []"
  shows "\<exists>p s' F'. physical_page_alloc ord s = Some (Inr p, s') \<and> pa_inv s' F' ((p, ord) # A) []"
proof -
  obtain r s' where run: "physical_page_alloc ord s = Some (r, s')"
    and post: "page_alloc_post s F A ord r s'" by (rule physical_page_alloc_post [OF inv])
  have "order_pages ord \<le> order_pages Order16KB" by (cases ord) simp_all
  with run post ne show ?thesis by (cases r) (auto elim: page_alloc_post_InrE)
qed

lemma boot_example_alloc:
  obtains s p s' where "pa_reach boot_example s []"
    "physical_page_alloc ord s = Some (Inr p, s')" "pa_reach boot_example s' [(p, ord)]"
proof -
  obtain s where inv: "pa_inv s (boot_free boot_example) [] []"
    and reach: "pa_reach boot_example s []" by (rule boot_example_state)
  have "boot_free boot_example Order16KB \<noteq> []"
    by (simp add: boot_free_def boot_example_free)
  from pa_inv_alloc_Some [OF inv this, of ord] obtain p s' where
    run: "physical_page_alloc ord s = Some (Inr p, s')" by blast
  with reach show ?thesis by (blast intro: that pa_reach.alloc)
qed

subsection \<open>Boot\<close>

text \<open>C39: after \<^verbatim>\<open>physical_page_allocator_init\<close> the 16 KB list holds, in increasing order, exactly the
  whole 16 KB blocks of RAM behind the page array, the two other lists are empty, and the lists, the
  reference counts and the \<^verbatim>\<open>next\<close> pointers satisfy the allocator invariant; the index loop does not
  wrap around.\<close>

theorem allocator_init_correct:
  assumes "boot_params_ok bp"
  shows "\<exists>s. physical_page_allocator_init bp phys_alloc_static = Some s \<and>
    linked (pages_data s) (free_pages_lists s Order16KB)
      (map ((*) 16) [boot_first_block bp..<boot_blocks bp]) \<and>
    free_pages_lists s Order4KB = None \<and> free_pages_lists s Order1KB = None \<and>
    pa_inv s (boot_free bp) [] []"
proof -
  obtain s where s: "physical_page_allocator_init bp phys_alloc_static = Some s"
    and inv: "pa_inv s (boot_free bp) [] []"
    using physical_page_allocator_init_post [OF assms] by blast
  show ?thesis
    using s inv pa_inv_linked [OF inv, of Order16KB] pa_inv_head [OF inv]
    by (auto simp: boot_free_def)
qed

theorem allocator_init_correct_witness:
  "\<exists>s. physical_page_allocator_init boot_example phys_alloc_static = Some s \<and>
    linked (pages_data s) (free_pages_lists s Order16KB) [16, 32, 48]"
  using allocator_init_correct [OF boot_example_ok]
  by (auto simp: boot_example_free upt_rec)

subsection \<open>Allocation\<close>

text \<open>C1: in every reachable state an allocation of any order returns normally: it either reports
  \<^verbatim>\<open>OutOfMemory\<close> and leaves the state alone, or returns a page that is aligned to its order, has
  reference count 1, and whose block overlaps no block that a client holds.\<close>

theorem alloc_safe:
  assumes "boot_params_ok bp" and "pa_reach bp s A"
  shows "\<exists>r s'. physical_page_alloc ord s = Some (r, s') \<and>
    (case r of
       Inl e \<Rightarrow> e = OutOfMemory \<and> s' = s
     | Inr p \<Rightarrow> ref_count (pages_data s' ! p) = 1 \<and> p mod order_pages ord = 0 \<and>
         (\<forall>b \<in> set A. set (block_pages b) \<inter> set (block_pages (p, ord)) = {}))"
proof -
  obtain F where inv: "pa_inv s F A []"
    using pa_reach_inv [OF assms(2,1)] by (auto simp: reach_inv_def)
  obtain r s' where run: "physical_page_alloc ord s = Some (r, s')"
    and post: "page_alloc_post s F A ord r s'" by (rule physical_page_alloc_post [OF inv])
  show ?thesis
  proof (cases r)
    case (Inr p)
    with post obtain F' where inv': "pa_inv s' F' ((p, ord) # A) []"
      and p1: "ref_count (pages_data s' ! p) = 1" by (blast elim: page_alloc_post_InrE)
    have "distinct (cover ((free_blocks F') @ (p, ord) # A))"
      using inv' by (simp add: pa_inv_def blocks_ok_def)
    then have "\<forall>b \<in> set A. set (block_pages b) \<inter> set (block_pages (p, ord)) = {}"
      using distinct_cover_disjoint [of "free_blocks F'" "(p, ord)" A] by auto
    moreover have "p mod order_pages ord = 0"
      using pa_inv_aligned [OF inv', of "(p, ord)"] by (simp add: aligned_block_def)
    ultimately show ?thesis using run p1 Inr by simp
  qed (use run post in simp)
qed

theorem alloc_safe_witness:
  "\<exists>s p s' r s''. physical_page_alloc Order4KB s = Some (Inr p, s') \<and>
    physical_page_alloc Order1KB s' = Some (r, s'')"
proof -
  obtain s p s' where "physical_page_alloc Order4KB s = Some (Inr p, s')"
    and "pa_reach boot_example s' [(p, Order4KB)]" by (rule boot_example_alloc)
  with alloc_safe [OF boot_example_ok this(2), of Order1KB] show ?thesis by blast
qed

text \<open>With empty lists the recursion ends in the error.\<close>

lemma no_larger_free_alloc:
  assumes "pa_inv s F A []" and "\<forall>ord'. order_pages ord \<le> order_pages ord' \<longrightarrow> F ord' = []"
  shows "physical_page_alloc ord s = Some (Inl OutOfMemory, s)"
proof -
  have "free_pages_lists s ord' = None" if "order_pages ord \<le> order_pages ord'" for ord'
    using pa_inv_linked [OF assms(1), of ord'] assms(2) that by simp
  then show ?thesis
    by (cases ord) (simp_all add: physical_page_alloc_def raw_page_alloc_def raw_page_alloc_16KB_def raw_page_alloc_4KB_def
        raw_page_alloc_1KB_def)
qed

text \<open>C3: \<^verbatim>\<open>physical_page_alloc\<close> reports \<^verbatim>\<open>OutOfMemory\<close> exactly when there is no free block of the requested
  size or of a larger one.  Whenever some such list is not empty, the allocation succeeds, takes exactly
  one block's pages out of the free memory, and keeps the allocator invariant; when they are all empty, it
  returns the error and changes nothing.\<close>

theorem alloc_complete:
  assumes "pa_inv s F A []"
  shows "if \<exists>ord'. order_pages ord \<le> order_pages ord' \<and> F ord' \<noteq> []
    then \<exists>p s' F'. physical_page_alloc ord s = Some (Inr p, s') \<and>
      pa_inv s' F' ((p, ord) # A) [] \<and>
      mset (cover (free_blocks F)) = mset (block_pages (p, ord)) + mset (cover (free_blocks F'))
    else physical_page_alloc ord s = Some (Inl OutOfMemory, s)"
proof -
  obtain r s' where run: "physical_page_alloc ord s = Some (r, s')"
    and post: "page_alloc_post s F A ord r s'" by (rule physical_page_alloc_post [OF assms])
  show ?thesis
  proof (cases r)
    case (Inl e)
    then show ?thesis using run post by simp
  next
    case (Inr p)
    then obtain F' where F': "pa_inv s' F' ((p, ord) # A) []"
        "mset (cover (free_blocks F)) = mset (block_pages (p, ord)) + mset (cover (free_blocks F'))"
      using post by (blast elim: page_alloc_post_InrE)
    moreover have "\<exists>ord'. order_pages ord \<le> order_pages ord' \<and> F ord' \<noteq> []"
      using no_larger_free_alloc [OF assms, of ord] run Inr by auto
    ultimately show ?thesis using run Inr by auto
  qed
qed

theorem alloc_complete_witness:
  "\<exists>s p s'. physical_page_allocator_init boot_example phys_alloc_static = Some s \<and>
    physical_page_alloc Order1KB s = Some (Inr p, s')"
proof -
  obtain s where s: "physical_page_allocator_init boot_example phys_alloc_static = Some s"
    and inv: "pa_inv s (boot_free boot_example) [] []" by (rule boot_example_state)
  have "order_pages Order1KB \<le> order_pages Order16KB \<and> boot_free boot_example Order16KB \<noteq> []"
    by (simp add: boot_free_def boot_example_free)
  with s alloc_complete [OF inv, of Order1KB] show ?thesis by (auto split: if_splits)
qed

text \<open>C2: in every reachable state the kilobytes of RAM that the allocator manages are partitioned: each
  one lies in exactly one free block or in exactly one block held by a client.  No operation loses,
  duplicates or overlaps memory.\<close>

theorem memory_partitioned:
  assumes "boot_params_ok bp" and "pa_reach bp s A"
  shows "\<exists>F. (\<forall>ord. linked (pages_data s) (free_pages_lists s ord) (F ord)) \<and>
    mset (cover (free_blocks F @ A)) =
      mset (cover (map (\<lambda>j. (16 * j, Order16KB)) [boot_first_block bp..<boot_blocks bp])) \<and>
    distinct (cover (free_blocks F @ A))"
proof -
  obtain F where inv: "pa_inv s F A []"
    and tot: "mset (cover (free_blocks F)) + mset (cover A) = mset (boot_pages bp)"
    using pa_reach_inv [OF assms(2,1)] by (auto simp: reach_inv_def)
  have "boot_pages bp =
      cover (map (\<lambda>j. (16 * j, Order16KB)) [boot_first_block bp..<boot_blocks bp])"
    by (simp add: boot_pages_def free_blocks_def boot_free_def comp_def)
  with inv tot show ?thesis
    by (auto simp: pa_inv_def blocks_ok_def intro!: exI [of _ F])
qed

theorem memory_partitioned_witness:
  "\<exists>s p F. pa_reach boot_example s [(p, Order4KB)] \<and>
    mset (cover (free_blocks F @ [(p, Order4KB)])) = mset [16..<64]"
proof -
  obtain s0 p s where "physical_page_alloc Order4KB s0 = Some (Inr p, s)"
    and reach: "pa_reach boot_example s [(p, Order4KB)]" by (rule boot_example_alloc)
  with memory_partitioned [OF boot_example_ok reach] show ?thesis
    unfolding cover_16KB_blocks by (auto simp: boot_example_free)
qed

subsection \<open>Deallocation\<close>

text \<open>Freeing a page does not touch the reference counts of other pages.\<close>

lemma physical_page_free_counts:
  assumes inv: "pa_inv s F ((p, ord) # A) []" and run: "physical_page_free p ord s = Some s'" and q: "q < length (pages_data s)"
  shows "ref_count (pages_data s' ! q) = ref_count (pages_data s ! q) - (if q = p then 1 else 0)"
proof -
  have pb: "p < length (pages_data s)" using pa_inv_bound [OF inv, of p ord] by simp
  show ?thesis
  proof (cases "ref_count (pages_data s ! p) = 1")
    case True
    have "p \<notin> fst ` set A" using pa_inv_heads [OF inv] by auto
    then have inv1: "pa_inv (set_ref_count p 0 s) F A [(p, ord)]" by (intro set_ref_count_inv [OF inv]) auto
    have "append_page_to_free_pages_list p ord (set_ref_count p 0 s) = Some s'"
      using run True pb raw_page_free_append [OF inv1] by (simp add: physical_page_free_def page_at_def)
    then have "pa_frame (set_ref_count p 0 s) s'" by (rule append_page_frame)
    then show ?thesis using pa_frame_ref_count [of "set_ref_count p 0 s" s' q] pb q True
      by (simp add: set_ref_count_def nth_list_update)
  next
    case False
    then have "s' = set_ref_count p (ref_count (pages_data s ! p) - 1) s" using physical_page_free_post [OF inv] run by auto
    then show ?thesis using pb q by (simp add: set_ref_count_def nth_list_update)
  qed
qed

text \<open>C4: in every reachable state a client may drop a reference to any block it holds: the call returns
  normally, the reference count of the block goes down by one and no other one changes.  When it reaches zero, the
  block is put in front of the blocks on the free list of its order; the lists keep every block that they had.\<close>

theorem free_safe:
  assumes "boot_params_ok bp" and "pa_reach bp s A" and "(p, ord) \<in> set A"
  shows "\<exists>F s'. (\<forall>lo. linked (pages_data s) (free_pages_lists s lo) (F lo)) \<and>
    physical_page_free p ord s = Some s' \<and>
    (\<forall>q < length (pages_data s). ref_count (pages_data s' ! q) = ref_count (pages_data s ! q) - (if q = p then 1 else 0)) \<and>
    (\<forall>lo. linked (pages_data s') (free_pages_lists s' lo)
       (if lo = ord \<and> ref_count (pages_data s ! p) = 1 then p # F lo else F lo))"
proof -
  obtain F where inv: "pa_inv s F A []"
    using pa_reach_inv [OF assms(2,1)] by (auto simp: reach_inv_def)
  have A: "mset A = mset ((p, ord) # remove1 (p, ord) A)" using assms(3) by simp
  have inv': "pa_inv s F ((p, ord) # remove1 (p, ord) A) []" using inv A by (rule pa_inv_perm)
  obtain s' A' where run: "physical_page_free p ord s = Some s'"
      and inv2: "pa_inv s' (if ref_count (pages_data s ! p) = 1 then F(ord := p # F ord) else F) A' []"
    using physical_page_free_post [OF inv'] by (cases "ref_count (pages_data s ! p) = 1") auto
  have "linked (pages_data s') (free_pages_lists s' lo)
      (if lo = ord \<and> ref_count (pages_data s ! p) = 1 then p # F lo else F lo)" for lo
    using pa_inv_linked [OF inv2, of lo] by (auto split: if_splits)
  then show ?thesis
    using run physical_page_free_counts [OF inv' run] pa_inv_linked [OF inv] by (intro exI [of _ F] exI [of _ s']) simp
qed

theorem free_safe_witness:
  "\<exists>s p s'. pa_reach boot_example s [(p, Order1KB)] \<and> physical_page_free p Order1KB s = Some s'"
proof -
  obtain s0 p s where "physical_page_alloc Order1KB s0 = Some (Inr p, s)"
    and reach: "pa_reach boot_example s [(p, Order1KB)]" by (rule boot_example_alloc)
  with free_safe [OF boot_example_ok reach, of p Order1KB] show ?thesis by auto
qed

text \<open>The code that would merge four free buddies into the next larger block never runs on a reachable
  state: freeing a block smaller than 16 KB leaves the list of every other order as it was, whatever its
  buddies are, so a 16 KB block that was split once is never available as a 16 KB block again.\<close>

theorem buddies_never_merged:
  assumes "boot_params_ok bp" and "pa_reach bp s A" and "(p, ord) \<in> set A"
    and "physical_page_free p ord s = Some s'" and "ord' \<noteq> ord"
  shows "free_pages_lists s' ord' = free_pages_lists s ord'"
proof -
  obtain F where inv: "pa_inv s F A []"
    using pa_reach_inv [OF assms(2,1)] by (auto simp: reach_inv_def)
  have A: "mset A = mset ((p, ord) # remove1 (p, ord) A)" using assms(3) by simp
  have inv': "pa_inv s F ((p, ord) # remove1 (p, ord) A) []" using inv A by (rule pa_inv_perm)
  have bound: "p < length (pages_data s)" using pa_inv_bound [OF inv', of p ord] by simp
  show ?thesis
  proof (cases "ref_count (pages_data s ! p) = 1")
    case True
    have "p \<notin> fst ` set (remove1 (p, ord) A)" using pa_inv_heads [OF inv'] by auto
    then have inv1: "pa_inv (set_ref_count p 0 s) F (remove1 (p, ord) A) [(p, ord)]"
      by (intro set_ref_count_inv [OF inv']) auto
    have "append_page_to_free_pages_list p ord (set_ref_count p 0 s) = Some s'"
      using assms(4) True bound raw_page_free_append [OF inv1]
      by (simp add: physical_page_free_def page_at_def)
    then show ?thesis
      using assms(5) by (auto simp: append_page_to_free_pages_list_def bind_eq_Some_conv)
  next
    case False
    then show ?thesis
      using physical_page_free_post [OF inv'] assms(4) by auto
  qed
qed

theorem buddies_never_merged_witness:
  "\<exists>s p s'. physical_page_free p Order4KB s = Some s' \<and>
    pa_reach boot_example s [(p, Order4KB)] \<and>
    free_pages_lists s' Order16KB = free_pages_lists s Order16KB"
proof -
  obtain s0 p s where "physical_page_alloc Order4KB s0 = Some (Inr p, s)"
    and reach: "pa_reach boot_example s [(p, Order4KB)]" by (rule boot_example_alloc)
  obtain s' where "physical_page_free p Order4KB s = Some s'"
    using reach_inv_free pa_reach_inv [OF reach boot_example_ok] physical_page_free_post
    unfolding reach_inv_def by fastforce
  with buddies_never_merged [OF boot_example_ok reach, of p Order4KB s' Order16KB] reach
  show ?thesis by auto
qed

subsection \<open>Addresses\<close>

text \<open>The physical address of a page leads back to the page, and every address inside a page's
  kilobyte leads to that page: \<^verbatim>\<open>addr2page\<close> and \<^verbatim>\<open>page2addr\<close> are inverse on the managed RAM.\<close>

theorem page_address_roundtrip:
  assumes "pa_inv s F A H" and "p < length (pages_data s)" and "d < 1024"
  shows "\<exists>a. page2addr s p = Some a \<and> addr2page s a = Some p \<and>
    addr2page s (a + of_nat d) = Some p"
proof -
  have range: "unat (ram_starting_address s) + length (pages_data s) * 1024 \<le> 2 ^ 32"
    using assms(1) by (simp add: pa_inv_def)
  show ?thesis
    using addr2page_in_page [OF range assms(2,3)] addr2page_in_page [OF range assms(2), of 0] assms(2)
    by (simp add: page2addr_eq)
qed

theorem page_address_roundtrip_witness:
  "\<exists>s a. physical_page_allocator_init boot_example phys_alloc_static = Some s \<and>
    page2addr s 17 = Some a \<and> addr2page s (a + 1023) = Some 17"
proof -
  obtain s where s: "physical_page_allocator_init boot_example phys_alloc_static = Some s"
    and inv: "pa_inv s (boot_free boot_example) [] []" by (rule boot_example_state)
  have "17 < length (pages_data s)"
    using pa_inv_linked [OF inv, of Order16KB] by (auto simp: boot_free_def boot_example_free upt_rec)
  from page_address_roundtrip [OF inv this, of 1023] s show ?thesis by auto
qed

subsection \<open>Statistics\<close>

lemma count_items_linked:
  "linked (pages_data s) h ps \<Longrightarrow> count_items h s n = Some (n + length ps)"
  by (induction ps arbitrary: h n) (subst count_items.simps, simp add: page_at_def)+

text \<open>\<^verbatim>\<open>physical_page_print_statistics\<close> always terminates and prints the true lengths of the three free
  lists, but as the totals of 4 KB and of 16 KB pages it prints the number of 1 KB pages divided by 16
  and by 64, a quarter of the number of such pages in the managed memory.\<close>

theorem statistics_totals:
  assumes "pa_inv s F A H" and "length (pages_data s) = 64 * k"
  shows "physical_page_statistics s =
    Some [64 * k, (length (pages_data s) div order_pages Order4KB) div 4,
      (length (pages_data s) div order_pages Order16KB) div 4,
      length (F Order1KB), length (F Order4KB), length (F Order16KB)]"
  using assms(2) count_items_linked [OF pa_inv_linked [OF assms(1)]]
  by (simp add: physical_page_statistics_def)

theorem statistics_totals_witness:
  "\<exists>s. physical_page_allocator_init boot_example phys_alloc_static = Some s \<and>
    physical_page_statistics s = Some [64, 4, 1, 0, 0, 3]"
proof -
  obtain s where s: "physical_page_allocator_init boot_example phys_alloc_static = Some s"
    and inv: "pa_inv s (boot_free boot_example) [] []" by (rule boot_example_state)
  have len: "length (pages_data s) = 64 * 1"
    using boot_example_length [OF s] by simp
  from statistics_totals [OF inv len] s len show ?thesis
    by (simp add: boot_free_def boot_example_free upt_rec)
qed

subsection \<open>A client: the user stack\<close>

text \<open>The page loop of \<^verbatim>\<open>alloc_thread_user_stack\<close> never crashes and leaks nothing: it ends with four
  4 KB pages that the caller owns alone, or with the null result and all the pages it had obtained given
  back.\<close>

theorem user_stack_all_or_nothing:
  assumes "pa_owned s A"
  shows "\<exists>r s'. alloc_user_stack_pages s = Some (r, s') \<and>
    (case r of
       None \<Rightarrow> pa_owned s' A
     | Some ps \<Rightarrow> length ps = 4 \<and> pa_owned s' (map (\<lambda>p. (p, Order4KB)) ps @ A))"
  using pa.alloc_pages_ok [of s Order4KB "[]" A 4] assms
  by (simp add: alloc_user_stack_pages_def cong: option.case_cong)

theorem user_stack_all_or_nothing_witness:
  "\<exists>s r s'. physical_page_allocator_init boot_example phys_alloc_static = Some s \<and>
    alloc_user_stack_pages s = Some (r, s')"
proof -
  obtain s where s: "physical_page_allocator_init boot_example phys_alloc_static = Some s"
    and inv: "pa_inv s (boot_free boot_example) [] []" by (rule boot_example_state)
  have "pa_owned s []" unfolding pa_owned_def using inv by auto
  from user_stack_all_or_nothing [OF this] s show ?thesis by blast
qed

end
