(* ===== verification/Mmu.thy ===== *)
theory Mmu
  imports Prelude
begin

text \<open>
  The translation tables of the ARM memory management unit
  (\<^verbatim>\<open>kernel/arch/arm/armv6mmu.h\<close>, \<^verbatim>\<open>armv6mmu.cpp\<close>): the bit fields of the table entries, the fields of
  the fault status register, and the address and size constants of \<^verbatim>\<open>kernel/memory/areas.h\<close>.
\<close>

subsection \<open>Bit fields\<close>

text \<open>\<open>n\<close> bits of a 32-bit word, starting at bit \<open>lo\<close>.\<close>

definition field :: "nat \<Rightarrow> nat \<Rightarrow> u32 \<Rightarrow> u32" where
  "field lo n raw = drop_bit lo raw AND mask n"

definition put_field :: "nat \<Rightarrow> nat \<Rightarrow> u32 \<Rightarrow> u32" where
  "put_field lo n v = push_bit lo (v AND mask n)"

lemma field_or [simp]: "field lo n (a OR b) = (field lo n a OR field lo n b)"
  by (simp add: field_def drop_bit_or bit.conj_disj_distrib2)

lemma field_zero [simp]: "field lo n 0 = 0"
  by (simp add: field_def)

lemma field_put_same: "lo + n \<le> 32 \<Longrightarrow> field lo n (put_field lo n v) = v AND mask n"
  by (rule bit_word_eqI) (auto simp: field_def put_field_def bit_simps)

lemma field_put_other:
  "lo + n \<le> lo' \<or> lo' + n' \<le> lo \<Longrightarrow> field lo n (put_field lo' n' v) = 0"
  by (rule bit_word_eqI) (auto simp: field_def put_field_def bit_simps)

lemma put_field_zero [simp]: "put_field lo n 0 = 0"
  by (simp add: put_field_def)

lemmas field_put = field_put_same field_put_other

subsection \<open>Permissions and indices\<close>

datatype PageAccessPermissions = Unmapped | PriviledgedOnly | UserReadOnly | UserFullAccess

fun permission_bits :: "PageAccessPermissions \<Rightarrow> u32" where
  "permission_bits Unmapped = 0"
| "permission_bits PriviledgedOnly = 1"
| "permission_bits UserReadOnly = 2"
| "permission_bits UserFullAccess = 3"

definition bits_permission :: "u32 \<Rightarrow> PageAccessPermissions" where
  "bits_permission b =
     (if b = 0 then Unmapped else if b = 1 then PriviledgedOnly
      else if b = 2 then UserReadOnly else UserFullAccess)"

lemma bits_permission_bits [simp]: "bits_permission (permission_bits p) = p"
  by (cases p) (simp_all add: bits_permission_def)

lemma permission_bits_mask [simp]: "permission_bits p AND mask 2 = permission_bits p"
  by (cases p) (simp_all add: mask_eq_exp_minus_1)

definition lvl1_index :: "u32 \<Rightarrow> nat" where
  "lvl1_index virt = unat (drop_bit 20 virt)"

definition lvl2_index :: "u32 \<Rightarrow> nat" where
  "lvl2_index virt = unat (drop_bit 12 virt AND 0xff)"

definition LVL1_TABLE_SIZE :: nat where "LVL1_TABLE_SIZE = 16 * 1024"
definition LVL2_TABLE_SIZE :: nat where "LVL2_TABLE_SIZE = 1024"

definition dfsr_fault_status :: "u32 \<Rightarrow> u32" where
  "dfsr_fault_status dfsr = ((dfsr AND 0xf) OR push_bit 4 (drop_bit 10 dfsr AND 1))"

definition dfsr_status_to_string :: "u32 \<Rightarrow> string" where
  "dfsr_status_to_string dfsr_status =
     (if dfsr_status = 0b00001 then ''Alignment''
      else if dfsr_status = 0b00000 \<or> dfsr_status = 0b00011 then ''PMSA - TLB miss''
      else if dfsr_status = 0b00100 then ''Instruction Cache Maintenance Operation Fault''
      else if dfsr_status = 0b01100 then ''External Abort on Translation (1st Level)''
      else if dfsr_status = 0b01110 then ''External Abort on Translation (2nd level)''
      else if dfsr_status = 0b00101 then ''Translation (Section)''
      else if dfsr_status = 0b00111 then ''Translation (Page)''
      else if dfsr_status = 0b01001 then ''Domain (Section)''
      else if dfsr_status = 0b01011 then ''Domain (Page)''
      else if dfsr_status = 0b01101 then ''Permission (Section)''
      else if dfsr_status = 0b01111 then ''Permission (Page)''
      else if dfsr_status = 0b01000 then ''Precise External Abort''
      else if dfsr_status = 0b01010 then ''External Abort, Precise''
      else if dfsr_status = 0b10100 then ''TLB Lock''
      else if dfsr_status = 0b11010 then ''Coprocessor Data Abort''
      else if dfsr_status = 0b10110 then ''Imprecise External Abort''
      else if dfsr_status = 0b11000 then ''Parity Error Exception''
      else if dfsr_status = 0b00010 then ''Debug Event''
      else ''Unknown'')"

subsection \<open>Table entries\<close>

definition COARSE_PAGE_TABLE_ENTRY_ID :: u32 where "COARSE_PAGE_TABLE_ENTRY_ID = 1"
definition SECTION_ENTRY_ID :: u32 where "SECTION_ENTRY_ID = 2"
definition SMALL_PAGE_ENTRY_ID :: u32 where "SMALL_PAGE_ENTRY_ID = 2"

record CoarsePageTableEntry =
  cp_identifier :: u32
  cp_sbz :: u32
  cp_non_secure :: u32
  cp_sbz2 :: u32
  cp_domain :: u32
  cp_impl_defined :: u32
  cp_base_addr :: u32

definition coarse_raw :: "CoarsePageTableEntry \<Rightarrow> u32" where
  "coarse_raw e = (put_field 0 2 (cp_identifier e) OR put_field 2 1 (cp_sbz e) OR
     put_field 3 1 (cp_non_secure e) OR put_field 4 1 (cp_sbz2 e) OR put_field 5 4 (cp_domain e) OR
     put_field 9 1 (cp_impl_defined e) OR put_field 10 22 (cp_base_addr e))"

definition coarse_of :: "u32 \<Rightarrow> CoarsePageTableEntry" where
  "coarse_of raw = \<lparr>cp_identifier = field 0 2 raw, cp_sbz = field 2 1 raw, cp_non_secure = field 3 1 raw,
     cp_sbz2 = field 4 1 raw, cp_domain = field 5 4 raw, cp_impl_defined = field 9 1 raw,
     cp_base_addr = field 10 22 raw\<rparr>"

definition coarse_base_address :: "CoarsePageTableEntry \<Rightarrow> u32" where
  "coarse_base_address e = (push_bit 10 (cp_base_addr e) AND NOT 0x3ff)"

definition make_coarse_entry :: "u32 \<Rightarrow> CoarsePageTableEntry" where
  "make_coarse_entry address = \<lparr>cp_identifier = COARSE_PAGE_TABLE_ENTRY_ID, cp_sbz = 0, cp_non_secure = 0,
     cp_sbz2 = 0, cp_domain = 0, cp_impl_defined = 0, cp_base_addr = drop_bit 10 address AND 0x3fffff\<rparr>"

record SectionEntry =
  se_identifier :: u32
  se_bufferable_writes :: u32
  se_cachable :: u32
  se_execute_never :: u32
  se_domain :: u32
  se_impl_defined :: u32
  se_access_permission :: u32
  se_tex :: u32
  se_access_permission_extension :: u32
  se_shared :: u32
  se_not_global :: u32
  se_is_supersection :: u32
  se_non_secure :: u32
  se_base_addr :: u32

definition section_raw :: "SectionEntry \<Rightarrow> u32" where
  "section_raw e = (put_field 0 2 (se_identifier e) OR put_field 2 1 (se_bufferable_writes e) OR
     put_field 3 1 (se_cachable e) OR put_field 4 1 (se_execute_never e) OR put_field 5 4 (se_domain e) OR
     put_field 9 1 (se_impl_defined e) OR put_field 10 2 (se_access_permission e) OR
     put_field 12 3 (se_tex e) OR put_field 15 1 (se_access_permission_extension e) OR
     put_field 16 1 (se_shared e) OR put_field 17 1 (se_not_global e) OR
     put_field 18 1 (se_is_supersection e) OR put_field 19 1 (se_non_secure e) OR
     put_field 20 12 (se_base_addr e))"

definition section_of :: "u32 \<Rightarrow> SectionEntry" where
  "section_of raw = \<lparr>se_identifier = field 0 2 raw, se_bufferable_writes = field 2 1 raw,
     se_cachable = field 3 1 raw, se_execute_never = field 4 1 raw, se_domain = field 5 4 raw,
     se_impl_defined = field 9 1 raw, se_access_permission = field 10 2 raw, se_tex = field 12 3 raw,
     se_access_permission_extension = field 15 1 raw, se_shared = field 16 1 raw,
     se_not_global = field 17 1 raw, se_is_supersection = field 18 1 raw, se_non_secure = field 19 1 raw,
     se_base_addr = field 20 12 raw\<rparr>"

definition section_base_address :: "SectionEntry \<Rightarrow> u32" where
  "section_base_address e = push_bit 20 (se_base_addr e)"

definition make_section_entry :: "u32 \<Rightarrow> PageAccessPermissions \<Rightarrow> SectionEntry" where
  "make_section_entry addr permissions = \<lparr>se_identifier = SECTION_ENTRY_ID, se_bufferable_writes = 0,
     se_cachable = 0, se_execute_never = 0, se_domain = 0, se_impl_defined = 0,
     se_access_permission = permission_bits permissions, se_tex = 0, se_access_permission_extension = 0,
     se_shared = 0, se_not_global = 0, se_is_supersection = 0, se_non_secure = 0,
     se_base_addr = drop_bit 20 addr AND 0xfff\<rparr>"

record SmallPageEntry =
  sp_identifier :: u32
  sp_bufferable_writes :: u32
  sp_cachable :: u32
  sp_access_permission :: u32
  sp_tex :: u32
  sp_access_permission_extension :: u32
  sp_shared :: u32
  sp_non_global :: u32
  sp_address :: u32

definition small_page_raw :: "SmallPageEntry \<Rightarrow> u32" where
  "small_page_raw e = (put_field 0 2 (sp_identifier e) OR put_field 2 1 (sp_bufferable_writes e) OR
     put_field 3 1 (sp_cachable e) OR put_field 4 2 (sp_access_permission e) OR put_field 6 3 (sp_tex e) OR
     put_field 9 1 (sp_access_permission_extension e) OR put_field 10 1 (sp_shared e) OR
     put_field 11 1 (sp_non_global e) OR put_field 12 20 (sp_address e))"

definition small_page_of :: "u32 \<Rightarrow> SmallPageEntry" where
  "small_page_of raw = \<lparr>sp_identifier = field 0 2 raw, sp_bufferable_writes = field 2 1 raw,
     sp_cachable = field 3 1 raw, sp_access_permission = field 4 2 raw, sp_tex = field 6 3 raw,
     sp_access_permission_extension = field 9 1 raw, sp_shared = field 10 1 raw,
     sp_non_global = field 11 1 raw, sp_address = field 12 20 raw\<rparr>"

definition small_page_base_address :: "SmallPageEntry \<Rightarrow> u32" where
  "small_page_base_address e = push_bit 12 (sp_address e)"

definition small_page_permissions :: "SmallPageEntry \<Rightarrow> PageAccessPermissions" where
  "small_page_permissions e = bits_permission (sp_access_permission e)"

definition make_small_page_entry :: "u32 \<Rightarrow> PageAccessPermissions \<Rightarrow> SmallPageEntry" where
  "make_small_page_entry address permissions = \<lparr>sp_identifier = SMALL_PAGE_ENTRY_ID,
     sp_bufferable_writes = 0, sp_cachable = 0, sp_access_permission = permission_bits permissions,
     sp_tex = 0, sp_access_permission_extension = 0, sp_shared = 0, sp_non_global = 0,
     sp_address = drop_bit 12 address AND 0xfffff\<rparr>"

text \<open>The tests of the first level entry, a union of a raw word and the two kinds of entry.\<close>

definition is_section :: "u32 \<Rightarrow> bool" where
  "is_section raw \<longleftrightarrow> se_identifier (section_of raw) = SECTION_ENTRY_ID"

definition is_coarse_page :: "u32 \<Rightarrow> bool" where
  "is_coarse_page raw \<longleftrightarrow> cp_identifier (coarse_of raw) = COARSE_PAGE_TABLE_ENTRY_ID"

definition is_empty :: "u32 \<Rightarrow> bool" where
  "is_empty raw \<longleftrightarrow> raw = 0"

subsection \<open>Entries and addresses\<close>

lemma mask_literals:
  "mask 1 = (1 :: u32)" "mask 2 = (3 :: u32)" "mask 3 = (7 :: u32)" "mask 4 = (15 :: u32)"
  "mask 12 = (0xfff :: u32)" "mask 20 = (0xfffff :: u32)" "mask 22 = (0x3fffff :: u32)"
  by (simp_all add: mask_eq_exp_minus_1)

lemmas entry_defs = coarse_raw_def coarse_of_def make_coarse_entry_def section_raw_def section_of_def
  make_section_entry_def small_page_raw_def small_page_of_def make_small_page_entry_def
  COARSE_PAGE_TABLE_ENTRY_ID_def SECTION_ENTRY_ID_def SMALL_PAGE_ENTRY_ID_def

lemma permission_bits_and_3 [simp]: "permission_bits p AND 3 = permission_bits p"
  by (cases p) simp_all

lemma coarse_entry_fields:
  "coarse_of (coarse_raw (make_coarse_entry a)) = make_coarse_entry a"
  by (simp add: entry_defs field_put mask_literals and.assoc)

lemma section_entry_fields:
  "section_of (section_raw (make_section_entry a p)) = make_section_entry a p"
  by (simp add: entry_defs field_put mask_literals and.assoc)

lemma small_page_entry_fields:
  "small_page_of (small_page_raw (make_small_page_entry a p)) = make_small_page_entry a p"
  by (simp add: entry_defs field_put mask_literals and.assoc)

lemma push_drop_bits: "k + n = 32 \<Longrightarrow> push_bit k (drop_bit k a AND mask n) = (a AND NOT (mask k) :: u32)"
  by (rule bit_word_eqI) (auto simp: bit_simps)

lemma base_masks: "(0x3ff :: u32) = mask 10" "(0xfff :: u32) = mask 12" "(0xfffff :: u32) = mask 20"
  "(0x3fffff :: u32) = mask 22"
  by (simp_all add: mask_eq_exp_minus_1)

lemma coarse_base_make: "coarse_base_address (make_coarse_entry a) = a AND NOT (mask 10)"
  unfolding coarse_base_address_def make_coarse_entry_def CoarsePageTableEntry.simps base_masks
  by (simp only: push_drop_bits and.assoc and.idem)

lemma section_base_make: "section_base_address (make_section_entry a p) = a AND NOT (mask 20)"
  unfolding section_base_address_def make_section_entry_def SectionEntry.simps base_masks
  by (simp only: push_drop_bits and.assoc and.idem)

lemma small_page_base_make: "small_page_base_address (make_small_page_entry a p) = a AND NOT (mask 12)"
  unfolding small_page_base_address_def make_small_page_entry_def SmallPageEntry.simps base_masks
  by (simp only: push_drop_bits and.assoc and.idem)

end
