(* ===== verification/Vm.thy ===== *)
theory Vm
  imports Mmu PhysicalAlloc
begin

text \<open>
  Virtual memory (\<^verbatim>\<open>kernel/memory/vm.cpp\<close>, \<^verbatim>\<open>vm.h\<close>).  The kernel reaches all of RAM through a linear
  window at \<open>0xe0000000\<close>; \<open>vm_mem\<close> holds the 32-bit words behind that window, by their address in it, and
  an access outside the window gives \<open>None\<close>.  A \<^verbatim>\<open>PhysicalPage*\<close> is its index, as in the page allocator;
  \<^verbatim>\<open>MUST\<close>, \<^verbatim>\<open>panic\<close> and \<^verbatim>\<open>kassert\<close> give \<open>None\<close> too.  Invalidating the translation cache has no counterpart.
\<close>

subsection \<open>State\<close>

datatype InitState = InitNone | InitEarly | InitCompleted

record vm_state =
  vm_pa :: phys_alloc
  vm_mem :: "u32 \<Rightarrow> u32"
  kernel_as :: "nat option"
  current_as :: "nat option"
  ttbr0 :: u32
  ioremap_used :: "bool list"
  ram_phys_start :: u32
  ram_size :: u32
  init_state :: InitState

definition LVL1_ENTRIES :: nat where "LVL1_ENTRIES = 4096"
definition LVL2_ENTRIES :: nat where "LVL2_ENTRIES = 256"

definition kernel_area_start :: u32 where "kernel_area_start = 0xc0000000"
definition kernel_area_end :: u32 where "kernel_area_end = 0xffffffff"
definition peripherals_start :: u32 where "peripherals_start = kernel_area_start + 16 * 0x100000"
definition peripherals_end :: u32 where "peripherals_end = peripherals_start + 32 * 0x100000"

definition range_contains :: "u32 \<Rightarrow> u32 \<Rightarrow> u32 \<Rightarrow> bool" where
  "range_contains start stop ptr \<longleftrightarrow> start \<le> ptr \<and> ptr < stop"

abbreviation kernel_area_contains :: "u32 \<Rightarrow> bool" where
  "kernel_area_contains \<equiv> range_contains kernel_area_start kernel_area_end"

abbreviation peripherals_contains :: "u32 \<Rightarrow> bool" where
  "peripherals_contains \<equiv> range_contains peripherals_start peripherals_end"

definition vm_addr_is_page_aligned :: "u32 \<Rightarrow> bool" where
  "vm_addr_is_page_aligned addr \<longleftrightarrow> addr AND (4096 - 1) = 0"

definition vm_align_up_to_page :: "u32 \<Rightarrow> u32" where
  "vm_align_up_to_page addr = (addr + (4096 - 1)) AND NOT (4096 - 1)"

definition vm_align_down_to_page :: "u32 \<Rightarrow> u32" where
  "vm_align_down_to_page addr = addr AND NOT (4096 - 1)"

subsection \<open>Memory accesses\<close>

definition in_window :: "vm_state \<Rightarrow> u32 \<Rightarrow> bool" where
  "in_window s a \<longleftrightarrow> physical_mem_start \<le> a \<and> a - physical_mem_start < ram_size s"

definition load :: "vm_state \<Rightarrow> u32 \<Rightarrow> u32 option" where
  "load s a = (if in_window s a then Some (vm_mem s a) else None)"

definition store :: "u32 \<Rightarrow> u32 \<Rightarrow> vm_state \<Rightarrow> vm_state option" where
  "store a w s = (if in_window s a then Some (s\<lparr>vm_mem := (vm_mem s)(a := w)\<rparr>) else None)"

primrec memset_words :: "u32 \<Rightarrow> nat \<Rightarrow> vm_state \<Rightarrow> vm_state option" where
  "memset_words a 0 s = Some s"
| "memset_words a (Suc n) s = do { s \<leftarrow> store a 0 s; memset_words (a + 4) n s }"

primrec memcpy_words :: "u32 \<Rightarrow> u32 \<Rightarrow> nat \<Rightarrow> vm_state \<Rightarrow> vm_state option" where
  "memcpy_words dst src 0 s = Some s"
| "memcpy_words dst src (Suc n) s = do {
     w \<leftarrow> load s src;
     s \<leftarrow> store dst w s;
     memcpy_words (dst + 4) (src + 4) n s
   }"

definition phys2virt :: "vm_state \<Rightarrow> u32 \<Rightarrow> u32 option" where
  "phys2virt s phys = do {
     kassert (phys \<ge> ram_phys_start s);
     kassert (phys < ram_phys_start s + ram_size s);
     Some (phys - ram_phys_start s + physical_mem_start)
   }"

text \<open>The null pointer is 0.\<close>

definition get_root_table_ptr :: "vm_state \<Rightarrow> nat option \<Rightarrow> u32 option" where
  "get_root_table_ptr s ttbr0_page =
     (case ttbr0_page of
        None \<Rightarrow> Some 0
      | Some p \<Rightarrow> do { a \<leftarrow> page2addr (vm_pa s) p; phys2virt s a })"

definition table_slot :: "u32 \<Rightarrow> nat \<Rightarrow> u32" where
  "table_slot table i = table + 4 * of_nat i"

subsection \<open>Initialisation and switching\<close>

definition vm_early_init :: "BootParams \<Rightarrow> vm_state \<Rightarrow> vm_state" where
  "vm_early_init boot_params s =
     s\<lparr>ram_phys_start := boot_ram_start boot_params, ram_size := boot_ram_size boot_params,
       init_state := InitEarly\<rparr>"

text \<open>The loop that unmaps the identity mapping of RAM, one megabyte at a time.\<close>

partial_function (option) unmap_identity :: "u32 \<Rightarrow> u32 \<Rightarrow> vm_state \<Rightarrow> vm_state option" where
  "unmap_identity table i s =
     (if i < ram_size s then do {
        s \<leftarrow> store (table_slot table (lvl1_index (ram_phys_start s + i))) 0 s;
        unmap_identity table (i + 0x100000) s
      } else Some s)"

definition vm_init :: "vm_state \<Rightarrow> vm_state option" where
  "vm_init s = do {
     kassert (init_state s = InitEarly);
     page \<leftarrow> addr2page (vm_pa s) (ttbr0 s);
     let s = s\<lparr>kernel_as := Some page, current_as := Some page\<rparr>;
     table \<leftarrow> get_root_table_ptr s (kernel_as s);
     s \<leftarrow> unmap_identity table 0 s;
     Some (s\<lparr>init_state := InitCompleted\<rparr>)
   }"

definition vm_switch_address_space :: "nat option \<Rightarrow> vm_state \<Rightarrow> vm_state option" where
  "vm_switch_address_space as s = do {
     page \<leftarrow> as;
     a \<leftarrow> page2addr (vm_pa s) page;
     Some (s\<lparr>ttbr0 := a, current_as := as\<rparr>)
   }"

definition vm_using_address_space ::
  "nat option \<Rightarrow> (vm_state \<Rightarrow> ('a \<times> vm_state) option) \<Rightarrow> vm_state \<Rightarrow> ('a \<times> vm_state) option" where
  "vm_using_address_space as c s =
     (if as = current_as s then c s
      else do {
        let previous = current_as s;
        s \<leftarrow> vm_switch_address_space as s;
        (result, s) \<leftarrow> c s;
        s \<leftarrow> vm_switch_address_space previous s;
        Some (result, s)
      })"

subsection \<open>Translation\<close>

definition virt2phys :: "vm_state \<Rightarrow> u32 \<Rightarrow> u32 option" where
  "virt2phys s virt = do {
     table \<leftarrow> get_root_table_ptr s (current_as s);
     lvl1_entry \<leftarrow> load s (table_slot table (lvl1_index virt));
     let identifier = se_identifier (section_of lvl1_entry);
     (if identifier = 0 then Some 0
      else if identifier = SECTION_ENTRY_ID then
        Some (section_base_address (section_of lvl1_entry) OR (virt AND 0x000fffff))
      else if identifier = COARSE_PAGE_TABLE_ENTRY_ID then do {
        lvl2_table \<leftarrow> phys2virt s (coarse_base_address (coarse_of lvl1_entry));
        lvl2_entry \<leftarrow> load s (table_slot lvl2_table (lvl2_index virt));
        Some (small_page_base_address (small_page_of lvl2_entry) OR (virt AND 0x00000fff))
      }
      else None)
   }"

subsection \<open>Mapping a page\<close>

text \<open>The new second level table of a slot; running out of memory ends in a panic.\<close>

definition alloc_lvl2_table :: "u32 \<Rightarrow> vm_state \<Rightarrow> vm_state option" where
  "alloc_lvl2_table slot1 s = do {
     (r, pa) \<leftarrow> physical_page_alloc Order1KB (vm_pa s);
     (case r of
        Inl e \<Rightarrow> None
      | Inr lvl2_table_page \<Rightarrow> do {
          a \<leftarrow> page2addr pa lvl2_table_page;
          store slot1 (coarse_raw (make_coarse_entry a)) (s\<lparr>vm_pa := pa\<rparr>)
        })
   }"

text \<open>What happens to an empty first level slot; the flag says whether a table was just allocated.\<close>

definition fill_lvl1_slot ::
  "u32 \<Rightarrow> u32 \<Rightarrow> u32 \<Rightarrow> vm_state \<Rightarrow> (bool \<times> vm_state) option" where
  "fill_lvl1_slot kernel_lvl1_table root_table virt_addr s = do {
     let slot1 = table_slot root_table (lvl1_index virt_addr);
     let kernel_slot = table_slot kernel_lvl1_table (lvl1_index virt_addr);
     s \<leftarrow> (if kernel_area_contains virt_addr
           then do { e \<leftarrow> load s kernel_slot; store slot1 e s } else Some s);
     e \<leftarrow> load s slot1;
     (allocated, s) \<leftarrow> (if e = 0 then do { s \<leftarrow> alloc_lvl2_table slot1 s; Some (True, s) } else Some (False, s));
     (if kernel_area_contains virt_addr \<and> root_table \<noteq> kernel_lvl1_table \<and> allocated
      then do {
        ke \<leftarrow> load s kernel_slot;
        kassert (ke = 0);
        e \<leftarrow> load s slot1;
        s \<leftarrow> store kernel_slot e s;
        Some (allocated, s)
      }
      else Some (allocated, s))
   }"

definition vm_map_page :: "u32 \<Rightarrow> u32 \<Rightarrow> u32 \<Rightarrow> PageAccessPermissions \<Rightarrow> vm_state \<Rightarrow> vm_state option" where
  "vm_map_page root_table phys_addr virt_addr permissions s = do {
     kernel_lvl1_table \<leftarrow> get_root_table_ptr s (kernel_as s);
     let slot1 = table_slot root_table (lvl1_index virt_addr);
     lvl1_entry \<leftarrow> load s slot1;
     kassert (se_identifier (section_of lvl1_entry) \<noteq> SECTION_ENTRY_ID);
     (just_allocated, s) \<leftarrow>
       (if lvl1_entry = 0 then fill_lvl1_slot kernel_lvl1_table root_table virt_addr s else Some (False, s));
     lvl1_entry \<leftarrow> load s slot1;
     lvl2_table \<leftarrow> phys2virt s (coarse_base_address (coarse_of lvl1_entry));
     s \<leftarrow> (if just_allocated then memset_words lvl2_table (LVL2_TABLE_SIZE div 4) s else Some s);
     let slot2 = table_slot lvl2_table (lvl2_index virt_addr);
     lvl2_entry \<leftarrow> load s slot2;
     kassert (lvl2_entry = 0);
     store slot2 (small_page_raw (make_small_page_entry phys_addr permissions)) s
   }"

definition vm_map :: "nat option \<Rightarrow> nat \<Rightarrow> u32 \<Rightarrow> PageAccessPermissions \<Rightarrow> vm_state \<Rightarrow> vm_state option" where
  "vm_map as page virt_addr permissions s = do {
     phys_addr \<leftarrow> page2addr (vm_pa s) page;
     root_table \<leftarrow> get_root_table_ptr s as;
     vm_map_page root_table phys_addr virt_addr permissions s
   }"

primrec map_mmio_pages :: "nat option \<Rightarrow> u32 \<Rightarrow> u32 \<Rightarrow> nat \<Rightarrow> vm_state \<Rightarrow> vm_state option" where
  "map_mmio_pages as phys_addr virt_addr 0 s = Some s"
| "map_mmio_pages as phys_addr virt_addr (Suc n) s = do {
     root_table \<leftarrow> get_root_table_ptr s as;
     s \<leftarrow> vm_map_page root_table phys_addr virt_addr PriviledgedOnly s;
     map_mmio_pages as (phys_addr + 4096) (virt_addr + 4096) n s
   }"

definition vm_map_mmio :: "nat option \<Rightarrow> u32 \<Rightarrow> u32 \<Rightarrow> u32 \<Rightarrow> vm_state \<Rightarrow> vm_state option" where
  "vm_map_mmio as phys_addr virt_addr sz s =
     map_mmio_pages as phys_addr virt_addr (unat (round_up_u32 sz 4096 div 4096)) s"

subsection \<open>Unmapping a page\<close>

primrec table_is_empty :: "vm_state \<Rightarrow> u32 \<Rightarrow> nat \<Rightarrow> bool option" where
  "table_is_empty s a 0 = Some True"
| "table_is_empty s a (Suc n) = do {
     raw \<leftarrow> load s a;
     (if raw \<noteq> 0 then Some False else table_is_empty s (a + 4) n)
   }"

text \<open>The freed table is returned with the order of a 16 KB block, as in the source.\<close>

definition free_lvl2_table :: "u32 \<Rightarrow> vm_state \<Rightarrow> vm_state option" where
  "free_lvl2_table slot1 s = do {
     lvl1_entry \<leftarrow> load s slot1;
     p \<leftarrow> addr2page (vm_pa s) (coarse_base_address (coarse_of lvl1_entry));
     pa \<leftarrow> physical_page_free p Order16KB (vm_pa s);
     store slot1 0 (s\<lparr>vm_pa := pa\<rparr>)
   }"

definition vm_unmap_page :: "u32 \<Rightarrow> u32 \<Rightarrow> vm_state \<Rightarrow> (u32 \<times> vm_state) option" where
  "vm_unmap_page root_table virt_addr s = do {
     let slot1 = table_slot root_table (lvl1_index virt_addr);
     lvl1_entry \<leftarrow> load s slot1;
     kassert (se_identifier (section_of lvl1_entry) \<noteq> SECTION_ENTRY_ID);
     (if lvl1_entry = 0 then Some (0, s)
      else do {
        lvl2_table \<leftarrow> phys2virt s (coarse_base_address (coarse_of lvl1_entry));
        let slot2 = table_slot lvl2_table (lvl2_index virt_addr);
        lvl2_entry \<leftarrow> load s slot2;
        (if lvl2_entry = 0 then Some (0, s)
         else do {
           let previously_mapped = small_page_base_address (small_page_of lvl2_entry);
           s \<leftarrow> store slot2 0 s;
           (if \<not> kernel_area_contains virt_addr
            then do {
              whole_lvl2_table_is_empty \<leftarrow> table_is_empty s lvl2_table LVL2_ENTRIES;
              s \<leftarrow> (if whole_lvl2_table_is_empty then free_lvl2_table slot1 s else Some s);
              Some (previously_mapped, s)
            }
            else Some (previously_mapped, s))
         })
      })
   }"

definition vm_unmap :: "nat option \<Rightarrow> u32 \<Rightarrow> vm_state \<Rightarrow> (u32 \<times> vm_state) option" where
  "vm_unmap as virt_addr s =
     (if kernel_area_contains virt_addr
      then do { root_table \<leftarrow> get_root_table_ptr s (kernel_as s); vm_unmap_page root_table virt_addr s }
      else do { root_table \<leftarrow> get_root_table_ptr s as; vm_unmap_page root_table virt_addr s })"

subsection \<open>Address spaces\<close>

primrec copy_kernel_entries :: "u32 \<Rightarrow> u32 \<Rightarrow> nat \<Rightarrow> nat \<Rightarrow> vm_state \<Rightarrow> vm_state option" where
  "copy_kernel_entries dst src i 0 s = Some s"
| "copy_kernel_entries dst src i (Suc n) s = do {
     e \<leftarrow> load s (table_slot src i);
     s \<leftarrow> store (table_slot dst i) e s;
     copy_kernel_entries dst src (Suc i) n s
   }"

text \<open>The vector page at address 0, shared between all address spaces.\<close>

definition map_vector_page :: "u32 \<Rightarrow> u32 \<Rightarrow> nat \<Rightarrow> vm_state \<Rightarrow> vm_state option" where
  "map_vector_page lvl1_table kernel_lvl1_table hack_page s = do {
     a \<leftarrow> page2addr (vm_pa s) hack_page;
     s \<leftarrow> store (table_slot lvl1_table 0) (coarse_raw (make_coarse_entry a)) s;
     ke \<leftarrow> load s (table_slot kernel_lvl1_table 0);
     src_table \<leftarrow> phys2virt s (coarse_base_address (coarse_of ke));
     se \<leftarrow> load s (table_slot src_table 0);
     p \<leftarrow> addr2page (vm_pa s) (small_page_base_address (small_page_of se));
     pg \<leftarrow> page_at (vm_pa s) p;
     let s = s\<lparr>vm_pa := set_ref_count p (ref_count pg + 1) (vm_pa s)\<rparr>;
     e \<leftarrow> load s (table_slot lvl1_table 0);
     dst_table \<leftarrow> phys2virt s (coarse_base_address (coarse_of e));
     s \<leftarrow> memset_words dst_table (LVL2_TABLE_SIZE div 4) s;
     pa \<leftarrow> page2addr (vm_pa s) p;
     store (table_slot dst_table 0) (small_page_raw (make_small_page_entry pa PriviledgedOnly)) s
   }"

definition vm_create_address_space ::
  "vm_state \<Rightarrow> ((GenericErrorCode + nat) \<times> vm_state) option" where
  "vm_create_address_space s = do {
     (r, pa) \<leftarrow> physical_page_alloc Order16KB (vm_pa s);
     (case r of
        Inl e \<Rightarrow> Some (Inl e, s\<lparr>vm_pa := pa\<rparr>)
      | Inr as_ttbr0_page \<Rightarrow> do {
          (r, pa) \<leftarrow> physical_page_alloc Order1KB pa;
          (case r of
             Inl e \<Rightarrow> do {
               pa \<leftarrow> physical_page_free as_ttbr0_page Order16KB pa;
               Some (Inl e, s\<lparr>vm_pa := pa\<rparr>)
             }
           | Inr hack_page \<Rightarrow> do {
               let s = s\<lparr>vm_pa := pa\<rparr>;
               lvl1_table \<leftarrow> get_root_table_ptr s (Some as_ttbr0_page);
               s \<leftarrow> memset_words lvl1_table (LVL1_TABLE_SIZE div 4) s;
               kernel_lvl1_table \<leftarrow> get_root_table_ptr s (kernel_as s);
               s \<leftarrow> copy_kernel_entries lvl1_table kernel_lvl1_table (lvl1_index kernel_area_start)
                 (LVL1_ENTRIES - lvl1_index kernel_area_start) s;
               s \<leftarrow> map_vector_page lvl1_table kernel_lvl1_table hack_page s;
               Some (Inr as_ttbr0_page, s)
             })
        })
   }"

primrec free_lvl2_pages :: "u32 \<Rightarrow> nat \<Rightarrow> nat \<Rightarrow> vm_state \<Rightarrow> vm_state option" where
  "free_lvl2_pages lvl2_table j 0 s = Some s"
| "free_lvl2_pages lvl2_table j (Suc n) s = do {
     e \<leftarrow> load s (table_slot lvl2_table j);
     s \<leftarrow> (if e = 0 then Some s
           else do {
             p \<leftarrow> addr2page (vm_pa s) (small_page_base_address (small_page_of e));
             pa \<leftarrow> physical_page_free p Order4KB (vm_pa s);
             store (table_slot lvl2_table j) 0 (s\<lparr>vm_pa := pa\<rparr>)
           });
     free_lvl2_pages lvl2_table (Suc j) n s
   }"

primrec free_lvl1_entries :: "u32 \<Rightarrow> nat \<Rightarrow> nat \<Rightarrow> vm_state \<Rightarrow> vm_state option" where
  "free_lvl1_entries lvl1_table i 0 s = Some s"
| "free_lvl1_entries lvl1_table i (Suc n) s = do {
     e \<leftarrow> load s (table_slot lvl1_table i);
     s \<leftarrow> (if is_empty e \<or> is_section e then Some s
           else do {
             p \<leftarrow> addr2page (vm_pa s) (coarse_base_address (coarse_of e));
             lvl2_table \<leftarrow> phys2virt s (coarse_base_address (coarse_of e));
             s \<leftarrow> free_lvl2_pages lvl2_table 0 LVL2_ENTRIES s;
             pa \<leftarrow> physical_page_free p Order1KB (vm_pa s);
             store (table_slot lvl1_table i) 0 (s\<lparr>vm_pa := pa\<rparr>)
           });
     free_lvl1_entries lvl1_table (Suc i) n s
   }"

text \<open>The result is the address space after the call: its page pointer is reset.\<close>

definition vm_free :: "nat option \<Rightarrow> vm_state \<Rightarrow> (nat option \<times> vm_state) option" where
  "vm_free as s = do {
     lvl1_table \<leftarrow> get_root_table_ptr s as;
     (if lvl1_table = 0 then Some (as, s)
      else do {
        s \<leftarrow> free_lvl1_entries lvl1_table 0 (lvl1_index kernel_area_start) s;
        p \<leftarrow> as;
        pa \<leftarrow> physical_page_free p Order16KB (vm_pa s);
        Some (None, s\<lparr>vm_pa := pa\<rparr>)
      })
   }"

text \<open>One second level table of a fork; \<open>Inl\<close> is the jump to the error label.\<close>

primrec fork_lvl2_pages ::
  "u32 \<Rightarrow> u32 \<Rightarrow> nat \<Rightarrow> nat \<Rightarrow> vm_state \<Rightarrow> ((GenericErrorCode \<times> vm_state) + vm_state) option" where
  "fork_lvl2_pages dst_table src_table j 0 s = Some (Inr s)"
| "fork_lvl2_pages dst_table src_table j (Suc n) s = do {
     e \<leftarrow> load s (table_slot src_table j);
     (if e = 0 then fork_lvl2_pages dst_table src_table (Suc j) n s
      else do {
        (r, pa) \<leftarrow> physical_page_alloc Order4KB (vm_pa s);
        let s = s\<lparr>vm_pa := pa\<rparr>;
        (case r of
           Inl err \<Rightarrow> Some (Inl (err, s))
         | Inr page \<Rightarrow> do {
             src \<leftarrow> phys2virt s (small_page_base_address (small_page_of e));
             a \<leftarrow> page2addr (vm_pa s) page;
             dst \<leftarrow> phys2virt s a;
             s \<leftarrow> memcpy_words dst src 1024 s;
             s \<leftarrow> store (table_slot dst_table j) (small_page_raw
               (make_small_page_entry a (small_page_permissions (small_page_of e)))) s;
             fork_lvl2_pages dst_table src_table (Suc j) n s
           })
      })
   }"

primrec fork_lvl1_entries ::
  "u32 \<Rightarrow> u32 \<Rightarrow> nat \<Rightarrow> nat \<Rightarrow> vm_state \<Rightarrow> ((GenericErrorCode \<times> vm_state) + vm_state) option" where
  "fork_lvl1_entries dst_lvl1 src_lvl1 i 0 s = Some (Inr s)"
| "fork_lvl1_entries dst_lvl1 src_lvl1 i (Suc n) s = do {
     e \<leftarrow> load s (table_slot src_lvl1 i);
     (if is_empty e then fork_lvl1_entries dst_lvl1 src_lvl1 (Suc i) n s
      else do {
        kassert (\<not> is_section e);
        kassert (is_coarse_page e);
        (r, pa) \<leftarrow> physical_page_alloc Order1KB (vm_pa s);
        let s = s\<lparr>vm_pa := pa\<rparr>;
        (case r of
           Inl err \<Rightarrow> Some (Inl (err, s))
         | Inr pgtable \<Rightarrow> do {
             a \<leftarrow> page2addr (vm_pa s) pgtable;
             dst_table \<leftarrow> phys2virt s a;
             s \<leftarrow> memset_words dst_table (LVL2_TABLE_SIZE div 4) s;
             s \<leftarrow> store (table_slot dst_lvl1 i) (coarse_raw (make_coarse_entry a)) s;
             src_table \<leftarrow> phys2virt s (coarse_base_address (coarse_of e));
             r \<leftarrow> fork_lvl2_pages dst_table src_table 0 LVL2_ENTRIES s;
             (case r of
                Inl err \<Rightarrow> Some (Inl err)
              | Inr s \<Rightarrow> fork_lvl1_entries dst_lvl1 src_lvl1 (Suc i) n s)
           })
      })
   }"

text \<open>
  The error, if there was one, and the forked address space afterwards: after an error it has been
  destroyed.
\<close>

definition vm_fork ::
  "nat option \<Rightarrow> nat option \<Rightarrow> vm_state \<Rightarrow> (GenericErrorCode option \<times> nat option \<times> vm_state) option" where
  "vm_fork as out_forked s = do {
     src_lvl1 \<leftarrow> get_root_table_ptr s as;
     dst_lvl1 \<leftarrow> get_root_table_ptr s out_forked;
     r \<leftarrow> fork_lvl1_entries dst_lvl1 src_lvl1 0 (lvl1_index kernel_area_start) s;
     (case r of
        Inr s \<Rightarrow> Some (None, out_forked, s)
      | Inl (err, s) \<Rightarrow> do {
          (out_forked, s) \<leftarrow> vm_free out_forked s;
          Some (Some err, out_forked, s)
        })
   }"

subsection \<open>Page faults\<close>

datatype PageFaultHandlerResult = Fixed | ProcessFatal | KernelFatal

definition vm_try_fix_page_fault ::
  "u32 \<Rightarrow> u32 \<Rightarrow> vm_state \<Rightarrow> (PageFaultHandlerResult \<times> vm_state) option" where
  "vm_try_fix_page_fault instruction_addr fault_addr s =
     (if \<not> kernel_area_contains instruction_addr then Some (ProcessFatal, s)
      else if \<not> kernel_area_contains fault_addr then Some (KernelFatal, s)
      else do {
        let phys_ttbr0_addr = ttbr0 s;
        lvl1_kernel_table \<leftarrow> get_root_table_ptr s (kernel_as s);
        kernel_lvl1_entry \<leftarrow> load s (table_slot lvl1_kernel_table (lvl1_index fault_addr));
        (if kernel_lvl1_entry = 0 then Some (KernelFatal, s)
         else do {
           lvl1_ttbr0_table \<leftarrow> phys2virt s phys_ttbr0_addr;
           let slot = table_slot lvl1_ttbr0_table (lvl1_index fault_addr);
           ttbr0_lvl1_entry \<leftarrow> load s slot;
           (if ttbr0_lvl1_entry = 0
            then do { s \<leftarrow> store slot kernel_lvl1_entry s; Some (Fixed, s) }
            else Some (KernelFatal, s))
         })
      })"

subsection \<open>Device mappings\<close>

text \<open>The first page behind \<open>i\<close> that is in use, at most \<open>count\<close> pages away.\<close>

fun run_end :: "bool list \<Rightarrow> nat \<Rightarrow> nat \<Rightarrow> nat \<Rightarrow> nat" where
  "run_end [] i count j = j"
| "run_end (u # us) i count j = (if u \<or> j - i = count then j else run_end us i count (j + 1))"

fun find_run :: "bool list \<Rightarrow> nat \<Rightarrow> nat \<Rightarrow> nat option" where
  "find_run [] i count = None"
| "find_run (u # us) i count =
     (if u then find_run us (i + 1) count
      else if run_end us i count (i + 1) - i = count then Some i
      else find_run us (i + 1) count)"

definition set_run :: "bool \<Rightarrow> nat \<Rightarrow> nat \<Rightarrow> bool list \<Rightarrow> bool list" where
  "set_run b i count us = take i us @ replicate count b @ drop (i + count) us"

definition ioremap_bitmap_alloc :: "u32 \<Rightarrow> bool list \<Rightarrow> (u32 \<times> bool list) option" where
  "ioremap_bitmap_alloc sz used = do {
     kassert (sz mod 4096 = 0);
     let count = unat (sz div 4096);
     Some (case find_run used 0 count of
             None \<Rightarrow> (0, used)
           | Some i \<Rightarrow> (peripherals_start + of_nat i * 4096, set_run True i count used))
   }"

definition ioremap_bitmap_free :: "u32 \<Rightarrow> u32 \<Rightarrow> bool list \<Rightarrow> bool list option" where
  "ioremap_bitmap_free startaddr sz used = do {
     kassert (startaddr \<ge> peripherals_start);
     kassert (startaddr < peripherals_end);
     kassert (startaddr mod 4096 = 0);
     kassert (sz mod 4096 = 0);
     let start = unat ((startaddr - peripherals_start) div 4096);
     let count = unat (sz div 4096);
     kassert (start + count \<le> length used);
     Some (set_run False start count used)
   }"

partial_function (option) map_early_sections :: "u32 \<Rightarrow> u32 \<Rightarrow> u32 \<Rightarrow> u32 \<Rightarrow> u32 \<Rightarrow> vm_state \<Rightarrow> vm_state option" where
  "map_early_sections table phys virt i sz s =
     (if i < sz then do {
        s \<leftarrow> store (table_slot table (lvl1_index (virt + i)))
          (section_raw (make_section_entry (phys + i) PriviledgedOnly)) s;
        map_early_sections table phys virt (i + 0x100000) sz s
      } else Some s)"

definition ioremap_early :: "u32 \<Rightarrow> u32 \<Rightarrow> vm_state \<Rightarrow> (u32 \<times> vm_state) option" where
  "ioremap_early phys_addr sz s = do {
     kassert (init_state s = InitEarly);
     let aligned_phys_addr = round_down_u32 phys_addr 0x100000;
     let aligned_size = round_up_u32 (phys_addr + sz) 0x100000 - aligned_phys_addr;
     (start_of_mapping, used) \<leftarrow> ioremap_bitmap_alloc aligned_size (ioremap_used s);
     kassert (start_of_mapping \<noteq> 0);
     let s = s\<lparr>ioremap_used := used\<rparr>;
     table \<leftarrow> phys2virt s (ttbr0 s);
     s \<leftarrow> map_early_sections table aligned_phys_addr start_of_mapping 0 aligned_size s;
     Some (start_of_mapping + phys_addr mod 0x100000, s)
   }"

text \<open>The pages that are mapped are those of the size asked for, not of the aligned size.\<close>

definition ioremap :: "u32 \<Rightarrow> u32 \<Rightarrow> vm_state \<Rightarrow> (u32 \<times> vm_state) option" where
  "ioremap phys_addr sz s =
     (if init_state s = InitEarly then ioremap_early phys_addr sz s
      else do {
        let aligned_phys_addr = round_down_u32 phys_addr 4096;
        let aligned_size = round_up_u32 (phys_addr + sz) 4096 - aligned_phys_addr;
        (start_of_mapping, used) \<leftarrow> ioremap_bitmap_alloc aligned_size (ioremap_used s);
        let s = s\<lparr>ioremap_used := used\<rparr>;
        (if start_of_mapping = 0 then Some (0, s)
         else do {
           s \<leftarrow> vm_map_mmio (current_as s) aligned_phys_addr start_of_mapping sz s;
           Some (start_of_mapping + phys_addr mod 4096, s)
         })
      })"

partial_function (option) iounmap_pages :: "u32 \<Rightarrow> u32 \<Rightarrow> vm_state \<Rightarrow> vm_state option" where
  "iounmap_pages i stop s =
     (if i < stop then do {
        (previously_mapped, s) \<leftarrow> vm_unmap (current_as s) i s;
        kassert (previously_mapped \<noteq> 0);
        iounmap_pages (i + 4096) stop s
      } else Some s)"

definition iounmap :: "u32 \<Rightarrow> u32 \<Rightarrow> vm_state \<Rightarrow> vm_state option" where
  "iounmap virt_addr sz s = do {
     kassert (init_state s = InitCompleted);
     kassert (peripherals_contains virt_addr);
     let start_of_mapping = round_down_u32 virt_addr 4096;
     let aligned_size = round_up_u32 (virt_addr + sz) 4096 - start_of_mapping;
     used \<leftarrow> ioremap_bitmap_free start_of_mapping aligned_size (ioremap_used s);
     iounmap_pages start_of_mapping (start_of_mapping + aligned_size) (s\<lparr>ioremap_used := used\<rparr>)
   }"

end
