(* ===== verification/KHeap.thy ===== *)
theory KHeap
  imports Vm PhysicalAllocInv
begin

text \<open>
  The memory behind \<^verbatim>\<open>malloc\<close> in the kernel (\<^verbatim>\<open>kernel/memory/kheap.cpp\<close>): a break that moves, and a page mapped for
  every chunk of 4 KB below it; and the memory that is handed out before that (\<^verbatim>\<open>kernel/memory/bootalloc.cpp\<close>).
  \<^verbatim>\<open>malloc\<close> itself is the C library's.
\<close>

subsection \<open>The break\<close>

definition kernel_heap_start :: u32 where "kernel_heap_start = peripherals_start + 32 * 0x100000"
definition kernel_heap_end :: u32 where "kernel_heap_end = physical_mem_start"
definition CHUNK_SIZE :: u32 where "CHUNK_SIZE = 4096"

record kheap =
  g_last_mapped_chunk :: u32
  g_brk :: u32

definition kheap_boot :: kheap where
  "kheap_boot = \<lparr>g_last_mapped_chunk = kernel_heap_start, g_brk = kernel_heap_start\<rparr>"

text \<open>An error of the two loops is a panic.\<close>

fun add_chunks :: "nat \<Rightarrow> kheap \<Rightarrow> vm_state \<Rightarrow> (kheap \<times> vm_state) option" where
  "add_chunks 0 h s = Some (h, s)"
| "add_chunks (Suc n) h s = do {
     (r, pa) \<leftarrow> physical_page_alloc Order4KB (vm_pa s);
     (case r of
        Inl e \<Rightarrow> None
      | Inr page \<Rightarrow> do {
          s \<leftarrow> vm_map (current_as s) page (g_last_mapped_chunk h + CHUNK_SIZE) PriviledgedOnly (s\<lparr>vm_pa := pa\<rparr>);
          add_chunks n (h\<lparr>g_last_mapped_chunk := g_last_mapped_chunk h + CHUNK_SIZE\<rparr>) s
        })
   }"

fun remove_chunks :: "nat \<Rightarrow> kheap \<Rightarrow> vm_state \<Rightarrow> (kheap \<times> vm_state) option" where
  "remove_chunks 0 h s = Some (h, s)"
| "remove_chunks (Suc n) h s = do {
     (phys, s) \<leftarrow> vm_unmap (current_as s) (g_last_mapped_chunk h) s;
     to_free \<leftarrow> addr2page (vm_pa s) phys;
     pa \<leftarrow> physical_page_free to_free Order4KB (vm_pa s);
     remove_chunks n (h\<lparr>g_last_mapped_chunk := g_last_mapped_chunk h - CHUNK_SIZE\<rparr>) (s\<lparr>vm_pa := pa\<rparr>)
   }"

definition brk :: "u32 \<Rightarrow> kheap \<Rightarrow> vm_state \<Rightarrow> (GenericErrorCode \<times> kheap \<times> vm_state) option" where
  "brk new_brk h s =
     (if new_brk < kernel_heap_start \<or> kernel_heap_end < new_brk then Some (BadParameters, h, s)
      else do {
        let must_be_mapped_up_to = round_down_u32 new_brk CHUNK_SIZE;
        (h, s) \<leftarrow>
          (if g_last_mapped_chunk h < must_be_mapped_up_to
           then add_chunks (unat ((must_be_mapped_up_to - g_last_mapped_chunk h) div CHUNK_SIZE)) h s
           else if must_be_mapped_up_to < g_last_mapped_chunk h
           then remove_chunks (unat ((g_last_mapped_chunk h - must_be_mapped_up_to) div CHUNK_SIZE)) h s
           else Some (h, s));
        Some (Success, h\<lparr>g_brk := new_brk\<rparr>, s)
      })"

definition sbrk :: "u32 \<Rightarrow> kheap \<Rightarrow> vm_state \<Rightarrow> (GenericErrorCode \<times> u32 option \<times> kheap \<times> vm_state) option" where
  "sbrk sz h s =
     (if kernel_heap_end - sz < g_brk h then Some (OutOfMemory, None, h, s)
      else do {
        (err, h', s) \<leftarrow> brk (g_brk h + sz) h s;
        Some (err, if is_success err then Some (g_brk h) else None, h', s)
      })"

text \<open>The C library takes \<open>-1\<close> for a failure, not the null pointer that it gets.\<close>

definition libc_sbrk :: "i32 \<Rightarrow> kheap \<Rightarrow> vm_state \<Rightarrow> (u32 \<times> kheap \<times> vm_state) option" where
  "libc_sbrk incr h s = do {
     (err, addr, h, s) \<leftarrow> sbrk incr h s;
     Some (case addr of None \<Rightarrow> 0 | Some a \<Rightarrow> a, h, s)
   }"

definition kheap_init :: "kheap \<Rightarrow> vm_state \<Rightarrow> (GenericErrorCode \<times> vm_state) option" where
  "kheap_init h s = do {
     (r, pa) \<leftarrow> physical_page_alloc Order4KB (vm_pa s);
     let s = s\<lparr>vm_pa := pa\<rparr>;
     (case r of
        Inl e \<Rightarrow> Some (e, s)
      | Inr page \<Rightarrow> do {
          s \<leftarrow> vm_map (current_as s) page (g_last_mapped_chunk h) PriviledgedOnly s;
          Some (Success, s)
        })
   }"

subsection \<open>Before the heap\<close>

text \<open>\<open>s_bootalloc_next\<close> is the offset in the 16 KB of the storage; the comparison of the pointers does not wrap around.\<close>

definition bootalloc :: "nat \<Rightarrow> nat \<Rightarrow> (nat \<times> nat) option" where
  "bootalloc sz s_bootalloc_next = do {
     kassert (s_bootalloc_next + sz \<le> 16 * 1024);
     Some (s_bootalloc_next, s_bootalloc_next + (sz + 15) div 16 * 16)
   }"

subsection \<open>What moves with the break\<close>

definition heap_ok :: "kheap \<Rightarrow> bool" where
  "heap_ok h \<longleftrightarrow> kernel_heap_start \<le> g_brk h \<and> g_brk h \<le> kernel_heap_end \<and>
     g_last_mapped_chunk h = round_down_u32 (g_brk h) CHUNK_SIZE"

lemma heap_bounds:
  "kernel_heap_start = 0xc3000000" "kernel_heap_end = 0xe0000000"
  by (simp_all add: kernel_heap_start_def kernel_heap_end_def peripherals_start_def kernel_area_start_def physical_mem_start_def)

lemma kheap_boot_ok: "heap_ok kheap_boot"
  by (simp add: heap_ok_def kheap_boot_def heap_bounds round_down_u32_def CHUNK_SIZE_def)

lemma add_chunks_moves:
  "add_chunks n h s = Some (h', s') \<Longrightarrow> h' = h\<lparr>g_last_mapped_chunk := g_last_mapped_chunk h + of_nat n * CHUNK_SIZE\<rparr>"
proof (induction n arbitrary: h s)
  case (Suc n)
  obtain r pa where "physical_page_alloc Order4KB (vm_pa s) = Some (r, pa)"
    using Suc.prems by (auto simp: bind_eq_Some_conv)
  then obtain t where "add_chunks n (h\<lparr>g_last_mapped_chunk := g_last_mapped_chunk h + CHUNK_SIZE\<rparr>) t = Some (h', s')"
    using Suc.prems by (cases r) (auto simp: bind_eq_Some_conv)
  from Suc.IH [OF this] show ?case by (simp add: algebra_simps)
qed simp

lemma remove_chunks_moves:
  "remove_chunks n h s = Some (h', s') \<Longrightarrow> h' = h\<lparr>g_last_mapped_chunk := g_last_mapped_chunk h - of_nat n * CHUNK_SIZE\<rparr>"
proof (induction n arbitrary: h s)
  case (Suc n)
  then obtain t where "remove_chunks n (h\<lparr>g_last_mapped_chunk := g_last_mapped_chunk h - CHUNK_SIZE\<rparr>) t = Some (h', s')"
    by (auto simp: bind_eq_Some_conv)
  from Suc.IH [OF this] show ?case by (simp add: algebra_simps)
qed simp

text \<open>The distance of two multiples of the chunk size is a whole number of chunks.\<close>

lemma chunks_between:
  assumes "round_down_u32 a CHUNK_SIZE \<le> round_down_u32 b CHUNK_SIZE"
  shows "of_nat (unat ((round_down_u32 b CHUNK_SIZE - round_down_u32 a CHUNK_SIZE) div CHUNK_SIZE)) * CHUNK_SIZE =
    round_down_u32 b CHUNK_SIZE - round_down_u32 a CHUNK_SIZE"
proof -
  let ?d = "round_down_u32 b CHUNK_SIZE - round_down_u32 a CHUNK_SIZE"
  have "unat ?d = unat b div 4096 * 4096 - unat a div 4096 * 4096"
    using assms unat_round_down [of a CHUNK_SIZE] unat_round_down [of b CHUNK_SIZE]
    by (simp add: unat_minus_u32 word_le_nat_alt CHUNK_SIZE_def)
  then have d: "unat ?d = (unat b div 4096 - unat a div 4096) * 4096" by (simp add: diff_mult_distrib)
  then have "unat (round_down_u32 ?d CHUNK_SIZE) = unat ?d" by (simp add: unat_round_down CHUNK_SIZE_def)
  then have "round_down_u32 ?d CHUNK_SIZE = ?d" by (simp only: word_unat_eq_iff)
  then show ?thesis by (simp add: round_down_u32_def)
qed

lemma brk_moves:
  assumes h: "heap_ok h" and b: "brk new_brk h s = Some (err, h', s')"
  shows "if kernel_heap_start \<le> new_brk \<and> new_brk \<le> kernel_heap_end then err = Success \<and> heap_ok h' \<and> g_brk h' = new_brk
    else err = BadParameters \<and> h' = h \<and> s' = s"
proof (cases "kernel_heap_start \<le> new_brk \<and> new_brk \<le> kernel_heap_end")
  case True
  let ?m = "round_down_u32 new_brk CHUNK_SIZE" and ?l = "g_last_mapped_chunk h"
  have l: "?l = round_down_u32 (g_brk h) CHUNK_SIZE" using h by (simp add: heap_ok_def)
  obtain h1 where h1: "err = Success" "h' = h1\<lparr>g_brk := new_brk\<rparr>"
      "(if ?l < ?m then add_chunks (unat ((?m - ?l) div CHUNK_SIZE)) h s
        else if ?m < ?l then remove_chunks (unat ((?l - ?m) div CHUNK_SIZE)) h s else Some (h, s)) = Some (h1, s')"
    using b True by (auto simp: brk_def bind_eq_Some_conv Let_def not_less split: if_splits)
  have "g_last_mapped_chunk h1 = ?m"
  proof (cases "?l < ?m")
    case True
    then show ?thesis using h1(3) add_chunks_moves chunks_between [of "g_brk h" new_brk] l by fastforce
  next
    case False
    then show ?thesis using h1(3) remove_chunks_moves chunks_between [of new_brk "g_brk h"] l by (fastforce split: if_splits)
  qed
  then show ?thesis using True h1(1,2) by (simp add: heap_ok_def)
next
  case False
  then have c: "new_brk < kernel_heap_start \<or> kernel_heap_end < new_brk" by (auto simp: not_le)
  have "err = BadParameters \<and> h' = h \<and> s' = s" using b unfolding brk_def if_P [OF c] by simp
  then show ?thesis using False by (simp only: if_False)
qed

text \<open>
  The break moves by what was asked for and the old one is returned, or nothing has changed; the pages below it are
  mapped up to the chunk it is in.
\<close>

lemma sbrk_moves:
  assumes h: "heap_ok h" and b: "sbrk sz h s = Some (err, a, h', s')"
  shows "heap_ok h' \<and> (if err = Success then a = Some (g_brk h) \<and> g_brk h' = g_brk h + sz else a = None \<and> h' = h \<and> s' = s)"
proof (cases "kernel_heap_end - sz < g_brk h")
  case True
  then show ?thesis using b h by (auto simp: sbrk_def)
next
  case False
  then have "brk (g_brk h + sz) h s = Some (err, h', s')" "a = (if is_success err then Some (g_brk h) else None)"
    using b by (auto simp: sbrk_def bind_eq_Some_conv)
  with brk_moves [OF h this(1)] show ?thesis using h by (auto simp: is_success_def split: if_splits)
qed

text \<open>
  The end of the heap is the start of the window on the physical memory, which is mapped by sections: growing the heap
  to the last byte maps a page behind it, and the kernel panics.
\<close>

lemma heap_end_panics:
  assumes "g_last_mapped_chunk h = kernel_heap_end - CHUNK_SIZE"
    and window: "\<And>t root e. vm_mem t = vm_mem s \<Longrightarrow> get_root_table_ptr t (current_as s) = Some root \<Longrightarrow>
      load t (table_slot root (lvl1_index kernel_heap_end)) = Some e \<Longrightarrow> se_identifier (section_of e) = SECTION_ENTRY_ID"
  shows "brk kernel_heap_end h s = None"
proof -
  have n: "unat ((round_down_u32 kernel_heap_end CHUNK_SIZE - g_last_mapped_chunk h) div CHUNK_SIZE) = Suc 0"
    and less: "g_last_mapped_chunk h < round_down_u32 kernel_heap_end CHUNK_SIZE" "kernel_heap_start \<le> kernel_heap_end"
    and last: "g_last_mapped_chunk h + CHUNK_SIZE = kernel_heap_end"
    by (simp_all add: assms(1) heap_bounds round_down_u32_def CHUNK_SIZE_def)
  have "vm_map (current_as s) page kernel_heap_end PriviledgedOnly (s\<lparr>vm_pa := pa\<rparr>) = None" for page pa
    using window [of "s\<lparr>vm_pa := pa\<rparr>"]
    by (cases "get_root_table_ptr (s\<lparr>vm_pa := pa\<rparr>) (current_as s)";
      cases "load (s\<lparr>vm_pa := pa\<rparr>) (table_slot (the (get_root_table_ptr (s\<lparr>vm_pa := pa\<rparr>) (current_as s))) (lvl1_index kernel_heap_end))")
      (simp_all add: vm_map_def vm_map_page_def kassert_def)
  then have "add_chunks (Suc 0) h s = None" using last
    by (cases "physical_page_alloc Order4KB (vm_pa s)") (auto split: sum.split)
  then show ?thesis using n less by (simp add: brk_def Let_def)
qed

end
