(* ===== verification/RingBuffer.thy ===== *)
theory RingBuffer
  imports KernelError
begin

text \<open>
  The bounded ring buffer of the kernel (\<^verbatim>\<open>kernel/lib/ringbuffer.h\<close>), the queue it implements, and the
  interface that the pipes use.
\<close>

subsection \<open>The code\<close>

text \<open>\<open>N\<close> is the length of \<^verbatim>\<open>data\<close>.  Positions and count stay below \<open>N + 1\<close>, so they are naturals.\<close>

record 'a ring_buffer =
  rb_data :: "'a list"
  read_pos :: nat
  write_pos :: nat
  rb_count :: nat

definition rb_capacity :: "'a ring_buffer \<Rightarrow> nat" where
  "rb_capacity rb = length (rb_data rb)"

definition rb_is_full :: "'a ring_buffer \<Rightarrow> bool" where
  "rb_is_full rb \<longleftrightarrow> rb_count rb = rb_capacity rb"

definition rb_is_empty :: "'a ring_buffer \<Rightarrow> bool" where
  "rb_is_empty rb \<longleftrightarrow> rb_count rb = 0"

definition rb_available :: "'a ring_buffer \<Rightarrow> nat" where
  "rb_available rb = rb_capacity rb - rb_count rb"

definition rb_clear :: "'a ring_buffer \<Rightarrow> 'a ring_buffer" where
  "rb_clear rb = rb\<lparr>read_pos := 0, write_pos := 0, rb_count := 0\<rparr>"

definition rb_push :: "'a \<Rightarrow> 'a ring_buffer \<Rightarrow> 'a ring_buffer" where
  "rb_push item rb = (
     let rb = rb\<lparr>rb_data := (rb_data rb)[write_pos rb := item],
                 write_pos := (write_pos rb + 1) mod rb_capacity rb\<rparr>
     in if rb_count rb < rb_capacity rb then rb\<lparr>rb_count := rb_count rb + 1\<rparr>
        else rb\<lparr>read_pos := (read_pos rb + 1) mod rb_capacity rb\<rparr>)"

text \<open>\<open>None\<close>: the buffer is empty and the call returns false.\<close>

definition rb_pop :: "'a ring_buffer \<Rightarrow> ('a \<times> 'a ring_buffer) option" where
  "rb_pop rb =
     (if rb_is_empty rb then None
      else Some (rb_data rb ! read_pos rb,
                 rb\<lparr>read_pos := (read_pos rb + 1) mod rb_capacity rb, rb_count := rb_count rb - 1\<rparr>))"

subsection \<open>The queue it implements\<close>

definition rb_inv :: "'a ring_buffer \<Rightarrow> bool" where
  "rb_inv rb \<longleftrightarrow> 0 < rb_capacity rb \<and> read_pos rb < rb_capacity rb \<and>
     rb_count rb \<le> rb_capacity rb \<and> write_pos rb = (read_pos rb + rb_count rb) mod rb_capacity rb"

definition rb_contents :: "'a ring_buffer \<Rightarrow> 'a list" where
  "rb_contents rb = map (\<lambda>i. rb_data rb ! ((read_pos rb + i) mod rb_capacity rb)) [0..<rb_count rb]"

lemma length_rb_contents [simp]: "length (rb_contents rb) = rb_count rb"
  by (simp add: rb_contents_def)

lemma nth_rb_contents:
  "i < rb_count rb \<Longrightarrow> rb_contents rb ! i = rb_data rb ! ((read_pos rb + i) mod rb_capacity rb)"
  by (simp add: rb_contents_def)

lemma mod_add_neq:
  fixes r i j n :: nat
  assumes "i < j" and "j < i + n"
  shows "(r + i) mod n \<noteq> (r + j) mod n"
proof
  assume "(r + i) mod n = (r + j) mod n"
  then have "n dvd (r + j) - (r + i)" using assms(1) by (metis mod_eq_dvd_iff_nat add_le_cancel_left less_imp_le)
  then have "n dvd j - i" by simp
  with assms show False by (auto dest: dvd_imp_le)
qed

lemma rb_clear_inv: "0 < rb_capacity rb \<Longrightarrow> rb_inv (rb_clear rb)"
  by (simp add: rb_inv_def rb_clear_def rb_capacity_def)

lemma rb_contents_clear [simp]: "rb_contents (rb_clear rb) = []"
  by (simp add: rb_contents_def rb_clear_def)

lemma rb_capacity_push [simp]: "rb_capacity (rb_push x rb) = rb_capacity rb"
  by (simp add: rb_push_def rb_capacity_def Let_def)

lemma rb_push_inv: "rb_inv rb \<Longrightarrow> rb_inv (rb_push x rb)"
  by (auto simp: rb_inv_def rb_push_def rb_capacity_def Let_def mod_Suc_eq mod_simps)

text \<open>A push on a buffer with room appends; on a full buffer it also drops the oldest element.\<close>

lemma rb_contents_push:
  assumes inv: "rb_inv rb" and room: "\<not> rb_is_full rb"
  shows "rb_contents (rb_push x rb) = rb_contents rb @ [x]"
proof -
  let ?n = "rb_capacity rb" and ?r = "read_pos rb" and ?c = "rb_count rb"
  have n: "0 < ?n" and c: "?c < ?n" and w: "write_pos rb = (?r + ?c) mod ?n"
    using inv room by (auto simp: rb_inv_def rb_is_full_def)
  have push: "rb_push x rb = rb\<lparr>rb_data := (rb_data rb)[write_pos rb := x],
      write_pos := (write_pos rb + 1) mod ?n, rb_count := ?c + 1\<rparr>"
    using c by (simp add: rb_push_def Let_def rb_capacity_def)
  show ?thesis
  proof (rule nth_equalityI)
    show "length (rb_contents (rb_push x rb)) = length (rb_contents rb @ [x])"
      by (simp add: push)
  next
    fix i assume "i < length (rb_contents (rb_push x rb))"
    then have i: "i < ?c + 1" by (simp add: push)
    have lhs: "rb_contents (rb_push x rb) ! i = (rb_data rb)[write_pos rb := x] ! ((?r + i) mod ?n)"
      using i by (subst nth_rb_contents) (simp_all add: push rb_capacity_def)
    show "rb_contents (rb_push x rb) ! i = (rb_contents rb @ [x]) ! i"
    proof (cases "i = ?c")
      case True
      have "write_pos rb < length (rb_data rb)" using n by (simp add: w rb_capacity_def)
      then show ?thesis using lhs True by (simp add: nth_append w)
    next
      case False
      then have less: "i < ?c" using i by simp
      then have "(?r + i) mod ?n \<noteq> write_pos rb" using c unfolding w by (intro mod_add_neq) auto
      then show ?thesis using lhs less by (simp add: nth_append nth_rb_contents)
    qed
  qed
qed

lemma rb_contents_push_full:
  assumes inv: "rb_inv rb" and full: "rb_is_full rb"
  shows "rb_contents (rb_push x rb) = tl (rb_contents rb) @ [x]"
proof -
  let ?n = "rb_capacity rb" and ?r = "read_pos rb"
  have n: "0 < ?n" and c: "rb_count rb = ?n" and w: "write_pos rb = ?r" and r: "?r < ?n"
    using inv full by (auto simp: rb_inv_def rb_is_full_def)
  have push: "rb_push x rb = rb\<lparr>rb_data := (rb_data rb)[?r := x],
      write_pos := (?r + 1) mod ?n, read_pos := (?r + 1) mod ?n\<rparr>"
    using c w by (simp add: rb_push_def Let_def rb_capacity_def)
  show ?thesis
  proof (rule nth_equalityI)
    show "length (rb_contents (rb_push x rb)) = length (tl (rb_contents rb) @ [x])"
      using n by (simp add: push c)
  next
    fix i assume "i < length (rb_contents (rb_push x rb))"
    then have i: "i < ?n" by (simp add: push c)
    have lhs: "rb_contents (rb_push x rb) ! i = (rb_data rb)[?r := x] ! ((?r + Suc i) mod ?n)"
      using i by (subst nth_rb_contents) (simp_all add: push rb_capacity_def c mod_simps)
    show "rb_contents (rb_push x rb) ! i = (tl (rb_contents rb) @ [x]) ! i"
    proof (cases "Suc i = ?n")
      case True
      then have "(?r + Suc i) mod ?n = ?r" using r by simp
      moreover have "i = length (tl (rb_contents rb))" using True c by simp
      ultimately show ?thesis using lhs r by (simp add: nth_append rb_capacity_def)
    next
      case False
      then have less: "Suc i < ?n" using i by simp
      then have "(?r + 0) mod ?n \<noteq> (?r + Suc i) mod ?n" by (intro mod_add_neq) auto
      then have "(?r + Suc i) mod ?n \<noteq> ?r" using r by simp
      moreover have "i < ?n - 1" using less by simp
      ultimately show ?thesis using lhs less c by (simp add: nth_append nth_tl nth_rb_contents)
    qed
  qed
qed

lemma rb_pop_eq_None: "rb_pop rb = None \<longleftrightarrow> rb_contents rb = []"
  by (auto simp: rb_pop_def rb_is_empty_def rb_contents_def)

lemma rb_pop_Some:
  assumes inv: "rb_inv rb" and pop: "rb_pop rb = Some (x, rb')"
  shows "rb_inv rb' \<and> rb_contents rb = x # rb_contents rb' \<and> rb_capacity rb' = rb_capacity rb"
proof -
  let ?n = "rb_capacity rb" and ?r = "read_pos rb" and ?c = "rb_count rb"
  have c: "0 < ?c" and x: "x = rb_data rb ! ?r"
    and rb': "rb' = rb\<lparr>read_pos := (?r + 1) mod ?n, rb_count := ?c - 1\<rparr>"
    using pop by (auto simp: rb_pop_def rb_is_empty_def split: if_splits)
  have r: "?r < ?n" using inv by (simp add: rb_inv_def)
  have "[0..<?c] = 0 # map Suc [0..<?c - 1]"
    using c by (simp add: map_Suc_upt upt_conv_Cons)
  then have "rb_contents rb = x # rb_contents rb'"
    using r by (simp add: rb_contents_def x rb' rb_capacity_def mod_simps comp_def)
  moreover have "(?r + ?c) mod ?n = ((?r + 1) mod ?n + (?c - 1)) mod ?n"
  proof -
    have "?r + ?c = (?r + 1) + (?c - 1)" using c by simp
    then show ?thesis by (metis mod_add_left_eq)
  qed
  then have "rb_inv rb'"
    using inv by (auto simp: rb_inv_def rb' rb_capacity_def)
  ultimately show ?thesis by (simp add: rb' rb_capacity_def)
qed

subsection \<open>The interface the pipes rely on\<close>

text \<open>
  A bounded first-in first-out queue, and the two loops of a pipe over it: filling stops when the queue is
  full, draining when it is empty.
\<close>

fun fifo_fill :: "('q \<Rightarrow> bool) \<Rightarrow> ('a \<Rightarrow> 'q \<Rightarrow> 'q) \<Rightarrow> 'a list \<Rightarrow> 'q \<Rightarrow> nat \<times> 'q" where
  "fifo_fill is_full enq [] q = (0, q)"
| "fifo_fill is_full enq (x # xs) q =
     (if is_full q then (0, q)
      else let (n, q') = fifo_fill is_full enq xs (enq x q) in (n + 1, q'))"

fun fifo_drain :: "('q \<Rightarrow> ('a \<times> 'q) option) \<Rightarrow> nat \<Rightarrow> 'q \<Rightarrow> 'a list \<times> 'q" where
  "fifo_drain deq 0 q = ([], q)"
| "fifo_drain deq (Suc n) q =
     (case deq q of
        None \<Rightarrow> ([], q)
      | Some (x, q') \<Rightarrow> let (xs, q'') = fifo_drain deq n q' in (x # xs, q''))"

locale bounded_fifo =
  fixes is_full :: "'q \<Rightarrow> bool"
    and enq :: "'a \<Rightarrow> 'q \<Rightarrow> 'q"
    and deq :: "'q \<Rightarrow> ('a \<times> 'q) option"
    and contents :: "'q \<Rightarrow> 'a list"
    and capacity :: "'q \<Rightarrow> nat"
    and invar :: "'q \<Rightarrow> bool"
  assumes bounded: "invar q \<Longrightarrow> length (contents q) \<le> capacity q"
    and full_iff: "invar q \<Longrightarrow> is_full q \<longleftrightarrow> length (contents q) = capacity q"
    and enq_contents: "invar q \<Longrightarrow> \<not> is_full q \<Longrightarrow> contents (enq x q) = contents q @ [x]"
    and enq_invar: "invar q \<Longrightarrow> invar (enq x q)"
    and enq_capacity: "capacity (enq x q) = capacity q"
    and deq_None: "deq q = None \<longleftrightarrow> contents q = []"
    and deq_Some: "invar q \<Longrightarrow> deq q = Some (x, q') \<Longrightarrow>
      invar q' \<and> contents q = x # contents q' \<and> capacity q' = capacity q"
begin

lemma fill_correct:
  "invar q \<Longrightarrow> fifo_fill is_full enq xs q = (n, q') \<Longrightarrow>
   n = min (length xs) (capacity q - length (contents q)) \<and>
   contents q' = contents q @ take n xs \<and> invar q' \<and> capacity q' = capacity q"
proof (induction xs arbitrary: q n)
  case (Cons x xs)
  show ?case
  proof (cases "is_full q")
    case True
    then show ?thesis using Cons.prems full_iff [of q] by auto
  next
    case False
    then obtain m where m: "fifo_fill is_full enq xs (enq x q) = (m, q')" and n: "n = m + 1"
      using Cons.prems by (auto split: prod.splits)
    have room: "length (contents q) < capacity q"
      using False Cons.prems bounded [of q] full_iff [of q] by linarith
    from Cons.IH [OF enq_invar [OF Cons.prems(1)] m] show ?thesis
      using n room False Cons.prems enq_contents [of q x] enq_capacity [of x q] by auto
  qed
qed simp

lemma drain_correct:
  "invar q \<Longrightarrow> fifo_drain deq n q = (xs, q') \<Longrightarrow>
   xs = take n (contents q) \<and> contents q' = drop n (contents q) \<and>
   invar q' \<and> capacity q' = capacity q"
proof (induction n arbitrary: q xs)
  case (Suc n)
  show ?case
  proof (cases "deq q")
    case None
    then show ?thesis using Suc.prems deq_None [of q] by simp
  next
    case (Some r)
    then obtain x q1 where r: "deq q = Some (x, q1)" by (cases r) auto
    then obtain ys where ys: "fifo_drain deq n q1 = (ys, q')" and xs: "xs = x # ys"
      using Suc.prems by (auto split: prod.splits)
    have q1: "invar q1 \<and> contents q = x # contents q1 \<and> capacity q1 = capacity q"
      using Suc.prems(1) r by (rule deq_Some)
    then show ?thesis using Suc.IH [of q1 ys] ys xs by simp
  qed
qed simp

text \<open>What is written comes out again, in order and once.\<close>

lemma fill_drain:
  assumes "invar q" and "contents q = []" and "length xs \<le> capacity q"
  shows "fst (fifo_drain deq (length xs) (snd (fifo_fill is_full enq xs q))) = xs"
proof -
  obtain n q1 where fill: "fifo_fill is_full enq xs q = (n, q1)" by fastforce
  obtain ys q2 where drain: "fifo_drain deq (length xs) q1 = (ys, q2)" by fastforce
  from fill_correct [OF assms(1) fill] assms have "contents q1 = xs" "invar q1" by auto
  with drain_correct [OF this(2) drain] fill drain show ?thesis by simp
qed

end

interpretation rb: bounded_fifo rb_is_full rb_push rb_pop rb_contents rb_capacity rb_inv
proof unfold_locales
  fix q :: "'a ring_buffer" and x q'
  show "rb_inv q \<Longrightarrow> length (rb_contents q) \<le> rb_capacity q"
    by (simp add: rb_inv_def)
  show "rb_inv q \<Longrightarrow> rb_is_full q \<longleftrightarrow> length (rb_contents q) = rb_capacity q"
    by (simp add: rb_is_full_def)
  show "rb_pop q = None \<longleftrightarrow> rb_contents q = []" by (rule rb_pop_eq_None)
qed (simp_all add: rb_contents_push rb_push_inv rb_pop_Some)

end
