(* ===== verification/Inode.thy ===== *)
theory Inode
  imports KernelError
begin

text \<open>
  The inode of \<^verbatim>\<open>kernel/vfs/fs.h\<close>, the poll flags of \<^verbatim>\<open>include/api/syscalls.h\<close> and the default file
  operations of \<^verbatim>\<open>kernel/vfs/fs.cpp\<close> that the filesystems share.  The operation tables of an inode are
  determined by its filesystem and type, so they are not fields here; \<open>opaque\<close> is the pointer to the
  filesystem's own data.
\<close>

datatype InodeType =
  FIFO | CharacterDevice | BlockDevice | Directory | RegularFile | SymbolicLink | Socket | Pipe

record TimeSpec =
  ts_seconds :: u32
  ts_nanoseconds :: u32

definition no_time :: TimeSpec where
  "no_time = \<lparr>ts_seconds = 0, ts_nanoseconds = 0\<rparr>"

text \<open>
  The reference count is an \<open>int\<close> without bounds; the code's has 32 bits, and since every successful open leaves the
  reference on the parent directory behind, \<open>2 ^ 31\<close> opens overflow that of a directory.  The property
  of shared inodes in \<open>VfsMounts\<close> is therefore about runs in which the counts fit.
\<close>

record 'o Inode =
  refcount :: int
  inode_type :: InodeType
  inode_id :: u64
  devmajor :: u16
  devminor :: u16
  inode_mode :: u32
  inode_uid :: u32
  inode_gid :: u32
  inode_size :: u64
  access_time :: TimeSpec
  creation_time :: TimeSpec
  modification_time :: TimeSpec
  blksize :: u64
  opaque :: 'o

definition F_POLLIN :: u32 where "F_POLLIN = 0x001"

definition F_POLLOUT :: u32 where "F_POLLOUT = 0x004"

definition F_POLLMASK :: u32 where "F_POLLMASK = F_POLLIN OR F_POLLOUT"

text \<open>A negated error number as a \<^verbatim>\<open>uint64_t\<close> or an \<^verbatim>\<open>int\<close> result.\<close>

definition fs_inode_ioctl_not_supported :: int where
  "fs_inode_ioctl_not_supported = - errno ERR_NOTSUP"

definition fs_inode_seek_not_supported :: u64 where
  "fs_inode_seek_not_supported = of_int (- errno ERR_NOTSUP)"

text \<open>The new value of \<^verbatim>\<open>*out_revents\<close>; the call returns 0.\<close>

definition fs_file_inode_poll_always_ready :: "u32 \<Rightarrow> u32" where
  "fs_file_inode_poll_always_ready events = events AND F_POLLMASK"

definition fs_file_inode_mmap_not_supported :: int where
  "fs_file_inode_mmap_not_supported = - errno ERR_NOTSUP"

definition fs_dir_inode_create_not_supported :: int where
  "fs_dir_inode_create_not_supported = - errno ERR_NOTSUP"

definition fs_dir_inode_unlink_not_supported :: int where
  "fs_dir_inode_unlink_not_supported = - errno ERR_NOTSUP"

definition fs_dir_inode_getdents_not_supported :: int where
  "fs_dir_inode_getdents_not_supported = - errno ERR_NOTSUP"

definition fs_file_inode_istty_always_false :: int where
  "fs_file_inode_istty_always_false = 0"

definition round_up_u64 :: "u64 \<Rightarrow> u64 \<Rightarrow> u64" where
  "round_up_u64 a b = (a + b - 1) div b * b"

subsection \<open>Seeking\<close>

text \<open>
  \<^verbatim>\<open>SEEK_SET\<close>, \<^verbatim>\<open>SEEK_CUR\<close>, \<^verbatim>\<open>SEEK_END\<close> are 0, 1, 2 in \<^verbatim>\<open>unistd.h\<close>.  Any other \<^verbatim>\<open>whence\<close> leaves
  \<^verbatim>\<open>newoff\<close> uninitialised: \<open>None\<close>.  The \<^verbatim>\<open>int32_t\<close> offset is sign extended to 64 bits.
\<close>

definition SEEK_SET :: int where "SEEK_SET = 0"

definition SEEK_CUR :: int where "SEEK_CUR = 1"

definition SEEK_END :: int where "SEEK_END = 2"

definition clamp_u64 :: "u64 \<Rightarrow> u64 \<Rightarrow> u64 \<Rightarrow> u64" where
  "clamp_u64 low x high = (let m = (if high < x then high else x) in if low > m then low else m)"

definition default_checked_seek :: "u64 \<Rightarrow> u64 \<Rightarrow> int \<Rightarrow> i32 \<Rightarrow> u64 option" where
  "default_checked_seek filesize current whence offset = do {
     newoff \<leftarrow>
       (if whence = SEEK_SET then Some (scast offset)
        else if whence = SEEK_CUR then Some (current + scast offset)
        else if whence = SEEK_END then Some (filesize - scast offset)
        else None);
     Some (clamp_u64 0 newoff filesize)
   }"

lemma clamp_u64_le: "clamp_u64 0 x high \<le> high"
  by (auto simp: clamp_u64_def Let_def not_less)

lemma clamp_u64_id: "x \<le> high \<Longrightarrow> clamp_u64 0 x high = x"
  by (auto simp: clamp_u64_def Let_def not_less)

text \<open>Wherever it returns, \<^verbatim>\<open>default_checked_seek\<close> returns an offset inside the file, for every
  \<^verbatim>\<open>whence\<close>, current offset and displacement, overflow included.\<close>

theorem checked_seek_in_file:
  "default_checked_seek filesize current whence off = Some pos \<Longrightarrow> pos \<le> filesize"
  by (auto simp: default_checked_seek_def bind_eq_Some_conv clamp_u64_le)

theorem checked_seek_in_file_witness:
  "\<exists>pos. default_checked_seek 100 90 SEEK_CUR 20 = Some pos \<and> pos \<le> 100"
  using checked_seek_in_file [of 100 90 SEEK_CUR 20 100]
  by (simp add: default_checked_seek_def SEEK_SET_def SEEK_CUR_def clamp_u64_def)

text \<open>A relative seek backwards past the start of the file does not stop at 0: the 64-bit sum wraps
  around and the clamp puts the offset at the end of the file.\<close>

theorem seek_before_start_goes_to_end:
  assumes "uint current + sint off < 0" and "uint filesize < 2 ^ 63"
  shows "default_checked_seek filesize current SEEK_CUR off = Some filesize"
proof -
  have "- (2 ^ 31) \<le> sint off" using sint_ge [of off] by simp
  then have low: "- (2 ^ 31) \<le> uint current + sint off"
    using add_mono [OF uint_ge_0 [of current]] by fastforce
  have sum: "current + scast off = word_of_int (uint current + sint off)"
    unfolding scast_eq [of off] by simp
  have "uint (current + scast off) = (uint current + sint off) mod 2 ^ 64"
    unfolding sum uint_word_of_int by simp
  also have "\<dots> = uint current + sint off + 2 ^ 64"
    using assms(1) low
    by (subst mod_add_self2 [symmetric], intro mod_pos_pos_trivial) simp_all
  finally have "uint filesize < uint (current + scast off)"
    using assms(2) low by simp
  then have "filesize < current + scast off" by (simp add: word_less_def)
  then show ?thesis
    by (simp add: default_checked_seek_def SEEK_SET_def SEEK_CUR_def clamp_u64_def Let_def)
qed

theorem seek_before_start_goes_to_end_witness:
  "default_checked_seek 100 5 SEEK_CUR (- 10) = Some 100"
  by (rule seek_before_start_goes_to_end) simp_all

end
