(* ===== verification/PipeFs.thy ===== *)
theory PipeFs
  imports RingBuffer Inode
begin

text \<open>
  The pipe filesystem (\<^verbatim>\<open>kernel/vfs/pipefs/pipefs.cpp\<close>).  Looking up \<^verbatim>\<open>new\<close> in its root makes a pipe
  inode with a fresh number; opening the inode allocates the ring buffer of 4096 bytes that reads and
  writes go through.  The success of \<^verbatim>\<open>malloc\<close>, which is not code of the repository, is a parameter; the
  uninitialised bytes it returns are a parameter too.
\<close>

subsection \<open>The code\<close>

type_synonym pipe_inode = "u8 ring_buffer option Inode"

record PipeFSFilesystemCtx =
  next_pipe_id :: u64

definition pipefs_create :: "bool \<Rightarrow> Errors + PipeFSFilesystemCtx" where
  "pipefs_create malloc_ok =
     (if \<not> malloc_ok then Inl ERR_NOMEM else Inr \<lparr>next_pipe_id = 1\<rparr>)"

definition pipefs_fs_on_mount :: pipe_inode where
  "pipefs_fs_on_mount = \<lparr>refcount = 0, inode_type = Directory, inode_id = 0,
     devmajor = 0, devminor = 0, inode_mode = 493, inode_uid = 0, inode_gid = 0, inode_size = 0,
     access_time = no_time, creation_time = no_time, modification_time = no_time,
     blksize = 1, opaque = None\<rparr>"

definition pipefs_dir_inode_lookup ::
  "pipe_inode \<Rightarrow> string \<Rightarrow> PipeFSFilesystemCtx \<Rightarrow> Errors + (pipe_inode \<times> PipeFSFilesystemCtx)" where
  "pipefs_dir_inode_lookup self name fs =
     (if inode_id self \<noteq> 0 \<or> name \<noteq> ''new'' then Inl ERR_NOENT
      else Inr (\<lparr>refcount = 1, inode_type = Pipe, inode_id = next_pipe_id fs,
                 devmajor = 0, devminor = 0, inode_mode = 438, inode_uid = 0, inode_gid = 0, inode_size = 0,
                 access_time = no_time, creation_time = no_time, modification_time = no_time,
                 blksize = 1, opaque = None\<rparr>,
                fs\<lparr>next_pipe_id := next_pipe_id fs + 1\<rparr>))"

text \<open>The memory obtained for the context holds arbitrary bytes; \<^verbatim>\<open>clear\<close> resets the three counters.\<close>

definition pipefs_fs_open_inode ::
  "bool \<Rightarrow> u8 ring_buffer \<Rightarrow> pipe_inode \<Rightarrow> Errors + pipe_inode" where
  "pipefs_fs_open_inode malloc_ok raw inode =
     (if inode_id inode = 0 then Inr inode
      else if \<not> malloc_ok then Inl ERR_NOMEM
      else Inr (inode\<lparr>opaque := Some (rb_clear raw)\<rparr>))"

definition pipefs_fs_close_inode :: "pipe_inode \<Rightarrow> pipe_inode" where
  "pipefs_fs_close_inode inode =
     (if inode_id inode = 0 then inode else inode\<lparr>opaque := None\<rparr>)"

text \<open>A read or write on an inode without a buffer would follow a null pointer: \<open>None\<close>.\<close>

definition pipefs_file_inode_read :: "pipe_inode \<Rightarrow> nat \<Rightarrow> (u8 list \<times> pipe_inode) option" where
  "pipefs_file_inode_read self len = do {
     ctx \<leftarrow> opaque self;
     (if rb_is_empty ctx then Some ([], self)
      else let (bytes, ctx') = fifo_drain rb_pop len ctx
           in Some (bytes, self\<lparr>opaque := Some ctx'\<rparr>))
   }"

definition pipefs_file_inode_write :: "pipe_inode \<Rightarrow> u8 list \<Rightarrow> (nat \<times> pipe_inode) option" where
  "pipefs_file_inode_write self buffer = do {
     ctx \<leftarrow> opaque self;
     let (bytes_written, ctx') = fifo_fill rb_is_full rb_push buffer ctx;
     Some (bytes_written, self\<lparr>opaque := Some ctx'\<rparr>)
   }"

text \<open>The result is the new value of \<^verbatim>\<open>*out_revents\<close>, into which the ready events are or-ed.\<close>

definition pipefs_file_inode_poll :: "pipe_inode \<Rightarrow> u32 \<Rightarrow> u32 \<Rightarrow> u32 option" where
  "pipefs_file_inode_poll self events revents = do {
     ctx \<leftarrow> opaque self;
     let r1 = (if events AND F_POLLIN \<noteq> 0 \<and> \<not> rb_is_empty ctx
               then revents OR F_POLLIN else revents);
     Some (if events AND F_POLLOUT \<noteq> 0 \<and> \<not> rb_is_full ctx then r1 OR F_POLLOUT else r1)
   }"

subsection \<open>The byte stream of a pipe\<close>

definition pipe_open :: "pipe_inode \<Rightarrow> bool" where
  "pipe_open inode \<longleftrightarrow>
     (case opaque inode of None \<Rightarrow> False | Some ctx \<Rightarrow> rb_inv ctx \<and> rb_capacity ctx = 4096)"

definition pipe_bytes :: "pipe_inode \<Rightarrow> u8 list" where
  "pipe_bytes inode = (case opaque inode of None \<Rightarrow> [] | Some ctx \<Rightarrow> rb_contents ctx)"

lemma pipe_openE:
  assumes "pipe_open inode"
  obtains ctx where "opaque inode = Some ctx" "rb_inv ctx" "rb_capacity ctx = 4096"
    "pipe_bytes inode = rb_contents ctx"
  using assms by (auto simp: pipe_open_def pipe_bytes_def split: option.splits)

lemma pipe_open_with [simp]:
  "pipe_open (inode\<lparr>opaque := Some ctx\<rparr>) \<longleftrightarrow> rb_inv ctx \<and> rb_capacity ctx = 4096"
  "pipe_bytes (inode\<lparr>opaque := Some ctx\<rparr>) = rb_contents ctx"
  by (simp_all add: pipe_open_def pipe_bytes_def)

text \<open>The abstract pipe: a list of bytes with room for 4096.\<close>

definition abs_write :: "u8 list \<Rightarrow> u8 list \<Rightarrow> nat \<times> u8 list" where
  "abs_write xs s = (let n = min (length xs) (4096 - length s) in (n, s @ take n xs))"

definition abs_read :: "nat \<Rightarrow> u8 list \<Rightarrow> u8 list \<times> u8 list" where
  "abs_read n s = (take n s, drop n s)"

lemma pipe_write_abs:
  assumes "pipe_open inode"
  shows "\<exists>n inode'. pipefs_file_inode_write inode xs = Some (n, inode') \<and>
    pipe_open inode' \<and> (n, pipe_bytes inode') = abs_write xs (pipe_bytes inode)"
proof -
  obtain ctx where ctx: "opaque inode = Some ctx" "rb_inv ctx" "rb_capacity ctx = 4096"
    "pipe_bytes inode = rb_contents ctx" using assms by (rule pipe_openE)
  obtain n ctx' where fill: "fifo_fill rb_is_full rb_push xs ctx = (n, ctx')" by fastforce
  from rb.fill_correct [OF ctx(2) fill] ctx fill show ?thesis
    by (auto simp: pipefs_file_inode_write_def abs_write_def min_def Let_def)
qed

lemma pipe_read_abs:
  assumes "pipe_open inode"
  shows "\<exists>bs inode'. pipefs_file_inode_read inode n = Some (bs, inode') \<and>
    pipe_open inode' \<and> (bs, pipe_bytes inode') = abs_read n (pipe_bytes inode)"
proof -
  obtain ctx where ctx: "opaque inode = Some ctx" "rb_inv ctx" "rb_capacity ctx = 4096"
    "pipe_bytes inode = rb_contents ctx" using assms by (rule pipe_openE)
  obtain bs ctx' where drain: "fifo_drain rb_pop n ctx = (bs, ctx')" by fastforce
  show ?thesis
  proof (cases "rb_is_empty ctx")
    case True
    then have "rb_contents ctx = []" by (simp add: rb_is_empty_def rb_contents_def)
    with True ctx assms show ?thesis by (simp add: pipefs_file_inode_read_def abs_read_def)
  next
    case False
    with rb.drain_correct [OF ctx(2) drain] ctx drain show ?thesis
      by (simp add: pipefs_file_inode_read_def abs_read_def)
  qed
qed

lemma open_pipe:
  assumes "length (rb_data raw) = 4096" and "inode_id inode \<noteq> 0"
  shows "\<exists>inode'. pipefs_fs_open_inode True raw inode = Inr inode' \<and> pipe_open inode' \<and>
    pipe_bytes inode' = []"
proof -
  have "rb_inv (rb_clear raw)" using assms(1) by (intro rb_clear_inv) (simp add: rb_capacity_def)
  moreover have "rb_capacity (rb_clear raw) = 4096"
    using assms(1) by (simp add: rb_capacity_def rb_clear_def)
  ultimately show ?thesis using assms(2) by (simp add: pipefs_fs_open_inode_def)
qed

definition raw_ring_example :: "u8 ring_buffer" where
  "raw_ring_example = \<lparr>rb_data = replicate 4096 0, read_pos = 7, write_pos = 9, rb_count = 3\<rparr>"

definition pipe_inode_example :: pipe_inode where
  "pipe_inode_example = pipefs_fs_on_mount\<lparr>inode_type := Pipe, inode_id := 1\<rparr>"

lemma pipe_example:
  obtains inode where "pipefs_fs_open_inode True raw_ring_example pipe_inode_example = Inr inode"
    "pipe_open inode" "pipe_bytes inode = []"
  using open_pipe [of raw_ring_example pipe_inode_example]
  by (auto simp: raw_ring_example_def pipe_inode_example_def pipefs_fs_on_mount_def)

subsection \<open>Properties\<close>

text \<open>C36: a pipe refines a bounded byte stream: writing appends as many bytes as fit in 4096 and reports
  that number, reading takes bytes from the front and reports them; neither can crash on an open pipe.\<close>

theorem pipe_refines_stream:
  assumes "pipe_open inode"
  shows "(\<exists>n i'. pipefs_file_inode_write inode xs = Some (n, i') \<and> pipe_open i' \<and>
            (n, pipe_bytes i') = abs_write xs (pipe_bytes inode)) \<and>
         (\<exists>bs i'. pipefs_file_inode_read inode m = Some (bs, i') \<and> pipe_open i' \<and>
            (bs, pipe_bytes i') = abs_read m (pipe_bytes inode))"
  using pipe_write_abs [OF assms] pipe_read_abs [OF assms] by blast

theorem pipe_refines_stream_witness:
  "\<exists>inode n i'. pipefs_fs_open_inode True raw_ring_example pipe_inode_example = Inr inode \<and>
     pipefs_file_inode_write inode [1, 2, 3] = Some (n, i') \<and> pipe_bytes i' = [1, 2, 3]"
proof -
  obtain inode where i: "pipefs_fs_open_inode True raw_ring_example pipe_inode_example = Inr inode"
    "pipe_open inode" "pipe_bytes inode = []" by (rule pipe_example)
  from pipe_refines_stream [OF i(2), of "[1, 2, 3]" 0] i show ?thesis
    by (auto simp: abs_write_def)
qed

text \<open>What is written to an empty pipe, at most 4096 bytes, is read back unchanged and leaves the pipe
  empty; the write is complete.\<close>

theorem pipe_write_read_roundtrip:
  assumes "pipe_open inode" and "pipe_bytes inode = []" and "length xs \<le> 4096"
  shows "\<exists>i1 i2. pipefs_file_inode_write inode xs = Some (length xs, i1) \<and>
    pipefs_file_inode_read i1 (length xs) = Some (xs, i2) \<and> pipe_bytes i2 = []"
proof -
  obtain i1 where w: "pipefs_file_inode_write inode xs = Some (length xs, i1)"
    and o1: "pipe_open i1" and b1: "pipe_bytes i1 = xs"
    using pipe_write_abs [OF assms(1), of xs] assms(2,3) by (auto simp: abs_write_def)
  from pipe_read_abs [OF o1, of "length xs"] b1 w show ?thesis
    by (auto simp: abs_read_def)
qed

theorem pipe_write_read_roundtrip_witness:
  "\<exists>i0 i1 i2. pipefs_fs_open_inode True raw_ring_example pipe_inode_example = Inr i0 \<and>
     pipefs_file_inode_write i0 [10, 20] = Some (2, i1) \<and>
     pipefs_file_inode_read i1 2 = Some ([10, 20], i2)"
proof -
  obtain i0 where i: "pipefs_fs_open_inode True raw_ring_example pipe_inode_example = Inr i0"
    "pipe_open i0" "pipe_bytes i0 = []" by (rule pipe_example)
  from pipe_write_read_roundtrip [OF i(2,3), of "[10, 20]"] i show ?thesis
    by (auto simp: numeral_2_eq_2)
qed

text \<open>\<^verbatim>\<open>poll\<close> on a pipe is truthful: asked for both events it adds \<^verbatim>\<open>POLLIN\<close> exactly when a read of one
  byte would return a byte, and \<^verbatim>\<open>POLLOUT\<close> exactly when a write of one byte would be taken.\<close>

theorem pipe_poll_truthful:
  assumes "pipe_open inode"
  shows "\<exists>r bs n i1 i2. pipefs_file_inode_poll inode F_POLLMASK 0 = Some r \<and>
    pipefs_file_inode_read inode 1 = Some (bs, i1) \<and>
    pipefs_file_inode_write inode [x] = Some (n, i2) \<and>
    (r AND F_POLLIN \<noteq> 0 \<longleftrightarrow> bs \<noteq> []) \<and> (r AND F_POLLOUT \<noteq> 0 \<longleftrightarrow> n = 1)"
proof -
  obtain ctx where ctx: "opaque inode = Some ctx" "rb_inv ctx" "rb_capacity ctx = 4096"
    "pipe_bytes inode = rb_contents ctx" using assms by (rule pipe_openE)
  obtain n i2 where w: "pipefs_file_inode_write inode [x] = Some (n, i2)"
    and n: "n = min 1 (4096 - rb_count ctx)"
    using pipe_write_abs [OF assms, of "[x]"] ctx by (auto simp: abs_write_def Let_def)
  obtain bs i1 where r: "pipefs_file_inode_read inode 1 = Some (bs, i1)"
    and bs: "bs = take 1 (rb_contents ctx)"
    using pipe_read_abs [OF assms, of 1] ctx by (auto simp: abs_read_def)
  have "rb_count ctx \<le> 4096" using ctx by (simp add: rb_inv_def)
  then have "n = 1 \<longleftrightarrow> \<not> rb_is_full ctx" and "bs \<noteq> [] \<longleftrightarrow> \<not> rb_is_empty ctx"
    using ctx n bs by (auto simp: rb_is_full_def rb_is_empty_def rb_contents_def)
  with w r ctx show ?thesis
    by (auto simp: pipefs_file_inode_poll_def F_POLLMASK_def F_POLLIN_def F_POLLOUT_def)
qed

theorem pipe_poll_truthful_witness:
  "\<exists>i0 r. pipefs_fs_open_inode True raw_ring_example pipe_inode_example = Inr i0 \<and>
     pipefs_file_inode_poll i0 F_POLLMASK 0 = Some r"
proof -
  obtain i0 where i: "pipefs_fs_open_inode True raw_ring_example pipe_inode_example = Inr i0"
    "pipe_open i0" "pipe_bytes i0 = []" by (rule pipe_example)
  from pipe_poll_truthful [OF i(2), of 0] i show ?thesis by blast
qed

end
