(* ===== verification/IntrusiveList.thy ===== *)
theory IntrusiveList
  imports Prelude
begin

text \<open>
  The intrusive doubly linked list (\<^verbatim>\<open>kernel/lib/intrusivelinkedlist.h\<close>).  Nodes are addresses; the
  \<^verbatim>\<open>prev\<close> and \<^verbatim>\<open>next\<close> fields embedded in the nodes are two maps from addresses, so that an operation
  that forgets a field leaves its old value there, as in the code.
\<close>

subsection \<open>The code\<close>

record linked_list =
  ll_prev :: "nat \<Rightarrow> nat option"
  ll_next :: "nat \<Rightarrow> nat option"
  ll_head :: "nat option"
  ll_tail :: "nat option"

definition set_ll_prev :: "nat \<Rightarrow> nat option \<Rightarrow> linked_list \<Rightarrow> linked_list" where
  "set_ll_prev n p l = l\<lparr>ll_prev := (ll_prev l)(n := p)\<rparr>"

definition set_ll_next :: "nat \<Rightarrow> nat option \<Rightarrow> linked_list \<Rightarrow> linked_list" where
  "set_ll_next n q l = l\<lparr>ll_next := (ll_next l)(n := q)\<rparr>"

text \<open>
  The successor is read before the callback runs.  The callback works on its own state and may change the
  list; \<open>None\<close> is a crash in it.  Nodes may be freed on the way: \<open>live\<close> says which nodes are allocated in a state
  of the caller, and reading a field of any other node is a crash as well.
\<close>

type_synonym 'a traversal = "nat \<Rightarrow> 'a \<times> linked_list \<Rightarrow> ('a \<times> linked_list) option"

partial_function (option) foreach_from ::
  "('a \<Rightarrow> nat \<Rightarrow> bool) \<Rightarrow> 'a traversal \<Rightarrow> nat option \<Rightarrow> 'a \<times> linked_list \<Rightarrow> ('a \<times> linked_list) option" where
  "foreach_from live func current st =
     (case current of
        None \<Rightarrow> Some st
      | Some c \<Rightarrow> do {
          kassert (live (fst st) c);
          let nx = ll_next (snd st) c;
          st \<leftarrow> func c st;
          foreach_from live func nx st
        })"

definition ll_foreach ::
  "('a \<Rightarrow> nat \<Rightarrow> bool) \<Rightarrow> 'a traversal \<Rightarrow> 'a \<times> linked_list \<Rightarrow> ('a \<times> linked_list) option" where
  "ll_foreach live func st = foreach_from live func (ll_head (snd st)) st"

partial_function (option) foreach_reverse_from ::
  "('a \<Rightarrow> nat \<Rightarrow> bool) \<Rightarrow> 'a traversal \<Rightarrow> nat option \<Rightarrow> 'a \<times> linked_list \<Rightarrow> ('a \<times> linked_list) option" where
  "foreach_reverse_from live func current st =
     (case current of
        None \<Rightarrow> Some st
      | Some c \<Rightarrow> do {
          kassert (live (fst st) c);
          let pv = ll_prev (snd st) c;
          st \<leftarrow> func c st;
          foreach_reverse_from live func pv st
        })"

definition ll_foreach_reverse ::
  "('a \<Rightarrow> nat \<Rightarrow> bool) \<Rightarrow> 'a traversal \<Rightarrow> 'a \<times> linked_list \<Rightarrow> ('a \<times> linked_list) option" where
  "ll_foreach_reverse live func st = foreach_reverse_from live func (ll_tail (snd st)) st"

text \<open>The inner option of a search is the returned pointer; the outer one is termination.\<close>

partial_function (option) find_from ::
  "(nat \<Rightarrow> bool) \<Rightarrow> nat option \<Rightarrow> linked_list \<Rightarrow> nat option option" where
  "find_from pred current l =
     (case current of
        None \<Rightarrow> Some None
      | Some c \<Rightarrow> if pred c then Some (Some c) else find_from pred (ll_next l c) l)"

definition ll_find :: "(nat \<Rightarrow> bool) \<Rightarrow> linked_list \<Rightarrow> nat option option" where
  "ll_find pred l = find_from pred (ll_head l) l"

definition ll_remove :: "nat \<Rightarrow> linked_list \<Rightarrow> linked_list" where
  "ll_remove node l =
     (case ll_prev l node of
        None \<Rightarrow>
          let l = l\<lparr>ll_head := ll_next l node\<rparr>
          in (case ll_head l of
                None \<Rightarrow> l\<lparr>ll_tail := None\<rparr>
              | Some h \<Rightarrow> set_ll_prev h None l)
      | Some p \<Rightarrow>
          (case ll_next l node of
             None \<Rightarrow> set_ll_next p None (l\<lparr>ll_tail := Some p\<rparr>)
           | Some n \<Rightarrow>
               let l = set_ll_next p (Some n) l
               in set_ll_prev n (ll_prev l node) l))"

text \<open>The nodes whose fields \<^verbatim>\<open>remove\<close> reads or writes, and the operation when some nodes may have been freed.\<close>

definition ll_touched :: "nat \<Rightarrow> linked_list \<Rightarrow> nat list" where
  "ll_touched node l = node # (case ll_prev l node of None \<Rightarrow> [] | Some p \<Rightarrow> [p])
     @ (case ll_next l node of None \<Rightarrow> [] | Some n \<Rightarrow> [n])"

definition ll_remove_live :: "(nat \<Rightarrow> bool) \<Rightarrow> nat \<Rightarrow> linked_list \<Rightarrow> linked_list option" where
  "ll_remove_live live node l =
     do { kassert (live node); kassert (list_all live (ll_touched node l)); Some (ll_remove node l) }"

definition ll_add :: "nat \<Rightarrow> linked_list \<Rightarrow> linked_list" where
  "ll_add node l = (
     let l = set_ll_next node (ll_head l) (set_ll_prev node None l);
         l = (case ll_head l of None \<Rightarrow> l | Some h \<Rightarrow> set_ll_prev h (Some node) l);
         l = l\<lparr>ll_head := Some node\<rparr>
     in if ll_tail l = None then l\<lparr>ll_tail := ll_head l\<rparr> else l)"

text \<open>With a head but no tail \<^verbatim>\<open>append\<close> would write through a null pointer: \<open>None\<close>.\<close>

definition ll_append :: "nat \<Rightarrow> linked_list \<Rightarrow> linked_list option" where
  "ll_append node l =
     (if ll_head l = None then Some (ll_add node l)
      else do {
        let l = set_ll_prev node (ll_tail l) (set_ll_next node None l);
        t \<leftarrow> ll_tail l;
        Some ((set_ll_next t (Some node) l)\<lparr>ll_tail := Some node\<rparr>)
      })"

definition ll_append_before :: "nat \<Rightarrow> nat \<Rightarrow> linked_list \<Rightarrow> linked_list" where
  "ll_append_before node before l =
     (case ll_prev l before of
        None \<Rightarrow> ll_add node l
      | Some p \<Rightarrow>
          set_ll_prev before (Some node)
            (set_ll_next node (Some before)
              (set_ll_next p (Some node) (set_ll_prev node (Some p) l))))"

definition ll_first :: "linked_list \<Rightarrow> nat option" where
  "ll_first l = ll_head l"

definition ll_last :: "linked_list \<Rightarrow> nat option" where
  "ll_last l = ll_tail l"

definition ll_pop :: "linked_list \<Rightarrow> nat option \<times> linked_list" where
  "ll_pop l = (let el = ll_first l in (el, case el of None \<Rightarrow> l | Some n \<Rightarrow> ll_remove n l))"

definition ll_length :: "linked_list \<Rightarrow> nat option" where
  "ll_length l = map_option fst (ll_foreach (\<lambda>_ _. True) (\<lambda>_ (n, l). Some (n + 1, l)) (0, l))"

text \<open>As written in the source: the comparison is \<^verbatim>\<open>head != nullptr\<close>.\<close>

definition ll_is_empty :: "linked_list \<Rightarrow> bool" where
  "ll_is_empty l \<longleftrightarrow> ll_head l \<noteq> None"

text \<open>\<^verbatim>\<open>remove(head)\<close> with a null head reads through a null pointer: \<open>None\<close>.\<close>

partial_function (option) ll_free :: "linked_list \<Rightarrow> linked_list option" where
  "ll_free l =
     (if \<not> ll_is_empty l then do { h \<leftarrow> ll_head l; ll_free (ll_remove h l) } else Some l)"

subsection \<open>What a well-formed list is\<close>

text \<open>
  \<open>seg p q pv cur xs nx last\<close>: following \<open>q\<close> from \<open>cur\<close> visits \<open>xs\<close> and ends at \<open>nx\<close>; the back pointers
  lead to \<open>pv\<close>, and \<open>last\<close> is the last node (\<open>pv\<close> if there is none).
\<close>

primrec seg ::
  "(nat \<Rightarrow> nat option) \<Rightarrow> (nat \<Rightarrow> nat option) \<Rightarrow> nat option \<Rightarrow> nat option \<Rightarrow> nat list \<Rightarrow>
   nat option \<Rightarrow> nat option \<Rightarrow> bool" where
  "seg p q pv cur [] nx lst \<longleftrightarrow> cur = nx \<and> lst = pv"
| "seg p q pv cur (x # xs) nx lst \<longleftrightarrow> cur = Some x \<and> p x = pv \<and> seg p q (Some x) (q x) xs nx lst"

lemma seg_append [simp]:
  "seg p q pv cur (xs @ ys) nx lst \<longleftrightarrow>
   (\<exists>c m. seg p q pv cur xs c m \<and> seg p q m c ys nx lst)"
  by (induction xs arbitrary: pv cur) auto

lemma seg_upd_prev [simp]: "x \<notin> set xs \<Longrightarrow> seg (p(x := v)) q pv cur xs nx lst = seg p q pv cur xs nx lst"
  by (induction xs arbitrary: pv cur) auto

lemma seg_upd_next [simp]: "x \<notin> set xs \<Longrightarrow> seg p (q(x := v)) pv cur xs nx lst = seg p q pv cur xs nx lst"
  by (induction xs arbitrary: pv cur) auto

lemma seg_last_not_None [simp]: "\<not> seg p q (Some b) cur xs nx None"
  by (induction xs arbitrary: b cur) auto

lemma seg_from_None [simp]: "seg p q pv None xs nx lst \<longleftrightarrow> xs = [] \<and> nx = None \<and> lst = pv"
  by (cases xs) auto

definition is_list :: "linked_list \<Rightarrow> nat list \<Rightarrow> bool" where
  "is_list l xs \<longleftrightarrow>
     seg (ll_prev l) (ll_next l) None (ll_head l) xs None (ll_tail l) \<and> distinct xs"

lemmas ll_defs = set_ll_prev_def set_ll_next_def is_list_def

lemma is_list_Nil [simp]: "is_list l [] \<longleftrightarrow> ll_head l = None \<and> ll_tail l = None"
  by (simp add: is_list_def)

lemma is_list_head: "is_list l (x # xs) \<Longrightarrow> ll_head l = Some x"
  by (simp add: is_list_def)

lemma is_list_head_None: "is_list l xs \<Longrightarrow> ll_head l = None \<longleftrightarrow> xs = []"
  by (cases xs) (auto simp: is_list_def)

lemma is_list_tail_None: "is_list l xs \<Longrightarrow> ll_tail l = None \<longleftrightarrow> xs = []"
  by (cases xs rule: rev_cases) (auto simp: is_list_def)

subsection \<open>The operations on well-formed lists\<close>

lemma is_list_add:
  assumes "is_list l xs" and "n \<notin> set xs"
  shows "is_list (ll_add n l) (n # xs)"
  using assms by (cases xs) (auto simp: ll_add_def ll_defs Let_def)

lemma is_list_append:
  assumes "is_list l xs" and "n \<notin> set xs"
  shows "\<exists>l'. ll_append n l = Some l' \<and> is_list l' (xs @ [n])"
proof (cases "xs = []")
  case True
  then show ?thesis using is_list_add [OF assms] assms(1) by (simp add: ll_append_def)
next
  case False
  then obtain ys y where "xs = ys @ [y]" by (metis rev_exhaust)
  with assms is_list_head_None [OF assms(1)] False show ?thesis
    by (auto simp: ll_append_def ll_defs Let_def)
qed

lemma is_list_remove:
  assumes "is_list l (xs @ n # ys)"
  shows "is_list (ll_remove n l) (xs @ ys)"
  using assms
  by (cases xs rule: rev_cases; cases ys) (auto simp: ll_remove_def ll_defs Let_def)

lemma is_list_append_before:
  assumes "is_list l (xs @ b # ys)" and "n \<notin> set (xs @ b # ys)"
  shows "is_list (ll_append_before n b l) (xs @ n # b # ys)"
  using assms
  by (cases xs rule: rev_cases) (auto simp: ll_append_before_def ll_add_def ll_defs Let_def)

lemma is_list_pop:
  "is_list l (x # xs) \<Longrightarrow> fst (ll_pop l) = Some x \<and> is_list (snd (ll_pop l)) xs"
  using is_list_remove [of l "[]" x xs] by (simp add: ll_pop_def ll_first_def is_list_head)

lemma find_from_seg:
  "seg (ll_prev l) (ll_next l) pv cur xs None lst \<Longrightarrow> find_from P cur l = Some (List.find P xs)"
  by (induction xs arbitrary: pv cur) (subst find_from.simps, auto)+

lemma is_list_find: "is_list l xs \<Longrightarrow> ll_find P l = Some (List.find P xs)"
  by (auto simp: ll_find_def is_list_def intro: find_from_seg)

subsection \<open>Iteration\<close>

text \<open>
  A callback that leaves the list alone or removes the node it is called on: \<open>g\<close> is its effect on the
  caller's state, \<open>R\<close> says when it removes its node.  \<open>kept\<close> are the nodes that stay.
\<close>

primrec kept :: "(nat \<Rightarrow> 'a \<Rightarrow> bool) \<Rightarrow> (nat \<Rightarrow> 'a \<Rightarrow> 'a) \<Rightarrow> nat list \<Rightarrow> 'a \<Rightarrow> nat list" where
  "kept R g [] a = []"
| "kept R g (x # xs) a = (if R x a then [] else [x]) @ kept R g xs (g x a)"

definition self_removing ::
  "('a \<Rightarrow> nat \<Rightarrow> bool) \<Rightarrow> 'a traversal \<Rightarrow> (nat \<Rightarrow> 'a \<Rightarrow> bool) \<Rightarrow> (nat \<Rightarrow> 'a \<Rightarrow> 'a) \<Rightarrow> bool" where
  "self_removing live f R g \<longleftrightarrow>
     (\<forall>c a l. list_all (live a) (ll_touched c l) \<longrightarrow>
        f c (a, l) = Some (g c a, if R c a then ll_remove c l else l)) \<and>
     (\<forall>c a x. live a x \<longrightarrow> x \<noteq> c \<or> \<not> R c a \<longrightarrow> live (g c a) x)"

definition head_of :: "nat list \<Rightarrow> nat option" where
  "head_of xs = (case xs of [] \<Rightarrow> None | x # _ \<Rightarrow> Some x)"

lemma is_list_next: "is_list l (ys @ x # xs) \<Longrightarrow> ll_next l x = head_of xs"
  by (cases xs) (auto simp: is_list_def head_of_def)

lemma is_list_head_of: "is_list l xs \<Longrightarrow> ll_head l = head_of xs"
  by (cases xs) (auto simp: is_list_def head_of_def)

lemma is_list_prev: "is_list l (ys @ x # xs) \<Longrightarrow> ll_prev l x = (if ys = [] then None else Some (last ys))"
  by (cases ys rule: rev_cases) (auto simp: is_list_def)

lemma is_list_touched: "is_list l (ys @ x # xs) \<Longrightarrow> set (ll_touched x l) \<subseteq> set (ys @ x # xs)"
  by (cases xs) (auto simp: ll_touched_def is_list_prev is_list_next head_of_def)

lemma foreach_from_self_removing:
  assumes f: "self_removing live f R g"
  shows "is_list l (ys @ xs) \<Longrightarrow> \<forall>x \<in> set (ys @ xs). live a x \<Longrightarrow>
    \<exists>l'. foreach_from live f (head_of xs) (a, l) = Some (fold g xs a, l') \<and>
         is_list l' (ys @ kept R g xs a)"
proof (induction xs arbitrary: ys l a)
  case Nil
  then show ?case by (subst foreach_from.simps) (simp add: head_of_def)
next
  case (Cons x xs)
  let ?l' = "if R x a then ll_remove x l else l" and ?ys = "if R x a then ys else ys @ [x]"
  have "list_all (live a) (ll_touched x l)"
    using is_list_touched [OF Cons.prems(1)] Cons.prems(2) by (auto simp: list_all_iff)
  then have "f x (a, l) = Some (g x a, ?l')" using f by (simp add: self_removing_def)
  then have step: "foreach_from live f (head_of (x # xs)) (a, l) =
      foreach_from live f (head_of xs) (g x a, ?l')"
    using is_list_next [OF Cons.prems(1)] Cons.prems(2)
    by (subst foreach_from.simps) (simp add: head_of_def)
  have list: "is_list ?l' (?ys @ xs)" using Cons.prems(1) is_list_remove [of l ys x xs] by auto
  have "x \<notin> set (ys @ xs)" using Cons.prems(1) by (simp add: is_list_def)
  then have "\<forall>y \<in> set (?ys @ xs). live (g x a) y"
    using Cons.prems(2) f [unfolded self_removing_def, THEN conjunct2, rule_format, of a _ x] by auto
  from Cons.IH [OF list this] step show ?case by (auto split: if_splits)
qed

lemma foreach_self_removing:
  assumes "self_removing live f R g" and "is_list l xs" and "\<forall>x \<in> set xs. live a x"
  shows "\<exists>l'. ll_foreach live f (a, l) = Some (fold g xs a, l') \<and> is_list l' (kept R g xs a)"
  using foreach_from_self_removing [OF assms(1), of l "[]" xs a] assms(2,3)
  by (simp add: ll_foreach_def is_list_head_of)

lemma self_removing_read_only:
  "self_removing (\<lambda>_ _. True) (\<lambda>c (a, l). Some (g c a, l)) (\<lambda>_ _. False) g"
  by (simp add: self_removing_def)

lemma kept_all: "kept (\<lambda>_ _. False) g xs a = xs"
  by (induction xs arbitrary: a) simp_all

lemma foreach_read_only:
  assumes "is_list l xs"
  shows "\<exists>l'. ll_foreach (\<lambda>_ _. True) (\<lambda>c (a, l). Some (g c a, l)) (a, l) = Some (fold g xs a, l')"
  using foreach_self_removing [OF self_removing_read_only assms, where a = a and g = g] by auto

lemma is_list_length:
  assumes "is_list l xs"
  shows "ll_length l = Some (length xs)"
proof -
  obtain l' where "ll_foreach (\<lambda>_ _. True) (\<lambda>_ (n, l). Some (n + 1, l)) (0 :: nat, l) = Some (fold (\<lambda>_ n. n + 1) xs 0, l')"
    using foreach_read_only [OF assms, of "\<lambda>_ n. n + 1" 0] by blast
  moreover have "fold (\<lambda>_ n. n + 1) xs k = k + length xs" for k :: nat
    by (induction xs arbitrary: k) simp_all
  ultimately show ?thesis by (simp only: ll_length_def option.map fst_conv add_0)
qed

lemma is_list_distinct: "is_list l xs \<Longrightarrow> distinct xs"
  by (simp add: is_list_def)

lemma find_first_match:
  "\<forall>x \<in> set xs. \<not> P x \<Longrightarrow> P b \<Longrightarrow> List.find P (xs @ b # ys) = Some b"
  by (induction xs) simp_all

subsection \<open>The list as a sequence\<close>

text \<open>
  The interface that the timers, the mount table and the inode cache use: a container of distinct nodes
  with an abstraction to a sequence.
\<close>

locale node_sequence =
  fixes insert_front :: "'n \<Rightarrow> 'l \<Rightarrow> 'l"
    and insert_before :: "'n \<Rightarrow> 'n \<Rightarrow> 'l \<Rightarrow> 'l"
    and delete :: "'n \<Rightarrow> 'l \<Rightarrow> 'l"
    and search :: "('n \<Rightarrow> bool) \<Rightarrow> 'l \<Rightarrow> 'n option option"
    and sequence :: "'l \<Rightarrow> 'n list \<Rightarrow> bool"
  assumes front_law: "sequence l xs \<Longrightarrow> n \<notin> set xs \<Longrightarrow> sequence (insert_front n l) (n # xs)"
    and before_law: "sequence l (xs @ b # ys) \<Longrightarrow> n \<notin> set (xs @ b # ys) \<Longrightarrow>
      sequence (insert_before n b l) (xs @ n # b # ys)"
    and delete_law: "sequence l (xs @ n # ys) \<Longrightarrow> sequence (delete n l) (xs @ ys)"
    and search_law: "sequence l xs \<Longrightarrow> search P l = Some (List.find P xs)"
    and sequence_distinct: "sequence l xs \<Longrightarrow> distinct xs"
begin

text \<open>
  Insertion in front of the first node that satisfies \<open>P\<close>, or at the front when there is none, as
  \<^verbatim>\<open>vfs_mount\<close> does it.
\<close>

lemma insert_at_first:
  assumes "sequence l xs" and "n \<notin> set xs"
  shows "\<exists>l'. (case search P l of
             Some (Some b) \<Rightarrow> Some (insert_before n b l)
           | Some None \<Rightarrow> Some (insert_front n l)
           | None \<Rightarrow> None) = Some l' \<and>
    sequence l' (if \<exists>x \<in> set xs. P x
      then takeWhile (Not \<circ> P) xs @ n # dropWhile (Not \<circ> P) xs else n # xs)"
proof (cases "\<exists>x \<in> set xs. P x")
  case True
  then have ne: "dropWhile (Not \<circ> P) xs \<noteq> []" by (auto simp: dropWhile_eq_Nil_conv)
  then obtain b ys where drop: "dropWhile (Not \<circ> P) xs = b # ys" by (cases "dropWhile (Not \<circ> P) xs") auto
  have xs: "xs = takeWhile (Not \<circ> P) xs @ b # ys"
    using takeWhile_dropWhile_id [of "Not \<circ> P" xs] drop by simp
  have "P b" using hd_dropWhile [OF ne] drop by simp
  have "List.find P xs = Some b"
    by (subst xs, rule find_first_match) (use \<open>P b\<close> in \<open>auto dest: set_takeWhileD\<close>)
  moreover have "sequence (insert_before n b l) (takeWhile (Not \<circ> P) xs @ n # b # ys)"
    using assms xs by (intro before_law) simp_all
  ultimately show ?thesis using search_law [OF assms(1), of P] True drop by simp
next
  case False
  then have "List.find P xs = None" by (auto simp: find_None_iff)
  then show ?thesis using search_law [OF assms(1), of P] front_law [OF assms] False by simp
qed

end

interpretation ll: node_sequence ll_add ll_append_before ll_remove ll_find is_list
  by unfold_locales
     (blast intro: is_list_add is_list_append_before is_list_remove is_list_find is_list_distinct)+

subsection \<open>Properties\<close>

text \<open>
  \<^verbatim>\<open>is_empty\<close> answers the opposite of its name, and \<^verbatim>\<open>free\<close>, which loops while \<^verbatim>\<open>!is_empty()\<close>, leaves a
  list with nodes as it is and reads through a null pointer on an empty one.
\<close>

lemma is_empty_inverted:
  assumes "is_list l xs"
  shows "ll_is_empty l = (xs \<noteq> [])" and "ll_free l = (if xs = [] then None else Some l)"
  using is_list_head_None [OF assms] by (simp add: ll_is_empty_def, subst ll_free.simps) (auto simp: ll_is_empty_def)

lemma is_list_ends:
  assumes "is_list l xs"
  shows "ll_first l = (if xs = [] then None else Some (hd xs))"
    and "ll_last l = (if xs = [] then None else Some (last xs))"
  using assms is_list_head_of [OF assms]
  by (cases xs; simp add: ll_first_def head_of_def)
    (use assms in \<open>cases xs rule: rev_cases; auto simp: ll_last_def is_list_def\<close>)

text \<open>
  C37: On every well-formed list, the empty one included, these operations have the effect their names promise on the
  sequence of nodes: \<^verbatim>\<open>add\<close> puts a new node in front, \<^verbatim>\<open>append\<close> at the end, \<^verbatim>\<open>append_before\<close> in front of the
  given node, \<^verbatim>\<open>remove\<close> takes out exactly the given node and \<^verbatim>\<open>pop\<close> the first one, \<^verbatim>\<open>first\<close> and \<^verbatim>\<open>last\<close> are the
  ends, \<^verbatim>\<open>find\<close> returns the first node that satisfies the filter and \<^verbatim>\<open>length\<close> counts the nodes; all traversals
  end, and the links of the result are well formed in both directions.  The other two do not: \<^verbatim>\<open>is_empty\<close> is true
  exactly of a list that is not empty, and \<^verbatim>\<open>free\<close> crashes on an empty list and removes nothing from another.
\<close>

theorem list_ops_on_sequence:
  assumes l: "is_list l zs" and n: "n \<notin> set zs"
  shows "is_list (ll_add n l) (n # zs) \<and>
    (\<exists>l'. ll_append n l = Some l' \<and> is_list l' (zs @ [n])) \<and>
    (\<forall>xs b ys. zs = xs @ b # ys \<longrightarrow>
      is_list (ll_append_before n b l) (xs @ n # b # ys) \<and> is_list (ll_remove b l) (xs @ ys)) \<and>
    fst (ll_pop l) = (if zs = [] then None else Some (hd zs)) \<and> is_list (snd (ll_pop l)) (tl zs) \<and>
    ll_first l = (if zs = [] then None else Some (hd zs)) \<and>
    ll_last l = (if zs = [] then None else Some (last zs)) \<and>
    ll_find P l = Some (List.find P zs) \<and> ll_length l = Some (length zs) \<and>
    ll_is_empty l = (zs \<noteq> []) \<and> ll_free l = (if zs = [] then None else Some l)"
proof -
  have "is_list (ll_append_before n b l) (xs @ n # b # ys)" "is_list (ll_remove b l) (xs @ ys)"
    if "zs = xs @ b # ys" for xs b ys
    using ll.before_law [of l xs b ys n] ll.delete_law [of l xs b ys] l n that by simp_all
  moreover have "fst (ll_pop l) = (if zs = [] then None else Some (hd zs)) \<and> is_list (snd (ll_pop l)) (tl zs)"
    using l is_list_pop [of l "hd zs" "tl zs"] by (cases zs) (simp_all add: ll_pop_def ll_first_def)
  ultimately show ?thesis
    using ll.front_law [OF l n] is_list_append [OF l n] is_list_ends [OF l] ll.search_law [OF l, of P]
      is_list_length [OF l] is_empty_inverted [OF l] by (intro conjI allI impI) blast+
qed

definition two_nodes :: linked_list where
  "two_nodes = ll_add 10 (ll_add 20 \<lparr>ll_prev = (\<lambda>_. None), ll_next = (\<lambda>_. None),
     ll_head = None, ll_tail = None\<rparr>)"

lemma two_nodes_ok: "is_list two_nodes [10, 20]"
  unfolding two_nodes_def by (rule is_list_add, rule is_list_add) simp_all

lemma list_ops_on_sequence_witness:
  "is_list (ll_add 30 two_nodes) [30, 10, 20] \<and>
   (\<exists>l'. ll_append 30 two_nodes = Some l' \<and> is_list l' [10, 20, 30]) \<and>
   is_list (ll_append_before 30 20 two_nodes) [10, 30, 20] \<and>
   is_list (ll_remove 20 two_nodes) [10] \<and> fst (ll_pop two_nodes) = Some 10 \<and>
   ll_find (\<lambda>n. 15 < n) two_nodes = Some (Some 20) \<and> ll_length two_nodes = Some 2 \<and>
   ll_is_empty two_nodes \<and> ll_free two_nodes = Some two_nodes"
proof -
  have n: "30 \<notin> set [10, 20 :: nat]" and split: "[10, 20 :: nat] = [10] @ 20 # []" by simp_all
  note ops = list_ops_on_sequence [OF two_nodes_ok n, of "\<lambda>n. 15 < n"]
  from ops have "is_list (ll_append_before 30 20 two_nodes) ([10] @ 30 # 20 # []) \<and>
      is_list (ll_remove 20 two_nodes) ([10] @ [])"
    using split by (elim conjE allE) (erule impE)
  with ops show ?thesis by simp
qed

end
