(* ===== verification/Timer.thy ===== *)
theory Timer
  imports IntrusiveList
begin

text \<open>
  The kernel timers (\<^verbatim>\<open>kernel/timer.cpp\<close>).  The timer objects live in a map from addresses; the list that
  links them is the intrusive list.  The hardware clock is the sequence \<open>clk\<close> of the values that successive
  readings return, \<open>'w\<close> is the state the callbacks work on (the interrupt frame included), and the address that
  \<^verbatim>\<open>mustmalloc\<close> returns is an argument, \<open>None\<close> when the heap is full.  The links of a timer are fields of the same
  object: a timer that \<open>tm_objs\<close> does not hold has been freed, and an access to any of its fields, the links
  included, is a crash (\<open>None\<close>).  A callback does not start timers of its own.
\<close>

subsection \<open>The code\<close>

datatype TimerType = Periodic | OneShot

record 'w Timer =
  t_type :: TimerType
  t_callback :: "nat \<Rightarrow> 'w \<Rightarrow> 'w"
  t_arg :: nat
  t_start_time :: u64
  t_period :: u64

record 'w timer_env =
  tm_objs :: "nat \<Rightarrow> 'w Timer option"
  tm_reads :: nat
  tm_world :: 'w

record 'w scheduler_timer =
  sch_callback :: "'w \<Rightarrow> 'w"
  sch_next_deadline :: u64
  sch_period :: u64

record 'w timer_system =
  s_env :: "'w timer_env"
  s_timers :: linked_list
  s_scheduler :: "'w scheduler_timer"

text \<open>The system timer device: what the driver reports, when there is a driver.\<close>

record system_timer =
  ticks_per_ms :: u64

definition timer_system_boot :: "'w \<Rightarrow> 'w timer_system" where
  "timer_system_boot w =
     \<lparr>s_env = \<lparr>tm_objs = (\<lambda>_. None), tm_reads = 0, tm_world = w\<rparr>,
      s_timers = \<lparr>ll_prev = (\<lambda>_. None), ll_next = (\<lambda>_. None), ll_head = None, ll_tail = None\<rparr>,
      s_scheduler = \<lparr>sch_callback = id, sch_next_deadline = 0, sch_period = 0\<rparr>\<rparr>"

text \<open>The period programmed into the device; \<open>None\<close> when the assertion on the device fails.\<close>

definition timer_init :: "system_timer option \<Rightarrow> u64 option" where
  "timer_init dev = do { systimer \<leftarrow> dev; Some (5 * ticks_per_ms systimer) }"

definition read_ticks :: "(nat \<Rightarrow> u64) \<Rightarrow> 'w timer_env \<Rightarrow> u64 \<times> 'w timer_env" where
  "read_ticks clk e = (clk (tm_reads e), e\<lparr>tm_reads := Suc (tm_reads e)\<rparr>)"

definition timer_live :: "'w timer_env \<Rightarrow> nat \<Rightarrow> bool" where
  "timer_live e timer = (tm_objs e timer \<noteq> None)"

definition run_timer :: "(nat \<Rightarrow> u64) \<Rightarrow> 'w timer_env traversal" where
  "run_timer clk timer st = (
     let (e, l) = st in do {
       t \<leftarrow> tm_objs e timer;
       let (now, e) = read_ticks clk e;
       if t_start_time t + t_period t \<le> now
       then
         let e = e\<lparr>tm_world := t_callback t (t_arg t) (tm_world e)\<rparr> in
         if t_type t = OneShot
         then do {
           l \<leftarrow> ll_remove_live (timer_live e) timer l;
           let e = e\<lparr>tm_objs := (tm_objs e)(timer := None)\<rparr>;
           Some (e, l)
         }
         else
           let (now, e) = read_ticks clk e
           in Some (e\<lparr>tm_objs := (tm_objs e)(timer \<mapsto> t\<lparr>t_start_time := now\<rparr>)\<rparr>, l)
       else Some (e, l)
     })"

definition run_scheduler ::
  "(nat \<Rightarrow> u64) \<Rightarrow> 'w scheduler_timer \<Rightarrow> 'w timer_env \<Rightarrow> 'w scheduler_timer \<times> 'w timer_env" where
  "run_scheduler clk s e = (
     let (now, e) = read_ticks clk e in
     if sch_next_deadline s \<le> now
     then
       let e = e\<lparr>tm_world := sch_callback s (tm_world e)\<rparr>;
           (now, e) = read_ticks clk e
       in (s\<lparr>sch_next_deadline := now + sch_period s\<rparr>, e)
     else (s, e))"

text \<open>
  The handler of the system timer; \<open>None\<close> if the traversal of the timers did not end or a freed timer was accessed.
\<close>

definition timer_handler :: "(nat \<Rightarrow> u64) \<Rightarrow> 'w timer_system \<Rightarrow> 'w timer_system option" where
  "timer_handler clk s = do {
     (e, l) \<leftarrow> ll_foreach timer_live (run_timer clk) (s_env s, s_timers s);
     let (sch, e) = run_scheduler clk (s_scheduler s) e;
     Some \<lparr>s_env = e, s_timers = l, s_scheduler = sch\<rparr>
   }"

definition schedule_timer ::
  "(nat \<Rightarrow> u64) \<Rightarrow> system_timer option \<Rightarrow> nat \<Rightarrow> u64 \<Rightarrow> 'w timer_system \<Rightarrow> 'w timer_system option" where
  "schedule_timer clk dev timer ms s = do {
     systimer \<leftarrow> dev;
     t \<leftarrow> tm_objs (s_env s) timer;
     kassert (case ll_head (s_timers s) of None \<Rightarrow> True | Some h \<Rightarrow> timer_live (s_env s) h);
     let (now, e) = read_ticks clk (s_env s);
     let t = t\<lparr>t_start_time := now, t_period := ms * ticks_per_ms systimer\<rparr>;
     Some (s\<lparr>s_env := e\<lparr>tm_objs := (tm_objs e)(timer \<mapsto> t)\<rparr>, s_timers := ll_add timer (s_timers s)\<rparr>)
   }"

definition new_timer ::
  "TimerType \<Rightarrow> (nat \<Rightarrow> 'w \<Rightarrow> 'w) \<Rightarrow> nat \<Rightarrow> nat option \<Rightarrow> 'w timer_system \<Rightarrow>
   (nat \<times> 'w timer_system) option" where
  "new_timer ty callback arg mem s = do {
     timer \<leftarrow> mem;
     let t = \<lparr>t_type = ty, t_callback = callback, t_arg = arg, t_start_time = 0, t_period = 0\<rparr>;
     Some (timer, s\<lparr>s_env := (s_env s)\<lparr>tm_objs := (tm_objs (s_env s))(timer \<mapsto> t)\<rparr>\<rparr>)
   }"

definition timer_exec_once ::
  "(nat \<Rightarrow> u64) \<Rightarrow> system_timer option \<Rightarrow> nat option \<Rightarrow> u64 \<Rightarrow> (nat \<Rightarrow> 'w \<Rightarrow> 'w) \<Rightarrow> nat \<Rightarrow>
   'w timer_system \<Rightarrow> 'w timer_system option" where
  "timer_exec_once clk dev mem ms callback arg s = do {
     (timer, s) \<leftarrow> new_timer OneShot callback arg mem s;
     schedule_timer clk dev timer ms s
   }"

definition timer_exec_periodic ::
  "(nat \<Rightarrow> u64) \<Rightarrow> system_timer option \<Rightarrow> nat option \<Rightarrow> u64 \<Rightarrow> (nat \<Rightarrow> 'w \<Rightarrow> 'w) \<Rightarrow> nat \<Rightarrow>
   'w timer_system \<Rightarrow> 'w timer_system option" where
  "timer_exec_periodic clk dev mem ms callback arg s = do {
     (timer, s) \<leftarrow> new_timer Periodic callback arg mem s;
     schedule_timer clk dev timer ms s
   }"

definition timer_install_scheduler_callback ::
  "(nat \<Rightarrow> u64) \<Rightarrow> system_timer option \<Rightarrow> u64 \<Rightarrow> ('w \<Rightarrow> 'w) \<Rightarrow> 'w timer_system \<Rightarrow>
   'w timer_system option" where
  "timer_install_scheduler_callback clk dev ms callback s = do {
     systimer \<leftarrow> dev;
     let period = ticks_per_ms systimer * ms;
     let (now, e) = read_ticks clk (s_env s);
     Some (s\<lparr>s_env := e, s_scheduler :=
       \<lparr>sch_callback = callback, sch_next_deadline = now + period, sch_period = period\<rparr>\<rparr>)
   }"

definition get_ticks :: "system_timer option \<Rightarrow> u64 \<Rightarrow> u64" where
  "get_ticks dev now = (case dev of None \<Rightarrow> 0 | Some _ \<Rightarrow> now)"

definition get_ticks_ms :: "system_timer option \<Rightarrow> u64 \<Rightarrow> u32" where
  "get_ticks_ms dev now = (case dev of None \<Rightarrow> 0 | Some d \<Rightarrow> ucast (now div ticks_per_ms d))"

subsection \<open>The traversal\<close>

definition timer_fires :: "(nat \<Rightarrow> u64) \<Rightarrow> nat \<Rightarrow> 'w timer_env \<Rightarrow> bool" where
  "timer_fires clk c e \<longleftrightarrow>
     (case tm_objs e c of None \<Rightarrow> False
      | Some t \<Rightarrow> t_start_time t + t_period t \<le> clk (tm_reads e))"

definition timer_expires :: "(nat \<Rightarrow> u64) \<Rightarrow> nat \<Rightarrow> 'w timer_env \<Rightarrow> bool" where
  "timer_expires clk c e \<longleftrightarrow>
     timer_fires clk c e \<and> map_option t_type (tm_objs e c) = Some OneShot"

text \<open>The effect on the timers and on the state of the callbacks.\<close>

definition run_timer_env :: "(nat \<Rightarrow> u64) \<Rightarrow> nat \<Rightarrow> 'w timer_env \<Rightarrow> 'w timer_env" where
  "run_timer_env clk c e = (case tm_objs e c of
     None \<Rightarrow> e
   | Some t \<Rightarrow>
       if timer_fires clk c e then
         e\<lparr>tm_world := t_callback t (t_arg t) (tm_world e),
           tm_objs := (tm_objs e)(c := if t_type t = OneShot then None
             else Some (t\<lparr>t_start_time := clk (Suc (tm_reads e))\<rparr>)),
           tm_reads := (if t_type t = OneShot then Suc (tm_reads e) else Suc (Suc (tm_reads e)))\<rparr>
       else e\<lparr>tm_reads := Suc (tm_reads e)\<rparr>)"

lemmas run_timer_defs = run_timer_env_def timer_expires_def timer_fires_def timer_live_def

lemma run_timer_self_removing:
  "self_removing timer_live (run_timer clk) (timer_expires clk) (run_timer_env clk)"
  unfolding self_removing_def
proof (intro conjI allI impI)
  fix c e l
  assume "list_all (timer_live e) (ll_touched c l)"
  moreover from this obtain t where t: "tm_objs e c = Some t"
    by (auto simp: ll_touched_def timer_live_def)
  moreover have "timer_live (e\<lparr>tm_reads := n, tm_world := w\<rparr>) = timer_live e" for n w
    by (simp add: timer_live_def fun_eq_iff)
  ultimately show "run_timer clk c (e, l) =
      Some (run_timer_env clk c e, if timer_expires clk c e then ll_remove c l else l)"
    by (auto simp: run_timer_def run_timer_defs read_ticks_def ll_remove_live_def ll_touched_def Let_def)
next
  fix c e x
  show "timer_live e x \<Longrightarrow> x \<noteq> c \<or> \<not> timer_expires clk c e \<Longrightarrow> timer_live (run_timer_env clk c e) x"
    by (auto simp: run_timer_defs split: option.splits)
qed

lemma run_timer_env_others:
  "x \<noteq> c \<Longrightarrow> tm_objs (run_timer_env clk c e) x = tm_objs e x"
  by (simp add: run_timer_defs split: option.splits)

lemma run_timer_env_dom:
  assumes "c \<in> dom (tm_objs e)"
  shows "dom (tm_objs (run_timer_env clk c e)) =
    (if timer_expires clk c e then dom (tm_objs e) - {c} else dom (tm_objs e))"
  using assms by (auto simp: run_timer_defs split: option.splits if_splits TimerType.splits)

lemma kept_subset: "set (kept R g xs a) \<subseteq> set xs"
  by (induction xs arbitrary: a) auto

lemma run_timers_dom:
  assumes "distinct xs" and "set xs \<subseteq> dom (tm_objs e)"
  shows "dom (tm_objs (fold (run_timer_env clk) xs e)) =
      (dom (tm_objs e) - set xs) \<union> set (kept (timer_expires clk) (run_timer_env clk) xs e)"
  using assms
proof (induction xs arbitrary: e)
  case Nil
  then show ?case by simp
next
  case (Cons x xs)
  have x: "x \<in> dom (tm_objs e)" using Cons.prems by simp
  have "set xs \<subseteq> dom (tm_objs (run_timer_env clk x e))"
    using Cons.prems by (auto simp: run_timer_env_dom [OF x])
  from Cons.IH [OF _ this] Cons.prems run_timer_env_dom [OF x, of clk]
    kept_subset [of "timer_expires clk" "run_timer_env clk" xs "run_timer_env clk x e"]
  show ?case by (auto split: if_splits)
qed

lemma scheduler_env [simp]: "tm_objs (snd (run_scheduler clk s e)) = tm_objs e"
  by (simp add: run_scheduler_def read_ticks_def Let_def)

text \<open>The list holds exactly the live timers.\<close>

definition timers_inv :: "'w timer_system \<Rightarrow> nat list \<Rightarrow> bool" where
  "timers_inv s xs \<longleftrightarrow>
     is_list (s_timers s) xs \<and> dom (tm_objs (s_env s)) = set xs"

lemma timer_handler_run:
  assumes "timers_inv s xs"
  shows "\<exists>s'. timer_handler clk s = Some s' \<and>
    timers_inv s' (kept (timer_expires clk) (run_timer_env clk) xs (s_env s)) \<and>
    s_env s' = snd (run_scheduler clk (s_scheduler s) (fold (run_timer_env clk) xs (s_env s))) \<and>
    s_scheduler s' = fst (run_scheduler clk (s_scheduler s) (fold (run_timer_env clk) xs (s_env s)))"
proof -
  have xs: "is_list (s_timers s) xs" "dom (tm_objs (s_env s)) = set xs"
    using assms by (simp_all add: timers_inv_def)
  have live: "\<forall>x \<in> set xs. timer_live (s_env s) x" using xs(2) by (auto simp: timer_live_def)
  obtain l' where l': "ll_foreach timer_live (run_timer clk) (s_env s, s_timers s) =
      Some (fold (run_timer_env clk) xs (s_env s), l')"
    "is_list l' (kept (timer_expires clk) (run_timer_env clk) xs (s_env s))"
    using foreach_self_removing [OF run_timer_self_removing xs(1) live] by blast
  show ?thesis
    using l' xs run_timers_dom [OF is_list_distinct [OF xs(1)], of "s_env s" clk]
      kept_subset [of "timer_expires clk" "run_timer_env clk" xs "s_env s"]
    by (simp add: timer_handler_def timers_inv_def split_def Let_def)
qed

subsection \<open>A tick during which the clock stands still\<close>

abbreviation due :: "u64 \<Rightarrow> 'w Timer \<Rightarrow> bool" where
  "due now t \<equiv> t_start_time t + t_period t \<le> now"

definition due_at :: "u64 \<Rightarrow> (nat \<Rightarrow> 'w Timer option) \<Rightarrow> nat \<Rightarrow> bool" where
  "due_at now m c \<longleftrightarrow> (case m c of None \<Rightarrow> False | Some t \<Rightarrow> due now t)"

definition call_timer :: "(nat \<Rightarrow> 'w Timer option) \<Rightarrow> nat \<Rightarrow> 'w \<Rightarrow> 'w" where
  "call_timer m c w = (case m c of None \<Rightarrow> w | Some t \<Rightarrow> t_callback t (t_arg t) w)"

text \<open>What is left of a timer after the tick.\<close>

definition after_tick :: "u64 \<Rightarrow> 'w Timer \<Rightarrow> 'w Timer option" where
  "after_tick now t =
     (if \<not> due now t then Some t
      else case t_type t of OneShot \<Rightarrow> None | Periodic \<Rightarrow> Some (t\<lparr>t_start_time := now\<rparr>))"

lemma run_timers_const:
  assumes "distinct xs" and "set xs \<subseteq> dom (tm_objs e)"
  shows "(\<forall>x. tm_objs (fold (run_timer_env (\<lambda>_. now)) xs e) x =
      (if x \<in> set xs then Option.bind (tm_objs e x) (after_tick now) else tm_objs e x)) \<and>
    tm_world (fold (run_timer_env (\<lambda>_. now)) xs e) =
      fold (call_timer (tm_objs e)) (filter (due_at now (tm_objs e)) xs) (tm_world e)"
  using assms
proof (induction xs arbitrary: e)
  case Nil
  then show ?case by simp
next
  case (Cons x xs)
  let ?e = "run_timer_env (\<lambda>_. now) x e"
  obtain t where t: "tm_objs e x = Some t" using Cons.prems by auto
  have same: "tm_objs ?e y = tm_objs e y" if "y \<in> set xs" for y
    using that Cons.prems by (intro run_timer_env_others) auto
  have x: "tm_objs ?e x = after_tick now t"
    using t by (auto simp: run_timer_defs after_tick_def Let_def split: TimerType.splits)
  have w: "tm_world ?e = (if due now t then t_callback t (t_arg t) (tm_world e) else tm_world e)"
    using t by (auto simp: run_timer_defs Let_def)
  have fl: "filter (due_at now (tm_objs ?e)) xs = filter (due_at now (tm_objs e)) xs"
    by (rule filter_cong) (simp_all add: due_at_def same)
  have fo: "fold (call_timer (tm_objs ?e)) (filter P xs) v = fold (call_timer (tm_objs e)) (filter P xs) v"
    for P v
    by (rule fold_cong) (auto simp: call_timer_def same fun_eq_iff)
  have sub: "set xs \<subseteq> dom (tm_objs ?e)" using Cons.prems same by (auto simp: subset_iff)
  have d: "due_at now (tm_objs e) x = due now t" and
    c: "call_timer (tm_objs e) x = t_callback t (t_arg t)"
    using t by (simp_all add: due_at_def call_timer_def fun_eq_iff)
  from Cons.prems have "distinct xs" and nx: "x \<notin> set xs" by simp_all
  note IH = Cons.IH [OF this(1) sub]
  have "tm_objs (fold (run_timer_env (\<lambda>_. now)) (x # xs) e) y =
      (if y \<in> set (x # xs) then Option.bind (tm_objs e y) (after_tick now) else tm_objs e y)" for y
  proof (cases "y = x")
    case True
    then show ?thesis using IH nx x t by simp
  next
    case False
    then show ?thesis using IH run_timer_env_others [OF False, of "\<lambda>_. now" e] by simp
  qed
  moreover have "tm_world (fold (run_timer_env (\<lambda>_. now)) (x # xs) e) =
      fold (call_timer (tm_objs e)) (filter (due_at now (tm_objs e)) (x # xs)) (tm_world e)"
    using IH by (simp add: fl fo d c w)
  ultimately show ?case by blast
qed

lemma kept_filter: "distinct xs \<Longrightarrow> kept R g xs a = filter (\<lambda>x. x \<in> set (kept R g xs a)) xs"
proof (induction xs arbitrary: a)
  case Nil
  then show ?case by simp
next
  case (Cons x xs)
  then have "x \<notin> set (kept R g xs b)" for b using kept_subset [of R g xs b] by auto
  moreover have "filter (\<lambda>y. y = x \<or> y \<in> set (kept R g xs (g x a))) xs =
      filter (\<lambda>y. y \<in> set (kept R g xs (g x a))) xs"
    using Cons.prems by (intro filter_cong) auto
  ultimately show ?case using Cons.IH [of "g x a"] Cons.prems by simp
qed

lemma scheduler_const:
  "run_scheduler (\<lambda>_. now) s e =
    (if sch_next_deadline s \<le> now
     then (s\<lparr>sch_next_deadline := now + sch_period s\<rparr>,
       e\<lparr>tm_world := sch_callback s (tm_world e), tm_reads := tm_reads e + 2\<rparr>)
     else (s, e\<lparr>tm_reads := tm_reads e + 1\<rparr>))"
  by (simp add: run_scheduler_def read_ticks_def Let_def)

lemma schedule_timer_inv:
  assumes "timers_inv s xs" and "a \<notin> set xs"
  shows "\<exists>s'. timer_exec_once clk (Some d) (Some a) ms cb arg s = Some s' \<and> timers_inv s' (a # xs)"
    and "\<exists>s'. timer_exec_periodic clk (Some d) (Some a) ms cb arg s = Some s' \<and> timers_inv s' (a # xs)"
  using assms
  by (cases xs; auto simp: timers_inv_def timer_exec_once_def timer_exec_periodic_def new_timer_def
      schedule_timer_def read_ticks_def timer_live_def Let_def is_list_head is_list_add)+

subsection \<open>Properties\<close>

text \<open>
  C33: Whatever the clock reads during the tick, the timer handler ends, never touches a timer that has been
  freed, neither its fields nor its links, and leaves a well-formed list that holds exactly the live timers: a
  one-shot timer that fires is taken out and freed while the list is being traversed, its successor having been read
  before.
\<close>

theorem timer_handler_safe:
  assumes "timers_inv s xs"
  shows "\<exists>s' ys. timer_handler clk s = Some s' \<and> timers_inv s' ys \<and> set ys \<subseteq> set xs"
proof -
  obtain s' where "timer_handler clk s = Some s'"
    "timers_inv s' (kept (timer_expires clk) (run_timer_env clk) xs (s_env s))"
    using timer_handler_run [OF assms, of clk] by (elim exE conjE)
  then show ?thesis using kept_subset [of "timer_expires clk" "run_timer_env clk" xs "s_env s"] by (intro exI conjI)
qed

definition sample_timers :: "nat list timer_system option" where
  "sample_timers =
     Option.bind (timer_exec_once (\<lambda>_. 100) (Some \<lparr>ticks_per_ms = 10\<rparr>) (Some 64) 5 Cons 7
       (timer_system_boot []))
     (timer_exec_periodic (\<lambda>_. 120) (Some \<lparr>ticks_per_ms = 10\<rparr>) (Some 128) 2 Cons 8)"

lemma boot_timers_inv: "timers_inv (timer_system_boot w) []"
  by (simp add: timers_inv_def timer_system_boot_def)

lemma sample_timers_inv: "\<exists>s. sample_timers = Some s \<and> timers_inv s [128, 64]"
proof -
  obtain s where "timer_exec_once (\<lambda>_. 100) (Some \<lparr>ticks_per_ms = 10\<rparr>) (Some 64) 5 Cons 7
      (timer_system_boot []) = Some s" "timers_inv s [64]"
    using schedule_timer_inv(1) [OF boot_timers_inv] by (metis empty_iff list.set(1))
  then show ?thesis
    using schedule_timer_inv(2) [of s "[64]" 128] by (simp add: sample_timers_def)
qed

lemma timer_handler_safe_witness:
  "\<exists>s s' ys. sample_timers = Some s \<and> timer_handler (\<lambda>_. 145) s = Some s' \<and> timers_inv s' ys \<and>
     set ys \<subseteq> {128, 64}"
  using sample_timers_inv timer_handler_safe [of _ "[128, 64]" "\<lambda>_. 145"] by fastforce

text \<open>
  C32: When the clock reads \<open>now\<close> during a tick, the callbacks that run are those of the timers whose deadline has
  come, each once, in list order, followed by the scheduler's when its deadline has come; a one-shot timer that
  ran is gone, a periodic one is rearmed from \<open>now\<close>, and every other timer is unchanged.
\<close>

theorem timer_tick_exact:
  assumes "timers_inv s xs"
  shows "\<exists>s'. timer_handler (\<lambda>_. now) s = Some s' \<and>
    is_list (s_timers s') (filter (\<lambda>x. tm_objs (s_env s') x \<noteq> None) xs) \<and>
    (\<forall>x. tm_objs (s_env s') x = Option.bind (tm_objs (s_env s) x) (after_tick now)) \<and>
    tm_world (s_env s') =
      (if sch_next_deadline (s_scheduler s) \<le> now then sch_callback (s_scheduler s) else id)
        (fold (call_timer (tm_objs (s_env s))) (filter (due_at now (tm_objs (s_env s))) xs)
          (tm_world (s_env s)))"
proof -
  have xs: "distinct xs" "dom (tm_objs (s_env s)) = set xs"
    using assms is_list_distinct by (auto simp: timers_inv_def)
  obtain s' where s': "timer_handler (\<lambda>_. now) s = Some s'"
    "timers_inv s' (kept (timer_expires (\<lambda>_. now)) (run_timer_env (\<lambda>_. now)) xs (s_env s))"
    "s_env s' = snd (run_scheduler (\<lambda>_. now) (s_scheduler s)
      (fold (run_timer_env (\<lambda>_. now)) xs (s_env s)))"
    using timer_handler_run [OF assms, of "\<lambda>_. now"] by blast
  let ?k = "kept (timer_expires (\<lambda>_. now)) (run_timer_env (\<lambda>_. now)) xs (s_env s)"
  have "dom (tm_objs (s_env s')) = set ?k" using s'(2) by (simp add: timers_inv_def)
  then have "(tm_objs (s_env s') x \<noteq> None) = (x \<in> set ?k)" for x by auto
  then have "filter (\<lambda>x. tm_objs (s_env s') x \<noteq> None) xs = filter (\<lambda>x. x \<in> set ?k) xs"
    by (rule filter_cong [OF refl])
  also have "\<dots> = ?k" by (rule kept_filter [OF xs(1), symmetric])
  finally have "filter (\<lambda>x. tm_objs (s_env s') x \<noteq> None) xs = ?k" .
  then have l: "is_list (s_timers s') (filter (\<lambda>x. tm_objs (s_env s') x \<noteq> None) xs)"
    using s'(2) by (simp only: timers_inv_def)
  have "tm_objs (s_env s) x = None" if "x \<notin> set xs" for x using that xs(2) by auto
  then show ?thesis
    using s'(1,3) l run_timers_const [OF xs(1) eq_refl [OF xs(2) [symmetric]], of now]
    by (intro exI [of _ s'] conjI) (simp_all add: scheduler_const)
qed

lemma timer_tick_exact_witness:
  "\<exists>s s'. sample_timers = Some s \<and> timer_handler (\<lambda>_. 145) s = Some s' \<and>
     tm_world (s_env s') = [8] \<and> tm_objs (s_env s') 64 \<noteq> None"
proof -
  obtain s where s: "sample_timers = Some s" "timers_inv s [128, 64]" using sample_timers_inv by blast
  have "\<exists>t. tm_objs (s_env s) 64 = Some t \<and> \<not> due 145 t \<and> after_tick 145 t = Some t"
    "\<exists>t. tm_objs (s_env s) 128 = Some t \<and> due 145 t \<and> t_callback t (t_arg t) = Cons 8"
    "sch_callback (s_scheduler s) = id" "tm_world (s_env s) = []"
    using s(1) by (auto simp: sample_timers_def timer_exec_once_def timer_exec_periodic_def new_timer_def
        schedule_timer_def read_ticks_def timer_system_boot_def after_tick_def Let_def)
  then show ?thesis
    using s timer_tick_exact [OF s(2), of 145] by (force simp: due_at_def call_timer_def)
qed

end
