(* ===== verification/MoreTime.thy ===== *)
theory MoreTime
  imports KernelError "HOL-Library.Signed_Division"
begin

text \<open>
  Calendar arithmetic: the conversions between seconds since 1970 and broken-down time
  (\<^verbatim>\<open>kernel/lib/more_time.cpp\<close>, \<^verbatim>\<open>more_time.h\<close>), the real time clock that uses them
  (\<^verbatim>\<open>kernel/drivers/char/pl031.cpp\<close>), and the date functions of the user programs
  (\<^verbatim>\<open>include/api/syscalls.h\<close>, \<^verbatim>\<open>userland/bsp/libdatetime.c\<close>).  Signed C integers are \<open>int\<close>, divided with
  \<open>sdiv\<close> and \<open>smod\<close>, which round towards zero as \<^verbatim>\<open>/\<close> and \<^verbatim>\<open>%\<close> do; where a value of \<^verbatim>\<open>secs_to_tm\<close> can leave
  the 32 bits of an \<^verbatim>\<open>int\<close> it is cut to them by \<open>c_int\<close>, as the machine does it (for C the overflow is undefined).
\<close>

subsection \<open>The code\<close>

record tm =
  tm_sec :: int
  tm_min :: int
  tm_hour :: int
  tm_mday :: int
  tm_mon :: int
  tm_year :: int
  tm_wday :: int
  tm_yday :: int

definition INT_MAX :: int where "INT_MAX = 2147483647"
definition INT_MIN :: int where "INT_MIN = -2147483648"

definition LEAPOCH :: int where
  "LEAPOCH = 946684800 + 86400 * (31 + 29)"

definition DAYS_PER_400Y :: int where "DAYS_PER_400Y = 365 * 400 + 97"
definition DAYS_PER_100Y :: int where "DAYS_PER_100Y = 365 * 100 + 24"
definition DAYS_PER_4Y :: int where "DAYS_PER_4Y = 365 * 4 + 1"

definition days_in_month :: "int list" where
  "days_in_month = [31, 30, 31, 30, 31, 31, 30, 31, 30, 31, 31, 29]"

lemmas c_int_literals = c_int_def [of 0] c_int_def [of 1] c_int_def [of "-1"] c_int_def [of "numeral n"]
  c_int_def [of "- numeral n"] for n

text \<open>The loop over the months; reading past the table gives \<open>None\<close>.\<close>

fun month_loop :: "int list \<Rightarrow> int \<Rightarrow> int \<Rightarrow> (int \<times> int) option" where
  "month_loop [] months remdays = None"
| "month_loop (m # ms) months remdays =
     (if m \<le> remdays then month_loop ms (months + 1) (remdays - m) else Some (months, remdays))"

text \<open>
  The result of \<^verbatim>\<open>secs_to_tm\<close>: \<open>None\<close> is the return value -1, with nothing stored.  The sum \<^verbatim>\<open>years + 100\<close> is an
  \<^verbatim>\<open>int\<close> as well, so that the second test never finds it out of range.
\<close>

definition secs_to_tm :: "int \<Rightarrow> tm option" where
  "secs_to_tm t = do {
     check (\<not> (t < INT_MIN * 31622400 \<or> t > INT_MAX * 31622400));
     let secs = t - LEAPOCH;
     let days = secs sdiv 86400;
     let remsecs = secs smod 86400;
     let (remsecs, days) = (if remsecs < 0 then (remsecs + 86400, days - 1) else (remsecs, days));
     let wday = (3 + days) smod 7;
     let wday = (if wday < 0 then wday + 7 else wday);
     let qc_cycles = c_int (days sdiv DAYS_PER_400Y);
     let remdays = days smod DAYS_PER_400Y;
     let (remdays, qc_cycles) =
           (if remdays < 0 then (remdays + DAYS_PER_400Y, c_int (qc_cycles - 1)) else (remdays, qc_cycles));
     let c_cycles = remdays sdiv DAYS_PER_100Y;
     let c_cycles = (if c_cycles = 4 then c_cycles - 1 else c_cycles);
     let remdays = remdays - c_cycles * DAYS_PER_100Y;
     let q_cycles = remdays sdiv DAYS_PER_4Y;
     let q_cycles = (if q_cycles = 25 then q_cycles - 1 else q_cycles);
     let remdays = remdays - q_cycles * DAYS_PER_4Y;
     let remyears = remdays sdiv 365;
     let remyears = (if remyears = 4 then remyears - 1 else remyears);
     let remdays = remdays - remyears * 365;
     let leap = of_bool (remyears = 0 \<and> (q_cycles \<noteq> 0 \<or> c_cycles = 0));
     let yday = remdays + 31 + 28 + leap;
     let yday = (if yday \<ge> 365 + leap then yday - (365 + leap) else yday);
     let years = c_int (remyears + 4 * q_cycles + 100 * c_cycles + 400 * qc_cycles);
     (months, remdays) \<leftarrow> month_loop days_in_month 0 remdays;
     check (\<not> (c_int (years + 100) > INT_MAX \<or> c_int (years + 100) < INT_MIN));
     let (mon, year) = (if months + 2 \<ge> 12 then (months + 2 - 12, c_int (c_int (years + 100) + 1))
           else (months + 2, c_int (years + 100)));
     Some \<lparr>tm_sec = remsecs smod 60, tm_min = remsecs sdiv 60 smod 60, tm_hour = remsecs sdiv 3600,
       tm_mday = remdays + 1, tm_mon = mon, tm_year = year, tm_wday = wday, tm_yday = yday\<rparr>
   }"

definition month_to_secs :: "int \<Rightarrow> int \<Rightarrow> int" where
  "month_to_secs month is_leap = (
     let secs_through_month = [0, 31 * 86400, 59 * 86400, 90 * 86400,
           120 * 86400, 151 * 86400, 181 * 86400, 212 * 86400,
           243 * 86400, 273 * 86400, 304 * 86400, 334 * 86400];
         t = secs_through_month ! nat month
     in if is_leap \<noteq> 0 \<and> month \<ge> 2 then t + 86400 else t)"

text \<open>
  The seconds up to the start of the year and whether it is a leap year.  The first test is an unsigned
  comparison in 64 bits; \<^verbatim>\<open>>> 2\<close> on a negative number rounds down.
\<close>

definition year_to_secs :: "int \<Rightarrow> int \<times> int" where
  "year_to_secs year =
     (if (word_of_int year - 2 :: u64) \<le> 136 then
        let y = year;
            leaps = drop_bit 2 (y - 68);
            (leaps, is_leap) = (if (y - 68) AND 3 = 0 then (leaps - 1, 1) else (leaps, 0))
        in (31536000 * (y - 70) + 86400 * leaps, is_leap)
      else
        let cycles = (year - 100) sdiv 400;
            rem = (year - 100) smod 400;
            (cycles, rem) = (if rem < 0 then (cycles - 1, rem + 400) else (cycles, rem));
            (is_leap, centuries, leaps) =
              (if rem = 0 then (1, 0, 0)
               else
                 let (centuries, rem) =
                       (if rem \<ge> 200 then if rem \<ge> 300 then (3, rem - 300) else (2, rem - 200)
                        else if rem \<ge> 100 then (1, rem - 100) else (0, rem))
                 in if rem = 0 then (0, centuries, 0)
                    else (of_bool (rem smod 4 = 0), centuries, rem sdiv 4));
            leaps = leaps + (97 * cycles + 24 * centuries - is_leap)
        in ((year - 100) * 31536000 + leaps * 86400 + 946684800 + 86400, is_leap))"

definition tm_to_secs :: "tm \<Rightarrow> int" where
  "tm_to_secs tm = (
     let year = tm_year tm;
         month = tm_mon tm;
         (year, month) =
           (if month \<ge> 12 \<or> month < 0 then
              let adj = month sdiv 12;
                  month = month smod 12;
                  (adj, month) = (if month < 0 then (adj - 1, month + 12) else (adj, month))
              in (year + adj, month)
            else (year, month));
         (t, is_leap) = year_to_secs year;
         t = t + month_to_secs month is_leap;
         t = t + 86400 * (tm_mday tm - 1);
         t = t + 3600 * tm_hour tm;
         t = t + 60 * tm_min tm
     in t + tm_sec tm)"

record DateTime =
  dt_year :: int
  dt_month :: int
  dt_day :: int
  dt_hour :: int
  dt_minute :: int
  dt_second :: int

text \<open>The week day and the day of the year are not set: they keep what the structure held.\<close>

definition datetime_to_tm :: "DateTime \<Rightarrow> tm \<Rightarrow> tm" where
  "datetime_to_tm dt tm = tm\<lparr>tm_year := dt_year dt - 1900, tm_mon := dt_month dt - 1,
     tm_mday := dt_day dt, tm_hour := dt_hour dt, tm_min := dt_minute dt, tm_sec := dt_second dt\<rparr>"

definition datetime_from_tm :: "tm \<Rightarrow> DateTime" where
  "datetime_from_tm tm = \<lparr>dt_year = tm_year tm + 1900, dt_month = tm_mon tm + 1, dt_day = tm_mday tm,
     dt_hour = tm_hour tm, dt_minute = tm_min tm, dt_second = tm_sec tm\<rparr>"

subsection \<open>Division\<close>

lemma sdiv_nonneg [simp]:
  fixes a b :: int
  assumes "0 \<le> a" "0 < b"
  shows "a sdiv b = a div b" "a smod b = a mod b"
  using assms by (auto simp: signed_divide_int_def signed_modulo_int_def sgn_if minus_div_mult_eq_mod)

text \<open>The code's correction of a negative remainder turns rounding towards zero into rounding down.\<close>

lemma floor_correction:
  fixes s m :: int
  assumes "0 < m"
  shows "(if s smod m < 0 then (s smod m + m, s sdiv m - 1) else (s smod m, s sdiv m)) = (s mod m, s div m)"
proof -
  have "s = m * (s sdiv m) + s smod m" by (simp add: mult_sdiv_smod_eq)
  moreover have "- m < s smod m" "s smod m < m" using assms smod_int_range [of m s] by auto
  ultimately have
    "s smod m < 0 \<Longrightarrow> s = m * (s sdiv m - 1) + (s smod m + m) \<and> 0 \<le> s smod m + m \<and> s smod m + m < m"
    "0 \<le> s smod m \<Longrightarrow> s = m * (s sdiv m) + s smod m \<and> s smod m < m"
    by (simp_all add: algebra_simps)
  then show ?thesis
    using int_div_pos_eq [of s m _ _] int_mod_pos_eq [of s m _ _] by (metis not_less)
qed

subsection \<open>Months and years\<close>

definition is_leap_year :: "int \<Rightarrow> bool" where
  "is_leap_year y \<longleftrightarrow> 4 dvd y \<and> (\<not> 100 dvd y \<or> 400 dvd y)"

definition month_length :: "int \<Rightarrow> int \<Rightarrow> int" where
  "month_length y m =
     [31, 28 + of_bool (is_leap_year y), 31, 30, 31, 30, 31, 31, 30, 31, 30, 31] ! nat m"

text \<open>Days from March, 1st to the first of the month.\<close>

definition march_days :: "int \<Rightarrow> int" where
  "march_days m = [0, 31, 61, 92, 122, 153, 184, 214, 245, 275, 306, 337] ! nat m"

lemma month_loop_result:
  assumes "0 \<le> d" "d \<le> 365"
  shows "\<exists>m rd. month_loop days_in_month 0 d = Some (m, rd) \<and> m \<in> {0, 1, 2, 3, 4, 5, 6, 7, 8, 9, 10, 11} \<and>
    d = march_days m + rd \<and> 0 \<le> rd \<and> rd < days_in_month ! nat m"
  using assms by (simp add: days_in_month_def march_days_def)

subsection \<open>The cycles of a day count\<close>

text \<open>
  A count of days from 2000-03-01 is cut into cycles of 400 years, centuries, cycles of four years, years that
  start in March, and days.  The last year of a cycle is one day longer, which is what the corrections of the
  quotients are for.
\<close>

lemma capped_cut:
  fixes r N K :: int
  assumes "0 < N" "0 < K" "0 \<le> r" "r \<le> K * N"
  defines "c \<equiv> if r div N = K then K - 1 else r div N"
  shows "0 \<le> c" "c \<le> K - 1" "0 \<le> r - c * N" "r - c * N \<le> N" "r - c * N = N \<longrightarrow> c = K - 1"
proof -
  have r: "r = r div N * N + r mod N" "0 \<le> r mod N" "r mod N < N" using assms by simp_all
  have k: "0 \<le> r div N" "r div N \<le> K"
    using assms zdiv_mono1 [OF assms(4,1)] by (simp_all add: pos_imp_zdiv_nonneg_iff)
  show "0 \<le> c" "c \<le> K - 1" using k assms(2) by (auto simp: c_def)
  have "r = K * N + r mod N" if "r div N = K" using r(1) that by simp
  then have "r = K * N" if "r div N = K" using that r(2) assms(4) by linarith
  then have top: "r - c * N = N" if "r div N = K" using that by (simp add: c_def algebra_simps)
  have low: "r - c * N = r mod N" if "r div N \<noteq> K" using that by (simp add: c_def minus_div_mult_eq_mod)
  have cK: "c = K - 1" if "r div N = K" using that by (simp add: c_def)
  show "0 \<le> r - c * N" "r - c * N \<le> N" "r - c * N = N \<longrightarrow> c = K - 1"
    using top low cK r(2,3) assms(1) by linarith+
qed

lemma four_year_cut:
  fixes r :: int
  assumes "0 \<le> r" "r \<le> 36524"
  defines "q \<equiv> if r div 1461 = 25 then 24 else r div 1461"
  shows "0 \<le> q" "q \<le> 24" "0 \<le> r - q * 1461" "r - q * 1461 \<le> 1460"
proof -
  have r: "r = r div 1461 * 1461 + r mod 1461" "0 \<le> r mod 1461" "r mod 1461 < 1461" by simp_all
  then have "r div 1461 \<le> 24" using assms(2) by linarith
  then have "q = r div 1461" by (simp add: q_def)
  then show "0 \<le> q" "q \<le> 24" "0 \<le> r - q * 1461" "r - q * 1461 \<le> 1460"
    using r assms \<open>r div 1461 \<le> 24\<close> by (simp_all add: pos_imp_zdiv_nonneg_iff)
qed

lemma century_cut:
  fixes r :: int
  assumes "0 \<le> r" "r < 146097"
  defines "c \<equiv> if r div 36524 = 4 then 3 else r div 36524"
  shows "0 \<le> c" "c \<le> 3" "0 \<le> r - c * 36524" "r - c * 36524 \<le> 36524" "r - c * 36524 = 36524 \<longrightarrow> c = 3"
proof -
  have "r \<le> 4 * 36524" "c = (if r div 36524 = 4 then 4 - 1 else r div 36524)"
    using assms by simp_all
  note cut = capped_cut [OF zero_less_numeral zero_less_numeral assms(1) this(1), folded this(2)]
  show "0 \<le> c" "c \<le> 3" "0 \<le> r - c * 36524" "r - c * 36524 \<le> 36524" "r - c * 36524 = 36524 \<longrightarrow> c = 3"
    using cut by simp_all
qed

lemma year_cut:
  fixes r :: int
  assumes "0 \<le> r" "r \<le> 1460"
  defines "y \<equiv> if r div 365 = 4 then 3 else r div 365"
  shows "0 \<le> y" "y \<le> 3" "0 \<le> r - y * 365" "r - y * 365 \<le> 365" "r - y * 365 = 365 \<longrightarrow> y = 3"
proof -
  have "r \<le> 4 * 365" "y = (if r div 365 = 4 then 4 - 1 else r div 365)"
    using assms by simp_all
  note cut = capped_cut [OF zero_less_numeral zero_less_numeral assms(1) this(1), folded this(2)]
  show "0 \<le> y" "y \<le> 3" "0 \<le> r - y * 365" "r - y * 365 \<le> 365" "r - y * 365 = 365 \<longrightarrow> y = 3"
    using cut by simp_all
qed

lemma cap_eq:
  "(if k = 4 then k - 1 else k) = (if k = 4 then 3 else k)"
  "(if k = 25 then k - 1 else k) = (if k = 25 then 24 else k)" for k :: int
  by auto

lemma cuts: "DAYS_PER_400Y = 146097" "DAYS_PER_100Y = 36524" "DAYS_PER_4Y = 1461"
  by (simp_all add: DAYS_PER_400Y_def DAYS_PER_100Y_def DAYS_PER_4Y_def)

definition date_of :: "int \<Rightarrow> int \<Rightarrow> int \<Rightarrow> int \<times> int" where
  "date_of years m rd = (if m \<ge> 10 then (m - 10, years + 101) else (m + 2, years + 100))"

definition day_cut :: "int \<Rightarrow> int \<Rightarrow> int \<Rightarrow> int \<Rightarrow> int \<Rightarrow> int \<Rightarrow> int \<Rightarrow> bool" where
  "day_cut days qc c q y m rd \<longleftrightarrow>
     days = 146097 * qc + 36524 * c + 1461 * q + 365 * y + march_days m + rd \<and>
     0 \<le> c \<and> c \<le> 3 \<and> 0 \<le> q \<and> q \<le> 24 \<and> 0 \<le> y \<and> y \<le> 3 \<and>
     m \<in> {0, 1, 2, 3, 4, 5, 6, 7, 8, 9, 10, 11} \<and> 0 \<le> rd \<and> rd < days_in_month ! nat m \<and>
     (march_days m + rd = 365 \<longrightarrow> y = 3 \<and> (q = 24 \<longrightarrow> c = 3))"

definition tm_fields :: "int \<Rightarrow> int \<Rightarrow> int \<Rightarrow> int \<Rightarrow> tm \<Rightarrow> bool" where
  "tm_fields sec years m rd tm \<longleftrightarrow>
     tm_sec tm = sec mod 60 \<and> tm_min tm = sec div 60 mod 60 \<and> tm_hour tm = sec div 3600 \<and>
     tm_mday tm = rd + 1 \<and> (tm_mon tm, tm_year tm) = date_of years m rd"

text \<open>The seconds for which no \<^verbatim>\<open>int\<close> overflows: more than two thousand million years around 1970.\<close>

definition secs_in_range :: "int \<Rightarrow> bool" where
  "secs_in_range t \<longleftrightarrow> \<bar>t\<bar> \<le> 2147483000 * 31556952"

lemma days_in_range:
  assumes "secs_in_range t"
  defines "d \<equiv> (t - LEAPOCH) div 86400"
  shows "- 5368708 \<le> d div 146097" "d div 146097 \<le> 5368707"
    "- 5368708 \<le> d sdiv 146097" "d sdiv 146097 \<le> 5368708"
proof -
  have t: "- 67768018903684800 \<le> t - LEAPOCH" "t - LEAPOCH \<le> 67768016999947200"
    using assms(1) by (simp_all add: secs_in_range_def LEAPOCH_def abs_le_iff)
  have d: "- 784352070645 \<le> d" "d \<le> 784352048610"
    using zdiv_mono1 [OF t(1), of 86400] zdiv_mono1 [OF t(2), of 86400] by (simp_all add: d_def)
  show *: "- 5368708 \<le> d div 146097" "d div 146097 \<le> 5368707"
    using zdiv_mono1 [OF d(1), of 146097] zdiv_mono1 [OF d(2), of 146097] by simp_all
  have "d sdiv 146097 = d div 146097 \<or> d sdiv 146097 = d div 146097 + 1"
    using floor_correction [of 146097 d] by (auto split: if_splits)
  then show "- 5368708 \<le> d sdiv 146097" "d sdiv 146097 \<le> 5368708" using * by auto
qed

lemma secs_to_tm_cut:
  fixes t :: int
  assumes range: "secs_in_range t"
  defines "days \<equiv> (t - LEAPOCH) div 86400" and "sec \<equiv> (t - LEAPOCH) mod 86400"
  shows "\<exists>qc c q y m rd tm. day_cut days qc c q y m rd \<and>
    tm_fields sec (y + 4 * q + 100 * c + 400 * qc) m rd tm \<and> \<bar>tm_year tm\<bar> < 2 ^ 31 \<and> secs_to_tm t = Some tm"
proof -
  define qc where "qc = days div 146097"
  define r where "r = days mod 146097"
  define c where "c = (if r div 36524 = 4 then 3 else r div 36524)"
  define r1 where "r1 = r - c * 36524"
  define q where "q = (if r1 div 1461 = 25 then 24 else r1 div 1461)"
  define r2 where "r2 = r1 - q * 1461"
  define y where "y = (if r2 div 365 = 4 then 3 else r2 div 365)"
  define d where "d = r2 - y * 365"
  define Y where "Y = y + 4 * q + 100 * c + 400 * qc"
  have r: "0 \<le> r" "r < 146097" by (simp_all add: r_def)
  have c: "0 \<le> c" "c \<le> 3" "0 \<le> r1" "r1 \<le> 36524" "r1 = 36524 \<longrightarrow> c = 3"
    using century_cut [OF r] by (simp_all only: c_def r1_def)
  note q = four_year_cut [OF c(3,4), folded q_def, folded r2_def]
  have y: "0 \<le> y" "y \<le> 3" "0 \<le> d" "d \<le> 365" "d = 365 \<longrightarrow> y = 3"
    using year_cut [OF q(3,4)] by (simp_all only: y_def d_def)
  obtain m rd where m: "month_loop days_in_month 0 d = Some (m, rd)" "m \<in> {0, 1, 2, 3, 4, 5, 6, 7, 8, 9, 10, 11}"
    "d = march_days m + rd" "0 \<le> rd" "rd < days_in_month ! nat m"
    using month_loop_result [OF y(3,4)] by blast
  have days: "days = 146097 * qc + 36524 * c + 1461 * q + 365 * y + march_days m + rd"
    using m(3) mult_div_mod_eq [of 146097 days] unfolding d_def r2_def r1_def qc_def r_def by linarith
  have "march_days m + rd = 365 \<longrightarrow> y = 3 \<and> (q = 24 \<longrightarrow> c = 3)"
  proof (intro impI conjI)
    assume "march_days m + rd = 365"
    then show "y = 3" using y(5) m(3) by simp
    assume "q = 24"
    then have "r1 = 36524" using \<open>y = 3\<close> \<open>march_days m + rd = 365\<close> m(3) by (simp add: d_def r2_def)
    then show "c = 3" using c(5) by simp
  qed
  then have cut: "day_cut days qc c q y m rd"
    using days c(1,2) q(1,2) y(1,2) m(2,4,5) by (unfold day_cut_def, intro conjI)
  obtain mon year where my: "date_of Y m rd = (mon, year)" by force
  let ?tm = "\<lparr>tm_sec = sec smod 60, tm_min = sec sdiv 60 smod 60, tm_hour = sec sdiv 3600, tm_mday = rd + 1,
    tm_mon = mon, tm_year = year,
    tm_wday = (if (3 + days) smod 7 < 0 then (3 + days) smod 7 + 7 else (3 + days) smod 7),
    tm_yday = (let leap = of_bool (y = 0 \<and> (q \<noteq> 0 \<or> c = 0)); yday = d + 31 + 28 + leap
      in if yday \<ge> 365 + leap then yday - (365 + leap) else yday)\<rparr>"
  have sec: "0 \<le> sec" by (simp add: sec_def)
  have nn: "0 \<le> r" "0 \<le> r1" "0 \<le> r2" using r c q by auto
  have fields: "tm_fields sec Y m rd ?tm"
    using sec my by (simp add: tm_fields_def pos_imp_zdiv_nonneg_iff)
  have qc: "- 5368708 \<le> qc" "qc \<le> 5368707" "- 5368708 \<le> days sdiv 146097" "days sdiv 146097 \<le> 5368708"
    using days_in_range [OF range] by (simp_all only: qc_def days_def)
  have Yb: "- 2147483300 \<le> Y" "Y \<le> 2147483300"
    using qc c(1,2) q(1,2) y(1,2) by (simp_all add: Y_def)
  have c_ints: "c_int (days sdiv 146097) = days sdiv 146097"
    "c_int (days sdiv 146097 - 1) = days sdiv 146097 - 1"
    "c_int Y = Y" "c_int (Y + 100) = Y + 100" "c_int (Y + 100 + 1) = Y + 100 + 1"
    by (rule c_int_id; use qc Yb in simp)+
  have "year = Y + 100 \<or> year = Y + 101" using my by (auto simp: date_of_def split: if_splits)
  then have year: "\<bar>tm_year ?tm\<bar> < 2 ^ 31" using Yb by auto
  have ok: "\<not> (t < INT_MIN * 31622400 \<or> INT_MAX * 31622400 < t)" "\<not> (INT_MAX < Y + 100 \<or> Y + 100 < INT_MIN)"
    using range Yb by (simp_all add: secs_in_range_def INT_MIN_def INT_MAX_def abs_le_iff)
  have divs: "r sdiv numeral n = r div numeral n" "r1 sdiv numeral n = r1 div numeral n"
    "r2 sdiv numeral n = r2 div numeral n" for n
    using nn by simp_all
  have dc: "(if 12 \<le> m + 2 then (m + 2 - 12, Y + 100 + 1) else (m + 2, Y + 100)) = (mon, year)"
    using my by (auto simp: date_of_def split: if_splits)
  have "secs_to_tm t = Some ?tm"
    unfolding secs_to_tm_def
    by (simp only: Let_def cuts c_ints floor_correction [OF zero_less_numeral] prod.case ok
        sec_def [symmetric] days_def [symmetric] qc_def [symmetric] r_def [symmetric] divs cap_eq
        c_def [symmetric] r1_def [symmetric] q_def [symmetric] r2_def [symmetric] y_def [symmetric]
        d_def [symmetric] Y_def [symmetric] m(1) dc kassert_bind Option.bind.bind_lunit simp_thms if_True)
  with cut fields year show ?thesis unfolding Y_def by (intro exI conjI)
qed

lemma secs_to_tm_parts:
  assumes "secs_in_range t" and "secs_to_tm t = Some tm"
  shows "\<exists>qc c q y m rd sec. t = LEAPOCH + 86400 * (146097 * qc + 36524 * c + 1461 * q + 365 * y + march_days m + rd) + sec \<and>
    0 \<le> sec \<and> sec < 86400 \<and> 0 \<le> c \<and> c \<le> 3 \<and> 0 \<le> q \<and> q \<le> 24 \<and> 0 \<le> y \<and> y \<le> 3 \<and>
    m \<in> {0, 1, 2, 3, 4, 5, 6, 7, 8, 9, 10, 11} \<and> 0 \<le> rd \<and> rd < days_in_month ! nat m \<and>
    (march_days m + rd = 365 \<longrightarrow> y = 3 \<and> (q = 24 \<longrightarrow> c = 3)) \<and> \<bar>tm_year tm\<bar> < 2 ^ 62 \<and>
    tm_sec tm = sec mod 60 \<and> tm_min tm = sec div 60 mod 60 \<and> tm_hour tm = sec div 3600 \<and>
    tm_mday tm = rd + 1 \<and> (tm_mon tm, tm_year tm) = date_of (y + 4 * q + 100 * c + 400 * qc) m rd"
proof -
  let ?days = "(t - LEAPOCH) div 86400" and ?sec = "(t - LEAPOCH) mod 86400"
  obtain qc c q y m rd tm' where *: "day_cut ?days qc c q y m rd"
    "tm_fields ?sec (y + 4 * q + 100 * c + 400 * qc) m rd tm'"
    "\<bar>tm_year tm'\<bar> < 2 ^ 31" "secs_to_tm t = Some tm'"
    using secs_to_tm_cut [OF assms(1)] by (elim exE conjE)
  have tm: "tm' = tm" using *(4) assms(2) by simp
  note f = *(2) [unfolded tm tm_fields_def] and cut = *(1) [unfolded day_cut_def]
  have "\<bar>tm_year tm\<bar> < 2 ^ 62" using *(3) tm by simp
  moreover have "t = LEAPOCH + 86400 * ?days + ?sec" by simp
  moreover have "0 \<le> ?sec" "?sec < 86400" by simp_all
  ultimately show ?thesis using cut f by metis
qed

subsection \<open>The start of a year\<close>

text \<open>Both branches of \<^verbatim>\<open>__year_to_secs\<close> compute this, with \<open>n\<close> the years since 2000.\<close>

definition year_start :: "int \<Rightarrow> int" where
  "year_start n = 365 * n + 97 * (n div 400) + 24 * (n mod 400 div 100) + n mod 400 mod 100 div 4
     - of_bool (n mod 400 = 0 \<or> n mod 400 mod 100 \<noteq> 0 \<and> n mod 400 mod 100 mod 4 = 0) + 10958"

definition leap_of :: "int \<Rightarrow> int" where
  "leap_of n = of_bool (n mod 400 = 0 \<or> n mod 400 mod 100 \<noteq> 0 \<and> n mod 400 mod 100 mod 4 = 0)"

lemma century_split:
  fixes r :: int
  assumes "0 \<le> r" "r < 400"
  shows "(if r \<ge> 200 then if r \<ge> 300 then (3, r - 300) else (2, r - 200)
          else if r \<ge> 100 then (1, r - 100) else (0, r)) = (r div 100, r mod 100)"
proof -
  have "r = 100 * (r div 100) + r mod 100" "0 \<le> r mod 100" "r mod 100 < 100" by simp_all
  moreover from this have "r div 100 = 0 \<or> r div 100 = 1 \<or> r div 100 = 2 \<or> r div 100 = 3" using assms by auto
  ultimately show ?thesis by (elim disjE) (simp_all; linarith)+
qed

lemma floor_correction_400:
  "(if n smod 400 < 0 then (n sdiv 400 - 1, n smod 400 + 400) else (n sdiv 400, n smod 400)) =
   (n div 400, n mod 400 :: int)"
  using floor_correction [of 400 n] by (auto split: if_splits)

lemma year_to_secs_slow:
  assumes "\<not> (word_of_int year - 2 :: u64) \<le> 136"
  shows "year_to_secs year = (86400 * year_start (year - 100), leap_of (year - 100))"
proof -
  let ?n = "year - 100"
  have r: "0 \<le> ?n mod 400" "?n mod 400 < 400" "0 \<le> ?n mod 400 mod 100" by simp_all
  show ?thesis
    unfolding year_to_secs_def Let_def if_not_P [OF assms] floor_correction_400 prod.case
      century_split [OF r(1,2)] sdiv_nonneg [OF r(3) zero_less_numeral]
    by (simp add: year_start_def leap_of_def)
qed

lemma and_3_eq_mod: "(x :: int) AND 3 = x mod 4"
  using take_bit_eq_mask [of 2 x] by (simp add: take_bit_eq_mod mask_eq_exp_minus_1)

lemma year_to_secs_fast:
  assumes "(word_of_int year - 2 :: u64) \<le> 136" and "2 \<le> year" "year \<le> 138"
  shows "year_to_secs year = (86400 * year_start (year - 100), leap_of (year - 100))"
proof -
  have d: "drop_bit 2 (year - 68) = year div 4 - 17" "(year - 68) mod 4 = year mod 4"
    by (simp add: drop_bit_eq_div) presburger+
  have *: "year_to_secs year = (31536000 * (year - 70) +
      86400 * (year div 4 - 17 - of_bool (year mod 4 = 0)), of_bool (year mod 4 = 0))"
    using assms(1) by (simp add: year_to_secs_def Let_def d and_3_eq_mod)
  consider "year < 100" | "year = 100" | "100 < year" by linarith
  then show ?thesis
  proof cases
    case 1
    then have "(year - 100) div 400 = -1" "(year - 100) mod 400 = year + 300"
      using int_div_pos_eq [of "year - 100" 400 "-1" "year + 300"]
        int_mod_pos_eq [of "year - 100" 400 "-1" "year + 300"] assms by simp_all
    moreover have "(year + 300) div 100 = 3" "(year + 300) mod 100 = year"
      using int_div_pos_eq [of "year + 300" 100 3 year] int_mod_pos_eq [of "year + 300" 100 3 year] 1 assms
      by simp_all
    ultimately show ?thesis using assms
      by (simp add: * year_start_def leap_of_def)
  next
    case 2
    then show ?thesis unfolding * by (simp add: year_start_def leap_of_def)
  next
    case 3
    obtain n where n: "year = n + 100" using that [of "year - 100"] by simp
    then have "0 < n" "n \<le> 38" using 3 assms by simp_all
    moreover have "(n + 100) div 4 = n div 4 + 25" "(n + 100) mod 4 = n mod 4" by presburger+
    ultimately show ?thesis unfolding * by (simp add: n year_start_def leap_of_def)
  qed
qed

lemma year_to_secs_eq:
  assumes "- (2 ^ 62) < year" "year < 2 ^ 62"
  shows "year_to_secs year = (86400 * year_start (year - 100), leap_of (year - 100))"
proof (cases "(word_of_int year - 2 :: u64) \<le> 136")
  case True
  have "uint (word_of_int year - 2 :: u64) = (year - 2) mod 2 ^ 64"
    by (simp add: uint_word_ariths uint_word_of_int mod_diff_left_eq)
  with True have le: "(year - 2) mod 2 ^ 64 \<le> 136" by (simp add: word_le_def)
  have "2 \<le> year"
  proof (rule ccontr)
    assume "\<not> 2 \<le> year"
    then have "(year - 2) mod 2 ^ 64 = year - 2 + 2 ^ 64"
      using int_mod_pos_eq [of "year - 2" "2 ^ 64" "-1" "year - 2 + 2 ^ 64"] assms by simp
    then show False using le assms by simp
  qed
  then have "(year - 2) mod 2 ^ 64 = year - 2" using assms by simp
  then show ?thesis using le \<open>2 \<le> year\<close> by (intro year_to_secs_fast True) simp_all
qed (rule year_to_secs_slow)

text \<open>
  The start of the year in the cycles that \<^verbatim>\<open>secs_to_tm\<close> uses: a year that starts in March and the
  following calendar year.
\<close>

lemma cycle_mod:
  fixes c q y qc :: int
  assumes "0 \<le> c" "c \<le> 3" "0 \<le> q" "q \<le> 24" "0 \<le> y" "y \<le> 3"
  defines "n \<equiv> y + 4 * q + 100 * c + 400 * qc"
  shows "n div 400 = qc" "n mod 400 = y + 4 * q + 100 * c"
    "n mod 400 div 100 = c" "n mod 400 mod 100 = y + 4 * q" "(y + 4 * q) div 4 = q" "(y + 4 * q) mod 4 = y"
proof -
  show "n div 400 = qc" and m: "n mod 400 = y + 4 * q + 100 * c"
    using assms int_div_pos_eq [of n 400 qc "y + 4 * q + 100 * c"]
      int_mod_pos_eq [of n 400 qc "y + 4 * q + 100 * c"] by auto
  show "n mod 400 div 100 = c" "n mod 400 mod 100 = y + 4 * q"
    unfolding m using assms int_div_pos_eq [of "y + 4 * q + 100 * c" 100 c "y + 4 * q"]
      int_mod_pos_eq [of "y + 4 * q + 100 * c" 100 c "y + 4 * q"] by auto
  show "(y + 4 * q) div 4 = q" "(y + 4 * q) mod 4 = y" using assms by auto
qed

lemma year_start_cycles:
  assumes "0 \<le> c" "c \<le> 3" "0 \<le> q" "q \<le> 24" "0 \<le> y" "y \<le> 3"
  shows "year_start (y + 4 * q + 100 * c + 400 * qc) =
      146097 * qc + 36524 * c + 1461 * q + 365 * y + 10958 - leap_of (y + 4 * q + 100 * c + 400 * qc)"
    and "leap_of (y + 4 * q + 100 * c + 400 * qc) = of_bool (y = 0 \<and> (q \<noteq> 0 \<or> c = 0))"
  using assms by (auto simp: year_start_def leap_of_def cycle_mod)

lemma year_start_next:
  assumes "0 \<le> c" "c \<le> 3" "0 \<le> q" "q \<le> 24" "0 \<le> y" "y \<le> 3"
  shows "year_start (y + 4 * q + 100 * c + 400 * qc + 1) =
      146097 * qc + 36524 * c + 1461 * q + 365 * y + 11323"
    and "leap_of (y + 4 * q + 100 * c + 400 * qc + 1) = of_bool (y = 3 \<and> (q = 24 \<longrightarrow> c = 3))"
proof -
  let ?n = "y + 4 * q + 100 * c + 400 * qc + 1"
  consider "y < 3" | "y = 3" "q < 24" | "y = 3" "q = 24" "c < 3" | "y = 3" "q = 24" "c = 3"
    using assms by linarith
  then have *: "year_start ?n = 146097 * qc + 36524 * c + 1461 * q + 365 * y + 11323 \<and>
    leap_of ?n = of_bool (y = 3 \<and> (q = 24 \<longrightarrow> c = 3))"
  proof cases
    case 1
    then have n: "?n = (y + 1) + 4 * q + 100 * c + 400 * qc" by simp
    show ?thesis unfolding n using 1 assms year_start_cycles [of c q "y + 1" qc] by auto
  next
    case 2
    then have n: "?n = 0 + 4 * (q + 1) + 100 * c + 400 * qc" by simp
    show ?thesis unfolding n using 2 assms year_start_cycles [of c "q + 1" 0 qc] by auto
  next
    case 3
    then have n: "?n = 0 + 4 * 0 + 100 * (c + 1) + 400 * qc" by simp
    show ?thesis unfolding n using 3 assms year_start_cycles [of "c + 1" 0 0 qc] by auto
  next
    case 4
    then have n: "?n = 0 + 4 * 0 + 100 * 0 + 400 * (qc + 1)" by simp
    show ?thesis unfolding n using 4 assms year_start_cycles [of 0 0 0 "qc + 1"] by auto
  qed
  then show "year_start ?n = 146097 * qc + 36524 * c + 1461 * q + 365 * y + 11323"
    "leap_of ?n = of_bool (y = 3 \<and> (q = 24 \<longrightarrow> c = 3))" by simp_all
qed

subsection \<open>Round trip\<close>

definition valid_tm :: "tm \<Rightarrow> bool" where
  "valid_tm tm \<longleftrightarrow> 0 \<le> tm_sec tm \<and> tm_sec tm < 60 \<and> 0 \<le> tm_min tm \<and> tm_min tm < 60 \<and>
     0 \<le> tm_hour tm \<and> tm_hour tm < 24 \<and> 0 \<le> tm_mon tm \<and> tm_mon tm < 12 \<and>
     1 \<le> tm_mday tm \<and> tm_mday tm \<le> month_length (1900 + tm_year tm) (tm_mon tm)"

lemma leap_of_year: "leap_of n = of_bool (is_leap_year (2000 + n))"
proof -
  have "(4 :: int) dvd 2000" "(100 :: int) dvd 2000" "(400 :: int) dvd 2000" by simp_all
  then have "is_leap_year (2000 + n) \<longleftrightarrow> 4 dvd n \<and> (\<not> 100 dvd n \<or> 400 dvd n)"
    by (simp add: is_leap_year_def dvd_add_right_iff)
  moreover have "n mod 400 mod 100 = n mod 100" "n mod 400 mod 100 mod 4 = n mod 4"
    by (simp_all add: mod_mod_cancel)
  moreover have "400 dvd n \<Longrightarrow> 4 dvd n" using dvd_trans [of 4 400 n] by simp
  then have "n mod 400 = 0 \<or> n mod 100 \<noteq> 0 \<and> n mod 4 = 0 \<longleftrightarrow> 4 dvd n \<and> (\<not> 100 dvd n \<or> 400 dvd n)"
    unfolding dvd_eq_mod_eq_0 by metis
  ultimately show ?thesis by (simp only: leap_of_def)
qed

text \<open>The day count of a valid date, in both halves of the March year.\<close>

lemma tm_to_secs_split:
  assumes "0 \<le> tm_mon tm" "tm_mon tm < 12" "\<bar>tm_year tm\<bar> < 2 ^ 62"
  shows "tm_to_secs tm = 86400 * year_start (tm_year tm - 100) +
    month_to_secs (tm_mon tm) (leap_of (tm_year tm - 100)) + 86400 * (tm_mday tm - 1) +
    3600 * tm_hour tm + 60 * tm_min tm + tm_sec tm"
  using assms by (simp add: tm_to_secs_def year_to_secs_eq Let_def)

lemma hms: "3600 * (sec div 3600) + 60 * (sec div 60 mod 60) + sec mod 60 = sec"
  for sec :: int
proof -
  have "sec = 60 * (sec div 60) + sec mod 60" "sec div 60 = 60 * (sec div 60 div 60) + sec div 60 mod 60"
    by simp_all
  moreover have "sec div 60 div 60 = sec div 3600" using zdiv_zmult2_eq [of 60 sec 60] by simp
  ultimately show ?thesis by linarith
qed

lemma months_cases: "m \<in> {0, 1, 2, 3, 4, 5, 6, 7, 8, 9, 10, 11} \<Longrightarrow>
   m \<in> {0, 1, 2, 3, 4, 5, 6, 7, 8, 9} \<and> m < 10 \<or> m \<in> {10, 11} \<and> 10 \<le> m"
  for m :: int
  by auto

lemma month_secs_spring:
  assumes "m \<in> {0, 1, 2, 3, 4, 5, 6, 7, 8, 9}" "L = 0 \<or> L = 1"
  shows "month_to_secs (m + 2) L = 86400 * (march_days m + 59 + L)"
  using assms by (elim insertE emptyE disjE) (simp_all add: month_to_secs_def march_days_def)

lemma month_secs_winter:
  assumes "m \<in> {10, 11}"
  shows "month_to_secs (m - 10) L = 86400 * (march_days m - 306)"
  using assms by (elim insertE emptyE) (simp_all add: month_to_secs_def march_days_def)

lemma round_trip_days:
  assumes m: "m \<in> {0, 1, 2, 3, 4, 5, 6, 7, 8, 9, 10, 11}" and date: "(mon, year) = date_of n m rd"
    and "year_start n + leap_of n = d + 10958" and "year_start (n + 1) = d + 11323"
  shows "86400 * year_start (year - 100) + month_to_secs mon (leap_of (year - 100)) + 86400 * rd =
    LEAPOCH + 86400 * (d + march_days m + rd)"
proof -
  have L: "leap_of n = 0 \<or> leap_of n = 1" by (simp add: leap_of_def)
  from months_cases [OF m] show ?thesis
  proof (elim disjE conjE)
    assume "m \<in> {0, 1, 2, 3, 4, 5, 6, 7, 8, 9}" "m < 10"
    then show ?thesis using date month_secs_spring [OF _ L] assms(3)
      by (simp add: date_of_def LEAPOCH_def)
  next
    assume "m \<in> {10, 11}" "10 \<le> m"
    then have *: "mon = m - 10" "year - 100 = n + 1" "month_to_secs (m - 10) (leap_of (n + 1)) = 86400 * (march_days m - 306)"
      using date month_secs_winter by (simp_all add: date_of_def)
    show ?thesis unfolding * assms(4) by (simp add: LEAPOCH_def)
  qed
qed

lemma month_valid:
  assumes m: "m \<in> {0, 1, 2, 3, 4, 5, 6, 7, 8, 9, 10, 11}" and date: "(mon, year) = date_of n m rd"
    and rd: "0 \<le> rd" "rd < days_in_month ! nat m"
    and leap: "march_days m + rd = 365 \<Longrightarrow> leap_of (n + 1) = 1"
  shows "0 \<le> mon \<and> mon < 12 \<and> rd + 1 \<le> month_length (1900 + year) mon"
proof -
  have "is_leap_year (2001 + n) \<or> rd \<le> 27" if "m = 11"
    using that leap leap_of_year [of "n + 1"] rd(2)
    by (cases "rd = 28") (simp_all add: march_days_def days_in_month_def add.commute)
  moreover have "m < 10 \<Longrightarrow> mon = m + 2" "10 \<le> m \<Longrightarrow> mon = m - 10 \<and> year = n + 101"
    using date by (auto simp: date_of_def)
  ultimately show ?thesis using m rd
    by (elim insertE emptyE) (simp_all add: days_in_month_def month_length_def add.commute, auto)
qed

lemma secs_to_tm_roundtrip:
  assumes "secs_in_range t" and "secs_to_tm t = Some tm"
  shows "valid_tm tm \<and> tm_to_secs tm = t"
proof -
  obtain qc c q y m rd sec where
    t: "t = LEAPOCH + 86400 * (146097 * qc + 36524 * c + 1461 * q + 365 * y + march_days m + rd) + sec" and
    sec: "0 \<le> sec" "sec < 86400" and
    cqy: "0 \<le> c" "c \<le> 3" "0 \<le> q" "q \<le> 24" "0 \<le> y" "y \<le> 3" and
    m: "m \<in> {0, 1, 2, 3, 4, 5, 6, 7, 8, 9, 10, 11}" "0 \<le> rd" "rd < days_in_month ! nat m" and
    leap: "march_days m + rd = 365 \<longrightarrow> y = 3 \<and> (q = 24 \<longrightarrow> c = 3)" and
    year: "\<bar>tm_year tm\<bar> < 2 ^ 62" and
    tm: "tm_sec tm = sec mod 60" "tm_min tm = sec div 60 mod 60" "tm_hour tm = sec div 3600"
      "tm_mday tm = rd + 1" "(tm_mon tm, tm_year tm) = date_of (y + 4 * q + 100 * c + 400 * qc) m rd"
    using secs_to_tm_parts [OF assms] by (elim exE conjE)
  let ?n = "y + 4 * q + 100 * c + 400 * qc"
  have mon: "0 \<le> tm_mon tm" "tm_mon tm < 12" "rd + 1 \<le> month_length (1900 + tm_year tm) (tm_mon tm)"
    using month_valid [OF m(1) tm(5) m(2,3)] leap year_start_next(2) [OF cqy, of qc] by auto
  let ?d = "146097 * qc + 36524 * c + 1461 * q + 365 * y"
  have ys: "year_start ?n + leap_of ?n = ?d + 10958" using year_start_cycles(1) [OF cqy, of qc] by linarith
  have secs: "tm_to_secs tm = t"
  proof -
    have sum: "A + B + 86400 * (rd + 1 - 1) + 3600 * H + 60 * M + S =
      (A + B + 86400 * rd) + (3600 * H + 60 * M + S)" for A B H M S :: int
      by simp
    show ?thesis
      unfolding t tm_to_secs_split [OF mon(1,2) year] tm(1-4) sum hms
        round_trip_days [OF m(1) tm(5) ys year_start_next(1) [OF cqy, of qc]] ..
  qed
  have "0 \<le> sec div 3600" using sec(1) by (simp add: pos_imp_zdiv_nonneg_iff)
  moreover have "sec div 3600 < 24" using zdiv_mono1 [of sec 86399 3600] sec(2) by simp
  ultimately show ?thesis using secs mon m(2) tm(1-4) by (simp add: valid_tm_def)
qed

lemma secs_to_tm_wraps: "\<exists>tm. secs_to_tm (INT_MAX * 31622400) = Some tm \<and> tm_year tm < 0"
  by (simp add: secs_to_tm_def INT_MAX_def INT_MIN_def LEAPOCH_def DAYS_PER_400Y_def DAYS_PER_100Y_def
      DAYS_PER_4Y_def days_in_month_def c_int_literals Let_def)

text \<open>
  C34: For every number of seconds within \<open>2147483000\<close> mean years of 1970, \<^verbatim>\<open>secs_to_tm\<close> succeeds, no \<^verbatim>\<open>int\<close>
  overflows in it, it produces a valid date, with the February of a leap year, and \<^verbatim>\<open>tm_to_secs\<close> turns that date
  back into the same number of seconds; this covers both branches of \<^verbatim>\<open>__year_to_secs\<close> and dates before 1970.
  Its own bound is too wide: at the last second it accepts the year has wrapped around to a negative one, and it
  reports success.
\<close>

theorem seconds_roundtrip:
  assumes "\<bar>t\<bar> \<le> 2147483000 * 31556952"
  shows "(\<exists>tm. secs_to_tm t = Some tm \<and> valid_tm tm \<and> \<bar>tm_year tm\<bar> < 2 ^ 31 \<and> tm_to_secs tm = t) \<and>
    (\<exists>tm. secs_to_tm (INT_MAX * 31622400) = Some tm \<and> tm_year tm < 0)"
proof -
  have range: "secs_in_range t" using assms by (simp add: secs_in_range_def)
  then obtain tm where "secs_to_tm t = Some tm" "\<bar>tm_year tm\<bar> < 2 ^ 31" using secs_to_tm_cut [OF range] by blast
  with secs_to_tm_roundtrip [OF range this(1)] secs_to_tm_wraps show ?thesis by blast
qed

lemma seconds_roundtrip_witness:
  "\<exists>tm. secs_to_tm 951782400 = Some tm \<and> tm_mday tm = 29 \<and> tm_mon tm = 1 \<and> tm_to_secs tm = 951782400"
proof -
  have *: "secs_to_tm 951782400 = Some \<lparr>tm_sec = 0, tm_min = 0, tm_hour = 0, tm_mday = 29, tm_mon = 1,
     tm_year = 100, tm_wday = 2, tm_yday = 59\<rparr>"
    by (simp add: secs_to_tm_def INT_MAX_def INT_MIN_def LEAPOCH_def DAYS_PER_400Y_def DAYS_PER_100Y_def
        DAYS_PER_4Y_def days_in_month_def c_int_literals Let_def)
  obtain tm where tm: "secs_to_tm 951782400 = Some tm" "tm_to_secs tm = 951782400"
    using seconds_roundtrip [of 951782400] by auto
  have "tm_mday tm = 29 \<and> tm_mon tm = 1" using tm(1) * by auto
  with tm show ?thesis by blast
qed

subsection \<open>The real time clock\<close>

text \<open>
  The registers of the clock that the driver touches, once they are mapped (\<^verbatim>\<open>r != nullptr\<close>).  The device
  counts from the value last written to \<^verbatim>\<open>lr\<close>.  The last argument of \<open>pl031_get_time\<close> and
  \<open>pl031_set_time\<close> is what the local variable \<^verbatim>\<open>time\<close> holds before it is assigned.
\<close>

record pl031 =
  rtc_mapped :: bool
  rtc_dr :: u32
  rtc_lr :: u32
  rtc_cr :: u32

text \<open>
  Whether \<^verbatim>\<open>ioremap\<close> could make the mapping is an argument; its result is not checked, so that a failure
  ends in a write through a null pointer.
\<close>

definition pl031_init :: "bool \<Rightarrow> pl031 \<Rightarrow> (int \<times> pl031) option" where
  "pl031_init ioremap_ok r =
     (if rtc_mapped r then Some (0, r)
      else if ioremap_ok then Some (0, r\<lparr>rtc_mapped := True, rtc_cr := 1\<rparr>) else None)"

definition pl031_shutdown :: "pl031 \<Rightarrow> int \<times> pl031" where
  "pl031_shutdown r = (if \<not> rtc_mapped r then (0, r) else (0, r\<lparr>rtc_cr := 0\<rparr>))"

definition pl031_get_time :: "pl031 \<Rightarrow> tm \<Rightarrow> int + DateTime" where
  "pl031_get_time r time =
     (if \<not> rtc_mapped r then Inl (- errno ERR_NODEV)
      else Inr (datetime_from_tm
        (case secs_to_tm (uint (rtc_dr r)) of None \<Rightarrow> time | Some tm \<Rightarrow> tm)))"

definition pl031_set_time :: "pl031 \<Rightarrow> DateTime \<Rightarrow> tm \<Rightarrow> int \<times> pl031" where
  "pl031_set_time r dt time =
     (if \<not> rtc_mapped r then (- errno ERR_NODEV, r)
      else (0, r\<lparr>rtc_lr := word_of_int (tm_to_secs (datetime_to_tm dt time))\<rparr>))"

text \<open>
  Reading the real time clock never fails once it is mapped, and setting it to the date just read loads the
  device with exactly the seconds that were read, for every value of the 32-bit counter.
\<close>

theorem rtc_roundtrip:
  assumes "rtc_mapped r"
  shows "\<exists>dt. pl031_get_time r junk = Inr dt \<and> rtc_lr (snd (pl031_set_time r dt junk')) = rtc_dr r"
proof -
  have "uint (rtc_dr r) < 2 ^ 32" "0 \<le> uint (rtc_dr r)" using uint_bounded [of "rtc_dr r"] by simp_all
  then have range: "secs_in_range (uint (rtc_dr r))" by (simp add: secs_in_range_def)
  then obtain tm where tm: "secs_to_tm (uint (rtc_dr r)) = Some tm"
    using secs_to_tm_cut [of "uint (rtc_dr r)"] by blast
  note rt = secs_to_tm_roundtrip [OF range tm]
  have "tm_to_secs (datetime_to_tm (datetime_from_tm tm) junk') = tm_to_secs tm"
    by (simp add: tm_to_secs_def datetime_to_tm_def datetime_from_tm_def)
  then show ?thesis using assms tm rt by (simp add: pl031_get_time_def pl031_set_time_def)
qed

lemma rtc_roundtrip_witness:
  "\<exists>dt. pl031_get_time \<lparr>rtc_mapped = True, rtc_dr = 1700000000, rtc_lr = 0, rtc_cr = 1\<rparr> undefined = Inr dt \<and>
     rtc_lr (snd (pl031_set_time \<lparr>rtc_mapped = True, rtc_dr = 1700000000, rtc_lr = 0, rtc_cr = 1\<rparr> dt undefined))
       = 1700000000"
  using rtc_roundtrip [of "\<lparr>rtc_mapped = True, rtc_dr = 1700000000, rtc_lr = 0, rtc_cr = 1\<rparr>" undefined undefined]
  by simp

subsection \<open>Dates in the user programs\<close>

definition datetime_compare :: "DateTime \<Rightarrow> DateTime \<Rightarrow> int" where
  "datetime_compare a b =
     (if dt_year a \<noteq> dt_year b then dt_year a - dt_year b
      else if dt_month a \<noteq> dt_month b then dt_month a - dt_month b
      else if dt_day a \<noteq> dt_day b then dt_day a - dt_day b
      else if dt_hour a \<noteq> dt_hour b then dt_hour a - dt_hour b
      else if dt_minute a \<noteq> dt_minute b then dt_minute a - dt_minute b
      else if dt_second a \<noteq> dt_second b then dt_second a - dt_second b
      else 0)"

definition datetime_add :: "DateTime \<Rightarrow> int \<Rightarrow> int \<Rightarrow> int \<Rightarrow> DateTime" where
  "datetime_add dt hours_to_add minutes_to_add seconds_to_add = (
     let dt = dt\<lparr>dt_second := dt_second dt + seconds_to_add\<rparr>;
         dt = (if dt_second dt \<ge> 60
           then dt\<lparr>dt_minute := dt_minute dt + dt_second dt sdiv 60, dt_second := dt_second dt smod 60\<rparr> else dt);
         dt = dt\<lparr>dt_minute := dt_minute dt + minutes_to_add\<rparr>;
         dt = (if dt_minute dt \<ge> 60
           then dt\<lparr>dt_hour := dt_hour dt + dt_minute dt sdiv 60, dt_minute := dt_minute dt smod 60\<rparr> else dt);
         dt = dt\<lparr>dt_hour := dt_hour dt + hours_to_add\<rparr>;
         dt = (if dt_hour dt \<ge> 24
           then dt\<lparr>dt_day := dt_day dt + dt_hour dt sdiv 60, dt_hour := dt_hour dt smod 24\<rparr> else dt)
     in dt)"

definition time_of_day :: "DateTime \<Rightarrow> int" where
  "time_of_day dt = 3600 * dt_hour dt + 60 * dt_minute dt + dt_second dt"

definition valid_time :: "DateTime \<Rightarrow> bool" where
  "valid_time dt \<longleftrightarrow> 0 \<le> dt_second dt \<and> dt_second dt < 60 \<and> 0 \<le> dt_minute dt \<and> dt_minute dt < 60 \<and>
     0 \<le> dt_hour dt \<and> dt_hour dt < 24"

text \<open>
  Adding one second, as the clock program does once per second, moves a valid time of day to the next
  second and wraps at midnight, but the day is carried with \<^verbatim>\<open>hour / 60\<close> instead of \<^verbatim>\<open>hour / 24\<close>, so the
  date does not change at midnight.
\<close>

theorem clock_tick_keeps_date:
  assumes "valid_time dt"
  shows "valid_time (datetime_add dt 0 0 1) \<and>
    time_of_day (datetime_add dt 0 0 1) = (time_of_day dt + 1) mod 86400 \<and>
    dt_day (datetime_add dt 0 0 1) = dt_day dt"
proof -
  have "dt_second dt + 1 = 60 \<or> dt_second dt + 1 < 60" "dt_minute dt + 1 = 60 \<or> dt_minute dt + 1 < 60"
    "dt_hour dt + 1 = 24 \<or> dt_hour dt + 1 < 24"
    using assms by (auto simp: valid_time_def)
  then show ?thesis using assms
    by (elim disjE) (auto simp: datetime_add_def valid_time_def time_of_day_def Let_def)
qed

lemma clock_tick_keeps_date_witness:
  "datetime_add \<lparr>dt_year = 2024, dt_month = 2, dt_day = 28, dt_hour = 23, dt_minute = 59, dt_second = 59\<rparr> 0 0 1 =
     \<lparr>dt_year = 2024, dt_month = 2, dt_day = 28, dt_hour = 0, dt_minute = 0, dt_second = 0\<rparr>"
  using clock_tick_keeps_date [of
    "\<lparr>dt_year = 2024, dt_month = 2, dt_day = 28, dt_hour = 23, dt_minute = 59, dt_second = 59\<rparr>"]
  by (simp add: valid_time_def datetime_add_def Let_def)

end
