(* ===== verification/DefaultFont.thy ===== *)
theory DefaultFont
  imports Prelude
begin

text \<open>
  The built-in PSF font (\<^verbatim>\<open>userland/bsp/libgfx/default_font.c\<close>): the array
  \<^verbatim>\<open>_resource_default_psf_font\<close>, cut into blocks of consecutive bytes.
\<close>

definition psf_font_00 :: "u8 list" where
  "psf_font_00 = [
    0x72, 0xb5, 0x4a, 0x86, 0x00, 0x00, 0x00, 0x00, 0x20, 0x00, 0x00, 0x00, 0x01, 0x00, 0x00, 0x00,
    0x00, 0x01, 0x00, 0x00, 0x09, 0x00, 0x00, 0x00, 0x09, 0x00, 0x00, 0x00, 0x08, 0x00, 0x00, 0x00,
    0x00, 0x00, 0x00, 0x00, 0x00, 0x00, 0x00, 0x00, 0x00, 0x7e, 0x81, 0xa5, 0x81, 0xbd, 0x99, 0x81,
    0x7e, 0x00, 0x7e, 0xff, 0xdb, 0xff, 0xc3, 0xe7, 0xff, 0x7e, 0x00, 0x6c, 0xfe, 0xfe, 0xfe, 0x7c,
    0x38, 0x10, 0x00, 0x00, 0x10, 0x38, 0x7c, 0xfe, 0x7c, 0x38, 0x10, 0x00, 0x00, 0x38, 0x7c, 0x38,
    0xfe, 0xfe, 0x7c, 0x38, 0x7c, 0x00, 0x10, 0x10, 0x38, 0x7c, 0xfe, 0x7c, 0x38, 0x7c, 0x00, 0x00,
    0x00, 0x18, 0x3c, 0x3c, 0x18, 0x00, 0x00, 0x00, 0xff, 0xff, 0xe7, 0xc3, 0xc3, 0xe7, 0xff, 0xff,
    0x00, 0x00, 0x3c, 0x66, 0x42, 0x42, 0x66, 0x3c, 0x00, 0x00, 0xff, 0xc3, 0x99, 0xbd, 0xbd, 0x99,
    0xc3, 0xff, 0x00, 0x0f, 0x07, 0x0f, 0x7d, 0xcc, 0xcc, 0xcc, 0x78, 0x00, 0x3c, 0x66, 0x66, 0x66,
    0x3c
  ]"

definition psf_font_01 :: "u8 list" where
  "psf_font_01 = [
    0x18, 0x7e, 0x18, 0x00, 0x3f, 0x33, 0x3f, 0x30, 0x30, 0x70, 0xf0, 0xe0, 0x00, 0x7f, 0x63, 0x7f,
    0x63, 0x63, 0x67, 0xe6, 0xc0, 0x00, 0x99, 0x5a, 0x3c, 0xe7, 0xe7, 0x3c, 0x5a, 0x99, 0x00, 0x80,
    0xe0, 0xf8, 0xfe, 0xf8, 0xe0, 0x80, 0x00, 0x00, 0x02, 0x0e, 0x3e, 0xfe, 0x3e, 0x0e, 0x02, 0x00,
    0x00, 0x18, 0x3c, 0x7e, 0x18, 0x18, 0x7e, 0x3c, 0x18, 0x00, 0x66, 0x66, 0x66, 0x66, 0x66, 0x00,
    0x66, 0x00, 0x00, 0x7f, 0xdb, 0xdb, 0x7b, 0x1b, 0x1b, 0x1b, 0x00, 0x00, 0x3e, 0x63, 0x38, 0x6c,
    0x6c, 0x38, 0xcc, 0x78, 0x00, 0x00, 0x00, 0x00, 0x00, 0x7e, 0x7e, 0x7e, 0x00, 0x00, 0x18, 0x3c,
    0x7e, 0x18, 0x7e, 0x3c, 0x18, 0xff, 0x00, 0x18, 0x3c, 0x7e, 0x18, 0x18, 0x18, 0x18, 0x00, 0x00,
    0x18, 0x18, 0x18, 0x18, 0x7e, 0x3c, 0x18, 0x00, 0x00, 0x00, 0x18, 0x0c, 0xfe, 0x0c, 0x18, 0x00,
    0x00, 0x00, 0x00, 0x30, 0x60, 0xfe, 0x60, 0x30, 0x00, 0x00, 0x00, 0x00, 0x00, 0xc0, 0xc0, 0xc0,
    0xfe
  ]"

definition psf_font_02 :: "u8 list" where
  "psf_font_02 = [
    0x00, 0x00, 0x00, 0x00, 0x24, 0x66, 0xff, 0x66, 0x24, 0x00, 0x00, 0x00, 0x00, 0x18, 0x3c, 0x7e,
    0xff, 0xff, 0x00, 0x00, 0x00, 0x00, 0xff, 0xff, 0x7e, 0x3c, 0x18, 0x00, 0x00, 0x00, 0x00, 0x00,
    0x00, 0x00, 0x00, 0x00, 0x00, 0x00, 0x00, 0x30, 0x78, 0x78, 0x30, 0x30, 0x00, 0x30, 0x00, 0x00,
    0x6c, 0x6c, 0x6c, 0x00, 0x00, 0x00, 0x00, 0x00, 0x00, 0x6c, 0x6c, 0xfe, 0x6c, 0xfe, 0x6c, 0x6c,
    0x00, 0x00, 0x30, 0x7c, 0xc0, 0x78, 0x0c, 0xf8, 0x30, 0x00, 0x00, 0x00, 0xc6, 0xcc, 0x18, 0x30,
    0x66, 0xc6, 0x00, 0x00, 0x38, 0x6c, 0x38, 0x76, 0xdc, 0xcc, 0x76, 0x00, 0x00, 0x60, 0x60, 0xc0,
    0x00, 0x00, 0x00, 0x00, 0x00, 0x00, 0x18, 0x30, 0x60, 0x60, 0x60, 0x30, 0x18, 0x00, 0x00, 0x60,
    0x30, 0x18, 0x18, 0x18, 0x30, 0x60, 0x00, 0x00, 0x00, 0x66, 0x3c, 0xff, 0x3c, 0x66, 0x00, 0x00,
    0x00, 0x00, 0x30, 0x30, 0xfc, 0x30, 0x30, 0x00, 0x00, 0x00, 0x00, 0x00, 0x00, 0x00, 0x00, 0x30,
    0x30
  ]"

definition psf_font_03 :: "u8 list" where
  "psf_font_03 = [
    0x60, 0x00, 0x00, 0x00, 0x00, 0xfc, 0x00, 0x00, 0x00, 0x00, 0x00, 0x00, 0x00, 0x00, 0x00, 0x00,
    0x30, 0x30, 0x00, 0x00, 0x06, 0x0c, 0x18, 0x30, 0x60, 0xc0, 0x80, 0x00, 0x00, 0x7c, 0xc6, 0xce,
    0xde, 0xf6, 0xe6, 0x7c, 0x00, 0x00, 0x30, 0x70, 0x30, 0x30, 0x30, 0x30, 0xfc, 0x00, 0x00, 0x78,
    0xcc, 0x0c, 0x38, 0x60, 0xcc, 0xfc, 0x00, 0x00, 0x78, 0xcc, 0x0c, 0x38, 0x0c, 0xcc, 0x78, 0x00,
    0x00, 0x1c, 0x3c, 0x6c, 0xcc, 0xfe, 0x0c, 0x1e, 0x00, 0x00, 0xfc, 0xc0, 0xf8, 0x0c, 0x0c, 0xcc,
    0x78, 0x00, 0x00, 0x38, 0x60, 0xc0, 0xf8, 0xcc, 0xcc, 0x78, 0x00, 0x00, 0xfc, 0xcc, 0x0c, 0x18,
    0x30, 0x30, 0x30, 0x00, 0x00, 0x78, 0xcc, 0xcc, 0x78, 0xcc, 0xcc, 0x78, 0x00, 0x00, 0x78, 0xcc,
    0xcc, 0x7c, 0x0c, 0x18, 0x70, 0x00, 0x00, 0x00, 0x30, 0x30, 0x00, 0x00, 0x30, 0x30, 0x00, 0x00,
    0x00, 0x30, 0x30, 0x00, 0x00, 0x30, 0x30, 0x60, 0x00, 0x18, 0x30, 0x60, 0xc0, 0x60, 0x30, 0x18,
    0x00
  ]"

definition psf_font_04 :: "u8 list" where
  "psf_font_04 = [
    0x00, 0x00, 0x00, 0xfc, 0x00, 0x00, 0xfc, 0x00, 0x00, 0x00, 0x60, 0x30, 0x18, 0x0c, 0x18, 0x30,
    0x60, 0x00, 0x00, 0x78, 0xcc, 0x0c, 0x18, 0x30, 0x00, 0x30, 0x00, 0x00, 0x7c, 0xc6, 0xde, 0xde,
    0xde, 0xc0, 0x78, 0x00, 0x00, 0x30, 0x78, 0xcc, 0xcc, 0xfc, 0xcc, 0xcc, 0x00, 0x00, 0xfc, 0x66,
    0x66, 0x7c, 0x66, 0x66, 0xfc, 0x00, 0x00, 0x3c, 0x66, 0xc0, 0xc0, 0xc0, 0x66, 0x3c, 0x00, 0x00,
    0xf8, 0x6c, 0x66, 0x66, 0x66, 0x6c, 0xf8, 0x00, 0x00, 0xfe, 0x62, 0x68, 0x78, 0x68, 0x62, 0xfe,
    0x00, 0x00, 0xfe, 0x62, 0x68, 0x78, 0x68, 0x60, 0xf0, 0x00, 0x00, 0x3c, 0x66, 0xc0, 0xc0, 0xce,
    0x66, 0x3e, 0x00, 0x00, 0xcc, 0xcc, 0xcc, 0xfc, 0xcc, 0xcc, 0xcc, 0x00, 0x00, 0x78, 0x30, 0x30,
    0x30, 0x30, 0x30, 0x78, 0x00, 0x00, 0x1e, 0x0c, 0x0c, 0x0c, 0xcc, 0xcc, 0x78, 0x00, 0x00, 0xe6,
    0x66, 0x6c, 0x78, 0x6c, 0x66, 0xe6, 0x00, 0x00, 0xf0, 0x60, 0x60, 0x60, 0x62, 0x66, 0xfe, 0x00,
    0x00
  ]"

definition psf_font_05 :: "u8 list" where
  "psf_font_05 = [
    0xc6, 0xee, 0xfe, 0xfe, 0xd6, 0xc6, 0xc6, 0x00, 0x00, 0xc6, 0xe6, 0xf6, 0xde, 0xce, 0xc6, 0xc6,
    0x00, 0x00, 0x38, 0x6c, 0xc6, 0xc6, 0xc6, 0x6c, 0x38, 0x00, 0x00, 0xfc, 0x66, 0x66, 0x7c, 0x60,
    0x60, 0xf0, 0x00, 0x00, 0x78, 0xcc, 0xcc, 0xcc, 0xdc, 0x78, 0x1c, 0x00, 0x00, 0xfc, 0x66, 0x66,
    0x7c, 0x6c, 0x66, 0xe6, 0x00, 0x00, 0x78, 0xcc, 0xe0, 0x70, 0x1c, 0xcc, 0x78, 0x00, 0x00, 0xfc,
    0xb4, 0x30, 0x30, 0x30, 0x30, 0x78, 0x00, 0x00, 0xcc, 0xcc, 0xcc, 0xcc, 0xcc, 0xcc, 0xfc, 0x00,
    0x00, 0xcc, 0xcc, 0xcc, 0xcc, 0xcc, 0x78, 0x30, 0x00, 0x00, 0xc6, 0xc6, 0xc6, 0xd6, 0xfe, 0xee,
    0xc6, 0x00, 0x00, 0xc6, 0xc6, 0x6c, 0x38, 0x38, 0x6c, 0xc6, 0x00, 0x00, 0xcc, 0xcc, 0xcc, 0x78,
    0x30, 0x30, 0x78, 0x00, 0x00, 0xfe, 0xc6, 0x8c, 0x18, 0x32, 0x66, 0xfe, 0x00, 0x00, 0x78, 0x60,
    0x60, 0x60, 0x60, 0x60, 0x78, 0x00, 0x00, 0xc0, 0x60, 0x30, 0x18, 0x0c, 0x06, 0x02, 0x00, 0x00,
    0x78
  ]"

definition psf_font_06 :: "u8 list" where
  "psf_font_06 = [
    0x18, 0x18, 0x18, 0x18, 0x18, 0x78, 0x00, 0x00, 0x10, 0x38, 0x6c, 0xc6, 0x00, 0x00, 0x00, 0x00,
    0x00, 0x00, 0x00, 0x00, 0x00, 0x00, 0x00, 0x00, 0xff, 0x00, 0x30, 0x30, 0x18, 0x00, 0x00, 0x00,
    0x00, 0x00, 0x00, 0x00, 0x00, 0x78, 0x0c, 0x7c, 0xcc, 0x76, 0x00, 0x00, 0xe0, 0x60, 0x60, 0x7c,
    0x66, 0x66, 0xdc, 0x00, 0x00, 0x00, 0x00, 0x78, 0xcc, 0xc0, 0xcc, 0x78, 0x00, 0x00, 0x1c, 0x0c,
    0x0c, 0x7c, 0xcc, 0xcc, 0x76, 0x00, 0x00, 0x00, 0x00, 0x78, 0xcc, 0xfc, 0xc0, 0x78, 0x00, 0x00,
    0x38, 0x6c, 0x60, 0xf0, 0x60, 0x60, 0xf0, 0x00, 0x00, 0x00, 0x00, 0x76, 0xcc, 0xcc, 0x7c, 0x0c,
    0xf8, 0x00, 0xe0, 0x60, 0x6c, 0x76, 0x66, 0x66, 0xe6, 0x00, 0x00, 0x30, 0x00, 0x70, 0x30, 0x30,
    0x30, 0x78, 0x00, 0x00, 0x0c, 0x00, 0x0c, 0x0c, 0x0c, 0xcc, 0xcc, 0x78, 0x00, 0xe0, 0x60, 0x66,
    0x6c, 0x78, 0x6c, 0xe6, 0x00, 0x00, 0x70, 0x30, 0x30, 0x30, 0x30, 0x30, 0x78, 0x00, 0x00, 0x00,
    0x00
  ]"

definition psf_font_07 :: "u8 list" where
  "psf_font_07 = [
    0xcc, 0xfe, 0xfe, 0xd6, 0xc6, 0x00, 0x00, 0x00, 0x00, 0xf8, 0xcc, 0xcc, 0xcc, 0xcc, 0x00, 0x00,
    0x00, 0x00, 0x78, 0xcc, 0xcc, 0xcc, 0x78, 0x00, 0x00, 0x00, 0x00, 0xdc, 0x66, 0x66, 0x7c, 0x60,
    0xf0, 0x00, 0x00, 0x00, 0x76, 0xcc, 0xcc, 0x7c, 0x0c, 0x1e, 0x00, 0x00, 0x00, 0xdc, 0x76, 0x66,
    0x60, 0xf0, 0x00, 0x00, 0x00, 0x00, 0x7c, 0xc0, 0x78, 0x0c, 0xf8, 0x00, 0x00, 0x10, 0x30, 0x7c,
    0x30, 0x30, 0x34, 0x18, 0x00, 0x00, 0x00, 0x00, 0xcc, 0xcc, 0xcc, 0xcc, 0x76, 0x00, 0x00, 0x00,
    0x00, 0xcc, 0xcc, 0xcc, 0x78, 0x30, 0x00, 0x00, 0x00, 0x00, 0xc6, 0xd6, 0xfe, 0xfe, 0x6c, 0x00,
    0x00, 0x00, 0x00, 0xc6, 0x6c, 0x38, 0x6c, 0xc6, 0x00, 0x00, 0x00, 0x00, 0xcc, 0xcc, 0xcc, 0x7c,
    0x0c, 0xf8, 0x00, 0x00, 0x00, 0xfc, 0x98, 0x30, 0x64, 0xfc, 0x00, 0x00, 0x1c, 0x30, 0x30, 0xe0,
    0x30, 0x30, 0x1c, 0x00, 0x00, 0x18, 0x18, 0x18, 0x00, 0x18, 0x18, 0x18, 0x00, 0x00, 0xe0, 0x30,
    0x30
  ]"

definition psf_font_08 :: "u8 list" where
  "psf_font_08 = [
    0x1c, 0x30, 0x30, 0xe0, 0x00, 0x00, 0x76, 0xdc, 0x00, 0x00, 0x00, 0x00, 0x00, 0x00, 0x00, 0x00,
    0x10, 0x38, 0x6c, 0xc6, 0xc6, 0xfe, 0x00, 0x00, 0x78, 0xcc, 0xc0, 0xcc, 0x78, 0x18, 0x0c, 0x78,
    0x00, 0x00, 0xcc, 0x00, 0xcc, 0xcc, 0xcc, 0x7e, 0x00, 0x00, 0x1c, 0x00, 0x78, 0xcc, 0xfc, 0xc0,
    0x78, 0x00, 0x00, 0x7e, 0xc3, 0x3c, 0x06, 0x3e, 0x66, 0x3f, 0x00, 0x00, 0xcc, 0x00, 0x78, 0x0c,
    0x7c, 0xcc, 0x7e, 0x00, 0x00, 0xe0, 0x00, 0x78, 0x0c, 0x7c, 0xcc, 0x7e, 0x00, 0x00, 0x30, 0x30,
    0x78, 0x0c, 0x7c, 0xcc, 0x7e, 0x00, 0x00, 0x00, 0x00, 0x78, 0xc0, 0xc0, 0x78, 0x0c, 0x38, 0x00,
    0x7e, 0xc3, 0x3c, 0x66, 0x7e, 0x60, 0x3c, 0x00, 0x00, 0xcc, 0x00, 0x78, 0xcc, 0xfc, 0xc0, 0x78,
    0x00, 0x00, 0xe0, 0x00, 0x78, 0xcc, 0xfc, 0xc0, 0x78, 0x00, 0x00, 0xcc, 0x00, 0x70, 0x30, 0x30,
    0x30, 0x78, 0x00, 0x00, 0x7c, 0xc6, 0x38, 0x18, 0x18, 0x18, 0x3c, 0x00, 0x00, 0xe0, 0x00, 0x70,
    0x30
  ]"

definition psf_font_09 :: "u8 list" where
  "psf_font_09 = [
    0x30, 0x30, 0x78, 0x00, 0x00, 0xc6, 0x38, 0x6c, 0xc6, 0xfe, 0xc6, 0xc6, 0x00, 0x00, 0x30, 0x30,
    0x00, 0x78, 0xcc, 0xfc, 0xcc, 0x00, 0x00, 0x1c, 0x00, 0xfc, 0x60, 0x78, 0x60, 0xfc, 0x00, 0x00,
    0x00, 0x00, 0x7f, 0x0c, 0x7f, 0xcc, 0x7f, 0x00, 0x00, 0x3e, 0x6c, 0xcc, 0xfe, 0xcc, 0xcc, 0xce,
    0x00, 0x00, 0x78, 0xcc, 0x00, 0x78, 0xcc, 0xcc, 0x78, 0x00, 0x00, 0x00, 0xcc, 0x00, 0x78, 0xcc,
    0xcc, 0x78, 0x00, 0x00, 0x00, 0xe0, 0x00, 0x78, 0xcc, 0xcc, 0x78, 0x00, 0x00, 0x78, 0xcc, 0x00,
    0xcc, 0xcc, 0xcc, 0x7e, 0x00, 0x00, 0x00, 0xe0, 0x00, 0xcc, 0xcc, 0xcc, 0x7e, 0x00, 0x00, 0x00,
    0xcc, 0x00, 0xcc, 0xcc, 0x7c, 0x0c, 0xf8, 0x00, 0xc3, 0x18, 0x3c, 0x66, 0x66, 0x3c, 0x18, 0x00,
    0x00, 0xcc, 0x00, 0xcc, 0xcc, 0xcc, 0xcc, 0x78, 0x00, 0x00, 0x18, 0x18, 0x7e, 0xc0, 0xc0, 0x7e,
    0x18, 0x18, 0x00, 0x38, 0x6c, 0x64, 0xf0, 0x60, 0xe6, 0xfc, 0x00, 0x00, 0xcc, 0xcc, 0x78, 0xfc,
    0x30
  ]"

definition psf_font_10 :: "u8 list" where
  "psf_font_10 = [
    0xfc, 0x30, 0x30, 0x00, 0xf8, 0xcc, 0xcc, 0xfa, 0xc6, 0xcf, 0xc6, 0xc7, 0x00, 0x0e, 0x1b, 0x18,
    0x3c, 0x18, 0x18, 0xd8, 0x70, 0x00, 0x1c, 0x00, 0x78, 0x0c, 0x7c, 0xcc, 0x7e, 0x00, 0x00, 0x38,
    0x00, 0x70, 0x30, 0x30, 0x30, 0x78, 0x00, 0x00, 0x00, 0x1c, 0x00, 0x78, 0xcc, 0xcc, 0x78, 0x00,
    0x00, 0x00, 0x1c, 0x00, 0xcc, 0xcc, 0xcc, 0x7e, 0x00, 0x00, 0x00, 0xf8, 0x00, 0xf8, 0xcc, 0xcc,
    0xcc, 0x00, 0x00, 0xfc, 0x00, 0xcc, 0xec, 0xfc, 0xdc, 0xcc, 0x00, 0x00, 0x3c, 0x6c, 0x6c, 0x3e,
    0x00, 0x7e, 0x00, 0x00, 0x00, 0x38, 0x6c, 0x6c, 0x38, 0x00, 0x7c, 0x00, 0x00, 0x00, 0x30, 0x00,
    0x30, 0x60, 0xc0, 0xcc, 0x78, 0x00, 0x00, 0x00, 0x00, 0x00, 0xfc, 0xc0, 0xc0, 0x00, 0x00, 0x00,
    0x00, 0x00, 0x00, 0xfc, 0x0c, 0x0c, 0x00, 0x00, 0x00, 0xc3, 0xc6, 0xcc, 0xde, 0x33, 0x66, 0xcc,
    0x0f, 0x00, 0xc3, 0xc6, 0xcc, 0xdb, 0x37, 0x6f, 0xcf, 0x03, 0x00, 0x18, 0x18, 0x00, 0x18, 0x18,
    0x18
  ]"

definition psf_font_11 :: "u8 list" where
  "psf_font_11 = [
    0x18, 0x00, 0x00, 0x00, 0x33, 0x66, 0xcc, 0x66, 0x33, 0x00, 0x00, 0x00, 0x00, 0xcc, 0x66, 0x33,
    0x66, 0xcc, 0x00, 0x00, 0x00, 0x22, 0x88, 0x22, 0x88, 0x22, 0x88, 0x22, 0x88, 0x88, 0x55, 0xaa,
    0x55, 0xaa, 0x55, 0xaa, 0x55, 0xaa, 0xaa, 0xdb, 0x77, 0xdb, 0xee, 0xdb, 0x77, 0xdb, 0xee, 0xee,
    0x18, 0x18, 0x18, 0x18, 0x18, 0x18, 0x18, 0x18, 0x18, 0x18, 0x18, 0x18, 0x18, 0xf8, 0x18, 0x18,
    0x18, 0x18, 0x18, 0x18, 0xf8, 0x18, 0xf8, 0x18, 0x18, 0x18, 0x18, 0x36, 0x36, 0x36, 0x36, 0xf6,
    0x36, 0x36, 0x36, 0x36, 0x00, 0x00, 0x00, 0x00, 0xfe, 0x36, 0x36, 0x36, 0x36, 0x00, 0x00, 0xf8,
    0x18, 0xf8, 0x18, 0x18, 0x18, 0x18, 0x36, 0x36, 0xf6, 0x06, 0xf6, 0x36, 0x36, 0x36, 0x36, 0x36,
    0x36, 0x36, 0x36, 0x36, 0x36, 0x36, 0x36, 0x36, 0x00, 0x00, 0xfe, 0x06, 0xf6, 0x36, 0x36, 0x36,
    0x36, 0x36, 0x36, 0xf6, 0x06, 0xfe, 0x00, 0x00, 0x00, 0x00, 0x36, 0x36, 0x36, 0x36, 0xfe, 0x00,
    0x00
  ]"

definition psf_font_12 :: "u8 list" where
  "psf_font_12 = [
    0x00, 0x00, 0x18, 0x18, 0xf8, 0x18, 0xf8, 0x00, 0x00, 0x00, 0x00, 0x00, 0x00, 0x00, 0x00, 0xf8,
    0x18, 0x18, 0x18, 0x18, 0x18, 0x18, 0x18, 0x18, 0x1f, 0x00, 0x00, 0x00, 0x00, 0x18, 0x18, 0x18,
    0x18, 0xff, 0x00, 0x00, 0x00, 0x00, 0x00, 0x00, 0x00, 0x00, 0xff, 0x18, 0x18, 0x18, 0x18, 0x18,
    0x18, 0x18, 0x18, 0x1f, 0x18, 0x18, 0x18, 0x18, 0x00, 0x00, 0x00, 0x00, 0xff, 0x00, 0x00, 0x00,
    0x00, 0x18, 0x18, 0x18, 0x18, 0xff, 0x18, 0x18, 0x18, 0x18, 0x18, 0x18, 0x1f, 0x18, 0x1f, 0x18,
    0x18, 0x18, 0x18, 0x36, 0x36, 0x36, 0x36, 0x37, 0x36, 0x36, 0x36, 0x36, 0x36, 0x36, 0x37, 0x30,
    0x3f, 0x00, 0x00, 0x00, 0x00, 0x00, 0x00, 0x3f, 0x30, 0x37, 0x36, 0x36, 0x36, 0x36, 0x36, 0x36,
    0xf7, 0x00, 0xff, 0x00, 0x00, 0x00, 0x00, 0x00, 0x00, 0xff, 0x00, 0xf7, 0x36, 0x36, 0x36, 0x36,
    0x36, 0x36, 0x37, 0x30, 0x37, 0x36, 0x36, 0x36, 0x36, 0x00, 0x00, 0xff, 0x00, 0xff, 0x00, 0x00,
    0x00
  ]"

definition psf_font_13 :: "u8 list" where
  "psf_font_13 = [
    0x00, 0x36, 0x36, 0xf7, 0x00, 0xf7, 0x36, 0x36, 0x36, 0x36, 0x18, 0x18, 0xff, 0x00, 0xff, 0x00,
    0x00, 0x00, 0x00, 0x36, 0x36, 0x36, 0x36, 0xff, 0x00, 0x00, 0x00, 0x00, 0x00, 0x00, 0xff, 0x00,
    0xff, 0x18, 0x18, 0x18, 0x18, 0x00, 0x00, 0x00, 0x00, 0xff, 0x36, 0x36, 0x36, 0x36, 0x36, 0x36,
    0x36, 0x36, 0x3f, 0x00, 0x00, 0x00, 0x00, 0x18, 0x18, 0x1f, 0x18, 0x1f, 0x00, 0x00, 0x00, 0x00,
    0x00, 0x00, 0x1f, 0x18, 0x1f, 0x18, 0x18, 0x18, 0x18, 0x00, 0x00, 0x00, 0x00, 0x3f, 0x36, 0x36,
    0x36, 0x36, 0x36, 0x36, 0x36, 0x36, 0xff, 0x36, 0x36, 0x36, 0x36, 0x18, 0x18, 0xff, 0x18, 0xff,
    0x18, 0x18, 0x18, 0x18, 0x18, 0x18, 0x18, 0x18, 0xf8, 0x00, 0x00, 0x00, 0x00, 0x00, 0x00, 0x00,
    0x00, 0x1f, 0x18, 0x18, 0x18, 0x18, 0xff, 0xff, 0xff, 0xff, 0xff, 0xff, 0xff, 0xff, 0xff, 0x00,
    0x00, 0x00, 0x00, 0xff, 0xff, 0xff, 0xff, 0xff, 0xf0, 0xf0, 0xf0, 0xf0, 0xf0, 0xf0, 0xf0, 0xf0,
    0xf0
  ]"

definition psf_font_14 :: "u8 list" where
  "psf_font_14 = [
    0x0f, 0x0f, 0x0f, 0x0f, 0x0f, 0x0f, 0x0f, 0x0f, 0x0f, 0xff, 0xff, 0xff, 0xff, 0x00, 0x00, 0x00,
    0x00, 0x00, 0x00, 0x00, 0x76, 0xdc, 0xc8, 0xdc, 0x76, 0x00, 0x00, 0x78, 0xcc, 0xcc, 0xd8, 0xc6,
    0xc6, 0xcc, 0x00, 0x00, 0xfc, 0xcc, 0xc0, 0xc0, 0xc0, 0xc0, 0xc0, 0x00, 0x00, 0x00, 0xfe, 0x6c,
    0x6c, 0x6c, 0x6c, 0x6c, 0x00, 0x00, 0xfc, 0xcc, 0x60, 0x30, 0x60, 0xcc, 0xfc, 0x00, 0x00, 0x00,
    0x00, 0x7e, 0xd8, 0xd8, 0xd8, 0x70, 0x00, 0x00, 0x00, 0x66, 0x66, 0x66, 0x66, 0x7c, 0x60, 0xc0,
    0x00, 0x00, 0x76, 0xdc, 0x18, 0x18, 0x18, 0x18, 0x00, 0x00, 0xfc, 0x30, 0x78, 0xcc, 0xcc, 0x78,
    0x30, 0xfc, 0x00, 0x38, 0x6c, 0xc6, 0xfe, 0xc6, 0x6c, 0x38, 0x00, 0x00, 0x38, 0x6c, 0xc6, 0xc6,
    0x6c, 0x6c, 0xee, 0x00, 0x00, 0x1c, 0x30, 0x18, 0x7c, 0xcc, 0xcc, 0x78, 0x00, 0x00, 0x00, 0x00,
    0x7e, 0xdb, 0xdb, 0x7e, 0x00, 0x00, 0x00, 0x06, 0x0c, 0x7e, 0xdb, 0xdb, 0x7e, 0x60, 0xc0, 0x00,
    0x38
  ]"

definition psf_font_15 :: "u8 list" where
  "psf_font_15 = [
    0x60, 0xc0, 0xf8, 0xc0, 0x60, 0x38, 0x00, 0x00, 0x78, 0xcc, 0xcc, 0xcc, 0xcc, 0xcc, 0xcc, 0x00,
    0x00, 0x00, 0xfc, 0x00, 0xfc, 0x00, 0xfc, 0x00, 0x00, 0x00, 0x30, 0x30, 0xfc, 0x30, 0x30, 0x00,
    0xfc, 0x00, 0x00, 0x60, 0x30, 0x18, 0x30, 0x60, 0x00, 0xfc, 0x00, 0x00, 0x18, 0x30, 0x60, 0x30,
    0x18, 0x00, 0xfc, 0x00, 0x00, 0x0e, 0x1b, 0x1b, 0x18, 0x18, 0x18, 0x18, 0x18, 0x00, 0x18, 0x18,
    0x18, 0x18, 0x18, 0xd8, 0xd8, 0x70, 0x00, 0x30, 0x30, 0x00, 0xfc, 0x00, 0x30, 0x30, 0x00, 0x00,
    0x00, 0x76, 0xdc, 0x00, 0x76, 0xdc, 0x00, 0x00, 0x00, 0x38, 0x6c, 0x6c, 0x38, 0x00, 0x00, 0x00,
    0x00, 0x00, 0x00, 0x00, 0x00, 0x18, 0x18, 0x00, 0x00, 0x00, 0x00, 0x00, 0x00, 0x00, 0x00, 0x18,
    0x00, 0x00, 0x00, 0x00, 0x0f, 0x0c, 0x0c, 0x0c, 0xec, 0x6c, 0x3c, 0x1c, 0x00, 0x78, 0x6c, 0x6c,
    0x6c, 0x6c, 0x00, 0x00, 0x00, 0x00, 0x70, 0x18, 0x30, 0x60, 0x78, 0x00, 0x00, 0x00, 0x00, 0x00,
    0x00
  ]"

definition psf_font_16 :: "u8 list" where
  "psf_font_16 = [
    0x3c, 0x3c, 0x3c, 0x3c, 0x00, 0x00, 0x00, 0x00, 0x00, 0x00, 0x00, 0x00, 0x00, 0x00, 0x00, 0x00,
    0xe2, 0x80, 0x88, 0xff, 0xe2, 0x98, 0xba, 0xff, 0xe2, 0x98, 0xbb, 0xff, 0xe2, 0x99, 0xa5, 0xff,
    0xe2, 0x99, 0xa6, 0xff, 0xe2, 0x99, 0xa3, 0xff, 0xe2, 0x99, 0xa0, 0xff, 0xe2, 0x80, 0xa2, 0xff,
    0xe2, 0x97, 0x98, 0xff, 0xe2, 0x97, 0x8b, 0xff, 0xe2, 0x97, 0x99, 0xff, 0xe2, 0x99, 0x82, 0xff,
    0xe2, 0x99, 0x80, 0xff, 0xe2, 0x99, 0xaa, 0xff, 0xe2, 0x99, 0xab, 0xe2, 0x99, 0xac, 0xff, 0xe2,
    0x98, 0xbc, 0xff, 0xe2, 0x96, 0xb6, 0xe2, 0x96, 0xba, 0xff, 0xe2, 0x97, 0x80, 0xe2, 0x97, 0x84,
    0xff, 0xe2, 0x86, 0x95, 0xff, 0xe2, 0x80, 0xbc, 0xff, 0xc2, 0xb6, 0xff, 0xc2, 0xa7, 0xff, 0xe2,
    0x96, 0xac, 0xff, 0xe2, 0x86, 0xa8, 0xff, 0xe2, 0x86, 0x91, 0xff, 0xe2, 0x86, 0x93, 0xff, 0xe2,
    0x86, 0x92, 0xff, 0xe2, 0x86, 0x90, 0xff, 0xe2, 0x88, 0x9f, 0xe2, 0x8c, 0x99, 0xff, 0xe2, 0x86,
    0x94
  ]"

definition psf_font_17 :: "u8 list" where
  "psf_font_17 = [
    0xff, 0xe2, 0x96, 0xb2, 0xff, 0xe2, 0x96, 0xbc, 0xff, 0x20, 0xc2, 0xa0, 0xe2, 0x80, 0x80, 0xe2,
    0x80, 0x81, 0xe2, 0x80, 0x82, 0xe2, 0x80, 0x83, 0xe2, 0x80, 0x84, 0xe2, 0x80, 0x85, 0xe2, 0x80,
    0x86, 0xe2, 0x80, 0x87, 0xe2, 0x80, 0x88, 0xe2, 0x80, 0x89, 0xe2, 0x80, 0x8a, 0xe2, 0x80, 0xaf,
    0xff, 0x21, 0xff, 0x22, 0xff, 0x23, 0xff, 0x24, 0xff, 0x25, 0xff, 0x26, 0xff, 0x27, 0xff, 0x28,
    0xff, 0x29, 0xff, 0x2a, 0xff, 0x2b, 0xff, 0x2c, 0xff, 0x2d, 0xff, 0x2e, 0xff, 0x2f, 0xff, 0x30,
    0xff, 0x31, 0xff, 0x32, 0xff, 0x33, 0xff, 0x34, 0xff, 0x35, 0xff, 0x36, 0xff, 0x37, 0xff, 0x38,
    0xff, 0x39, 0xff, 0x3a, 0xff, 0x3b, 0xff, 0x3c, 0xff, 0x3d, 0xff, 0x3e, 0xff, 0x3f, 0xff, 0x40,
    0xff, 0x41, 0xff, 0x42, 0xff, 0x43, 0xff, 0x44, 0xff, 0x45, 0xff, 0x46, 0xff, 0x47, 0xff, 0x48,
    0xff, 0x49, 0xff, 0x4a, 0xff, 0x4b, 0xff, 0x4c, 0xff, 0x4d, 0xff, 0x4e, 0xff, 0x4f, 0xff, 0x50,
    0xff
  ]"

definition psf_font_18 :: "u8 list" where
  "psf_font_18 = [
    0x51, 0xff, 0x52, 0xff, 0x53, 0xff, 0x54, 0xff, 0x55, 0xff, 0x56, 0xff, 0x57, 0xff, 0x58, 0xff,
    0x59, 0xff, 0x5a, 0xff, 0x5b, 0xff, 0x5c, 0xff, 0x5d, 0xff, 0x5e, 0xff, 0x5f, 0xff, 0x60, 0xff,
    0x61, 0xff, 0x62, 0xff, 0x63, 0xff, 0x64, 0xff, 0x65, 0xff, 0x66, 0xff, 0x67, 0xff, 0x68, 0xff,
    0x69, 0xff, 0x6a, 0xff, 0x6b, 0xff, 0x6c, 0xff, 0x6d, 0xff, 0x6e, 0xff, 0x6f, 0xff, 0x70, 0xff,
    0x71, 0xff, 0x72, 0xff, 0x73, 0xff, 0x74, 0xff, 0x75, 0xff, 0x76, 0xff, 0x77, 0xff, 0x78, 0xff,
    0x79, 0xff, 0x7a, 0xff, 0x7b, 0xff, 0x7c, 0xff, 0x7d, 0xff, 0x7e, 0xff, 0xe2, 0x8c, 0x82, 0xff,
    0xc3, 0x87, 0xff, 0xc3, 0xbc, 0xff, 0xc3, 0xa9, 0xff, 0xc3, 0xa2, 0xff, 0xc3, 0xa4, 0xff, 0xc3,
    0xa0, 0xff, 0xc3, 0xa5, 0xff, 0xc3, 0xa7, 0xff, 0xc3, 0xaa, 0xff, 0xc3, 0xab, 0xff, 0xc3, 0xa8,
    0xff, 0xc3, 0xaf, 0xff, 0xc3, 0xae, 0xff, 0xc3, 0xac, 0xff, 0xc3, 0x84, 0xff, 0xc3, 0x85, 0xe2,
    0x84
  ]"

definition psf_font_19 :: "u8 list" where
  "psf_font_19 = [
    0xab, 0xff, 0xc3, 0x89, 0xff, 0xc3, 0xa6, 0xff, 0xc3, 0x86, 0xff, 0xc3, 0xb4, 0xff, 0xc3, 0xb6,
    0xff, 0xc3, 0xb2, 0xff, 0xc3, 0xbb, 0xff, 0xc3, 0xb9, 0xff, 0xc3, 0xbf, 0xff, 0xc3, 0x96, 0xff,
    0xc3, 0x9c, 0xff, 0xc2, 0xa2, 0xff, 0xc2, 0xa3, 0xff, 0xc2, 0xa5, 0xff, 0xe2, 0x82, 0xa7, 0xff,
    0xc6, 0x92, 0xff, 0xc3, 0xa1, 0xff, 0xc3, 0xad, 0xff, 0xc3, 0xb3, 0xff, 0xc3, 0xba, 0xff, 0xc3,
    0xb1, 0xff, 0xc3, 0x91, 0xff, 0xc2, 0xaa, 0xff, 0xc2, 0xba, 0xff, 0xc2, 0xbf, 0xff, 0xe2, 0x8c,
    0x90, 0xff, 0xc2, 0xac, 0xff, 0xc2, 0xbd, 0xff, 0xc2, 0xbc, 0xff, 0xc2, 0xa1, 0xff, 0xc2, 0xab,
    0xff, 0xc2, 0xbb, 0xff, 0xe2, 0x96, 0x91, 0xff, 0xe2, 0x96, 0x92, 0xff, 0xe2, 0x96, 0x93, 0xff,
    0xe2, 0x94, 0x82, 0xff, 0xe2, 0x94, 0xa4, 0xff, 0xe2, 0x95, 0xa1, 0xff, 0xe2, 0x95, 0xa2, 0xff,
    0xe2, 0x95, 0x96, 0xff, 0xe2, 0x95, 0x95, 0xff, 0xe2, 0x95, 0xa3, 0xff, 0xe2, 0x95, 0x91, 0xff,
    0xe2
  ]"

definition psf_font_20 :: "u8 list" where
  "psf_font_20 = [
    0x95, 0x97, 0xff, 0xe2, 0x95, 0x9d, 0xff, 0xe2, 0x95, 0x9c, 0xff, 0xe2, 0x95, 0x9b, 0xff, 0xe2,
    0x94, 0x90, 0xff, 0xe2, 0x94, 0x94, 0xff, 0xe2, 0x94, 0xb4, 0xff, 0xe2, 0x94, 0xac, 0xff, 0xe2,
    0x94, 0x9c, 0xff, 0xe2, 0x94, 0x80, 0xff, 0xe2, 0x94, 0xbc, 0xff, 0xe2, 0x95, 0x9e, 0xff, 0xe2,
    0x95, 0x9f, 0xff, 0xe2, 0x95, 0x9a, 0xff, 0xe2, 0x95, 0x94, 0xff, 0xe2, 0x95, 0xa9, 0xff, 0xe2,
    0x95, 0xa6, 0xff, 0xe2, 0x95, 0xa0, 0xff, 0xe2, 0x95, 0x90, 0xff, 0xe2, 0x95, 0xac, 0xff, 0xe2,
    0x95, 0xa7, 0xff, 0xe2, 0x95, 0xa8, 0xff, 0xe2, 0x95, 0xa4, 0xff, 0xe2, 0x95, 0xa5, 0xff, 0xe2,
    0x95, 0x99, 0xff, 0xe2, 0x95, 0x98, 0xff, 0xe2, 0x95, 0x92, 0xff, 0xe2, 0x95, 0x93, 0xff, 0xe2,
    0x95, 0xab, 0xff, 0xe2, 0x95, 0xaa, 0xff, 0xe2, 0x94, 0x98, 0xff, 0xe2, 0x94, 0x8c, 0xff, 0xe2,
    0x96, 0x88, 0xff, 0xe2, 0x96, 0x84, 0xff, 0xe2, 0x96, 0x8c, 0xff, 0xe2, 0x96, 0x90, 0xff, 0xe2,
    0x96
  ]"

definition psf_font_21 :: "u8 list" where
  "psf_font_21 = [
    0x80, 0xff, 0xce, 0xb1, 0xff, 0xc3, 0x9f, 0xce, 0xb2, 0xff, 0xce, 0x93, 0xff, 0xcf, 0x80, 0xff,
    0xce, 0xa3, 0xff, 0xcf, 0x83, 0xff, 0xc2, 0xb5, 0xce, 0xbc, 0xff, 0xcf, 0x84, 0xff, 0xce, 0xa6,
    0xff, 0xce, 0x98, 0xff, 0xce, 0xa9, 0xe2, 0x84, 0xa6, 0xff, 0xce, 0xb4, 0xff, 0xe2, 0x88, 0x9e,
    0xff, 0xcf, 0x86, 0xe2, 0x88, 0x85, 0xe2, 0x8c, 0x80, 0xff, 0xce, 0xb5, 0xe2, 0x88, 0x88, 0xff,
    0xe2, 0x88, 0xa9, 0xff, 0xe2, 0x89, 0xa1, 0xff, 0xc2, 0xb1, 0xff, 0xe2, 0x89, 0xa5, 0xff, 0xe2,
    0x89, 0xa4, 0xff, 0xe2, 0x8c, 0xa0, 0xff, 0xe2, 0x8c, 0xa1, 0xff, 0xc3, 0xb7, 0xff, 0xe2, 0x89,
    0x88, 0xff, 0xc2, 0xb0, 0xff, 0xe2, 0x88, 0x99, 0xe2, 0x8b, 0x85, 0xff, 0xc2, 0xb7, 0xff, 0xe2,
    0x88, 0x9a, 0xff, 0xe2, 0x81, 0xbf, 0xff, 0xc2, 0xb2, 0xff, 0xe2, 0x88, 0x8e, 0xe2, 0x96, 0xa0,
    0xff, 0xc2, 0xa0, 0xff
  ]"

lemmas psf_font_blocks =
  psf_font_00_def psf_font_01_def psf_font_02_def psf_font_03_def psf_font_04_def psf_font_05_def psf_font_06_def psf_font_07_def psf_font_08_def psf_font_09_def psf_font_10_def psf_font_11_def psf_font_12_def psf_font_13_def psf_font_14_def psf_font_15_def psf_font_16_def psf_font_17_def psf_font_18_def psf_font_19_def psf_font_20_def psf_font_21_def

definition resource_default_psf_font :: "u8 list" where
  "resource_default_psf_font = concat [psf_font_00, psf_font_01, psf_font_02, psf_font_03, psf_font_04, psf_font_05, psf_font_06, psf_font_07, psf_font_08, psf_font_09, psf_font_10, psf_font_11, psf_font_12, psf_font_13, psf_font_14, psf_font_15, psf_font_16, psf_font_17, psf_font_18, psf_font_19, psf_font_20, psf_font_21]"

lemma length_psf_font_00 [simp]: "length psf_font_00 = 145"
  by (simp add: psf_font_00_def)

lemma length_psf_font_01 [simp]: "length psf_font_01 = 145"
  by (simp add: psf_font_01_def)

lemma length_psf_font_02 [simp]: "length psf_font_02 = 145"
  by (simp add: psf_font_02_def)

lemma length_psf_font_03 [simp]: "length psf_font_03 = 145"
  by (simp add: psf_font_03_def)

lemma length_psf_font_04 [simp]: "length psf_font_04 = 145"
  by (simp add: psf_font_04_def)

lemma length_psf_font_05 [simp]: "length psf_font_05 = 145"
  by (simp add: psf_font_05_def)

lemma length_psf_font_06 [simp]: "length psf_font_06 = 145"
  by (simp add: psf_font_06_def)

lemma length_psf_font_07 [simp]: "length psf_font_07 = 145"
  by (simp add: psf_font_07_def)

lemma length_psf_font_08 [simp]: "length psf_font_08 = 145"
  by (simp add: psf_font_08_def)

lemma length_psf_font_09 [simp]: "length psf_font_09 = 145"
  by (simp add: psf_font_09_def)

lemma length_psf_font_10 [simp]: "length psf_font_10 = 145"
  by (simp add: psf_font_10_def)

lemma length_psf_font_11 [simp]: "length psf_font_11 = 145"
  by (simp add: psf_font_11_def)

lemma length_psf_font_12 [simp]: "length psf_font_12 = 145"
  by (simp add: psf_font_12_def)

lemma length_psf_font_13 [simp]: "length psf_font_13 = 145"
  by (simp add: psf_font_13_def)

lemma length_psf_font_14 [simp]: "length psf_font_14 = 145"
  by (simp add: psf_font_14_def)

lemma length_psf_font_15 [simp]: "length psf_font_15 = 145"
  by (simp add: psf_font_15_def)

lemma length_psf_font_16 [simp]: "length psf_font_16 = 145"
  by (simp add: psf_font_16_def)

lemma length_psf_font_17 [simp]: "length psf_font_17 = 145"
  by (simp add: psf_font_17_def)

lemma length_psf_font_18 [simp]: "length psf_font_18 = 145"
  by (simp add: psf_font_18_def)

lemma length_psf_font_19 [simp]: "length psf_font_19 = 145"
  by (simp add: psf_font_19_def)

lemma length_psf_font_20 [simp]: "length psf_font_20 = 145"
  by (simp add: psf_font_20_def)

lemma length_psf_font_21 [simp]: "length psf_font_21 = 132"
  by (simp add: psf_font_21_def)

lemma length_default_font [simp]: "length resource_default_psf_font = 3177"
  by (simp add: resource_default_psf_font_def)

end
