(* ===== verification/LibGfx.thy ===== *)
theory LibGfx
  imports DefaultFont
begin

text \<open>
  The drawing library of the user programs (\<^verbatim>\<open>userland/bsp/libgfx/libgfx.c\<close>, \<^verbatim>\<open>libgfx.h\<close>).  The frame
  buffer is the array of pixels that the display's pointer refers to; an access outside an array gives \<open>None\<close>.
  A value of the C type \<^verbatim>\<open>int\<close> is an \<open>int\<close>; in the filled rectangles, the lines and the text every sum is cut
  to 32 bits by \<open>c_int\<close>, as the machine does it.  (In the outlines and circles, where a signed overflow would have
  no defined result in C either, the sums are exact.)
\<close>

subsection \<open>Colours\<close>

definition COLOR :: "u32 \<Rightarrow> u32 \<Rightarrow> u32 \<Rightarrow> u32 \<Rightarrow> u32" where
  "COLOR a r g b = (push_bit 24 b OR push_bit 16 g OR push_bit 8 r OR a)"

definition GET_ALPHA :: "u32 \<Rightarrow> u32" where
  "GET_ALPHA color = color AND 0xff"

definition GET_RED :: "u32 \<Rightarrow> u32" where
  "GET_RED color = drop_bit 8 color AND 0xff"

definition GET_GREEN :: "u32 \<Rightarrow> u32" where
  "GET_GREEN color = drop_bit 16 color AND 0xff"

definition GET_BLUE :: "u32 \<Rightarrow> u32" where
  "GET_BLUE color = drop_bit 24 color AND 0xff"

definition get_opposite_color :: "u32 \<Rightarrow> u32" where
  "get_opposite_color color = (
     let a = GET_ALPHA color; r = GET_RED color; g = GET_GREEN color; b = GET_BLUE color;
         r = 255 - r; g = 255 - g; b = 255 - b
     in COLOR a r g b)"

subsection \<open>Displays and pixels\<close>

record Display =
  framebuffer :: "u32 list"
  width :: int
  height :: int

definition store_pixel :: "int \<Rightarrow> u32 \<Rightarrow> Display \<Rightarrow> Display option" where
  "store_pixel i color d =
     (if 0 \<le> i \<and> i < int (length (framebuffer d))
      then Some (d\<lparr>framebuffer := (framebuffer d)[nat i := color]\<rparr>) else None)"

definition set_pixel :: "int \<Rightarrow> int \<Rightarrow> u32 \<Rightarrow> Display \<Rightarrow> Display option" where
  "set_pixel x y color d =
     (if x \<ge> 0 \<and> x < width d \<and> y \<ge> 0 \<and> y < height d
      then store_pixel (y * width d + x) color d else Some d)"

text \<open>\<^verbatim>\<open>for (int i = lo; i < hi; i++)\<close>, with a body that may fail.\<close>

function for_range :: "int \<Rightarrow> int \<Rightarrow> (int \<Rightarrow> 's \<Rightarrow> 's option) \<Rightarrow> 's \<Rightarrow> 's option" where
  "for_range lo hi body s =
     (if lo < hi then do { s \<leftarrow> body lo s; for_range (lo + 1) hi body s } else Some s)"
  by pat_completeness auto
termination by (relation "measure (\<lambda>(lo, hi, _). nat (hi - lo))") auto

declare for_range.simps [simp del]

definition draw_filled_rect :: "int \<Rightarrow> int \<Rightarrow> int \<Rightarrow> int \<Rightarrow> u32 \<Rightarrow> Display \<Rightarrow> Display option" where
  "draw_filled_rect x y w h color d = (
     let x1 = max 0 (min x (c_int (x + w))); x2 = min (width d) (max x (c_int (x + w)));
         y1 = max 0 (min y (c_int (y + h))); y2 = min (height d) (max y (c_int (y + h)))
     in for_range y1 y2 (\<lambda>y d.
          let fb = y * width d + x1
          in for_range x1 x2 (\<lambda>x. store_pixel (fb + (x - x1)) color) d) d)"

definition draw_outlined_rect ::
  "int \<Rightarrow> int \<Rightarrow> int \<Rightarrow> int \<Rightarrow> int \<Rightarrow> u32 \<Rightarrow> Display \<Rightarrow> Display option" where
  "draw_outlined_rect x y w h thickness color d = (
     let x1 = max 0 (min x (x + w)); x2 = min (width d) (max x (x + w));
         y1 = max 0 (min y (y + h)); y2 = min (height d) (max y (y + h))
     in do {
       d \<leftarrow> for_range 0 thickness (\<lambda>i. for_range x1 x2 (\<lambda>x d. do {
              d \<leftarrow> set_pixel x (y1 + i) color d;
              set_pixel x (y2 - i) color d })) d;
       for_range 0 thickness (\<lambda>i. for_range y1 y2 (\<lambda>y d. do {
              d \<leftarrow> set_pixel (x1 + i) y color d;
              set_pixel (x2 - i) y color d })) d
     })"

text \<open>The eight pixels that one round of \<^verbatim>\<open>_draw_circle\<close> sets, in its order.\<close>

definition circle_points :: "int \<Rightarrow> int \<Rightarrow> int \<Rightarrow> int \<Rightarrow> (int \<times> int) list" where
  "circle_points x y cx cy =
     [(x + cx, y + cy), (x - cx, y + cy), (x + cx, y - cy), (x - cx, y - cy),
      (x + cy, y + cx), (x - cy, y + cx), (x + cy, y - cx), (x - cy, y - cx)]"

fun set_pixels :: "(int \<times> int) list \<Rightarrow> u32 \<Rightarrow> Display \<Rightarrow> Display option" where
  "set_pixels [] color d = Some d"
| "set_pixels ((x, y) # ps) color d = do { d \<leftarrow> set_pixel x y color d; set_pixels ps color d }"

function circle_loop ::
  "int \<Rightarrow> int \<Rightarrow> int \<Rightarrow> int \<Rightarrow> int \<Rightarrow> u32 \<Rightarrow> Display \<Rightarrow> Display option" where
  "circle_loop x y cx cy radius_error color d =
     (if cx \<ge> cy then do {
        d \<leftarrow> set_pixels (circle_points x y cx cy) color d;
        let cy = cy + 1;
        if radius_error < 0 then circle_loop x y cx cy (radius_error + (2 * cy + 1)) color d
        else circle_loop x y (cx - 1) cy (radius_error + 2 * (cy - (cx - 1) + 1)) color d
      } else Some d)"
  by pat_completeness auto
termination by (relation "measure (\<lambda>(_, _, cx, cy, _). nat (cx - cy + 1))") auto

declare circle_loop.simps [simp del]

definition draw_circle :: "int \<Rightarrow> int \<Rightarrow> int \<Rightarrow> u32 \<Rightarrow> Display \<Rightarrow> Display option" where
  "draw_circle x y radius color d = circle_loop x y radius 0 (1 - radius) color d"

text \<open>
  One round of \<^verbatim>\<open>_draw_line\<close> paints a square and moves on; the loop ends only when it stands on the end
  point.  \<^verbatim>\<open>thickness / 2\<close> rounds towards zero.
\<close>

definition draw_square :: "int \<Rightarrow> int \<Rightarrow> int \<Rightarrow> u32 \<Rightarrow> Display \<Rightarrow> Display option" where
  "draw_square x y half color =
     for_range (- half) (half + 1) (\<lambda>i. for_range (- half) (half + 1) (\<lambda>j. set_pixel (c_int (x + i)) (c_int (y + j)) color))"

partial_function (option) line_loop ::
  "int \<Rightarrow> int \<Rightarrow> int \<Rightarrow> int \<Rightarrow> int \<Rightarrow> int \<Rightarrow> int \<Rightarrow> int \<Rightarrow> int \<Rightarrow> int \<Rightarrow> u32 \<Rightarrow> Display \<Rightarrow> Display option" where
  "line_loop x2 y2 dx dy sx sy half x y err color d = do {
     d \<leftarrow> draw_square x y half color d;
     if x = x2 \<and> y = y2 then Some d
     else
       let e2 = c_int (2 * err);
           (err1, x') = (if e2 > c_int (- dy) then (c_int (err - dy), c_int (x + sx)) else (err, x));
           (err2, y') = (if e2 < dx then (c_int (err1 + dx), c_int (y + sy)) else (err1, y))
       in line_loop x2 y2 dx dy sx sy half x' y' err2 color d
   }"

definition draw_line :: "int \<Rightarrow> int \<Rightarrow> int \<Rightarrow> int \<Rightarrow> int \<Rightarrow> u32 \<Rightarrow> Display \<Rightarrow> Display option" where
  "draw_line x1 y1 x2 y2 thickness color d = (
     let dx = c_int \<bar>c_int (x2 - x1)\<bar>; dy = c_int \<bar>c_int (y2 - y1)\<bar>;
         sx = (if x1 < x2 then 1 else -1); sy = (if y1 < y2 then 1 else -1);
         half = (if thickness < 0 then - (- thickness div 2) else thickness div 2)
     in line_loop x2 y2 dx dy sx sy half x1 y1 (c_int (dx - dy)) color d)"

subsection \<open>Fonts\<close>

definition PSF_MAGIC :: u32 where
  "PSF_MAGIC = 0x864ab572"

record PSFHeader =
  magic :: u32
  version :: u32
  header_size :: u32
  has_unicode_table :: u32
  num_glyphs :: u32
  bytes_per_glyph :: u32
  glyph_height :: u32
  glyph_width :: u32

record Font = header :: PSFHeader
  font_data :: "u8 list"
  font_size :: nat
  hmargin :: u32
  vmargin :: u32

definition sizeof_PSFHeader :: nat where
  "sizeof_PSFHeader = 32"

definition le32 :: "u8 list \<Rightarrow> nat \<Rightarrow> u32" where
  "le32 bs i = ucast (bs ! i) OR push_bit 8 (ucast (bs ! (i + 1))) OR push_bit 16 (ucast (bs ! (i + 2)))
     OR push_bit 24 (ucast (bs ! (i + 3)))"

definition read_header :: "u8 list \<Rightarrow> PSFHeader" where
  "read_header data =
     \<lparr>magic = le32 data 0, version = le32 data 4, header_size = le32 data 8,
      has_unicode_table = le32 data 12, num_glyphs = le32 data 16, bytes_per_glyph = le32 data 20,
      glyph_height = le32 data 24, glyph_width = le32 data 28\<rparr>"

text \<open>
  The return code and the font; the header is overwritten before the magic number is checked.  The outer
  option is the \<^verbatim>\<open>memcpy\<close>, which reads outside the data when the data is shorter than the size given.
\<close>

definition load_psf_font :: "u8 list \<Rightarrow> nat \<Rightarrow> Font \<Rightarrow> (int \<times> Font) option" where
  "load_psf_font data size' font =
     (if size' < sizeof_PSFHeader then Some (-1, font)
      else if length data < sizeof_PSFHeader then None
      else
        let font = font\<lparr>header := read_header data\<rparr>
        in if magic (header font) \<noteq> PSF_MAGIC then Some (-1, font)
           else Some (0, font\<lparr>font_data := data, font_size := size', hmargin := 2, vmargin := 4\<rparr>))"

definition zero_font :: Font where
  "zero_font = \<lparr>header = \<lparr>magic = 0, version = 0, header_size = 0, has_unicode_table = 0, num_glyphs = 0,
     bytes_per_glyph = 0, glyph_height = 0, glyph_width = 0\<rparr>,
     font_data = [], font_size = 0, hmargin = 0, vmargin = 0\<rparr>"

definition get_default_font :: "Font \<Rightarrow> Font option" where
  "get_default_font g_default_font =
     (if magic (header g_default_font) \<noteq> PSF_MAGIC
      then map_option snd (load_psf_font resource_default_psf_font (length resource_default_psf_font) g_default_font)
      else Some g_default_font)"

text \<open>
  A character is an unsigned byte on ARM.  \<^verbatim>\<open>glyph_x\<close> and \<^verbatim>\<open>glyph_y\<close> are of the unsigned type \<^verbatim>\<open>size_t\<close>, and so are
  the sums with them, which are then passed as an \<^verbatim>\<open>int\<close>; likewise the advance in \<^verbatim>\<open>draw_text\<close> is an unsigned
  product that is added and stored in the \<^verbatim>\<open>int\<close> \<^verbatim>\<open>x\<close>.  All this keeps the low 32 bits.
\<close>

definition draw_glyph_row ::
  "u8 \<Rightarrow> int \<Rightarrow> int \<Rightarrow> int \<Rightarrow> int \<Rightarrow> u32 \<Rightarrow> Display \<Rightarrow> Display option" where
  "draw_glyph_row glyph_row x y glyph_y scale color =
     for_range 0 8 (\<lambda>glyph_x d.
       if bit glyph_row (nat (7 - glyph_x))
       then if scale = 1 then set_pixel (c_int (x + scale * glyph_x)) (c_int (y + scale * glyph_y)) color d
            else draw_filled_rect (c_int (x + scale * glyph_x)) (c_int (y + scale * glyph_y)) scale scale color d
       else Some d)"

definition draw_char :: "Font \<Rightarrow> u8 \<Rightarrow> int \<Rightarrow> int \<Rightarrow> int \<Rightarrow> u32 \<Rightarrow> Display \<Rightarrow> Display option" where
  "draw_char font c x y scale color d =
     (if ucast c \<ge> num_glyphs (header font) then Some d
      else if c < 0x20 \<or> c > 0x7e then Some d
      else
        let start_of_glyph = unat (of_nat sizeof_PSFHeader + bytes_per_glyph (header font) * ucast c :: u32)
        in for_range 0 (uint (glyph_height (header font))) (\<lambda>glyph_y d.
             let i = start_of_glyph + nat glyph_y
             in if i < length (font_data font)
                then draw_glyph_row (font_data font ! i) x y glyph_y scale color d else None) d)"

text \<open>The text is what precedes the terminating zero byte.\<close>

fun draw_text :: "Font \<Rightarrow> u8 list \<Rightarrow> int \<Rightarrow> int \<Rightarrow> int \<Rightarrow> u32 \<Rightarrow> Display \<Rightarrow> Display option" where
  "draw_text font [] x y scale color d = Some d"
| "draw_text font (c # text) x y scale color d =
     (if c \<noteq> 0 \<and> x < width d then do {
        d \<leftarrow> draw_char font c x y scale color d;
        draw_text font text (c_int (x + uint (glyph_width (header font) + hmargin font) * scale)) y scale color d
      } else Some d)"

subsection \<open>What a drawing operation paints\<close>

text \<open>
  \<open>paints c S d d'\<close>: the pixels of the display \<open>d\<close> that lie in \<open>S\<close> have the colour \<open>c\<close> in \<open>d'\<close>, all others
  are as in \<open>d\<close>.  Points of \<open>S\<close> outside the screen do not matter.
\<close>

definition display_ok :: "Display \<Rightarrow> bool" where
  "display_ok d \<longleftrightarrow> 0 \<le> width d \<and> 0 \<le> height d \<and>
     int (length (framebuffer d)) = width d * height d"

definition on_screen :: "Display \<Rightarrow> int \<Rightarrow> int \<Rightarrow> bool" where
  "on_screen d x y \<longleftrightarrow> 0 \<le> x \<and> x < width d \<and> 0 \<le> y \<and> y < height d"

definition pixel :: "Display \<Rightarrow> int \<Rightarrow> int \<Rightarrow> u32" where
  "pixel d x y = framebuffer d ! nat (y * width d + x)"

definition paints :: "u32 \<Rightarrow> (int \<times> int) set \<Rightarrow> Display \<Rightarrow> Display \<Rightarrow> bool" where
  "paints c S d d' \<longleftrightarrow> width d' = width d \<and> height d' = height d \<and>
     length (framebuffer d') = length (framebuffer d) \<and>
     (\<forall>x y. on_screen d x y \<longrightarrow> pixel d' x y = (if (x, y) \<in> S then c else pixel d x y))"

text \<open>The operation always ends and never writes outside the frame buffer.\<close>

definition paint_op :: "u32 \<Rightarrow> (int \<times> int) set \<Rightarrow> (Display \<Rightarrow> Display option) \<Rightarrow> Display \<Rightarrow> bool" where
  "paint_op c S f d \<longleftrightarrow> (\<exists>d'. f d = Some d' \<and> paints c S d d')"

lemma paints_ok: "paints c S d d' \<Longrightarrow> display_ok d \<Longrightarrow> display_ok d'"
  by (simp add: paints_def display_ok_def)

lemma paints_size: "paints c S d d' \<Longrightarrow> width d' = width d \<and> height d' = height d"
  by (simp add: paints_def)

lemma paints_refl: "paints c {} d d"
  by (simp add: paints_def)

lemma paints_trans: "paints c S d d' \<Longrightarrow> paints c T d' d'' \<Longrightarrow> paints c (S \<union> T) d d''"
  by (auto simp: paints_def on_screen_def)

lemma paints_cong:
  "paints c S d d' \<Longrightarrow> (\<And>x y. on_screen d x y \<Longrightarrow> (x, y) \<in> S \<longleftrightarrow> (x, y) \<in> T) \<Longrightarrow> paints c T d d'"
  by (simp add: paints_def)

lemma index_inj:
  fixes w :: int
  assumes "y * w + x = y' * w + x'" "0 \<le> x" "x < w" "0 \<le> x'" "x' < w"
  shows "x = x' \<and> y = y'"
proof -
  have "(y * w + x) div w = y" "(y' * w + x') div w = y'" using assms(2-) by simp_all
  then have "y = y'" using assms(1) by simp
  then show ?thesis using assms(1) by simp
qed

lemma index_range:
  assumes "on_screen d x y"
  shows "0 \<le> y * width d + x" and "y * width d + x < width d * height d"
proof -
  have "y * width d + x < (y + 1) * width d" using assms by (simp add: on_screen_def algebra_simps)
  also have "\<dots> \<le> height d * width d" using assms by (intro mult_right_mono) (auto simp: on_screen_def)
  finally show "y * width d + x < width d * height d" by (simp add: mult.commute)
qed (use assms in \<open>simp add: on_screen_def\<close>)

lemma store_pixel_paints:
  assumes "display_ok d" and "on_screen d x y"
  shows "paint_op c {(x, y)} (store_pixel (y * width d + x) c) d"
proof -
  let ?i = "\<lambda>x y. y * width d + x"
  have r: "0 \<le> ?i u v \<and> ?i u v < int (length (framebuffer d))" if "on_screen d u v" for u v
    using index_range [OF that] assms(1) by (simp add: display_ok_def)
  have ne: "nat (?i x y) \<noteq> nat (?i u v)" if "on_screen d u v" "(u, v) \<noteq> (x, y)" for u v
    using index_inj [of y "width d" x v u] r [OF that(1)] r [OF assms(2)] that assms(2)
    by (auto simp: on_screen_def eq_nat_nat_iff)
  have x: "nat (?i x y) < length (framebuffer d)" using r [OF assms(2)] by linarith
  then have "paints c {(x, y)} d (d\<lparr>framebuffer := (framebuffer d)[nat (?i x y) := c]\<rparr>)"
    using ne unfolding paints_def pixel_def by auto
  then show ?thesis using r [OF assms(2)] by (auto simp: paint_op_def store_pixel_def)
qed

lemma set_pixel_paints: "display_ok d \<Longrightarrow> paint_op c {(x, y)} (set_pixel x y c) d"
proof (cases "on_screen d x y")
  case True
  then show "display_ok d \<Longrightarrow> ?thesis"
    using store_pixel_paints [of d x y c] by (simp add: paint_op_def set_pixel_def on_screen_def)
next
  case False
  then have "paints c {(x, y)} d d" by (auto simp: paints_def)
  then show ?thesis using False by (auto simp: paint_op_def set_pixel_def on_screen_def)
qed

lemma paint_op_bind:
  assumes "paint_op c S f d" and "\<And>d'. paints c S d d' \<Longrightarrow> paint_op c T g d'"
  shows "paint_op c (S \<union> T) (\<lambda>d. Option.bind (f d) g) d"
proof -
  obtain d' where "f d = Some d'" "paints c S d d'" using assms(1) by (auto simp: paint_op_def)
  then show ?thesis using assms(2) [of d'] paints_trans by (auto simp: paint_op_def)
qed

lemma ivl_first: "lo < hi \<Longrightarrow> {lo..<hi} = insert lo {lo + 1..<hi}"
  for lo hi :: int
  by auto

lemma paint_op_for_range:
  assumes "display_ok d"
    and "\<And>i d'. lo \<le> i \<Longrightarrow> i < hi \<Longrightarrow> display_ok d' \<Longrightarrow> width d' = width d \<Longrightarrow> height d' = height d \<Longrightarrow>
      paint_op c (S i) (body i) d'"
  shows "paint_op c (\<Union>i\<in>{lo..<hi}. S i) (for_range lo hi body) d"
  using assms
proof (induction "nat (hi - lo)" arbitrary: lo d)
  case 0
  then show ?case by (subst for_range.simps) (auto simp: paint_op_def paints_refl for_range.simps)
next
  case (Suc n)
  then have lt: "lo < hi" by simp
  have "paint_op c (S lo \<union> (\<Union>i\<in>{lo + 1..<hi}. S i)) (\<lambda>d. Option.bind (body lo d) (for_range (lo + 1) hi body)) d"
  proof (rule paint_op_bind)
    show "paint_op c (S lo) (body lo) d" using Suc.prems lt by simp
    fix d' assume d': "paints c (S lo) d d'"
    show "paint_op c (\<Union>i\<in>{lo + 1..<hi}. S i) (for_range (lo + 1) hi body) d'"
      using Suc.hyps(2) paints_ok [OF d' Suc.prems(1)] paints_size [OF d'] Suc.prems(2)
      by (intro Suc.hyps(1)) auto
  qed
  moreover have "S lo \<union> (\<Union>i\<in>{lo + 1..<hi}. S i) = (\<Union>i\<in>{lo..<hi}. S i)"
    using ivl_first [OF lt] by auto
  ultimately show ?case using lt by (simp add: paint_op_def for_range.simps [of lo])
qed

lemma paint_op_cong:
  "paint_op c S f d \<Longrightarrow> (\<And>x y. on_screen d x y \<Longrightarrow> (x, y) \<in> S \<longleftrightarrow> (x, y) \<in> T) \<Longrightarrow> paint_op c T f d"
  using paints_cong by (auto simp: paint_op_def)

lemma paint_op_Some: "paint_op c {} Some d"
  by (simp add: paint_op_def paints_refl)

subsection \<open>Rectangles and circles\<close>

lemma fill_row_paints:
  assumes "display_ok d" and "0 \<le> x1" "x2 \<le> width d" and "0 \<le> y" "y < height d"
  shows "paint_op c ({x1..<x2} \<times> {y}) (for_range x1 x2 (\<lambda>x. store_pixel (y * width d + x1 + (x - x1)) c)) d"
proof -
  have "paint_op c (\<Union>x\<in>{x1..<x2}. {(x, y)}) (for_range x1 x2 (\<lambda>x. store_pixel (y * width d + x1 + (x - x1)) c)) d"
  proof (rule paint_op_for_range [OF assms(1)])
    fix x d'
    assume x: "x1 \<le> x" "x < x2" "display_ok d'" "width d' = width d" "height d' = height d"
    then have "on_screen d' x y" using assms(2-) by (simp add: on_screen_def)
    moreover have "y * width d + x1 + (x - x1) = y * width d' + x" unfolding x(4) by simp
    ultimately show "paint_op c {(x, y)} (store_pixel (y * width d + x1 + (x - x1)) c) d'"
      using store_pixel_paints [OF x(3), of x y c] by (simp only:)
  qed
  then show ?thesis by (rule paint_op_cong) auto
qed

definition rect :: "int \<Rightarrow> int \<Rightarrow> int \<Rightarrow> int \<Rightarrow> (int \<times> int) set" where
  "rect x y w h = {min x (c_int (x + w))..<max x (c_int (x + w))} \<times> {min y (c_int (y + h))..<max y (c_int (y + h))}"

lemma draw_filled_rect_paints:
  assumes "display_ok d"
  shows "paint_op c (rect x y w h) (draw_filled_rect x y w h c) d"
proof -
  let ?x1 = "max 0 (min x (c_int (x + w)))" and ?x2 = "min (width d) (max x (c_int (x + w)))"
  let ?y1 = "max 0 (min y (c_int (y + h)))" and ?y2 = "min (height d) (max y (c_int (y + h)))"
  have "paint_op c (\<Union>y\<in>{?y1..<?y2}. {?x1..<?x2} \<times> {y})
     (for_range ?y1 ?y2 (\<lambda>y d. for_range ?x1 ?x2 (\<lambda>x. store_pixel (y * width d + ?x1 + (x - ?x1)) c) d)) d"
  proof (rule paint_op_for_range [OF assms])
    fix v d'
    assume "?y1 \<le> v" "v < ?y2" "display_ok d'" "width d' = width d" "height d' = height d"
    then show "paint_op c ({?x1..<?x2} \<times> {v})
       (\<lambda>d. for_range ?x1 ?x2 (\<lambda>x. store_pixel (v * width d + ?x1 + (x - ?x1)) c) d) d'"
      using fill_row_paints [of d' ?x1 ?x2 v c] by (simp add: paint_op_def)
  qed
  then have "paint_op c (\<Union>y\<in>{?y1..<?y2}. {?x1..<?x2} \<times> {y}) (draw_filled_rect x y w h c) d"
    by (simp add: draw_filled_rect_def Let_def paint_op_def)
  then show ?thesis by (rule paint_op_cong) (auto simp: rect_def on_screen_def)
qed

text \<open>The two strokes that one round of the outline loops draws.\<close>

lemma two_pixels_paint:
  assumes "display_ok d"
  shows "paint_op c {(x, y), (u, v)} (\<lambda>d. do { d \<leftarrow> set_pixel x y c d; set_pixel u v c d }) d"
proof -
  have "paint_op c ({(x, y)} \<union> {(u, v)}) (\<lambda>d. Option.bind (set_pixel x y c d) (set_pixel u v c)) d"
    by (intro paint_op_bind set_pixel_paints assms) (rule paints_ok [OF _ assms])
  then show ?thesis by (rule paint_op_cong) auto
qed

definition outline :: "Display \<Rightarrow> int \<Rightarrow> int \<Rightarrow> int \<Rightarrow> int \<Rightarrow> int \<Rightarrow> (int \<times> int) set" where
  "outline d x y w h t = (
     let x1 = max 0 (min x (x + w)); x2 = min (width d) (max x (x + w));
         y1 = max 0 (min y (y + h)); y2 = min (height d) (max y (y + h))
     in {x1..<x2} \<times> ({y1..<y1 + t} \<union> {y2 - t<..y2}) \<union>
        ({x1..<x1 + t} \<union> {x2 - t<..x2}) \<times> {y1..<y2})"

lemma stroke_paints:
  assumes "display_ok d"
    and body: "\<And>i j d. display_ok d \<Longrightarrow> paint_op c (P i j) (body i j) d"
  shows "paint_op c (\<Union>i\<in>{a..<b}. \<Union>j\<in>{lo..<hi}. P i j)
    (for_range a b (\<lambda>i. for_range lo hi (body i))) d"
  by (rule paint_op_for_range [OF assms(1)], rule paint_op_for_range) (simp_all add: body)

lemma stroke_range:
  "(\<lambda>i. a + i) ` {0..<t} \<union> (\<lambda>i. b - i) ` {0..<t} = {a..<a + t} \<union> {b - t<..b}"
  for a b t :: int
proof -
  have "v \<in> (\<lambda>i. a + i) ` {0..<t}" if "a \<le> v" "v < a + t" for v
    using that by (intro image_eqI [of _ _ "v - a"]) auto
  moreover have "v \<in> (\<lambda>i. b - i) ` {0..<t}" if "b - t < v" "v \<le> b" for v
    using that by (intro image_eqI [of _ _ "b - v"]) auto
  ultimately show ?thesis by auto
qed

lemma strokes_image:
  "(\<Union>i\<in>I. \<Union>u\<in>U. {(u, f i), (u, g i)}) = U \<times> (f ` I \<union> g ` I)"
  "(\<Union>i\<in>I. \<Union>v\<in>U. {(f i, v), (g i, v)}) = (f ` I \<union> g ` I) \<times> U"
  by auto

lemma strokes_h:
  "(\<Union>i\<in>{0..<t}. \<Union>u\<in>U. {(u, a + i), (u, b - i)}) = U \<times> ({a..<a + t} \<union> {b - t<..b})"
  for a b t :: int
  unfolding stroke_range [symmetric] by (rule strokes_image)

lemma strokes_v:
  "(\<Union>i\<in>{0..<t}. \<Union>v\<in>V. {(a + i, v), (b - i, v)}) = ({a..<a + t} \<union> {b - t<..b}) \<times> V"
  for a b t :: int
  unfolding stroke_range [symmetric] by (rule strokes_image)

lemma draw_outlined_rect_paints:
  assumes "display_ok d"
  shows "paint_op c (outline d x y w h t) (draw_outlined_rect x y w h t c) d"
proof -
  let ?x1 = "max 0 (min x (x + w))" and ?x2 = "min (width d) (max x (x + w))"
  let ?y1 = "max 0 (min y (y + h))" and ?y2 = "min (height d) (max y (y + h))"
  let ?H = "\<Union>i\<in>{0..<t}. \<Union>u\<in>{?x1..<?x2}. {(u, ?y1 + i), (u, ?y2 - i)}"
  let ?V = "\<Union>i\<in>{0..<t}. \<Union>v\<in>{?y1..<?y2}. {(?x1 + i, v), (?x2 - i, v)}"
  let ?h = "for_range 0 t (\<lambda>i. for_range ?x1 ?x2 (\<lambda>x d. do {
      d \<leftarrow> set_pixel x (?y1 + i) c d; set_pixel x (?y2 - i) c d }))"
  let ?v = "for_range 0 t (\<lambda>i. for_range ?y1 ?y2 (\<lambda>y d. do {
      d \<leftarrow> set_pixel (?x1 + i) y c d; set_pixel (?x2 - i) y c d }))"
  have "paint_op c ?H ?h d"
    by (intro stroke_paints assms two_pixels_paint)
  moreover have "paint_op c ?V ?v d'" if "display_ok d'" for d'
    by (intro stroke_paints that two_pixels_paint)
  ultimately have "paint_op c (?H \<union> ?V) (\<lambda>d. Option.bind (?h d) ?v) d"
    using paints_ok [OF _ assms] by (intro paint_op_bind) blast+
  then have "paint_op c (?H \<union> ?V) (draw_outlined_rect x y w h t c) d"
    by (simp add: draw_outlined_rect_def Let_def paint_op_def)
  moreover have "?H \<union> ?V = outline d x y w h t"
    unfolding outline_def Let_def by (intro arg_cong2 [where f = "(\<union>)"] strokes_h strokes_v)
  ultimately show ?thesis by simp
qed

lemma set_pixels_paint: "display_ok d \<Longrightarrow> paint_op c (set ps) (set_pixels ps c) d"
proof (induction ps arbitrary: d)
  case Nil
  then show ?case by (simp add: paint_op_Some paint_op_def paints_refl)
next
  case (Cons p ps)
  obtain x y where p: "p = (x, y)" by force
  have "paint_op c ({(x, y)} \<union> set ps) (\<lambda>d. Option.bind (set_pixel x y c d) (set_pixels ps c)) d"
    using Cons paints_ok by (intro paint_op_bind set_pixel_paints) blast+
  then show ?case by (simp add: p paint_op_def)
qed

text \<open>The circle loop ends, and stays within the square of the given radius.\<close>

lemma circle_loop_paints:
  "display_ok d \<Longrightarrow> 0 \<le> cy \<Longrightarrow> cx \<le> r \<Longrightarrow>
   \<exists>S. paint_op c S (circle_loop x y cx cy e c) d \<and> S \<subseteq> {x - r..x + r} \<times> {y - r..y + r} \<and>
     (cx \<ge> cy \<longrightarrow> set (circle_points x y cx cy) \<subseteq> S)"
proof (induction "nat (cx - cy + 1)" arbitrary: cx cy e d rule: less_induct)
  case less
  show ?case
  proof (cases "cx \<ge> cy")
    case False
    then show ?thesis
      by (intro exI [of _ "{}"]) (simp add: paint_op_def paints_refl circle_loop.simps [of x y cx cy])
  next
    case True
    let ?cx = "if e < 0 then cx else cx - 1" and ?cy = "cy + 1"
    let ?e = "if e < 0 then e + (2 * ?cy + 1) else e + 2 * (?cy - (cx - 1) + 1)"
    obtain d' where d': "set_pixels (circle_points x y cx cy) c d = Some d'"
      "paints c (set (circle_points x y cx cy)) d d'"
      using set_pixels_paint [OF less.prems(1)] by (auto simp: paint_op_def)
    have "nat (?cx - ?cy + 1) < nat (cx - cy + 1)" "0 \<le> ?cy" "?cx \<le> r" using less.prems True by auto
    with less.hyps [of ?cx ?cy d' ?e] paints_ok [OF d'(2) less.prems(1)]
    obtain S where S: "paint_op c S (circle_loop x y ?cx ?cy ?e c) d'"
      "S \<subseteq> {x - r..x + r} \<times> {y - r..y + r}"
      by blast
    have "circle_loop x y cx cy e c d = circle_loop x y ?cx ?cy ?e c d'"
      using True d'(1) by (subst circle_loop.simps) (simp add: Let_def)
    then have "paint_op c (set (circle_points x y cx cy) \<union> S) (circle_loop x y cx cy e c) d"
      using S(1) paints_trans [OF d'(2)] by (auto simp: paint_op_def)
    moreover have "set (circle_points x y cx cy) \<subseteq> {x - r..x + r} \<times> {y - r..y + r}"
      using less.prems True by (auto simp: circle_points_def)
    ultimately show ?thesis using S(2) by blast
  qed
qed

subsection \<open>Lines\<close>

definition square :: "int \<Rightarrow> int \<Rightarrow> int \<Rightarrow> (int \<times> int) set" where
  "square x y half = {x - half..x + half} \<times> {y - half..y + half}"

lemma for_range_cong:
  "(\<And>i. lo \<le> i \<Longrightarrow> i < hi \<Longrightarrow> f i = g i) \<Longrightarrow> for_range lo hi f = for_range lo hi g"
proof (rule ext)
  fix s
  show "(\<And>i. lo \<le> i \<Longrightarrow> i < hi \<Longrightarrow> f i = g i) \<Longrightarrow> for_range lo hi f s = for_range lo hi g s"
  proof (induction "nat (hi - lo)" arbitrary: lo s)
    case (Suc n)
    have "for_range (lo + 1) hi f s' = for_range (lo + 1) hi g s'" for s'
      using Suc.hyps(2) by (intro Suc.hyps(1) Suc.prems) auto
    then show ?case using Suc.prems [of lo] by (simp add: for_range.simps [of lo] cong: Option.bind_cong)
  qed (simp add: for_range.simps)
qed

text \<open>A coordinate from which no stroke of the given half thickness leaves the range of an \<^verbatim>\<open>int\<close>.\<close>

definition fits :: "int \<Rightarrow> int \<Rightarrow> bool" where
  "fits half x \<longleftrightarrow> - 2147483648 < x - \<bar>half\<bar> \<and> x + \<bar>half\<bar> < 2147483647"

lemma fits_small: "\<bar>half\<bar> \<le> 2 ^ 28 \<Longrightarrow> \<bar>x\<bar> \<le> 2 ^ 28 \<Longrightarrow> fits half x"
  by (auto simp: fits_def abs_le_iff)

lemma draw_square_paints:
  assumes "display_ok d" and fits: "fits half x" "fits half y"
  shows "paint_op c (square x y half) (draw_square x y half c) d"
proof -
  have exact: "draw_square x y half c =
      for_range (- half) (half + 1) (\<lambda>i. for_range (- half) (half + 1) (\<lambda>j. set_pixel (x + i) (y + j) c))"
    unfolding draw_square_def using fits
    by (intro for_range_cong arg_cong2 [where f = "\<lambda>u v. set_pixel u v c"] c_int_id) (simp_all add: fits_def)
  have "paint_op c (\<Union>i\<in>{-half..<half + 1}. \<Union>j\<in>{-half..<half + 1}. {(x + i, y + j)}) (draw_square x y half c) d"
    unfolding exact by (rule stroke_paints [OF assms(1) set_pixel_paints])
  moreover have "(\<exists>i\<in>{-half..<half + 1}. u = a + i) \<longleftrightarrow> u \<in> {a - half..a + half}" for u a :: int
    by (auto intro: bexI [of _ "u - a"])
  then have "(\<Union>i\<in>{-half..<half + 1}. \<Union>j\<in>{-half..<half + 1}. {(x + i, y + j)}) = square x y half"
    by (auto simp: square_def set_eq_iff simp del: atLeastLessThan_iff)
  ultimately show ?thesis by simp
qed

text \<open>
  The line loop in coordinates counted from the start: after \<open>a\<close> steps in x and \<open>b\<close> steps in y the error is
  \<open>dx - dy - a * dy + b * dx\<close>.  When \<open>a\<close> has reached \<open>dx\<close> the x test fails, when \<open>b\<close> has reached \<open>dy\<close> the
  y test fails, and before the end one of the two succeeds.
\<close>

lemma line_step:
  fixes a b dx dy :: int
  assumes "0 \<le> a" "a \<le> dx" "0 \<le> b" "b \<le> dy" "(a, b) \<noteq> (dx, dy)"
    and err: "err = dx - dy - a * dy + b * dx"
  shows "2 * err > - dy \<longrightarrow> a < dx" and "2 * err < dx \<longrightarrow> b < dy"
    and "2 * err > - dy \<or> 2 * err < dx"
proof -
  show "2 * err > - dy \<longrightarrow> a < dx"
  proof (cases "a = dx")
    case True
    then have "b + 1 - dy \<le> 0" using assms by simp
    then have "dx * (b + 1 - dy) \<le> 0" using assms by (simp add: mult_nonneg_nonpos)
    moreover have "err = dx * (b + 1 - dy) - dy" using err True by (simp add: algebra_simps)
    ultimately show ?thesis using assms by simp
  qed (use assms in simp)
  show "2 * err < dx \<longrightarrow> b < dy"
  proof (cases "b = dy")
    case True
    then have "0 \<le> dx - a - 1" using assms by simp
    then have "0 \<le> dy * (dx - a - 1)" using assms by (intro mult_nonneg_nonneg) simp_all
    moreover have "err = dx + dy * (dx - a - 1)" using err True by (simp add: algebra_simps)
    ultimately show ?thesis using assms by simp
  qed (use assms in simp)
  show "2 * err > - dy \<or> 2 * err < dx" using assms by (cases "dx = 0"; cases "dy = 0") auto
qed

text \<open>The error never leaves these bounds, so that twice its value fits an \<^verbatim>\<open>int\<close> for distances up to \<open>2 ^ 29\<close>.\<close>

definition err_bound :: "int \<Rightarrow> int \<Rightarrow> int \<Rightarrow> bool" where
  "err_bound dx dy err \<longleftrightarrow> - 3 * dy \<le> 2 * err \<and> 2 * err \<le> 3 * dx"

lemma err_start: "0 \<le> dx \<Longrightarrow> 0 \<le> dy \<Longrightarrow> err_bound dx dy (dx - dy)"
  by (simp add: err_bound_def)

lemma err_step:
  assumes "err_bound dx dy err" and "0 \<le> dx" "dx \<le> 536870912" "0 \<le> dy" "dy \<le> 536870912"
  shows "c_int (2 * err) = 2 * err" and "c_int (err - dy) = err - dy"
    and "2 * err < dx \<Longrightarrow> c_int (err + dx) = err + dx" and "c_int (err - dy + dx) = err - dy + dx"
    and "err_bound dx dy (err + (if 2 * err > - dy then - dy else 0) + (if 2 * err < dx then dx else 0))
      \<or> \<not> (2 * err > - dy \<or> 2 * err < dx)"
  using assms by (auto simp: err_bound_def intro!: c_int_id)

definition coord :: "int \<Rightarrow> int \<Rightarrow> int \<Rightarrow> int" where
  "coord from s k = from + s * k"

lemma coord_step: "coord from s k + s = coord from s (k + 1)"
  by (simp add: coord_def algebra_simps)

text \<open>Between two points that fit, every point fits, and so does the next one.\<close>

lemma coord_fits:
  assumes "fits half from" and "fits half (coord from s n)" and "s = 1 \<or> s = -1" and "0 \<le> k" "k \<le> n"
  shows "fits half (coord from s k)" and "c_int (coord from s k + s) = coord from s (k + 1)"
proof -
  show "fits half (coord from s k)" using assms by (auto simp: fits_def coord_def)
  have "- 2147483648 \<le> coord from s k + s" "coord from s k + s < 2147483648"
    using assms by (auto simp: fits_def coord_def)
  then show "c_int (coord from s k + s) = coord from s (k + 1)" by (simp only: c_int_id coord_step)
qed

lemma line_loop_paints:
  assumes "sx = 1 \<or> sx = -1" and "sy = 1 \<or> sy = -1"
    and "x2 = coord x1 sx dx" and "y2 = coord y1 sy dy"
    and fits: "fits half x1" "fits half x2" "fits half y1" "fits half y2"
    and dist: "dx \<le> 536870912" "dy \<le> 536870912"
  shows "display_ok d \<Longrightarrow> 0 \<le> a \<Longrightarrow> a \<le> dx \<Longrightarrow> 0 \<le> b \<Longrightarrow> b \<le> dy \<Longrightarrow>
   err = dx - dy - a * dy + b * dx \<Longrightarrow> err_bound dx dy err \<Longrightarrow>
   \<exists>ps. paint_op c (\<Union>(a, b)\<in>set ps. square (coord x1 sx a) (coord y1 sy b) half)
       (line_loop x2 y2 dx dy sx sy half (coord x1 sx a) (coord y1 sy b) err c) d \<and>
     set ps \<subseteq> {a..dx} \<times> {b..dy} \<and> (a, b) \<in> set ps \<and> (dx, dy) \<in> set ps"
proof (induction "nat (dx - a) + nat (dy - b)" arbitrary: a b err d rule: less_induct)
  case less
  let ?x = "coord x1 sx a" and ?y = "coord y1 sy b"
  let ?l = "line_loop x2 y2 dx dy sx sy half"
  note fx = coord_fits [OF fits(1) fits(2) [unfolded assms(3)] assms(1) less.prems(2,3)]
  note fy = coord_fits [OF fits(3) fits(4) [unfolded assms(4)] assms(2) less.prems(4,5)]
  obtain d' where d': "draw_square ?x ?y half c d = Some d'" "paints c (square ?x ?y half) d d'"
    using draw_square_paints [OF less.prems(1) fx(1) fy(1)] unfolding paint_op_def by blast
  have stop: "(?x = x2 \<and> ?y = y2) = ((a, b) = (dx, dy))"
    using assms(1-4) by (auto simp: coord_def)
  show ?case
  proof (cases "(a, b) = (dx, dy)")
    case True
    then have "?l ?x ?y err c d = Some d'"
      using stop d'(1) by (subst line_loop.simps) simp
    then show ?thesis using d'(2) True
      by (intro exI [of _ "[(a, b)]"]) (simp add: paint_op_def)
  next
    case False
    note st = line_step [OF less.prems(2-5) False less.prems(6)]
    let ?a = "if 2 * err > - dy then a + 1 else a" and ?b = "if 2 * err < dx then b + 1 else b"
    let ?e = "err + (if 2 * err > - dy then - dy else 0) + (if 2 * err < dx then dx else 0)"
    have nn: "0 \<le> dx" "0 \<le> dy" using less.prems(2-5) by simp_all
    note es = err_step [OF less.prems(7) nn(1) dist(1) nn(2) dist(2)]
    have minus: "c_int (- dy) = - dy" using nn dist by (intro c_int_id) simp_all
    have "?l ?x ?y err c d = ?l (coord x1 sx ?a) (coord y1 sy ?b) ?e c d'"
      unfolding line_loop.simps [of x2 y2 dx dy sx sy half ?x ?y] stop using False d'(1)
      by (simp add: Let_def es fx(2) fy(2) minus del: prod.inject)
    moreover have "nat (dx - ?a) + nat (dy - ?b) < nat (dx - a) + nat (dy - b)"
      using st less.prems by auto
    moreover have "?e = dx - dy - ?a * dy + ?b * dx"
      using less.prems(6) by (simp add: algebra_simps)
    moreover have "err_bound dx dy ?e" using es(5) st(3) by blast
    moreover have "0 \<le> ?a" "?a \<le> dx" "0 \<le> ?b" "?b \<le> dy" using st less.prems by auto
    moreover note paints_ok [OF d'(2) less.prems(1)]
    ultimately obtain ps where ps: "paint_op c (\<Union>(a, b)\<in>set ps. square (coord x1 sx a) (coord y1 sy b) half)
        (?l (coord x1 sx ?a) (coord y1 sy ?b) ?e c) d'"
      "set ps \<subseteq> {?a..dx} \<times> {?b..dy}" "(dx, dy) \<in> set ps"
      using less.hyps [of ?a ?b d' ?e] by blast
    have "paint_op c (\<Union>(a, b)\<in>set ((a, b) # ps). square (coord x1 sx a) (coord y1 sy b) half)
       (?l ?x ?y err c) d"
      using ps(1) \<open>?l ?x ?y err c d = _\<close> paints_trans [OF d'(2)] by (auto simp: paint_op_def)
    moreover have "set ((a, b) # ps) \<subseteq> {a..dx} \<times> {b..dy}"
      using ps(2) less.prems by (auto split: if_splits)
    ultimately show ?thesis using ps(3) by (intro exI [of _ "(a, b) # ps"]) simp
  qed
qed

subsection \<open>Glyphs and text\<close>

text \<open>The points of a glyph: one square of \<open>scale\<close> pixels for each set bit, most significant bit first.\<close>

definition dot_points :: "int \<Rightarrow> int \<Rightarrow> int \<Rightarrow> (int \<times> int) set" where
  "dot_points x y scale = (if scale = 1 then {(x, y)} else rect x y scale scale)"

definition row_points :: "u8 \<Rightarrow> int \<Rightarrow> int \<Rightarrow> int \<Rightarrow> int \<Rightarrow> (int \<times> int) set" where
  "row_points row x y gy scale =
     (\<Union>gx\<in>{0..<8}. if bit row (nat (7 - gx)) then dot_points (c_int (x + scale * gx)) (c_int (y + scale * gy)) scale else {})"

definition glyph_start :: "Font \<Rightarrow> u8 \<Rightarrow> nat" where
  "glyph_start font ch = unat (of_nat sizeof_PSFHeader + bytes_per_glyph (header font) * ucast ch :: u32)"

definition glyph_points :: "Font \<Rightarrow> u8 \<Rightarrow> int \<Rightarrow> int \<Rightarrow> int \<Rightarrow> (int \<times> int) set" where
  "glyph_points font ch x y scale =
     (\<Union>gy\<in>{0..<uint (glyph_height (header font))}.
        row_points (font_data font ! (glyph_start font ch + nat gy)) x y gy scale)"

definition printable :: "Font \<Rightarrow> u8 \<Rightarrow> bool" where
  "printable font ch \<longleftrightarrow> ucast ch < num_glyphs (header font) \<and> 0x20 \<le> ch \<and> ch \<le> 0x7e"

text \<open>Every glyph that can be drawn lies inside the data of the font.\<close>

definition font_ok :: "Font \<Rightarrow> bool" where
  "font_ok font \<longleftrightarrow> (\<forall>ch. printable font ch \<longrightarrow>
     int (glyph_start font ch) + uint (glyph_height (header font)) \<le> int (length (font_data font)))"

lemma draw_glyph_row_paints:
  assumes "display_ok d"
  shows "paint_op c (row_points row x y gy scale) (draw_glyph_row row x y gy scale c) d"
  unfolding row_points_def draw_glyph_row_def
proof (rule paint_op_for_range [OF assms])
  fix gx d'
  assume "display_ok d'"
  then show "paint_op c (if bit row (nat (7 - gx)) then dot_points (c_int (x + scale * gx)) (c_int (y + scale * gy)) scale else {})
     (\<lambda>d. if bit row (nat (7 - gx))
       then if scale = 1 then set_pixel (c_int (x + scale * gx)) (c_int (y + scale * gy)) c d
            else draw_filled_rect (c_int (x + scale * gx)) (c_int (y + scale * gy)) scale scale c d
       else Some d) d'"
    using set_pixel_paints [of d' c] draw_filled_rect_paints [of d' c] paint_op_Some [of c d']
    by (cases "scale = 1") (simp_all add: dot_points_def)
qed

lemma draw_char_paints:
  assumes "display_ok d" and "font_ok font"
  shows "paint_op c (if printable font ch then glyph_points font ch x y scale else {})
    (draw_char font ch x y scale c) d"
proof (cases "printable font ch")
  case False
  then have "draw_char font ch x y scale c d = Some d"
    by (auto simp: draw_char_def printable_def not_less not_le)
  then show ?thesis using False by (simp add: paint_op_def paints_refl)
next
  case True
  let ?h = "uint (glyph_height (header font))" and ?g = "glyph_start font ch"
  have vis: "\<not> num_glyphs (header font) \<le> ucast ch" "\<not> (ch < 0x20 \<or> 0x7e < ch)"
    using True by (auto simp: printable_def)
  have in_data: "?g + nat gy < length (font_data font)" if "0 \<le> gy" "gy < ?h" for gy
    using that assms(2) True unfolding font_ok_def by fastforce
  have "paint_op c (glyph_points font ch x y scale)
     (for_range 0 ?h (\<lambda>gy d. if ?g + nat gy < length (font_data font)
        then draw_glyph_row (font_data font ! (?g + nat gy)) x y gy scale c d else None)) d"
    unfolding glyph_points_def
    by (rule paint_op_for_range [OF assms(1)]) (use in_data draw_glyph_row_paints in simp)
  moreover have "draw_char font ch x y scale c d =
     for_range 0 ?h (\<lambda>gy d. if ?g + nat gy < length (font_data font)
        then draw_glyph_row (font_data font ! (?g + nat gy)) x y gy scale c d else None) d"
    unfolding draw_char_def Let_def glyph_start_def using vis by (simp only: if_False)
  ultimately show ?thesis using True by (simp add: paint_op_def)
qed

text \<open>The text stays where it was started while no position leaves the range of an \<^verbatim>\<open>int\<close>.\<close>

definition text_fits :: "int \<Rightarrow> int \<Rightarrow> int \<Rightarrow> int \<Rightarrow> bool" where
  "text_fits x right y bottom \<longleftrightarrow>
     - 2147483648 \<le> x \<and> right < 2147483648 \<and> - 2147483648 \<le> y \<and> bottom < 2147483648"

lemma row_points_box:
  assumes "0 < scale" and "0 \<le> gy" "gy < h" and fits: "text_fits x (x + scale * 8) y (y + scale * h)"
  shows "row_points row x y gy scale \<subseteq> {x..<x + scale * 8} \<times> {y..<y + scale * h}"
proof -
  have gy: "scale * gy + scale \<le> scale * h" "0 \<le> scale * gy"
    using mult_left_mono [of "gy + 1" h scale] assms by (simp_all add: algebra_simps)
  have "dot_points (c_int (x + scale * gx)) (c_int (y + scale * gy)) scale \<subseteq> {x..<x + scale * 8} \<times> {y..<y + scale * h}"
    if "0 \<le> gx" "gx < 8" for gx
  proof -
    have gx: "scale * gx + scale \<le> scale * 8" "0 \<le> scale * gx"
      using mult_left_mono [of "gx + 1" 8 scale] that assms(1) by (simp_all add: algebra_simps)
    have ints: "c_int (x + scale * gx) = x + scale * gx" "c_int (y + scale * gy) = y + scale * gy"
      "c_int (x + scale * gx + scale) = x + scale * gx + scale"
      "c_int (y + scale * gy + scale) = y + scale * gy + scale"
      by (rule c_int_id; use fits [unfolded text_fits_def] gx gy assms(1) in linarith)+
    have "u < x + scale * 8" if "u < x + scale * gx + scale" for u using that gx(1) by linarith
    then show ?thesis using gy gx(2) that(2) assms(1) unfolding dot_points_def rect_def ints by auto
  qed
  then show ?thesis by (fastforce simp: row_points_def split: if_splits)
qed

lemma draw_text_paints:
  assumes "font_ok font" and "0 < scale"
    and wide: "8 \<le> uint (glyph_width (header font) + hmargin font)"
  defines "right \<equiv> \<lambda>d. width d + scale * uint (glyph_width (header font) + hmargin font)"
    and "bottom \<equiv> \<lambda>y. y + scale * uint (glyph_height (header font))"
  shows "display_ok d \<Longrightarrow> \<exists>S. paint_op c S (draw_text font str x y scale c) d \<and>
    (text_fits x (right d) y (bottom y) \<longrightarrow> S \<subseteq> {x..} \<times> {y..<bottom y})"
proof (induction str arbitrary: x d)
  case Nil
  show ?case by (intro exI [of _ "{}"]) (simp add: paint_op_def paints_refl)
next
  case (Cons ch str)
  let ?S = "if printable font ch then glyph_points font ch x y scale else {}"
  let ?adv = "uint (glyph_width (header font) + hmargin font)"
  let ?x = "c_int (x + ?adv * scale)"
  show ?case
  proof (cases "ch \<noteq> 0 \<and> x < width d")
    case False
    then show ?thesis by (intro exI [of _ "{}"]) (auto simp: paint_op_def paints_refl)
  next
    case True
    obtain d' where d': "draw_char font ch x y scale c d = Some d'" "paints c ?S d d'"
      using draw_char_paints [OF Cons.prems assms(1)] unfolding paint_op_def by blast
    obtain T where T: "paint_op c T (draw_text font str ?x y scale c) d'"
      "text_fits ?x (right d') y (bottom y) \<longrightarrow> T \<subseteq> {?x..} \<times> {y..<bottom y}"
      using Cons.IH [OF paints_ok [OF d'(2) Cons.prems]] by blast
    have "paint_op c (?S \<union> T) (draw_text font (ch # str) x y scale c) d"
      using True d' T(1) paints_trans [OF d'(2)] by (auto simp: paint_op_def)
    moreover have "?S \<union> T \<subseteq> {x..} \<times> {y..<bottom y}" if fits: "text_fits x (right d) y (bottom y)"
    proof -
      have adv: "scale * 8 \<le> scale * ?adv" using assms(2) wide by (intro mult_left_mono) simp_all
      then have range: "0 \<le> scale * ?adv" "x + scale * ?adv < 2147483648" "- 2147483648 \<le> x"
        using fits True assms(2) by (auto simp: text_fits_def right_def)
      then have x: "?x = x + scale * ?adv" by (subst c_int_id) (simp_all add: mult.commute)
      have "?S \<subseteq> {x..<x + scale * 8} \<times> {y..<bottom y}"
      proof (cases "printable font ch")
        case True
        have "text_fits x (x + scale * 8) y (y + scale * uint (glyph_height (header font)))"
          using fits range adv by (simp add: text_fits_def bottom_def)
        then show ?thesis unfolding glyph_points_def if_P [OF True] bottom_def
          by (intro UN_least row_points_box assms(2)) simp_all
      qed simp
      moreover have "text_fits ?x (right d') y (bottom y)"
        using fits range paints_size [OF d'(2)] unfolding x by (simp add: text_fits_def right_def)
      then have "T \<subseteq> {?x..} \<times> {y..<bottom y}" using T(2) by blast
      moreover have "x \<le> ?x" using x range(1) by simp
      ultimately show ?thesis by fastforce
    qed
    ultimately show ?thesis by (intro exI [of _ "?S \<union> T"] conjI impI) assumption+
  qed
qed

text \<open>The default font, as \<^verbatim>\<open>get_default_font\<close> loads it.\<close>

definition default_font :: Font where
  "default_font = \<lparr>header = \<lparr>magic = PSF_MAGIC, version = 0, header_size = 32, has_unicode_table = 1,
     num_glyphs = 256, bytes_per_glyph = 9, glyph_height = 9, glyph_width = 8\<rparr>,
     font_data = resource_default_psf_font, font_size = 3177, hmargin = 2, vmargin = 4\<rparr>"

lemma default_font_header: "read_header resource_default_psf_font = header default_font"
  by (simp add: read_header_def default_font_def le32_def resource_default_psf_font_def nth_append
      psf_font_00_def PSF_MAGIC_def)

lemma get_default_font_loads: "get_default_font zero_font = Some default_font"
  by (simp add: get_default_font_def zero_font_def load_psf_font_def default_font_header
      sizeof_PSFHeader_def) (simp add: default_font_def PSF_MAGIC_def)

lemma default_font_ok: "font_ok default_font"
proof (unfold font_ok_def, intro allI impI)
  fix ch
  assume "printable default_font ch"
  then have "unat ch \<le> 126" by (simp add: printable_def word_le_nat_alt)
  moreover from this have "unat (9 * ucast ch :: u32) = 9 * unat ch"
    using unat_mult_u32 [of 9 "ucast ch"] by simp
  ultimately have "glyph_start default_font ch \<le> 1166"
    using unat_add_u32 [of 32 "9 * ucast ch"]
    by (simp add: glyph_start_def default_font_def sizeof_PSFHeader_def)
  then show "int (glyph_start default_font ch) + uint (glyph_height (header default_font))
      \<le> int (length (font_data default_font))"
    by (simp add: default_font_def)
qed

subsection \<open>Properties\<close>

text \<open>
  A filled rectangle, whatever its position and the signs of its width and height, changes exactly the
  pixels of the rectangle that are on the screen, and nothing outside the frame buffer is written; the far corner
  is computed in an \<^verbatim>\<open>int\<close>.
\<close>

theorem filled_rect_exact:
  assumes "display_ok d"
  shows "\<exists>d'. draw_filled_rect x y w h c d = Some d' \<and> paints c (rect x y w h) d d'"
  using draw_filled_rect_paints [OF assms] by (simp add: paint_op_def)

definition small_display :: Display where
  "small_display = \<lparr>framebuffer = replicate 12 0, width = 4, height = 3\<rparr>"

lemma small_display_ok: "display_ok small_display"
  by (simp add: small_display_def display_ok_def)

lemma small_display_pixel:
  assumes "paints c S small_display d" and "0 \<le> x" "x < 4" "0 \<le> y" "y < 3"
  shows "pixel d x y = (if (x, y) \<in> S then c else 0)"
proof -
  have "y * 4 + x < 12" using assms(2-) by linarith
  then show ?thesis using assms
    by (auto simp: paints_def on_screen_def small_display_def pixel_def nat_less_iff)
qed

lemma filled_rect_exact_witness:
  "\<exists>d'. draw_filled_rect 5 1 (-3) 7 9 small_display = Some d' \<and> pixel d' 3 2 = 9 \<and> pixel d' 1 2 = 0"
  using filled_rect_exact [OF small_display_ok, of 5 1 "-3" 7 9]
  by (auto simp: small_display_pixel rect_def c_int_def)

text \<open>
  C35: For end points within \<open>2 ^ 28\<close> of the origin and a thickness up to \<open>2 ^ 28\<close>, drawing a line always ends,
  overflows no \<^verbatim>\<open>int\<close>, and never writes outside the frame buffer: the loop, which only stops when it stands exactly on
  the end point, reaches it without ever stepping past it in either coordinate.  It paints the square of the thickness
  at the first and at the last point, and squares at points of the bounding box in between.
\<close>

theorem line_reaches_end:
  assumes "display_ok d" and "\<bar>x1\<bar> \<le> 2 ^ 28" "\<bar>y1\<bar> \<le> 2 ^ 28" "\<bar>x2\<bar> \<le> 2 ^ 28" "\<bar>y2\<bar> \<le> 2 ^ 28"
    and "\<bar>thickness\<bar> \<le> 2 ^ 28"
  shows "\<exists>d' ps. draw_line x1 y1 x2 y2 thickness c d = Some d' \<and>
    paints c (\<Union>(x, y)\<in>set ps. square x y (if thickness < 0 then - (- thickness div 2) else thickness div 2)) d d' \<and>
    (x1, y1) \<in> set ps \<and> (x2, y2) \<in> set ps \<and>
    set ps \<subseteq> {min x1 x2..max x1 x2} \<times> {min y1 y2..max y1 y2}"
proof -
  let ?sx = "if x1 < x2 then 1 else -1 :: int" and ?sy = "if y1 < y2 then 1 else -1 :: int"
  let ?dx = "\<bar>x2 - x1\<bar>" and ?dy = "\<bar>y2 - y1\<bar>"
  let ?half = "if thickness < 0 then - (- thickness div 2) else thickness div 2"
  have ints: "c_int (x2 - x1) = x2 - x1" "c_int (y2 - y1) = y2 - y1" "c_int ?dx = ?dx" "c_int ?dy = ?dy"
    "c_int (?dx - ?dy) = ?dx - ?dy"
    by (rule c_int_id; use assms(2-5) in simp)+
  have half: "\<bar>?half\<bar> \<le> 2 ^ 28" using assms(6) by auto
  have fits: "fits ?half x1" "fits ?half x2" "fits ?half y1" "fits ?half y2"
    by (rule fits_small [OF half]; use assms(2-5) in simp)+
  have dist: "?dx \<le> 536870912" "?dy \<le> 536870912" using assms(2-5) by simp_all
  have start: "err_bound ?dx ?dy (?dx - ?dy)"
    by (rule err_start [OF abs_ge_zero abs_ge_zero])
  have ends: "x2 = coord x1 ?sx ?dx" "y2 = coord y1 ?sy ?dy" by (auto simp: coord_def)
  have "\<exists>ps. paint_op c (\<Union>(a, b)\<in>set ps. square (coord x1 ?sx a) (coord y1 ?sy b) ?half)
       (line_loop x2 y2 ?dx ?dy ?sx ?sy ?half (coord x1 ?sx 0) (coord y1 ?sy 0) (?dx - ?dy) c) d \<and>
     set ps \<subseteq> {0..?dx} \<times> {0..?dy} \<and> (0, 0) \<in> set ps \<and> (?dx, ?dy) \<in> set ps"
    by (rule line_loop_paints [OF _ _ ends fits dist assms(1)]) (use start in simp_all)
  then obtain ps where ps: "paint_op c (\<Union>(a, b)\<in>set ps. square (coord x1 ?sx a) (coord y1 ?sy b) ?half)
       (line_loop x2 y2 ?dx ?dy ?sx ?sy ?half x1 y1 (?dx - ?dy) c) d"
     "set ps \<subseteq> {0..?dx} \<times> {0..?dy}" "(0, 0) \<in> set ps" "(?dx, ?dy) \<in> set ps"
    by (auto simp: coord_def)
  let ?at = "\<lambda>(a, b). (coord x1 ?sx a, coord y1 ?sy b)"
  have "(\<Union>(a, b)\<in>set ps. square (coord x1 ?sx a) (coord y1 ?sy b) ?half) =
      (\<Union>(x, y)\<in>set (map ?at ps). square x y ?half)"
    by auto
  moreover have "?at (0, 0) = (x1, y1)" "?at (?dx, ?dy) = (x2, y2)" by (auto simp: coord_def)
  then have "(x1, y1) \<in> set (map ?at ps)" "(x2, y2) \<in> set (map ?at ps)"
    using imageI [OF ps(3), of ?at] imageI [OF ps(4), of ?at] by (simp_all only: set_map)
  moreover have "set (map ?at ps) \<subseteq> {min x1 x2..max x1 x2} \<times> {min y1 y2..max y1 y2}"
    using ps(2) by (auto simp: coord_def)
  ultimately show ?thesis
    using ps(1) unfolding paint_op_def draw_line_def Let_def ints by metis
qed

lemma line_reaches_end_witness:
  "\<exists>d'. draw_line 0 0 3 1 1 9 small_display = Some d' \<and> pixel d' 0 0 = 9 \<and> pixel d' 3 1 = 9 \<and> pixel d' 2 2 = 0"
proof -
  obtain d' ps where d': "draw_line 0 0 3 1 1 9 small_display = Some d'"
    "paints 9 (\<Union>(x, y)\<in>set ps. square x y 0) small_display d'"
    "(0, 0) \<in> set ps" "(3, 1) \<in> set ps" "set ps \<subseteq> {0..3} \<times> {0..1}"
    using line_reaches_end [OF small_display_ok, of 0 0 3 1 1 9] by auto
  moreover have "(\<Union>(x, y)\<in>set ps. square x y 0) = set ps" by (auto simp: square_def)
  ultimately have "pixel d' x y = (if (x, y) \<in> set ps then 9 else 0)"
    if "(x, y) \<in> {(0, 0), (3, 1), (2, 2)}" for x y
    using that by (auto simp: small_display_pixel)
  moreover have "(2, 2) \<notin> set ps" using d'(5) by force
  ultimately show ?thesis using d'(1,3,4) by (intro exI [of _ d']) simp
qed

text \<open>
  C38: \<^verbatim>\<open>get_default_font\<close> loads the built-in font, and drawing any text with it, at any position and positive
  scale, never reads a byte outside the font data nor writes one outside the frame buffer; only pixels to the
  right of the start position, in the rows of the text, change, as long as the positions of the text up to one
  character past the right edge are in the range of an \<^verbatim>\<open>int\<close>.
\<close>

theorem default_font_text_in_bounds:
  assumes "display_ok d" and "0 < scale"
  shows "\<exists>font d' S. get_default_font zero_font = Some font \<and>
    draw_text font str x y scale c d = Some d' \<and> paints c S d d' \<and>
    (- (2 ^ 31) \<le> x \<and> width d + 10 * scale < 2 ^ 31 \<and> - (2 ^ 31) \<le> y \<and> y + 9 * scale < 2 ^ 31 \<longrightarrow>
      S \<subseteq> {x..} \<times> {y..<y + 9 * scale})"
proof -
  have font: "uint (glyph_height (header default_font)) = 9"
    "uint (glyph_width (header default_font) + hmargin default_font) = 10" by (simp_all add: default_font_def)
  obtain S where S: "paint_op c S (draw_text default_font str x y scale c) d"
    "text_fits x (width d + scale * 10) y (y + scale * 9) \<longrightarrow> S \<subseteq> {x..} \<times> {y..<y + scale * 9}"
    using draw_text_paints [OF default_font_ok assms(2) _ assms(1), of c str x y] unfolding font by auto
  then show ?thesis using get_default_font_loads
    unfolding paint_op_def text_fits_def by (auto simp: mult.commute)
qed

lemma default_font_text_in_bounds_witness:
  "\<exists>font d'. get_default_font zero_font = Some font \<and>
     draw_text font [72, 105, 255] (-2) 1 2 5 small_display = Some d' \<and> pixel d' 3 0 = 0"
proof -
  have width4: "width small_display = 4" by (simp add: small_display_def)
  obtain font d' S where *: "get_default_font zero_font = Some font"
    "draw_text font [72, 105, 255] (-2) 1 2 5 small_display = Some d'" "paints 5 S small_display d'"
    "S \<subseteq> {-2..} \<times> {1..<1 + 9 * 2}"
    using default_font_text_in_bounds [OF small_display_ok, of 2 "[72, 105, 255]" "-2" 1 5] width4
    by (auto simp del: draw_text.simps)
  then have "(3, 0) \<notin> S" by auto
  then have "pixel d' 3 0 = 0" using *(3) by (simp add: small_display_pixel)
  then show ?thesis using * by blast
qed

end
