(* ===== verification/VmInv.thy ===== *)
theory VmInv
  imports Vm PhysicalAllocInv
begin

text \<open>
  The invariant of the translation tables.  Ghost values: \<open>R\<close> is the set of the root tables, \<open>T (r, i)\<close> the
  page of the second level table that slot \<open>i\<close> of the root table \<open>r\<close> refers to, for the slots of user
  memory.  All tables are blocks that the page allocator has handed out, so they do not overlap, and no
  second level table is used twice.
\<close>

subsection \<open>Addresses in the window\<close>

definition win :: "nat \<Rightarrow> u32" where
  "win n = word_of_nat (0xe0000000 + n)"

lemma unat_win: "n < 2 ^ 29 \<Longrightarrow> unat (win n) = 0xe0000000 + n"
  unfolding win_def by (rule unat_of_nat_u32) simp

lemma win_inj: "n < 2 ^ 29 \<Longrightarrow> m < 2 ^ 29 \<Longrightarrow> win n = win m \<longleftrightarrow> n = m"
  using unat_win by (metis add_left_cancel)

lemma win_add: "win n + word_of_nat m = win (n + m)"
  by (simp add: win_def add.assoc)

lemma table_slot_win: "table_slot (win n) i = win (n + 4 * i)"
  using win_add [of n "4 * i"] by (simp add: table_slot_def)

lemma win_not_0 [simp]: "n < 2 ^ 29 \<Longrightarrow> win n \<noteq> 0"
  using unat_win [of n] by (metis add_eq_0_iff_both_eq_0 unsigned_0 zero_neq_numeral)

definition vm_geom :: "vm_state \<Rightarrow> bool" where
  "vm_geom s \<longleftrightarrow> ram_starting_address (vm_pa s) = ram_phys_start s \<and>
     length (pages_data (vm_pa s)) * 1024 \<le> unat (ram_size s) \<and> unat (ram_size s) \<le> 2 ^ 29 \<and>
     unat (ram_phys_start s) + unat (ram_size s) < 2 ^ 32 \<and>
     ram_phys_start s AND mask 12 = 0"

lemma vm_geomD:
  assumes "vm_geom s"
  shows "ram_starting_address (vm_pa s) = ram_phys_start s"
    "p < length (pages_data (vm_pa s)) \<Longrightarrow> 1024 * p + 1024 \<le> unat (ram_size s)"
    "unat (ram_size s) \<le> 2 ^ 29" "unat (ram_phys_start s) + unat (ram_size s) < 2 ^ 32"
    "ram_phys_start s AND mask 12 = 0"
  using assms by (auto simp: vm_geom_def)

definition phys_of :: "vm_state \<Rightarrow> nat \<Rightarrow> u32" where
  "phys_of s p = ram_phys_start s + word_of_nat (1024 * p)"

lemma in_window_win: "n < unat (ram_size s) \<Longrightarrow> unat (ram_size s) \<le> 2 ^ 29 \<Longrightarrow> in_window s (win n)"
  using unat_win [of n]
  by (simp add: in_window_def physical_mem_start_def word_le_nat_alt word_less_nat_alt unat_minus_u32)

lemma unat_phys_of:
  assumes "vm_geom s" and "p < length (pages_data (vm_pa s))"
  shows "unat (phys_of s p) = unat (ram_phys_start s) + 1024 * p"
proof -
  note g = vm_geomD [OF assms(1)] vm_geomD(2) [OF assms]
  then have "unat (word_of_nat (1024 * p) :: u32) = 1024 * p" by (intro unat_of_nat_u32) linarith
  moreover from this have "unat (ram_phys_start s + word_of_nat (1024 * p)) =
      unat (ram_phys_start s) + unat (word_of_nat (1024 * p) :: u32)"
    using g by (intro unat_add_u32) linarith
  ultimately show ?thesis by (simp only: phys_of_def)
qed

lemma page2addr_phys:
  assumes "vm_geom s" and "p < length (pages_data (vm_pa s))"
  shows "page2addr (vm_pa s) p = Some (phys_of s p)"
  using assms by (simp add: page2addr_def phys_of_def vm_geom_def mult.commute)

lemma phys2virt_phys:
  assumes "vm_geom s" and "p < length (pages_data (vm_pa s))"
  shows "phys2virt s (phys_of s p) = Some (win (1024 * p))"
proof -
  note g = vm_geomD [OF assms(1)] vm_geomD(2) [OF assms]
  have "phys_of s p - ram_phys_start s = word_of_nat (1024 * p)" by (simp add: phys_of_def)
  moreover have "unat (ram_phys_start s + ram_size s) = unat (ram_phys_start s) + unat (ram_size s)"
    using g by (intro unat_add_u32)
  then have "ram_phys_start s \<le> phys_of s p" "phys_of s p < ram_phys_start s + ram_size s"
    unfolding word_le_nat_alt word_less_nat_alt unat_phys_of [OF assms] using g by linarith+
  ultimately show ?thesis
    by (simp add: phys2virt_def win_def physical_mem_start_def)
qed

lemma root_table_ptr:
  assumes "vm_geom s" and "p < length (pages_data (vm_pa s))"
  shows "get_root_table_ptr s (Some p) = Some (win (1024 * p))"
  using page2addr_phys [OF assms] phys2virt_phys [OF assms] by (simp add: get_root_table_ptr_def)

text \<open>Addresses of pages survive the encoding in an entry.\<close>

lemma and_mask_unat: "unat ((a :: u32) AND mask n) = unat a mod 2 ^ n"
  by (simp only: take_bit_eq_mask [symmetric] unsigned_take_bit_eq) (simp add: take_bit_eq_mod)

lemma aligned_and_not_mask: "(a :: u32) AND mask n = 0 \<Longrightarrow> a AND NOT (mask n) = a"
  by (metis (no_types, lifting) and.comm_neutral bit.conj_disj_distrib bit.disj_cancel_right or.left_neutral)

lemma phys_of_aligned:
  assumes "vm_geom s" and "p < length (pages_data (vm_pa s))"
  shows "phys_of s p AND NOT (mask 10) = phys_of s p"
proof (rule aligned_and_not_mask)
  have "4096 dvd unat (ram_phys_start s)"
  proof -
    have "unat (ram_phys_start s) mod 2 ^ 12 = 0" using and_mask_unat [of "ram_phys_start s" 12] vm_geomD(5) [OF assms(1)] by simp
    then show ?thesis by (simp add: mod_eq_0_iff_dvd)
  qed
  then have "1024 dvd unat (ram_phys_start s)" by (rule dvd_trans [rotated]) simp
  then have "unat (phys_of s p) mod 1024 = 0" by (simp add: unat_phys_of [OF assms] mod_eq_0_iff_dvd)
  then have "unat (phys_of s p AND mask 10) = 0" by (simp add: and_mask_unat)
  then show "phys_of s p AND mask 10 = 0" by (simp add: unat_eq_0)
qed

definition coarse_entry :: "u32 \<Rightarrow> u32" where
  "coarse_entry a = coarse_raw (make_coarse_entry a)"

lemma coarse_entry_base:
  assumes "vm_geom s" and "p < length (pages_data (vm_pa s))"
  shows "phys2virt s (coarse_base_address (coarse_of (coarse_entry (phys_of s p)))) = Some (win (1024 * p))"
  using phys2virt_phys [OF assms] phys_of_aligned [OF assms]
  by (simp add: coarse_entry_def coarse_entry_fields coarse_base_make)

lemma coarse_entry_identifier: "se_identifier (section_of (coarse_entry a)) = COARSE_PAGE_TABLE_ENTRY_ID"
  using arg_cong [OF coarse_entry_fields [of a], of cp_identifier]
  by (simp add: coarse_entry_def section_of_def coarse_of_def make_coarse_entry_def)

lemma coarse_entry_not_0 [simp]: "coarse_entry a \<noteq> 0"
  using coarse_entry_identifier [of a] by (auto simp: section_of_def COARSE_PAGE_TABLE_ENTRY_ID_def)

lemma coarse_not_section [simp]: "COARSE_PAGE_TABLE_ENTRY_ID \<noteq> SECTION_ENTRY_ID"
  by (simp add: COARSE_PAGE_TABLE_ENTRY_ID_def SECTION_ENTRY_ID_def)

subsection \<open>Blocks and their words\<close>

definition in_block :: "block \<Rightarrow> nat \<Rightarrow> bool" where
  "in_block b n \<longleftrightarrow> 1024 * fst b \<le> n \<and> n < 1024 * (fst b + order_pages (snd b))"

lemma in_block_page: "in_block b n \<Longrightarrow> n div 1024 \<in> set (block_pages b)"
  by (auto simp: in_block_def block_pages_def div_less_iff_less_mult less_eq_div_iff_mult_less_eq
      mult.commute)

lemma in_block_unique:
  assumes inv: "pa_inv s F A []" and "b \<in> set A" "c \<in> set A" "in_block b n" "in_block c n"
  shows "b = c"
proof (rule ccontr)
  assume "b \<noteq> c"
  obtain as bs where A: "A = as @ b # bs" using split_list [OF assms(2)] by blast
  have "distinct (cover ((free_blocks F @ as) @ b # bs))" using inv A by (simp add: pa_inv_def blocks_ok_def)
  moreover have "c \<in> set ((free_blocks F @ as) @ bs)" using \<open>b \<noteq> c\<close> assms(3) A by auto
  ultimately have "set (block_pages b) \<inter> set (block_pages c) = {}" by (rule distinct_cover_disjoint)
  then show False using in_block_page [OF assms(4)] in_block_page [OF assms(5)] by blast
qed

lemma in_block_bound:
  assumes "pa_inv (vm_pa s) F A []" and "vm_geom s" and "b \<in> set A" "in_block b n"
  shows "n < unat (ram_size s)"
proof -
  have "aligned_block (length (pages_data (vm_pa s))) b" using pa_inv_aligned [OF assms(1), of b] assms(3) by simp
  then have "fst b + order_pages (snd b) \<le> length (pages_data (vm_pa s))" by (simp add: aligned_block_def)
  then show ?thesis using assms(2,4) by (simp add: in_block_def vm_geom_def)
qed

lemma block_head:
  assumes "pa_inv (vm_pa s) F A []" and "(p, ord) \<in> set A"
  shows "p < length (pages_data (vm_pa s))"
  using pa_inv_bound [OF assms(1), of p ord] assms(2) by simp

lemma load_win: "vm_geom s \<Longrightarrow> n < unat (ram_size s) \<Longrightarrow> load s (win n) = Some (vm_mem s (win n))"
  using in_window_win [of n s] by (simp add: load_def vm_geom_def)

lemma store_win:
  "vm_geom s \<Longrightarrow> n < unat (ram_size s) \<Longrightarrow> store (win n) w s = Some (s\<lparr>vm_mem := (vm_mem s)(win n := w)\<rparr>)"
  using in_window_win [of n s] by (simp add: store_def vm_geom_def)

lemma vm_geom_mem [simp]: "vm_geom (s\<lparr>vm_mem := m\<rparr>) = vm_geom s"
  by (simp add: vm_geom_def)

definition zero_words :: "nat \<Rightarrow> nat \<Rightarrow> (u32 \<Rightarrow> u32) \<Rightarrow> u32 \<Rightarrow> u32" where
  "zero_words n k m a = (if \<exists>i < k. a = win (n + 4 * i) then 0 else m a)"

lemma zero_words_in: "i < k \<Longrightarrow> zero_words n k m (win (n + 4 * i)) = 0"
  by (auto simp: zero_words_def)

lemma zero_words_other: "(\<And>j. j < k \<Longrightarrow> a \<noteq> win (n + 4 * j)) \<Longrightarrow> zero_words n k m a = m a"
  unfolding zero_words_def by (rule if_not_P) blast

lemma zero_words_Suc: "zero_words (n + 4) k (m(win n := 0)) = zero_words n (Suc k) m"
proof
  fix a
  have "(\<exists>i < Suc k. a = win (n + 4 * i)) \<longleftrightarrow> a = win n \<or> (\<exists>i < k. a = win (n + 4 + 4 * i))"
    by (simp add: Ex_less_Suc2 add.assoc)
  then show "zero_words (n + 4) k (m(win n := 0)) a = zero_words n (Suc k) m a" by (auto simp: zero_words_def)
qed

lemma memset_words_win:
  "vm_geom s \<Longrightarrow> n + 4 * k \<le> unat (ram_size s) \<Longrightarrow>
   memset_words (win n) k s = Some (s\<lparr>vm_mem := zero_words n k (vm_mem s)\<rparr>)"
proof (induction k arbitrary: n s)
  case 0
  then show ?case by (simp add: zero_words_def)
next
  case (Suc k)
  have "store (win n) 0 s = Some (s\<lparr>vm_mem := (vm_mem s)(win n := 0)\<rparr>)"
    using Suc.prems by (intro store_win) simp_all
  moreover have "win n + 4 = win (n + 4)" using win_add [of n 4] by simp
  ultimately show ?case using Suc.IH [of "s\<lparr>vm_mem := (vm_mem s)(win n := 0)\<rparr>" "n + 4"] Suc.prems
    by (simp add: zero_words_Suc del: fun_upd_apply)
qed

subsection \<open>The invariant\<close>

definition user_va :: "u32 \<Rightarrow> bool" where
  "user_va va \<longleftrightarrow> va < kernel_area_start"

lemma user_va_lvl1: "user_va va \<Longrightarrow> lvl1_index va < 3072"
  unfolding user_va_def lvl1_index_def kernel_area_start_def word_less_nat_alt unat_drop_bit_eq
  by (simp add: drop_bit_eq_div div_less_iff_less_mult)

lemma user_va_not_kernel: "user_va va \<Longrightarrow> \<not> kernel_area_contains va"
  by (auto simp: user_va_def range_contains_def)

lemma lvl2_index_less [simp]: "lvl2_index va < 256"
  using and_mask_unat [of "drop_bit 12 va" 8] by (simp add: lvl2_index_def mask_eq_exp_minus_1)

text \<open>The word of a first level slot and of a second level slot.\<close>

abbreviation lvl1_word :: "vm_state \<Rightarrow> nat \<Rightarrow> nat \<Rightarrow> u32" where
  "lvl1_word s r i \<equiv> vm_mem s (win (1024 * r + 4 * i))"

definition lvl2_entry :: "vm_state \<Rightarrow> (nat \<times> nat \<Rightarrow> nat option) \<Rightarrow> nat \<Rightarrow> u32 \<Rightarrow> u32" where
  "lvl2_entry s T r va =
     (case T (r, lvl1_index va) of None \<Rightarrow> 0 | Some q \<Rightarrow> vm_mem s (win (1024 * q + 4 * lvl2_index va)))"

definition vm_wf ::
  "vm_state \<Rightarrow> (PageOrder \<Rightarrow> nat list) \<Rightarrow> block list \<Rightarrow> nat set \<Rightarrow> (nat \<times> nat \<Rightarrow> nat option) \<Rightarrow> bool" where
  "vm_wf s F A R T \<longleftrightarrow> vm_geom s \<and> pa_inv (vm_pa s) F A [] \<and>
     (\<exists>k. kernel_as s = Some k \<and> k < length (pages_data (vm_pa s))) \<and>
     (\<forall>r \<in> R. (r, Order16KB) \<in> set A) \<and>
     (\<forall>r \<in> R. \<forall>i < 3072. lvl1_word s r i =
        (case T (r, i) of None \<Rightarrow> 0 | Some q \<Rightarrow> coarse_entry (phys_of s q))) \<and>
     (\<forall>x q. T x = Some q \<longrightarrow> (q, Order1KB) \<in> set A) \<and>
     (\<forall>x y q. T x = Some q \<longrightarrow> T y = Some q \<longrightarrow> x = y)"

lemma vm_wfD:
  assumes "vm_wf s F A R T"
  shows "vm_geom s" "pa_inv (vm_pa s) F A []" "\<exists>k. kernel_as s = Some k \<and> k < length (pages_data (vm_pa s))"
    "r \<in> R \<Longrightarrow> (r, Order16KB) \<in> set A"
    "r \<in> R \<Longrightarrow> i < 3072 \<Longrightarrow> lvl1_word s r i =
        (case T (r, i) of None \<Rightarrow> 0 | Some q \<Rightarrow> coarse_entry (phys_of s q))"
    "T x = Some q \<Longrightarrow> (q, Order1KB) \<in> set A"
    "T x = Some q \<Longrightarrow> T y = Some q \<Longrightarrow> x = y"
  using assms unfolding vm_wf_def by blast+

lemma in_block_root: "i < 4096 \<Longrightarrow> in_block (r, Order16KB) (1024 * r + 4 * i)"
  by (simp add: in_block_def)

lemma in_block_table: "j < 256 \<Longrightarrow> in_block (q, Order1KB) (1024 * q + 4 * j)"
  by (simp add: in_block_def)

subsection \<open>Mapping a page of user memory\<close>

lemma alloc_geometry:
  assumes "pa_inv pa F A []" and "physical_page_alloc ord pa = Some (Inr p, pa')"
  shows "ram_starting_address pa' = ram_starting_address pa \<and> length (pages_data pa') = length (pages_data pa)"
proof -
  obtain r s1 where raw: "raw_page_alloc ord pa = Some (r, s1)" and post: "alloc_post pa F A [] ord r s1"
    using raw_page_alloc_post [OF assms(1), of ord] by blast
  with assms(2) have "r = Inr p" "pa' = set_ref_count p 1 s1"
    by (auto simp: physical_page_alloc_def bind_eq_Some_conv split: sum.splits)
  with post have "pa_frame pa s1" by (simp add: alloc_post_def)
  then show ?thesis using pa_frame_length [of pa s1] \<open>pa' = _\<close> by (simp add: pa_frame_def set_ref_count_def)
qed

text \<open>The slots that a mapping at \<open>va\<close> in \<open>r\<close> writes, as offsets in the window.\<close>

abbreviation slot1_of :: "nat \<Rightarrow> u32 \<Rightarrow> nat" where
  "slot1_of r va \<equiv> 1024 * r + 4 * lvl1_index va"

abbreviation slot2_of :: "nat \<Rightarrow> u32 \<Rightarrow> nat" where
  "slot2_of q va \<equiv> 1024 * q + 4 * lvl2_index va"

lemma slot_bounds:
  assumes "vm_wf s F A R T" and "r \<in> R" "i < 4096"
  shows "1024 * r + 4 * i < unat (ram_size s)"
  using in_block_bound [OF vm_wfD(2,1) vm_wfD(4) in_block_root] assms by blast

lemma table_bounds:
  assumes "vm_wf s F A R T" and "T x = Some q"
  shows "1024 * q + 1024 \<le> unat (ram_size s)"
  using vm_geomD(2) [OF vm_wfD(1) block_head [OF vm_wfD(2) vm_wfD(6)]] assms by blast

definition small_entry :: "u32 \<Rightarrow> PageAccessPermissions \<Rightarrow> u32" where
  "small_entry a p = small_page_raw (make_small_page_entry a p)"

text \<open>The end of \<^verbatim>\<open>vm_map_page\<close>, once the first level slot refers to a table.\<close>

lemma vm_map_page_existing:
  assumes wf: "vm_wf s F A R T" and r: "r \<in> R" and va: "user_va va"
    and T: "T (r, lvl1_index va) = Some q" and free: "lvl2_entry s T r va = 0"
  shows "vm_map_page (win (1024 * r)) phys va perm s =
    Some (s\<lparr>vm_mem := (vm_mem s)(win (slot2_of q va) := small_entry phys perm)\<rparr>)"
proof -
  note w = vm_wfD [OF wf]
  have b1: "slot1_of r va < unat (ram_size s)"
    using slot_bounds [OF wf r] user_va_lvl1 [OF va] by simp
  have b2: "slot2_of q va < unat (ram_size s)"
    using table_bounds [OF wf T] lvl2_index_less [of va] by linarith
  have q: "q < length (pages_data (vm_pa s))" using block_head [OF w(2) w(6) [OF T]] .
  obtain k where k: "kernel_as s = Some k" "k < length (pages_data (vm_pa s))" using w(3) by blast
  have e1: "vm_mem s (win (slot1_of r va)) = coarse_entry (phys_of s q)"
    using w(5) [OF r user_va_lvl1 [OF va]] T by simp
  have e2: "vm_mem s (win (slot2_of q va)) = 0" using free T by (simp add: lvl2_entry_def)
  show ?thesis
    using load_win [OF w(1) b1] load_win [OF w(1) b2] store_win [OF w(1) b2] root_table_ptr [OF w(1) k(2)]
      coarse_entry_base [OF w(1) q] k(1) e1 e2 coarse_not_section
    by (simp add: vm_map_page_def table_slot_win coarse_entry_identifier small_entry_def)
qed

text \<open>When the slot is empty a table is allocated, cleared and hooked in first.\<close>

lemma vm_map_page_new:
  assumes wf: "vm_wf s F A R T" and r: "r \<in> R" and va: "user_va va"
    and T: "T (r, lvl1_index va) = None"
    and alloc: "physical_page_alloc Order1KB (vm_pa s) = Some (Inr q, pa')"
    and inv': "pa_inv pa' F' ((q, Order1KB) # A) []"
  shows "vm_map_page (win (1024 * r)) phys va perm s =
    Some (s\<lparr>vm_pa := pa', vm_mem := (zero_words (1024 * q) 256
      ((vm_mem s)(win (slot1_of r va) := coarse_entry (phys_of s q))))
      (win (slot2_of q va) := small_entry phys perm)\<rparr>)"
proof -
  note w = vm_wfD [OF wf]
  let ?s1 = "s\<lparr>vm_pa := pa', vm_mem := (vm_mem s)(win (slot1_of r va) := coarse_entry (phys_of s q))\<rparr>"
  let ?s2 = "?s1\<lparr>vm_mem := zero_words (1024 * q) 256 (vm_mem ?s1)\<rparr>"
  have i: "lvl1_index va < 3072" by (rule user_va_lvl1 [OF va])
  have b1: "slot1_of r va < unat (ram_size s)" using slot_bounds [OF wf r] i by simp
  obtain k where k: "kernel_as s = Some k" "k < length (pages_data (vm_pa s))" using w(3) by blast
  have len: "ram_starting_address pa' = ram_starting_address (vm_pa s)"
    "length (pages_data pa') = length (pages_data (vm_pa s))"
    using alloc_geometry [OF w(2) alloc] by simp_all
  have geom1: "vm_geom (s\<lparr>vm_pa := pa'\<rparr>)" using w(1) len by (simp add: vm_geom_def)
  then have geom: "vm_geom ?s1" by (simp add: vm_geom_def)
  have q: "q < length (pages_data pa')" using pa_inv_bound [OF inv', of q Order1KB] by simp
  have bq: "1024 * q + 1024 \<le> unat (ram_size s)" using vm_geomD(2) [OF w(1), of q] q len by simp
  have b2: "slot2_of q va < unat (ram_size ?s2)"
  proof -
    have "slot2_of q va < unat (ram_size s)" using bq lvl2_index_less [of va] by linarith
    then show ?thesis by simp
  qed
  have phys: "phys_of ?s1 q = phys_of s q" by (simp add: phys_of_def)
  have z2: "vm_mem ?s2 (win (slot2_of q va)) = 0" by (simp add: zero_words_in)
  have z1: "load ?s1 (win (slot1_of r va)) = Some (coarse_entry (phys_of s q))"
    using load_win [OF geom] b1 by simp
  have mem0: "vm_mem s (win (slot1_of r va)) = 0" using w(5) [OF r i] T by simp
  have empty: "section_of 0 = \<lparr>se_identifier = 0, se_bufferable_writes = 0, se_cachable = 0,
     se_execute_never = 0, se_domain = 0, se_impl_defined = 0, se_access_permission = 0, se_tex = 0,
     se_access_permission_extension = 0, se_shared = 0, se_not_global = 0, se_is_supersection = 0,
     se_non_secure = 0, se_base_addr = 0\<rparr>"
    by (simp add: section_of_def)
  have fill: "fill_lvl1_slot kt (win (1024 * r)) va s = Some (True, ?s1)" for kt
    using load_win [OF w(1) b1] mem0 user_va_not_kernel [OF va] alloc page2addr_phys [OF geom1, of q] q
      store_win [OF geom1, of "slot1_of r va"] b1
    by (simp add: fill_lvl1_slot_def alloc_lvl2_table_def table_slot_win coarse_entry_def phys_of_def)
  have clear: "memset_words (win (1024 * q)) (LVL2_TABLE_SIZE div 4) ?s1 = Some ?s2"
    using memset_words_win [OF geom, of "1024 * q" 256] bq by (simp add: LVL2_TABLE_SIZE_def)
  have geom2: "vm_geom ?s2" using geom by (simp add: vm_geom_def)
  show ?thesis
    using load_win [OF w(1) b1] root_table_ptr [OF w(1) k(2)] k(1) mem0 fill z1 clear
      coarse_entry_base [OF geom, of q] q load_win [OF geom2 b2] store_win [OF geom2 b2] z2 phys
    by (simp add: vm_map_page_def table_slot_win empty SECTION_ENTRY_ID_def small_entry_def del: fun_upd_apply)
qed

lemma words_apart:
  assumes "pa_inv pa F A []" and "unat sz \<le> 2 ^ 29"
    and "b \<in> set A" "c \<in> set A" "b \<noteq> c" "in_block b n" "in_block c m" "n < unat sz" "m < unat sz"
  shows "win n \<noteq> win m"
  using in_block_unique [OF assms(1), of b c n] assms win_inj [of n m] by auto

text \<open>Writing a word of a table keeps the invariant and changes one entry of one address space.\<close>

lemma write_lvl2:
  fixes w :: u32
  assumes wf: "vm_wf s F A R T" and r: "r \<in> R" and T: "T (r, lvl1_index va) = Some q"
  defines "s' \<equiv> s\<lparr>vm_mem := (vm_mem s)(win (slot2_of q va) := w)\<rparr>"
  shows "vm_wf s' F A R T"
    and "lvl2_entry s' T r' v =
      (if r' = r \<and> lvl1_index v = lvl1_index va \<and> lvl2_index v = lvl2_index va then w
       else lvl2_entry s T r' v)"
proof -
  note wd = vm_wfD [OF wf]
  have q: "(q, Order1KB) \<in> set A" by (rule wd(6) [OF T])
  have q2: "in_block (q, Order1KB) (slot2_of q va)" by (simp add: in_block_table)
  have bq: "slot2_of q va < unat (ram_size s)" using table_bounds [OF wf T] lvl2_index_less [of va] by linarith
  have root: "win (1024 * p + 4 * i) \<noteq> win (slot2_of q va)" if "p \<in> R" "i < 3072" for p i
    using words_apart [OF wd(2) vm_geomD(3) [OF wd(1)] wd(4) [OF that(1)] q _ in_block_root q2
        slot_bounds [OF wf that(1)] bq] that by simp
  show "vm_wf s' F A R T"
    using wf root by (simp add: vm_wf_def s'_def phys_of_def cong: option.case_cong)
  show "lvl2_entry s' T r' v =
      (if r' = r \<and> lvl1_index v = lvl1_index va \<and> lvl2_index v = lvl2_index va then w
       else lvl2_entry s T r' v)"
  proof (cases "T (r', lvl1_index v)")
    case None
    then show ?thesis using T by (auto simp: lvl2_entry_def)
  next
    case (Some p)
    have bp: "slot2_of p v < unat (ram_size s)" using table_bounds [OF wf Some] lvl2_index_less [of v] by linarith
    have "win (slot2_of p v) = win (slot2_of q va) \<longleftrightarrow> slot2_of p v = slot2_of q va"
      using win_inj [of "slot2_of p v" "slot2_of q va"] bp bq vm_geomD(3) [OF wd(1)] by linarith
    also have "\<dots> \<longleftrightarrow> p = q \<and> lvl2_index v = lvl2_index va"
      using in_block_unique [OF wd(2) wd(6) [OF Some] q, of "slot2_of p v"] in_block_table [of "lvl2_index v" p] q2
      by auto
    also have "\<dots> \<longleftrightarrow> r' = r \<and> lvl1_index v = lvl1_index va \<and> lvl2_index v = lvl2_index va"
      using wd(7) [OF Some, of "(r, lvl1_index va)"] T Some by auto
    finally show ?thesis using Some T by (auto simp: lvl2_entry_def s'_def)
  qed
qed

text \<open>Hooking in a fresh, cleared table keeps the invariant and all entries.\<close>

lemma hook_table:
  assumes wf: "vm_wf s F A R T" and r: "r \<in> R" and i: "i < 3072" and T: "T (r, i) = None"
    and alloc: "physical_page_alloc Order1KB (vm_pa s) = Some (Inr q, pa')"
    and inv': "pa_inv pa' F' ((q, Order1KB) # A) []"
  defines "s' \<equiv> s\<lparr>vm_pa := pa', vm_mem := zero_words (1024 * q) 256
      ((vm_mem s)(win (1024 * r + 4 * i) := coarse_entry (phys_of s q)))\<rparr>"
  shows "vm_wf s' F' ((q, Order1KB) # A) R (T((r, i) \<mapsto> q))"
    and "lvl2_entry s' (T((r, i) \<mapsto> q)) r' v = lvl2_entry s T r' v"
proof -
  note w = vm_wfD [OF wf]
  have len: "ram_starting_address pa' = ram_starting_address (vm_pa s)"
    "length (pages_data pa') = length (pages_data (vm_pa s))"
    using alloc_geometry [OF w(2) alloc] by simp_all
  have geom: "vm_geom s'" using w(1) len by (simp add: vm_geom_def s'_def)
  have q: "q < length (pages_data pa')" using pa_inv_bound [OF inv', of q Order1KB] by simp
  have bq: "1024 * q + 1024 \<le> unat (ram_size s)" using vm_geomD(2) [OF w(1), of q] q len by simp
  have sz: "unat (ram_size s) \<le> 2 ^ 29" by (rule vm_geomD(3) [OF w(1)])
  have fresh: "b \<noteq> (q, Order1KB)" if "b \<in> set A" for b
    using pa_inv_heads [OF inv'] that by force
  have apart: "win n \<noteq> win (1024 * q + 4 * j)" if "b \<in> set A" "in_block b n" "n < unat (ram_size s)" "j < 256"
    for b n j
    using words_apart [OF inv' sz, of b "(q, Order1KB)" n "1024 * q + 4 * j"] that bq
      fresh [OF that(1)] in_block_table [OF that(4), of q] by simp
  have phys: "phys_of s' p = phys_of s p" for p by (simp add: phys_of_def s'_def)
  have noq: "T x \<noteq> Some q" for x using w(6) [of x q] fresh by blast
  have root: "lvl1_word s' p m = (if p = r \<and> m = i then coarse_entry (phys_of s q) else lvl1_word s p m)"
    if "p \<in> R" "m < 3072" for p m
  proof -
    have "win (1024 * p + 4 * m) \<noteq> win (1024 * q + 4 * j)" if "j < 256" for j
      using apart [OF w(4) [OF \<open>p \<in> R\<close>] in_block_root slot_bounds [OF wf \<open>p \<in> R\<close>] that] \<open>m < 3072\<close> by simp
    then have a: "lvl1_word s' p m = ((vm_mem s)(win (1024 * r + 4 * i) := coarse_entry (phys_of s q)))
        (win (1024 * p + 4 * m))"
      by (simp add: s'_def zero_words_other del: fun_upd_apply)
    show ?thesis
    proof (cases "p = r \<and> m = i")
      case True
      then show ?thesis using a by simp
    next
      case False
      have "p \<noteq> r \<longrightarrow> (p, Order16KB) \<noteq> (r, Order16KB)" by simp
      then have "win (1024 * p + 4 * m) \<noteq> win (1024 * r + 4 * i)"
      proof (cases "p = r")
        case True
        then show ?thesis
          using False win_inj [of "1024 * p + 4 * m" "1024 * r + 4 * i"] slot_bounds [OF wf that(1), of m]
            slot_bounds [OF wf r, of i] that i sz by simp
      next
        case False
        then show ?thesis
          using words_apart [OF w(2) sz w(4) [OF that(1)] w(4) [OF r] _ in_block_root in_block_root
              slot_bounds [OF wf that(1)] slot_bounds [OF wf r]] that i by simp
      qed
      then show ?thesis using a False by auto
    qed
  qed
  obtain k where k: "kernel_as s = Some k" "k < length (pages_data (vm_pa s))" using w(3) by blast
  have tab: "lvl1_word s' p m = (case (T((r, i) \<mapsto> q)) (p, m) of None \<Rightarrow> 0 | Some t \<Rightarrow> coarse_entry (phys_of s' t))"
    if "p \<in> R" "m < 3072" for p m
    using root [OF that] w(5) [OF that] by (auto simp: phys split: option.splits)
  show "vm_wf s' F' ((q, Order1KB) # A) R (T((r, i) \<mapsto> q))"
    unfolding vm_wf_def
  proof (intro conjI)
    show "pa_inv (vm_pa s') F' ((q, Order1KB) # A) []" using inv' by (simp add: s'_def)
    show "\<exists>k. kernel_as s' = Some k \<and> k < length (pages_data (vm_pa s'))" using k len by (simp add: s'_def)
    show "\<forall>r \<in> R. (r, Order16KB) \<in> set ((q, Order1KB) # A)" using w(4) by simp
    show "\<forall>x t. (T((r, i) \<mapsto> q)) x = Some t \<longrightarrow> (t, Order1KB) \<in> set ((q, Order1KB) # A)" using w(6) by auto
    show "\<forall>x y t. (T((r, i) \<mapsto> q)) x = Some t \<longrightarrow> (T((r, i) \<mapsto> q)) y = Some t \<longrightarrow> x = y"
      using w(7) noq by (auto split: if_splits)
  qed (use geom tab in blast)+
  show "lvl2_entry s' (T((r, i) \<mapsto> q)) r' v = lvl2_entry s T r' v"
  proof (cases "r' = r \<and> lvl1_index v = i")
    case True
    then show ?thesis using T zero_words_in [OF lvl2_index_less [of v], of "1024 * q"]
      by (simp add: lvl2_entry_def s'_def)
  next
    case False
    show ?thesis
    proof (cases "T (r', lvl1_index v)")
      case None
      then show ?thesis using False by (auto simp: lvl2_entry_def)
    next
      case (Some t)
      have ta: "(t, Order1KB) \<in> set A" by (rule w(6) [OF Some])
      have b: "slot2_of t v < unat (ram_size s)" using table_bounds [OF wf Some] lvl2_index_less [of v] by linarith
      have "win (slot2_of t v) \<noteq> win (1024 * q + 4 * j)" if "j < 256" for j
        using apart [OF ta in_block_table b that] by simp
      moreover have "win (slot2_of t v) \<noteq> win (1024 * r + 4 * i)"
        using words_apart [OF w(2) sz ta w(4) [OF r] _ in_block_table in_block_root b slot_bounds [OF wf r]] i by simp
      ultimately have "vm_mem s' (win (slot2_of t v)) = vm_mem s (win (slot2_of t v))"
        by (simp add: s'_def zero_words_other)
      then show ?thesis using Some False by (auto simp: lvl2_entry_def)
    qed
  qed
qed

end
