(* ===== verification/VmProps.thy ===== *)
theory VmProps
  imports VmInv PageAllocator
begin

text \<open>
  The properties of the virtual memory: what mapping, translating and unmapping a page of user memory do
  to all address spaces, and the bitmap of the device mappings.
\<close>

subsection \<open>Mapping\<close>

definition same_entry :: "u32 \<Rightarrow> u32 \<Rightarrow> bool" where
  "same_entry v va \<longleftrightarrow> lvl1_index v = lvl1_index va \<and> lvl2_index v = lvl2_index va"

text \<open>What changes from \<open>s\<close> to \<open>s'\<close>: the entry of \<open>va\<close> in \<open>r\<close> becomes \<open>w\<close>, all other entries stay.\<close>

definition one_entry_changed ::
  "vm_state \<Rightarrow> (nat \<times> nat \<Rightarrow> nat option) \<Rightarrow> nat \<Rightarrow> u32 \<Rightarrow> u32 \<Rightarrow> vm_state \<Rightarrow> (nat \<times> nat \<Rightarrow> nat option) \<Rightarrow> bool" where
  "one_entry_changed s T r va w s' T' \<longleftrightarrow>
     (\<forall>r' v. lvl2_entry s' T' r' v = (if r' = r \<and> same_entry v va then w else lvl2_entry s T r' v))"

definition vm_frame :: "vm_state \<Rightarrow> vm_state \<Rightarrow> bool" where
  "vm_frame s s' \<longleftrightarrow> kernel_as s' = kernel_as s \<and> current_as s' = current_as s \<and> ttbr0 s' = ttbr0 s \<and>
     ram_phys_start s' = ram_phys_start s \<and> ram_size s' = ram_size s \<and>
     length (pages_data (vm_pa s')) = length (pages_data (vm_pa s))"

lemma alloc_1KB_or_fail:
  assumes "pa_inv pa F A []"
  obtains (full) "physical_page_alloc Order1KB pa = Some (Inl OutOfMemory, pa)" "\<forall>ord. F ord = []"
  | (page) q pa' F' where "physical_page_alloc Order1KB pa = Some (Inr q, pa')"
      "pa_inv pa' F' ((q, Order1KB) # A) []" "\<exists>ord. F ord \<noteq> []"
proof -
  obtain r pa' where run: "physical_page_alloc Order1KB pa = Some (r, pa')"
    and post: "page_alloc_post pa F A Order1KB r pa'" by (rule physical_page_alloc_post [OF assms])
  show ?thesis
  proof (cases r)
    case (Inl e)
    have "\<forall>ord. order_pages Order1KB \<le> order_pages ord"
      by (rule allI, rename_tac x, case_tac x) simp_all
    then show ?thesis using full run post Inl by simp
  next
    case (Inr q)
    then obtain F' where F': "pa_inv pa' F' ((q, Order1KB) # A) []"
      and m: "mset (cover (free_blocks F)) = mset (block_pages (q, Order1KB)) + mset (cover (free_blocks F'))"
      using post by (auto elim: page_alloc_post_InrE)
    have "\<exists>ord. F ord \<noteq> []"
    proof (rule ccontr)
      assume "\<not> ?thesis"
      then have "free_blocks F = []" by (simp add: free_blocks_def)
      then show False using m by (simp add: block_pages_def)
    qed
    then show ?thesis using page run Inr F' by blast
  qed
qed

lemma map_page_core:
  assumes wf: "vm_wf s F A R T" and r: "r \<in> R" and va: "user_va va" and e0: "lvl2_entry s T r va = 0"
    and mem: "T (r, lvl1_index va) \<noteq> None \<or> (\<exists>ord. F ord \<noteq> [])"
  obtains s' F' A' T' where "vm_map_page (win (1024 * r)) phys va perm s = Some s'"
    "vm_wf s' F' A' R T'" "one_entry_changed s T r va (small_entry phys perm) s' T'"
    "vm_frame s s'" "T' (r, lvl1_index va) \<noteq> None"
proof (cases "T (r, lvl1_index va)")
  case (Some q)
  note m = vm_map_page_existing [OF wf r va Some e0, of phys perm]
  show ?thesis
    by (rule that [OF m write_lvl2(1) [OF wf r Some]])
      (use write_lvl2(2) [OF wf r Some] Some in \<open>simp_all add: one_entry_changed_def same_entry_def vm_frame_def\<close>)
next
  case None
  then have ne: "\<not> (\<forall>ord. F ord = [])" using mem by simp
  show ?thesis
  proof (rule alloc_1KB_or_fail [OF vm_wfD(2) [OF wf]])
    fix q pa' F'
    assume alloc: "physical_page_alloc Order1KB (vm_pa s) = Some (Inr q, pa')"
      and inv': "pa_inv pa' F' ((q, Order1KB) # A) []"
    note i = user_va_lvl1 [OF va]
    let ?s1 = "s\<lparr>vm_pa := pa', vm_mem := zero_words (1024 * q) 256
      ((vm_mem s)(win (1024 * r + 4 * lvl1_index va) := coarse_entry (phys_of s q)))\<rparr>"
    let ?T = "T((r, lvl1_index va) \<mapsto> q)"
    note h = hook_table [OF wf r i None alloc inv']
    have T': "?T (r, lvl1_index va) = Some q" by simp
    let ?s2 = "?s1\<lparr>vm_mem := (vm_mem ?s1)(win (slot2_of q va) := small_entry phys perm)\<rparr>"
    note w = write_lvl2 [OF h(1) r T', where w = "small_entry phys perm"]
    have run: "vm_map_page (win (1024 * r)) phys va perm s = Some ?s2"
      using vm_map_page_new [OF wf r va None alloc inv', of phys perm] by simp
    show ?thesis
    proof (rule that [OF run w(1)])
      show "one_entry_changed s T r va (small_entry phys perm) ?s2 ?T"
        unfolding one_entry_changed_def same_entry_def w(2) h(2) by blast
      show "vm_frame s ?s2" using alloc_geometry [OF vm_wfD(2) [OF wf] alloc] by (simp add: vm_frame_def)
    qed simp
  qed (use ne in blast)
qed

lemma map_page_panics:
  assumes wf: "vm_wf s F A R T" and r: "r \<in> R" and va: "user_va va"
    and none: "T (r, lvl1_index va) = None" "\<forall>ord. F ord = []"
  shows "vm_map_page (win (1024 * r)) phys va perm s = None"
proof -
  note w = vm_wfD [OF wf]
  have i: "lvl1_index va < 3072" by (rule user_va_lvl1 [OF va])
  have b1: "slot1_of r va < unat (ram_size s)" using slot_bounds [OF wf r] i by simp
  obtain k where k: "kernel_as s = Some k" "k < length (pages_data (vm_pa s))" using w(3) by blast
  have mem0: "vm_mem s (win (slot1_of r va)) = 0" using w(5) [OF r i] none(1) by simp
  have full: "physical_page_alloc Order1KB (vm_pa s) = Some (Inl OutOfMemory, vm_pa s)"
    by (rule alloc_1KB_or_fail [OF w(2)]) (use none(2) in auto)
  have "fill_lvl1_slot kt (win (1024 * r)) va s = None" for kt
    using load_win [OF w(1) b1] mem0 user_va_not_kernel [OF va] full
    by (simp add: fill_lvl1_slot_def alloc_lvl2_table_def table_slot_win)
  then show ?thesis
    using load_win [OF w(1) b1] root_table_ptr [OF w(1) k(2)] k(1) mem0
    by (auto simp: vm_map_page_def table_slot_win bind_eq_None_conv)
qed

lemma vm_map_root:
  assumes wf: "vm_wf s F A R T" and r: "r \<in> R" and p: "page < length (pages_data (vm_pa s))"
  shows "vm_map (Some r) page va perm s = vm_map_page (win (1024 * r)) (phys_of s page) va perm s"
  using page2addr_phys [OF vm_wfD(1) [OF wf] p]
    root_table_ptr [OF vm_wfD(1) [OF wf] block_head [OF vm_wfD(2,4) [OF wf]]] r
  by (simp add: vm_map_def)

lemma lvl2_entry_cong: "vm_mem s' = vm_mem s \<Longrightarrow> lvl2_entry s' T r va = lvl2_entry s T r va"
  by (simp add: lvl2_entry_def cong: option.case_cong)

lemma vm_wf_current [simp]: "vm_wf (s\<lparr>current_as := c\<rparr>) F A R T = vm_wf s F A R T"
  by (simp add: vm_wf_def vm_geom_def phys_of_def cong: option.case_cong)

lemma lvl2_entry_current [simp]: "lvl2_entry (s\<lparr>current_as := c\<rparr>) = lvl2_entry s"
  by (intro ext) (simp add: lvl2_entry_def cong: option.case_cong)

lemma lvl2_entry_same:
  "lvl1_index v = lvl1_index va \<Longrightarrow> lvl2_index v = lvl2_index va \<Longrightarrow> lvl2_entry s T r v = lvl2_entry s T r va"
  unfolding lvl2_entry_def by (simp only:)

text \<open>Translation in the current address space.\<close>

lemma section_of_0: "se_identifier (section_of 0) = 0"
  by (simp add: section_of_def)

lemma virt2phys_user:
  assumes wf: "vm_wf s F A R T" and r: "r \<in> R" "current_as s = Some r" and va: "user_va va"
  shows "virt2phys s va = Some (case T (r, lvl1_index va) of
      None \<Rightarrow> 0
    | Some q \<Rightarrow> small_page_base_address (small_page_of (lvl2_entry s T r va)) OR (va AND 0xfff))"
proof -
  note w = vm_wfD [OF wf]
  have i: "lvl1_index va < 3072" by (rule user_va_lvl1 [OF va])
  have b1: "slot1_of r va < unat (ram_size s)" using slot_bounds [OF wf r(1)] i by simp
  note pre = load_win [OF w(1) b1] root_table_ptr [OF w(1) block_head [OF w(2) w(4) [OF r(1)]]] w(5) [OF r(1) i]
  show ?thesis
  proof (cases "T (r, lvl1_index va)")
    case None
    then show ?thesis using pre r(2) by (simp add: virt2phys_def table_slot_win section_of_0)
  next
    case (Some q)
    have q: "q < length (pages_data (vm_pa s))" using block_head [OF w(2) w(6) [OF Some]] .
    have b2: "slot2_of q va < unat (ram_size s)"
      using table_bounds [OF wf Some] lvl2_index_less [of va] by linarith
    show ?thesis using pre Some r(2) load_win [OF w(1) b2] coarse_entry_base [OF w(1) q]
      by (simp add: virt2phys_def table_slot_win coarse_entry_identifier lvl2_entry_def
          COARSE_PAGE_TABLE_ENTRY_ID_def SECTION_ENTRY_ID_def)
  qed
qed

subsection \<open>Unmapping\<close>

lemma table_is_empty_win:
  "vm_geom s \<Longrightarrow> n + 4 * k \<le> unat (ram_size s) \<Longrightarrow>
   table_is_empty s (win n) k = Some (\<forall>j < k. vm_mem s (win (n + 4 * j)) = 0)"
proof (induction k arbitrary: n)
  case (Suc k)
  have "load s (win n) = Some (vm_mem s (win n))" using Suc.prems by (intro load_win) simp_all
  moreover have "win n + 4 = win (n + 4)" using win_add [of n 4] by simp
  ultimately show ?case using Suc.IH [of "n + 4"] Suc.prems
    by (simp add: All_less_Suc2 add.assoc)
qed simp

lemma vm_unmap_root:
  assumes wf: "vm_wf s F A R T" and r: "r \<in> R" and va: "user_va va"
  shows "vm_unmap (Some r) va s = vm_unmap_page (win (1024 * r)) va s"
  using root_table_ptr [OF vm_wfD(1) [OF wf] block_head [OF vm_wfD(2,4) [OF wf]]] r user_va_not_kernel [OF va]
  by (simp add: vm_unmap_def)

lemma vm_unmap_unmapped:
  assumes wf: "vm_wf s F A R T" and r: "r \<in> R" and va: "user_va va" and e: "lvl2_entry s T r va = 0"
  shows "vm_unmap_page (win (1024 * r)) va s = Some (0, s)"
proof -
  note w = vm_wfD [OF wf]
  have i: "lvl1_index va < 3072" by (rule user_va_lvl1 [OF va])
  have b1: "slot1_of r va < unat (ram_size s)" using slot_bounds [OF wf r] i by simp
  note pre = load_win [OF w(1) b1] w(5) [OF r i]
  show ?thesis
  proof (cases "T (r, lvl1_index va)")
    case None
    then show ?thesis using pre by (simp add: vm_unmap_page_def table_slot_win section_of_0 SECTION_ENTRY_ID_def)
  next
    case (Some q)
    have q: "q < length (pages_data (vm_pa s))" using block_head [OF w(2) w(6) [OF Some]] .
    have b2: "slot2_of q va < unat (ram_size s)"
      using table_bounds [OF wf Some] lvl2_index_less [of va] by linarith
    show ?thesis using pre Some e load_win [OF w(1) b2] coarse_entry_base [OF w(1) q]
      by (simp add: vm_unmap_page_def table_slot_win coarse_entry_identifier lvl2_entry_def
          COARSE_PAGE_TABLE_ENTRY_ID_def SECTION_ENTRY_ID_def)
  qed
qed

text \<open>After the entry has been cleared the table is either still in use or returned to the allocator.\<close>

lemma vm_unmap_mapped:
  assumes wf: "vm_wf s F A R T" and r: "r \<in> R" and va: "user_va va"
    and T: "T (r, lvl1_index va) = Some q" and e: "lvl2_entry s T r va \<noteq> 0"
  shows "vm_unmap_page (win (1024 * r)) va s = do {
      let s1 = s\<lparr>vm_mem := (vm_mem s)(win (slot2_of q va) := 0)\<rparr>;
      s2 \<leftarrow> (if \<forall>j < 256. vm_mem s1 (win (1024 * q + 4 * j)) = 0
             then free_lvl2_table (win (slot1_of r va)) s1 else Some s1);
      Some (small_page_base_address (small_page_of (lvl2_entry s T r va)), s2) }"
proof -
  note w = vm_wfD [OF wf]
  have i: "lvl1_index va < 3072" by (rule user_va_lvl1 [OF va])
  have b1: "slot1_of r va < unat (ram_size s)" using slot_bounds [OF wf r] i by simp
  have q: "q < length (pages_data (vm_pa s))" using block_head [OF w(2) w(6) [OF T]] .
  have bq: "1024 * q + 1024 \<le> unat (ram_size s)" by (rule table_bounds [OF wf T])
  have b2: "slot2_of q va < unat (ram_size s)" using bq lvl2_index_less [of va] by linarith
  let ?s1 = "s\<lparr>vm_mem := (vm_mem s)(win (slot2_of q va) := 0)\<rparr>"
  have emp: "table_is_empty ?s1 (win (1024 * q)) 256 =
      Some (\<forall>j < 256. vm_mem ?s1 (win (1024 * q + 4 * j)) = 0)"
    by (rule table_is_empty_win) (use w(1) bq in simp_all)
  show ?thesis
    using load_win [OF w(1) b1] w(5) [OF r i] T e load_win [OF w(1) b2] store_win [OF w(1) b2, of 0]
      coarse_entry_base [OF w(1) q] user_va_not_kernel [OF va] emp
    by (simp add: vm_unmap_page_def table_slot_win coarse_entry_identifier lvl2_entry_def LVL2_ENTRIES_def
        COARSE_PAGE_TABLE_ENTRY_ID_def SECTION_ENTRY_ID_def Let_def del: fun_upd_apply)
qed

lemma unmap_keeping_table:
  assumes wf: "vm_wf s F A R T" and r: "r \<in> R" and va: "user_va va"
    and e: "lvl2_entry s T r va \<noteq> 0"
    and v: "lvl1_index v = lvl1_index va" "lvl2_index v \<noteq> lvl2_index va" "lvl2_entry s T r v \<noteq> 0"
  obtains s' where
    "vm_unmap_page (win (1024 * r)) va s =
       Some (small_page_base_address (small_page_of (lvl2_entry s T r va)), s')"
    "vm_wf s' F A R T" "one_entry_changed s T r va 0 s' T" "vm_frame s s'"
proof -
  obtain q where T: "T (r, lvl1_index va) = Some q" using e by (auto simp: lvl2_entry_def split: option.splits)
  let ?s1 = "s\<lparr>vm_mem := (vm_mem s)(win (slot2_of q va) := 0)\<rparr>"
  note w = write_lvl2 [OF wf r T, where w = 0]
  have "lvl2_entry ?s1 T r v \<noteq> 0" using w(2) [of r v] v by simp
  then have "vm_mem ?s1 (win (slot2_of q v)) \<noteq> 0" using T v(1) by (simp add: lvl2_entry_def)
  then have "\<not> (\<forall>j < 256. vm_mem ?s1 (win (1024 * q + 4 * j)) = 0)" using lvl2_index_less [of v] by blast
  then have "vm_unmap_page (win (1024 * r)) va s =
      Some (small_page_base_address (small_page_of (lvl2_entry s T r va)), ?s1)"
    unfolding vm_unmap_mapped [OF wf r va T e] Let_def by (simp only: if_False bind.bind_lunit)
  then show ?thesis using that w by (simp add: one_entry_changed_def same_entry_def vm_frame_def)
qed

text \<open>The block that leaves a table empty goes to the list of the 16 KB blocks and is handed out from there.\<close>

lemma free_as_16KB:
  assumes inv: "pa_inv s F A []" and q: "(q, ord) \<in> set A" and one: "ref_count (pages_data s ! q) = 1"
  obtains s1 s2 where "physical_page_free q Order16KB s = Some s1"
    "physical_page_alloc Order16KB s1 = Some (Inr q, s2)"
proof -
  have bound: "q < length (pages_data s)" using pa_inv_bound [OF inv, of q ord] q by simp
  have none: "next_page (pages_data s ! q) = None" using pa_inv_next_None [OF inv, of q ord] q by simp
  let ?s1 = "set_free_list Order16KB (Some q)
    (set_next q (free_pages_lists s Order16KB) (set_ref_count q 0 s))"
  have free: "physical_page_free q Order16KB s = Some ?s1"
    using bound none one
    by (simp add: physical_page_free_def page_at_def raw_page_free.simps [of q Order16KB]
        append_page_to_free_pages_list_def)
  have alloc: "\<exists>s2. physical_page_alloc Order16KB ?s1 = Some (Inr q, s2)"
    using bound
    by (simp add: physical_page_alloc_def raw_page_alloc_def raw_page_alloc_16KB_def pop_result_def
        pop_page_from_free_pages_list_def page_at_def)
  show ?thesis using that free alloc by blast
qed

lemma lvl1_index_div: "lvl1_index v = unat v div 1048576"
  by (simp add: lvl1_index_def drop_bit_eq_div unat_div)

lemma lvl2_index_div: "lvl2_index v = unat v div 4096 mod 256"
proof -
  have "lvl2_index v = unat (drop_bit 12 v AND mask 8)" by (simp add: lvl2_index_def mask_eq_exp_minus_1)
  then show ?thesis by (simp only: and_mask_unat) (simp add: drop_bit_eq_div unat_div)
qed

text \<open>Every second level slot belongs to an address of the same megabyte.\<close>

lemma index_exists:
  assumes "j < 256"
  shows "\<exists>v. lvl1_index v = lvl1_index va \<and> lvl2_index v = j"
proof -
  let ?k = "unat va div 1048576"
  let ?v = "word_of_nat (1048576 * ?k + 4096 * j) :: u32"
  have k: "?k < 4096" using unat_u32_less [of va] by (simp add: div_less_iff_less_mult)
  then have v: "unat ?v = 1048576 * ?k + 4096 * j" using assms by (intro unat_of_nat_u32) simp
  have "unat ?v div 1048576 = ?k" unfolding v using assms by simp
  moreover have "unat ?v div 4096 mod 256 = j"
  proof -
    have "1048576 * ?k + 4096 * j = 4096 * (256 * ?k + j)" by simp
    then show ?thesis unfolding v using assms by simp
  qed
  ultimately show ?thesis unfolding lvl1_index_div lvl2_index_div by blast
qed

lemma unmap_freeing_table:
  assumes wf: "vm_wf s F A R T" and r: "r \<in> R" and va: "user_va va"
    and T: "T (r, lvl1_index va) = Some q" and e: "lvl2_entry s T r va \<noteq> 0"
    and last: "\<forall>v. lvl1_index v = lvl1_index va \<longrightarrow> lvl2_index v \<noteq> lvl2_index va \<longrightarrow> lvl2_entry s T r v = 0"
    and one: "ref_count (pages_data (vm_pa s) ! q) = 1"
  obtains s' pa' where
    "vm_unmap_page (win (1024 * r)) va s =
       Some (small_page_base_address (small_page_of (lvl2_entry s T r va)), s')"
    "physical_page_alloc Order16KB (vm_pa s') = Some (Inr q, pa')"
proof -
  let ?s1 = "s\<lparr>vm_mem := (vm_mem s)(win (slot2_of q va) := 0)\<rparr>"
  note w = vm_wfD [OF wf]
  note w1 = write_lvl2 [OF wf r T, where w = 0]
  have i: "lvl1_index va < 3072" by (rule user_va_lvl1 [OF va])
  have b1: "slot1_of r va < unat (ram_size s)" using slot_bounds [OF wf r] i by simp
  have q: "(q, Order1KB) \<in> set A" by (rule w(6) [OF T])
  have ql: "q < length (pages_data (vm_pa s))" by (rule block_head [OF w(2) q])
  have "vm_mem ?s1 (win (1024 * q + 4 * j)) = 0" if j: "j < 256" for j
  proof -
    obtain v where v: "lvl1_index v = lvl1_index va" "lvl2_index v = j"
      using index_exists [OF j, of va] by blast
    have "lvl2_entry ?s1 T r v = 0" using w1(2) [of r v] last v by (cases "lvl2_index v = lvl2_index va") auto
    then show ?thesis using v T by (simp add: lvl2_entry_def)
  qed
  then have empty: "\<forall>j < 256. vm_mem ?s1 (win (1024 * q + 4 * j)) = 0" by blast
  obtain pa1 pa2 where free: "physical_page_free q Order16KB (vm_pa s) = Some pa1"
    and alloc: "physical_page_alloc Order16KB pa1 = Some (Inr q, pa2)"
    by (rule free_as_16KB [OF w(2) q one])
  have range: "unat (ram_starting_address (vm_pa s)) + length (pages_data (vm_pa s)) * 1024 \<le> 2 ^ 32"
    using w(2) by (simp add: pa_inv_def)
  have a2p: "addr2page (vm_pa s) (phys_of s q) = Some q"
    using addr2page_of_page [OF range ql] vm_geomD(1) [OF w(1)] by (simp add: phys_of_def mult.commute)
  have geom1: "vm_geom ?s1" using w(1) by simp
  have in1: "in_window ?s1 (win (slot1_of r va))"
    using in_window_win [OF b1 vm_geomD(3) [OF w(1)]] by (simp add: in_window_def)
  have lvl1: "lvl1_word ?s1 r (lvl1_index va) = coarse_entry (phys_of s q)"
    using vm_wfD(5) [OF w1(1) r i] T by (simp add: phys_of_def)
  have "coarse_base_address (coarse_of (coarse_entry (phys_of s q))) = phys_of s q"
    using phys_of_aligned [OF w(1) ql] by (simp add: coarse_entry_def coarse_entry_fields coarse_base_make)
  then have "\<exists>m. free_lvl2_table (win (slot1_of r va)) ?s1 = Some (?s1\<lparr>vm_pa := pa1, vm_mem := m\<rparr>)"
    using in1 lvl1 a2p free
    by (auto simp: free_lvl2_table_def load_def store_def in_window_def intro: exI)
  then obtain m where f: "free_lvl2_table (win (slot1_of r va)) ?s1 = Some (?s1\<lparr>vm_pa := pa1, vm_mem := m\<rparr>)"
    by blast
  have "vm_unmap_page (win (1024 * r)) va s = Some (small_page_base_address (small_page_of (lvl2_entry s T r va)),
      ?s1\<lparr>vm_pa := pa1, vm_mem := m\<rparr>)"
    unfolding vm_unmap_mapped [OF wf r va T e] Let_def using empty f by simp
  then show ?thesis using that alloc by simp
qed

subsection \<open>The bitmap of the device mappings\<close>

definition free_run :: "bool list \<Rightarrow> nat \<Rightarrow> nat \<Rightarrow> bool" where
  "free_run us i cnt \<longleftrightarrow> i + cnt \<le> length us \<and> (\<forall>k < cnt. \<not> us ! (i + k))"

lemma run_end_le: "i < j \<Longrightarrow> j - i \<le> cnt \<Longrightarrow> run_end us i cnt j - i \<le> cnt"
  by (induction us i cnt j rule: run_end.induct) auto

lemma run_end_iff:
  "j - i + d = cnt \<Longrightarrow> i < j \<Longrightarrow> run_end us i cnt j - i = cnt \<longleftrightarrow> free_run us 0 d"
proof (induction us i cnt j arbitrary: d rule: run_end.induct)
  case (1 i cnt j)
  then show ?case by (auto simp: free_run_def)
next
  case (2 u us i cnt j)
  show ?case
  proof (cases "u \<or> j - i = cnt")
    case True
    then show ?thesis using 2 by (cases d) (auto simp: free_run_def All_less_Suc2)
  next
    case False
    then obtain d' where d: "d = Suc d'" using 2 by (cases d) auto
    have "free_run (u # us) 0 d \<longleftrightarrow> free_run us 0 d'"
      using False by (auto simp: free_run_def d All_less_Suc2)
    then show ?thesis using 2 False d by simp
  qed
qed

lemma free_run_Cons: "free_run (u # us) (Suc i) cnt = free_run us i cnt"
  by (simp add: free_run_def)

lemma free_run_here:
  "0 < cnt \<Longrightarrow> free_run (u # us) 0 cnt \<longleftrightarrow> \<not> u \<and> run_end us i cnt (i + 1) - i = cnt"
proof -
  assume "0 < cnt"
  then obtain d where d: "cnt = Suc d" by (cases cnt) auto
  then have "run_end us i cnt (i + 1) - i = cnt \<longleftrightarrow> free_run us 0 d" by (intro run_end_iff) simp_all
  then show ?thesis by (auto simp: free_run_def d All_less_Suc2)
qed

lemma find_run_spec:
  "0 < cnt \<Longrightarrow>
   (case find_run us i cnt of
      None \<Rightarrow> \<forall>j. \<not> free_run us j cnt
    | Some k \<Rightarrow> i \<le> k \<and> free_run us (k - i) cnt \<and> (\<forall>j < k - i. \<not> free_run us j cnt))"
proof (induction us i cnt rule: find_run.induct)
  case (1 i cnt)
  then show ?case by (simp add: free_run_def)
next
  case (2 u us i cnt)
  show ?case
  proof (cases "free_run (u # us) 0 cnt")
    case True
    then show ?thesis using free_run_here [OF 2(3), of u us i] by auto
  next
    case False
    then have step: "find_run (u # us) i cnt = find_run us (i + 1) cnt"
      using free_run_here [OF 2(3), of u us i] by auto
    have IH: "case find_run us (i + 1) cnt of
        None \<Rightarrow> \<forall>j. \<not> free_run us j cnt
      | Some k \<Rightarrow> i + 1 \<le> k \<and> free_run us (k - (i + 1)) cnt \<and> (\<forall>j < k - (i + 1). \<not> free_run us j cnt)"
      using 2 False free_run_here [OF 2(3), of u us i] by (cases u) auto
    show ?thesis
    proof (cases "find_run us (i + 1) cnt")
      case None
      then have "\<not> free_run (u # us) j cnt" for j
        using IH False by (cases j) (simp_all add: free_run_Cons)
      then show ?thesis using None step by simp
    next
      case (Some k)
      then have "i + 1 \<le> k" using IH by simp
      then obtain m where m: "k = i + 1 + m" using le_Suc_ex by blast
      have "\<not> free_run (u # us) j cnt" if "j < Suc m" for j
        using IH False that Some m by (cases j) (simp_all add: free_run_Cons)
      then show ?thesis using IH Some m step by (simp add: free_run_Cons)
    qed
  qed
qed

lemma set_run_length [simp]: "i + cnt \<le> length us \<Longrightarrow> length (set_run b i cnt us) = length us"
  by (simp add: set_run_def)

lemma set_run_nth:
  "i + cnt \<le> length us \<Longrightarrow> k < length us \<Longrightarrow>
   set_run b i cnt us ! k = (if i \<le> k \<and> k < i + cnt then b else us ! k)"
  by (auto simp: set_run_def nth_append min_def)

lemma set_run_undo: "free_run us i cnt \<Longrightarrow> set_run False i cnt (set_run True i cnt us) = us"
  by (rule nth_equalityI) (auto simp: set_run_nth free_run_def le_iff_add)

lemma peripherals_page:
  assumes "i < 8192"
  shows "unat (peripherals_start + word_of_nat i * 4096) = 0xc1000000 + 4096 * i"
proof -
  have "peripherals_start + word_of_nat i * 4096 = (word_of_nat (0xc1000000 + 4096 * i) :: u32)"
    by (simp add: peripherals_start_def kernel_area_start_def mult.commute)
  then show ?thesis using assms by (simp only:) (rule unat_of_nat_u32, simp)
qed

subsection \<open>A concrete machine for the witnesses\<close>

text \<open>
  64 KB of RAM at \<open>0x40000000\<close>: the root table of an address space is block 16, its second level table for
  the first megabyte is page 32, page 33 belongs to somebody else, and the page at \<open>0x1000\<close> is mapped to
  page 36.
\<close>

definition vm_example_pa :: phys_alloc where
  "vm_example_pa = \<lparr>pages_data =
       map (\<lambda>p. \<lparr>ref_count = if p \<in> {16, 32, 33} then 1 else 0, next_page = None\<rparr>) [0..<64],
     ram_starting_address = 0x40000000, free_pages_lists = (\<lambda>_. None)\<rparr>"

definition vm_example :: vm_state where
  "vm_example = \<lparr>vm_pa = vm_example_pa,
     vm_mem = (\<lambda>_. 0)(win 16384 := coarse_entry 0x40008000, win 32772 := small_entry 0x40009000 UserFullAccess),
     kernel_as = Some 0, current_as = Some 16, ttbr0 = 0x40004000, ioremap_used = replicate 8192 False,
     ram_phys_start = 0x40000000, ram_size = 0x10000, init_state = InitCompleted\<rparr>"

definition vm_example_tables :: "nat \<times> nat \<Rightarrow> nat option" where
  "vm_example_tables = [(16, 0) \<mapsto> 32]"

definition vm_example_blocks :: "block list" where
  "vm_example_blocks = [(16, Order16KB), (32, Order1KB), (33, Order1KB)]"

lemma vm_example_pa_inv: "pa_inv vm_example_pa (\<lambda>_. []) vm_example_blocks []"
proof -
  have "distinct (cover vm_example_blocks)"
    by (simp add: vm_example_blocks_def block_pages_def upt_rec)
  then have "blocks_ok 64 (free_blocks (\<lambda>_. []) @ vm_example_blocks @ [])"
    by (simp add: blocks_ok_def free_blocks_def vm_example_blocks_def aligned_block_def)
  moreover have "fst ` set vm_example_blocks = {16, 32, 33}" by (simp add: vm_example_blocks_def)
  ultimately show ?thesis by (simp add: pa_inv_def vm_example_pa_def)
qed

lemma vm_example_phys: "phys_of vm_example 32 = 0x40008000" "phys_of vm_example 36 = 0x40009000"
  by (simp_all add: phys_of_def vm_example_def)

lemma vm_example_geom: "vm_geom vm_example"
  by (simp add: vm_geom_def vm_example_def vm_example_pa_def mask_eq_exp_minus_1)

lemma vm_example_mem:
  "vm_mem vm_example = (\<lambda>_. 0)(win 16384 := coarse_entry (phys_of vm_example 32),
     win 32772 := small_entry (phys_of vm_example 36) UserFullAccess)"
  unfolding vm_example_phys by (simp add: vm_example_def)

lemma vm_example_wf: "vm_wf vm_example (\<lambda>_. []) vm_example_blocks {16} vm_example_tables"
proof -
  have "lvl1_word vm_example 16 i =
      (case vm_example_tables (16, i) of None \<Rightarrow> 0 | Some q \<Rightarrow> coarse_entry (phys_of vm_example q))"
    if "i < 3072" for i
    using that win_inj [of "16384 + 4 * i" 16384] win_inj [of "16384 + 4 * i" 32772]
    by (cases "i = 0") (simp_all add: vm_example_tables_def vm_example_mem)
  moreover have "kernel_as vm_example = Some 0" "vm_pa vm_example = vm_example_pa"
    "length (pages_data vm_example_pa) = 64"
    by (simp_all add: vm_example_def vm_example_pa_def)
  ultimately show ?thesis
    using vm_example_geom vm_example_pa_inv
    by (auto simp: vm_wf_def vm_example_tables_def vm_example_blocks_def split: if_splits)
qed

lemma vm_example_entry:
  "va < 0x100000 \<Longrightarrow> lvl2_entry vm_example vm_example_tables 16 va =
     (if lvl2_index va = 1 then small_entry 0x40009000 UserFullAccess else 0)"
proof -
  assume "va < 0x100000"
  then have "lvl1_index va = 0" by (simp add: lvl1_index_div word_less_nat_alt)
  then show ?thesis
    using win_inj [of "32768 + 4 * lvl2_index va" 16384] win_inj [of "32768 + 4 * lvl2_index va" 32772]
      lvl2_index_less [of va]
    by (simp add: lvl2_entry_def vm_example_tables_def vm_example_mem vm_example_phys)
qed

lemma vm_example_sel:
  "length (pages_data (vm_pa vm_example)) = 64" "current_as vm_example = Some 16"
  "ref_count (pages_data (vm_pa vm_example) ! 32) = 1" "(33, Order1KB) \<in> set vm_example_blocks"
  by (simp_all add: vm_example_def vm_example_pa_def vm_example_blocks_def)

lemma vm_example_low:
  "va < 0x100000 \<Longrightarrow> user_va va \<and> lvl1_index va = 0 \<and> vm_example_tables (16, lvl1_index va) = Some 32"
  by (auto simp: user_va_def kernel_area_start_def lvl1_index_div word_less_nat_alt vm_example_tables_def)

subsection \<open>The properties\<close>

text \<open>
  What is written into a translation table entry is what is read back from it: the fields of coarse,
  section and small page entries do not overlap, the three kinds of entries cannot be mistaken for each
  other, the base address comes back without its offset bits and the access permissions come back exactly.
\<close>

theorem table_entry_roundtrip:
  "coarse_of (coarse_raw (make_coarse_entry a)) = make_coarse_entry a \<and>
   section_of (section_raw (make_section_entry a p)) = make_section_entry a p \<and>
   small_page_of (small_page_raw (make_small_page_entry a p)) = make_small_page_entry a p \<and>
   coarse_base_address (make_coarse_entry a) = a AND NOT (mask 10) \<and>
   section_base_address (make_section_entry a p) = a AND NOT (mask 20) \<and>
   small_page_base_address (make_small_page_entry a p) = a AND NOT (mask 12) \<and>
   small_page_permissions (make_small_page_entry a p) = p \<and>
   is_coarse_page (coarse_raw (make_coarse_entry a)) \<and> \<not> is_section (coarse_raw (make_coarse_entry a)) \<and>
   is_section (section_raw (make_section_entry a p)) \<and> \<not> is_coarse_page (section_raw (make_section_entry a p)) \<and>
   \<not> is_empty (coarse_raw (make_coarse_entry a)) \<and> \<not> is_empty (section_raw (make_section_entry a p))"
proof -
  have sec: "se_identifier (section_of (section_raw (make_section_entry a p))) = SECTION_ENTRY_ID"
    unfolding section_entry_fields by (simp add: make_section_entry_def)
  have crs: "se_identifier (section_of (coarse_raw (make_coarse_entry a))) = COARSE_PAGE_TABLE_ENTRY_ID"
    using coarse_entry_identifier [of a] by (simp add: coarse_entry_def)
  have same: "cp_identifier (coarse_of x) = se_identifier (section_of x)" for x
    by (simp add: coarse_of_def section_of_def)
  have ids: "is_coarse_page (coarse_raw (make_coarse_entry a))" "\<not> is_section (coarse_raw (make_coarse_entry a))"
    "is_section (section_raw (make_section_entry a p))" "\<not> is_coarse_page (section_raw (make_section_entry a p))"
    unfolding is_coarse_page_def is_section_def same sec crs
    by (simp_all add: SECTION_ENTRY_ID_def COARSE_PAGE_TABLE_ENTRY_ID_def)
  have nonempty: "\<not> is_empty (coarse_raw (make_coarse_entry a))" "\<not> is_empty (section_raw (make_section_entry a p))"
    using sec crs section_of_0 by (auto simp: is_empty_def SECTION_ENTRY_ID_def COARSE_PAGE_TABLE_ENTRY_ID_def)
  have perm: "small_page_permissions (make_small_page_entry a p) = p"
    by (simp add: small_page_permissions_def make_small_page_entry_def)
  show ?thesis
    using ids nonempty perm coarse_entry_fields section_entry_fields small_page_entry_fields coarse_base_make
      section_base_make small_page_base_make by blast
qed

lemma small_entry_base: "small_page_base_address (small_page_of (small_entry a p)) = a AND NOT (mask 12)"
  by (simp add: small_entry_def small_page_entry_fields small_page_base_make)

lemma small_entry_not_0 [simp]: "small_entry a p \<noteq> 0"
proof
  assume "small_entry a p = 0"
  then have "sp_identifier (make_small_page_entry a p) = sp_identifier (small_page_of 0)"
    using small_page_entry_fields [of a p] by (simp add: small_entry_def)
  then show False by (simp add: make_small_page_entry_def small_page_of_def SMALL_PAGE_ENTRY_ID_def)
qed

text \<open>A page that is mapped already: the assertion on the entry fails.\<close>

lemma map_page_mapped_panics:
  assumes wf: "vm_wf s F A R T" and r: "r \<in> R" and va: "user_va va" and mapped: "lvl2_entry s T r va \<noteq> 0"
  shows "vm_map_page (win (1024 * r)) phys va perm s = None"
proof -
  note w = vm_wfD [OF wf]
  obtain q where T: "T (r, lvl1_index va) = Some q" using mapped by (auto simp: lvl2_entry_def split: option.splits)
  have b1: "slot1_of r va < unat (ram_size s)"
    using slot_bounds [OF wf r] user_va_lvl1 [OF va] by simp
  have b2: "slot2_of q va < unat (ram_size s)"
    using table_bounds [OF wf T] lvl2_index_less [of va] by linarith
  have q: "q < length (pages_data (vm_pa s))" using block_head [OF w(2) w(6) [OF T]] .
  obtain k where k: "kernel_as s = Some k" "k < length (pages_data (vm_pa s))" using w(3) by blast
  have e1: "vm_mem s (win (slot1_of r va)) = coarse_entry (phys_of s q)"
    using w(5) [OF r user_va_lvl1 [OF va]] T by simp
  have e2: "vm_mem s (win (slot2_of q va)) \<noteq> 0" using mapped T by (simp add: lvl2_entry_def)
  show ?thesis
    using load_win [OF w(1) b1] load_win [OF w(1) b2] root_table_ptr [OF w(1) k(2)]
      coarse_entry_base [OF w(1) q] k(1) e1 e2 coarse_not_section
    by (simp add: vm_map_page_def table_slot_win coarse_entry_identifier)
qed

text \<open>
  C9: mapping a page of user memory changes exactly its entry, in exactly that address space, and keeps all tables
  apart; it allocates a second level table when there is none.  It panics exactly when the page is mapped already, or
  when it needs a table and no page is free.
\<close>

theorem map_page_isolated:
  assumes "vm_wf s F A R T" and "r \<in> R" and "user_va va" and "page < length (pages_data (vm_pa s))"
  shows "if lvl2_entry s T r va \<noteq> 0 \<or> T (r, lvl1_index va) = None \<and> (\<forall>ord. F ord = [])
    then vm_map (Some r) page va perm s = None
    else \<exists>s' F' A' T'. vm_map (Some r) page va perm s = Some s' \<and> vm_wf s' F' A' R T' \<and>
      one_entry_changed s T r va (small_entry (phys_of s page) perm) s' T'"
proof (cases "lvl2_entry s T r va = 0")
  case free: True
  show ?thesis
  proof (cases "T (r, lvl1_index va) = None \<and> (\<forall>ord. F ord = [])")
    case True
    then show ?thesis using map_page_panics [OF assms(1-3)] free by (simp add: vm_map_root [OF assms(1,2,4)])
  next
    case False
    then have "T (r, lvl1_index va) \<noteq> None \<or> (\<exists>ord. F ord \<noteq> [])" by simp
    then show ?thesis
      by (rule map_page_core [OF assms(1-3) free])
        (use False free in \<open>auto simp: vm_map_root [OF assms(1,2,4)]\<close>)
  qed
next
  case False
  then show ?thesis using map_page_mapped_panics [OF assms(1-3)] by (simp add: vm_map_root [OF assms(1,2,4)])
qed

theorem map_page_isolated_witness:
  "\<exists>s'. vm_map (Some 16) 40 0x2000 UserReadOnly vm_example = Some s'"
  using map_page_isolated [OF vm_example_wf, where r = 16 and va = "0x2000" and page = 40 and perm = UserReadOnly]
    vm_example_entry [where va = "0x2000"] vm_example_low [where va = "0x2000"]
  by (auto simp: lvl2_index_div vm_example_sel)

text \<open>
  C15: after a page has been mapped in the current address space, every address of the page translates to
  the physical address of the page plus its offset, and every address that was mapped before, whatever the
  table it is in, translates as before.
\<close>

theorem map_then_translate:
  assumes wf: "vm_wf s F A R T" and r: "r \<in> R" "current_as s = Some r" and va: "user_va va"
    and page: "page < length (pages_data (vm_pa s))" "phys_of s page AND mask 12 = 0"
    and free: "lvl2_entry s T r va = 0" and mem: "T (r, lvl1_index va) \<noteq> None \<or> (\<exists>ord. F ord \<noteq> [])"
  shows "\<exists>s'. vm_map (Some r) page va perm s = Some s' \<and>
    (\<forall>v. user_va v \<longrightarrow> same_entry v va \<longrightarrow> virt2phys s' v = Some (phys_of s page OR (v AND 0xfff))) \<and>
    (\<forall>v. user_va v \<longrightarrow> lvl2_entry s T r v \<noteq> 0 \<longrightarrow> virt2phys s' v = virt2phys s v)"
proof -
  obtain s' F' A' T' where run: "vm_map_page (win (1024 * r)) (phys_of s page) va perm s = Some s'"
    and wf': "vm_wf s' F' A' R T'"
    and one: "one_entry_changed s T r va (small_entry (phys_of s page) perm) s' T'"
    and frame: "vm_frame s s'" by (rule map_page_core [OF wf r(1) va free mem])
  have cur: "current_as s' = Some r" using frame r(2) by (simp add: vm_frame_def)
  have tab: "\<exists>q. U (r, lvl1_index v) = Some q" if "lvl2_entry t U r v \<noteq> 0" for t U v
    using that by (auto simp: lvl2_entry_def split: option.splits)
  have 1: "virt2phys s' v = Some (phys_of s page OR (v AND 0xfff))" if "user_va v" "same_entry v va" for v
  proof -
    have e: "lvl2_entry s' T' r v = small_entry (phys_of s page) perm"
      using one that by (simp add: one_entry_changed_def)
    then obtain q where "T' (r, lvl1_index v) = Some q" using tab [of s' T' v] by auto
    then show ?thesis
      using virt2phys_user [OF wf' r(1) cur that(1)] e aligned_and_not_mask [OF page(2)]
      by (simp add: small_entry_base)
  qed
  have 2: "virt2phys s' v = virt2phys s v" if v: "user_va v" "lvl2_entry s T r v \<noteq> 0" for v
  proof -
    have "\<not> same_entry v va"
      using v(2) free lvl2_entry_same [of v va s T r] by (auto simp: same_entry_def)
    then have "lvl2_entry s' T' r v = lvl2_entry s T r v" using one by (simp add: one_entry_changed_def)
    then show ?thesis
      using virt2phys_user [OF wf' r(1) cur v(1)] virt2phys_user [OF wf r v(1)] tab [OF v(2)] tab [of s' T' v] v(2)
      by auto
  qed
  show ?thesis using run 1 2 by (auto simp: vm_map_root [OF wf r(1) page(1)])
qed

theorem map_then_translate_witness:
  "\<exists>s'. vm_map (Some 16) 36 0x2000 UserReadOnly vm_example = Some s' \<and> virt2phys s' 0x2345 = Some 0x40009345"
  using map_then_translate [OF vm_example_wf, where r = 16 and va = "0x2000" and page = 36 and perm = UserReadOnly]
    vm_example_entry [where va = "0x2000"] vm_example_low [where va = "0x2000"] vm_example_low [where va = "0x2345"]
  by (auto simp: lvl2_index_div vm_example_sel vm_example_phys mask_eq_exp_minus_1 same_entry_def)

text \<open>
  C31: when the second level table also maps another page, unmapping is the inverse of mapping: it returns the physical
  address that was mapped and brings back the very state before the mapping, tables included; and unmapping a
  page of such a table that is not mapped returns 0 and changes nothing.  (Without another page the table is freed, and
  freed wrongly: \<open>unmap_last_page_corrupts\<close>.)
\<close>

theorem map_unmap_roundtrip:
  assumes wf: "vm_wf s F A R T" and r: "r \<in> R" and va: "user_va va"
    and page: "page < length (pages_data (vm_pa s))" "phys_of s page AND mask 12 = 0"
    and free: "lvl2_entry s T r va = 0"
    and other: "lvl1_index v = lvl1_index va" "lvl2_entry s T r v \<noteq> 0"
  shows "vm_unmap (Some r) va s = Some (0, s) \<and>
    (\<exists>s'. vm_map (Some r) page va perm s = Some s' \<and> vm_unmap (Some r) va s' = Some (phys_of s page, s))"
proof -
  obtain q where T: "T (r, lvl1_index va) = Some q"
    using other by (auto simp: lvl2_entry_def split: option.splits)
  let ?s' = "s\<lparr>vm_mem := (vm_mem s)(win (slot2_of q va) := small_entry (phys_of s page) perm)\<rparr>"
  note w = write_lvl2 [OF wf r T, where w = "small_entry (phys_of s page) perm"]
  have run: "vm_map (Some r) page va perm s = Some ?s'"
    using vm_map_page_existing [OF wf r va T free] by (simp add: vm_map_root [OF wf r page(1)])
  have ne: "lvl2_index v \<noteq> lvl2_index va" using other free lvl2_entry_same [of v va s T r] by auto
  have e: "lvl2_entry ?s' T r va = small_entry (phys_of s page) perm" using w(2) [of r va] by simp
  have "vm_mem ?s' (win (slot2_of q v)) \<noteq> 0"
    using w(2) [of r v] other ne T by (simp add: lvl2_entry_def)
  then have "(vm_mem s)(win (slot2_of q va) := 0) = vm_mem s"
    "\<not> (\<forall>j < 256. ((vm_mem s)(win (slot2_of q va) := 0)) (win (1024 * q + 4 * j)) = 0)"
  proof -
    have z: "vm_mem s (win (slot2_of q va)) = 0" using free T by (simp add: lvl2_entry_def)
    then show m: "(vm_mem s)(win (slot2_of q va) := 0) = vm_mem s" by auto
    have "vm_mem s (win (slot2_of q v)) \<noteq> 0" using other T by (simp add: lvl2_entry_def)
    then show "\<not> (\<forall>j < 256. ((vm_mem s)(win (slot2_of q va) := 0)) (win (1024 * q + 4 * j)) = 0)"
      unfolding m using lvl2_index_less [of v] by blast
  qed
  then have "vm_unmap_page (win (1024 * r)) va ?s' = Some (phys_of s page, s)"
    using vm_unmap_mapped [OF w(1) r va T] aligned_and_not_mask [OF page(2)]
    by (auto simp: e small_entry_base simp del: fun_upd_apply)
  then show ?thesis
    using run vm_unmap_unmapped [OF wf r va free] vm_unmap_root [OF wf r va] vm_unmap_root [OF w(1) r va] by auto
qed

theorem map_unmap_roundtrip_witness:
  "\<exists>s'. vm_map (Some 16) 36 0x2000 UserReadOnly vm_example = Some s' \<and>
    vm_unmap (Some 16) 0x2000 s' = Some (0x40009000, vm_example)"
  using map_unmap_roundtrip [OF vm_example_wf,
      where r = 16 and va = "0x2000" and page = 36 and perm = UserReadOnly and v = "0x1000"]
    vm_example_entry [where va = "0x2000"] vm_example_entry [where va = "0x1000"]
    vm_example_low [where va = "0x2000"] vm_example_low [where va = "0x1000"]
  by (simp add: lvl2_index_div vm_example_sel vm_example_phys mask_eq_exp_minus_1)

text \<open>
  Unmapping the last page of a second level table hands the 1 KB table to the allocator as a 16 KB block:
  the next 16 KB allocation returns the table, with the fifteen kilobytes behind it, whoever owns them.
\<close>

theorem unmap_last_page_corrupts:
  assumes wf: "vm_wf s F A R T" and r: "r \<in> R" and va: "user_va va"
    and T: "T (r, lvl1_index va) = Some q" and e: "lvl2_entry s T r va \<noteq> 0"
    and last: "\<forall>v. lvl1_index v = lvl1_index va \<longrightarrow> lvl2_index v \<noteq> lvl2_index va \<longrightarrow> lvl2_entry s T r v = 0"
    and one: "ref_count (pages_data (vm_pa s) ! q) = 1"
    and owned: "(p, ord) \<in> set A" "q < p" "p < q + 16"
  shows "\<exists>prev s' pa'. vm_unmap (Some r) va s = Some (prev, s') \<and>
    physical_page_alloc Order16KB (vm_pa s') = Some (Inr q, pa') \<and>
    set (block_pages (p, ord)) \<inter> set (block_pages (q, Order16KB)) \<noteq> {}"
proof -
  have "p \<in> set (block_pages (p, ord)) \<inter> set (block_pages (q, Order16KB))"
    using owned by (auto simp: block_pages_def)
  then show ?thesis
    using unmap_freeing_table [OF wf r va T e last one] vm_unmap_root [OF wf r va] by (metis empty_iff)
qed

theorem unmap_last_page_corrupts_witness:
  "\<exists>prev s' pa'. vm_unmap (Some 16) 0x1000 vm_example = Some (prev, s') \<and>
    physical_page_alloc Order16KB (vm_pa s') = Some (Inr 32, pa') \<and>
    set (block_pages (33, Order1KB)) \<inter> set (block_pages (32, Order16KB)) \<noteq> {}"
proof -
  have "lvl2_entry vm_example vm_example_tables 16 v = 0"
    if "lvl1_index v = 0" "lvl2_index v \<noteq> 1" for v
  proof -
    have "v < 0x100000" using that(1) by (simp add: lvl1_index_div word_less_nat_alt div_eq_0_iff)
    then show ?thesis using vm_example_entry [of v] that(2) by simp
  qed
  then show ?thesis
    using unmap_last_page_corrupts [OF vm_example_wf,
        where r = 16 and va = "0x1000" and q = 32 and p = 33 and ord = Order1KB]
      vm_example_entry [where va = "0x1000"] vm_example_low [where va = "0x1000"]
    by (auto simp: lvl2_index_div vm_example_sel)
qed

text \<open>
  \<^verbatim>\<open>ioremap_bitmap_alloc\<close> takes the lowest run of free pages of the peripherals area that is long
  enough, marks exactly its pages, and returns 0 only when there is no such run; freeing the run again gives
  the bitmap back.
\<close>

theorem ioremap_bitmap_first_fit:
  assumes "length used = 8192" and "sz mod 4096 = 0" and "sz \<noteq> 0"
  shows "\<exists>a used'. ioremap_bitmap_alloc sz used = Some (a, used') \<and>
    (if \<exists>i. free_run used i (unat sz div 4096)
     then \<exists>i. free_run used i (unat sz div 4096) \<and> (\<forall>j < i. \<not> free_run used j (unat sz div 4096)) \<and>
       unat a = unat peripherals_start + 4096 * i \<and> unat a + unat sz \<le> unat peripherals_end \<and>
       used' = set_run True i (unat sz div 4096) used \<and>
       ioremap_bitmap_free a sz used' = Some used
     else a = 0 \<and> used' = used)"
proof -
  let ?n = "unat sz div 4096"
  have "unat sz mod 4096 = 0" using arg_cong [OF assms(2), of unat] by (simp add: unat_mod)
  then have sz: "unat sz = 4096 * ?n" using mult_div_mod_eq [of 4096 "unat sz"] by linarith
  have "unat sz \<noteq> 0" using assms(3) by (simp add: unat_eq_0)
  then have n: "0 < ?n" using sz by linarith
  have cnt: "unat (sz div 4096) = ?n" by (simp add: unat_div)
  have spec: "case find_run used 0 ?n of
      None \<Rightarrow> \<forall>j. \<not> free_run used j ?n
    | Some k \<Rightarrow> free_run used k ?n \<and> (\<forall>j < k. \<not> free_run used j ?n)"
    using find_run_spec [OF n, of used 0] by (simp split: option.splits)
  show ?thesis
  proof (cases "find_run used 0 ?n")
    case None
    then show ?thesis using spec assms(2) cnt by (simp add: ioremap_bitmap_alloc_def)
  next
    case (Some i)
    then have run: "free_run used i ?n" and least: "\<forall>j < i. \<not> free_run used j ?n" using spec by simp_all
    have bound: "i + ?n \<le> 8192" using run assms(1) by (simp add: free_run_def)
    let ?a = "peripherals_start + word_of_nat i * 4096 :: u32"
    have a: "unat ?a = 0xc1000000 + 4096 * i" using bound n by (intro peripherals_page) linarith
    have ps: "unat peripherals_start = 0xc1000000" "unat peripherals_end = 0xc3000000"
      by (simp_all add: peripherals_start_def peripherals_end_def kernel_area_start_def)
    have alloc: "ioremap_bitmap_alloc sz used = Some (?a, set_run True i ?n used)"
      using Some assms(2) cnt by (simp add: ioremap_bitmap_alloc_def)
    have idx: "unat ((?a - peripherals_start) div 4096) = i"
    proof -
      have "unat (word_of_nat i * 4096 :: u32) = unat (word_of_nat (4096 * i) :: u32)" by (simp add: mult.commute)
      also have "\<dots> = 4096 * i" using bound by (intro unat_of_nat_u32) simp
      finally show ?thesis by (simp add: unat_div)
    qed
    have al: "?a mod 4096 = 0" by (simp add: word_unat_eq_iff unat_mod a)
    have "ioremap_bitmap_free ?a sz (set_run True i ?n used) = Some used"
      using a ps idx al bound n assms(1,2) set_run_undo [OF run] cnt
      by (simp add: ioremap_bitmap_free_def word_le_nat_alt word_less_nat_alt)
    then show ?thesis using alloc run least a ps sz bound by auto
  qed
qed

theorem ioremap_bitmap_first_fit_witness:
  "\<exists>a used'. ioremap_bitmap_alloc 0x2000 (replicate 8192 False) = Some (a, used') \<and>
    ioremap_bitmap_free a 0x2000 used' = Some (replicate 8192 False)"
proof -
  have "free_run (replicate 8192 False) 0 2" by (simp add: free_run_def)
  then have "\<exists>i. free_run (replicate 8192 False) i (unat (0x2000 :: u32) div 4096)" by auto
  then show ?thesis
    using ioremap_bitmap_first_fit [where used = "replicate 8192 False" and sz = "0x2000"]
    unfolding length_replicate by (simp only: if_True) auto
qed

end
