(* ===== verification/BlockDevice.thy ===== *)
theory BlockDevice
  imports KernelError
begin

text \<open>
  Block devices: the sector-wise read and write of \<^verbatim>\<open>SimpleBlockDevice\<close> (\<^verbatim>\<open>kernel/drivers/device.cpp\<close>) and
  the RAM disk (\<^verbatim>\<open>kernel/drivers/block/ramdisk.cpp\<close>).  \<^verbatim>\<open>read_sector\<close> and \<^verbatim>\<open>write_sector\<close> are virtual and
  belong to the hardware, so they are parameters: they take the state of the device, and return the result
  code with the new state, a read also the sector's bytes.  \<open>alloc_ok\<close> says whether the allocation of the
  temporary buffer succeeds; there is at most one in a call.  Offsets and sizes stay far below \<open>2 ^ 63\<close>,
  so they are integers.  What a read has stored in the caller's buffer is the list of bytes from its start.
\<close>

type_synonym 'd read_sector = "int \<Rightarrow> 'd \<Rightarrow> int \<times> u8 list \<times> 'd"
type_synonym 'd write_sector = "int \<Rightarrow> u8 list \<Rightarrow> 'd \<Rightarrow> int \<times> 'd"

definition clamp_int :: "int \<Rightarrow> int \<Rightarrow> int \<Rightarrow> int" where
  "clamp_int low x high = max low (min high x)"

subsection \<open>Reading\<close>

text \<open>
  The three parts of \<^verbatim>\<open>SimpleBlockDevice::read\<close>.  \<open>Inl\<close> is the jump to \<^verbatim>\<open>cleanup\<close>: the result, the bytes
  stored so far and the device.  \<open>Inr\<close> goes on with the offset, the size that is left, the bytes and the device.
\<close>

type_synonym 'd read_step = "(int \<times> u8 list \<times> 'd) + (int \<times> int \<times> u8 list \<times> 'd)"

definition read_first_sector :: "'d read_sector \<Rightarrow> int \<Rightarrow> bool \<Rightarrow> int \<Rightarrow> int \<Rightarrow> 'd \<Rightarrow> 'd read_step" where
  "read_first_sector read_sector sector_size alloc_ok offset sz d =
     (if offset mod sector_size = 0 then Inr (offset, sz, [], d)
      else if \<not> alloc_ok then Inl (- errno ERR_NOMEM, [], d)
      else
        let (rc, temp_buffer, d) = read_sector (offset div sector_size) d in
        if rc \<noteq> 0 then Inl (rc, [], d)
        else
          let to_read = min sz (sector_size - offset mod sector_size) in
          Inr (offset + to_read, sz - to_read,
               take (nat to_read) (drop (nat (offset mod sector_size)) temp_buffer), d))"

partial_function (option) read_whole_sectors ::
  "'d read_sector \<Rightarrow> int \<Rightarrow> int \<Rightarrow> int \<Rightarrow> u8 list \<Rightarrow> 'd \<Rightarrow> 'd read_step option" where
  "read_whole_sectors read_sector sector_size offset sz out d =
     (if sector_size \<le> sz then
        (let (rc, bytes, d) = read_sector (offset div sector_size) d in
         if rc \<noteq> 0 then Some (Inl (rc, out, d))
         else read_whole_sectors read_sector sector_size (offset + sector_size) (sz - sector_size)
                (out @ bytes) d)
      else Some (Inr (offset, sz, out, d)))"

definition read_last_sector ::
  "'d read_sector \<Rightarrow> int \<Rightarrow> bool \<Rightarrow> int \<Rightarrow> int \<Rightarrow> u8 list \<Rightarrow> 'd \<Rightarrow> int \<times> u8 list \<times> 'd" where
  "read_last_sector read_sector sector_size alloc_ok offset sz out d =
     (if sz > 0 then
        if \<not> alloc_ok then (- errno ERR_NOMEM, out, d)
        else
          let (rc, temp_buffer, d) = read_sector (offset div sector_size) d in
          if rc \<noteq> 0 then (rc, out, d)
          else let out = out @ take (nat sz) temp_buffer in (int (length out), out, d)
      else (int (length out), out, d))"

text \<open>What follows the first sector.\<close>

definition read_aligned ::
  "'d read_sector \<Rightarrow> int \<Rightarrow> bool \<Rightarrow> int \<Rightarrow> int \<Rightarrow> u8 list \<Rightarrow> 'd \<Rightarrow> (int \<times> u8 list \<times> 'd) option" where
  "read_aligned read_sector sector_size alloc_ok offset sz out d = do {
     kassert (offset mod sector_size = 0);
     r \<leftarrow> read_whole_sectors read_sector sector_size offset sz out d;
     (case r of
        Inl result \<Rightarrow> Some result
      | Inr (offset, sz, out, d) \<Rightarrow> do {
          kassert (sz < sector_size);
          kassert (offset mod sector_size = 0);
          Some (read_last_sector read_sector sector_size alloc_ok offset sz out d)
        })
   }"

definition block_read ::
  "'d read_sector \<Rightarrow> int \<Rightarrow> int \<Rightarrow> bool \<Rightarrow> int \<Rightarrow> int \<Rightarrow> 'd \<Rightarrow> (int \<times> u8 list \<times> 'd) option" where
  "block_read read_sector sector_size disk_size alloc_ok offset sz d = (
     let offset = clamp_int 0 offset disk_size;
         sz = clamp_int 0 sz (disk_size - offset)
     in case read_first_sector read_sector sector_size alloc_ok offset sz d of
          Inl result \<Rightarrow> Some result
        | Inr (offset, sz, out, d) \<Rightarrow> read_aligned read_sector sector_size alloc_ok offset sz out d)"

subsection \<open>Writing\<close>

text \<open>
  \<open>Inl\<close>: the result of a jump to \<^verbatim>\<open>cleanup\<close> and the device; \<open>Inr\<close>: the offset, the bytes that are left and
  the device.  The size that is left is the number of those bytes; \<^verbatim>\<open>written\<close> is what is missing to the
  size of the call.
\<close>

type_synonym 'd write_step = "(int \<times> 'd) + (int \<times> u8 list \<times> 'd)"

definition write_first_sector ::
  "'d read_sector \<Rightarrow> 'd write_sector \<Rightarrow> int \<Rightarrow> bool \<Rightarrow> int \<Rightarrow> u8 list \<Rightarrow> 'd \<Rightarrow> 'd write_step" where
  "write_first_sector read_sector write_sector sector_size alloc_ok offset buffer d =
     (if offset mod sector_size = 0 then Inr (offset, buffer, d)
      else if \<not> alloc_ok then Inl (- errno ERR_NOMEM, d)
      else
        let (rc, temp_buffer, d) = read_sector (offset div sector_size) d in
        if rc \<noteq> 0 then Inl (rc, d)
        else
          let to_write = min (int (length buffer)) (sector_size - offset mod sector_size);
              temp_buffer = overwrite temp_buffer (nat (offset mod sector_size)) (take (nat to_write) buffer);
              (rc, d) = write_sector (offset div sector_size) temp_buffer d
          in if rc \<noteq> 0 then Inl (rc, d)
             else Inr (offset + to_write, drop (nat to_write) buffer, d))"

partial_function (option) write_whole_sectors ::
  "'d write_sector \<Rightarrow> int \<Rightarrow> int \<Rightarrow> u8 list \<Rightarrow> 'd \<Rightarrow> 'd write_step option" where
  "write_whole_sectors write_sector sector_size offset buffer d =
     (if sector_size \<le> int (length buffer) then
        (let (rc, d) = write_sector (offset div sector_size) (take (nat sector_size) buffer) d in
         if rc \<noteq> 0 then Some (Inl (rc, d))
         else write_whole_sectors write_sector sector_size (offset + sector_size)
                (drop (nat sector_size) buffer) d)
      else Some (Inr (offset, buffer, d)))"

definition write_last_sector ::
  "'d read_sector \<Rightarrow> 'd write_sector \<Rightarrow> int \<Rightarrow> bool \<Rightarrow> int \<Rightarrow> int \<Rightarrow> u8 list \<Rightarrow> 'd \<Rightarrow> int \<times> 'd" where
  "write_last_sector read_sector write_sector sector_size alloc_ok written offset buffer d =
     (if buffer \<noteq> [] then
        if \<not> alloc_ok then (- errno ERR_NOMEM, d)
        else
          let (rc, temp_buffer, d) = read_sector (offset div sector_size) d in
          if rc \<noteq> 0 then (rc, d)
          else
            let (rc, d) = write_sector (offset div sector_size) (overwrite temp_buffer 0 buffer) d in
            if rc \<noteq> 0 then (rc, d) else (written, d)
      else (written, d))"

definition write_aligned ::
  "'d read_sector \<Rightarrow> 'd write_sector \<Rightarrow> int \<Rightarrow> bool \<Rightarrow> int \<Rightarrow> int \<Rightarrow> u8 list \<Rightarrow> 'd \<Rightarrow> (int \<times> 'd) option" where
  "write_aligned read_sector write_sector sector_size alloc_ok written offset buffer d = do {
     kassert (offset mod sector_size = 0);
     r \<leftarrow> write_whole_sectors write_sector sector_size offset buffer d;
     (case r of
        Inl result \<Rightarrow> Some result
      | Inr (offset, buffer, d) \<Rightarrow> do {
          kassert (int (length buffer) < sector_size);
          kassert (offset mod sector_size = 0);
          Some (write_last_sector read_sector write_sector sector_size alloc_ok written offset buffer d)
        })
   }"

definition block_write ::
  "'d read_sector \<Rightarrow> 'd write_sector \<Rightarrow> int \<Rightarrow> int \<Rightarrow> bool \<Rightarrow> bool \<Rightarrow> int \<Rightarrow> u8 list \<Rightarrow> 'd \<Rightarrow>
   (int \<times> 'd) option" where
  "block_write read_sector write_sector sector_size disk_size is_read_only alloc_ok offset buffer d =
     (if is_read_only then Some (- errno ERR_ROFS, d)
      else
        let offset = clamp_int 0 offset disk_size;
            sz = clamp_int 0 (int (length buffer)) (disk_size - offset);
            buffer = take (nat sz) buffer
        in case write_first_sector read_sector write_sector sector_size alloc_ok offset buffer d of
             Inl result \<Rightarrow> Some result
           | Inr (offset, buffer, d) \<Rightarrow>
               write_aligned read_sector write_sector sector_size alloc_ok sz offset buffer d)"

subsection \<open>The RAM disk\<close>

record ram_disk =
  ram_data :: "u8 list"
  ram_readonly :: bool

definition ramdisk_read :: "int \<Rightarrow> int \<Rightarrow> ram_disk \<Rightarrow> (int \<times> u8 list) option" where
  "ramdisk_read offset sz d = do {
     let m_size = int (length (ram_data d));
     kassert (offset \<le> m_size);
     let to_read = min (m_size - offset) sz;
     kassert (0 \<le> offset);
     Some (to_read, take (nat to_read) (drop (nat offset) (ram_data d)))
   }"

definition ramdisk_write :: "int \<Rightarrow> u8 list \<Rightarrow> ram_disk \<Rightarrow> (int \<times> ram_disk) option" where
  "ramdisk_write offset buffer d =
     (if ram_readonly d then Some (- errno ERR_PERM, d)
      else do {
        let m_size = int (length (ram_data d));
        kassert (offset \<le> m_size);
        let to_write = min (m_size - offset) (int (length buffer));
        kassert (0 \<le> offset);
        Some (to_write, d\<lparr>ram_data := overwrite (ram_data d) (nat offset) (take (nat to_write) buffer)\<rparr>)
      })"

definition ramdisk_ioctl :: int where
  "ramdisk_ioctl = - errno ERR_NOTSUP"

subsection \<open>Disks\<close>

text \<open>
  What the driver of a disk promises: sector \<open>i\<close> is the \<open>i\<close>-th piece of \<open>n\<close> bytes of the contents \<open>disk\<close>;
  reading it changes no contents, and writing it replaces that piece.
\<close>

definition sector_contract ::
  "'d read_sector \<Rightarrow> 'd write_sector \<Rightarrow> ('d \<Rightarrow> u8 list) \<Rightarrow> nat \<Rightarrow> bool" where
  "sector_contract rs ws disk n \<longleftrightarrow> 0 < n \<and> (\<forall>d. n dvd length (disk d)) \<and>
     (\<forall>i d. n * i < length (disk d) \<longrightarrow>
       (\<exists>d'. rs (int i) d = (0, take n (drop (n * i) (disk d)), d') \<and> disk d' = disk d)) \<and>
     (\<forall>i d b. n * i < length (disk d) \<longrightarrow> length b = n \<longrightarrow>
       (\<exists>d'. ws (int i) b d = (0, d') \<and> disk d' = overwrite (disk d) (n * i) b))"

lemma sector_contractD:
  assumes "sector_contract rs ws disk n"
  shows "0 < n" "n dvd length (disk d)"
    "n * i < length (disk d) \<Longrightarrow>
       \<exists>d'. rs (int i) d = (0, take n (drop (n * i) (disk d)), d') \<and> disk d' = disk d"
    "n * i < length (disk d) \<Longrightarrow> length b = n \<Longrightarrow>
       \<exists>d'. ws (int i) b d = (0, d') \<and> disk d' = overwrite (disk d) (n * i) b"
  using assms unfolding sector_contract_def by blast+

lemma sector_end:
  assumes "n dvd m" and "n * i < m"
  shows "n * i + n \<le> (m :: nat)"
proof -
  obtain k where "m = n * k" using assms(1) by blast
  then have "Suc i \<le> k" using assms(2) by simp
  then have "n * Suc i \<le> n * k" by (rule mult_le_mono2)
  then show ?thesis using \<open>m = n * k\<close> by simp
qed

lemma read_whole_sectors_disk:
  assumes c: "sector_contract rs ws disk n" and "n * i + sz \<le> length (disk d)"
  shows "\<exists>d'. read_whole_sectors rs (int n) (int (n * i)) (int sz) out d =
      Some (Inr (int (n * (i + sz div n)), int (sz mod n),
        out @ take (n * (sz div n)) (drop (n * i) (disk d)), d')) \<and> disk d' = disk d"
  using assms(2)
proof (induction sz arbitrary: i out d rule: less_induct)
  case (less sz)
  note n = sector_contractD(1) [OF c]
  show ?case
  proof (cases "n \<le> sz")
    case False
    then show ?thesis by (subst read_whole_sectors.simps) simp
  next
    case True
    then have "n * i < length (disk d)" using less.prems n by linarith
    then obtain d1 where r: "rs (int i) d = (0, take n (drop (n * i) (disk d)), d1)" and d1: "disk d1 = disk d"
      using sector_contractD(3) [OF c] by blast
    have "n * Suc i + (sz - n) \<le> length (disk d1)" using less.prems True d1 by simp
    then obtain d2 where IH: "read_whole_sectors rs (int n) (int (n * Suc i)) (int (sz - n))
        (out @ take n (drop (n * i) (disk d))) d1 =
        Some (Inr (int (n * (Suc i + (sz - n) div n)), int ((sz - n) mod n),
          (out @ take n (drop (n * i) (disk d))) @ take (n * ((sz - n) div n)) (drop (n * Suc i) (disk d1)), d2))"
      and d2: "disk d2 = disk d1"
      using less.IH [of "sz - n" "Suc i" d1 "out @ take n (drop (n * i) (disk d))"] True n by auto
    have q: "sz div n = Suc ((sz - n) div n)" "sz mod n = (sz - n) mod n"
      using True n by (simp_all add: le_div_geq le_mod_geq)
    have "int n * (1 + int i) = int n + int n * int i" by (simp add: algebra_simps)
    moreover have "take (n * (sz div n)) (drop (n * i) (disk d)) =
        take n (drop (n * i) (disk d)) @ take (n * ((sz - n) div n)) (drop (n * Suc i) (disk d))"
      unfolding q by (simp add: take_add add.commute)
    ultimately show ?thesis
      using IH True r d1 d2 n q
      by (subst read_whole_sectors.simps) (simp add: of_nat_diff algebra_simps)
  qed
qed

lemma write_whole_sectors_disk:
  assumes c: "sector_contract rs ws disk n" and "n * i + length b \<le> length (disk d)"
  shows "\<exists>d'. write_whole_sectors ws (int n) (int (n * i)) b d =
      Some (Inr (int (n * (i + length b div n)), drop (n * (length b div n)) b, d')) \<and>
    disk d' = overwrite (disk d) (n * i) (take (n * (length b div n)) b)"
  using assms(2)
proof (induction "length b" arbitrary: i b d rule: less_induct)
  case less
  note n = sector_contractD(1) [OF c]
  show ?case
  proof (cases "n \<le> length b")
    case False
    then show ?thesis by (subst write_whole_sectors.simps) simp
  next
    case True
    let ?x = "take n b" and ?y = "drop n b"
    have in_disk: "n * i < length (disk d)" using less.prems n True by linarith
    then obtain d1 where w: "ws (int i) ?x d = (0, d1)" and d1: "disk d1 = overwrite (disk d) (n * i) ?x"
      using sector_contractD(4) [OF c in_disk, of ?x] True by auto
    have end1: "n * i + n \<le> length (disk d)" by (rule sector_end [OF sector_contractD(2) [OF c] in_disk])
    have "n * Suc i + length ?y \<le> length (disk d1)" using less.prems True end1 by (simp add: d1)
    moreover have "length ?y < length b" using True n by simp
    ultimately obtain d2 where IH: "write_whole_sectors ws (int n) (int (n * Suc i)) ?y d1 =
        Some (Inr (int (n * (Suc i + length ?y div n)), drop (n * (length ?y div n)) ?y, d2))"
      and d2: "disk d2 = overwrite (disk d1) (n * Suc i) (take (n * (length ?y div n)) ?y)"
      using less.hyps by blast
    have q: "length b div n = Suc (length ?y div n)" using True n by (simp add: le_div_geq)
    have "disk d2 = overwrite (disk d) (n * i) (?x @ take (n * (length ?y div n)) ?y)"
      using overwrite_overwrite [of "n * i" ?x "disk d" "take (n * (length ?y div n)) ?y"] True end1
      by (simp add: d1 d2 add.commute)
    moreover have "?x @ take (n * (length ?y div n)) ?y = take (n * (length b div n)) b"
      unfolding q by (simp add: take_add add.commute)
    ultimately show ?thesis
      using IH True w n q by (subst write_whole_sectors.simps) (simp add: algebra_simps)
  qed
qed

lemma clamp_int_nat: "0 \<le> high \<Longrightarrow> \<exists>p. clamp_int 0 x high = int p \<and> int p \<le> high"
  by (rule exI [of _ "nat (clamp_int 0 x high)"]) (simp add: clamp_int_def)

lemma clamp_size: "p \<le> len \<Longrightarrow> clamp_int 0 (int sz) (int len - int p) = int (min sz (len - p))"
  unfolding clamp_int_def by (simp add: min_def max_def of_nat_diff) linarith

text \<open>The condition under which the code fails its assertion: the range lies strictly inside a sector.\<close>

definition inside_sector :: "nat \<Rightarrow> nat \<Rightarrow> nat \<Rightarrow> bool" where
  "inside_sector n off sz \<longleftrightarrow> off mod n \<noteq> 0 \<and> sz < n - off mod n"

lemma mod_add_rest: "0 < n \<Longrightarrow> off mod n \<noteq> 0 \<Longrightarrow> (off + (n - off mod n)) = n * Suc (off div n)"
  for off n :: nat
  using mod_less_divisor [of n off] by (simp add: minus_mod_eq_mult_div [symmetric] algebra_simps)

lemma inside_sector_mod:
  assumes "inside_sector n off sz" and "0 < n"
  shows "(off + sz) mod n \<noteq> 0"
proof -
  have "(off + sz) mod n = (off mod n + sz) mod n" by (simp add: mod_add_left_eq)
  also have "off mod n + sz < n" using assms(1) by (simp add: inside_sector_def less_diff_conv add.commute)
  then have "(off mod n + sz) mod n = off mod n + sz" by simp
  finally show ?thesis using assms(1) by (simp add: inside_sector_def)
qed

lemma read_aligned_disk:
  assumes c: "sector_contract rs ws disk n" and "n * i + sz \<le> length (disk d)"
  shows "\<exists>d'. read_aligned rs (int n) True (int (n * i)) (int sz) out d =
      Some (int (length out + sz), out @ take sz (drop (n * i) (disk d)), d') \<and> disk d' = disk d"
proof -
  note n = sector_contractD(1) [OF c]
  let ?q = "sz div n" and ?m = "sz mod n"
  let ?i = "i + ?q"
  obtain d1 where r: "read_whole_sectors rs (int n) (int (n * i)) (int sz) out d =
      Some (Inr (int (n * ?i), int ?m, out @ take (n * ?q) (drop (n * i) (disk d)), d1))"
    and d1: "disk d1 = disk d"
    using read_whole_sectors_disk [OF c assms(2)] by blast
  have m: "?m < n" using n by simp
  have sum: "n * ?q + ?m = sz" by simp
  have pos: "n * ?i + ?m = n * i + sz" using sum by (simp add: add_mult_distrib2)
  have split: "take sz (drop (n * i) (disk d)) =
      take (n * ?q) (drop (n * i) (disk d)) @ take ?m (drop (n * ?i) (disk d))"
    using take_add [of "n * ?q" ?m "drop (n * i) (disk d)"] sum by (simp add: algebra_simps)
  let ?out = "out @ take (n * ?q) (drop (n * i) (disk d))"
  have whole: "?out @ take ?m (drop (n * ?i) (disk d)) = out @ take sz (drop (n * i) (disk d))"
    by (simp add: split)
  have len: "length (out @ take sz (drop (n * i) (disk d))) = length out + sz" using assms(2) by simp
  have "\<exists>d'. read_last_sector rs (int n) True (int (n * ?i)) (int ?m) ?out d1 =
      (int (length out + sz), out @ take sz (drop (n * i) (disk d)), d') \<and> disk d' = disk d"
  proof (cases "?m = 0")
    case True
    then have "?out = out @ take sz (drop (n * i) (disk d))" using whole by simp
    then show ?thesis unfolding read_last_sector_def using True len d1 by simp
  next
    case False
    then have in_disk: "n * ?i < length (disk d1)" unfolding d1 using assms(2) pos by linarith
    then obtain d2 where r2: "rs (int ?i) d1 = (0, take n (drop (n * ?i) (disk d1)), d2)" "disk d2 = disk d1"
      using sector_contractD(3) [OF c] by blast
    have div: "int (n * ?i) div int n = int ?i" using n by simp
    have temp: "take ?m (take n (drop (n * ?i) (disk d1))) = take ?m (drop (n * ?i) (disk d))"
      using m by (simp add: d1 min_absorb1)
    have "read_last_sector rs (int n) True (int (n * ?i)) (int ?m) ?out d1 =
        (int (length (out @ take sz (drop (n * i) (disk d)))), out @ take sz (drop (n * i) (disk d)), d2)"
      unfolding read_last_sector_def div r2 Let_def case_prod_conv nat_int temp whole using False by simp
    then show ?thesis using len r2 d1 by simp
  qed
  then show ?thesis using r m by (auto simp: read_aligned_def)
qed

lemma write_aligned_disk:
  assumes c: "sector_contract rs ws disk n" and "n * i + length b \<le> length (disk d)"
  shows "\<exists>d'. write_aligned rs ws (int n) True written (int (n * i)) b d =
      Some (written, d') \<and> disk d' = overwrite (disk d) (n * i) b"
proof -
  note n = sector_contractD(1) [OF c]
  let ?q = "length b div n"
  let ?i = "i + ?q" and ?rest = "drop (n * ?q) b"
  obtain d1 where r: "write_whole_sectors ws (int n) (int (n * i)) b d = Some (Inr (int (n * ?i), ?rest, d1))"
    and d1: "disk d1 = overwrite (disk d) (n * i) (take (n * ?q) b)"
    using write_whole_sectors_disk [OF c assms(2)] by blast
  have le: "n * ?q \<le> length b" by simp
  have rest: "length ?rest < n" using n by (simp add: minus_mult_div_eq_mod)
  have pos: "n * ?i + length ?rest = n * i + length b" using le by (simp add: add_mult_distrib2)
  have whole: "overwrite (disk d1) (n * ?i) ?rest = overwrite (disk d) (n * i) b"
    using overwrite_overwrite [of "n * i" "take (n * ?q) b" "disk d" ?rest] le assms(2)
    by (simp add: d1 add_mult_distrib2 min_absorb2)
  have "\<exists>d'. write_last_sector rs ws (int n) True written (int (n * ?i)) ?rest d1 = (written, d') \<and>
      disk d' = overwrite (disk d1) (n * ?i) ?rest"
  proof (cases "?rest = []")
    case True
    then show ?thesis unfolding True write_last_sector_def by simp
  next
    case False
    have "length (take (n * ?q) b) = n * ?q" using le by (simp only: length_take min_absorb2)
    then have "n * i + length (take (n * ?q) b) \<le> length (disk d)" using le assms(2) by linarith
    then have len: "length (disk d1) = length (disk d)" unfolding d1 by (rule length_overwrite)
    have "0 < length ?rest" using False by blast
    then have in_disk: "n * ?i < length (disk d1)" unfolding len using assms(2) pos by linarith
    then obtain d2 where r2: "rs (int ?i) d1 = (0, take n (drop (n * ?i) (disk d1)), d2)" "disk d2 = disk d1"
      using sector_contractD(3) [OF c] by blast
    let ?s = "overwrite (take n (drop (n * ?i) (disk d2))) 0 ?rest"
    have "n * ?i + n \<le> length (disk d1)" by (rule sector_end [OF sector_contractD(2) [OF c] in_disk])
    then have s: "length ?s = n" "overwrite (disk d1) (n * ?i) ?s = overwrite (disk d1) (n * ?i) ?rest"
      using rest overwrite_sector [of 0 ?rest n "n * ?i" "disk d1"] by (simp_all add: r2(2))
    then obtain d3 where "ws (int ?i) ?s d2 = (0, d3)" "disk d3 = overwrite (disk d2) (n * ?i) ?s"
      using sector_contractD(4) [OF c, of ?i d2 ?s] in_disk r2(2) by auto
    moreover have "int (n * ?i) div int n = int ?i" using n by simp
    ultimately show ?thesis
      unfolding write_last_sector_def using False r2 s by (simp del: of_nat_mult of_nat_add)
  qed
  then show ?thesis using r rest whole n by (auto simp: write_aligned_def)
qed

subsection \<open>The whole read and write\<close>

lemma read_inside_sector:
  assumes c: "sector_contract rs ws disk n" and "p + sz \<le> length (disk d)"
  shows "(if inside_sector n p sz then block_read rs (int n) (int (length (disk d))) True (int p) (int sz) d = None
    else \<exists>d'. block_read rs (int n) (int (length (disk d))) True (int p) (int sz) d =
      Some (int sz, take sz (drop p (disk d)), d') \<and> disk d' = disk d)"
proof -
  note n = sector_contractD(1) [OF c]
  have cl: "clamp_int 0 (int p) (int (length (disk d))) = int p"
    "clamp_int 0 (int sz) (int (length (disk d)) - int p) = int sz"
    using assms(2) by (simp_all add: clamp_int_def)
  show ?thesis
  proof (cases "p mod n = 0")
    case True
    then obtain i where p: "p = n * i" by (meson dvd_eq_mod_eq_0 dvdE)
    then show ?thesis
      using read_aligned_disk [OF c, of i sz d "[]"] assms(2) cl True
      by (auto simp: block_read_def read_first_sector_def inside_sector_def zmod_int Let_def)
  next
    case False
    let ?k = "min sz (n - p mod n)"
    have pn: "p < length (disk d) \<or> sz = 0" using assms(2) by linarith
    have div: "int p div int n = int (p div n)" "int p mod int n = int (p mod n)" by (simp_all add: zdiv_int zmod_int)
    have "n * (p div n) < length (disk d)"
    proof -
      obtain k where k: "length (disk d) = n * k" using sector_contractD(2) [OF c] by blast
      have "p \<noteq> n * k" using False by auto
      then have "p < length (disk d)" using assms(2) k by linarith
      then show ?thesis by (meson le_less_trans times_div_less_eq_dividend)
    qed
    then obtain d1 where r: "rs (int (p div n)) d = (0, take n (drop (n * (p div n)) (disk d)), d1)"
      and d1: "disk d1 = disk d" using sector_contractD(3) [OF c] by blast
    have first: "read_first_sector rs (int n) True (int p) (int sz) d =
        Inr (int (p + ?k), int (sz - ?k), take ?k (drop p (disk d)), d1)"
    proof -
      have "take ?k (drop (p mod n) (take n (drop (n * (p div n)) (disk d)))) = take ?k (drop p (disk d))"
        by (simp add: drop_take min_def)
      moreover have "min (int sz) (int n - int (p mod n)) = int ?k"
      proof -
        have "int (n - p mod n) = int n - int (p mod n)" using mod_less_divisor [OF n, of p] by (simp add: of_nat_diff)
        then show ?thesis by (simp add: of_nat_min)
      qed
      moreover have "int (p mod n) \<noteq> 0" using False by simp
      ultimately show ?thesis
        unfolding read_first_sector_def div using r by (simp add: Let_def of_nat_diff)
    qed
    show ?thesis
    proof (cases "inside_sector n p sz")
      case True
      then have "?k = sz" by (simp add: inside_sector_def)
      moreover have "(int p + int sz) mod int n \<noteq> 0"
        using inside_sector_mod [OF True n] by (metis of_nat_add zmod_int of_nat_0_eq_iff)
      ultimately show ?thesis using True first cl by (simp add: block_read_def read_aligned_def Let_def)
    next
      case not_inside: False
      then have k: "?k = n - p mod n" using False by (simp add: inside_sector_def)
      then have pk: "p + ?k = n * Suc (p div n)" using mod_add_rest [OF n False] by simp
      have "n * Suc (p div n) + (sz - ?k) \<le> length (disk d1)" unfolding pk [symmetric] d1 using assms(2) by simp
      then obtain d2 where t: "read_aligned rs (int n) True (int (n * Suc (p div n))) (int (sz - ?k))
          (take ?k (drop p (disk d))) d1 =
          Some (int (length (take ?k (drop p (disk d))) + (sz - ?k)),
             take ?k (drop p (disk d)) @ take (sz - ?k) (drop (n * Suc (p div n)) (disk d1)), d2)"
        and d2: "disk d2 = disk d1"
        using read_aligned_disk [OF c] by blast
      have "take ?k (drop p (disk d)) @ take (sz - ?k) (drop (n * Suc (p div n)) (disk d1)) = take sz (drop p (disk d))"
        unfolding d1 pk [symmetric] using take_add [of ?k "sz - ?k" "drop p (disk d)"] by (simp add: add.commute)
      moreover have "length (take ?k (drop p (disk d))) + (sz - ?k) = sz" using assms(2) by simp
      ultimately have "read_aligned rs (int n) True (int (p + ?k)) (int (sz - ?k)) (take ?k (drop p (disk d))) d1 =
          Some (int sz, take sz (drop p (disk d)), d2)" using t by (simp only: pk)
      moreover have "block_read rs (int n) (int (length (disk d))) True (int p) (int sz) d =
          read_aligned rs (int n) True (int (p + ?k)) (int (sz - ?k)) (take ?k (drop p (disk d))) d1"
        by (simp only: block_read_def cl Let_def first sum.case prod.case)
      ultimately show ?thesis using not_inside d1 d2 by auto
    qed
  qed
qed

lemma write_inside_sector:
  assumes c: "sector_contract rs ws disk n" and "p + length b \<le> length (disk d)"
  shows "(if inside_sector n p (length b)
    then block_write rs ws (int n) (int (length (disk d))) False True (int p) b d = None
    else \<exists>d'. block_write rs ws (int n) (int (length (disk d))) False True (int p) b d = Some (int (length b), d') \<and>
      disk d' = overwrite (disk d) p b)"
proof -
  note n = sector_contractD(1) [OF c]
  have cl: "clamp_int 0 (int p) (int (length (disk d))) = int p"
    "clamp_int 0 (int (length b)) (int (length (disk d)) - int p) = int (length b)"
    "take (nat (int (length b))) b = b"
    using assms(2) by (simp_all add: clamp_int_def)
  show ?thesis
  proof (cases "p mod n = 0")
    case True
    then obtain i where p: "p = n * i" by (meson dvd_eq_mod_eq_0 dvdE)
    then have "write_first_sector rs ws (int n) True (int p) b d = Inr (int (n * i), b, d)"
      by (simp add: write_first_sector_def)
    then have "block_write rs ws (int n) (int (length (disk d))) False True (int p) b d =
        write_aligned rs ws (int n) True (int (length b)) (int (n * i)) b d"
      by (simp only: block_write_def cl Let_def if_False sum.case prod.case)
    then show ?thesis
      using write_aligned_disk [OF c, of i b d "int (length b)"] assms(2) True p by (auto simp: inside_sector_def)
  next
    case False
    let ?k = "min (length b) (n - p mod n)"
    have div: "int p div int n = int (p div n)" "int p mod int n = int (p mod n)" by (simp_all add: zdiv_int zmod_int)
    have in_disk: "n * (p div n) < length (disk d)"
    proof -
      obtain k where k: "length (disk d) = n * k" using sector_contractD(2) [OF c] by blast
      have "p \<noteq> n * k" using False by auto
      then have "p < length (disk d)" using assms(2) k by linarith
      then show ?thesis by (meson le_less_trans times_div_less_eq_dividend)
    qed
    then obtain d1 where r: "rs (int (p div n)) d = (0, take n (drop (n * (p div n)) (disk d)), d1)"
      and d1: "disk d1 = disk d" using sector_contractD(3) [OF c] by blast
    let ?s = "overwrite (take n (drop (n * (p div n)) (disk d))) (p mod n) (take ?k b)"
    have fits: "n * (p div n) + n \<le> length (disk d)" by (rule sector_end [OF sector_contractD(2) [OF c] in_disk])
    have kb: "length (take ?k b) = ?k" "p mod n + ?k \<le> n" using mod_less_divisor [OF n, of p] by simp_all
    have "length ?s = n" using kb fits by (subst length_overwrite) simp_all
    then obtain d2 where w: "ws (int (p div n)) ?s d1 = (0, d2)" and "disk d2 = overwrite (disk d1) (n * (p div n)) ?s"
      using sector_contractD(4) [OF c, of "p div n" d1 ?s] in_disk d1 by auto
    then have d2: "disk d2 = overwrite (disk d) p (take ?k b)"
      using overwrite_sector [of "p mod n" "take ?k b" n "n * (p div n)" "disk d"] kb fits d1 by simp
    have m: "min (int (length b)) (int n - int (p mod n)) = int ?k"
    proof -
      have "int (n - p mod n) = int n - int (p mod n)" using mod_less_divisor [OF n, of p] by (simp add: of_nat_diff)
      then show ?thesis by (simp add: of_nat_min)
    qed
    have first: "write_first_sector rs ws (int n) True (int p) b d = Inr (int (p + ?k), drop ?k b, d2)"
      unfolding write_first_sector_def div m Let_def r prod.case nat_int using False w by simp
    have run: "block_write rs ws (int n) (int (length (disk d))) False True (int p) b d =
        write_aligned rs ws (int n) True (int (length b)) (int (p + ?k)) (drop ?k b) d2"
      by (simp only: block_write_def cl Let_def if_False first sum.case prod.case)
    show ?thesis
    proof (cases "inside_sector n p (length b)")
      case True
      then have k: "?k = length b" by (simp add: inside_sector_def)
      have "(int p + int (length b)) mod int n \<noteq> 0"
        using inside_sector_mod [OF True n] by (metis of_nat_add zmod_int of_nat_0_eq_iff)
      then show ?thesis using True run unfolding k by (simp add: write_aligned_def)
    next
      case not_inside: False
      then have k: "?k = n - p mod n" using False by (simp add: inside_sector_def)
      then have pk: "p + ?k = n * Suc (p div n)" using mod_add_rest [OF n False] by simp
      have len2: "length (disk d2) = length (disk d)" unfolding d2 using assms(2) kb by simp
      have "n * Suc (p div n) + length (drop ?k b) \<le> length (disk d2)"
        unfolding pk [symmetric] len2 using assms(2) by simp
      then obtain d3 where t: "write_aligned rs ws (int n) True (int (length b)) (int (n * Suc (p div n))) (drop ?k b) d2 =
          Some (int (length b), d3)" and d3: "disk d3 = overwrite (disk d2) (n * Suc (p div n)) (drop ?k b)"
        using write_aligned_disk [OF c] by blast
      have "disk d3 = overwrite (disk d) p b"
        using overwrite_overwrite [of p "take ?k b" "disk d" "drop ?k b"] assms(2) kb(1)
        unfolding d3 d2 pk [symmetric] by simp
      then show ?thesis using run t not_inside unfolding pk by auto
    qed
  qed
qed

subsection \<open>A concrete disk for the witnesses\<close>

text \<open>Four sectors of four bytes; the state of the device is the contents as a function of the position.\<close>

definition small_disk :: "(nat \<Rightarrow> u8) \<Rightarrow> u8 list" where
  "small_disk d = map d [0..<16]"

definition small_read :: "(nat \<Rightarrow> u8) read_sector" where
  "small_read i d = (0, map d [4 * nat i..<4 * nat i + 4], d)"

definition small_write :: "(nat \<Rightarrow> u8) write_sector" where
  "small_write i b d = (0, \<lambda>k. if 4 * nat i \<le> k \<and> k < 4 * nat i + 4 then b ! (k - 4 * nat i) else d k)"

lemma small_disk_contract: "sector_contract small_read small_write small_disk 4"
proof -
  have "i < 4 \<Longrightarrow> map d [4 * i..<4 * i + 4] = take 4 (drop (4 * i) (map d [0..<16]))" for i and d :: "nat \<Rightarrow> u8"
    by (simp add: drop_map take_map)
  moreover have "map (\<lambda>k. if 4 * i \<le> k \<and> k < 4 * i + 4 then b ! (k - 4 * i) else d k) [0..<16] =
      overwrite (map d [0..<16]) (4 * i) b" if "i < 4" "length b = 4" for i b and d :: "nat \<Rightarrow> u8"
  proof (rule nth_equalityI)
    fix k assume "k < length (map (\<lambda>k. if 4 * i \<le> k \<and> k < 4 * i + 4 then b ! (k - 4 * i) else d k) [0..<16])"
    then show "map (\<lambda>k. if 4 * i \<le> k \<and> k < 4 * i + 4 then b ! (k - 4 * i) else d k) [0..<16] ! k =
        overwrite (map d [0..<16]) (4 * i) b ! k"
      using that by (auto simp: overwrite_def nth_append)
  qed (use that in \<open>simp add: overwrite_def\<close>)
  ultimately show ?thesis
    by (simp add: sector_contract_def small_disk_def small_read_def small_write_def cong: if_cong)
qed

subsection \<open>Equivalence with the RAM disk\<close>

text \<open>
  C18: over any disk whose driver keeps the sector contract, a read of \<^verbatim>\<open>SimpleBlockDevice\<close> returns the same
  count and the same bytes as the RAM disk with the same contents, for every offset in the disk and every
  size, unless the range starts behind the start of a sector and ends before its end: then the kernel's
  own assertion fails.
\<close>

theorem block_read_as_ramdisk:
  assumes "sector_contract rs ws disk n" and "p \<le> length (disk d)"
  shows "map_option (\<lambda>(rc, bytes, d'). (rc, bytes))
      (block_read rs (int n) (int (length (disk d))) True (int p) (int sz) d) =
    (if inside_sector n p (min sz (length (disk d) - p)) then None
     else ramdisk_read (int p) (int sz) \<lparr>ram_data = disk d, ram_readonly = ro\<rparr>)"
proof -
  let ?s = "min sz (length (disk d) - p)"
  have cl: "clamp_int 0 (int p) (int (length (disk d))) = int p" using assms(2) by (simp add: clamp_int_def)
  have same: "block_read rs (int n) (int (length (disk d))) True (int p) (int sz) d =
      block_read rs (int n) (int (length (disk d))) True (int p) (int ?s) d"
    using clamp_size [OF assms(2), of sz] clamp_size [OF assms(2), of ?s] by (simp add: block_read_def cl)
  have m: "min (int (length (disk d)) - int p) (int sz) = int ?s" using assms(2) by (simp add: of_nat_min of_nat_diff min.commute)
  have t: "take ?s (drop p (disk d)) = take sz (drop p (disk d))" by (auto simp: min_def)
  have ram: "ramdisk_read (int p) (int sz) \<lparr>ram_data = disk d, ram_readonly = ro\<rparr> = Some (int ?s, take sz (drop p (disk d)))"
    unfolding ramdisk_read_def ram_disk.simps m Let_def nat_int t using assms(2) by simp
  have "p + ?s \<le> length (disk d)" using assms(2) by simp
  then show ?thesis
    using read_inside_sector [OF assms(1), of p ?s d] unfolding same ram t by (auto split: if_splits)
qed

theorem block_read_as_ramdisk_witness:
  "\<exists>d'. block_read small_read 4 16 True 3 6 (of_nat \<circ> Suc) = Some (6, [4, 5, 6, 7, 8, 9], d')"
  using block_read_as_ramdisk [OF small_disk_contract, where p = 3 and sz = 6 and d = "of_nat \<circ> Suc" and ro = True]
  by (auto simp: small_disk_def inside_sector_def ramdisk_read_def upt_rec)

text \<open>
  The same for a write, sectors that it touches only in part included.  (The one driver of the repository that is a
  \<^verbatim>\<open>SimpleBlockDevice\<close>, the virtio disk, answers \<^verbatim>\<open>ERR_NOTSUP\<close> to every write of a sector.)
\<close>

lemma block_write_as_ramdisk:
  assumes "sector_contract rs ws disk n" and "p \<le> length (disk d)"
  shows "map_option (\<lambda>(rc, d'). (rc, \<lparr>ram_data = disk d', ram_readonly = False\<rparr>))
      (block_write rs ws (int n) (int (length (disk d))) False True (int p) b d) =
    (if inside_sector n p (min (length b) (length (disk d) - p)) then None
     else ramdisk_write (int p) b \<lparr>ram_data = disk d, ram_readonly = False\<rparr>)"
proof -
  let ?s = "min (length b) (length (disk d) - p)"
  let ?b = "take ?s b"
  have len: "length ?b = ?s" by simp
  have cl: "clamp_int 0 (int p) (int (length (disk d))) = int p" using assms(2) by (simp add: clamp_int_def)
  have same: "block_write rs ws (int n) (int (length (disk d))) False True (int p) b d =
      block_write rs ws (int n) (int (length (disk d))) False True (int p) ?b d"
    using clamp_size [OF assms(2), of "length b"] clamp_size [OF assms(2), of "length ?b"]
    by (simp add: block_write_def cl)
  have m: "min (int (length (disk d)) - int p) (int (length b)) = int ?s"
    using assms(2) by (simp add: of_nat_min of_nat_diff min.commute)
  have ram: "ramdisk_write (int p) b \<lparr>ram_data = disk d, ram_readonly = False\<rparr> =
      Some (int ?s, \<lparr>ram_data = overwrite (disk d) p ?b, ram_readonly = False\<rparr>)"
    unfolding ramdisk_write_def ram_disk.simps m Let_def nat_int using assms(2) by simp
  have "p + length ?b \<le> length (disk d)" using assms(2) unfolding len by simp
  then show ?thesis
    using write_inside_sector [OF assms(1), of p ?b d] unfolding same ram len by (auto split: if_splits)
qed

lemma block_write_small:
  "\<exists>d'. block_write small_read small_write 4 16 False True 3 [1, 2, 3] (\<lambda>_. 0) = Some (3, d') \<and>
    small_disk d' = [0, 0, 0, 1, 2, 3, 0, 0, 0, 0, 0, 0, 0, 0, 0, 0]"
  using block_write_as_ramdisk [OF small_disk_contract, where p = 3 and b = "[1, 2, 3]" and d = "\<lambda>_. 0"]
  by (auto simp: small_disk_def inside_sector_def ramdisk_write_def overwrite_def upt_rec)

end
