(* ===== verification/Tty.thy ===== *)
theory Tty
  imports RingBuffer Inode
begin

text \<open>
  Terminals (\<^verbatim>\<open>TTY\<close>, \<^verbatim>\<open>PtyMaster\<close> and \<^verbatim>\<open>PtySlave\<close> in \<^verbatim>\<open>kernel/drivers/device.h\<close> and
  \<^verbatim>\<open>device.cpp\<close>): the line discipline, and the pair of terminals that is made of it.  The virtual
  \<^verbatim>\<open>echo_raw\<close> is a parameter; what it writes to is the field \<open>tty_out\<close>.  The line buffer is the list of
  the bytes in use.  \<open>None\<close> is a failing \<^verbatim>\<open>kassert\<close>.
\<close>

subsection \<open>State\<close>

record termios =
  c_iflag :: u32
  c_oflag :: u32
  c_cflag :: u32
  c_lflag :: u32
  c_cc :: "u8 list"

definition INLCR :: u32 where "INLCR = 0x40"
definition ICRNL :: u32 where "ICRNL = 0x100"
definition ONLCR :: u32 where "ONLCR = 0x4"
definition ICANON :: u32 where "ICANON = 0x2"
definition ECHO :: u32 where "ECHO = 0x8"
definition ECHOK :: u32 where "ECHOK = 0x20"
definition ECHONL :: u32 where "ECHONL = 0x40"

record 'e tty =
  m_termios :: termios
  m_linebuffer :: "u8 list"
  m_available_lines :: u32
  m_input_buffer :: "u8 ring_buffer"
  tty_out :: 'e

definition LINEBUFFER_SIZE :: nat where "LINEBUFFER_SIZE = 256"

abbreviation tty_flag :: "(termios \<Rightarrow> u32) \<Rightarrow> u32 \<Rightarrow> 'e tty \<Rightarrow> bool" where
  "tty_flag sel flag t \<equiv> sel (m_termios t) AND flag \<noteq> 0"

definition reset_termios :: "'e tty \<Rightarrow> 'e tty" where
  "reset_termios t = t\<lparr>m_termios := (m_termios t)\<lparr>c_iflag := ICRNL, c_oflag := ONLCR, c_cflag := 0,
     c_lflag := (ICANON OR ECHO OR ECHOK)\<rparr>\<rparr>"

text \<open>A new terminal: the constructor on the initial values of the members.\<close>

definition new_tty :: "u8 list \<Rightarrow> 'e \<Rightarrow> 'e tty" where
  "new_tty storage out = reset_termios
     \<lparr>m_termios = \<lparr>c_iflag = 0, c_oflag = 0, c_cflag = 0, c_lflag = 0, c_cc = replicate 32 0\<rparr>,
      m_linebuffer = [], m_available_lines = 0,
      m_input_buffer = \<lparr>rb_data = storage, read_pos = 0, write_pos = 0, rb_count = 0\<rparr>, tty_out = out\<rparr>"

subsection \<open>The line discipline\<close>

definition echo_raw_to :: "(u8 \<Rightarrow> 'e \<Rightarrow> 'e) \<Rightarrow> u8 \<Rightarrow> 'e tty \<Rightarrow> 'e tty" where
  "echo_raw_to echo_raw ch t = t\<lparr>tty_out := echo_raw ch (tty_out t)\<rparr>"

definition tty_echo :: "(u8 \<Rightarrow> 'e \<Rightarrow> 'e) \<Rightarrow> u8 \<Rightarrow> 'e tty \<Rightarrow> 'e tty" where
  "tty_echo echo_raw ch t = (
     let t = (if tty_flag c_oflag ONLCR t \<and> ch = 10 then echo_raw_to echo_raw 13 t else t)
     in echo_raw_to echo_raw ch t)"

definition flush_line :: "'e tty \<Rightarrow> 'e tty" where
  "flush_line t = t\<lparr>m_input_buffer := fold rb_push (m_linebuffer t) (m_input_buffer t),
     m_linebuffer := [], m_available_lines := m_available_lines t + 1\<rparr>"

definition tty_emit :: "(u8 \<Rightarrow> 'e \<Rightarrow> 'e) \<Rightarrow> u8 \<Rightarrow> 'e tty \<Rightarrow> 'e tty" where
  "tty_emit echo_raw ch t = (
     let ch = (if ch = 13 \<and> tty_flag c_iflag ICRNL t then 10
               else if ch = 10 \<and> tty_flag c_iflag INLCR t then 13 else ch)
     in if tty_flag c_lflag ICANON t then
          (if ch = 127 then
             (if m_linebuffer t \<noteq> [] then
                echo_raw_to echo_raw 8 (echo_raw_to echo_raw 32 (echo_raw_to echo_raw 8
                  (t\<lparr>m_linebuffer := butlast (m_linebuffer t)\<rparr>)))
              else t)
           else if \<not> length (m_linebuffer t) < LINEBUFFER_SIZE then echo_raw_to echo_raw 7 t
           else
             let t = t\<lparr>m_linebuffer := m_linebuffer t @ [ch]\<rparr>
             in if ch = 10 then
                  (let t = (if tty_flag c_lflag ECHO t \<or> tty_flag c_lflag ECHONL t
                            then tty_echo echo_raw 10 t else t)
                   in flush_line t)
                else if tty_flag c_lflag ECHO t then tty_echo echo_raw ch t else t)
        else
          let t = t\<lparr>m_input_buffer := rb_push ch (m_input_buffer t)\<rparr>
          in if tty_flag c_lflag ECHO t then tty_echo echo_raw ch t else t)"

text \<open>The loop of \<^verbatim>\<open>TTY::read\<close>: the bytes it stores, at most \<open>n\<close>.\<close>

fun tty_read_loop :: "bool \<Rightarrow> nat \<Rightarrow> 'e tty \<Rightarrow> (u8 list \<times> 'e tty) option" where
  "tty_read_loop canon 0 t = Some ([], t)"
| "tty_read_loop canon (Suc n) t =
     (case rb_pop (m_input_buffer t) of
        None \<Rightarrow> Some ([], t)
      | Some (ch, q) \<Rightarrow>
          let t = t\<lparr>m_input_buffer := q\<rparr> in
          if canon \<and> ch = 10 then do {
            kassert (m_available_lines t > 0);
            Some ([ch], t\<lparr>m_available_lines := m_available_lines t - 1\<rparr>)
          }
          else do {
            (bytes, t) \<leftarrow> tty_read_loop canon n t;
            Some (ch # bytes, t)
          })"

definition tty_read :: "nat \<Rightarrow> 'e tty \<Rightarrow> (u8 list \<times> 'e tty) option" where
  "tty_read n t = tty_read_loop (tty_flag c_lflag ICANON t) n t"

definition tty_write :: "(u8 \<Rightarrow> 'e \<Rightarrow> 'e) \<Rightarrow> u8 list \<Rightarrow> 'e tty \<Rightarrow> int \<times> 'e tty" where
  "tty_write echo_raw buffer t = (int (length buffer), fold (tty_echo echo_raw) buffer t)"

text \<open>The requests; \<open>TTYIO_OTHER\<close> stands for all the others.  The first result is the caller's buffer.\<close>

datatype TtyIoctl = TTYIO_TCGETATTR | TTYIO_TCSETATTR | TTYIO_OTHER

fun tty_ioctl :: "TtyIoctl \<Rightarrow> termios \<Rightarrow> 'e tty \<Rightarrow> int \<times> termios \<times> 'e tty" where
  "tty_ioctl TTYIO_TCGETATTR argp t = (0, m_termios t, t)"
| "tty_ioctl TTYIO_TCSETATTR argp t = (0, argp, t\<lparr>m_termios := argp\<rparr>)"
| "tty_ioctl TTYIO_OTHER argp t = (- errno ERR_NOTSUP, argp, t)"

text \<open>The new value of \<^verbatim>\<open>*out_revents\<close>; no terminal of the kernel overrides \<^verbatim>\<open>can_echo\<close>, which is true.\<close>

definition tty_poll :: "u32 \<Rightarrow> u32 \<Rightarrow> 'e tty \<Rightarrow> u32" where
  "tty_poll events out_revents t = (
     let can_read = (if tty_flag c_lflag ICANON t then m_available_lines t > 0
                     else \<not> rb_is_empty (m_input_buffer t));
         out_revents = (if events AND F_POLLIN \<noteq> 0 \<and> can_read then out_revents OR F_POLLIN else out_revents)
     in if events AND F_POLLOUT \<noteq> 0 then out_revents OR F_POLLOUT else out_revents)"

subsection \<open>Pseudo terminals\<close>

text \<open>
  The pair is the slave's terminal; its \<^verbatim>\<open>echo_raw\<close> pushes to the master's \<^verbatim>\<open>m_buf\<close>, so that is its
  \<open>tty_out\<close>.
\<close>

type_synonym pty = "u8 ring_buffer tty"

definition pty_master_read :: "nat \<Rightarrow> pty \<Rightarrow> u8 list \<times> pty" where
  "pty_master_read n p = (let (bytes, q) = fifo_drain rb_pop n (tty_out p) in (bytes, p\<lparr>tty_out := q\<rparr>))"

definition pty_master_write :: "u8 list \<Rightarrow> pty \<Rightarrow> int \<times> pty" where
  "pty_master_write buf p = (int (length buf), fold (tty_emit rb_push) buf p)"

definition pty_master_poll :: "u32 \<Rightarrow> u32 \<Rightarrow> pty \<Rightarrow> u32" where
  "pty_master_poll events out_revents p = (
     let out_revents = (if events AND F_POLLIN \<noteq> 0 \<and> \<not> rb_is_empty (tty_out p)
                        then out_revents OR F_POLLIN else out_revents)
     in if events AND F_POLLOUT \<noteq> 0
        then out_revents OR (tty_poll F_POLLOUT 0 p AND F_POLLOUT) else out_revents)"

definition pty_master_ioctl :: "bool \<Rightarrow> u8 \<Rightarrow> int" where
  "pty_master_ioctl getslave m_ptyid = (if getslave then uint m_ptyid else - errno ERR_NOTSUP)"

subsection \<open>The line discipline as an editor of lines\<close>

text \<open>What a typed line should be: every key is appended, and 127 takes the last one back.\<close>

definition line_edit :: "u8 list \<Rightarrow> u8 list \<Rightarrow> u8 list" where
  "line_edit = foldl (\<lambda>line key. if key = 127 then butlast line else line @ [key])"

lemma length_line_edit: "length (line_edit line ks) \<le> length line + length ks"
proof (induction ks arbitrary: line)
  case (Cons k ks)
  show ?case using Cons.IH [of "butlast line"] Cons.IH [of "line @ [k]"] by (auto simp: line_edit_def)
qed (simp add: line_edit_def)

lemma set_line_edit: "set (line_edit line ks) \<subseteq> set line \<union> set ks"
proof (induction ks arbitrary: line)
  case (Cons k ks)
  show ?case using Cons.IH [of "butlast line"] Cons.IH [of "line @ [k]"]
    by (auto simp: line_edit_def dest: in_set_butlastD)
qed (simp add: line_edit_def)

lemma echo_fields [simp]:
  "m_termios (tty_echo e ch t) = m_termios t"
  "m_linebuffer (tty_echo e ch t) = m_linebuffer t"
  "m_available_lines (tty_echo e ch t) = m_available_lines t"
  "m_input_buffer (tty_echo e ch t) = m_input_buffer t"
  "m_termios (echo_raw_to e ch t) = m_termios t"
  "m_linebuffer (echo_raw_to e ch t) = m_linebuffer t"
  "m_available_lines (echo_raw_to e ch t) = m_available_lines t"
  "m_input_buffer (echo_raw_to e ch t) = m_input_buffer t"
  by (simp_all add: tty_echo_def echo_raw_to_def Let_def)

lemma write_fields [simp]:
  "m_termios (fold (tty_echo e) bs t) = m_termios t"
  "m_linebuffer (fold (tty_echo e) bs t) = m_linebuffer t"
  "m_available_lines (fold (tty_echo e) bs t) = m_available_lines t"
  "m_input_buffer (fold (tty_echo e) bs t) = m_input_buffer t"
  by (induction bs arbitrary: t) simp_all

lemma emit_termios [simp]: "m_termios (tty_emit e ch t) = m_termios t"
  by (simp add: tty_emit_def flush_line_def Let_def)

lemma emit_key:
  assumes "tty_flag c_lflag ICANON t" and "ch \<noteq> 10" and "ch \<noteq> 13"
    and "length (m_linebuffer t) < LINEBUFFER_SIZE"
  shows "m_linebuffer (tty_emit e ch t) = line_edit (m_linebuffer t) [ch]"
    and "m_available_lines (tty_emit e ch t) = m_available_lines t"
    and "m_input_buffer (tty_emit e ch t) = m_input_buffer t"
  using assms by (simp_all add: tty_emit_def Let_def line_edit_def)

lemma emit_keys:
  assumes "tty_flag c_lflag ICANON t" and "10 \<notin> set ks" and "13 \<notin> set ks"
    and "length (m_linebuffer t) + length ks \<le> LINEBUFFER_SIZE"
  shows "m_linebuffer (fold (tty_emit e) ks t) = line_edit (m_linebuffer t) ks \<and>
    m_available_lines (fold (tty_emit e) ks t) = m_available_lines t \<and>
    m_input_buffer (fold (tty_emit e) ks t) = m_input_buffer t \<and>
    m_termios (fold (tty_emit e) ks t) = m_termios t"
  using assms
proof (induction ks arbitrary: t)
  case (Cons k ks)
  have key: "m_linebuffer (tty_emit e k t) = line_edit (m_linebuffer t) [k]"
    "m_available_lines (tty_emit e k t) = m_available_lines t"
    "m_input_buffer (tty_emit e k t) = m_input_buffer t"
    using Cons.prems by (auto intro!: emit_key)
  have "length (m_linebuffer (tty_emit e k t)) + length ks \<le> LINEBUFFER_SIZE"
    using Cons.prems(4) length_line_edit [of "m_linebuffer t" "[k]"] by (simp add: key)
  with Cons.IH [of "tty_emit e k t"] Cons.prems key show ?case by (simp add: line_edit_def)
qed (simp add: line_edit_def)

lemma emit_newline:
  assumes "tty_flag c_lflag ICANON t" and "ch = 13 \<and> tty_flag c_iflag ICRNL t"
    and "length (m_linebuffer t) < LINEBUFFER_SIZE"
  shows "m_linebuffer (tty_emit e ch t) = [] \<and>
    m_available_lines (tty_emit e ch t) = m_available_lines t + 1 \<and>
    m_input_buffer (tty_emit e ch t) = fold rb_push (m_linebuffer t @ [10]) (m_input_buffer t)"
  using assms by (simp add: tty_emit_def Let_def flush_line_def)

text \<open>Pushing a list into a ring buffer with room, and without.\<close>

lemma fold_push_room:
  "rb_inv q \<Longrightarrow> rb_count q + length xs \<le> rb_capacity q \<Longrightarrow>
   rb_inv (fold rb_push xs q) \<and> rb_contents (fold rb_push xs q) = rb_contents q @ xs \<and>
   rb_capacity (fold rb_push xs q) = rb_capacity q"
proof (induction xs arbitrary: q)
  case (Cons x xs)
  have c: "rb_contents (rb_push x q) = rb_contents q @ [x]"
    using Cons.prems by (auto intro!: rb_contents_push simp: rb_is_full_def)
  have "rb_count (rb_push x q) = rb_count q + 1"
    using arg_cong [OF c, of length] by simp
  then show ?case using Cons.IH [of "rb_push x q"] Cons.prems c by (simp add: rb_push_inv)
qed simp

lemma fold_push_inv: "rb_inv q \<Longrightarrow> rb_inv (fold rb_push xs q)"
  by (induction xs arbitrary: q) (simp_all add: rb_push_inv)

abbreviation lines_in :: "u8 list \<Rightarrow> nat" where
  "lines_in bs \<equiv> length (filter (\<lambda>b. b = 10) bs)"

lemma lines_in_push: "rb_inv q \<Longrightarrow> lines_in (rb_contents (rb_push b q)) \<le> lines_in (rb_contents q) + lines_in [b]"
proof (cases "rb_is_full q")
  case True
  assume "rb_inv q"
  moreover have "lines_in (tl bs) \<le> lines_in bs" for bs by (cases bs) auto
  ultimately show ?thesis using rb_contents_push_full [of q b] True by simp
next
  case False
  assume "rb_inv q"
  then show ?thesis using rb_contents_push [of q b] False by simp
qed

lemma lines_in_fold_push:
  "rb_inv q \<Longrightarrow> lines_in (rb_contents (fold rb_push bs q)) \<le> lines_in (rb_contents q) + lines_in bs"
proof (induction bs arbitrary: q)
  case (Cons b bs)
  have "lines_in (rb_contents (fold rb_push bs (rb_push b q))) \<le> lines_in (rb_contents (rb_push b q)) + lines_in bs"
    using Cons by (simp add: rb_push_inv)
  also have "\<dots> \<le> lines_in (rb_contents q) + lines_in (b # bs)"
    using lines_in_push [OF Cons.prems, of b] by auto
  finally show ?case by simp
qed simp

text \<open>One read: a prefix of the buffer, up to and with the first newline.\<close>

lemma read_loop_line:
  "rb_inv (m_input_buffer t) \<Longrightarrow> rb_contents (m_input_buffer t) = line @ 10 # rest \<Longrightarrow> 10 \<notin> set line \<Longrightarrow>
   length line < n \<Longrightarrow> 0 < m_available_lines t \<Longrightarrow>
   \<exists>q. tty_read_loop True n t = Some (line @ [10],
         t\<lparr>m_input_buffer := q, m_available_lines := m_available_lines t - 1\<rparr>) \<and>
       rb_inv q \<and> rb_contents q = rest \<and> rb_capacity q = rb_capacity (m_input_buffer t)"
proof (induction line arbitrary: t n)
  case Nil
  then obtain m where n: "n = Suc m" by (cases n) auto
  obtain ch q where pop: "rb_pop (m_input_buffer t) = Some (ch, q)"
    using Nil.prems(2) rb_pop_eq_None [of "m_input_buffer t"] by (cases "rb_pop (m_input_buffer t)") auto
  from rb_pop_Some [OF Nil.prems(1) this] Nil.prems pop show ?case
    by (auto simp: n intro!: exI [of _ q])
next
  case (Cons b line)
  then obtain m where n: "n = Suc m" by (cases n) auto
  obtain ch q where pop: "rb_pop (m_input_buffer t) = Some (ch, q)"
    using Cons.prems(2) rb_pop_eq_None [of "m_input_buffer t"] by (cases "rb_pop (m_input_buffer t)") auto
  note q = rb_pop_Some [OF Cons.prems(1) pop]
  then have ch: "ch = b" "b \<noteq> 10" and rest: "rb_contents q = line @ 10 # rest"
    using Cons.prems by auto
  from Cons.IH [of "t\<lparr>m_input_buffer := q\<rparr>" m] Cons.prems q rest pop ch n show ?case
    by auto
qed

lemma unat_pred: "0 < w \<Longrightarrow> unat (w - 1) = unat w - 1" for w :: u32
  by (simp add: unat_sub word_le_nat_alt word_less_nat_alt)

lemma read_loop_counts:
  "rb_inv (m_input_buffer t) \<Longrightarrow> lines_in (rb_contents (m_input_buffer t)) \<le> unat (m_available_lines t) \<Longrightarrow>
   \<exists>bs t'. tty_read_loop True n t = Some (bs, t') \<and> rb_inv (m_input_buffer t') \<and>
     rb_capacity (m_input_buffer t') = rb_capacity (m_input_buffer t) \<and>
     rb_contents (m_input_buffer t) = bs @ rb_contents (m_input_buffer t') \<and>
     unat (m_available_lines t) = unat (m_available_lines t') + lines_in bs \<and>
     m_linebuffer t' = m_linebuffer t \<and> m_termios t' = m_termios t"
proof (induction n arbitrary: t)
  case (Suc n)
  show ?case
  proof (cases "rb_pop (m_input_buffer t)")
    case None
    then show ?thesis using Suc.prems by simp
  next
    case (Some r)
    then obtain ch q where pop: "rb_pop (m_input_buffer t) = Some (ch, q)" by (cases r) auto
    note q = rb_pop_Some [OF Suc.prems(1) pop]
    show ?thesis
    proof (cases "ch = 10")
      case True
      then have "0 < unat (m_available_lines t)" using q Suc.prems(2) by auto
      then have "0 < m_available_lines t" by (simp add: word_less_nat_alt)
      then show ?thesis using True pop q unat_pred by (simp add: kassert_def word_less_nat_alt)
    next
      case False
      then show ?thesis using Suc.IH [of "t\<lparr>m_input_buffer := q\<rparr>"] pop q Suc.prems by auto
    qed
  qed
qed simp

subsection \<open>Typing a line and reading it\<close>

definition idle_pty :: "pty \<Rightarrow> bool" where
  "idle_pty p \<longleftrightarrow> tty_flag c_lflag ICANON p \<and> tty_flag c_iflag ICRNL p \<and> m_linebuffer p = [] \<and>
     m_available_lines p = 0 \<and> rb_inv (m_input_buffer p) \<and> rb_contents (m_input_buffer p) = []"

lemma type_line:
  assumes "tty_flag c_lflag ICANON p" and "tty_flag c_iflag ICRNL p" and "rb_inv (m_input_buffer p)"
    and "m_linebuffer p = []" and "10 \<notin> set ks" and "13 \<notin> set ks" and "length ks < LINEBUFFER_SIZE"
    and "rb_count (m_input_buffer p) + length ks < rb_capacity (m_input_buffer p)"
  shows "\<exists>q. pty_master_write (ks @ [13]) p = (int (length ks) + 1, q) \<and> m_linebuffer q = [] \<and>
    m_available_lines q = m_available_lines p + 1 \<and> m_termios q = m_termios p \<and>
    rb_inv (m_input_buffer q) \<and>
    rb_contents (m_input_buffer q) = rb_contents (m_input_buffer p) @ line_edit [] ks @ [10]"
proof -
  let ?t = "fold (tty_emit rb_push) ks p"
  have t: "m_linebuffer ?t = line_edit [] ks" "m_available_lines ?t = m_available_lines p"
    "m_input_buffer ?t = m_input_buffer p" "m_termios ?t = m_termios p"
    using emit_keys [of p ks rb_push] assms by auto
  have len: "length (line_edit [] ks) \<le> length ks" using length_line_edit [of "[]" ks] by simp
  then have "length (m_linebuffer ?t) < LINEBUFFER_SIZE" using len assms(7) by (simp add: t)
  then have q: "m_linebuffer (tty_emit rb_push 13 ?t) = [] \<and>
      m_available_lines (tty_emit rb_push 13 ?t) = m_available_lines p + 1 \<and>
      m_input_buffer (tty_emit rb_push 13 ?t) = fold rb_push (line_edit [] ks @ [10]) (m_input_buffer p)"
    using emit_newline [of ?t 13 rb_push] assms(1,2) t by simp
  have "rb_inv (m_input_buffer (tty_emit rb_push 13 ?t)) \<and>
      rb_contents (m_input_buffer (tty_emit rb_push 13 ?t)) = rb_contents (m_input_buffer p) @ line_edit [] ks @ [10]"
    using fold_push_room [of "m_input_buffer p" "line_edit [] ks @ [10]"] assms(3,8) len q by simp
  then show ?thesis using q t by (simp add: pty_master_write_def)
qed

text \<open>
  C25: A line typed at the master of an idle pseudo terminal, edited with the erase key and ended by Enter, makes
  the slave readable, and one read returns the edited line and a newline and leaves the terminal idle.
\<close>
theorem tty_line_roundtrip:
  assumes "idle_pty p" and "10 \<notin> set ks" and "13 \<notin> set ks"
    and "length ks < LINEBUFFER_SIZE" and "length ks < rb_capacity (m_input_buffer p)" and "length ks < n"
  shows "\<exists>q r. pty_master_write (ks @ [13]) p = (int (length ks) + 1, q) \<and>
    tty_poll F_POLLIN 0 q = F_POLLIN \<and>
    tty_read n q = Some (line_edit [] ks @ [10], r) \<and> idle_pty r \<and> tty_poll F_POLLIN 0 r = 0"
proof -
  have p: "tty_flag c_lflag ICANON p" "tty_flag c_iflag ICRNL p" "m_linebuffer p = []"
    "m_available_lines p = 0" "rb_inv (m_input_buffer p)" "rb_contents (m_input_buffer p) = []"
    using assms(1) unfolding idle_pty_def by blast+
  have "rb_count (m_input_buffer p) = 0" using arg_cong [OF p(6), of length] by simp
  then obtain q where q: "pty_master_write (ks @ [13]) p = (int (length ks) + 1, q)" "m_linebuffer q = []"
      "m_available_lines q = 1" "m_termios q = m_termios p" "rb_inv (m_input_buffer q)"
      "rb_contents (m_input_buffer q) = line_edit [] ks @ 10 # []"
    using type_line [of p ks] p assms by auto
  have "10 \<notin> set (line_edit [] ks)" using set_line_edit [of "[]" ks] assms(2) by auto
  moreover have "length (line_edit [] ks) < n" using length_line_edit [of "[]" ks] assms(6) by simp
  ultimately obtain i where i: "tty_read_loop True n q = Some (line_edit [] ks @ [10],
        q\<lparr>m_input_buffer := i, m_available_lines := 0\<rparr>)" "rb_inv i" "rb_contents i = []"
    using read_loop_line [OF q(5,6), of n] q(3) by auto
  have "tty_read n q = Some (line_edit [] ks @ [10], q\<lparr>m_input_buffer := i, m_available_lines := 0\<rparr>)"
    using i(1) p(1) q(4) by (simp add: tty_read_def)
  moreover have "idle_pty (q\<lparr>m_input_buffer := i, m_available_lines := 0\<rparr>)"
    using i p q by (simp add: idle_pty_def)
  ultimately show ?thesis using q p by (auto simp: tty_poll_def Let_def F_POLLIN_def F_POLLOUT_def)
qed

definition example_pty :: pty where
  "example_pty = new_tty (replicate 8 0) \<lparr>rb_data = replicate 4 0, read_pos = 0, write_pos = 0, rb_count = 0\<rparr>"

lemma example_idle: "idle_pty example_pty"
  by (simp add: idle_pty_def example_pty_def new_tty_def reset_termios_def ICRNL_def ONLCR_def
      ICANON_def ECHO_def ECHOK_def rb_inv_def rb_capacity_def rb_contents_def)

text \<open>Typing \<open>abX\<close>, erasing the \<open>X\<close> and Enter gives the line \<open>ab\<close>.\<close>

theorem tty_line_roundtrip_witness:
  "\<exists>q r. pty_master_write [97, 98, 88, 127, 13] example_pty = (5, q) \<and>
     tty_read 80 q = Some ([97, 98, 10], r) \<and> idle_pty r"
proof -
  have cap: "rb_capacity (m_input_buffer example_pty) = 8"
    by (simp add: example_pty_def new_tty_def reset_termios_def rb_capacity_def)
  have "line_edit [] [97, 98, 88, 127] = [97, 98]" by (simp add: line_edit_def)
  then show ?thesis
    using tty_line_roundtrip [OF example_idle, of "[97, 98, 88, 127]" 80] cap
    by (auto simp: LINEBUFFER_SIZE_def)
qed

subsection \<open>What holds of a terminal in canonical mode\<close>

datatype pty_event = MasterWrite "u8 list" | MasterRead nat | SlaveRead nat | SlaveWrite "u8 list"
  | SlaveSetAttr termios

fun pty_step :: "pty_event \<Rightarrow> pty \<Rightarrow> pty option" where
  "pty_step (MasterWrite bs) p = Some (snd (pty_master_write bs p))"
| "pty_step (MasterRead n) p = Some (snd (pty_master_read n p))"
| "pty_step (SlaveRead n) p = map_option snd (tty_read n p)"
| "pty_step (SlaveWrite bs) p = Some (snd (tty_write rb_push bs p))"
| "pty_step (SlaveSetAttr a) p = Some (snd (snd (tty_ioctl TTYIO_TCSETATTR a p)))"

fun pty_run :: "pty_event list \<Rightarrow> pty \<Rightarrow> pty option" where
  "pty_run [] p = Some p"
| "pty_run (e # es) p = Option.bind (pty_step e p) (pty_run es)"

text \<open>The requests that leave the terminal in canonical mode.\<close>

fun keeps_canonical :: "pty_event \<Rightarrow> bool" where
  "keeps_canonical (SlaveSetAttr a) = (c_lflag a AND ICANON \<noteq> 0)"
| "keeps_canonical _ = True"

text \<open>The bytes typed at the master.\<close>

fun typed :: "pty_event list \<Rightarrow> nat" where
  "typed [] = 0"
| "typed (MasterWrite bs # es) = length bs + typed es"
| "typed (_ # es) = typed es"

text \<open>
  After at most \<open>n\<close> typed bytes.  While they fit into the input buffer, nothing has been overwritten there and the
  count is exact; after that it can only be too large.
\<close>

definition canonical_inv :: "nat \<Rightarrow> nat \<Rightarrow> pty \<Rightarrow> bool" where
  "canonical_inv cap n p \<longleftrightarrow> tty_flag c_lflag ICANON p \<and> rb_inv (m_input_buffer p) \<and>
     rb_capacity (m_input_buffer p) = cap \<and>
     10 \<notin> set (m_linebuffer p) \<and> length (m_linebuffer p) \<le> LINEBUFFER_SIZE \<and>
     lines_in (rb_contents (m_input_buffer p)) \<le> unat (m_available_lines p) \<and>
     unat (m_available_lines p) \<le> n \<and>
     (n \<le> cap \<longrightarrow> rb_count (m_input_buffer p) + length (m_linebuffer p) \<le> n \<and>
       lines_in (rb_contents (m_input_buffer p)) = unat (m_available_lines p))"

lemma canonical_more: "canonical_inv cap n p \<Longrightarrow> canonical_inv cap (Suc n) p"
  by (auto simp: canonical_inv_def)

lemma unat_succ: "unat w \<le> n \<Longrightarrow> Suc n < 2 ^ 32 \<Longrightarrow> unat (w + 1) = unat w + 1" for w :: u32
  by (simp add: unat_word_ariths)

lemma fold_push_capacity [simp]: "rb_capacity (fold rb_push xs q) = rb_capacity q"
  by (induction xs arbitrary: q) simp_all

lemma canonical_flush:
  assumes p: "canonical_inv cap n p" and len: "length (m_linebuffer p) < LINEBUFFER_SIZE" and n: "Suc n < 2 ^ 32"
  shows "canonical_inv cap (Suc n) (flush_line (p\<lparr>m_linebuffer := m_linebuffer p @ [10]\<rparr>))"
proof -
  let ?bs = "m_linebuffer p @ [10]" and ?q = "m_input_buffer p"
  have lines: "lines_in ?bs = 1" using p by (auto simp: canonical_inv_def filter_empty_conv)
  have inv: "rb_inv ?q" using p by (simp add: canonical_inv_def)
  have avail: "unat (m_available_lines p + 1) = unat (m_available_lines p) + 1"
    using p by (intro unat_succ [OF _ n]) (simp add: canonical_inv_def)
  have le: "lines_in (rb_contents (fold rb_push ?bs ?q)) \<le> unat (m_available_lines p + 1)"
    using lines_in_fold_push [OF inv, of ?bs] p lines avail
    by (simp add: canonical_inv_def del: fold_append)
  have exact: "rb_count (fold rb_push ?bs ?q) \<le> Suc n \<and>
      lines_in (rb_contents (fold rb_push ?bs ?q)) = unat (m_available_lines p + 1)" if "Suc n \<le> cap"
  proof -
    have room: "rb_count ?q + length ?bs \<le> Suc n" "rb_capacity ?q = cap"
      and eq: "lines_in (rb_contents ?q) = unat (m_available_lines p)"
      using p that by (simp_all add: canonical_inv_def)
    then have c: "rb_contents (fold rb_push ?bs ?q) = rb_contents ?q @ ?bs"
      using fold_push_room [OF inv, of ?bs] that by simp
    have "rb_count (fold rb_push ?bs ?q) = rb_count ?q + length ?bs"
      using arg_cong [OF c, of length] by (simp del: fold_append)
    then show ?thesis using room lines avail eq unfolding c by (simp del: fold_append)
  qed
  show ?thesis using p fold_push_inv [OF inv, of ?bs] le exact avail
    by (simp add: flush_line_def canonical_inv_def del: fold_append)
qed

lemma canonical_inv_cong:
  assumes "m_termios q = m_termios p" and "m_linebuffer q = m_linebuffer p"
    and "m_available_lines q = m_available_lines p" and "m_input_buffer q = m_input_buffer p"
  shows "canonical_inv cap n q = canonical_inv cap n p"
  using assms by (simp add: canonical_inv_def)

lemma canonical_key:
  assumes "canonical_inv cap n p" and "length (m_linebuffer p) < LINEBUFFER_SIZE" and "ch \<noteq> 10"
  shows "canonical_inv cap (Suc n) (p\<lparr>m_linebuffer := m_linebuffer p @ [ch]\<rparr>)"
  using assms by (auto simp: canonical_inv_def)

lemma canonical_erase: "canonical_inv cap n p \<Longrightarrow> canonical_inv cap n (p\<lparr>m_linebuffer := butlast (m_linebuffer p)\<rparr>)"
  by (auto simp: canonical_inv_def dest: in_set_butlastD)

lemma echo_flush: "flush_line (tty_echo e ch p) = tty_echo e ch (flush_line p)"
  by (simp add: flush_line_def tty_echo_def echo_raw_to_def Let_def)

lemma canonical_echo [simp]:
  "canonical_inv cap n (tty_echo e ch p) = canonical_inv cap n p"
  "canonical_inv cap n (echo_raw_to e ch p) = canonical_inv cap n p"
  by (rule canonical_inv_cong; simp)+

lemma emit_canonical:
  assumes "canonical_inv cap n p" and "Suc n < 2 ^ 32"
  shows "canonical_inv cap (Suc n) (tty_emit rb_push ch p)"
proof -
  have "tty_flag c_lflag ICANON p" using assms(1) by (simp add: canonical_inv_def)
  then show ?thesis
    unfolding tty_emit_def Let_def
    using canonical_flush [OF assms(1) _ assms(2)] canonical_key [OF assms(1)]
      canonical_more [OF canonical_erase [OF assms(1)]] canonical_more [OF assms(1)]
    by (auto simp: echo_flush)
qed

lemma emits_canonical:
  "canonical_inv cap n p \<Longrightarrow> n + length bs < 2 ^ 32 \<Longrightarrow>
   canonical_inv cap (n + length bs) (fold (tty_emit rb_push) bs p)"
proof (induction bs arbitrary: n p)
  case (Cons b bs)
  have "canonical_inv cap (Suc n) (tty_emit rb_push b p)" using Cons.prems by (intro emit_canonical) simp_all
  from Cons.IH [OF this] Cons.prems(2) show ?case by simp
qed simp

lemma pty_step_canonical:
  assumes p: "canonical_inv cap n p" and e: "keeps_canonical e" and n: "n + typed [e] < 2 ^ 32"
  shows "\<exists>q. pty_step e p = Some q \<and> canonical_inv cap (n + typed [e]) q"
proof (cases e)
  case (SlaveRead k)
  have "rb_inv (m_input_buffer p)" "lines_in (rb_contents (m_input_buffer p)) \<le> unat (m_available_lines p)"
    using p by (simp_all add: canonical_inv_def)
  from read_loop_counts [OF this, of k] obtain bs q where q: "tty_read_loop True k p = Some (bs, q)"
      "rb_inv (m_input_buffer q)" "rb_capacity (m_input_buffer q) = rb_capacity (m_input_buffer p)"
      "rb_contents (m_input_buffer p) = bs @ rb_contents (m_input_buffer q)"
      "unat (m_available_lines p) = unat (m_available_lines q) + lines_in bs"
      "m_linebuffer q = m_linebuffer p" "m_termios q = m_termios p"
    by auto
  have "rb_count (m_input_buffer q) \<le> rb_count (m_input_buffer p)"
    using arg_cong [OF q(4), of length] by simp
  then show ?thesis using p q by (auto simp: SlaveRead tty_read_def canonical_inv_def)
next
  case (MasterWrite bs)
  then show ?thesis using emits_canonical [OF p, of bs] n by (simp add: pty_master_write_def)
next
  case (MasterRead k)
  then show ?thesis using p by (simp add: pty_master_read_def canonical_inv_def split: prod.splits)
next
  case (SlaveWrite bs)
  then show ?thesis using p canonical_inv_cong [of "fold (tty_echo rb_push) bs p" p cap n]
    by (simp add: tty_write_def)
next
  case (SlaveSetAttr a)
  then show ?thesis using p e by (simp add: canonical_inv_def)
qed

lemma typed_Cons: "typed (e # es) = typed [e] + typed es"
  by (cases e) simp_all

lemma pty_run_canonical:
  "canonical_inv cap n p \<Longrightarrow> list_all keeps_canonical es \<Longrightarrow> n + typed es < 2 ^ 32 \<Longrightarrow>
   \<exists>q. pty_run es p = Some q \<and> canonical_inv cap (n + typed es) q"
proof (induction es arbitrary: n p)
  case (Cons e es)
  have "keeps_canonical e" "n + typed [e] < 2 ^ 32" using Cons.prems(2,3) typed_Cons [of e es] by simp_all
  from pty_step_canonical [OF Cons.prems(1) this] obtain q
    where q: "pty_step e p = Some q" "canonical_inv cap (n + typed [e]) q" by blast
  have "n + typed [e] + typed es < 2 ^ 32" using Cons.prems(3) typed_Cons [of e es] by simp
  from Cons.IH [OF q(2) _ this] Cons.prems(2) q(1) typed_Cons [of e es] show ?case by (simp add: add.assoc)
qed simp

lemma new_tty_canonical: "storage \<noteq> [] \<Longrightarrow> canonical_inv (length storage) 0 (new_tty storage out)"
  by (simp add: canonical_inv_def new_tty_def reset_termios_def ICANON_def ECHO_def ECHOK_def
      rb_inv_def rb_capacity_def rb_contents_def)

text \<open>
  C24: From a new pseudo terminal, no sequence of reads, writes and mode changes that stay canonical, with fewer than
  \<open>2 ^ 32\<close> bytes typed in all, crashes the kernel; the count of available lines is never below the newlines that are
  buffered, and it is exactly their number as long as all that was typed fits into the input buffer; the line buffer
  never overflows and holds no newline.  (Once the ring buffer drops bytes the count stays too large, and it is a
  machine word: the bound keeps it from wrapping around.)
\<close>
theorem canonical_mode_never_panics:
  assumes "storage \<noteq> []" and "list_all keeps_canonical es" and "typed es < 2 ^ 32"
  shows "\<exists>p. pty_run es (new_tty storage out) = Some p \<and>
    length (filter (\<lambda>b. b = 10) (rb_contents (m_input_buffer p))) \<le> unat (m_available_lines p) \<and>
    (typed es \<le> length storage \<longrightarrow>
      unat (m_available_lines p) = length (filter (\<lambda>b. b = 10) (rb_contents (m_input_buffer p)))) \<and>
    length (m_linebuffer p) \<le> LINEBUFFER_SIZE \<and> 10 \<notin> set (m_linebuffer p)"
  using pty_run_canonical [OF new_tty_canonical [OF assms(1)] assms(2), of out] assms(3)
  by (auto simp: canonical_inv_def)

theorem canonical_mode_never_panics_witness:
  "\<exists>p. pty_run [MasterWrite [104, 105, 10, 120], SlaveRead 2, SlaveWrite [111], MasterRead 3]
     (new_tty (replicate 4 0) \<lparr>rb_data = [0, 0], read_pos = 0, write_pos = 0, rb_count = 0\<rparr>) = Some p \<and>
    unat (m_available_lines p) = length (filter (\<lambda>b. b = 10) (rb_contents (m_input_buffer p))) \<and>
    length (m_linebuffer p) \<le> LINEBUFFER_SIZE"
  using canonical_mode_never_panics [of "replicate 4 0"
      "[MasterWrite [104, 105, 10, 120], SlaveRead 2, SlaveWrite [111], MasterRead 3]"
      "\<lparr>rb_data = [0, 0], read_pos = 0, write_pos = 0, rb_count = 0\<rparr>"]
  by (auto simp del: pty_run.simps)

subsection \<open>Switching modes\<close>

text \<open>
  C30: A program can crash the kernel: after a switch to raw mode, a newline typed, and a switch back to canonical
  mode, a read finds a newline that no line was counted for, and the assertion in \<^verbatim>\<open>TTY::read\<close> fails.
\<close>
theorem tty_mode_switch_panics:
  assumes "idle_pty p" and "c_lflag raw AND ICANON = 0" and "c_iflag raw AND INLCR = 0"
  shows "pty_run [SlaveSetAttr raw, MasterWrite [10], SlaveSetAttr (m_termios p)] p \<noteq> None \<and>
    pty_run [SlaveSetAttr raw, MasterWrite [10], SlaveSetAttr (m_termios p), SlaveRead (Suc n)] p = None"
proof -
  let ?q = "snd (snd (tty_ioctl TTYIO_TCSETATTR (m_termios p)
      (snd (pty_master_write [10] (snd (snd (tty_ioctl TTYIO_TCSETATTR raw p)))))))"
  have inv: "rb_inv (m_input_buffer p)" and nil: "rb_contents (m_input_buffer p) = []"
    and canon: "tty_flag c_lflag ICANON p" and lines: "m_available_lines p = 0"
    using assms(1) by (simp_all add: idle_pty_def)
  have buf: "m_input_buffer ?q = rb_push 10 (m_input_buffer p)" and "m_available_lines ?q = 0"
    and "m_termios ?q = m_termios p"
    using assms lines by (simp_all add: pty_master_write_def tty_emit_def Let_def)
  moreover have "rb_count (m_input_buffer p) = 0" using arg_cong [OF nil, of length] by simp
  then have "rb_contents (rb_push 10 (m_input_buffer p)) = [10]"
    using fold_push_room [OF inv, of "[10]"] inv nil by (simp add: rb_inv_def)
  then obtain i where "rb_pop (rb_push 10 (m_input_buffer p)) = Some (10, i)"
    using rb_pop_eq_None [of "rb_push 10 (m_input_buffer p)"] rb_pop_Some [OF rb_push_inv [OF inv, of 10]]
    by (cases "rb_pop (rb_push 10 (m_input_buffer p))") auto
  ultimately have "tty_read (Suc n) ?q = None" using canon by (simp add: tty_read_def)
  then show ?thesis by simp
qed

theorem tty_mode_switch_panics_witness:
  "pty_run [SlaveSetAttr (m_termios example_pty\<lparr>c_lflag := ECHO\<rparr>), MasterWrite [10],
     SlaveSetAttr (m_termios example_pty), SlaveRead 1] example_pty = None"
  using tty_mode_switch_panics [OF example_idle, of "m_termios example_pty\<lparr>c_lflag := ECHO\<rparr>" 0]
  by (simp add: example_pty_def new_tty_def reset_termios_def ECHO_def ICANON_def ICRNL_def INLCR_def)

end
