(* ===== verification/Locking.thy ===== *)
theory Locking
  imports KernelError
begin

text \<open>
  Spin locks and mutexes (\<^verbatim>\<open>kernel/locking/spinlock.cpp\<close>, \<^verbatim>\<open>mutex.cpp\<close>, \<^verbatim>\<open>irqlock.cpp\<close>, and
  \<^verbatim>\<open>try_acquire\<close> of \<^verbatim>\<open>arch/arm/arch.h\<close>) as a step relation: the atomic actions of the threads that use one
  mutex, in any interleaving.
\<close>

subsection \<open>One lock word\<close>

text \<open>\<^verbatim>\<open>swp\<close> exchanges the word with 1 in one step; the result is true when it was 0.\<close>

definition SPINLOCK_START :: u32 where "SPINLOCK_START = 0"

definition try_acquire :: "u32 \<Rightarrow> bool \<times> u32" where
  "try_acquire is_taken = (is_taken = 0, 1)"

definition spinlock_is_taken :: "u32 \<Rightarrow> bool" where
  "spinlock_is_taken is_taken \<longleftrightarrow> is_taken \<noteq> 0"

definition spinlock_release :: "u32 \<Rightarrow> u32" where
  "spinlock_release is_taken = 0"

datatype MutexInitialState = Unlocked | Locked

definition mutex_init :: "MutexInitialState \<Rightarrow> u32" where
  "mutex_init state = (if state = Locked then snd (try_acquire SPINLOCK_START) else SPINLOCK_START)"

subsection \<open>The threads\<close>

text \<open>
  Where a thread is: not in an operation of the mutex, in the loop of \<^verbatim>\<open>mutex_take\<close> that yields while the lock is
  taken, in the loop of \<^verbatim>\<open>spinlock_take\<close>, in the loop of \<^verbatim>\<open>spinlock_take_with_timeout\<close> with its start time and
  its timeout, or between a successful take and its release.  \<open>TimedOut\<close> is the return of \<open>- ERR_TIMEDOUT\<close>.
\<close>

datatype lock_pc = Outside | Yielding | Spinning | SpinningUntil u32 u32 | Holding | TimedOut

record lock_state =
  is_taken :: u32
  lock_pcs :: "nat \<Rightarrow> lock_pc"

text \<open>What a thread does next; \<open>now\<close> is what \<^verbatim>\<open>get_ticks_ms\<close> returns if the step reads the clock.\<close>

datatype lock_act = MutexTake | MutexTakeTimeout u32 u32 | LockRun u32 | MutexRelease

definition at_pc :: "nat \<Rightarrow> lock_pc \<Rightarrow> lock_state \<Rightarrow> lock_state" where
  "at_pc t pc s = s\<lparr>lock_pcs := (lock_pcs s)(t := pc)\<rparr>"

definition acquire_step :: "nat \<Rightarrow> lock_pc \<Rightarrow> lock_state \<Rightarrow> lock_state" where
  "acquire_step t otherwise s = (
     let (acquired, word) = try_acquire (is_taken s)
     in at_pc t (if acquired then Holding else otherwise) (s\<lparr>is_taken := word\<rparr>))"

text \<open>One atomic action of thread \<open>t\<close>; \<open>started\<close> is \<^verbatim>\<open>scheduler_has_started()\<close>.\<close>

fun lock_action :: "bool \<Rightarrow> nat \<Rightarrow> lock_act \<Rightarrow> lock_state \<Rightarrow> lock_state option" where
  "lock_action started t MutexTake s =
     (if lock_pcs s t \<in> {Outside, TimedOut}
      then Some (at_pc t (if started then Yielding else Spinning) s) else None)"
| "lock_action started t (MutexTakeTimeout timeout_ms now) s =
     (if lock_pcs s t \<in> {Outside, TimedOut} then Some (at_pc t (SpinningUntil now timeout_ms) s) else None)"
| "lock_action started t (LockRun now) s =
     (case lock_pcs s t of
        Yielding \<Rightarrow> Some (if spinlock_is_taken (is_taken s) then s else at_pc t Spinning s)
      | Spinning \<Rightarrow> Some (acquire_step t Spinning s)
      | SpinningUntil start timeout_ms \<Rightarrow>
          Some (acquire_step t (if now - start > timeout_ms then TimedOut else SpinningUntil start timeout_ms) s)
      | _ \<Rightarrow> None)"
| "lock_action started t MutexRelease s =
     Some (at_pc t Outside (s\<lparr>is_taken := spinlock_release (is_taken s)\<rparr>))"

text \<open>
  The states that any interleaving reaches from an initialised mutex.  The code does not check who releases;
  its callers release only what they have taken.
\<close>

definition released_by_holder :: "nat \<Rightarrow> lock_act \<Rightarrow> lock_state \<Rightarrow> bool" where
  "released_by_holder t act s \<longleftrightarrow> (act = MutexRelease \<longrightarrow> lock_pcs s t = Holding)"

inductive lock_reach :: "MutexInitialState \<Rightarrow> lock_state \<Rightarrow> bool" for init where
  start: "lock_reach init \<lparr>is_taken = mutex_init init, lock_pcs = \<lambda>_. Outside\<rparr>"
| action: "lock_reach init s \<Longrightarrow> released_by_holder t act s \<Longrightarrow> lock_action started t act s = Some s' \<Longrightarrow> lock_reach init s'"

fun lock_run :: "bool \<Rightarrow> (nat \<times> lock_act) list \<Rightarrow> lock_state \<Rightarrow> lock_state option" where
  "lock_run started [] s = Some s"
| "lock_run started ((t, act) # acts) s =
     (if released_by_holder t act s then Option.bind (lock_action started t act s) (lock_run started acts) else None)"

inductive_cases lock_reach_cases: "lock_reach init s"

lemma lock_run_reach:
  "lock_reach init s \<Longrightarrow> lock_run started acts s = Some s' \<Longrightarrow> lock_reach init s'"
  by (induction started acts s rule: lock_run.induct)
    (auto simp: bind_eq_Some_conv split: if_splits dest: lock_reach.action)

subsection \<open>Mutual exclusion\<close>

text \<open>The word is 1 exactly when some thread is in the critical section, and never more than one is.\<close>

definition lock_inv :: "lock_state \<Rightarrow> bool" where
  "lock_inv s \<longleftrightarrow> (\<forall>t t'. lock_pcs s t = Holding \<longrightarrow> lock_pcs s t' = Holding \<longrightarrow> t = t') \<and>
     (is_taken s \<noteq> 0 \<longleftrightarrow> (\<exists>t. lock_pcs s t = Holding))"

lemma acquire_inv:
  assumes "lock_inv s" and "lock_pcs s t \<noteq> Holding" and "pc \<noteq> Holding"
  shows "lock_inv (acquire_step t pc s)"
proof (cases "is_taken s = 0")
  case True
  then have free: "lock_pcs s t' \<noteq> Holding" for t' using assms(1) by (auto simp: lock_inv_def)
  then show ?thesis
    using True by (auto simp: acquire_step_def try_acquire_def lock_inv_def at_pc_def)
next
  case False
  then obtain h where "lock_pcs s h = Holding" using assms(1) by (auto simp: lock_inv_def)
  then have "h \<noteq> t" "lock_pcs s h = Holding" using assms(2) by auto
  then show ?thesis
    using assms False by (auto simp: acquire_step_def try_acquire_def lock_inv_def at_pc_def)
qed

lemma at_pc_inv:
  assumes "lock_inv s" and "lock_pcs s t \<noteq> Holding" and "pc \<noteq> Holding"
  shows "lock_inv (at_pc t pc s)"
  using assms by (auto simp: lock_inv_def at_pc_def)

lemma lock_action_inv:
  assumes "lock_inv s" and "released_by_holder t act s" and "lock_action started t act s = Some s'"
  shows "lock_inv s'"
proof (cases act)
  case (LockRun now)
  show ?thesis
  proof (cases "lock_pcs s t")
    case Yielding
    then show ?thesis using assms at_pc_inv [of s t Spinning] by (simp add: LockRun split: if_splits)
  next
    case Spinning
    then show ?thesis using assms acquire_inv [of s t Spinning] by (simp add: LockRun)
  next
    case (SpinningUntil start timeout)
    then show ?thesis
      using assms acquire_inv [of s t "if now - start > timeout then TimedOut else SpinningUntil start timeout"]
      by (auto simp: LockRun split: if_splits)
  qed (use assms in \<open>simp_all add: LockRun\<close>)
next
  case MutexRelease
  then show ?thesis
    using assms by (auto simp: released_by_holder_def lock_inv_def at_pc_def spinlock_release_def split: if_splits)
next
  case MutexTake
  then show ?thesis using assms at_pc_inv [of s t] by (auto split: if_splits)
next
  case (MutexTakeTimeout timeout now)
  then show ?thesis using assms at_pc_inv [of s t] by (auto split: if_splits)
qed

lemma lock_start_inv: "lock_inv \<lparr>is_taken = mutex_init Unlocked, lock_pcs = \<lambda>_. Outside\<rparr>"
  by (simp add: lock_inv_def mutex_init_def SPINLOCK_START_def)

lemma lock_reach_inv: "lock_reach Unlocked s \<Longrightarrow> lock_inv s"
proof (induction rule: lock_reach.induct)
  case start
  show ?case by (rule lock_start_inv)
next
  case (action s started t act s')
  then show ?case using lock_action_inv by blast
qed

text \<open>
  C22: In every state that threads reach from an unlocked mutex, by any interleaving of takes, timed takes and
  releases, at most one thread holds it, it reads as taken exactly while one does, and an attempt to acquire it
  succeeds exactly when none does.
\<close>
theorem mutex_mutual_exclusion:
  assumes "lock_reach Unlocked s"
  shows "(lock_pcs s t = Holding \<longrightarrow> lock_pcs s t' = Holding \<longrightarrow> t = t') \<and>
    (spinlock_is_taken (is_taken s) \<longleftrightarrow> (\<exists>h. lock_pcs s h = Holding)) \<and>
    (fst (try_acquire (is_taken s)) \<longleftrightarrow> (\<forall>h. lock_pcs s h \<noteq> Holding))"
  using lock_reach_inv [OF assms] unfolding lock_inv_def spinlock_is_taken_def try_acquire_def by auto

definition two_threads :: "lock_state" where
  "two_threads = the (lock_run True
     [(0, MutexTake), (1, MutexTake), (0, LockRun 0), (1, LockRun 0), (1, LockRun 0), (0, LockRun 0),
      (2, MutexTakeTimeout 5 10), (2, LockRun 12)]
     \<lparr>is_taken = mutex_init Unlocked, lock_pcs = \<lambda>_. Outside\<rparr>)"

lemma two_threads_reached: "lock_reach Unlocked two_threads"
  "lock_pcs two_threads 1 = Holding" "lock_pcs two_threads 0 = Spinning"
  "lock_pcs two_threads 2 = SpinningUntil 10 5"
proof -
  have run: "lock_run True
     [(0, MutexTake), (1, MutexTake), (0, LockRun 0), (1, LockRun 0), (1, LockRun 0), (0, LockRun 0),
      (2, MutexTakeTimeout 5 10), (2, LockRun 12)]
     \<lparr>is_taken = mutex_init Unlocked, lock_pcs = \<lambda>_. Outside\<rparr> =
     Some \<lparr>is_taken = 1, lock_pcs = (\<lambda>_. Outside)(0 := Spinning, 1 := Holding, 2 := SpinningUntil 10 5)\<rparr>"
    by (simp add: mutex_init_def SPINLOCK_START_def released_by_holder_def at_pc_def acquire_step_def
        try_acquire_def spinlock_is_taken_def fun_eq_iff)
  then have two: "two_threads = \<lparr>is_taken = 1, lock_pcs = (\<lambda>_. Outside)(0 := Spinning, 1 := Holding, 2 := SpinningUntil 10 5)\<rparr>"
    by (simp add: two_threads_def)
  show "lock_reach Unlocked two_threads"
    using lock_run_reach [OF lock_reach.start run] by (simp add: two)
qed (simp_all add: two_threads_def mutex_init_def SPINLOCK_START_def released_by_holder_def at_pc_def
    acquire_step_def try_acquire_def spinlock_is_taken_def)

text \<open>Two threads compete for the mutex: the one that is second in \<^verbatim>\<open>spinlock_take\<close> keeps spinning.\<close>

theorem mutex_mutual_exclusion_witness:
  "lock_pcs two_threads 1 = Holding \<and> spinlock_is_taken (is_taken two_threads) \<and>
   \<not> fst (try_acquire (is_taken two_threads)) \<and> lock_pcs two_threads 0 \<noteq> Holding"
  using mutex_mutual_exclusion [OF two_threads_reached(1), of 0 1] two_threads_reached(2) by auto

subsection \<open>Progress\<close>





text \<open>A timed take ends: once the clock is past the timeout, the next attempt returns.\<close>

lemma timed_take_ends:
  assumes "lock_pcs s t = SpinningUntil start timeout" and "now - start > timeout"
  shows "\<exists>s'. lock_action started t (LockRun now) s = Some s' \<and> lock_pcs s' t \<in> {Holding, TimedOut}"
  using assms by (simp add: acquire_step_def at_pc_def try_acquire_def)

subsection \<open>Masking interrupts\<close>

text \<open>The state is whether interrupts are enabled.\<close>

definition irq_lock :: "bool \<Rightarrow> bool \<times> bool" where
  "irq_lock enabled = (enabled, False)"

definition irq_release :: "bool \<Rightarrow> bool \<Rightarrow> bool" where
  "irq_release were_enabled enabled = (if were_enabled then True else enabled)"

text \<open>Nested sections: the inner one does not enable interrupts, the outer one restores them.\<close>

lemma irq_lock_nested:
  assumes "irq_lock enabled = (outer, e1)" and "irq_lock e1 = (inner, e2)"
  shows "\<not> irq_release inner e2" and "irq_release outer (irq_release inner e2) = enabled"
  using assms by (auto simp: irq_lock_def irq_release_def)

end
