(* ===== verification/DevFs.thy ===== *)
theory DevFs
  imports Inode Ctype
begin

text \<open>
  The table of devices (\<^verbatim>\<open>kernel/drivers/devicemanager.cpp\<close>) and the device filesystem on top of it
  (\<^verbatim>\<open>kernel/vfs/devfs/devfs.cpp\<close>).  A device is in the table once, so its pointer is its index.  What a device does on
  a read, a write or a poll is its driver's, so the operations are a parameter over a state \<open>'d\<close> of all devices.
  \<open>None\<close> is a panic or a null pointer that is followed.
\<close>

subsection \<open>Devices\<close>

datatype DeviceType = CharacterDeviceType | BlockDeviceType | InterruptControllerType | SystemTimerType

record Device =
  m_name :: string
  device_type :: DeviceType
  m_major :: u8
  m_minor :: u8
  device_bytes :: u64

text \<open>The name of a file device ends in its minor number.\<close>

definition FileDevice :: "u8 \<Rightarrow> u8 \<Rightarrow> string \<Rightarrow> DeviceType \<Rightarrow> u64 \<Rightarrow> Device" where
  "FileDevice maj mnr name type bytes = \<lparr>m_name = name @ decimal (unat mnr), device_type = type, m_major = maj, m_minor = mnr,
     device_bytes = bytes\<rparr>"

definition dev_id :: "Device \<Rightarrow> u16" where
  "dev_id d = push_bit 8 (ucast (m_major d)) OR ucast (m_minor d)"

definition is_mountable :: "Device \<Rightarrow> bool" where
  "is_mountable d \<longleftrightarrow> device_type d = CharacterDeviceType \<or> device_type d = BlockDeviceType"

text \<open>
  The classes of file devices.  Each has a major number, the stem of its names, and a static counter of minor
  numbers of its own, which the constructors post-increment; disks get their stem from their drivers.
\<close>

datatype device_class = Disk string u64 | Console | UART | GPIOController | RealTimeClock | InputDevice | FramebufferDevice

fun class_major :: "device_class \<Rightarrow> u8" where
  "class_major (Disk name bytes) = 3"
| "class_major Console = 5"
| "class_major UART = 6"
| "class_major GPIOController = 7"
| "class_major RealTimeClock = 8"
| "class_major InputDevice = 11"
| "class_major FramebufferDevice = 12"

fun new_device :: "device_class \<Rightarrow> u8 \<Rightarrow> Device" where
  "new_device (Disk name bytes) mnr = FileDevice 3 mnr name BlockDeviceType bytes"
| "new_device Console mnr = FileDevice 5 mnr ''console'' CharacterDeviceType 0"
| "new_device UART mnr = FileDevice 6 mnr ''ttyS'' CharacterDeviceType 0"
| "new_device GPIOController mnr = FileDevice 7 mnr ''gpio'' CharacterDeviceType 0"
| "new_device RealTimeClock mnr = FileDevice 8 mnr ''rtc'' CharacterDeviceType 0"
| "new_device InputDevice mnr = FileDevice 11 mnr ''input'' CharacterDeviceType 0"
| "new_device FramebufferDevice mnr = FileDevice 12 mnr ''framebuffer'' CharacterDeviceType 0"

subsection \<open>The table of devices\<close>

record devices =
  s_devices :: "Device option list"
  default_kernel_log :: "nat option"
  s_next_minor :: "u8 \<Rightarrow> u8"

definition no_devices :: devices where
  "no_devices = \<lparr>s_devices = replicate 64 None, default_kernel_log = None, s_next_minor = \<lambda>_. 0\<rparr>"

definition register_device :: "Device \<Rightarrow> devices \<Rightarrow> (nat \<times> devices) option" where
  "register_device d s = (
     let i = length (takeWhile (\<lambda>e. e \<noteq> None) (s_devices s))
     in if i < length (s_devices s) then Some (i, s\<lparr>s_devices := (s_devices s)[i := Some d]\<rparr>) else None)"

text \<open>A driver is loaded: its device is constructed, and registered when its initialisation has succeeded.\<close>

definition load_device :: "device_class \<Rightarrow> devices \<Rightarrow> (nat \<times> devices) option" where
  "load_device cls s = (
     let mnr = s_next_minor s (class_major cls)
     in register_device (new_device cls mnr) (s\<lparr>s_next_minor := (s_next_minor s)(class_major cls := mnr + 1)\<rparr>))"

definition load_kernel_log :: "device_class \<Rightarrow> devices \<Rightarrow> devices option" where
  "load_kernel_log cls s = do { (i, s) \<leftarrow> load_device cls s; Some (s\<lparr>default_kernel_log := Some i\<rparr>) }"

definition first_device :: "(Device \<Rightarrow> bool) \<Rightarrow> devices \<Rightarrow> nat option" where
  "first_device P s = List.find (\<lambda>i. case s_devices s ! i of None \<Rightarrow> False | Some d \<Rightarrow> P d) [0..<length (s_devices s)]"

definition devicemanager_get_by_name :: "string \<Rightarrow> devices \<Rightarrow> nat option" where
  "devicemanager_get_by_name name s =
     (if name = ''kernel_log'' then default_kernel_log s else first_device (\<lambda>d. m_name d = name) s)"

definition devicemanager_get_by_devid :: "u16 \<Rightarrow> devices \<Rightarrow> nat option" where
  "devicemanager_get_by_devid devid s = first_device (\<lambda>d. is_mountable d \<and> dev_id d = devid) s"

subsection \<open>The device filesystem\<close>

datatype MountableDeviceType = MountableCharacterDevice | MountableBlockDevice

record DevFSInodeCtx =
  ctx_type :: MountableDeviceType
  ctx_device :: nat

type_synonym devfs_inode = "DevFSInodeCtx option Inode"

definition device_type_to_inode_type :: "DeviceType \<Rightarrow> InodeType option" where
  "device_type_to_inode_type type = (case type of
     CharacterDeviceType \<Rightarrow> Some CharacterDevice | BlockDeviceType \<Rightarrow> Some BlockDevice | _ \<Rightarrow> None)"

definition get_device_size :: "Device \<Rightarrow> u64 option" where
  "get_device_size d = (case device_type d of
     CharacterDeviceType \<Rightarrow> Some 0 | BlockDeviceType \<Rightarrow> Some (device_bytes d) | _ \<Rightarrow> None)"

definition get_device_by_name :: "string \<Rightarrow> devices \<Rightarrow> (nat \<times> Device) option" where
  "get_device_by_name name s = do {
     i \<leftarrow> devicemanager_get_by_name name s;
     d \<leftarrow> s_devices s ! i;
     if is_mountable d then Some (i, d) else None
   }"

definition devfs_fs_on_mount :: devfs_inode where
  "devfs_fs_on_mount = \<lparr>refcount = 0, inode_type = Directory, inode_id = 0,
     devmajor = 0, devminor = 0, inode_mode = 0, inode_uid = 0, inode_gid = 0, inode_size = 0,
     access_time = no_time, creation_time = no_time, modification_time = no_time, blksize = 512, opaque = None\<rparr>"

definition devfs_dir_inode_lookup :: "devfs_inode \<Rightarrow> string \<Rightarrow> devices \<Rightarrow> (Errors + devfs_inode) option" where
  "devfs_dir_inode_lookup self name s =
     (if inode_id self \<noteq> 0 then Some (Inl ERR_NOENT)
      else case get_device_by_name name s of
        None \<Rightarrow> Some (Inl ERR_NOENT)
      | Some (i, d) \<Rightarrow> do {
          type \<leftarrow> device_type_to_inode_type (device_type d);
          bytes \<leftarrow> get_device_size d;
          Some (Inr \<lparr>refcount = 1, inode_type = type, inode_id = ucast (dev_id d),
            devmajor = 0, devminor = 0, inode_mode = 438, inode_uid = 0, inode_gid = 0, inode_size = bytes,
            access_time = no_time, creation_time = no_time, modification_time = no_time, blksize = 512, opaque = None\<rparr>)
        })"

definition devfs_dir_inode_create :: int where "devfs_dir_inode_create = - errno ERR_NOTSUP"
definition devfs_dir_inode_unlink :: int where "devfs_dir_inode_unlink = - errno ERR_NOTSUP"
definition devfs_dir_inode_getdents :: int where "devfs_dir_inode_getdents = 0"

text \<open>The identifier is cut to the 16 bits of a device number.\<close>

definition devfs_fs_open_inode :: "bool \<Rightarrow> devfs_inode \<Rightarrow> devices \<Rightarrow> (int \<times> devfs_inode) option" where
  "devfs_fs_open_inode malloc_ok inode s =
     (if inode_id inode = 0 then Some (0, inode\<lparr>opaque := None\<rparr>)
      else case devicemanager_get_by_devid (ucast (inode_id inode)) s of
        None \<Rightarrow> Some (- errno ERR_NOENT, inode)
      | Some i \<Rightarrow> do {
          d \<leftarrow> s_devices s ! i;
          Some (if \<not> is_mountable d then (- errno ERR_INVAL, inode)
            else if \<not> malloc_ok then (- errno ERR_NOMEM, inode)
            else (0, inode\<lparr>opaque := Some \<lparr>ctx_type =
                (if device_type d = CharacterDeviceType then MountableCharacterDevice else MountableBlockDevice), ctx_device = i\<rparr>\<rparr>))
        })"

definition devfs_fs_close_inode :: "devfs_inode \<Rightarrow> int \<times> devfs_inode" where
  "devfs_fs_close_inode inode = (0, inode\<lparr>opaque := None\<rparr>)"

text \<open>What the drivers do: the pointer of the device comes first.\<close>

record 'd device_ops =
  device_read :: "nat \<Rightarrow> int \<Rightarrow> nat \<Rightarrow> 'd \<Rightarrow> (int \<times> u8 list \<times> 'd) option"
  device_write :: "nat \<Rightarrow> int \<Rightarrow> u8 list \<Rightarrow> 'd \<Rightarrow> (int \<times> 'd) option"
  device_ioctl :: "nat \<Rightarrow> u32 \<Rightarrow> u32 \<Rightarrow> 'd \<Rightarrow> (int \<times> 'd) option"
  device_poll :: "nat \<Rightarrow> u32 \<Rightarrow> u32 \<Rightarrow> 'd \<Rightarrow> (int \<times> u32) option"
  device_is_tty :: "nat \<Rightarrow> int"

definition devfs_file_inode_read :: "'d device_ops \<Rightarrow> devfs_inode \<Rightarrow> int \<Rightarrow> nat \<Rightarrow> 'd \<Rightarrow> (int \<times> u8 list \<times> 'd) option" where
  "devfs_file_inode_read ops inode pos n d = do { ctx \<leftarrow> opaque inode; device_read ops (ctx_device ctx) pos n d }"

definition devfs_file_inode_write :: "'d device_ops \<Rightarrow> devfs_inode \<Rightarrow> int \<Rightarrow> u8 list \<Rightarrow> 'd \<Rightarrow> (int \<times> 'd) option" where
  "devfs_file_inode_write ops inode pos buffer d = do { ctx \<leftarrow> opaque inode; device_write ops (ctx_device ctx) pos buffer d }"

definition devfs_file_inode_ioctl :: "'d device_ops \<Rightarrow> devfs_inode \<Rightarrow> u32 \<Rightarrow> u32 \<Rightarrow> 'd \<Rightarrow> (int \<times> 'd) option" where
  "devfs_file_inode_ioctl ops inode request argp d = do { ctx \<leftarrow> opaque inode; device_ioctl ops (ctx_device ctx) request argp d }"

definition devfs_file_inode_seek :: "devices \<Rightarrow> devfs_inode \<Rightarrow> u64 \<Rightarrow> int \<Rightarrow> i32 \<Rightarrow> u64 option" where
  "devfs_file_inode_seek s inode current whence off = do {
     ctx \<leftarrow> opaque inode;
     case ctx_type ctx of
       MountableCharacterDevice \<Rightarrow> Some 0
     | MountableBlockDevice \<Rightarrow> do {
         d \<leftarrow> s_devices s ! ctx_device ctx;
         default_checked_seek (device_bytes d) current whence off
       }
   }"

definition devfs_file_inode_poll :: "'d device_ops \<Rightarrow> devfs_inode \<Rightarrow> u32 \<Rightarrow> u32 \<Rightarrow> 'd \<Rightarrow> (int \<times> u32) option" where
  "devfs_file_inode_poll ops inode events out_revents d =
     do { ctx \<leftarrow> opaque inode; device_poll ops (ctx_device ctx) events out_revents d }"

definition devfs_file_inode_istty :: "'d device_ops \<Rightarrow> devfs_inode \<Rightarrow> int option" where
  "devfs_file_inode_istty ops inode = do { ctx \<leftarrow> opaque inode; Some (device_is_tty ops (ctx_device ctx)) }"

subsection \<open>Device numbers\<close>

text \<open>The tables that loading drivers builds.\<close>

inductive device_table :: "devices \<Rightarrow> bool" where
  empty: "device_table no_devices"
| load: "device_table s \<Longrightarrow> load_device cls s = Some (i, s') \<Longrightarrow> device_table s'"
| kernel_log: "device_table s \<Longrightarrow> load_kernel_log cls s = Some s' \<Longrightarrow> device_table s'"
| internal: "device_table s \<Longrightarrow> \<not> is_mountable d \<Longrightarrow> register_device d s = Some (i, s') \<Longrightarrow> device_table s'"

definition entry :: "devices \<Rightarrow> nat \<Rightarrow> Device \<Rightarrow> bool" where
  "entry s i d \<longleftrightarrow> i < length (s_devices s) \<and> s_devices s ! i = Some d"

definition used_entries :: "devices \<Rightarrow> nat" where
  "used_entries s = length (takeWhile (\<lambda>e. e \<noteq> None) (s_devices s))"

text \<open>A class has handed out no more minor numbers than there are entries, so the counters do not wrap.\<close>

definition numbered :: "devices \<Rightarrow> bool" where
  "numbered s \<longleftrightarrow> length (s_devices s) = 64 \<and> (\<forall>m. unat (s_next_minor s m) \<le> used_entries s) \<and>
     (\<forall>i d. entry s i d \<and> is_mountable d \<longrightarrow> 0 < m_major d \<and> unat (m_minor d) < unat (s_next_minor s (m_major d))) \<and>
     (\<forall>i j d e. entry s i d \<and> entry s j e \<and> is_mountable d \<and> is_mountable e \<and> m_major d = m_major e \<and> m_minor d = m_minor e \<longrightarrow> i = j) \<and>
     (\<forall>i. default_kernel_log s = Some i \<longrightarrow> (\<exists>d. entry s i d))"

lemma dev_id_minor: "ucast (dev_id d) = m_minor d"
  by (rule bit_word_eqI) (auto simp: dev_id_def bit_simps)

lemma dev_id_major: "ucast (drop_bit 8 (dev_id d)) = m_major d"
  by (rule bit_word_eqI) (auto simp: dev_id_def bit_simps dest: bit_imp_le_length)

lemma dev_id_eq: "dev_id d = dev_id e \<longleftrightarrow> m_major d = m_major e \<and> m_minor d = m_minor e"
  by (metis dev_id_def dev_id_major dev_id_minor)

lemma new_device_simps [simp]:
  "m_major (new_device cls mnr) = class_major cls" "m_minor (new_device cls mnr) = mnr"
  "is_mountable (new_device cls mnr)" "0 < class_major cls"
  by (cases cls; simp add: FileDevice_def is_mountable_def)+

lemma register_device_entry:
  assumes "register_device d s = Some (i, s')"
  shows "i = used_entries s \<and> s' = s\<lparr>s_devices := (s_devices s)[i := Some d]\<rparr> \<and> used_entries s < used_entries s' \<and>
    length (s_devices s') = length (s_devices s) \<and> used_entries s < length (s_devices s) \<and>
    (\<forall>j e. entry s' j e \<longleftrightarrow> (if j = i then e = d else entry s j e)) \<and> (\<forall>e. \<not> entry s i e)"
proof -
  let ?xs = "s_devices s" and ?P = "\<lambda>e. e \<noteq> None"
  have i: "i = used_entries s" "i < length ?xs" "s' = s\<lparr>s_devices := ?xs[i := Some d]\<rparr>"
    using assms by (auto simp: register_device_def used_entries_def Let_def split: if_splits)
  have old: "?xs ! i = None" using nth_length_takeWhile [of ?P ?xs] i by (auto simp: used_entries_def)
  have pre: "\<forall>x\<in>set (take i ?xs). ?P x" using set_takeWhileD [of _ ?P ?xs] i
    by (auto simp: used_entries_def takeWhile_eq_take [symmetric])
  have "?xs[i := Some d] = take i ?xs @ Some d # drop (Suc i) ?xs" using i(2) by (rule upd_conv_take_nth_drop)
  then have "takeWhile ?P (?xs[i := Some d]) = take i ?xs @ Some d # takeWhile ?P (drop (Suc i) ?xs)"
    using pre by (simp add: takeWhile_append2)
  then have "used_entries s < used_entries s'" using i by (simp add: used_entries_def)
  then show ?thesis using i old by (auto simp: entry_def nth_list_update)
qed

lemma numbered_no_devices: "numbered no_devices"
  by (auto simp: numbered_def no_devices_def entry_def)

lemma numbered_internal:
  assumes n: "numbered s" and d: "\<not> is_mountable d" "register_device d s = Some (i, s')"
  shows "numbered s'"
proof -
  note r = register_device_entry [OF d(2)]
  then have s': "s_next_minor s' = s_next_minor s" "default_kernel_log s' = default_kernel_log s" by auto
  have "\<forall>m. unat (s_next_minor s m) \<le> used_entries s'" using n r unfolding numbered_def by (meson less_imp_le le_trans)
  then show ?thesis using n r d(1) unfolding numbered_def s' by (metis option.inject)
qed

lemma numbered_load:
  assumes n: "numbered s" and l: "load_device cls s = Some (i, s')"
  shows "numbered s' \<and> entry s' i (new_device cls (s_next_minor s (class_major cls)))"
proof -
  let ?m = "class_major cls" let ?k = "s_next_minor s ?m"
  let ?s = "s\<lparr>s_next_minor := (s_next_minor s)(?m := ?k + 1)\<rparr>"
  have same: "used_entries ?s = used_entries s" "entry ?s = entry s"
    by (auto simp: used_entries_def entry_def fun_eq_iff)
  have reg: "register_device (new_device cls ?k) ?s = Some (i, s')" using l by (simp add: load_device_def Let_def)
  note r = register_device_entry [OF reg, unfolded same]
  have s': "s_next_minor s' = (s_next_minor s)(?m := ?k + 1)" "default_kernel_log s' = default_kernel_log s" using r by auto
  have "unat ?k \<le> used_entries s" "used_entries s < 64" using n r by (auto simp: numbered_def)
  then have k: "unat (?k + 1) = Suc (unat ?k)" by (simp add: unat_word_ariths)
  have more: "used_entries s < used_entries s'" using r by blast
  have nxt: "unat (s_next_minor s' m) \<le> used_entries s'" for m
  proof (cases "m = ?m")
    case True
    then show ?thesis using \<open>unat ?k \<le> used_entries s\<close> more k by (simp add: s')
  next
    case False
    have "unat (s_next_minor s m) \<le> used_entries s" using n by (simp add: numbered_def)
    then show ?thesis using False more by (simp add: s')
  qed
  have new: "entry s' j e \<longleftrightarrow> (if j = i then e = new_device cls ?k else entry s j e)" for j e using r by blast
  have log: "\<exists>d. entry s' j d" if "default_kernel_log s' = Some j" for j
    using n that new by (auto simp: s' numbered_def)
  have bound: "0 < m_major d \<and> unat (m_minor d) < unat (s_next_minor s' (m_major d))"
    if "entry s' j d" "is_mountable d" for j d
  proof (cases "j = i")
    case True
    then show ?thesis using that new k by (simp add: s')
  next
    case False
    then have "entry s j d" using that new by simp
    then have "0 < m_major d" "unat (m_minor d) < unat (s_next_minor s (m_major d))" using n that(2) by (auto simp: numbered_def)
    then show ?thesis using k by (auto simp: s')
  qed
  have old: "unat (m_minor d) < unat ?k" if "entry s j d" "is_mountable d" "m_major d = ?m" for j d
    using n that unfolding numbered_def by metis
  have dist: "j = j'" if "entry s' j d" "entry s' j' e" "is_mountable d" "is_mountable e" "m_major d = m_major e" "m_minor d = m_minor e" for j j' d e
  proof (cases "j = i \<or> j' = i")
    case True
    note prems = that(1,2)
    consider "j = i" "j' = i" | "j = i" "d = new_device cls ?k" "entry s j' e" | "j' = i" "e = new_device cls ?k" "entry s j d"
      using True prems new [of j d] new [of j' e] by (cases "j = i"; cases "j' = i") simp_all
    then show ?thesis
    proof cases
      case 2
      then show ?thesis using old [of j' e] that(4-6) by (metis new_device_simps(1,2) less_irrefl)
    next
      case 3
      then show ?thesis using old [of j d] that(3,5,6) by (metis new_device_simps(1,2) less_irrefl)
    qed simp
  next
    case False
    then have "entry s j d" "entry s j' e" using that new by simp_all
    then show ?thesis using n that(3-6) unfolding numbered_def by blast
  qed
  have "length (s_devices s') = 64" using r n by (simp add: numbered_def)
  moreover have "entry s' i (new_device cls ?k)" using new by simp
  ultimately show ?thesis unfolding numbered_def by (intro conjI allI impI) (use nxt bound dist log in \<open>blast+\<close>)
qed

lemma device_table_numbered: "device_table s \<Longrightarrow> numbered s"
proof (induction rule: device_table.induct)
  case (kernel_log s cls s')
  then obtain i t where t: "load_device cls s = Some (i, t)" "s' = t\<lparr>default_kernel_log := Some i\<rparr>"
    by (auto simp: load_kernel_log_def bind_eq_Some_conv)
  have e: "entry s' = entry t" "used_entries s' = used_entries t" by (auto simp: t(2) entry_def used_entries_def fun_eq_iff)
  have "numbered t" "\<exists>d. entry t i d" using numbered_load [OF kernel_log.IH t(1)] by auto
  moreover have "s_next_minor s' = s_next_minor t" "s_devices s' = s_devices t" "default_kernel_log s' = Some i" by (simp_all add: t(2))
  ultimately show ?case unfolding numbered_def e by (simp only: option.inject) blast
qed (auto intro: numbered_no_devices numbered_internal dest: numbered_load)

lemma numbered_dev_id:
  assumes "numbered s" "entry s i d" "entry s j e" "is_mountable d" "is_mountable e" "dev_id d = dev_id e"
  shows "i = j"
  using assms unfolding numbered_def dev_id_eq by blast

lemma first_device_Some:
  assumes "first_device P s = Some i"
  shows "\<exists>d. entry s i d \<and> P d"
  using assms by (auto simp: first_device_def find_Some_iff entry_def split: option.splits)

lemma first_device_unique:
  assumes "entry s i d" "P d" and "\<And>j e. entry s j e \<Longrightarrow> P e \<Longrightarrow> j = i"
  shows "first_device P s = Some i"
proof (cases "first_device P s")
  case None
  then show ?thesis using assms(1,2) by (auto simp: first_device_def find_None_iff entry_def)
next
  case (Some j)
  then show ?thesis using first_device_Some [OF Some] assms(3) by auto
qed

text \<open>
  C28: In every table that loading drivers can build, a walk to a name in the device filesystem fails only when no
  file device is registered under that name, and otherwise gives an inode that opens to the device of that name and
  not to the root: the device number, which is all the inode keeps of it, identifies it.
\<close>
theorem devfs_opens_named_device:
  assumes "device_table s"
  shows "case get_device_by_name name s of
      None \<Rightarrow> devfs_dir_inode_lookup devfs_fs_on_mount name s = Some (Inl ERR_NOENT)
    | Some (i, d) \<Rightarrow> entry s i d \<and> (name = ''kernel_log'' \<and> default_kernel_log s = Some i \<or> m_name d = name) \<and>
        (\<exists>node. devfs_dir_inode_lookup devfs_fs_on_mount name s = Some (Inr node) \<and> inode_id node \<noteq> 0 \<and>
           (\<exists>ctx. devfs_fs_open_inode True node s = Some (0, node\<lparr>opaque := Some ctx\<rparr>) \<and> ctx_device ctx = i \<and>
              (ctx_type ctx = MountableBlockDevice \<longleftrightarrow> device_type d = BlockDeviceType)))"
proof (cases "get_device_by_name name s")
  case None
  then show ?thesis by (simp add: devfs_dir_inode_lookup_def devfs_fs_on_mount_def)
next
  case (Some r)
  have n: "numbered s" by (rule device_table_numbered [OF assms])
  obtain i d where r: "r = (i, d)" "devicemanager_get_by_name name s = Some i" "s_devices s ! i = Some d" "is_mountable d"
    using Some by (auto simp: get_device_by_name_def bind_eq_Some_conv split: if_splits)
  have e: "entry s i d \<and> (name = ''kernel_log'' \<and> default_kernel_log s = Some i \<or> m_name d = name)"
  proof (cases "name = ''kernel_log''")
    case True
    then have "default_kernel_log s = Some i" using r(2) by (simp add: devicemanager_get_by_name_def)
    moreover then obtain d' where "entry s i d'" using n unfolding numbered_def by blast
    ultimately show ?thesis using True r(3) by (simp add: entry_def)
  next
    case False
    then have "first_device (\<lambda>d. m_name d = name) s = Some i" using r(2) by (simp add: devicemanager_get_by_name_def)
    from first_device_Some [OF this] show ?thesis using r(3) by (auto simp: entry_def)
  qed
  have major: "0 < m_major d" using n e r(4) unfolding numbered_def by blast
  have "dev_id d \<noteq> 0" using major dev_id_major [of d] by auto
  moreover have up: "ucast (ucast (dev_id d) :: u64) = dev_id d"
    by (rule bit_word_eqI) (auto simp: bit_simps dest: bit_imp_le_length)
  ultimately have id: "(ucast (dev_id d) :: u64) \<noteq> 0" by auto
  have "devicemanager_get_by_devid (dev_id d) s = Some i" unfolding devicemanager_get_by_devid_def
    by (rule first_device_unique [of s i d]) (use e r(4) numbered_dev_id [OF n] in auto)
  then have again: "devicemanager_get_by_devid (ucast (ucast (dev_id d) :: u64)) s = Some i" using up by simp
  have type: "device_type d = CharacterDeviceType \<or> device_type d = BlockDeviceType" using r(4) by (simp add: is_mountable_def)
  let ?node = "\<lparr>refcount = 1, inode_type = (if device_type d = BlockDeviceType then BlockDevice else CharacterDevice),
      inode_id = ucast (dev_id d), devmajor = 0, devminor = 0, inode_mode = 438, inode_uid = 0, inode_gid = 0,
      inode_size = (if device_type d = BlockDeviceType then device_bytes d else 0), access_time = no_time,
      creation_time = no_time, modification_time = no_time, blksize = 512, opaque = None\<rparr> :: devfs_inode"
  let ?ctx = "\<lparr>ctx_type = (if device_type d = CharacterDeviceType then MountableCharacterDevice else MountableBlockDevice), ctx_device = i\<rparr>"
  have "devfs_dir_inode_lookup devfs_fs_on_mount name s = Some (Inr ?node)"
    using type by (auto simp: devfs_dir_inode_lookup_def devfs_fs_on_mount_def Some r(1) device_type_to_inode_type_def get_device_size_def)
  moreover have "devfs_fs_open_inode True ?node s = Some (0, ?node\<lparr>opaque := Some ?ctx\<rparr>)"
    using again id r(3,4) by (simp add: devfs_fs_open_inode_def)
  moreover have "ctx_type ?ctx = MountableBlockDevice \<longleftrightarrow> device_type d = BlockDeviceType" using type by auto
  ultimately show ?thesis unfolding Some r(1) option.case prod.case using e id
    by (intro conjI exI [of _ ?node] exI [of _ ?ctx]) simp_all
qed

text \<open>A console and two disks.\<close>

definition some_devices :: "devices option" where
  "some_devices = do {
     s \<leftarrow> load_kernel_log UART no_devices;
     (i, s) \<leftarrow> load_device (Disk ''disk'' 1024) s;
     (i, s) \<leftarrow> load_device (Disk ''disk'' 2048) s;
     Some s
   }"

lemma some_devices_value:
  "map_option (\<lambda>s. (get_device_by_name ''kernel_log'' s, get_device_by_name ''disk1'' s)) some_devices =
   Some (Some (0, FileDevice 6 0 ''ttyS'' CharacterDeviceType 0), Some (2, FileDevice 3 1 ''disk'' BlockDeviceType 2048))"
  by code_simp

theorem devfs_opens_named_device_witness:
  "\<exists>s node. some_devices = Some s \<and> devfs_dir_inode_lookup devfs_fs_on_mount ''disk1'' s = Some (Inr node) \<and> inode_id node \<noteq> 0"
proof -
  obtain s where s: "some_devices = Some s" "get_device_by_name ''disk1'' s = Some (2, FileDevice 3 1 ''disk'' BlockDeviceType 2048)"
    using some_devices_value by auto
  obtain t i u j where t: "load_kernel_log UART no_devices = Some t" "load_device (Disk ''disk'' 1024) t = Some (i, u)"
      "load_device (Disk ''disk'' 2048) u = Some (j, s)"
    using s(1) by (auto simp: some_devices_def bind_eq_Some_conv)
  have "device_table s" by (rule device_table.load [OF device_table.load [OF device_table.kernel_log [OF device_table.empty t(1)] t(2)] t(3)])
  from devfs_opens_named_device [OF this, of "''disk1''"] show ?thesis using s by auto
qed

end
