(* ===== verification/Virtio.thy ===== *)
theory Virtio
  imports KernelError IntrusiveList Locking
begin

text \<open>
  Virtio queues (\<^verbatim>\<open>kernel/drivers/bus/virtio/virtio.cpp\<close>) and the disk driver that uses one
  (\<^verbatim>\<open>kernel/drivers/block/virtioblk.cpp\<close>).  An address that the driver hands to the device is the object it points
  to.  The device is not part of the code: it is an argument, a function that sees the queue and the requests and
  answers or does not.
\<close>

subsection \<open>Queues\<close>

datatype blk_addr = NoAddress | HeaderOf nat | TempBuffer | FooterOf nat

record virtq_desc =
  desc_addr :: blk_addr
  desc_len :: u32
  desc_flags :: u16
  desc_next :: u16

record SplitVirtQueue =
  vq_idx :: nat
  vq_size :: nat
  first_free_desc_idx :: u16
  last_seen_used_idx :: u16
  desc_table :: "virtq_desc list"
  avail_idx :: u16
  avail_ring :: "u16 list"
  used_idx :: u16
  used_ring :: "u32 list"

definition VIRTQ_DESC_F_NEXT :: u16 where "VIRTQ_DESC_F_NEXT = 1"
definition VIRTQ_DESC_F_WRITE :: u16 where "VIRTQ_DESC_F_WRITE = 2"

text \<open>
  The three parts and the queue itself have to fit into one page.  The code does not clear the page: \<open>raw\<close> is what
  the page holds at the places of the two indices and the two rings.
\<close>

definition round_up_8 :: "nat \<Rightarrow> nat" where
  "round_up_8 n = (n + 7) div 8 * 8"

record raw_rings =
  raw_avail_idx :: u16
  raw_avail :: "u16 list"
  raw_used_idx :: u16
  raw_used :: "u32 list"

definition virtq_alloc :: "bool \<Rightarrow> raw_rings \<Rightarrow> nat \<Rightarrow> nat \<Rightarrow> SplitVirtQueue option option" where
  "virtq_alloc page_ok raw idx sz =
     (if \<not> page_ok then Some None
      else do {
        kassert (16 * sz + round_up_8 (6 + 2 * sz) + round_up_8 (6 + 8 * sz) + 28 < 4096);
        Some (Some \<lparr>vq_idx = idx, vq_size = sz, first_free_desc_idx = 0, last_seen_used_idx = 0,
          desc_table = map (\<lambda>i. \<lparr>desc_addr = NoAddress, desc_len = 0, desc_flags = 0, desc_next = of_nat (i + 1)\<rparr>) [0..<sz],
          avail_idx = raw_avail_idx raw, avail_ring = raw_avail raw, used_idx = raw_used_idx raw, used_ring = raw_used raw\<rparr>)
      })"

text \<open>\<open>ready\<close> and \<open>num_max\<close> are what the registers \<^verbatim>\<open>QueueReady\<close> and \<^verbatim>\<open>QueueNumMax\<close> of the selected queue read as.\<close>

definition virtio_util_setup_virtq ::
  "u32 \<Rightarrow> u32 \<Rightarrow> bool \<Rightarrow> raw_rings \<Rightarrow> nat \<Rightarrow> u32 \<Rightarrow> (int \<times> SplitVirtQueue option) option" where
  "virtio_util_setup_virtq ready num_max page_ok raw index sz = (
     let queue_size = unat (min num_max sz)
     in if ready \<noteq> 0 then Some (- errno ERR_BUSY, None)
        else if queue_size = 0 then Some (- errno ERR_NOMEM, None)
        else do {
          q \<leftarrow> virtq_alloc page_ok raw index queue_size;
          Some (if q = None then - errno ERR_NOMEM else 0, q)
        })"

definition virtio_virtq_alloc_desc :: "SplitVirtQueue \<Rightarrow> int \<times> SplitVirtQueue" where
  "virtio_virtq_alloc_desc q = (
     let desc_idx = unat (first_free_desc_idx q)
     in if desc_idx \<ge> vq_size q then (- errno ERR_NOMEM, q)
        else (int desc_idx, q\<lparr>first_free_desc_idx := desc_next (desc_table q ! desc_idx)\<rparr>))"

definition virtio_virtq_free_desc :: "int \<Rightarrow> SplitVirtQueue \<Rightarrow> SplitVirtQueue" where
  "virtio_virtq_free_desc desc_idx q =
     (if desc_idx < 0 \<or> desc_idx \<ge> int (vq_size q) then q
      else q\<lparr>desc_table := (desc_table q)[nat desc_idx := \<lparr>desc_addr = NoAddress, desc_len = 0, desc_flags = 0,
               desc_next = first_free_desc_idx q\<rparr>],
             first_free_desc_idx := of_int desc_idx\<rparr>)"

definition virtio_virtq_enqueue_desc :: "nat \<Rightarrow> SplitVirtQueue \<Rightarrow> SplitVirtQueue" where
  "virtio_virtq_enqueue_desc desc_idx q =
     q\<lparr>avail_ring := (avail_ring q)[unat (avail_idx q) mod vq_size q := of_nat desc_idx], avail_idx := avail_idx q + 1\<rparr>"

subsection \<open>The disk driver\<close>

definition VIRTQ_SIZE :: u32 where "VIRTQ_SIZE = 64"
definition VIRTIO_BLK_T_IN :: u32 where "VIRTIO_BLK_T_IN = 0"

record VirtioBlockRequest =
  descriptor_idx :: "nat list"
  req_completed :: u32
  req_type :: u32
  req_sector :: u64
  req_status :: u8

text \<open>
  A request is a variable of \<^verbatim>\<open>read_sector\<close>: its address is a number, and it is gone when the function has returned.
  \<open>completed\<close> is a spin lock.
\<close>

record virtio_blk =
  m_vqueue :: SplitVirtQueue
  m_requests :: linked_list
  vb_reqs :: "nat \<Rightarrow> VirtioBlockRequest option"
  read_tempbuffer_lock :: u32
  read_tempbuffer :: "u8 list"

definition set_desc :: "nat \<Rightarrow> virtq_desc \<Rightarrow> SplitVirtQueue \<Rightarrow> SplitVirtQueue" where
  "set_desc i d q = q\<lparr>desc_table := (desc_table q)[i := d]\<rparr>"

text \<open>The buffer is always \<^verbatim>\<open>s_read_tempbuffer\<close>, whose alignment keeps it inside a page.\<close>

definition enqueue_block_request :: "u32 \<Rightarrow> u32 \<Rightarrow> nat \<Rightarrow> virtio_blk \<Rightarrow> int \<times> virtio_blk" where
  "enqueue_block_request type sector req m = (
     let (header_idx, q) = virtio_virtq_alloc_desc (m_vqueue m);
         (body_idx, q) = virtio_virtq_alloc_desc q;
         (status_idx, q) = virtio_virtq_alloc_desc q
     in if header_idx < 0 \<or> body_idx < 0 \<or> status_idx < 0
        then (- errno ERR_NOMEM, m\<lparr>m_vqueue := virtio_virtq_free_desc status_idx
               (virtio_virtq_free_desc body_idx (virtio_virtq_free_desc header_idx q))\<rparr>)
        else
          let r = \<lparr>descriptor_idx = [nat header_idx, nat body_idx, nat status_idx],
                   req_completed = snd (try_acquire SPINLOCK_START),
                   req_type = type, req_sector = ucast sector, req_status = 0\<rparr>;
              q = set_desc (nat header_idx) \<lparr>desc_addr = HeaderOf req, desc_len = 16, desc_flags = VIRTQ_DESC_F_NEXT,
                    desc_next = of_int body_idx\<rparr> q;
              q = set_desc (nat body_idx) \<lparr>desc_addr = TempBuffer, desc_len = 512,
                    desc_flags = VIRTQ_DESC_F_NEXT OR (if type = VIRTIO_BLK_T_IN then VIRTQ_DESC_F_WRITE else 0),
                    desc_next = of_int status_idx\<rparr> q;
              q = set_desc (nat status_idx) \<lparr>desc_addr = FooterOf req, desc_len = 1, desc_flags = VIRTQ_DESC_F_WRITE,
                    desc_next = 0\<rparr> q
          in (0, m\<lparr>m_requests := ll_add req (m_requests m), vb_reqs := (vb_reqs m)(req \<mapsto> r),
                   m_vqueue := virtio_virtq_enqueue_desc (nat header_idx) q\<rparr>))"

text \<open>A request that is gone, or that was never set up, cannot be looked at.\<close>

definition free_descriptors :: "nat list \<Rightarrow> SplitVirtQueue \<Rightarrow> SplitVirtQueue" where
  "free_descriptors ds q = fold (\<lambda>d q. if d = vq_size q then q else virtio_virtq_free_desc (int d) q) ds q"

definition cleanup_block_request :: "nat \<Rightarrow> virtio_blk \<Rightarrow> virtio_blk option" where
  "cleanup_block_request req m = do {
     r \<leftarrow> vb_reqs m req;
     let requests = (if ll_next (m_requests m) req \<noteq> None then ll_remove req (m_requests m) else m_requests m);
     Some (m\<lparr>m_requests := requests, m_vqueue := free_descriptors (descriptor_idx r) (m_vqueue m)\<rparr>)
   }"

text \<open>
  The two ways in which the interrupt handler can end the kernel: the panic because there is no request for an
  answer, and a pointer in the list to a request that is gone.
\<close>

datatype irq_fault = UnknownDescriptor | DeadRequest

text \<open>The search looks at every request of the list until it finds the one.\<close>

partial_function (option) find_request :: "nat option \<Rightarrow> nat \<Rightarrow> virtio_blk \<Rightarrow> (irq_fault + nat) option" where
  "find_request current idx m =
     (case current of
        None \<Rightarrow> Some (Inl UnknownDescriptor)
      | Some c \<Rightarrow>
          (case vb_reqs m c of
             None \<Rightarrow> Some (Inl DeadRequest)
           | Some r \<Rightarrow> if hd (descriptor_idx r) = idx then Some (Inr c) else find_request (ll_next (m_requests m) c) idx m))"

definition process_used_buffer :: "nat \<Rightarrow> virtio_blk \<Rightarrow> (irq_fault + virtio_blk) option" where
  "process_used_buffer idx m = do {
     found \<leftarrow> find_request (ll_head (m_requests m)) idx m;
     (case found of
        Inl fault \<Rightarrow> Some (Inl fault)
      | Inr req \<Rightarrow> do {
          r \<leftarrow> vb_reqs m req;
          Some (Inr (m\<lparr>vb_reqs := (vb_reqs m)(req \<mapsto> r\<lparr>req_completed := spinlock_release (req_completed r)\<rparr>),
                       m_requests := ll_remove req (m_requests m)\<rparr>))
        })
   }"

partial_function (option) process_used :: "nat \<Rightarrow> nat \<Rightarrow> virtio_blk \<Rightarrow> (irq_fault + virtio_blk) option" where
  "process_used idx used m =
     (if idx = used then Some (Inr m)
      else do {
        x \<leftarrow> process_used_buffer (unat (used_ring (m_vqueue m) ! idx)) m;
        (case x of
           Inl fault \<Rightarrow> Some (Inl fault)
         | Inr m \<Rightarrow> process_used ((idx + 1) mod vq_size (m_vqueue m)) used m)
      })"

definition VIRTIO_IRQ_USED_BUFFER :: u32 where "VIRTIO_IRQ_USED_BUFFER = 1"

text \<open>\<open>irq_status\<close> is what \<^verbatim>\<open>InterruptStatus\<close> reads.\<close>

definition handle_irq :: "u32 \<Rightarrow> virtio_blk \<Rightarrow> (irq_fault + virtio_blk) option" where
  "handle_irq irq_status m =
     (if irq_status AND VIRTIO_IRQ_USED_BUFFER = 0 then Some (Inr m)
      else let used = unat (used_idx (m_vqueue m)) mod vq_size (m_vqueue m)
        in do {
          x \<leftarrow> process_used (unat (last_seen_used_idx (m_vqueue m))) used m;
          Some (case x of
                  Inl fault \<Rightarrow> Inl fault
                | Inr m \<Rightarrow> Inr (m\<lparr>m_vqueue := (m_vqueue m)\<lparr>last_seen_used_idx := of_nat used\<rparr>\<rparr>))
        })"

subsection \<open>Reading a sector\<close>

text \<open>
  What a device answers: the descriptor it has finished with, what it has written into the buffer, and the status
  and the request in whose footer it has put it.  \<open>None\<close>: no answer within the 100 ms that the driver waits.
\<close>

record blk_answer =
  done_id :: nat
  done_data :: "u8 list"
  done_footer :: nat
  done_status :: u8

type_synonym blk_device = "SplitVirtQueue \<Rightarrow> (nat \<Rightarrow> VirtioBlockRequest option) \<Rightarrow> blk_answer option"

definition device_answers :: "blk_answer \<Rightarrow> virtio_blk \<Rightarrow> virtio_blk" where
  "device_answers a m = (
     let q = m_vqueue m
     in m\<lparr>read_tempbuffer := done_data a,
          vb_reqs := (vb_reqs m)(done_footer a := map_option (\<lambda>r. r\<lparr>req_status := done_status a\<rparr>) (vb_reqs m (done_footer a))),
          m_vqueue := q\<lparr>used_ring := (used_ring q)[unat (used_idx q) mod vq_size q := of_nat (done_id a)],
            used_idx := used_idx q + 1\<rparr>\<rparr>)"

definition wait_for_answer :: "blk_device \<Rightarrow> virtio_blk \<Rightarrow> virtio_blk option" where
  "wait_for_answer device m =
     (case device (m_vqueue m) (vb_reqs m) of
        None \<Rightarrow> Some m
      | Some a \<Rightarrow> do {
          x \<leftarrow> handle_irq VIRTIO_IRQ_USED_BUFFER (device_answers a m);
          (case x of Inl fault \<Rightarrow> None | Inr m \<Rightarrow> Some m)
        })"

text \<open>\<open>req\<close> is the address of the request of this call; a lock that is taken is waited for without an end.\<close>

definition virtio_read_sector :: "blk_device \<Rightarrow> nat \<Rightarrow> int \<Rightarrow> virtio_blk \<Rightarrow> (int \<times> u8 list \<times> virtio_blk) option" where
  "virtio_read_sector device req sector_idx m0 = do {
     kassert (\<not> spinlock_is_taken (read_tempbuffer_lock m0));
     let m = m0\<lparr>read_tempbuffer_lock := snd (try_acquire (read_tempbuffer_lock m0))\<rparr>;
     let (rc, m) = enqueue_block_request VIRTIO_BLK_T_IN (of_int sector_idx) req m;
     (rc, buffer, m) \<leftarrow>
       (if rc \<noteq> 0 then Some (rc, [], m)
        else do {
          m \<leftarrow> wait_for_answer device m;
          r \<leftarrow> vb_reqs m req;
          Some (if spinlock_is_taken (req_completed r) then (- errno ERR_TIMEDOUT, [], m)
                else if req_status r \<noteq> 0 then (- errno ERR_IO, [], m)
                else (0, read_tempbuffer m, m))
        });
     m \<leftarrow> cleanup_block_request req m;
     Some (rc, buffer, m\<lparr>read_tempbuffer_lock := spinlock_release (read_tempbuffer_lock m),
       vb_reqs := (vb_reqs m)(req := None)\<rparr>)
   }"

definition virtio_write_sector :: int where
  "virtio_write_sector = - errno ERR_NOTSUP"

definition virtio_blk_ioctl :: int where
  "virtio_blk_ioctl = - errno ERR_NOTSUP"

subsection \<open>The descriptors of a queue\<close>

text \<open>\<open>free\<close> are the descriptors that can be handed out, in this order.\<close>

fun free_chain :: "SplitVirtQueue \<Rightarrow> nat \<Rightarrow> nat list \<Rightarrow> bool" where
  "free_chain q i [] \<longleftrightarrow> vq_size q \<le> i"
| "free_chain q i (x # xs) \<longleftrightarrow> i = x \<and> x < vq_size q \<and> free_chain q (unat (desc_next (desc_table q ! x))) xs"

definition queue_ok :: "nat list \<Rightarrow> SplitVirtQueue \<Rightarrow> bool" where
  "queue_ok free q \<longleftrightarrow> length (desc_table q) = vq_size q \<and> length (avail_ring q) = vq_size q \<and>
     length (used_ring q) = vq_size q \<and> vq_size q dvd 2 ^ 16 \<and> vq_size q < 2 ^ 16 \<and>
     distinct free \<and> free_chain q (unat (first_free_desc_idx q)) free"

lemma free_chain_less: "free_chain q i xs \<Longrightarrow> x \<in> set xs \<Longrightarrow> x < vq_size q"
  by (induction xs arbitrary: i) auto

lemma free_chain_cong:
  "vq_size q' = vq_size q \<Longrightarrow> (\<And>x. x \<in> set xs \<Longrightarrow> desc_next (desc_table q' ! x) = desc_next (desc_table q ! x)) \<Longrightarrow>
     free_chain q' i xs \<longleftrightarrow> free_chain q i xs"
  by (induction xs arbitrary: i) auto

lemma nth_update_notin: "y \<in> set xs \<Longrightarrow> x \<notin> set xs \<Longrightarrow> l[x := v] ! y = l ! y"
  by (metis nth_list_update_neq)

lemma alloc_desc_ok:
  assumes "queue_ok (x # xs) q"
  shows "\<exists>q'. virtio_virtq_alloc_desc q = (int x, q') \<and> queue_ok xs q' \<and> x < vq_size q \<and> vq_size q' = vq_size q \<and>
    used_ring q' = used_ring q \<and> used_idx q' = used_idx q \<and> avail_ring q' = avail_ring q \<and> avail_idx q' = avail_idx q \<and>
    last_seen_used_idx q' = last_seen_used_idx q"
proof -
  let ?q = "q\<lparr>first_free_desc_idx := desc_next (desc_table q ! x)\<rparr>"
  have "free_chain ?q i xs \<longleftrightarrow> free_chain q i xs" for i by (rule free_chain_cong) simp_all
  then show ?thesis using assms by (auto simp: queue_ok_def virtio_virtq_alloc_desc_def Let_def)
qed

lemma alloc_desc_empty: "queue_ok [] q \<Longrightarrow> virtio_virtq_alloc_desc q = (- errno ERR_NOMEM, q)"
  by (simp add: queue_ok_def virtio_virtq_alloc_desc_def)

lemma free_desc_ok:
  assumes "queue_ok xs q" and "x \<notin> set xs" and "x < vq_size q"
  shows "queue_ok (x # xs) (virtio_virtq_free_desc (int x) q)"
proof -
  let ?q = "virtio_virtq_free_desc (int x) q"
  have x: "unat (of_nat x :: u16) = x" using assms by (simp add: queue_ok_def unat_of_nat)
  have "free_chain ?q i xs \<longleftrightarrow> free_chain q i xs" for i
    by (rule free_chain_cong) (use assms(2,3) in \<open>auto simp: virtio_virtq_free_desc_def nth_update_notin\<close>)
  then show ?thesis using assms x by (simp add: queue_ok_def virtio_virtq_free_desc_def)
qed

lemma set_desc_ok: "queue_ok xs q \<Longrightarrow> x \<notin> set xs \<Longrightarrow> queue_ok xs (set_desc x d q)"
proof -
  assume q: "queue_ok xs q" and x: "x \<notin> set xs"
  have "free_chain (set_desc x d q) i xs \<longleftrightarrow> free_chain q i xs" for i
    by (rule free_chain_cong) (use x in \<open>auto simp: set_desc_def nth_update_notin\<close>)
  then show "queue_ok xs (set_desc x d q)" using q by (simp add: queue_ok_def set_desc_def)
qed

lemma queue_ok_rings:
  assumes "queue_ok xs q" and "length ar = length (avail_ring q)" and "length ur = length (used_ring q)"
  shows "queue_ok xs (q\<lparr>avail_ring := ar, avail_idx := ai, used_ring := ur, used_idx := ui, last_seen_used_idx := l\<rparr>)"
proof -
  let ?q = "q\<lparr>avail_ring := ar, avail_idx := ai, used_ring := ur, used_idx := ui, last_seen_used_idx := l\<rparr>"
  have "free_chain ?q i xs \<longleftrightarrow> free_chain q i xs" for i by (rule free_chain_cong) simp_all
  then show ?thesis using assms by (simp add: queue_ok_def)
qed

lemma virtq_alloc_ok:
  assumes "virtq_alloc True raw idx sz = Some (Some q)" and "length (raw_avail raw) = sz" and "length (raw_used raw) = sz"
    and "sz dvd 2 ^ 16"
  shows "queue_ok [0..<sz] q"
proof -
  have sz: "sz < 4096" and q: "vq_size q = sz" "first_free_desc_idx q = 0" "avail_ring q = raw_avail raw" "used_ring q = raw_used raw"
    and t: "desc_table q = map (\<lambda>i. \<lparr>desc_addr = NoAddress, desc_len = 0, desc_flags = 0, desc_next = of_nat (i + 1)\<rparr>) [0..<sz]"
    using assms(1) by (auto simp: virtq_alloc_def bind_eq_Some_conv kassert_def split: if_splits)
  have "free_chain q i [i..<sz]" if "i \<le> sz" for i
    using that
  proof (induction rule: inc_induct)
    case base
    show ?case by (simp add: q)
  next
    case (step n)
    have "unat (of_nat (n + 1) :: u16) = n + 1" using step(2) sz by (simp only: unat_of_nat) simp
    then have "unat (desc_next (desc_table q ! n)) = Suc n" using step(2) by (simp add: t)
    then show ?case using step by (simp add: upt_conv_Cons q)
  qed
  from this [of 0] show ?thesis using assms(2-4) sz q t by (simp add: queue_ok_def)
qed

subsection \<open>A read\<close>

text \<open>
  What the specification of virtio promises of a disk: the newest entry of the available ring names a descriptor;
  when it starts the chain of a read request, the device answers with the sector and status 0.
\<close>

definition newest_chain :: "SplitVirtQueue \<Rightarrow> nat" where
  "newest_chain q = unat (avail_ring q ! (unat (avail_idx q - 1) mod vq_size q))"

definition is_read_chain :: "SplitVirtQueue \<Rightarrow> nat \<Rightarrow> nat \<Rightarrow> bool" where
  "is_read_chain q i req \<longleftrightarrow> (
     let header = desc_table q ! i;
         body = desc_table q ! unat (desc_next header);
         footer = desc_table q ! unat (desc_next body)
     in desc_addr header = HeaderOf req \<and> desc_len header = 16 \<and> desc_flags header = VIRTQ_DESC_F_NEXT \<and>
        desc_addr body = TempBuffer \<and> desc_len body = 512 \<and> desc_flags body = VIRTQ_DESC_F_NEXT OR VIRTQ_DESC_F_WRITE \<and>
        desc_addr footer = FooterOf req \<and> desc_len footer = 1 \<and> desc_flags footer = VIRTQ_DESC_F_WRITE)"

definition virtio_disk :: "blk_device \<Rightarrow> (nat \<Rightarrow> u8 list) \<Rightarrow> bool" where
  "virtio_disk device disk \<longleftrightarrow>
     (\<forall>q reqs req r. is_read_chain q (newest_chain q) req \<longrightarrow> reqs req = Some r \<longrightarrow> req_type r = VIRTIO_BLK_T_IN \<longrightarrow>
        device q reqs = Some \<lparr>done_id = newest_chain q, done_data = disk (unat (req_sector r)), done_footer = req, done_status = 0\<rparr>)"

definition blk_ready :: "nat list \<Rightarrow> virtio_blk \<Rightarrow> bool" where
  "blk_ready free m \<longleftrightarrow> queue_ok free (m_vqueue m) \<and> is_list (m_requests m) [] \<and> read_tempbuffer_lock m = 0 \<and>
     unat (last_seen_used_idx (m_vqueue m)) = unat (used_idx (m_vqueue m)) mod vq_size (m_vqueue m)"

lemma add_to_empty:
  assumes "is_list l []"
  shows "ll_head (ll_add n l) = Some n" "ll_next (ll_add n l) n = None" "ll_prev (ll_add n l) n = None"
    "is_list (ll_remove n (ll_add n l)) []" "ll_next (ll_remove n (ll_add n l)) n = None"
  using assms by (simp_all add: is_list_Nil ll_add_def ll_remove_def ll_defs Let_def)

text \<open>A request that was queued: its three descriptors are the chain that the device sees.\<close>

lemma enqueue_ok:
  assumes q0: "queue_ok (h # b # f # xs) (m_vqueue m)" and e: "enqueue_block_request VIRTIO_BLK_T_IN sector req m = (rc, m')"
  shows "rc = 0 \<and> (\<exists>r. vb_reqs m' = (vb_reqs m)(req \<mapsto> r) \<and> req_type r = VIRTIO_BLK_T_IN \<and> req_sector r = ucast sector \<and>
      descriptor_idx r = [h, b, f] \<and> req_completed r = 1 \<and> req_status r = 0) \<and>
    m_requests m' = ll_add req (m_requests m) \<and> queue_ok xs (m_vqueue m') \<and> vq_size (m_vqueue m') = vq_size (m_vqueue m) \<and>
    newest_chain (m_vqueue m') = h \<and> is_read_chain (m_vqueue m') h req \<and> read_tempbuffer_lock m' = read_tempbuffer_lock m \<and>
    used_idx (m_vqueue m') = used_idx (m_vqueue m) \<and> last_seen_used_idx (m_vqueue m') = last_seen_used_idx (m_vqueue m)"
proof -
  let ?q = "m_vqueue m"
  obtain q1 where q1: "virtio_virtq_alloc_desc ?q = (int h, q1)" "queue_ok (b # f # xs) q1" "h < vq_size ?q" "vq_size q1 = vq_size ?q"
      "used_ring q1 = used_ring ?q" "used_idx q1 = used_idx ?q" "avail_ring q1 = avail_ring ?q" "avail_idx q1 = avail_idx ?q"
      "last_seen_used_idx q1 = last_seen_used_idx ?q"
    using alloc_desc_ok [OF q0] by blast
  obtain q2 where q2: "virtio_virtq_alloc_desc q1 = (int b, q2)" "queue_ok (f # xs) q2" "b < vq_size q1" "vq_size q2 = vq_size q1"
      "used_ring q2 = used_ring q1" "used_idx q2 = used_idx q1" "avail_ring q2 = avail_ring q1" "avail_idx q2 = avail_idx q1"
      "last_seen_used_idx q2 = last_seen_used_idx q1"
    using alloc_desc_ok [OF q1(2)] by blast
  obtain q3 where q3: "virtio_virtq_alloc_desc q2 = (int f, q3)" "queue_ok xs q3" "f < vq_size q2" "vq_size q3 = vq_size q2"
      "used_ring q3 = used_ring q2" "used_idx q3 = used_idx q2" "avail_ring q3 = avail_ring q2" "avail_idx q3 = avail_idx q2"
      "last_seen_used_idx q3 = last_seen_used_idx q2"
    using alloc_desc_ok [OF q2(2)] by blast
  have new: "h \<notin> set xs" "b \<notin> set xs" "f \<notin> set xs" "h \<noteq> b" "h \<noteq> f" "b \<noteq> f" using q0 by (auto simp: queue_ok_def)
  define q4 where "q4 = set_desc f \<lparr>desc_addr = FooterOf req, desc_len = 1, desc_flags = VIRTQ_DESC_F_WRITE, desc_next = 0\<rparr>
    (set_desc b \<lparr>desc_addr = TempBuffer, desc_len = 512, desc_flags = VIRTQ_DESC_F_NEXT OR VIRTQ_DESC_F_WRITE, desc_next = of_nat f\<rparr>
    (set_desc h \<lparr>desc_addr = HeaderOf req, desc_len = 16, desc_flags = VIRTQ_DESC_F_NEXT, desc_next = of_nat b\<rparr> q3))"
  let ?q5 = "virtio_virtq_enqueue_desc h q4"
  have ok4: "queue_ok xs q4" using q3(2) new by (simp add: q4_def set_desc_ok)
  have same: "vq_size q4 = vq_size q3" "avail_ring q4 = avail_ring q3" "avail_idx q4 = avail_idx q3" "used_idx q4 = used_idx q3"
    "last_seen_used_idx q4 = last_seen_used_idx q3"
    by (simp_all add: q4_def set_desc_def)
  have ok5: "queue_ok xs ?q5"
    using queue_ok_rings [OF ok4, where ar = "(avail_ring q4)[unat (avail_idx q4) mod vq_size q4 := of_nat h]" and ur = "used_ring q4"
      and ai = "avail_idx q4 + 1" and ui = "used_idx q4" and l = "last_seen_used_idx q4"] by (simp add: virtio_virtq_enqueue_desc_def)
  have small: "vq_size q3 < 2 ^ 16" "length (desc_table q3) = vq_size q3" "length (avail_ring q4) = vq_size q4"
    using q3(2) ok4 by (auto simp: queue_ok_def)
  have u: "unat (of_nat h :: u16) = h" "unat (of_nat b :: u16) = b" "unat (of_nat f :: u16) = f"
    using small(1) q1(3,4) q2(3,4) q3(3,4) by (simp_all add: unat_of_nat)
  have "0 < vq_size q4" using q3(3,4) same(1) by simp
  then have "newest_chain ?q5 = h" using small(3) u(1)
    by (simp add: newest_chain_def virtio_virtq_enqueue_desc_def)
  moreover have "is_read_chain ?q5 h req"
    using q1(3,4) q2(3,4) q3(3,4) small(2) u new
    by (simp add: is_read_chain_def Let_def virtio_virtq_enqueue_desc_def q4_def set_desc_def)
  ultimately show ?thesis
    using e q1 q2 q3 ok5 same
    by (auto simp: enqueue_block_request_def q4_def [symmetric] try_acquire_def virtio_virtq_enqueue_desc_def)
qed

text \<open>One answer is one step of the interrupt handler, however often the 16-bit index has wrapped around.\<close>

lemma used_step:
  assumes "queue_ok xs q" and "unat (last_seen_used_idx q) = unat (used_idx q) mod vq_size q" and "2 \<le> vq_size q"
  shows "unat (used_idx q + 1) mod vq_size q = (unat (last_seen_used_idx q) + 1) mod vq_size q"
    "unat (last_seen_used_idx q) \<noteq> unat (used_idx q + 1) mod vq_size q" "unat (last_seen_used_idx q) < vq_size q"
proof -
  have "unat (used_idx q + 1) = (unat (used_idx q) + 1) mod 2 ^ 16" by (simp add: unat_word_ariths)
  then show e: "unat (used_idx q + 1) mod vq_size q = (unat (last_seen_used_idx q) + 1) mod vq_size q"
    using assms by (simp add: queue_ok_def mod_mod_cancel mod_Suc_eq)
  show l: "unat (last_seen_used_idx q) < vq_size q" using assms by simp
  show "unat (last_seen_used_idx q) \<noteq> unat (used_idx q + 1) mod vq_size q"
    unfolding e using l assms(3) by (cases "unat (last_seen_used_idx q) + 1 = vq_size q") simp_all
qed

lemma handle_irq_one:
  assumes ok: "queue_ok xs q" and q: "q = m_vqueue m" and seen: "unat (last_seen_used_idx q) = unat (used_idx q) mod vq_size q"
    and two: "2 \<le> vq_size q" and id: "done_id a < 2 ^ 16"
  shows "handle_irq VIRTIO_IRQ_USED_BUFFER (device_answers a m) =
    map_option (map_sum id (\<lambda>m'. m'\<lparr>m_vqueue := (m_vqueue m')\<lparr>last_seen_used_idx := of_nat (unat (used_idx q + 1) mod vq_size q)\<rparr>\<rparr>))
      (process_used_buffer (done_id a) (device_answers a m))"
proof -
  let ?m = "device_answers a m" and ?l = "unat (last_seen_used_idx q)" and ?u = "unat (used_idx q + 1) mod vq_size q"
  note step = used_step [OF ok seen two]
  have m: "vq_size (m_vqueue ?m) = vq_size q" "used_idx (m_vqueue ?m) = used_idx q + 1" "last_seen_used_idx (m_vqueue ?m) = last_seen_used_idx q"
    and ring: "used_ring (m_vqueue ?m) ! ?l = of_nat (done_id a)"
    using step(3) ok seen by (simp_all add: device_answers_def Let_def q queue_ok_def)
  have u: "unat (used_ring (m_vqueue ?m) ! ?l) = done_id a" using id unfolding ring by (simp add: unat_of_nat)
  have keeps: "m_vqueue m' = m_vqueue ?m" if "process_used_buffer i ?m = Some (Inr m')" for i m'
    using that by (cases "find_request (ll_head (m_requests ?m)) i ?m")
      (auto simp: process_used_buffer_def bind_eq_Some_conv split: sum.split_asm)
  have stop: "process_used ?u ?u m' = Some (Inr m')" for m' by (simp add: process_used.simps)
  have "process_used ?l ?u ?m = process_used_buffer (done_id a) ?m"
  proof (cases "process_used_buffer (done_id a) ?m")
    case None
    then show ?thesis using step(1,2) u m by (subst process_used.simps) simp
  next
    case (Some x)
    then show ?thesis using step(1,2) u m keeps stop by (subst process_used.simps) (cases x; simp)
  qed
  moreover have "VIRTIO_IRQ_USED_BUFFER AND VIRTIO_IRQ_USED_BUFFER \<noteq> 0" by (simp add: VIRTIO_IRQ_USED_BUFFER_def)
  ultimately show ?thesis using m
    by (simp add: handle_irq_def map_option_case split: option.split Option.bind_split sum.split)
qed

lemma free_three:
  assumes "queue_ok xs q" and "distinct [h, b, f]" and "{h, b, f} \<inter> set xs = {}" and "h < vq_size q" "b < vq_size q" "f < vq_size q"
  shows "queue_ok (f # b # h # xs) (free_descriptors [h, b, f] q) \<and>
    used_idx (free_descriptors [h, b, f] q) = used_idx q \<and> vq_size (free_descriptors [h, b, f] q) = vq_size q \<and>
    last_seen_used_idx (free_descriptors [h, b, f] q) = last_seen_used_idx q"
proof -
  have size: "vq_size (virtio_virtq_free_desc i q) = vq_size q" for i q by (simp add: virtio_virtq_free_desc_def)
  let ?q1 = "virtio_virtq_free_desc (int h) q" let ?q2 = "virtio_virtq_free_desc (int b) ?q1"
  have "queue_ok (h # xs) ?q1" using free_desc_ok [OF assms(1), of h] assms(3,4) by simp
  then have "queue_ok (b # h # xs) ?q2" using free_desc_ok [of "h # xs" ?q1 b] assms(2,3,5) size by simp
  then have "queue_ok (f # b # h # xs) (virtio_virtq_free_desc (int f) ?q2)"
    using free_desc_ok [of "b # h # xs" ?q2 f] assms(2,3,6) size by auto
  then show ?thesis using assms(4-6) size by (simp add: free_descriptors_def) (simp add: virtio_virtq_free_desc_def)
qed

lemma queue_ok_three:
  assumes "queue_ok (h # b # f # xs) q"
  shows "distinct [h, b, f]" "{h, b, f} \<inter> set xs = {}" "h < vq_size q" "b < vq_size q" "f < vq_size q" "vq_size q < 2 ^ 16"
proof -
  have chain: "free_chain q (unat (first_free_desc_idx q)) (h # b # f # xs)" and dist: "distinct (h # b # f # xs)"
    and size: "vq_size q < 2 ^ 16"
    using assms unfolding queue_ok_def by blast+
  show "h < vq_size q" "b < vq_size q" "f < vq_size q" by (rule free_chain_less [OF chain]; simp)+
  show "distinct [h, b, f]" "{h, b, f} \<inter> set xs = {}" "vq_size q < 2 ^ 16" using dist size by auto
qed

text \<open>The end of a call: the descriptors are free again; only a request that has no successor stays where it is.\<close>

lemma cleanup_ok:
  assumes "vb_reqs m req = Some r" and "descriptor_idx r = [h, b, f]" and "ll_next (m_requests m) req = None"
    and "queue_ok xs (m_vqueue m)" and "distinct [h, b, f]" and "{h, b, f} \<inter> set xs = {}"
    and "h < vq_size (m_vqueue m)" "b < vq_size (m_vqueue m)" "f < vq_size (m_vqueue m)"
  shows "\<exists>q. cleanup_block_request req m = Some (m\<lparr>m_vqueue := q\<rparr>) \<and> queue_ok (f # b # h # xs) q \<and>
    used_idx q = used_idx (m_vqueue m) \<and> vq_size q = vq_size (m_vqueue m) \<and> last_seen_used_idx q = last_seen_used_idx (m_vqueue m)"
proof -
  have "cleanup_block_request req m = Some (m\<lparr>m_vqueue := free_descriptors [h, b, f] (m_vqueue m)\<rparr>)"
    using assms(1-3) by (simp add: cleanup_block_request_def)
  then show ?thesis using free_three [OF assms(4-9)] by blast
qed

text \<open>
  C19: When the device keeps to its specification, reading a sector returns the contents of the sector and leaves the
  driver as it was: the same descriptors are free, no request is left, and the next answer is expected at the next
  place of the ring.  This holds for every state of the rings, in particular when the indices wrap around.
\<close>
theorem virtio_reads_sector:
  assumes disk: "virtio_disk device disk" and ready: "blk_ready (h # b # f # xs) m" and new: "vb_reqs m req = None"
    and s: "s < 2 ^ 32"
  shows "\<exists>m'. virtio_read_sector device req (int s) m = Some (0, disk s, m') \<and> blk_ready (f # b # h # xs) m' \<and> vb_reqs m' = vb_reqs m"
proof -
  let ?m = "m\<lparr>read_tempbuffer_lock := 1\<rparr>"
  have q0: "queue_ok (h # b # f # xs) (m_vqueue ?m)" and seen: "unat (last_seen_used_idx (m_vqueue m)) = unat (used_idx (m_vqueue m)) mod vq_size (m_vqueue m)"
    and empty: "is_list (m_requests m) []" and lock: "read_tempbuffer_lock m = 0"
    using ready by (simp_all add: blk_ready_def)
  note d = queue_ok_three [OF q0, simplified virtio_blk.select_convs virtio_blk.update_convs]
  obtain m2 rc where e: "enqueue_block_request VIRTIO_BLK_T_IN (of_nat s) req ?m = (rc, m2)" by fastforce
  obtain r where r: "rc = 0" "vb_reqs m2 = (vb_reqs m)(req \<mapsto> r)" "req_type r = VIRTIO_BLK_T_IN" "req_sector r = ucast (of_nat s :: u32)"
      "descriptor_idx r = [h, b, f]" "req_completed r = 1" "req_status r = 0" "m_requests m2 = ll_add req (m_requests m)"
      "queue_ok xs (m_vqueue m2)" "vq_size (m_vqueue m2) = vq_size (m_vqueue m)" "newest_chain (m_vqueue m2) = h"
      "is_read_chain (m_vqueue m2) h req" "used_idx (m_vqueue m2) = used_idx (m_vqueue m)"
      "last_seen_used_idx (m_vqueue m2) = last_seen_used_idx (m_vqueue m)"
    using enqueue_ok [OF q0 e] by auto
  have sec: "unat (req_sector r) = s" using s by (simp add: r(4) unsigned_ucast_eq unat_of_nat take_bit_eq_mod)
  let ?a = "\<lparr>done_id = h, done_data = disk s, done_footer = req, done_status = 0\<rparr>"
  have dev: "device (m_vqueue m2) (vb_reqs m2) = Some ?a"
    using disk [unfolded virtio_disk_def] r(2,3,11,12) sec by simp
  let ?m3 = "device_answers ?a m2"
  have reqs3: "vb_reqs ?m3 req = Some r" using r(2,7) by (simp add: device_answers_def Let_def)
  have "find_request (Some req) h ?m3 = Some (Inr req)" using reqs3 r(5) by (subst find_request.simps) simp
  moreover have list3: "m_requests ?m3 = ll_add req (m_requests m)" using r(8) by (simp add: device_answers_def Let_def)
  moreover have "ll_head (m_requests ?m3) = Some req" using add_to_empty(1) [OF empty] list3 by simp
  ultimately have p: "process_used_buffer h ?m3 = Some (Inr (?m3\<lparr>vb_reqs := (vb_reqs ?m3)(req \<mapsto> r\<lparr>req_completed := 0\<rparr>),
      m_requests := ll_remove req (ll_add req (m_requests m))\<rparr>))" (is "_ = Some (Inr ?m4)")
    using reqs3 by (simp add: process_used_buffer_def spinlock_release_def)
  let ?u = "unat (used_idx (m_vqueue m) + 1) mod vq_size (m_vqueue m)"
  let ?m5 = "?m4\<lparr>m_vqueue := (m_vqueue ?m4)\<lparr>last_seen_used_idx := of_nat ?u\<rparr>\<rparr>"
  have two: "2 \<le> vq_size (m_vqueue m2)" using d(1,3-5) r(10) by auto
  have "handle_irq VIRTIO_IRQ_USED_BUFFER ?m3 = Some (Inr ?m5)"
    using handle_irq_one [OF r(9) refl _ two, of ?a] seen r(10,13,14) d(3,6) p by simp
  then have w: "wait_for_answer device m2 = Some ?m5" using dev by (simp add: wait_for_answer_def)
  have ok5: "queue_ok xs (m_vqueue ?m5)"
    using queue_ok_rings [OF r(9), where ar = "avail_ring (m_vqueue m2)" and ai = "avail_idx (m_vqueue m2)"]
    by (simp add: device_answers_def Let_def)
  have size5: "vq_size (m_vqueue ?m5) = vq_size (m_vqueue m)" using r(10) by (simp add: device_answers_def Let_def)
  have next5: "ll_next (m_requests ?m5) req = None" using add_to_empty(5) [OF empty] by simp
  obtain q where c: "cleanup_block_request req ?m5 = Some (?m5\<lparr>m_vqueue := q\<rparr>)" "queue_ok (f # b # h # xs) q"
      "used_idx q = used_idx (m_vqueue ?m5)" "vq_size q = vq_size (m_vqueue m)" "last_seen_used_idx q = last_seen_used_idx (m_vqueue ?m5)"
    using cleanup_ok [of ?m5 req "r\<lparr>req_completed := 0\<rparr>" h b f xs] r(5) next5 ok5 d size5 by fastforce
  have "?u < vq_size (m_vqueue m)" using d(3) by simp
  then have last: "unat (of_nat ?u :: u16) = ?u" using d(6) by (simp add: unat_of_nat)
  let ?m6 = "?m5\<lparr>m_vqueue := q, read_tempbuffer_lock := 0, vb_reqs := (vb_reqs ?m5)(req := None)\<rparr>"
  have "virtio_read_sector device req (int s) m = Some (0, disk s, ?m6)"
    using lock e r(1,7) w c(1)
    by (simp add: virtio_read_sector_def kassert_def spinlock_is_taken_def spinlock_release_def try_acquire_def device_answers_def Let_def)
  moreover have "blk_ready (f # b # h # xs) ?m6"
    using c(2-5) last add_to_empty(4) [OF empty] r(13) by (simp add: blk_ready_def device_answers_def Let_def)
  moreover have "vb_reqs ?m6 = vb_reqs m" using r(2) new by (auto simp: device_answers_def Let_def fun_eq_iff)
  ultimately show ?thesis by blast
qed

definition prompt_device :: "(nat \<Rightarrow> u8 list) \<Rightarrow> blk_device" where
  "prompt_device disk q reqs =
     (case desc_addr (desc_table q ! newest_chain q) of
        HeaderOf req \<Rightarrow> map_option (\<lambda>r. \<lparr>done_id = newest_chain q, done_data = disk (unat (req_sector r)), done_footer = req,
          done_status = 0\<rparr>) (reqs req)
      | _ \<Rightarrow> None)"

definition small_driver :: virtio_blk where
  "small_driver = \<lparr>m_vqueue = the (the (virtq_alloc True \<lparr>raw_avail_idx = 65535, raw_avail = replicate 4 0,
       raw_used_idx = 0, raw_used = replicate 4 0\<rparr> 0 4)),
     m_requests = \<lparr>ll_prev = \<lambda>_. None, ll_next = \<lambda>_. None, ll_head = None, ll_tail = None\<rparr>, vb_reqs = \<lambda>_. None,
     read_tempbuffer_lock = 0, read_tempbuffer = []\<rparr>"

lemma prompt_device_ok: "virtio_disk (prompt_device disk) disk"
  by (auto simp: virtio_disk_def prompt_device_def is_read_chain_def Let_def)

lemma small_driver_ready: "blk_ready [0, 1, 2, 3] small_driver"
  by (simp add: blk_ready_def small_driver_def virtq_alloc_def kassert_def round_up_8_def queue_ok_def is_list_Nil upt_rec)

theorem virtio_reads_sector_witness:
  "\<exists>m'. virtio_read_sector (prompt_device (\<lambda>s. replicate 512 (of_nat s))) 100 7 small_driver = Some (0, replicate 512 7, m')"
  using virtio_reads_sector [OF prompt_device_ok small_driver_ready, of 100 7 "\<lambda>s. replicate 512 (of_nat s)"]
  by (auto simp: small_driver_def)

text \<open>
  C11: A read that the device does not answer in time returns the error and frees its descriptors, but its
  request, a variable of the function that has returned, stays the head of the driver's list.  An answer that comes
  late, before the next read, makes the interrupt handler follow that pointer to a dead variable, whatever it is the
  answer to; it does not get as far as its panic for an answer without a request.
\<close>
theorem late_answer_follows_dead_request:
  assumes ready: "blk_ready (h # b # f # xs) m" and new: "vb_reqs m req = None"
  shows "\<exists>m'. virtio_read_sector (\<lambda>_ _. None) req sector m = Some (- errno ERR_TIMEDOUT, [], m') \<and>
    queue_ok (f # b # h # xs) (m_vqueue m') \<and> ll_head (m_requests m') = Some req \<and> vb_reqs m' req = None \<and>
    (\<forall>a. done_id a < 2 ^ 16 \<longrightarrow> handle_irq VIRTIO_IRQ_USED_BUFFER (device_answers a m') = Some (Inl DeadRequest))"
proof -
  let ?m = "m\<lparr>read_tempbuffer_lock := 1\<rparr>"
  have q0: "queue_ok (h # b # f # xs) (m_vqueue ?m)" and seen: "unat (last_seen_used_idx (m_vqueue m)) = unat (used_idx (m_vqueue m)) mod vq_size (m_vqueue m)"
    and empty: "is_list (m_requests m) []" and lock: "read_tempbuffer_lock m = 0"
    using ready by (simp_all add: blk_ready_def)
  note d = queue_ok_three [OF q0, simplified virtio_blk.select_convs virtio_blk.update_convs]
  obtain m2 rc where e: "enqueue_block_request VIRTIO_BLK_T_IN (of_int sector) req ?m = (rc, m2)" by fastforce
  obtain r where r: "rc = 0" "vb_reqs m2 = (vb_reqs m)(req \<mapsto> r)" "descriptor_idx r = [h, b, f]" "req_completed r = 1"
      "m_requests m2 = ll_add req (m_requests m)" "queue_ok xs (m_vqueue m2)" "vq_size (m_vqueue m2) = vq_size (m_vqueue m)"
      "used_idx (m_vqueue m2) = used_idx (m_vqueue m)" "last_seen_used_idx (m_vqueue m2) = last_seen_used_idx (m_vqueue m)"
    using enqueue_ok [OF q0 e] by auto
  have next2: "ll_next (m_requests m2) req = None" using add_to_empty(2) [OF empty] r(5) by simp
  obtain q where c: "cleanup_block_request req m2 = Some (m2\<lparr>m_vqueue := q\<rparr>)" "queue_ok (f # b # h # xs) q"
      "used_idx q = used_idx (m_vqueue m2)" "vq_size q = vq_size (m_vqueue m2)" "last_seen_used_idx q = last_seen_used_idx (m_vqueue m2)"
    using cleanup_ok [of m2 req r h b f xs] r(2,3,6,7) next2 d by auto
  let ?m' = "m2\<lparr>m_vqueue := q, read_tempbuffer_lock := 0, vb_reqs := (vb_reqs m2)(req := None)\<rparr>"
  have "virtio_read_sector (\<lambda>_ _. None) req sector m = Some (- errno ERR_TIMEDOUT, [], ?m')"
    using lock e r(1,2,4) c(1)
    by (simp add: virtio_read_sector_def kassert_def spinlock_is_taken_def spinlock_release_def try_acquire_def wait_for_answer_def)
  moreover have "handle_irq VIRTIO_IRQ_USED_BUFFER (device_answers a ?m') = Some (Inl DeadRequest)" if a: "done_id a < 2 ^ 16" for a
  proof -
    have "vb_reqs (device_answers a ?m') req = None" by (simp add: device_answers_def Let_def)
    then have "find_request (Some req) (done_id a) (device_answers a ?m') = Some (Inl DeadRequest)" by (subst find_request.simps) simp
    moreover have "ll_head (m_requests (device_answers a ?m')) = Some req"
      using add_to_empty(1) [OF empty] r(5) by (simp add: device_answers_def Let_def)
    ultimately have "process_used_buffer (done_id a) (device_answers a ?m') = Some (Inl DeadRequest)" by (simp add: process_used_buffer_def)
    moreover have "2 \<le> vq_size q" using d(1,3-5) c(4) r(7) by auto
    ultimately show ?thesis using handle_irq_one [of _ q ?m' a] c(2-5) r(7-9) seen a by simp
  qed
  moreover have "ll_head (m_requests ?m') = Some req" using add_to_empty(1) [OF empty] r(5) by simp
  ultimately show ?thesis using c(2) by auto
qed

theorem late_answer_follows_dead_request_witness:
  "\<exists>m'. virtio_read_sector (\<lambda>_ _. None) 100 7 small_driver = Some (- 116, [], m') \<and>
    handle_irq 1 (device_answers \<lparr>done_id = 0, done_data = [], done_footer = 100, done_status = 0\<rparr> m') = Some (Inl DeadRequest)"
proof -
  have "vb_reqs small_driver 100 = None" by (simp add: small_driver_def)
  from late_answer_follows_dead_request [OF small_driver_ready this, of 7]
  obtain m' where m': "virtio_read_sector (\<lambda>_ _. None) 100 7 small_driver = Some (- errno ERR_TIMEDOUT, [], m')"
      "\<forall>a. done_id a < 2 ^ 16 \<longrightarrow> handle_irq VIRTIO_IRQ_USED_BUFFER (device_answers a m') = Some (Inl DeadRequest)"
    by blast
  have "handle_irq VIRTIO_IRQ_USED_BUFFER (device_answers \<lparr>done_id = 0, done_data = [], done_footer = 100, done_status = 0\<rparr> m') =
      Some (Inl DeadRequest)"
    using m'(2) by simp
  then show ?thesis using m'(1) by (auto simp: VIRTIO_IRQ_USED_BUFFER_def)
qed

end
