(* ===== verification/VirtioInput.thy ===== *)
theory VirtioInput
  imports Virtio RingBuffer Inode
begin

text \<open>
  Keyboards: the events of a device (\<^verbatim>\<open>InputDevice\<close> in \<^verbatim>\<open>kernel/drivers/device.cpp\<close>) and the driver that fills them
  from a virtio queue (\<^verbatim>\<open>kernel/drivers/char/virtioinput.cpp\<close>).
\<close>

subsection \<open>Events of a device\<close>

record InputEvent =
  event_type :: u16
  event_code :: u16
  event_value :: u32

definition EV_SYN :: u16 where "EV_SYN = 0"
definition EV_KEY :: u16 where "EV_KEY = 1"
definition sizeof_InputEvent :: nat where "sizeof_InputEvent = 12"
definition INPUT_EVENTS :: nat where "INPUT_EVENTS = 32"

record input_queue =
  events_lock :: u32
  events :: "InputEvent ring_buffer"

text \<open>The mutex is taken inside of the interrupt: when the interrupted thread holds it, nobody ever releases it.\<close>

definition notify_event :: "InputEvent \<Rightarrow> input_queue \<Rightarrow> input_queue option" where
  "notify_event event q = do {
     kassert (\<not> spinlock_is_taken (events_lock q));
     Some (q\<lparr>events := rb_push event (events q)\<rparr>)
   }"

definition input_read :: "nat \<Rightarrow> input_queue \<Rightarrow> (nat \<times> InputEvent list \<times> input_queue) option" where
  "input_read sz q = do {
     kassert (\<not> spinlock_is_taken (events_lock q));
     let (es, rb) = fifo_drain rb_pop (sz div sizeof_InputEvent) (events q);
     Some (length es * sizeof_InputEvent, es, q\<lparr>events := rb\<rparr>)
   }"

definition input_poll :: "u32 \<Rightarrow> u32 \<Rightarrow> input_queue \<Rightarrow> u32 option" where
  "input_poll evs revents q = do {
     kassert (\<not> spinlock_is_taken (events_lock q));
     let r = (if evs AND F_POLLIN \<noteq> 0 \<and> \<not> rb_is_empty (events q) then revents OR F_POLLIN else revents);
     Some (if evs AND F_POLLOUT \<noteq> 0 \<and> \<not> rb_is_full (events q) then r OR F_POLLOUT else r)
   }"

definition input_write :: int where "input_write = - errno ERR_NOTSUP"
definition input_ioctl :: int where "input_ioctl = - errno ERR_NOTSUP"

subsection \<open>The driver\<close>

text \<open>The address of an event buffer is its number.\<close>

record virtio_input =
  m_eventq :: SplitVirtQueue
  m_eventsbuf :: "InputEvent list"
  m_events :: input_queue

definition no_event :: InputEvent where
  "no_event = \<lparr>event_type = 0, event_code = 0, event_value = 0\<rparr>"

definition mark_descriptor_as_available :: "nat \<Rightarrow> virtio_input \<Rightarrow> virtio_input option" where
  "mark_descriptor_as_available desc_idx m = do {
     kassert (desc_idx < length (m_eventsbuf m));
     kassert (desc_idx < length (desc_table (m_eventq m)));
     Some (m\<lparr>m_eventsbuf := (m_eventsbuf m)[desc_idx := no_event],
             m_eventq := virtio_virtq_enqueue_desc desc_idx
               (set_desc desc_idx \<lparr>desc_addr = HeaderOf desc_idx, desc_len = 8, desc_flags = VIRTQ_DESC_F_WRITE, desc_next = 0\<rparr>
                 (m_eventq m))\<rparr>)
   }"

definition process_event :: "nat \<Rightarrow> virtio_input \<Rightarrow> virtio_input option" where
  "process_event desc_idx m = do {
     kassert (desc_idx < length (m_eventsbuf m));
     let event = m_eventsbuf m ! desc_idx;
     let m = m\<lparr>m_eventsbuf := (m_eventsbuf m)[desc_idx := no_event]\<rparr>;
     q \<leftarrow> (if event_type event = EV_KEY then notify_event event (m_events m) else Some (m_events m));
     mark_descriptor_as_available desc_idx (m\<lparr>m_events := q\<rparr>)
   }"

partial_function (option) foreach_used_descriptor :: "nat \<Rightarrow> nat \<Rightarrow> virtio_input \<Rightarrow> virtio_input option" where
  "foreach_used_descriptor idx used m =
     (if idx = used then Some m
      else do {
        m \<leftarrow> process_event (unat (ucast (used_ring (m_eventq m) ! idx) :: u16)) m;
        foreach_used_descriptor ((idx + 1) mod vq_size (m_eventq m)) used m
      })"

definition input_handle_irq :: "virtio_input \<Rightarrow> virtio_input option" where
  "input_handle_irq m = (
     let used = unat (used_idx (m_eventq m)) mod vq_size (m_eventq m)
     in do {
       m \<leftarrow> foreach_used_descriptor (unat (last_seen_used_idx (m_eventq m))) used m;
       Some (m\<lparr>m_eventq := (m_eventq m)\<lparr>last_seen_used_idx := of_nat used\<rparr>\<rparr>)
     })"

text \<open>At the end of \<^verbatim>\<open>init\<close> all descriptors but one are given to the device.\<close>

fun post_descriptors :: "nat \<Rightarrow> virtio_input \<Rightarrow> virtio_input option" where
  "post_descriptors 0 m = Some m"
| "post_descriptors (Suc n) m = do {
     let (tempdesc, q) = virtio_virtq_alloc_desc (m_eventq m);
     kassert (tempdesc \<ge> 0);
     m \<leftarrow> mark_descriptor_as_available (nat tempdesc) (m\<lparr>m_eventq := q\<rparr>);
     post_descriptors n m
   }"

definition post_all_descriptors :: "virtio_input \<Rightarrow> virtio_input option" where
  "post_all_descriptors m = post_descriptors (vq_size (m_eventq m) - 1) m"

subsection \<open>What the device does\<close>

text \<open>An event goes to the buffer of a descriptor that the device has, which it then puts into the used ring.\<close>

definition device_event :: "nat \<Rightarrow> InputEvent \<Rightarrow> virtio_input \<Rightarrow> virtio_input" where
  "device_event i e m = (
     let q = m_eventq m
     in m\<lparr>m_eventsbuf := (m_eventsbuf m)[i := e],
          m_eventq := q\<lparr>used_ring := (used_ring q)[unat (used_idx q) mod vq_size q := of_nat i], used_idx := used_idx q + 1\<rparr>\<rparr>)"

definition device_events :: "(nat \<times> InputEvent) list \<Rightarrow> virtio_input \<Rightarrow> virtio_input" where
  "device_events es m = fold (\<lambda>(i, e). device_event i e) es m"

definition input_ready :: "virtio_input \<Rightarrow> bool" where
  "input_ready m \<longleftrightarrow> (let q = m_eventq m in
     length (desc_table q) = vq_size q \<and> length (avail_ring q) = vq_size q \<and> length (used_ring q) = vq_size q \<and>
     0 < vq_size q \<and> vq_size q dvd 2 ^ 16 \<and> vq_size q < 2 ^ 16 \<and> vq_size q \<le> length (m_eventsbuf m) \<and>
     events_lock (m_events m) = 0 \<and> rb_inv (events (m_events m)) \<and> rb_capacity (events (m_events m)) = INPUT_EVENTS)"

definition irq_done :: "virtio_input \<Rightarrow> bool" where
  "irq_done m \<longleftrightarrow> unat (last_seen_used_idx (m_eventq m)) = unat (used_idx (m_eventq m)) mod vq_size (m_eventq m)"

definition last_n :: "nat \<Rightarrow> 'a list \<Rightarrow> 'a list" where
  "last_n n xs = drop (length xs - n) xs"

lemma rb_push_last:
  assumes "rb_inv rb"
  shows "rb_contents (rb_push x rb) = last_n (rb_capacity rb) (rb_contents rb @ [x])"
proof (cases "rb_is_full rb")
  case True
  then show ?thesis using rb_contents_push_full [OF assms, of x] assms
    by (simp add: last_n_def rb_is_full_def rb_inv_def drop_Suc)
next
  case False
  then have "length (rb_contents rb) < rb_capacity rb" using assms by (simp add: rb_is_full_def rb_inv_def)
  then show ?thesis using rb_contents_push [OF assms False, of x] by (simp add: last_n_def)
qed

lemma rb_contents_last: "rb_inv rb \<Longrightarrow> last_n (rb_capacity rb) (rb_contents rb) = rb_contents rb"
  by (simp add: last_n_def rb_inv_def)

lemma last_n_append:
  assumes "0 < n"
  shows "last_n n (last_n n xs @ ys) = last_n n (xs @ ys)"
  by (cases "n \<le> length xs") (simp_all add: last_n_def add.commute)

subsection \<open>A batch of events\<close>

definition key_events :: "InputEvent list \<Rightarrow> InputEvent list" where
  "key_events es = filter (\<lambda>e. event_type e = EV_KEY) es"

text \<open>The queue after the descriptor \<open>i\<close> has been given back.\<close>

definition give_back :: "nat \<Rightarrow> SplitVirtQueue \<Rightarrow> SplitVirtQueue" where
  "give_back i q = virtio_virtq_enqueue_desc i
     (set_desc i \<lparr>desc_addr = HeaderOf i, desc_len = 8, desc_flags = VIRTQ_DESC_F_WRITE, desc_next = 0\<rparr> q)"

lemma give_back_keeps [simp]:
  "used_ring (give_back i q) = used_ring q" "used_idx (give_back i q) = used_idx q" "vq_size (give_back i q) = vq_size q"
  "last_seen_used_idx (give_back i q) = last_seen_used_idx q" "length (desc_table (give_back i q)) = length (desc_table q)"
  "length (avail_ring (give_back i q)) = length (avail_ring q)"
  by (simp_all add: give_back_def virtio_virtq_enqueue_desc_def set_desc_def)

lemma process_event_ok:
  assumes ready: "input_ready m" and i: "i < vq_size (m_eventq m)"
  shows "\<exists>m'. process_event i m = Some m' \<and> input_ready m' \<and> m_eventq m' = give_back i (m_eventq m) \<and>
    m_eventsbuf m' = (m_eventsbuf m)[i := no_event] \<and>
    rb_contents (events (m_events m')) = last_n INPUT_EVENTS (rb_contents (events (m_events m)) @ key_events [m_eventsbuf m ! i])"
proof -
  let ?e = "m_eventsbuf m ! i" and ?rb = "events (m_events m)"
  define q where "q = (if event_type ?e = EV_KEY then m_events m\<lparr>events := rb_push ?e ?rb\<rparr> else m_events m)"
  have inv: "rb_inv ?rb" "rb_capacity ?rb = INPUT_EVENTS" and lock: "events_lock (m_events m) = 0"
    and len: "i < length (m_eventsbuf m)" "i < length (desc_table (m_eventq m))"
    using ready i by (auto simp: input_ready_def Let_def)
  have n: "(if event_type ?e = EV_KEY then notify_event ?e (m_events m) else Some (m_events m)) = Some q"
    using lock by (simp add: q_def notify_event_def kassert_def spinlock_is_taken_def)
  have c: "rb_contents (events q) = last_n INPUT_EVENTS (rb_contents ?rb @ key_events [?e])"
    using rb_push_last [OF inv(1)] rb_contents_last [OF inv(1)] inv(2) by (simp add: q_def key_events_def)
  let ?m = "m\<lparr>m_eventsbuf := (m_eventsbuf m)[i := no_event], m_events := q, m_eventq := give_back i (m_eventq m)\<rparr>"
  have "process_event i m = Some ?m"
    using len n
    by (cases "event_type ?e = EV_KEY") (auto simp: process_event_def mark_descriptor_as_available_def kassert_def give_back_def Let_def)
  moreover have "input_ready ?m" using ready rb_push_inv [OF inv(1)] inv(2) by (simp add: input_ready_def Let_def q_def)
  ultimately show ?thesis using c by simp
qed

lemma foreach_used_ok:
  assumes "input_ready m" and "idx < vq_size (m_eventq m)" and "length es < vq_size (m_eventq m)" and "distinct (map fst es)"
    and "\<And>j. j < length es \<Longrightarrow> used_ring (m_eventq m) ! ((idx + j) mod vq_size (m_eventq m)) = of_nat (fst (es ! j)) \<and>
      fst (es ! j) < vq_size (m_eventq m) \<and> m_eventsbuf m ! fst (es ! j) = snd (es ! j)"
  shows "\<exists>m'. foreach_used_descriptor idx ((idx + length es) mod vq_size (m_eventq m)) m = Some m' \<and> input_ready m' \<and>
    m_eventq m' = fold give_back (map fst es) (m_eventq m) \<and>
    rb_contents (events (m_events m')) = last_n INPUT_EVENTS (rb_contents (events (m_events m)) @ key_events (map snd es))"
  using assms
proof (induction es arbitrary: idx m)
  case Nil
  then have "last_n INPUT_EVENTS (rb_contents (events (m_events m))) = rb_contents (events (m_events m))"
    using rb_contents_last [of "events (m_events m)"] by (simp add: input_ready_def Let_def)
  then show ?case using Nil by (simp add: foreach_used_descriptor.simps key_events_def)
next
  case (Cons x es)
  obtain i e where x: "x = (i, e)" by fastforce
  let ?n = "vq_size (m_eventq m)" and ?idx = "(idx + 1) mod vq_size (m_eventq m)"
  have first: "used_ring (m_eventq m) ! idx = of_nat i" "i < ?n" "m_eventsbuf m ! i = e" using Cons.prems(5) [of 0] Cons.prems(2) x by auto
  obtain m1 where m1: "process_event i m = Some m1" "input_ready m1" "m_eventq m1 = give_back i (m_eventq m)"
      "m_eventsbuf m1 = (m_eventsbuf m)[i := no_event]"
      "rb_contents (events (m_events m1)) = last_n INPUT_EVENTS (rb_contents (events (m_events m)) @ key_events [e])"
    using process_event_ok [OF Cons.prems(1) first(2)] first(3) by blast
  have stop: "(?idx + length es) mod ?n = (idx + length (x # es)) mod ?n" by (simp add: mod_simps)
  have ne: "idx \<noteq> (idx + length (x # es)) mod ?n"
    using mod_add_neq [of 0 "length (x # es)" ?n idx] Cons.prems(2,3) by simp
  have "?n < 2 ^ 16" using Cons.prems(1) by (simp add: input_ready_def Let_def)
  then have "unat (ucast (used_ring (m_eventq m) ! idx) :: u16) = i" using first(1,2) by (simp add: unsigned_ucast_eq unat_of_nat take_bit_eq_mod)
  then have run: "foreach_used_descriptor idx ((idx + length (x # es)) mod ?n) m =
      foreach_used_descriptor ?idx ((?idx + length es) mod ?n) m1"
    using m1(1,3) ne stop by (subst foreach_used_descriptor.simps) simp
  have "\<exists>m'. foreach_used_descriptor ?idx ((?idx + length es) mod vq_size (m_eventq m1)) m1 = Some m' \<and> input_ready m' \<and>
      m_eventq m' = fold give_back (map fst es) (m_eventq m1) \<and>
      rb_contents (events (m_events m')) = last_n INPUT_EVENTS (rb_contents (events (m_events m1)) @ key_events (map snd es))"
  proof (rule Cons.IH [OF m1(2)])
    show "?idx < vq_size (m_eventq m1)" "length es < vq_size (m_eventq m1)" "distinct (map fst es)"
      using Cons.prems(3,4) first(2) by (simp_all add: m1(3))
    fix j assume j: "j < length es"
    have "fst (es ! j) \<noteq> i" using Cons.prems(4) x j by (metis distinct.simps(2) fst_conv list.simps(9) nth_mem nth_map length_map)
    then show "used_ring (m_eventq m1) ! ((?idx + j) mod vq_size (m_eventq m1)) = of_nat (fst (es ! j)) \<and>
        fst (es ! j) < vq_size (m_eventq m1) \<and> m_eventsbuf m1 ! fst (es ! j) = snd (es ! j)"
      using Cons.prems(5) [of "Suc j"] j by (simp add: m1(3,4) mod_simps)
  qed
  moreover have "key_events (map snd (x # es)) = key_events [e] @ key_events (map snd es)" by (simp add: key_events_def x)
  ultimately show ?case
    using run m1(3,5) x last_n_append [of INPUT_EVENTS "rb_contents (events (m_events m)) @ key_events [e]" "key_events (map snd es)"]
    by (simp add: INPUT_EVENTS_def)
qed

lemma device_events_snoc: "device_events (es @ [(i, e)]) m = device_event i e (device_events es m)"
  by (simp add: device_events_def)

text \<open>What the driver finds after the device has put its events into the ring.\<close>

lemma device_events_ok:
  assumes "input_ready m" and "irq_done m" and "length es < vq_size (m_eventq m)" and "distinct (map fst es)"
    and "\<And>x. x \<in> set es \<Longrightarrow> fst x < vq_size (m_eventq m)"
  defines "m1 \<equiv> device_events es m" and "l \<equiv> unat (last_seen_used_idx (m_eventq m))"
  shows "input_ready m1 \<and> vq_size (m_eventq m1) = vq_size (m_eventq m) \<and> m_events m1 = m_events m \<and>
    last_seen_used_idx (m_eventq m1) = last_seen_used_idx (m_eventq m) \<and>
    unat (used_idx (m_eventq m1)) mod vq_size (m_eventq m) = (l + length es) mod vq_size (m_eventq m) \<and>
    (\<forall>j<length es. used_ring (m_eventq m1) ! ((l + j) mod vq_size (m_eventq m)) = of_nat (fst (es ! j)) \<and>
      m_eventsbuf m1 ! fst (es ! j) = snd (es ! j))"
  using assms(3-5) unfolding m1_def
proof (induction es rule: rev_induct)
  case Nil
  then show ?case using assms(1,2) by (simp add: device_events_def irq_done_def l_def)
next
  case (snoc x es)
  obtain i e where x: "x = (i, e)" by fastforce
  let ?n = "vq_size (m_eventq m)" and ?m = "device_events es m"
  have "length es < ?n" "distinct (map fst es)" using snoc.prems(1,2) by auto
  note ih = snoc.IH [OF this snoc.prems(3)]
  have ready: "input_ready ?m" and size: "vq_size (m_eventq ?m) = ?n"
    and u: "unat (used_idx (m_eventq ?m)) mod ?n = (l + length es) mod ?n" using ih by auto
  have n: "0 < ?n" "?n dvd 2 ^ 16" "?n \<le> length (m_eventsbuf ?m)" "length (used_ring (m_eventq ?m)) = ?n"
    using ready size by (auto simp: input_ready_def Let_def)
  have i: "i < length (m_eventsbuf ?m)" using snoc.prems(3) [of x] x n(3) by simp
  have "unat (used_idx (m_eventq ?m) + 1) = (unat (used_idx (m_eventq ?m)) + 1) mod 2 ^ 16" by (simp add: unat_word_ariths)
  then have "unat (used_idx (m_eventq ?m) + 1) mod ?n = (unat (used_idx (m_eventq ?m)) mod ?n + 1) mod ?n"
    using n(2) by (simp add: mod_mod_cancel mod_simps)
  then have u1: "unat (used_idx (m_eventq ?m) + 1) mod ?n = (l + Suc (length es)) mod ?n" unfolding u by (simp add: mod_simps)
  have old: "used_ring (m_eventq (device_event i e ?m)) ! ((l + j) mod ?n) = of_nat (fst (es ! j)) \<and>
      m_eventsbuf (device_event i e ?m) ! fst (es ! j) = snd (es ! j)" if j: "j < length es" for j
  proof -
    have "(l + j) mod ?n \<noteq> (l + length es) mod ?n" by (rule mod_add_neq) (use j snoc.prems(1) in auto)
    moreover have "fst (es ! j) \<noteq> i" using snoc.prems(2) x j by auto
    ultimately show ?thesis using ih j u size by (simp add: device_event_def Let_def)
  qed
  have new: "used_ring (m_eventq (device_event i e ?m)) ! ((l + length es) mod ?n) = of_nat i"
    "m_eventsbuf (device_event i e ?m) ! i = e"
    using u size n(1,4) i by (simp_all add: device_event_def Let_def)
  have "input_ready (device_event i e ?m)" using ready by (simp add: input_ready_def device_event_def Let_def)
  then show ?case using ih u1 old new x size
    by (auto simp: device_events_snoc nth_append less_Suc_eq device_event_def [of i e ?m] Let_def)
qed

text \<open>
  C20: However many events a device delivers at once, and wherever the ring stands, the interrupt handler queues the
  key presses among them in their order, behind those not yet read; when there are more than 32, the oldest are lost.
  Other events are dropped, and every descriptor that was used is given back to the device.
\<close>
theorem key_events_in_order:
  assumes ready: "input_ready m" and seen: "irq_done m" and es: "length es < vq_size (m_eventq m)" "distinct (map fst es)"
    and ids: "\<And>x. x \<in> set es \<Longrightarrow> fst x < vq_size (m_eventq m)"
  shows "\<exists>m'. input_handle_irq (device_events es m) = Some m' \<and> input_ready m' \<and> irq_done m' \<and>
    rb_contents (events (m_events m')) = last_n 32 (rb_contents (events (m_events m)) @ key_events (map snd es)) \<and>
    avail_idx (m_eventq m') = avail_idx (fold give_back (map fst es) (m_eventq m)) \<and>
    avail_ring (m_eventq m') = avail_ring (fold give_back (map fst es) (m_eventq m))"
proof -
  let ?m = "device_events es m" and ?n = "vq_size (m_eventq m)" and ?l = "unat (last_seen_used_idx (m_eventq m))"
  note d = device_events_ok [OF ready seen es ids]
  have l: "?l < ?n" using seen ready by (simp add: irq_done_def input_ready_def Let_def)
  have "\<exists>m'. foreach_used_descriptor ?l ((?l + length es) mod vq_size (m_eventq ?m)) ?m = Some m' \<and> input_ready m' \<and>
      m_eventq m' = fold give_back (map fst es) (m_eventq ?m) \<and>
      rb_contents (events (m_events m')) = last_n INPUT_EVENTS (rb_contents (events (m_events ?m)) @ key_events (map snd es))"
    by (rule foreach_used_ok) (use d l es ids in auto)
  then obtain m' where m': "foreach_used_descriptor ?l ((?l + length es) mod ?n) ?m = Some m'" "input_ready m'"
      "m_eventq m' = fold give_back (map fst es) (m_eventq ?m)"
      "rb_contents (events (m_events m')) = last_n INPUT_EVENTS (rb_contents (events (m_events m)) @ key_events (map snd es))"
    using d by auto
  let ?m' = "m'\<lparr>m_eventq := (m_eventq m')\<lparr>last_seen_used_idx := of_nat ((?l + length es) mod ?n)\<rparr>\<rparr>"
  have r: "input_handle_irq ?m = Some ?m'" using m'(1) d by (simp add: input_handle_irq_def Let_def)
  have same: "used_idx (fold give_back is q) = used_idx q \<and> vq_size (fold give_back is q) = vq_size q" for "is" q
    by (induction "is" arbitrary: q) simp_all
  have "(?l + length es) mod ?n < 2 ^ 16" using ready by (simp add: input_ready_def Let_def less_trans [OF mod_less_divisor])
  then have done': "irq_done ?m'" using d same m'(3) by (simp add: irq_done_def unat_of_nat)
  have ready': "input_ready ?m'" using m'(2) by (simp add: input_ready_def Let_def)
  have avail: "avail_idx (fold give_back is q) = avail_idx (fold give_back is q') \<and>
      avail_ring (fold give_back is q) = avail_ring (fold give_back is q')"
    if "avail_idx q = avail_idx q' \<and> avail_ring q = avail_ring q' \<and> vq_size q = vq_size q'" for "is" q q'
    using that by (induction "is" arbitrary: q q') (simp_all add: give_back_def virtio_virtq_enqueue_desc_def set_desc_def)
  have "avail_idx (m_eventq (device_events xs m)) = avail_idx (m_eventq m) \<and>
      avail_ring (m_eventq (device_events xs m)) = avail_ring (m_eventq m)" for xs
    by (induction xs rule: rev_induct) (auto simp: device_events_snoc device_event_def Let_def, simp_all add: device_events_def)
  then have q: "avail_idx (m_eventq m') = avail_idx (fold give_back (map fst es) (m_eventq m)) \<and>
      avail_ring (m_eventq m') = avail_ring (fold give_back (map fst es) (m_eventq m))"
    using avail [of "m_eventq ?m" "m_eventq m" "map fst es"] d unfolding m'(3) by blast
  show ?thesis by (rule exI [of _ ?m']) (use r done' ready' q m'(4) in \<open>simp add: INPUT_EVENTS_def\<close>)
qed

definition small_keyboard :: virtio_input where
  "small_keyboard = \<lparr>m_eventq = the (the (virtq_alloc True \<lparr>raw_avail_idx = 0, raw_avail = replicate 4 0,
       raw_used_idx = 0, raw_used = replicate 4 0\<rparr> 0 4)),
     m_eventsbuf = replicate 4 no_event,
     m_events = \<lparr>events_lock = 0, events = \<lparr>rb_data = replicate 32 no_event, read_pos = 0, write_pos = 0, rb_count = 0\<rparr>\<rparr>\<rparr>"

lemma small_keyboard_ok: "input_ready small_keyboard" "irq_done small_keyboard" "vq_size (m_eventq small_keyboard) = 4"
  by (simp_all add: input_ready_def irq_done_def small_keyboard_def virtq_alloc_def kassert_def round_up_8_def upt_rec
      rb_inv_def rb_capacity_def INPUT_EVENTS_def)

theorem key_events_in_order_witness:
  "\<exists>m'. input_handle_irq (device_events [(2, \<lparr>event_type = 1, event_code = 30, event_value = 1\<rparr>),
      (0, \<lparr>event_type = 0, event_code = 0, event_value = 0\<rparr>), (1, \<lparr>event_type = 1, event_code = 30, event_value = 0\<rparr>)] small_keyboard) = Some m' \<and>
    rb_contents (events (m_events m')) =
      [\<lparr>event_type = 1, event_code = 30, event_value = 1\<rparr>, \<lparr>event_type = 1, event_code = 30, event_value = 0\<rparr>]"
proof -
  have "rb_contents (events (m_events small_keyboard)) = []" by (simp add: small_keyboard_def rb_contents_def)
  moreover have "\<And>x :: nat \<times> InputEvent. x \<in> set [(2, \<lparr>event_type = 1, event_code = 30, event_value = 1\<rparr>),
      (0, \<lparr>event_type = 0, event_code = 0, event_value = 0\<rparr>), (1, \<lparr>event_type = 1, event_code = 30, event_value = 0\<rparr>)] \<Longrightarrow>
      fst x < vq_size (m_eventq small_keyboard)" by (auto simp: small_keyboard_ok(3))
  ultimately show ?thesis
    using key_events_in_order [OF small_keyboard_ok(1,2), of "[(2, \<lparr>event_type = 1, event_code = 30, event_value = 1\<rparr>),
      (0, \<lparr>event_type = 0, event_code = 0, event_value = 0\<rparr>), (1, \<lparr>event_type = 1, event_code = 30, event_value = 0\<rparr>)]"]
    by (auto simp: small_keyboard_ok(3) last_n_def key_events_def EV_KEY_def)
qed

end
