(* ===== verification/Shell.thy ===== *)
theory Shell
  imports KernelError
begin

text \<open>
  The shell (\<^verbatim>\<open>userland/shell/main.c\<close>): a line is read, cut into arguments in place, and becomes a command of the
  shell or a program.  A line in memory is a list of characters; the terminator that follows it is not in the list.
  A write outside of an array is \<open>None\<close>.
\<close>

definition MAX_ARGS :: nat where "MAX_ARGS = 16"
definition MAX_LINE_LEN :: nat where "MAX_LINE_LEN = 256"

abbreviation NUL :: char where "NUL \<equiv> CHR 0x00"

subsection \<open>Reading a line\<close>

text \<open>The last newline ends the line.\<close>

definition cut_last_newline :: "string \<Rightarrow> string" where
  "cut_last_newline s =
     (if CHR 0x0A \<in> set s then rev (tl (dropWhile (\<lambda>c. c \<noteq> CHR 0x0A) (rev s))) else s)"

text \<open>\<open>answer\<close> is what \<^verbatim>\<open>read\<close> does: its result, and the characters that it has stored.  After an error it writes before the buffer.\<close>

definition read_line :: "(nat \<Rightarrow> int \<times> string) \<Rightarrow> nat \<Rightarrow> string option" where
  "read_line answer n = (
     let (count, buf) = answer (n - 1)
     in if count < 0 then None
        else Some (cut_last_newline (takeWhile (\<lambda>c. c \<noteq> NUL) (take (nat count) buf))))"

subsection \<open>Arguments\<close>

text \<open>The number of words, and the line with a terminator in place of the blank behind each word.\<close>

function tokenize :: "string \<Rightarrow> nat \<times> string" where
  "tokenize line = (
     let blanks = takeWhile (\<lambda>c. c = CHR '' '') line;
         line = dropWhile (\<lambda>c. c = CHR '' '') line;
         word = takeWhile (\<lambda>c. c \<noteq> CHR '' '') line
     in if line = [] then (0, blanks)
        else (case dropWhile (\<lambda>c. c \<noteq> CHR '' '') line of
                [] \<Rightarrow> (1, blanks @ word)
              | _ # line \<Rightarrow> let (count, line) = tokenize line in (count + 1, blanks @ word @ NUL # line)))"
  by pat_completeness auto
termination
proof (relation "measure length", goal_cases)
  case (2 line blanks rest word c more)
  have "length (dropWhile (\<lambda>c. c \<noteq> CHR '' '') rest) \<le> length line"
    using 2(2) length_dropWhile_le [of "\<lambda>c. c \<noteq> CHR '' ''" rest] length_dropWhile_le [of "\<lambda>c. c = CHR '' ''" line] by simp
  then show ?case using 2(5) by simp
qed simp

declare tokenize.simps [simp del]

text \<open>\<open>memory\<close> is the line with its last terminator.  The pointer goes on behind each string.\<close>

fun argv_strings :: "nat \<Rightarrow> string \<Rightarrow> string list" where
  "argv_strings 0 memory = []"
| "argv_strings (Suc n) memory = (
     let arg = takeWhile (\<lambda>c. c \<noteq> NUL) memory
     in arg # argv_strings n (drop (length arg + 1) memory))"

text \<open>The null pointer that ends \<^verbatim>\<open>argv\<close> needs a place of its own.\<close>

definition argv_from_tokenized_line :: "string \<Rightarrow> nat \<Rightarrow> nat \<Rightarrow> string list option" where
  "argv_from_tokenized_line tokenized_line tokens max_args = (
     let argc = (if tokens < max_args then tokens else max_args)
     in do {
       kassert (argc < MAX_ARGS);
       Some (argv_strings argc (tokenized_line @ [NUL]))
     })"

subsection \<open>Commands\<close>

definition builtins :: "string list" where
  "builtins = [''cat'', ''cd'', ''clear'', ''echo'', ''ls'', ''mkdir'', ''rm'', ''touch'']"

datatype shell_action =
    NoCommand
  | BuiltinCommand nat "string list"
  | RunProgram string "string list"

definition run_builtin_command :: "string \<Rightarrow> nat option" where
  "run_builtin_command command = (
     let i = length (takeWhile (\<lambda>b. b \<noteq> command) builtins)
     in if i < length builtins then Some i else None)"

text \<open>The path of a program has 256 bytes; \<^verbatim>\<open>strncat\<close> is given the size of the whole array.\<close>

definition program_path :: "string \<Rightarrow> string option" where
  "program_path command =
     (if command \<noteq> [] \<and> hd command = CHR ''/'' then do { kassert (length command < 256); Some command }
      else do { kassert (length ''/bina/'' + length command < 256); Some (''/bina/'' @ command) })"

definition shell_command :: "string \<Rightarrow> shell_action option" where
  "shell_command line = (
     let (tokens, tokenized_line) = tokenize line
     in do {
       argv \<leftarrow> argv_from_tokenized_line tokenized_line tokens MAX_ARGS;
       if tokens = 0 then Some NoCommand
       else (case run_builtin_command (hd argv) of
               Some i \<Rightarrow> Some (BuiltinCommand i argv)
             | None \<Rightarrow> do { path \<leftarrow> program_path (hd argv); Some (RunProgram path argv) })
     })"

subsection \<open>Lines of words\<close>

text \<open>A line of words, each with the number of extra blanks before it.\<close>

definition is_word :: "string \<Rightarrow> bool" where
  "is_word w \<longleftrightarrow> w \<noteq> [] \<and> CHR '' '' \<notin> set w \<and> NUL \<notin> set w"

definition blanks :: "nat \<Rightarrow> string" where
  "blanks k = replicate k (CHR '' '')"

fun line_of :: "(nat \<times> string) list \<Rightarrow> string" where
  "line_of [] = []"
| "line_of [(k, w)] = blanks k @ w"
| "line_of ((k, w) # ws) = blanks k @ w @ CHR '' '' # line_of ws"

fun cut_line :: "(nat \<times> string) list \<Rightarrow> string" where
  "cut_line [] = []"
| "cut_line [(k, w)] = blanks k @ w"
| "cut_line ((k, w) # ws) = blanks k @ w @ NUL # cut_line ws"

lemma takeWhile_blanks [simp]:
  "takeWhile (\<lambda>c. c = CHR '' '') (blanks k @ xs) = blanks k @ takeWhile (\<lambda>c. c = CHR '' '') xs"
  "dropWhile (\<lambda>c. c = CHR '' '') (blanks k @ xs) = dropWhile (\<lambda>c. c = CHR '' '') xs"
  by (induction k) (simp_all add: blanks_def)

lemma word_starts:
  assumes "is_word w"
  shows "takeWhile (\<lambda>c. c = CHR '' '') (w @ xs) = []" "dropWhile (\<lambda>c. c = CHR '' '') (w @ xs) = w @ xs"
  using assms by (cases w; auto simp: is_word_def)+

lemma word_ends:
  assumes "is_word w"
  shows "takeWhile (\<lambda>c. c \<noteq> CHR '' '') (w @ CHR '' '' # xs) = w" "dropWhile (\<lambda>c. c \<noteq> CHR '' '') (w @ CHR '' '' # xs) = CHR '' '' # xs"
    "takeWhile (\<lambda>c. c \<noteq> CHR '' '') w = w" "dropWhile (\<lambda>c. c \<noteq> CHR '' '') w = []"
proof -
  have "\<forall>c \<in> set w. c \<noteq> CHR '' ''" using assms by (auto simp: is_word_def)
  then show "takeWhile (\<lambda>c. c \<noteq> CHR '' '') (w @ CHR '' '' # xs) = w" "dropWhile (\<lambda>c. c \<noteq> CHR '' '') (w @ CHR '' '' # xs) = CHR '' '' # xs"
    "takeWhile (\<lambda>c. c \<noteq> CHR '' '') w = w" "dropWhile (\<lambda>c. c \<noteq> CHR '' '') w = []" by simp_all
qed

lemma tokenize_word:
  assumes "is_word w"
  shows "tokenize (blanks k @ w) = (1, blanks k @ w)"
    "tokenize (blanks k @ w @ CHR '' '' # xs) = (let (n, ys) = tokenize xs in (n + 1, blanks k @ w @ NUL # ys))"
proof -
  have "w \<noteq> []" using assms by (simp add: is_word_def)
  then show "tokenize (blanks k @ w) = (1, blanks k @ w)"
    using word_starts [OF assms, of "[]"]
    by (simp add: tokenize.simps [of "blanks k @ w"] Let_def word_ends [OF assms])
  show "tokenize (blanks k @ w @ CHR '' '' # xs) = (let (n, ys) = tokenize xs in (n + 1, blanks k @ w @ NUL # ys))"
    using \<open>w \<noteq> []\<close>
    by (simp add: tokenize.simps [of "blanks k @ w @ CHR '' '' # xs"] Let_def word_starts [OF assms] word_ends [OF assms])
qed

lemma tokenize_line: "\<forall>(k, w) \<in> set ws. is_word w \<Longrightarrow> tokenize (line_of ws) = (length ws, cut_line ws)"
proof (induction ws rule: line_of.induct)
  case 1
  show ?case by (subst tokenize.simps) simp
qed (simp_all add: tokenize_word)

lemma argv_of_cut_line:
  assumes "\<forall>(k, w) \<in> set ws. is_word w" and "n \<le> length ws"
  shows "argv_strings n (cut_line ws @ [NUL]) = map (\<lambda>(k, w). blanks k @ w) (take n ws)"
  using assms
proof (induction ws arbitrary: n rule: cut_line.induct)
  case (2 k w)
  have "\<forall>c \<in> set (blanks k @ w). c \<noteq> NUL" using 2(1) by (auto simp: is_word_def blanks_def)
  then have "takeWhile (\<lambda>c. c \<noteq> NUL) ((blanks k @ w) @ [NUL]) = blanks k @ w" by simp
  then show ?case using 2 by (cases n) (simp_all add: Let_def)
next
  case (3 k w v ws)
  have "\<forall>c \<in> set (blanks k @ w). c \<noteq> NUL" using 3(2) by (auto simp: is_word_def blanks_def)
  then have "takeWhile (\<lambda>c. c \<noteq> NUL) ((blanks k @ w) @ NUL # cut_line (v # ws) @ [NUL]) = blanks k @ w" by simp
  then show ?case using 3 by (cases n) (auto simp: Let_def)
qed simp

text \<open>
  C21: What the shell makes of every line.  Of words that are separated by one blank each, it makes exactly these
  arguments; but every further blank, and every blank at the start of the line, becomes part of the word behind it,
  so that a line with a leading blank never names a command of the shell; and a line of 16 words or more makes it
  write behind the end of its array of arguments.
\<close>
theorem shell_splits_line:
  assumes "\<forall>(k, w) \<in> set ws. is_word w"
  shows "shell_command (line_of ws) =
    (if length ws \<ge> 16 then None
     else (case map (\<lambda>(k, w). blanks k @ w) ws of
             [] \<Rightarrow> Some NoCommand
           | arg # args \<Rightarrow>
               (case run_builtin_command arg of
                  Some i \<Rightarrow> Some (BuiltinCommand i (arg # args))
                | None \<Rightarrow> map_option (\<lambda>path. RunProgram path (arg # args)) (program_path arg))))"
proof (cases "length ws \<ge> 16")
  case True
  then show ?thesis
    by (simp add: shell_command_def tokenize_line [OF assms] argv_from_tokenized_line_def MAX_ARGS_def kassert_def)
next
  case False
  have "argv_strings (length ws) (cut_line ws @ [NUL]) = map (\<lambda>(k, w). blanks k @ w) ws"
    using argv_of_cut_line [OF assms] by simp
  then have "shell_command (line_of ws) = (if ws = [] then Some NoCommand
      else let argv = map (\<lambda>(k, w). blanks k @ w) ws
        in (case run_builtin_command (hd argv) of
              Some i \<Rightarrow> Some (BuiltinCommand i argv)
            | None \<Rightarrow> map_option (\<lambda>path. RunProgram path argv) (program_path (hd argv))))"
    using False by (simp add: shell_command_def tokenize_line [OF assms] argv_from_tokenized_line_def MAX_ARGS_def
        kassert_def Let_def map_option_case cong: option.case_cong split: Option.bind_split)
  then show ?thesis using False by (cases ws) (auto split: option.split)
qed

theorem shell_splits_line_witness:
  "shell_command ''ls /tmp'' = Some (BuiltinCommand 4 [''ls'', ''/tmp'']) \<and>
   shell_command '' ls /tmp'' = Some (RunProgram ''/bina/ ls'' ['' ls'', ''/tmp''])"
  using shell_splits_line [of "[(0, ''ls''), (0, ''/tmp'')]"] shell_splits_line [of "[(1, ''ls''), (0, ''/tmp'')]"]
  by (simp add: is_word_def blanks_def run_builtin_command_def builtins_def program_path_def kassert_def)

end
