(* ===== verification/ArrayUtils.thy ===== *)
theory ArrayUtils
  imports Prelude "HOL-Library.Multiset"
begin

text \<open>
  The array helpers of \<^verbatim>\<open>kernel/lib/arrayutils.h\<close>.  The array is a list of at least \<open>n\<close> elements; \<open>n\<close> is the
  \<^verbatim>\<open>size\<close> argument, which is also the answer of a search that finds nothing.
\<close>

definition array_find :: "'a list \<Rightarrow> nat \<Rightarrow> 'a \<Rightarrow> nat" where
  "array_find a n x = length (takeWhile (\<lambda>y. y \<noteq> x) (take n a))"

definition array_remove_first :: "'a list \<Rightarrow> nat \<Rightarrow> 'a \<Rightarrow> bool \<times> 'a list" where
  "array_remove_first a n x = (
     let i = array_find a n x
     in if i = n then (False, a) else (True, fold (\<lambda>j a. a[j := a ! Suc j]) [i ..< n - 1] a))"

definition array_swap_remove :: "'a list \<Rightarrow> nat \<Rightarrow> 'a \<Rightarrow> bool \<times> 'a list" where
  "array_swap_remove a n x = (
     let i = array_find a n x
     in if i = n then (False, a) else (True, a[i := a ! (n - 1)]))"

lemma array_find_le: "array_find a n x \<le> n"
  unfolding array_find_def by (rule order_trans [OF length_takeWhile_le]) simp

lemma array_find_eq:
  assumes "n \<le> length a"
  shows "array_find a n x = n \<longleftrightarrow> x \<notin> set (take n a)"
proof -
  have "length (takeWhile (\<lambda>y. y \<noteq> x) (take n a)) = n \<longleftrightarrow> takeWhile (\<lambda>y. y \<noteq> x) (take n a) = take n a"
    using assms by (metis length_take min.absorb2 takeWhile_eq_take take_all order_refl)
  then show ?thesis unfolding array_find_def by (auto simp: takeWhile_eq_all_conv)
qed

lemma array_find_nth:
  assumes "n \<le> length a" and "array_find a n x \<noteq> n"
  shows "array_find a n x < n \<and> a ! array_find a n x = x"
proof -
  have less: "array_find a n x < n" using array_find_le [of a n x] assms(2) by simp
  then have "(\<lambda>y. y \<noteq> x) (take n a ! array_find a n x) = False"
    using nth_length_takeWhile [of "\<lambda>y. y \<noteq> x" "take n a"] assms(1) by (simp add: array_find_def)
  then show ?thesis using less by simp
qed

lemma length_shift: "length (fold (\<lambda>j a. a[j := a ! Suc j]) js a) = length a"
  by (induction js arbitrary: a) simp_all

lemma nth_shift:
  assumes "i \<le> m" and "m < length a" and "k < length a"
  shows "fold (\<lambda>j a. a[j := a ! Suc j]) [i..<m] a ! k = (if i \<le> k \<and> k < m then a ! Suc k else a ! k)"
  using assms
proof (induction "m - i" arbitrary: i a)
  case (Suc d)
  then have up: "[i..<m] = i # [Suc i..<m]" by (simp add: upt_conv_Cons)
  show ?case unfolding up using Suc.hyps(1) [of "Suc i" "a[i := a ! Suc i]"] Suc.hyps(2) Suc.prems
    by (cases "k = i") auto
qed auto

text \<open>Removing an element takes its first occurrence out of the first \<open>n\<close>; a swap removal fills the gap with the last.\<close>

lemma array_remove_first_spec:
  assumes n: "n \<le> length a" and x: "x \<in> set (take n a)"
  shows "\<exists>a'. array_remove_first a n x = (True, a') \<and> take (n - 1) a' = remove1 x (take n a)"
proof -
  let ?i = "array_find a n x" let ?a = "fold (\<lambda>j a. a[j := a ! Suc j]) [?i ..< n - 1] a"
  have ne: "?i \<noteq> n" using array_find_eq [OF n] x by simp
  then have i: "?i < n" "a ! ?i = x" using array_find_nth [OF n] by auto
  obtain us vs where split: "take n a = us @ x # vs" "x \<notin> set us" using split_list_first [OF x] by blast
  have "takeWhile (\<lambda>y. y \<noteq> x) (us @ x # vs) = us" by (subst takeWhile_append2) (use split(2) in auto)
  then have us: "?i = length us" by (simp add: array_find_def split(1))
  have len: "n = length us + Suc (length vs)" using arg_cong [OF split(1), of length] n by simp
  have "take (n - 1) ?a = us @ vs"
  proof (rule nth_equalityI)
    show "length (take (n - 1) ?a) = length (us @ vs)" using n len by (simp add: length_shift)
    fix k assume "k < length (take (n - 1) ?a)"
    then have k: "k < n - 1" "k < length a" by (simp_all add: length_shift)
    have nth: "?a ! k = (if ?i \<le> k \<and> k < n - 1 then a ! Suc k else a ! k)" using i(1) n k by (intro nth_shift) auto
    have a: "a ! j = (us @ x # vs) ! j" if "j < n" for j using that split(1) by (metis nth_take)
    show "take (n - 1) ?a ! k = (us @ vs) ! k"
      using k(1) nth a [of k] a [of "Suc k"] us by (auto simp: nth_append nth_Cons' Suc_diff_le)
  qed
  moreover have "remove1 x (take n a) = us @ vs" using split by (simp add: remove1_append)
  ultimately show ?thesis using ne by (simp add: array_remove_first_def Let_def)
qed

lemma array_swap_remove_spec:
  assumes n: "n \<le> length a" and x: "x \<in> set (take n a)"
  shows "\<exists>a'. array_swap_remove a n x = (True, a') \<and> mset (take (n - 1) a') = mset (remove1 x (take n a))"
proof -
  let ?i = "array_find a n x"
  have ne: "?i \<noteq> n" using array_find_eq [OF n] x by simp
  then have i: "?i < n" "a ! ?i = x" using array_find_nth [OF n] by auto
  then have n1: "n - 1 < length a" "Suc (n - 1) = n" using n by auto
  have "take n a = take (n - 1) a @ [a ! (n - 1)]" using take_Suc_conv_app_nth [OF n1(1)] n1(2) by simp
  then have m: "mset (take n a) = add_mset (a ! (n - 1)) (mset (take (n - 1) a))" by simp
  have "mset (take (n - 1) (a[?i := a ! (n - 1)])) = mset (take n a) - {#x#}"
  proof (cases "?i = n - 1")
    case True
    then show ?thesis using m i by (simp add: take_update_swap [symmetric])
  next
    case False
    then have "?i < n - 1" using i by simp
    then have "?i < length (take (n - 1) a)" "take (n - 1) a ! ?i = x" using i n1 by simp_all
    moreover from this have "x \<in># mset (take (n - 1) a)" by (metis nth_mem set_mset_mset)
    ultimately show ?thesis using m by (simp add: take_update_swap mset_update)
  qed
  then show ?thesis using ne by (simp add: array_swap_remove_def Let_def)
qed

end
