(* ===== verification/Path.thy ===== *)
theory Path
  imports KernelError
begin

text \<open>
  Paths (\<^verbatim>\<open>kernel/vfs/fs.cpp\<close> and \<^verbatim>\<open>kernel/lib/more_string.cpp\<close>).  A C string is the list of its characters
  without the terminator; a canonicalized path is a buffer that is read up to two terminators in a row, and
  stays the list of its bytes.  \<open>None\<close> is an access outside the buffer or a failing assertion.
\<close>

abbreviation NUL :: char where "NUL \<equiv> CHR 0x00"
abbreviation SLASH :: char where "SLASH \<equiv> CHR 0x2F"
abbreviation DOT :: char where "DOT \<equiv> CHR 0x2E"

subsection \<open>Strings\<close>

text \<open>\<^verbatim>\<open>strnlen\<close> reads \<open>s[maxlen]\<close> before it compares with the limit.\<close>

definition strnlen :: "string \<Rightarrow> nat \<Rightarrow> nat" where
  "strnlen s maxlen = min (length s) maxlen"

definition tolower :: "char \<Rightarrow> nat" where
  "tolower c = (let n = of_char c in if 65 \<le> n \<and> n \<le> 90 then n + 32 else n)"

fun strcasecmp :: "string \<Rightarrow> string \<Rightarrow> int" where
  "strcasecmp (c # s1) (d # s2) =
     (let diff = int (tolower c) - int (tolower d) in if diff \<noteq> 0 then diff else strcasecmp s1 s2)"
| "strcasecmp [] s2 = - int (case s2 of [] \<Rightarrow> 0 | d # _ \<Rightarrow> tolower d)"
| "strcasecmp s1 [] = int (case s1 of [] \<Rightarrow> 0 | c # _ \<Rightarrow> tolower c)"

fun strncasecmp :: "string \<Rightarrow> string \<Rightarrow> nat \<Rightarrow> int" where
  "strncasecmp s1 s2 0 = 0"
| "strncasecmp s1 s2 (Suc n) =
     (let c1 = (case s1 of [] \<Rightarrow> 0 | c # _ \<Rightarrow> tolower c); c2 = (case s2 of [] \<Rightarrow> 0 | d # _ \<Rightarrow> tolower d)
      in if c1 \<noteq> c2 then int c1 - int c2 else if c1 = 0 then 0 else strncasecmp (tl s1) (tl s2) n)"

definition startswith :: "string \<Rightarrow> string \<Rightarrow> bool" where
  "startswith s prefix \<longleftrightarrow> take (length prefix) s = prefix"

subsection \<open>Canonicalized paths\<close>

definition MAX_PATH_LEN :: nat where "MAX_PATH_LEN = 256"

definition path_is_absolute :: "string \<Rightarrow> bool" where
  "path_is_absolute path \<longleftrightarrow> path \<noteq> [] \<and> hd path = SLASH"

fun canonicalized_path_strlen :: "string \<Rightarrow> nat option" where
  "canonicalized_path_strlen (c # d # r) =
     (if c \<noteq> NUL \<or> d \<noteq> NUL then map_option Suc (canonicalized_path_strlen (d # r)) else Some 0)"
| "canonicalized_path_strlen _ = None"

text \<open>The characters it prints; the buffer has 256 bytes, one of them for the terminator.\<close>

fun log_canonicalized_path :: "string \<Rightarrow> string option" where
  "log_canonicalized_path (c # d # r) =
     (if c \<noteq> NUL \<or> d \<noteq> NUL
      then map_option (\<lambda>s. (if c = NUL then SLASH else c) # s) (log_canonicalized_path (d # r)) else Some [])"
| "log_canonicalized_path _ = None"

definition canonicalized_path_startswith :: "string \<Rightarrow> string \<Rightarrow> bool option" where
  "canonicalized_path_startswith path prefix = do {
     pathlen \<leftarrow> canonicalized_path_strlen path;
     prefixlen \<leftarrow> canonicalized_path_strlen prefix;
     Some (if pathlen < prefixlen then False else take prefixlen path = take prefixlen prefix)
   }"

fun skip_separators :: "string \<Rightarrow> string" where
  "skip_separators (c # d # r) = (if c = SLASH \<and> d = SLASH then skip_separators (d # r) else c # d # r)"
| "skip_separators p = p"

definition memset_chars :: "nat \<Rightarrow> char \<Rightarrow> nat \<Rightarrow> string \<Rightarrow> string" where
  "memset_chars start ch n buf = take start buf @ replicate n ch @ drop (start + n) buf"

text \<open>The first loop: \<open>lcs\<close> and \<open>lce\<close> are \<^verbatim>\<open>last_component_start\<close> and \<^verbatim>\<open>last_component_end\<close>.\<close>

function dotdot_loop :: "nat \<Rightarrow> nat \<Rightarrow> nat \<Rightarrow> string \<Rightarrow> string option" where
  "dotdot_loop src lcs lce buf =
     (if \<not> src < length buf then None
      else if buf ! src = NUL then Some buf
      else
        let (lcs, lce) = (if buf ! src = SLASH then (lce, src) else (lcs, lce))
        in if \<not> src + 1 < length buf then None
           else if buf ! src \<noteq> DOT \<or> buf ! (src + 1) \<noteq> DOT then dotdot_loop (src + 1) lcs lce buf
           else dotdot_loop (src + 2) lcs lce (memset_chars lcs SLASH (src + 1 - lcs) buf))"
  by pat_completeness auto
termination
proof (relation "measure (\<lambda>(src, lcs, lce, buf). length buf - src)", goal_cases)
  case (3 src lcs lce buf x lcs' lce')
  then have "length (memset_chars lcs' SLASH (src + 1 - lcs') buf) = length buf"
    by (cases "lcs' \<le> src") (auto simp: memset_chars_def)
  then show ?case using 3 by simp
qed auto

declare dotdot_loop.simps [simp del]

text \<open>The second loop.\<close>

fun slash_dot :: "string \<Rightarrow> string" where
  "slash_dot (c # d # r) =
     (if c \<noteq> NUL \<and> d \<noteq> NUL
      then c # slash_dot ((if c = SLASH \<and> d = DOT then SLASH else d) # r) else c # d # r)"
| "slash_dot buf = buf"

text \<open>The third loop; the \<^verbatim>\<open>memmove\<close> takes everything up to the end of the buffer.\<close>

function collapse_loop :: "nat \<Rightarrow> string \<Rightarrow> string option" where
  "collapse_loop src buf =
     (if \<not> src < length buf then None
      else if buf ! src = NUL then Some buf
      else if buf ! src \<noteq> SLASH then collapse_loop (src + 1) buf
      else
        let n = length (takeWhile (\<lambda>c. c = SLASH) (drop src buf)); temp = src + n
        in if \<not> temp < length buf then None
           else if n = 1 then collapse_loop (src + 1) buf
           else collapse_loop (src + 1)
             (take (src + 1) buf @ drop temp buf @ drop (src + 1 + (length buf - temp)) buf))"
  by pat_completeness auto
termination
proof (relation "measure (\<lambda>(src, buf). length buf - src)", goal_cases)
  case (4 src buf n temp)
  then have "0 < n" by (cases "drop src buf") (auto simp: hd_drop_conv_nth [symmetric])
  moreover have "temp < length buf" "src < length buf" "temp = src + n" using 4 by auto
  ultimately show ?case by simp
qed auto

declare collapse_loop.simps [simp del]

text \<open>The second argument says whether \<^verbatim>\<open>malloc\<close> succeeds; otherwise the result is a null pointer.\<close>

definition canonicalize_path :: "bool \<Rightarrow> string \<Rightarrow> string option option" where
  "canonicalize_path malloc_ok path = (
     let path = skip_separators path; pathlen = length path
     in if \<not> malloc_ok then Some None
        else do {
          cpath \<leftarrow> dotdot_loop 0 0 0 (path @ [NUL, NUL]);
          let cpath = slash_dot cpath;
          cpath \<leftarrow> collapse_loop 0 cpath;
          let cpath_len = length (takeWhile (\<lambda>c. c \<noteq> NUL) cpath);
          check (cpath_len + 1 < length cpath);
          let cpath = map (\<lambda>c. if c = SLASH then NUL else c) (take cpath_len cpath) @ drop cpath_len cpath;
          Some (Some (cpath[cpath_len := NUL, cpath_len + 1 := NUL]))
        })"

fun decanonicalize_loop :: "string \<Rightarrow> string option" where
  "decanonicalize_loop (c # d # r) =
     (if c \<noteq> NUL \<or> d \<noteq> NUL
      then map_option (\<lambda>s. (if c = NUL then SLASH else c) # s) (decanonicalize_loop (d # r))
      else Some (c # d # r))"
| "decanonicalize_loop _ = None"

definition decanonicalize_path :: "string \<Rightarrow> string option" where
  "decanonicalize_path path = do {
     check (2 \<le> length path);
     if path ! 0 = NUL \<and> path ! 1 = NUL then Some (path[0 := SLASH]) else decanonicalize_loop path
   }"

text \<open>The result of \<^verbatim>\<open>pathjoin\<close> is the string without its terminator.\<close>

definition pathjoin :: "bool \<Rightarrow> string \<Rightarrow> string \<Rightarrow> string option" where
  "pathjoin malloc_ok path1 path2 = (
     let len1 = strnlen path1 MAX_PATH_LEN; len2 = strnlen path2 MAX_PATH_LEN
     in if len1 + len2 + 2 > MAX_PATH_LEN then None
        else if \<not> malloc_ok then None
        else
          let result = take len1 path1;
              result = (if len1 > 0 \<and> result ! (len1 - 1) \<noteq> SLASH then result @ [SLASH] else result)
          in Some (result @ take len2 path2))"


subsection \<open>What the loops do to a path of ordinary components\<close>

text \<open>
  An ordinary component does not begin with a dot and has no two dots in a row.
\<close>

fun two_dots :: "string \<Rightarrow> bool" where
  "two_dots (c # d # r) \<longleftrightarrow> (c = DOT \<and> d = DOT) \<or> two_dots (d # r)"
| "two_dots _ \<longleftrightarrow> False"

definition plain :: "string \<Rightarrow> bool" where
  "plain c \<longleftrightarrow> c \<noteq> [] \<and> hd c \<noteq> DOT \<and> NUL \<notin> set c \<and> SLASH \<notin> set c \<and> \<not> two_dots c"

text \<open>The paths on which \<open>..\<close> is understood: each follows an ordinary component directly.\<close>

fun dots_follow_names :: "string list \<Rightarrow> bool" where
  "dots_follow_names [] \<longleftrightarrow> True"
| "dots_follow_names [c] \<longleftrightarrow> plain c \<or> c = ''.''"
| "dots_follow_names (c # d # cs) \<longleftrightarrow>
     (if d = ''..'' then plain c \<and> dots_follow_names cs
      else (plain c \<or> c = ''.'') \<and> dots_follow_names (d # cs))"

definition path_of :: "string list \<Rightarrow> string" where
  "path_of cs = concat (map (\<lambda>c. SLASH # c) cs)"

definition cpath_of :: "string list \<Rightarrow> string" where
  "cpath_of cs = concat (map (\<lambda>c. NUL # c) cs)"

text \<open>The meaning of a path: the components on a stack.\<close>

fun resolve :: "string list \<Rightarrow> string list \<Rightarrow> string list" where
  "resolve st [] = st"
| "resolve st (c # cs) =
     (if c = ''.'' then resolve st cs
      else if c = ''..'' then resolve (butlast st) cs
      else resolve (st @ [c]) cs)"

lemma plain_not_dot: "plain c \<Longrightarrow> c \<noteq> ''.'' \<and> c \<noteq> ''..''"
  by (auto simp: plain_def)

text \<open>The first loop over one component.\<close>

lemma dotdot_skip:
  "NUL \<notin> set nm \<Longrightarrow> SLASH \<notin> set nm \<Longrightarrow> \<not> two_dots nm \<Longrightarrow> rest \<noteq> [] \<Longrightarrow> hd rest \<noteq> DOT \<Longrightarrow>
   dotdot_loop (length pre) lcs lce (pre @ nm @ rest) =
   dotdot_loop (length pre + length nm) lcs lce (pre @ nm @ rest)"
proof (induction nm arbitrary: pre)
  case (Cons c nm)
  have "(pre @ (c # nm) @ rest) ! (length pre + 1) = hd (nm @ rest)"
    using Cons.prems(4) by (cases nm) (auto simp: nth_append hd_conv_nth)
  moreover have "\<not> (c = DOT \<and> hd (nm @ rest) = DOT)"
    using Cons.prems(3,5) by (cases nm) auto
  ultimately have "dotdot_loop (length pre) lcs lce (pre @ (c # nm) @ rest) =
      dotdot_loop (length pre + 1) lcs lce (pre @ (c # nm) @ rest)"
    using Cons.prems by (subst dotdot_loop.simps) (auto simp: nth_append)
  moreover have "\<not> two_dots nm" using Cons.prems(3) by (cases nm) auto
  ultimately show ?case using Cons.IH [of "pre @ [c]"] Cons.prems by simp
qed simp

lemma dotdot_slash:
  assumes "rest \<noteq> []"
  shows "dotdot_loop (length pre) lcs lce (pre @ SLASH # rest) =
    dotdot_loop (length (pre @ [SLASH])) lce (length pre) ((pre @ [SLASH]) @ rest)"
  using assms by (subst dotdot_loop.simps) (simp add: nth_append Let_def)

lemma dotdot_two_dots:
  assumes "lcs \<le> length pre" and "t \<noteq> []"
  shows "dotdot_loop (length pre) lcs lce (pre @ DOT # DOT # t) =
    dotdot_loop (length pre + 2) lcs lce
      (take lcs pre @ replicate (length pre + 1 - lcs) SLASH @ DOT # t)"
  using assms by (subst dotdot_loop.simps) (simp add: nth_append Let_def memset_chars_def)

text \<open>What is left of the components after the first two loops.\<close>

fun erased :: "string list \<Rightarrow> string" where
  "erased [] = []"
| "erased [c] = SLASH # (if c = ''.'' then [SLASH] else c)"
| "erased (c # d # cs) =
     (if d = ''..'' then replicate (length c + 4) SLASH @ erased cs
      else SLASH # (if c = ''.'' then [SLASH] else c) @ erased (d # cs))"

fun half_erased :: "string list \<Rightarrow> string" where
  "half_erased [] = []"
| "half_erased [c] = SLASH # c"
| "half_erased (c # d # cs) =
     (if d = ''..'' then replicate (length c + 3) SLASH @ DOT # half_erased cs
      else SLASH # c @ half_erased (d # cs))"

lemma hd_path_of: "hd (path_of cs @ NUL # t) \<noteq> DOT" "path_of cs @ NUL # t \<noteq> []"
  by (cases cs; simp add: path_of_def)+

lemma dotdot_component:
  assumes "plain c \<or> c = ''.''" and "rest \<noteq> []" and "hd rest \<noteq> DOT"
  shows "dotdot_loop (length pre) lcs lce (pre @ SLASH # c @ rest) =
    dotdot_loop (length (pre @ SLASH # c)) lce (length pre) ((pre @ SLASH # c) @ rest)"
proof -
  have "NUL \<notin> set c \<and> SLASH \<notin> set c \<and> \<not> two_dots c" using assms(1) by (auto simp: plain_def)
  then show ?thesis
    using dotdot_slash [of "c @ rest" pre lcs lce] dotdot_skip [of c rest "pre @ [SLASH]" lce "length pre"] assms(2,3)
    by simp
qed

lemma dotdot_loop_erases:
  "dots_follow_names cs \<Longrightarrow>
   dotdot_loop (length pre) lcs lce (pre @ path_of cs @ NUL # t) = Some (pre @ half_erased cs @ NUL # t)"
proof (induction cs arbitrary: pre lcs lce rule: dots_follow_names.induct)
  case 1
  show ?case by (subst dotdot_loop.simps) (simp add: path_of_def nth_append)
next
  case (2 c)
  have "dotdot_loop (length (pre @ SLASH # c)) lce (length pre) ((pre @ SLASH # c) @ NUL # t) =
      Some ((pre @ SLASH # c) @ NUL # t)"
    by (subst dotdot_loop.simps) (simp add: nth_append)
  then show ?case
    using dotdot_component [of c "NUL # t" pre lcs lce] 2 by (simp add: path_of_def)
next
  case (3 c d cs)
  show ?case
  proof (cases "d = ''..''")
    case True
    then have c: "plain c" "dots_follow_names cs" using "3.prems" by auto
    let ?rest = "path_of cs @ NUL # t"
    let ?pre = "pre @ SLASH # c @ [SLASH]"
    have "dotdot_loop (length pre) lcs lce (pre @ path_of (c # d # cs) @ NUL # t) =
        dotdot_loop (length ?pre) (length pre) (length pre + length c + 1) (?pre @ DOT # DOT # ?rest)"
      using dotdot_component [of c "SLASH # DOT # DOT # ?rest" pre lcs lce] c(1)
        dotdot_slash [of "DOT # DOT # ?rest" "pre @ SLASH # c" lce "length pre"] True
      by (simp add: path_of_def)
    also have "\<dots> = dotdot_loop (length pre + length c + 4) (length pre) (length pre + length c + 1)
        ((pre @ replicate (length c + 3) SLASH @ [DOT]) @ ?rest)"
      by (subst dotdot_two_dots) (simp_all add: numeral_eq_Suc)
    also have "\<dots> = Some ((pre @ replicate (length c + 3) SLASH @ [DOT]) @ half_erased cs @ NUL # t)"
      using "3.IH"(1) [OF True c(2), of "pre @ replicate (length c + 3) SLASH @ [DOT]"]
      by (simp add: numeral_eq_Suc)
    finally show ?thesis using True by simp
  next
    case False
    then have c: "plain c \<or> c = ''.''" "dots_follow_names (d # cs)" using "3.prems" by auto
    then show ?thesis
      using dotdot_component [of c "path_of (d # cs) @ NUL # t" pre lcs lce] False
        "3.IH"(2) [OF False c(2), of "pre @ SLASH # c"] by (simp add: path_of_def)
  qed
qed


text \<open>The second loop.\<close>

lemma slash_dot_other: "c \<noteq> SLASH \<Longrightarrow> c \<noteq> NUL \<Longrightarrow> slash_dot (c # rest) = c # slash_dot rest"
proof (cases rest)
  case (Cons d r)
  assume "c \<noteq> SLASH" "c \<noteq> NUL"
  then show ?thesis using Cons by (cases r) auto
qed simp

lemma slash_dot_slash: "rest \<noteq> [] \<Longrightarrow> hd rest \<noteq> DOT \<Longrightarrow> slash_dot (SLASH # rest) = SLASH # slash_dot rest"
proof (cases rest)
  case (Cons d r)
  assume "hd rest \<noteq> DOT"
  then show ?thesis using Cons by (cases r) auto
qed simp

lemma slash_dot_dot: "slash_dot (SLASH # DOT # rest) = SLASH # slash_dot (SLASH # rest)"
  by simp

lemma slash_dot_nul: "slash_dot (NUL # rest) = NUL # rest"
  by (cases rest) auto

declare slash_dot.simps [simp del]

lemma slash_dot_name:
  "NUL \<notin> set nm \<Longrightarrow> SLASH \<notin> set nm \<Longrightarrow> slash_dot (nm @ rest) = nm @ slash_dot rest"
  by (induction nm) (auto simp: slash_dot_other)

lemma slash_dot_slashes:
  "rest \<noteq> [] \<Longrightarrow> hd rest \<noteq> DOT \<Longrightarrow> slash_dot (replicate n SLASH @ rest) = replicate n SLASH @ slash_dot rest"
proof (induction n)
  case (Suc n)
  then show ?case by (cases n) (auto simp: slash_dot_slash)
qed simp

lemma hd_half_erased: "hd (half_erased cs @ NUL # t) \<noteq> DOT" "half_erased cs @ NUL # t \<noteq> []"
  by (cases cs rule: half_erased.cases; auto simp: numeral_eq_Suc)+

lemma slash_dot_plain:
  assumes "plain c" and "rest \<noteq> []" and "hd rest \<noteq> DOT"
  shows "slash_dot (SLASH # c @ rest) = SLASH # c @ slash_dot rest"
  using assms by (subst slash_dot_slash) (auto simp: plain_def slash_dot_name hd_append)

lemma slash_dot_single:
  assumes "rest \<noteq> []" and "hd rest \<noteq> DOT"
  shows "slash_dot (SLASH # DOT # rest) = SLASH # SLASH # slash_dot rest"
  using assms by (simp add: slash_dot_dot slash_dot_slash)

lemma slash_dot_erases:
  "dots_follow_names cs \<Longrightarrow> slash_dot (half_erased cs @ NUL # t) = erased cs @ NUL # t"
proof (induction cs rule: dots_follow_names.induct)
  case 1
  show ?case by (simp add: slash_dot_nul)
next
  case (2 c)
  then show ?case
    using slash_dot_plain [of c "NUL # t"] slash_dot_single [of "NUL # t"] plain_not_dot [of c]
    by (auto simp: slash_dot_nul)
next
  case (3 c d cs)
  show ?case
  proof (cases "d = ''..''")
    case True
    let ?rest = "half_erased cs @ NUL # t"
    have "slash_dot (replicate (length c + 3) SLASH @ DOT # ?rest) =
        replicate (length c + 2) SLASH @ slash_dot (SLASH # DOT # ?rest)"
      using slash_dot_slashes [of "SLASH # DOT # ?rest" "length c + 2"]
      by (simp add: replicate_app_Cons_same numeral_eq_Suc)
    also have "\<dots> = replicate (length c + 4) SLASH @ slash_dot ?rest"
      using slash_dot_single [of ?rest] hd_half_erased [of cs t]
      by (simp add: replicate_app_Cons_same numeral_eq_Suc)
    finally show ?thesis using 3 True by simp
  next
    case False
    have rest: "half_erased (d # cs) @ NUL # t \<noteq> []" "hd (half_erased (d # cs) @ NUL # t) \<noteq> DOT"
      by (rule hd_half_erased)+
    show ?thesis
      using slash_dot_plain [OF _ rest, of c] slash_dot_single [OF rest] plain_not_dot [of c] 3 False by auto
  qed
qed

text \<open>The third loop.\<close>

fun squeeze :: "string \<Rightarrow> string" where
  "squeeze (c # d # r) = (if c = SLASH \<and> d = SLASH then squeeze (d # r) else c # squeeze (d # r))"
| "squeeze s = s"

lemma squeeze_slashes: "squeeze (SLASH # replicate n SLASH @ r) = squeeze (SLASH # r)"
  by (induction n) auto

lemma squeeze_other: "c \<noteq> SLASH \<Longrightarrow> squeeze (c # r) = c # squeeze r"
  by (cases r) auto

lemma squeeze_slash_other: "r = [] \<or> hd r \<noteq> SLASH \<Longrightarrow> squeeze (SLASH # r) = SLASH # squeeze r"
  by (cases r) auto

lemma takeWhile_run: "r = [] \<or> hd r \<noteq> x \<Longrightarrow> takeWhile (\<lambda>c. c = x) (replicate n x @ r) = replicate n x"
  by (induction n) (cases r, auto)

lemma collapse_loop_squeezes:
  "NUL \<notin> set s \<Longrightarrow>
   \<exists>rest. collapse_loop (length pre) (pre @ s @ NUL # t) = Some (pre @ squeeze s @ NUL # rest) \<and>
     length (squeeze s) + length rest = length s + length t \<and> length t \<le> length rest"
proof (induction s arbitrary: pre t rule: length_induct)
  case (1 s)
  show ?case
  proof (cases s)
    case Nil
    then show ?thesis by (subst collapse_loop.simps) (simp add: nth_append)
  next
    case (Cons c s')
    show ?thesis
    proof (cases "c = SLASH")
      case False
      have "c \<noteq> NUL" using "1.prems" Cons by auto
      then have "collapse_loop (length pre) (pre @ s @ NUL # t) =
          collapse_loop (length (pre @ [c])) ((pre @ [c]) @ s' @ NUL # t)"
        using False Cons by (subst collapse_loop.simps) (simp add: nth_append)
      moreover obtain rest where
        "collapse_loop (length (pre @ [c])) ((pre @ [c]) @ s' @ NUL # t) = Some ((pre @ [c]) @ squeeze s' @ NUL # rest)"
        "length (squeeze s') + length rest = length s' + length t" "length t \<le> length rest"
        using "1.IH" [rule_format, of s' "pre @ [c]" t] "1.prems" Cons by auto
      ultimately show ?thesis using Cons False by (simp add: squeeze_other)
    next
      case True
      define k where "k = length (takeWhile (\<lambda>c. c = SLASH) s')"
      define u where "u = dropWhile (\<lambda>c. c = SLASH) s'"
      have k: "takeWhile (\<lambda>c. c = SLASH) s' = replicate k SLASH"
        by (metis (full_types) k_def replicate_length_same set_takeWhileD)
      then have s': "s' = replicate k SLASH @ u"
        unfolding u_def by (metis takeWhile_dropWhile_id)
      have u: "u = [] \<or> hd u \<noteq> SLASH" unfolding u_def using hd_dropWhile [of "\<lambda>c. c = SLASH" s'] by blast
      have "takeWhile (\<lambda>c. c = SLASH) (SLASH # s' @ NUL # t) = replicate (Suc k) SLASH"
        using takeWhile_run [of "u @ NUL # t" SLASH "Suc k"] u unfolding s' by (cases u) auto
      define buf where "buf = pre @ s @ NUL # t"
      have s: "s = SLASH # replicate k SLASH @ u" using Cons True s' by simp
      have run: "length (takeWhile (\<lambda>c. c = SLASH) (drop (length pre) buf)) = Suc k"
        using \<open>takeWhile _ _ = replicate (Suc k) SLASH\<close> Cons True by (simp add: buf_def)
      have at: "length pre < length buf" "buf ! length pre = SLASH" "length pre + Suc k < length buf"
        by (simp_all add: buf_def s nth_append)
      have parts: "take (length pre + 1) buf = pre @ [SLASH]" "drop (length pre + Suc k) buf = u @ NUL # t"
        by (simp_all add: buf_def s)
      let ?tail = "if k = 0 then t else t @ drop (length pre + 1 + (length buf - (length pre + Suc k))) buf"
      have step: "collapse_loop (length pre) buf = collapse_loop (length (pre @ [SLASH])) ((pre @ [SLASH]) @ u @ NUL # ?tail)"
      proof (cases "k = 0")
        case True
        then show ?thesis using at run
          by (subst collapse_loop.simps) (simp add: Let_def, simp add: buf_def s)
      next
        case False
        then have "collapse_loop (length pre) buf = collapse_loop (length pre + 1)
            (take (length pre + 1) buf @ drop (length pre + Suc k) buf @
             drop (length pre + 1 + (length buf - (length pre + Suc k))) buf)"
          using at run by (subst collapse_loop.simps) (simp add: Let_def)
        then show ?thesis using False unfolding parts by simp
      qed
      have len: "length u < length s" "NUL \<notin> set u" using "1.prems" Cons s' by auto
      then obtain rest where
        "collapse_loop (length (pre @ [SLASH])) ((pre @ [SLASH]) @ u @ NUL # ?tail) =
           Some ((pre @ [SLASH]) @ squeeze u @ NUL # rest)"
        "length (squeeze u) + length rest = length u + length ?tail" "length ?tail \<le> length rest"
        using "1.IH" [rule_format, of u "pre @ [SLASH]" ?tail] by blast
      moreover have "length ?tail = k + length t" using at(3) by (cases "k = 0") auto
      moreover have "squeeze s = SLASH # squeeze u"
        using Cons True s' u squeeze_slashes [of k u] squeeze_slash_other [of u] by simp
      ultimately show ?thesis using step unfolding buf_def by (simp add: s)
    qed
  qed
qed


subsection \<open>Canonical paths are resolved paths\<close>

fun names_of :: "string list \<Rightarrow> string list" where
  "names_of [] = []"
| "names_of [c] = (if c = ''.'' then [] else [c])"
| "names_of (c # d # cs) =
     (if d = ''..'' then names_of cs else (if c = ''.'' then [] else [c]) @ names_of (d # cs))"

lemma resolve_names: "dots_follow_names cs \<Longrightarrow> resolve st cs = st @ names_of cs"
proof (induction cs arbitrary: st rule: dots_follow_names.induct)
  case (3 c d cs)
  show ?case
  proof (cases "d = ''..''")
    case True
    then show ?thesis using 3 plain_not_dot [of c] by auto
  next
    case False
    then show ?thesis using "3.IH"(2) [of st] "3.IH"(2) [of "st @ [c]"] "3.prems" plain_not_dot [of c] by auto
  qed
qed (auto dest: plain_not_dot)

lemma names_plain: "dots_follow_names cs \<Longrightarrow> c \<in> set (names_of cs) \<Longrightarrow> plain c"
  by (induction cs rule: dots_follow_names.induct) (auto split: if_splits)

lemma erased_slash: "cs \<noteq> [] \<Longrightarrow> \<exists>r. erased cs = SLASH # r"
  by (cases cs rule: erased.cases) (auto simp: numeral_eq_Suc)

lemma squeeze_run: "squeeze (replicate (Suc n) SLASH @ erased cs) = (if cs = [] then [SLASH] else squeeze (erased cs))"
  using squeeze_slashes [of n "erased cs"] erased_slash [of cs] by auto

lemma squeeze_name: "SLASH \<notin> set c \<Longrightarrow> squeeze (c @ r) = c @ squeeze r"
  by (induction c) (auto simp: squeeze_other)

lemma squeeze_plain: "plain c \<Longrightarrow> squeeze (SLASH # c @ r) = SLASH # c @ squeeze r"
  by (subst squeeze_slash_other) (auto simp: plain_def squeeze_name hd_append dest: hd_in_set)

lemma squeeze_erased:
  "dots_follow_names cs \<Longrightarrow> \<exists>tail. squeeze (erased cs) = path_of (names_of cs) @ tail \<and> (tail = [] \<or> tail = [SLASH])"
proof (induction cs rule: dots_follow_names.induct)
  case 1
  show ?case by (simp add: path_of_def)
next
  case (2 c)
  then show ?case using squeeze_plain [of c "[]"] plain_not_dot [of c] by (auto simp: path_of_def)
next
  case (3 c d cs)
  show ?case
  proof (cases "d = ''..''")
    case True
    have "squeeze (erased (c # d # cs)) = squeeze (replicate (Suc (length c + 3)) SLASH @ erased cs)"
      using True by (simp add: numeral_eq_Suc)
    then show ?thesis unfolding squeeze_run using 3 True by (auto simp: path_of_def)
  next
    case False
    have "squeeze (replicate (Suc 1) SLASH @ erased (d # cs)) = squeeze (erased (d # cs))"
      by (simp only: squeeze_run) simp
    then show ?thesis
      using squeeze_plain [of c "erased (d # cs)"] plain_not_dot [of c] 3 False by (auto simp: path_of_def)
  qed
qed

lemma skip_path_of: "dots_follow_names cs \<Longrightarrow> skip_separators (path_of cs) = path_of cs"
proof (cases cs)
  case (Cons c cs')
  assume "dots_follow_names cs"
  then have "plain c \<or> c = ''.''" using Cons by (cases cs') (auto split: if_splits)
  then obtain x xs where "c = x # xs" "x \<noteq> SLASH" by (cases c) (auto simp: plain_def)
  then show ?thesis by (simp add: Cons path_of_def)
qed (simp add: path_of_def)

lemma no_NUL_squeeze: "NUL \<notin> set s \<Longrightarrow> NUL \<notin> set (squeeze s)"
  by (induction s rule: squeeze.induct) auto

lemma no_NUL_erased: "dots_follow_names cs \<Longrightarrow> NUL \<notin> set (erased cs)"
  by (induction cs rule: dots_follow_names.induct) (auto simp: plain_def split: if_splits)

lemma map_path_of:
  assumes "\<And>c. c \<in> set cs \<Longrightarrow> SLASH \<notin> set c"
  shows "map (\<lambda>c. if c = SLASH then NUL else c) (path_of cs) = cpath_of cs"
  using assms
proof (induction cs)
  case (Cons c cs)
  have "map (\<lambda>c. if c = SLASH then NUL else c) c = c"
    using Cons.prems [of c] by (induction c) auto
  then show ?case using Cons by (simp add: path_of_def cpath_of_def)
qed (simp add: path_of_def cpath_of_def)

lemma canonicalize_components:
  assumes "dots_follow_names cs"
  shows "\<exists>rest. canonicalize_path True (path_of cs) =
    Some (Some (cpath_of (resolve [] cs) @ NUL # NUL # rest))"
proof -
  have first: "dotdot_loop 0 0 0 (path_of cs @ [NUL, NUL]) = Some (half_erased cs @ [NUL, NUL])"
    using dotdot_loop_erases [OF assms, of "[]" 0 0 "[NUL]"] by simp
  have second: "slash_dot (half_erased cs @ [NUL, NUL]) = erased cs @ [NUL, NUL]"
    using slash_dot_erases [OF assms, of "[NUL]"] by simp
  obtain r where third: "collapse_loop 0 (erased cs @ [NUL, NUL]) = Some (squeeze (erased cs) @ NUL # r)"
      and "1 \<le> length r"
    using collapse_loop_squeezes [OF no_NUL_erased [OF assms], of "[]" "[NUL]"] by auto
  then obtain x r' where r: "r = x # r'" by (cases r) auto
  obtain tail where tail: "squeeze (erased cs) = path_of (names_of cs) @ tail" "tail = [] \<or> tail = [SLASH]"
    using squeeze_erased [OF assms] by blast
  have "NUL \<notin> set (squeeze (erased cs))" using no_NUL_squeeze no_NUL_erased assms by blast
  then have len: "takeWhile (\<lambda>c. c \<noteq> NUL) (squeeze (erased cs) @ NUL # r) = squeeze (erased cs)"
    by (subst takeWhile_append2) auto
  have names: "map (\<lambda>c. if c = SLASH then NUL else c) (path_of (names_of cs)) = cpath_of (names_of cs)"
    using map_path_of names_plain [OF assms] unfolding plain_def by blast
  let ?w = "map (\<lambda>c. if c = SLASH then NUL else c) (squeeze (erased cs))"
  have "canonicalize_path True (path_of cs) = Some (Some (?w @ NUL # NUL # r'))"
    unfolding canonicalize_path_def Let_def skip_path_of [OF assms]
    by (simp add: first second third len [unfolded r] r list_update_append)
  moreover have "?w = cpath_of (resolve [] cs) @ map (\<lambda>c. if c = SLASH then NUL else c) tail"
    using names resolve_names [OF assms, of "[]"] tail(1) by simp
  ultimately show ?thesis using tail(2) by auto
qed

text \<open>
  C17: On an absolute path of ordinary names (names that do not begin with a dot and do not have two dots in a row) and
  \<open>.\<close>, in which every \<open>..\<close> directly follows an ordinary name, \<^verbatim>\<open>canonicalize_path\<close> gives the
  components that remain when they are resolved on a stack, each behind a terminator, and two terminators.  (On other
  paths it does not: \<open>second_dotdot_ignored\<close>, \<open>dot_file_renamed\<close>, \<open>dots_in_name\<close>.)
\<close>
theorem canonicalize_path_resolves:
  assumes "dots_follow_names cs"
  shows "\<exists>rest. canonicalize_path True (path_of cs) =
    Some (Some (cpath_of (resolve [] cs) @ NUL # NUL # rest))"
  using assms by (rule canonicalize_components)

theorem canonicalize_path_resolves_witness:
  "\<exists>rest. canonicalize_path True ''/usr/share/../bin/./sh'' =
     Some (Some ([NUL] @ ''usr'' @ [NUL] @ ''bin'' @ [NUL] @ ''sh'' @ NUL # NUL # rest))"
  using canonicalize_path_resolves [of "[''usr'', ''share'', ''..'', ''bin'', ''.'', ''sh'']"]
  by (simp add: plain_def path_of_def cpath_of_def)

text \<open>
  Two \<open>..\<close> in a row go up only one level: after the first, the components that it erased are still
  between \<^verbatim>\<open>last_component_start\<close> and the second.
\<close>

lemma second_dotdot_ignored:
  "map_option (map_option (takeWhile (\<lambda>c. c \<noteq> NUL) \<circ> tl)) (canonicalize_path True ''/usr/share/../..'') =
   Some (Some ''usr'')"
  by code_simp

text \<open>A name that begins with a dot loses it, and two dots in a name erase the directory before it.\<close>

lemma dot_file_renamed:
  "map_option (map_option (takeWhile (\<lambda>c. c \<noteq> NUL) \<circ> tl)) (canonicalize_path True ''/.rc'') = Some (Some ''rc'')"
  by code_simp

lemma dots_in_name:
  "map_option (map_option (takeWhile (\<lambda>c. c \<noteq> NUL) \<circ> tl)) (canonicalize_path True ''/etc/a..b'') = Some (Some ''b'')"
  by code_simp

text \<open>Prefixes are compared by characters: a mount point also catches the names that continue its own.\<close>

lemma prefix_not_component:
  "canonicalized_path_startswith ([NUL] @ ''devices'' @ [NUL, NUL]) ([NUL] @ ''dev'' @ [NUL, NUL]) = Some True"
  by code_simp

subsection \<open>Back to a string\<close>

lemma strlen_cpath:
  "(\<And>c. c \<in> set cs \<Longrightarrow> c \<noteq> [] \<and> NUL \<notin> set c) \<Longrightarrow>
   canonicalized_path_strlen (cpath_of cs @ NUL # NUL # rest) = Some (length (cpath_of cs))"
proof (induction cs)
  case (Cons c cs)
  have IH: "canonicalized_path_strlen (cpath_of cs @ NUL # NUL # rest) = Some (length (cpath_of cs))"
    using Cons by simp
  have name: "NUL \<notin> set nm \<Longrightarrow> nm \<noteq> [] \<Longrightarrow>
      canonicalized_path_strlen (nm @ cpath_of cs @ NUL # NUL # rest) = Some (length nm + length (cpath_of cs))" for nm
  proof (induction nm)
    case (Cons x nm)
    have "canonicalized_path_strlen (nm @ cpath_of cs @ NUL # NUL # rest) = Some (length nm + length (cpath_of cs))"
      using Cons IH by (cases nm) auto
    moreover obtain y ys where "nm @ cpath_of cs @ NUL # NUL # rest = y # ys"
      by (cases "nm @ cpath_of cs @ NUL # NUL # rest") auto
    ultimately show ?case using Cons.prems by auto
  qed simp
  obtain x nm where c: "c = x # nm" using Cons.prems [of c] by (cases c) auto
  then have "x \<noteq> NUL" using Cons.prems [of c] by auto
  then show ?case using c name [of c] Cons.prems [of c] by (simp add: cpath_of_def)
qed (simp add: cpath_of_def)

lemma decanonicalize_cpath:
  "(\<And>c. c \<in> set cs \<Longrightarrow> c \<noteq> [] \<and> NUL \<notin> set c) \<Longrightarrow>
   decanonicalize_loop (cpath_of cs @ NUL # NUL # rest) = Some (path_of cs @ NUL # NUL # rest)"
proof (induction cs)
  case (Cons c cs)
  have IH: "decanonicalize_loop (cpath_of cs @ NUL # NUL # rest) = Some (path_of cs @ NUL # NUL # rest)"
    using Cons by simp
  have name: "NUL \<notin> set nm \<Longrightarrow> nm \<noteq> [] \<Longrightarrow>
      decanonicalize_loop (nm @ cpath_of cs @ NUL # NUL # rest) = Some (nm @ path_of cs @ NUL # NUL # rest)" for nm
  proof (induction nm)
    case (Cons x nm)
    have "decanonicalize_loop (nm @ cpath_of cs @ NUL # NUL # rest) = Some (nm @ path_of cs @ NUL # NUL # rest)"
      using Cons IH by (cases nm) auto
    moreover obtain y ys where "nm @ cpath_of cs @ NUL # NUL # rest = y # ys"
      by (cases "nm @ cpath_of cs @ NUL # NUL # rest") auto
    ultimately show ?case using Cons.prems by auto
  qed simp
  obtain x nm where c: "c = x # nm" using Cons.prems [of c] by (cases c) auto
  then have "x \<noteq> NUL" using Cons.prems [of c] by auto
  then show ?case using c name [of c] Cons.prems [of c] by (simp add: cpath_of_def path_of_def)
qed (simp add: cpath_of_def path_of_def)

lemma names_resolved:
  "(\<And>c. c \<in> set ns \<Longrightarrow> plain c) \<Longrightarrow> dots_follow_names ns \<and> resolve st ns = st @ ns"
proof (induction ns arbitrary: st)
  case (Cons c ns)
  then have c: "plain c" "dots_follow_names ns" "\<And>st. resolve st ns = st @ ns" by auto
  then have "resolve st (c # ns) = st @ c # ns" using plain_not_dot [of c] by simp
  moreover have "dots_follow_names (c # ns)"
    using c Cons.prems plain_not_dot [of "hd ns"] by (cases ns) auto
  ultimately show ?case by simp
qed simp

lemma canonicalize_root: "canonicalize_path True [SLASH] = Some (Some [NUL, NUL, NUL])"
  by code_simp

text \<open>
  C29: Canonicalizing a path of ordinary names, as in C17, and turning the result back into a string, as a change of the
  working directory does, gives the resolved path with separators, and \<open>/\<close> when no component is left; and
  canonicalizing that string gives the same canonicalized path again, up to its two terminators.
\<close>
theorem path_roundtrip:
  assumes "dots_follow_names cs"
  shows "\<exists>cpath s again n. canonicalize_path True (path_of cs) = Some (Some cpath) \<and> decanonicalize_path cpath = Some s \<and>
    takeWhile (\<lambda>c. c \<noteq> NUL) s = (if resolve [] cs = [] then [SLASH] else path_of (resolve [] cs)) \<and>
    canonicalize_path True (takeWhile (\<lambda>c. c \<noteq> NUL) s) = Some (Some again) \<and>
    canonicalized_path_strlen cpath = Some n \<and> canonicalized_path_strlen again = Some n \<and> take n again = take n cpath"
proof -
  let ?ns = "resolve [] cs"
  obtain rest where c: "canonicalize_path True (path_of cs) = Some (Some (cpath_of ?ns @ NUL # NUL # rest))"
    using canonicalize_components [OF assms] by blast
  have pl: "plain c" if "c \<in> set ?ns" for c
    using names_plain [OF assms] resolve_names [OF assms, of "[]"] that by simp
  then have ns: "c \<noteq> [] \<and> NUL \<notin> set c" if "c \<in> set ?ns" for c using that by (auto simp: plain_def)
  show ?thesis
  proof (cases "?ns = []")
    case True
    then have "decanonicalize_path (cpath_of ?ns @ NUL # NUL # rest) = Some (SLASH # NUL # rest)"
      by (simp add: cpath_of_def decanonicalize_path_def)
    then show ?thesis using c True canonicalize_root by (simp add: cpath_of_def)
  next
    case False
    then obtain x xs ys where hd: "?ns = (x # xs) # ys" using ns by (cases ?ns; cases "hd ?ns") auto
    then have "x \<noteq> NUL" using ns [of "x # xs"] by auto
    then have "decanonicalize_path (cpath_of ?ns @ NUL # NUL # rest) = decanonicalize_loop (cpath_of ?ns @ NUL # NUL # rest)"
      by (simp add: hd cpath_of_def decanonicalize_path_def)
    then have d: "decanonicalize_path (cpath_of ?ns @ NUL # NUL # rest) = Some (path_of ?ns @ NUL # NUL # rest)"
      using decanonicalize_cpath [of ?ns rest] ns by simp
    have "NUL \<notin> set (path_of ?ns)" using ns by (auto simp: path_of_def)
    then have str: "takeWhile (\<lambda>c. c \<noteq> NUL) (path_of ?ns @ NUL # NUL # rest) = path_of ?ns"
      by (subst takeWhile_append2) auto
    obtain rest' where again: "canonicalize_path True (path_of ?ns) = Some (Some (cpath_of ?ns @ NUL # NUL # rest'))"
      using canonicalize_components [of ?ns] names_resolved [of ?ns "[]"] pl by auto
    show ?thesis
      using c d str again False strlen_cpath [of ?ns rest] strlen_cpath [of ?ns rest'] ns
      by (intro exI [of _ "cpath_of ?ns @ NUL # NUL # rest"] exI [of _ "path_of ?ns @ NUL # NUL # rest"]
          exI [of _ "cpath_of ?ns @ NUL # NUL # rest'"] exI [of _ "length (cpath_of ?ns)"]) simp
  qed
qed

theorem path_roundtrip_witness:
  "\<exists>cpath s. canonicalize_path True ''/usr/share/..'' = Some (Some cpath) \<and> decanonicalize_path cpath = Some s \<and>
     takeWhile (\<lambda>c. c \<noteq> NUL) s = ''/usr''"
  using path_roundtrip [of "[''usr'', ''share'', ''..'']"] by (auto simp: plain_def path_of_def)

end
