(* ===== verification/Vfs.thy ===== *)
theory Vfs
  imports Inode Path
begin

text \<open>
  The virtual filesystem (\<^verbatim>\<open>kernel/vfs/vfs.cpp\<close>, and the inode cache of \<^verbatim>\<open>kernel/vfs/fs.cpp\<close>).  The
  operation tables of the mounted filesystems are a parameter, a function from the filesystem to its
  operations, over one state \<open>'s\<close> of all of them.  Inodes and custodies are objects in the heap, a pointer is
  a number, \<open>None\<close> where it is null.  The answers of \<^verbatim>\<open>malloc\<close> come from a list in the state, all further
  ones succeed.  \<open>None\<close> as the result of an operation is a failing assertion, a null pointer that is
  followed, or an access to freed memory.  The intrusive lists are the sequences of their nodes.
\<close>

subsection \<open>State\<close>

text \<open>
  Lookup and create take the directory, a name (and a type); read and write the inode and an offset.  An
  operation may change the inode it is given, and the state of the filesystem.
\<close>

record ('c, 's) fs_ops =
  op_on_mount :: "'s \<Rightarrow> ('c Inode \<times> 's) option"
  op_open_inode :: "'c Inode \<Rightarrow> 's \<Rightarrow> (int \<times> 'c Inode \<times> 's) option"
  op_close_inode :: "'c Inode \<Rightarrow> 's \<Rightarrow> (int \<times> 'c Inode \<times> 's) option"
  op_lookup :: "'c Inode \<Rightarrow> string \<Rightarrow> 's \<Rightarrow> ((Errors + 'c Inode) \<times> 's) option"
  op_create :: "'c Inode \<Rightarrow> string \<Rightarrow> InodeType \<Rightarrow> 's \<Rightarrow> ((Errors + 'c Inode) \<times> 'c Inode \<times> 's) option"
  op_getdents :: "'c Inode \<Rightarrow> u64 \<Rightarrow> u32 \<Rightarrow> 's \<Rightarrow> (int \<times> u8 list) option"
  op_read :: "'c Inode \<Rightarrow> u64 \<Rightarrow> u32 \<Rightarrow> 's \<Rightarrow> (int \<times> u8 list \<times> 'c Inode \<times> 's) option"
  op_write :: "'c Inode \<Rightarrow> u64 \<Rightarrow> u8 list \<Rightarrow> 's \<Rightarrow> (int \<times> 'c Inode \<times> 's) option"
  op_seek :: "'c Inode \<Rightarrow> u64 \<Rightarrow> int \<Rightarrow> i32 \<Rightarrow> u64 option"
  op_poll :: "'c Inode \<Rightarrow> u32 \<Rightarrow> u32 \<Rightarrow> 's \<Rightarrow> (int \<times> u32) option"
  op_istty :: "'c Inode \<Rightarrow> 's \<Rightarrow> int option"
  op_ioctl :: "'c Inode \<Rightarrow> u32 \<Rightarrow> u8 list \<Rightarrow> 's \<Rightarrow> (int \<times> u8 list \<times> 's) option"
  op_mmap :: "'c Inode \<Rightarrow> u32 \<Rightarrow> u32 \<Rightarrow> u32 \<Rightarrow> 's \<Rightarrow> int option"

record FileCustody =
  custody_inode :: nat
  custody_flags :: u32
  custody_offset :: u64

record MountPoint =
  mp_path :: string
  mp_fs :: nat
  mp_path_skip :: nat

text \<open>An inode in the heap comes with its filesystem; a cache is the list of its entries.\<close>

record ('c, 's) vfs =
  vfs_mallocs :: "bool list"
  vfs_next :: nat
  vfs_inodes :: "nat \<Rightarrow> (nat \<times> 'c Inode) option"
  vfs_custodies :: "nat \<Rightarrow> FileCustody option"
  vfs_icache :: "nat \<Rightarrow> (u64 \<times> nat) list"
  vfs_root :: "nat \<Rightarrow> u64"
  s_mountpoints :: "MountPoint list"
  vfs_fs :: 's

definition OF_ACCMODE :: u32 where "OF_ACCMODE = 0x0003"
definition OF_RDONLY :: u32 where "OF_RDONLY = 0x0000"
definition OF_WRONLY :: u32 where "OF_WRONLY = 0x0001"
definition OF_CREATE :: u32 where "OF_CREATE = 0x0200"
definition OF_NONBLOCK :: u32 where "OF_NONBLOCK = 0x4000"
definition OF_DIRECTORY :: u32 where "OF_DIRECTORY = 0x200000"

definition vfs_malloc :: "('c, 's) vfs \<Rightarrow> bool \<times> ('c, 's) vfs" where
  "vfs_malloc s = (case vfs_mallocs s of [] \<Rightarrow> (True, s) | b # bs \<Rightarrow> (b, s\<lparr>vfs_mallocs := bs\<rparr>))"

definition set_inode :: "nat \<Rightarrow> nat \<Rightarrow> 'c Inode \<Rightarrow> ('c, 's) vfs \<Rightarrow> ('c, 's) vfs" where
  "set_inode p f i s = s\<lparr>vfs_inodes := (vfs_inodes s)(p \<mapsto> (f, i))\<rparr>"

definition free_inode :: "nat \<Rightarrow> ('c, 's) vfs \<Rightarrow> ('c, 's) vfs" where
  "free_inode p s = s\<lparr>vfs_inodes := (vfs_inodes s)(p := None)\<rparr>"

definition set_custody :: "nat \<Rightarrow> FileCustody \<Rightarrow> ('c, 's) vfs \<Rightarrow> ('c, 's) vfs" where
  "set_custody p c s = s\<lparr>vfs_custodies := (vfs_custodies s)(p \<mapsto> c)\<rparr>"

definition new_address :: "('c, 's) vfs \<Rightarrow> nat \<times> ('c, 's) vfs" where
  "new_address s = (vfs_next s, s\<lparr>vfs_next := Suc (vfs_next s)\<rparr>)"

subsection \<open>The inode cache\<close>

definition icache_lookup :: "(u64 \<times> nat) list \<Rightarrow> u64 \<Rightarrow> nat option" where
  "icache_lookup icache identifier = map_option snd (List.find (\<lambda>(k, p). k = identifier) icache)"

definition icache_insert :: "nat \<Rightarrow> u64 \<Rightarrow> nat \<Rightarrow> ('c, 's) vfs \<Rightarrow> (int \<times> ('c, 's) vfs) option" where
  "icache_insert f identifier p s = do {
     check (icache_lookup (vfs_icache s f) identifier = None);
     let (ok, s) = vfs_malloc s;
     if \<not> ok then Some (- errno ERR_NOMEM, s)
     else Some (0, s\<lparr>vfs_icache := (vfs_icache s)(f := (identifier, p) # vfs_icache s f)\<rparr>)
   }"

subsection \<open>Opening and closing inodes\<close>

definition open_inode :: "(nat \<Rightarrow> ('c, 's) fs_ops) \<Rightarrow> nat \<Rightarrow> ('c, 's) vfs \<Rightarrow> (int \<times> ('c, 's) vfs) option" where
  "open_inode ops p s = do {
     (f, inode) \<leftarrow> vfs_inodes s p;
     if refcount inode > 0 then Some (0, set_inode p f (inode\<lparr>refcount := refcount inode + 1\<rparr>) s)
     else do {
       (rc, inode, fs) \<leftarrow> op_open_inode (ops f) inode (vfs_fs s);
       let s = s\<lparr>vfs_fs := fs\<rparr>;
       if rc \<noteq> 0 then Some (rc, set_inode p f inode s)
       else Some (0, set_inode p f (inode\<lparr>refcount := 1\<rparr>) s)
     }
   }"

definition close_inode :: "(nat \<Rightarrow> ('c, 's) fs_ops) \<Rightarrow> nat option \<Rightarrow> ('c, 's) vfs \<Rightarrow> ('c, 's) vfs option" where
  "close_inode ops ptr s = (case ptr of
     None \<Rightarrow> Some s
   | Some p \<Rightarrow> do {
       (f, inode) \<leftarrow> vfs_inodes s p;
       check (refcount inode > 0);
       if refcount inode > 1 then Some (set_inode p f (inode\<lparr>refcount := refcount inode - 1\<rparr>) s)
       else do {
         (_, inode, fs) \<leftarrow> op_close_inode (ops f) inode (vfs_fs s);
         Some (set_inode p f inode (s\<lparr>vfs_fs := fs\<rparr>))
       }
     })"

definition free_custody :: "(nat \<Rightarrow> ('c, 's) fs_ops) \<Rightarrow> nat option \<Rightarrow> ('c, 's) vfs \<Rightarrow> ('c, 's) vfs option" where
  "free_custody ops ptr s = (case ptr of
     None \<Rightarrow> Some s
   | Some c \<Rightarrow> do {
       custody \<leftarrow> vfs_custodies s c;
       s \<leftarrow> close_inode ops (Some (custody_inode custody)) s;
       Some (s\<lparr>vfs_custodies := (vfs_custodies s)(c := None)\<rparr>)
     })"

text \<open>A result code, with the new custody when it is 0.\<close>

definition alloc_custody :: "nat \<Rightarrow> u32 \<Rightarrow> ('c, 's) vfs \<Rightarrow> int \<times> nat option \<times> ('c, 's) vfs" where
  "alloc_custody p flags s = (
     let (ok, s) = vfs_malloc s
     in if \<not> ok then (- errno ERR_NOMEM, None, s)
        else let (c, s) = new_address s
             in (0, Some c, set_custody c \<lparr>custody_inode = p, custody_flags = flags, custody_offset = 0\<rparr> s))"

text \<open>The common part of \<^verbatim>\<open>lookup_inode\<close> and \<^verbatim>\<open>create_inode\<close>: a copy of \<open>temp\<close>, opened and put in the cache.\<close>

definition add_inode ::
  "(nat \<Rightarrow> ('c, 's) fs_ops) \<Rightarrow> nat \<Rightarrow> 'c Inode \<Rightarrow> ('c, 's) vfs \<Rightarrow> (int \<times> nat option \<times> ('c, 's) vfs) option" where
  "add_inode ops f temp s = (
     let (ok, s) = vfs_malloc s
     in if \<not> ok then Some (- errno ERR_NOMEM, None, s)
        else do {
          let (p, s) = new_address s;
          let s = set_inode p f (temp\<lparr>refcount := 0\<rparr>) s;
          (rc, s) \<leftarrow> open_inode ops p s;
          if rc \<noteq> 0 then Some (rc, None, free_inode p s)
          else do {
            (rc, s) \<leftarrow> icache_insert f (inode_id temp) p s;
            if rc \<noteq> 0 then do {
              s \<leftarrow> close_inode ops (Some p) s;
              Some (rc, None, free_inode p s)
            }
            else Some (0, Some p, s)
          }
        })"

definition lookup_inode ::
  "(nat \<Rightarrow> ('c, 's) fs_ops) \<Rightarrow> nat \<Rightarrow> string \<Rightarrow> ('c, 's) vfs \<Rightarrow> (int \<times> nat option \<times> ('c, 's) vfs) option" where
  "lookup_inode ops parent name s = do {
     (f, dir) \<leftarrow> vfs_inodes s parent;
     (res, fs) \<leftarrow> op_lookup (ops f) dir name (vfs_fs s);
     let s = s\<lparr>vfs_fs := fs\<rparr>;
     case res of
       Inl err \<Rightarrow> Some (- errno err, None, s)
     | Inr temp \<Rightarrow>
         (case icache_lookup (vfs_icache s f) (inode_id temp) of
            Some p \<Rightarrow> do {
              (rc, s) \<leftarrow> open_inode ops p s;
              Some (rc, Some p, s)
            }
          | None \<Rightarrow> add_inode ops f temp s)
   }"

definition create_inode ::
  "(nat \<Rightarrow> ('c, 's) fs_ops) \<Rightarrow> nat \<Rightarrow> string \<Rightarrow> InodeType \<Rightarrow> ('c, 's) vfs \<Rightarrow> (int \<times> nat option \<times> ('c, 's) vfs) option" where
  "create_inode ops parent name type s = do {
     (f, dir) \<leftarrow> vfs_inodes s parent;
     (res, dir, fs) \<leftarrow> op_create (ops f) dir name type (vfs_fs s);
     let s = set_inode parent f dir (s\<lparr>vfs_fs := fs\<rparr>);
     case res of
       Inl err \<Rightarrow> Some (- errno err, None, s)
     | Inr temp \<Rightarrow> do {
         check (icache_lookup (vfs_icache s f) (inode_id temp) = None);
         add_inode ops f temp s
       }
   }"

subsection \<open>Walking a path\<close>

text \<open>
  The loop of \<^verbatim>\<open>traverse_in_fs\<close>: the result code, the rest of the path, and the pointers \<^verbatim>\<open>parent\<close> and
  \<^verbatim>\<open>inode\<close>.
\<close>

function traverse_loop ::
  "(nat \<Rightarrow> ('c, 's) fs_ops) \<Rightarrow> string \<Rightarrow> nat option \<Rightarrow> nat \<Rightarrow> ('c, 's) vfs \<Rightarrow>
   (int \<times> string \<times> nat option \<times> nat option \<times> ('c, 's) vfs) option" where
  "traverse_loop ops [] parent inode s = None"
| "traverse_loop ops (c # path) parent inode s =
     (if c = NUL then Some (0, c # path, parent, Some inode, s)
      else do {
        s \<leftarrow> close_inode ops parent s;
        (_, dir) \<leftarrow> vfs_inodes s inode;
        if inode_type dir \<noteq> Directory then Some (- errno ERR_NOTDIR, c # path, Some inode, None, s)
        else do {
          let name = takeWhile (\<lambda>c. c \<noteq> NUL) (c # path);
          (rc, child, s) \<leftarrow> lookup_inode ops inode name s;
          let path = drop (length name) path;
          if rc \<noteq> 0 then Some (- errno ERR_NOENT, path, Some inode, child, s)
          else do {
            child \<leftarrow> child;
            traverse_loop ops path (Some inode) child s
          }
        }
      })"
  by pat_completeness auto
termination by (relation "measure (\<lambda>(ops, path, _). length path)") auto

definition traverse_in_fs ::
  "(nat \<Rightarrow> ('c, 's) fs_ops) \<Rightarrow> nat \<Rightarrow> string \<Rightarrow> ('c, 's) vfs \<Rightarrow>
   (int \<times> nat option \<times> nat option \<times> ('c, 's) vfs) option" where
  "traverse_in_fs ops f path s = (case icache_lookup (vfs_icache s f) (vfs_root s f) of
     None \<Rightarrow> Some (- errno ERR_NOENT, None, None, s)
   | Some root \<Rightarrow> do {
       (rc, s) \<leftarrow> open_inode ops root s;
       if rc \<noteq> 0 then Some (rc, None, None, s)
       else do {
         (rc, path, parent, inode, s) \<leftarrow> traverse_loop ops path None root s;
         if rc = 0 then Some (0, parent, inode, s)
         else do {
           p \<leftarrow> parent;
           (_, dir) \<leftarrow> vfs_inodes s p;
           check (path \<noteq> []);
           if rc = - errno ERR_NOENT \<and> inode_type dir = Directory \<and> hd path = NUL then Some (rc, parent, None, s)
           else do {
             s \<leftarrow> close_inode ops parent s;
             Some (rc, None, None, s)
           }
         }
       }
     })"

fun find_mountpoint :: "string \<Rightarrow> MountPoint list \<Rightarrow> MountPoint option option" where
  "find_mountpoint cpath [] = Some None"
| "find_mountpoint cpath (mp # mps) = do {
     b \<leftarrow> canonicalized_path_startswith cpath (mp_path mp);
     if b then Some (Some mp) else find_mountpoint cpath mps
   }"

definition traverse ::
  "(nat \<Rightarrow> ('c, 's) fs_ops) \<Rightarrow> string \<Rightarrow> ('c, 's) vfs \<Rightarrow> (int \<times> nat option \<times> nat option \<times> ('c, 's) vfs) option" where
  "traverse ops path s = do {
     let (ok, s) = vfs_malloc s;
     cpath \<leftarrow> canonicalize_path ok path;
     case cpath of
       None \<Rightarrow> Some (- errno ERR_NOMEM, None, None, s)
     | Some cpath \<Rightarrow> do {
         mp \<leftarrow> find_mountpoint cpath (s_mountpoints s);
         case mp of
           None \<Rightarrow> Some (- errno ERR_NOENT, None, None, s)
         | Some mp \<Rightarrow> traverse_in_fs ops (mp_fs mp) (drop (mp_path_skip mp) cpath) s
       }
   }"


subsection \<open>Opening\<close>

text \<open>The parts of \<^verbatim>\<open>vfs_open\<close>: finding or creating the inode, then the custody, then the cleanup.\<close>

definition filename_of :: "string \<Rightarrow> string" where
  "filename_of path = rev (takeWhile (\<lambda>c. c \<noteq> SLASH) (rev path))"

definition find_or_create ::
  "(nat \<Rightarrow> ('c, 's) fs_ops) \<Rightarrow> string \<Rightarrow> u32 \<Rightarrow> ('c, 's) vfs \<Rightarrow> (int \<times> nat option \<times> nat option \<times> ('c, 's) vfs) option" where
  "find_or_create ops path flags s = do {
     (rc, parent, inode, s) \<leftarrow> traverse ops path s;
     if rc \<noteq> 0 \<and> parent \<noteq> None \<and> flags AND OF_CREATE \<noteq> 0 then do {
       p \<leftarrow> parent;
       (_, dir) \<leftarrow> vfs_inodes s p;
       check (inode_type dir = Directory);
       check (SLASH \<in> set path);
       (rc, inode, s) \<leftarrow> create_inode ops p (filename_of path) RegularFile s;
       Some (rc, parent, inode, s)
     }
     else Some (rc, parent, inode, s)
   }"

definition is_directory_error :: "u32 \<Rightarrow> nat option \<Rightarrow> ('c, 's) vfs \<Rightarrow> bool option" where
  "is_directory_error flags inode s = do {
     p \<leftarrow> inode;
     (_, i) \<leftarrow> vfs_inodes s p;
     Some (inode_type i = Directory \<and> flags AND OF_DIRECTORY = 0)
   }"

definition vfs_open_absolute ::
  "(nat \<Rightarrow> ('c, 's) fs_ops) \<Rightarrow> string \<Rightarrow> u32 \<Rightarrow> ('c, 's) vfs \<Rightarrow> (int \<times> nat option \<times> ('c, 's) vfs) option" where
  "vfs_open_absolute ops path flags s = do {
     (rc, parent, inode, s) \<leftarrow> find_or_create ops path flags s;
     isdir \<leftarrow> (if rc = 0 then is_directory_error flags inode s else Some False);
     let rc = (if isdir then - errno ERR_ISDIR else rc);
     (rc, custody, s) \<leftarrow> (if rc = 0 then do { p \<leftarrow> inode; Some (alloc_custody p flags s) } else Some (rc, None, s));
     if rc \<noteq> 0 then do {
       s \<leftarrow> close_inode ops parent s;
       s \<leftarrow> close_inode ops inode s;
       s \<leftarrow> free_custody ops custody s;
       Some (rc, custody, s)
     }
     else Some (rc, custody, s)
   }"

definition vfs_open ::
  "(nat \<Rightarrow> ('c, 's) fs_ops) \<Rightarrow> string \<Rightarrow> string \<Rightarrow> u32 \<Rightarrow> ('c, 's) vfs \<Rightarrow> (int \<times> nat option \<times> ('c, 's) vfs) option" where
  "vfs_open ops workdir path flags s =
     (if path_is_absolute path then vfs_open_absolute ops path flags s
      else
        let too_long = (strnlen workdir MAX_PATH_LEN + strnlen path MAX_PATH_LEN + 2 > MAX_PATH_LEN);
            (ok, s) = (if too_long then (False, s) else vfs_malloc s)
        in case pathjoin ok workdir path of
             None \<Rightarrow> Some (- errno ERR_NOMEM, None, s)
           | Some cpath \<Rightarrow> vfs_open_absolute ops cpath flags s)"

subsection \<open>Mounting\<close>

text \<open>\<^verbatim>\<open>append_before\<close> on the sequence; without a shorter path the mount point becomes the head.\<close>

fun find_shorter :: "nat \<Rightarrow> MountPoint list \<Rightarrow> nat option option" where
  "find_shorter n [] = Some None"
| "find_shorter n (mp # mps) = do {
     len \<leftarrow> canonicalized_path_strlen (mp_path mp);
     if len < n then Some (Some 0) else do { r \<leftarrow> find_shorter n mps; Some (map_option Suc r) }
   }"

definition insert_mountpoint :: "MountPoint \<Rightarrow> nat \<Rightarrow> MountPoint list \<Rightarrow> MountPoint list option" where
  "insert_mountpoint mp len mps = do {
     after \<leftarrow> find_shorter len mps;
     Some (case after of Some i \<Rightarrow> take i mps @ mp # drop i mps | None \<Rightarrow> mp # mps)
   }"

text \<open>The three allocations come first; the results of \<^verbatim>\<open>on_mount\<close> and of \<^verbatim>\<open>icache_insert\<close> are not looked at.\<close>

definition vfs_mount :: "(nat \<Rightarrow> ('c, 's) fs_ops) \<Rightarrow> string \<Rightarrow> nat \<Rightarrow> ('c, 's) vfs \<Rightarrow> (int \<times> ('c, 's) vfs) option" where
  "vfs_mount ops path f s = do {
     let (ok1, s) = vfs_malloc s;
     let (ok2, s) = vfs_malloc s;
     cpath \<leftarrow> canonicalize_path ok2 path;
     let (ok3, s) = vfs_malloc s;
     if cpath = None \<or> \<not> ok1 \<or> \<not> ok3 then Some (- errno ERR_NOMEM, s)
     else do {
       cpath \<leftarrow> cpath;
       let (root, s) = new_address s;
       len \<leftarrow> canonicalized_path_strlen cpath;
       mps \<leftarrow> insert_mountpoint \<lparr>mp_path = cpath, mp_fs = f, mp_path_skip = len + 1\<rparr> len (s_mountpoints s);
       let s = s\<lparr>s_mountpoints := mps\<rparr>;
       (root_inode, fs) \<leftarrow> op_on_mount (ops f) (vfs_fs s);
       let s = set_inode root f root_inode (s\<lparr>vfs_fs := fs\<rparr>);
       (rc, s) \<leftarrow> open_inode ops root s;
       check (rc = 0);
       (_, s) \<leftarrow> icache_insert f (inode_id root_inode) root s;
       Some (rc, s)
     }
   }"

subsection \<open>Open files\<close>

text \<open>A blocking call gives up the processor while the file is not ready and then tries again: \<open>Yield\<close>.\<close>

datatype 'r blocking = Yield | Return 'r

definition vfs_poll ::
  "(nat \<Rightarrow> ('c, 's) fs_ops) \<Rightarrow> nat \<Rightarrow> u32 \<Rightarrow> u32 \<Rightarrow> ('c, 's) vfs \<Rightarrow> (int \<times> u32) option" where
  "vfs_poll ops c events out_revents s = do {
     custody \<leftarrow> vfs_custodies s c;
     (f, inode) \<leftarrow> vfs_inodes s (custody_inode custody);
     if inode_type inode = Directory then Some (1, out_revents)
     else op_poll (ops f) inode events out_revents (vfs_fs s)
   }"

text \<open>\<^verbatim>\<open>ssize_t\<close> has 32 bits, so the new position is cut to them.\<close>

definition vfs_seek ::
  "(nat \<Rightarrow> ('c, 's) fs_ops) \<Rightarrow> nat \<Rightarrow> int \<Rightarrow> i32 \<Rightarrow> ('c, 's) vfs \<Rightarrow> (int \<times> ('c, 's) vfs) option" where
  "vfs_seek ops c whence off s = do {
     custody \<leftarrow> vfs_custodies s c;
     (f, inode) \<leftarrow> vfs_inodes s (custody_inode custody);
     pos \<leftarrow> (if inode_type inode \<noteq> Directory then op_seek (ops f) inode (custody_offset custody) whence off
             else default_checked_seek 0x7fffffff (custody_offset custody) whence off);
     let new_seek = (ucast pos :: u32);
     if sint new_seek < 0 then Some (sint new_seek, s)
     else Some (sint new_seek, set_custody c (custody\<lparr>custody_offset := ucast new_seek\<rparr>) s)
   }"

definition not_ready ::
  "(nat \<Rightarrow> ('c, 's) fs_ops) \<Rightarrow> nat \<Rightarrow> u32 \<Rightarrow> ('c, 's) vfs \<Rightarrow> bool option" where
  "not_ready ops c event s = do {
     (rc, events) \<leftarrow> vfs_poll ops c event 0 s;
     Some (rc = 0 \<and> events AND event = 0)
   }"

definition vfs_read ::
  "(nat \<Rightarrow> ('c, 's) fs_ops) \<Rightarrow> nat \<Rightarrow> u32 \<Rightarrow> ('c, 's) vfs \<Rightarrow> ((int \<times> u8 list) blocking \<times> ('c, 's) vfs) option" where
  "vfs_read ops c len s = do {
     custody \<leftarrow> vfs_custodies s c;
     (f, inode) \<leftarrow> vfs_inodes s (custody_inode custody);
     let is_dir = (inode_type inode = Directory);
     if is_dir \<and> custody_flags custody AND OF_DIRECTORY = 0 then Some (Return (- errno ERR_ISDIR, []), s)
     else if custody_flags custody AND OF_ACCMODE = OF_WRONLY then Some (Return (- errno ERR_PERM, []), s)
     else do {
       wait \<leftarrow> (if custody_flags custody AND OF_NONBLOCK = 0 \<and> \<not> is_dir then not_ready ops c F_POLLIN s else Some False);
       if wait then Some (Yield, s)
       else do {
         (rc, bytes, s) \<leftarrow>
           (if \<not> is_dir then do {
              (rc, bytes, inode, fs) \<leftarrow> op_read (ops f) inode (custody_offset custody) len (vfs_fs s);
              Some (rc, bytes, set_inode (custody_inode custody) f inode (s\<lparr>vfs_fs := fs\<rparr>))
            }
            else do {
              (rc, bytes) \<leftarrow> op_getdents (ops f) inode (custody_offset custody) (len div 272) (vfs_fs s);
              Some (rc, bytes, s)
            });
         s \<leftarrow> (if rc > 0 then map_option snd (vfs_seek ops c SEEK_CUR (of_int rc) s) else Some s);
         Some (Return (rc, bytes), s)
       }
     }
   }"

definition vfs_write ::
  "(nat \<Rightarrow> ('c, 's) fs_ops) \<Rightarrow> nat \<Rightarrow> u8 list \<Rightarrow> ('c, 's) vfs \<Rightarrow> (int blocking \<times> ('c, 's) vfs) option" where
  "vfs_write ops c buffer s = do {
     custody \<leftarrow> vfs_custodies s c;
     (f, inode) \<leftarrow> vfs_inodes s (custody_inode custody);
     if inode_type inode = Directory then Some (Return (- errno ERR_INVAL), s)
     else if custody_flags custody AND OF_ACCMODE = OF_RDONLY then Some (Return (- errno ERR_PERM), s)
     else do {
       wait \<leftarrow> (if custody_flags custody AND OF_NONBLOCK = 0 then not_ready ops c F_POLLOUT s else Some False);
       if wait then Some (Yield, s)
       else do {
         (rc, inode, fs) \<leftarrow> op_write (ops f) inode (custody_offset custody) buffer (vfs_fs s);
         let s = set_inode (custody_inode custody) f inode (s\<lparr>vfs_fs := fs\<rparr>);
         s \<leftarrow> (if rc > 0 then map_option snd (vfs_seek ops c SEEK_CUR (of_int rc) s) else Some s);
         Some (Return rc, s)
       }
     }
   }"

definition vfs_close :: "(nat \<Rightarrow> ('c, 's) fs_ops) \<Rightarrow> nat option \<Rightarrow> ('c, 's) vfs \<Rightarrow> (int \<times> ('c, 's) vfs) option" where
  "vfs_close ops c s = do {
     s \<leftarrow> free_custody ops c s;
     Some (0, s)
   }"

record Stat =
  st_dev :: u32
  st_ino :: u64
  st_mode :: u32
  st_nlink :: u32
  st_uid :: u32
  st_gid :: u32
  st_rdev :: u32
  st_size :: u64
  st_atim :: TimeSpec
  st_mtim :: TimeSpec
  st_ctim :: TimeSpec
  st_blksize :: u64
  st_blocks :: u64

fun inode_type_flag :: "InodeType \<Rightarrow> u32" where
  "inode_type_flag RegularFile = 0x8000"
| "inode_type_flag Directory = 0x4000"
| "inode_type_flag Pipe = 0x1000"
| "inode_type_flag CharacterDevice = 0x2000"
| "inode_type_flag BlockDevice = 0x6000"
| "inode_type_flag Socket = 0xC000"
| "inode_type_flag FIFO = 0x1000"
| "inode_type_flag SymbolicLink = 0xA000"

definition inode_stat :: "'c Inode \<Rightarrow> Stat" where
  "inode_stat i = \<lparr>st_dev = push_bit 8 (ucast (devmajor i)) OR ucast (devminor i), st_ino = inode_id i,
     st_mode = 0x1B6 OR inode_type_flag (inode_type i), st_nlink = of_int (refcount i),
     st_uid = inode_uid i, st_gid = inode_gid i, st_rdev = 0, st_size = inode_size i,
     st_atim = access_time i, st_mtim = modification_time i, st_ctim = creation_time i,
     st_blksize = blksize i, st_blocks = round_up_u64 (inode_size i) (blksize i) div blksize i\<rparr>"

text \<open>The second result is what has been stored in \<^verbatim>\<open>*stat\<close>, if anything has.\<close>

definition vfs_stat ::
  "(nat \<Rightarrow> ('c, 's) fs_ops) \<Rightarrow> string \<Rightarrow> ('c, 's) vfs \<Rightarrow> (int \<times> Stat option \<times> ('c, 's) vfs) option" where
  "vfs_stat ops path s = do {
     (rc, parent, inode, s) \<leftarrow> traverse ops path s;
     stat \<leftarrow> (if rc \<noteq> 0 then do {
                p \<leftarrow> parent;
                (_, i) \<leftarrow> vfs_inodes s p;
                Some (Some (inode_stat i))
              } else Some None);
     s \<leftarrow> close_inode ops parent s;
     s \<leftarrow> close_inode ops inode s;
     Some (rc, stat, s)
   }"

definition vfs_fstat :: "nat \<Rightarrow> ('c, 's) vfs \<Rightarrow> (int \<times> Stat) option" where
  "vfs_fstat c s = do {
     custody \<leftarrow> vfs_custodies s c;
     (_, inode) \<leftarrow> vfs_inodes s (custody_inode custody);
     Some (0, inode_stat inode)
   }"

definition vfs_duplicate :: "nat \<Rightarrow> ('c, 's) vfs \<Rightarrow> (nat option \<times> ('c, 's) vfs) option" where
  "vfs_duplicate c s = (
     let (ok, s) = vfs_malloc s
     in if \<not> ok then Some (None, s)
        else do {
          let (dup, s) = new_address s;
          custody \<leftarrow> vfs_custodies s c;
          let s = set_custody dup custody s;
          (f, inode) \<leftarrow> vfs_inodes s (custody_inode custody);
          Some (Some dup, set_inode (custody_inode custody) f (inode\<lparr>refcount := refcount inode + 1\<rparr>) s)
        })"

text \<open>A result code, the sender's and the receiver's custody.\<close>

definition vfs_create_pipe ::
  "(nat \<Rightarrow> ('c, 's) fs_ops) \<Rightarrow> ('c, 's) vfs \<Rightarrow> (int \<times> nat option \<times> nat option \<times> ('c, 's) vfs) option" where
  "vfs_create_pipe ops s = do {
     (rc, sender, s) \<leftarrow> vfs_open_absolute ops ''/pipe/new'' OF_CREATE s;
     if rc \<noteq> 0 then do {
       s \<leftarrow> free_custody ops sender s;
       Some (rc, None, None, s)
     }
     else do {
       snd_c \<leftarrow> sender;
       (receiver, s) \<leftarrow> vfs_duplicate snd_c s;
       case receiver of
         None \<Rightarrow> do {
           s \<leftarrow> free_custody ops sender s;
           Some (- errno ERR_NOMEM, None, None, s)
         }
       | Some rcv_c \<Rightarrow> do {
           sc \<leftarrow> vfs_custodies s snd_c;
           rc \<leftarrow> vfs_custodies s rcv_c;
           let s = set_custody rcv_c (rc\<lparr>custody_flags := OF_RDONLY\<rparr>)
                     (set_custody snd_c (sc\<lparr>custody_flags := OF_WRONLY\<rparr>) s);
           Some (0, sender, receiver, s)
         }
     }
   }"

definition vfs_istty :: "(nat \<Rightarrow> ('c, 's) fs_ops) \<Rightarrow> nat \<Rightarrow> ('c, 's) vfs \<Rightarrow> int option" where
  "vfs_istty ops c s = do {
     custody \<leftarrow> vfs_custodies s c;
     (f, inode) \<leftarrow> vfs_inodes s (custody_inode custody);
     if inode_type inode \<noteq> CharacterDevice then Some 0 else op_istty (ops f) inode (vfs_fs s)
   }"

text \<open>\<open>argp\<close> are the bytes of the caller's buffer; no operation table has a mapping that succeeds.\<close>

definition vfs_ioctl ::
  "(nat \<Rightarrow> ('c, 's) fs_ops) \<Rightarrow> nat \<Rightarrow> u32 \<Rightarrow> u8 list \<Rightarrow> ('c, 's) vfs \<Rightarrow> (int \<times> u8 list \<times> ('c, 's) vfs) option" where
  "vfs_ioctl ops c request argp s = do {
     custody \<leftarrow> vfs_custodies s c;
     (f, inode) \<leftarrow> vfs_inodes s (custody_inode custody);
     if inode_type inode = Directory then Some (- errno ERR_ISDIR, argp, s)
     else do {
       (rc, argp, fs) \<leftarrow> op_ioctl (ops f) inode request argp (vfs_fs s);
       Some (rc, argp, s\<lparr>vfs_fs := fs\<rparr>)
     }
   }"

definition vfs_mmap ::
  "(nat \<Rightarrow> ('c, 's) fs_ops) \<Rightarrow> nat \<Rightarrow> u32 \<Rightarrow> u32 \<Rightarrow> u32 \<Rightarrow> ('c, 's) vfs \<Rightarrow> int option" where
  "vfs_mmap ops c vaddr len flags s = do {
     custody \<leftarrow> vfs_custodies s c;
     (f, inode) \<leftarrow> vfs_inodes s (custody_inode custody);
     if inode_type inode = Directory then Some (- errno ERR_ISDIR)
     else op_mmap (ops f) inode vaddr len flags (vfs_fs s)
   }"

end
