(* ===== verification/Process.thy ===== *)
theory Process
  imports ArrayUtils Vfs Vm PageAllocator Locking
begin

text \<open>
  Processes and threads (\<^verbatim>\<open>kernel/scheduler.cpp\<close>, \<^verbatim>\<open>kernel/scheduler.h\<close>): the table of threads, the creation
  of a process with its first thread, its kernel and its user stack, and the release of both.  The kernel state
  holds the virtual filesystem and the virtual memory of the other components.  Threads, processes and the
  mutexes on which threads wait are objects in the heap, a pointer is a number, and their allocations take
  their answers from the same list as those of the virtual filesystem.  \<open>None\<close> is a failing assertion, a null
  pointer that is followed, or an access to memory that has been freed or was never initialised.
\<close>

subsection \<open>State\<close>

datatype ThreadState = Runnable | Suspended | Zombie

text \<open>\<^verbatim>\<open>supervisor_lr\<close> is only written by the trap entry and is left out.\<close>

record InterruptFrame =
  user_sp :: u32
  user_lr :: u32
  frame_r :: "u32 list"
  frame_lr :: u32
  spsr :: u32

record Thread =
  tid :: int
  thread_process :: nat
  iframe :: InterruptFrame
  kernel_stack_ptr :: u32
  thread_state :: ThreadState

text \<open>
  An exit listener is the mutex that its callback releases.  \<open>threads_data\<close> is the allocated array,
  \<open>threads_count\<close> the number of threads in it.
\<close>

record Process =
  next_available_tid :: int
  pid :: int
  exit_code :: i32
  process_name :: string
  address_space :: "nat option"
  openfiles :: "nat option list"
  working_directory :: string
  exit_listeners :: "nat list"
  threads_data :: "nat list"
  threads_count :: u32

definition MAX_OPEN_FILES :: nat where "MAX_OPEN_FILES = 16"
definition MAX_THREADS :: nat where "MAX_THREADS = 64"

record ('c, 's) kernel =
  k_vfs :: "('c, 's) vfs"
  k_vm :: vm_state
  k_processes :: "nat \<Rightarrow> Process option"
  k_threads :: "nat \<Rightarrow> Thread option"
  k_mutexes :: "nat \<Rightarrow> u32"
  k_sleepers :: "nat list"
  s_next_available_pid :: int
  g_scheduler_has_started :: bool
  s_current_thread :: "nat option"
  s_all_threads :: "nat option list"
  s_all_threads_len :: nat

type_synonym ('c, 's) fs_table = "nat \<Rightarrow> ('c, 's) fs_ops"

definition kernel_malloc :: "('c, 's) kernel \<Rightarrow> bool \<times> ('c, 's) kernel" where
  "kernel_malloc k = (let (ok, v) = vfs_malloc (k_vfs k) in (ok, k\<lparr>k_vfs := v\<rparr>))"

definition kernel_address :: "('c, 's) kernel \<Rightarrow> nat \<times> ('c, 's) kernel" where
  "kernel_address k = (let (a, v) = new_address (k_vfs k) in (a, k\<lparr>k_vfs := v\<rparr>))"

definition set_process :: "nat \<Rightarrow> Process \<Rightarrow> ('c, 's) kernel \<Rightarrow> ('c, 's) kernel" where
  "set_process p pr k = k\<lparr>k_processes := (k_processes k)(p \<mapsto> pr)\<rparr>"

definition set_thread :: "nat \<Rightarrow> Thread \<Rightarrow> ('c, 's) kernel \<Rightarrow> ('c, 's) kernel" where
  "set_thread t th k = k\<lparr>k_threads := (k_threads k)(t \<mapsto> th)\<rparr>"

subsection \<open>Stacks\<close>

definition alloc_kernel_stack :: "vm_state \<Rightarrow> (u32 option \<times> vm_state) option" where
  "alloc_kernel_stack s = do {
     (r, pa) \<leftarrow> physical_page_alloc Order4KB (vm_pa s);
     let s = s\<lparr>vm_pa := pa\<rparr>;
     (case r of
        Inl e \<Rightarrow> Some (None, s)
      | Inr page \<Rightarrow> do {
          phys \<leftarrow> page2addr (vm_pa s) page;
          addr \<leftarrow> phys2virt s phys;
          Some (Some (addr + (4096 - 8)), s)
        })
   }"

definition free_kernel_stack :: "u32 \<Rightarrow> vm_state \<Rightarrow> vm_state option" where
  "free_kernel_stack ptr s = do {
     phys \<leftarrow> virt2phys s (round_down_u32 ptr 4096);
     page \<leftarrow> addr2page (vm_pa s) phys;
     pa \<leftarrow> physical_page_free page Order4KB (vm_pa s);
     Some (s\<lparr>vm_pa := pa\<rparr>)
   }"

text \<open>The loop that maps the pages of a user stack downwards from \<open>startaddr\<close>.\<close>

primrec map_stack_pages :: "nat option \<Rightarrow> u32 \<Rightarrow> nat \<Rightarrow> nat list \<Rightarrow> vm_state \<Rightarrow> vm_state option" where
  "map_stack_pages as startaddr i [] s = Some s"
| "map_stack_pages as startaddr i (page # pages) s = do {
     s \<leftarrow> vm_map as page (startaddr - (of_nat i + 1) * 4096) UserFullAccess s;
     map_stack_pages as startaddr (Suc i) pages s
   }"

definition alloc_thread_user_stack :: "nat option \<Rightarrow> u32 \<Rightarrow> vm_state \<Rightarrow> (u32 option \<times> vm_state) option" where
  "alloc_thread_user_stack as n s = do {
     let startaddr = kernel_area_start - 2 * 0x100000 * n;
     (pages, pa) \<leftarrow> alloc_user_stack_pages (vm_pa s);
     let s = s\<lparr>vm_pa := pa\<rparr>;
     (case pages of
        None \<Rightarrow> Some (None, s)
      | Some pages \<Rightarrow> do {
          s \<leftarrow> map_stack_pages as startaddr 0 pages s;
          Some (Some (startaddr - 8), s)
        })
   }"

text \<open>The new stack pointer and the interrupt frame that it leaves on the kernel stack.\<close>

definition arch_create_initial_kernel_stack :: "u32 \<Rightarrow> u32 \<Rightarrow> u32 \<Rightarrow> bool \<Rightarrow> u32 \<times> InterruptFrame" where
  "arch_create_initial_kernel_stack sp userstack entrypoint privileged =
     (sp - 72 - 56,
      \<lparr>user_sp = userstack, user_lr = 0, frame_r = map of_nat [0..<13], frame_lr = entrypoint,
       spsr = (if privileged then 0x1f else 0x10)\<rparr>)"

subsection \<open>The table of threads\<close>

definition register_thread :: "nat \<Rightarrow> ('c, 's) kernel \<Rightarrow> ('c, 's) kernel option" where
  "register_thread t k = do {
     kassert (s_all_threads_len k < MAX_THREADS);
     Some (k\<lparr>s_all_threads := (s_all_threads k)[s_all_threads_len k := Some t],
             s_all_threads_len := s_all_threads_len k + 1\<rparr>)
   }"

fun lookup_pid_loop :: "int \<Rightarrow> nat option list \<Rightarrow> ('c, 's) kernel \<Rightarrow> nat option option" where
  "lookup_pid_loop n [] k = Some None"
| "lookup_pid_loop n (slot # slots) k =
     (case slot of
        None \<Rightarrow> lookup_pid_loop n slots k
      | Some t \<Rightarrow> do {
          th \<leftarrow> k_threads k t;
          pr \<leftarrow> k_processes k (thread_process th);
          if pid pr = n then Some (Some (thread_process th)) else lookup_pid_loop n slots k
        })"

definition lookup_process_by_pid :: "int \<Rightarrow> ('c, 's) kernel \<Rightarrow> nat option option" where
  "lookup_process_by_pid n k = lookup_pid_loop n (s_all_threads k) k"

text \<open>\<^verbatim>\<open>Process::is_zombie\<close>: all threads are.\<close>

fun all_zombies :: "nat list \<Rightarrow> ('c, 's) kernel \<Rightarrow> bool option" where
  "all_zombies [] k = Some True"
| "all_zombies (t # ts) k = do {
     th \<leftarrow> k_threads k t;
     if thread_state th \<noteq> Zombie then Some False else all_zombies ts k
   }"

definition is_zombie :: "Process \<Rightarrow> ('c, 's) kernel \<Rightarrow> bool option" where
  "is_zombie pr k = all_zombies (take (unat (threads_count pr)) (threads_data pr)) k"

subsection \<open>Release\<close>

text \<open>
  \<^verbatim>\<open>free_process\<close> and \<^verbatim>\<open>free_thread\<close> call each other: the release of the last thread releases its process, and
  then there is no thread left for the loop over the threads.  \<open>release_process\<close> is what follows that loop.
\<close>

definition notify_exit :: "nat \<Rightarrow> ('c, 's) kernel \<Rightarrow> ('c, 's) kernel option" where
  "notify_exit p k = do {
     pr \<leftarrow> k_processes k p;
     Some (set_process p (pr\<lparr>exit_listeners := []\<rparr>)
       (k\<lparr>k_mutexes := fold (\<lambda>m ms. ms(m := spinlock_release (ms m))) (exit_listeners pr) (k_mutexes k)\<rparr>))
   }"

fun close_files :: "('c, 's) fs_table \<Rightarrow> nat option list \<Rightarrow> ('c, 's) vfs \<Rightarrow> ('c, 's) vfs option" where
  "close_files ops [] v = Some v"
| "close_files ops (custody # files) v =
     (if custody = None then close_files ops files v
      else do {
        (_, v) \<leftarrow> vfs_close ops custody v;
        close_files ops files v
      })"

definition release_process :: "('c, 's) fs_table \<Rightarrow> nat \<Rightarrow> ('c, 's) kernel \<Rightarrow> ('c, 's) kernel option" where
  "release_process ops p k = do {
     pr \<leftarrow> k_processes k p;
     v \<leftarrow> close_files ops (openfiles pr) (k_vfs k);
     (_, vm) \<leftarrow> vm_free (address_space pr) (k_vm k);
     Some (k\<lparr>k_vfs := v, k_vm := vm, k_processes := (k_processes k)(p := None)\<rparr>)
   }"

definition free_thread :: "('c, 's) fs_table \<Rightarrow> nat \<Rightarrow> ('c, 's) kernel \<Rightarrow> ('c, 's) kernel option" where
  "free_thread ops t k = do {
     th \<leftarrow> k_threads k t;
     let parent = thread_process th;
     pr \<leftarrow> k_processes k parent;
     check (unat (threads_count pr) \<le> length (threads_data pr));
     let pr = pr\<lparr>threads_data := snd (array_swap_remove (threads_data pr) (unat (threads_count pr)) t),
                 threads_count := threads_count pr - 1\<rparr>;
     let k = set_process parent pr (k\<lparr>k_threads := (k_threads k)(t := None)\<rparr>);
     let idx = array_find (s_all_threads k) (s_all_threads_len k) (Some t);
     let k = (if idx \<noteq> s_all_threads_len k then k\<lparr>s_all_threads := (s_all_threads k)[idx := None]\<rparr> else k);
     if threads_count pr = 0 then do {
       k \<leftarrow> notify_exit parent k;
       release_process ops parent k
     }
     else Some k
   }"

partial_function (option) free_threads_loop ::
  "('c, 's) fs_table \<Rightarrow> nat \<Rightarrow> nat \<Rightarrow> ('c, 's) kernel \<Rightarrow> ('c, 's) kernel option" where
  "free_threads_loop ops i p k = do {
     pr \<leftarrow> k_processes k p;
     if i < unat (threads_count pr) then do {
       t \<leftarrow> (case threads_data pr of [] \<Rightarrow> None | t # _ \<Rightarrow> Some t);
       k \<leftarrow> free_thread ops t k;
       free_threads_loop ops (Suc i) p k
     }
     else Some k
   }"

definition free_process :: "('c, 's) fs_table \<Rightarrow> nat \<Rightarrow> ('c, 's) kernel \<Rightarrow> ('c, 's) kernel option" where
  "free_process ops p k = do {
     k \<leftarrow> notify_exit p k;
     k \<leftarrow> free_threads_loop ops 0 p k;
     release_process ops p k
   }"

subsection \<open>Creating a process\<close>

text \<open>
  The cleanup of \<^verbatim>\<open>alloc_process\<close> follows \<^verbatim>\<open>threads.data[0]\<close> whenever the process itself could be allocated, also
  where that pointer has not been set yet; \<open>stack\<close> is what \<^verbatim>\<open>kernel_stack_ptr\<close> holds, 0 for null, \<open>as\<close> the
  address space.  The name is copied without a bound into 64 bytes.
\<close>

definition alloc_process_cleanup :: "nat option \<Rightarrow> u32 \<Rightarrow> ('c, 's) kernel \<Rightarrow> (nat option \<times> ('c, 's) kernel) option" where
  "alloc_process_cleanup as stack k = do {
     (_, vm) \<leftarrow> vm_free as (k_vm k);
     vm \<leftarrow> (if stack \<noteq> 0 then free_kernel_stack stack vm else Some vm);
     Some (None, k\<lparr>k_vm := vm\<rparr>)
   }"

text \<open>The part of \<^verbatim>\<open>alloc_process\<close> behind the allocations of memory and the address space.\<close>

definition alloc_process_stacks ::
  "nat \<Rightarrow> nat \<Rightarrow> nat \<Rightarrow> int \<Rightarrow> string \<Rightarrow> u32 \<Rightarrow> bool \<Rightarrow> ('c, 's) kernel \<Rightarrow> (nat option \<times> ('c, 's) kernel) option" where
  "alloc_process_stacks p t as n name entrypoint privileged k = do {
     (kernel_stack, vm) \<leftarrow> alloc_kernel_stack (k_vm k);
     let k = k\<lparr>k_vm := vm\<rparr>;
     case kernel_stack of
       None \<Rightarrow> alloc_process_cleanup (Some as) 0 k
     | Some kernel_stack \<Rightarrow> do {
         (user_stack, vm) \<leftarrow> alloc_thread_user_stack (Some as) 0 (k_vm k);
         let k = k\<lparr>k_vm := vm\<rparr>;
         case user_stack of
           None \<Rightarrow> alloc_process_cleanup (Some as) kernel_stack k
         | Some user_stack \<Rightarrow> do {
             let (sp, frame) = arch_create_initial_kernel_stack kernel_stack user_stack entrypoint privileged;
             Some (Some p,
               set_thread t \<lparr>tid = 0, thread_process = p, iframe = frame, kernel_stack_ptr = sp, thread_state = Suspended\<rparr>
               (set_process p \<lparr>next_available_tid = 1, pid = n, exit_code = 0, process_name = name,
                  address_space = Some as, openfiles = replicate MAX_OPEN_FILES None, working_directory = ''/'',
                  exit_listeners = [], threads_data = [t], threads_count = 1\<rparr> k))
           }
       }
   }"

definition alloc_process :: "string \<Rightarrow> u32 \<Rightarrow> bool \<Rightarrow> ('c, 's) kernel \<Rightarrow> (nat option \<times> ('c, 's) kernel) option" where
  "alloc_process name entrypoint privileged k = (
     let (process_ok, k) = kernel_malloc k;
         (array_ok, k) = kernel_malloc k;
         (thread_ok, k) = kernel_malloc k
     in if \<not> process_ok then Some (None, k)
        else do {
          check (array_ok \<and> thread_ok);
          check (length name < 64);
          let (p, k) = kernel_address k;
          let (t, k) = kernel_address k;
          let n = s_next_available_pid k;
          let k = k\<lparr>s_next_available_pid := n + 1\<rparr>;
          let (cwd_ok, k) = kernel_malloc k;
          check cwd_ok;
          (r, vm) \<leftarrow> vm_create_address_space (k_vm k);
          case r of
            Inl e \<Rightarrow> None
          | Inr as \<Rightarrow> alloc_process_stacks p t as n name entrypoint privileged (k\<lparr>k_vm := vm\<rparr>)
        })"

end
