(* ===== verification/Syscalls.thy ===== *)
theory Syscalls
  imports Process
begin

text \<open>
  The system calls on files and on the working directory (\<^verbatim>\<open>kernel/scheduler.cpp\<close>, lines 597 to 1041).  Each takes
  the calling process \<open>p\<close>.  What the code stores through a pointer of the caller is a further result.  The calls
  that give up the processor while a file is not ready return \<open>Yield\<close> and are then made again.
\<close>

subsection \<open>File descriptors\<close>

text \<open>\<open>None\<close> in the result is the early return of \<open>- ERR_BADF\<close> that every call begins with.\<close>

definition descriptor :: "Process \<Rightarrow> i32 \<Rightarrow> nat option" where
  "descriptor pr fd =
     (if sint fd < 0 \<or> unat fd \<ge> length (openfiles pr) then None else openfiles pr ! unat fd)"

definition valid_fd :: "Process \<Rightarrow> i32 \<Rightarrow> bool" where
  "valid_fd pr fd \<longleftrightarrow> \<not> (sint fd < 0 \<or> unat fd \<ge> length (openfiles pr))"

definition free_descriptor :: "Process \<Rightarrow> nat option" where
  "free_descriptor pr = (let i = length (takeWhile (\<lambda>c. c \<noteq> None) (openfiles pr))
     in if i < length (openfiles pr) then Some i else None)"

definition set_file_slot :: "nat \<Rightarrow> nat \<Rightarrow> nat option \<Rightarrow> ('c, 's) kernel \<Rightarrow> ('c, 's) kernel option" where
  "set_file_slot p fd c k = do {
     pr \<leftarrow> k_processes k p;
     Some (set_process p (pr\<lparr>openfiles := (openfiles pr)[fd := c]\<rparr>) k)
   }"

subsection \<open>Opening and closing\<close>

definition sys_open :: "('c, 's) fs_table \<Rightarrow> nat \<Rightarrow> string \<Rightarrow> u32 \<Rightarrow> ('c, 's) kernel \<Rightarrow> (int \<times> ('c, 's) kernel) option" where
  "sys_open ops p path flags k = do {
     pr \<leftarrow> k_processes k p;
     case free_descriptor pr of
       None \<Rightarrow> Some (- errno ERR_NFILE, k)
     | Some fd \<Rightarrow> do {
         (rc, custody, v) \<leftarrow> vfs_open ops (working_directory pr) path flags (k_vfs k);
         let k = k\<lparr>k_vfs := v\<rparr>;
         if rc \<noteq> 0 then Some (rc, k)
         else do {
           k \<leftarrow> set_file_slot p fd custody k;
           Some (int fd, k)
         }
       }
   }"

definition sys_close :: "('c, 's) fs_table \<Rightarrow> nat \<Rightarrow> i32 \<Rightarrow> ('c, 's) kernel \<Rightarrow> (int \<times> ('c, 's) kernel) option" where
  "sys_close ops p fd k = do {
     pr \<leftarrow> k_processes k p;
     case descriptor pr fd of
       None \<Rightarrow> Some (- errno ERR_BADF, k)
     | Some c \<Rightarrow> do {
         (rc, v) \<leftarrow> vfs_close ops (Some c) (k_vfs k);
         k \<leftarrow> set_file_slot p (unat fd) None (k\<lparr>k_vfs := v\<rparr>);
         Some (rc, k)
       }
   }"

text \<open>The descriptors that the call stores are the third and the fourth component.\<close>

definition close_if_open :: "('c, 's) fs_table \<Rightarrow> nat option \<Rightarrow> ('c, 's) kernel \<Rightarrow> ('c, 's) kernel option" where
  "close_if_open ops c k =
     (if c = None then Some k
      else do {
        (_, v) \<leftarrow> vfs_close ops c (k_vfs k);
        Some (k\<lparr>k_vfs := v\<rparr>)
      })"

definition sys_create_pipe ::
  "('c, 's) fs_table \<Rightarrow> nat \<Rightarrow> ('c, 's) kernel \<Rightarrow> (int \<times> (nat \<times> nat) option \<times> ('c, 's) kernel) option" where
  "sys_create_pipe ops p k = do {
     (rc, write_custody, read_custody, v) \<leftarrow> vfs_create_pipe ops (k_vfs k);
     let k = k\<lparr>k_vfs := v\<rparr>;
     pr \<leftarrow> k_processes k p;
     if rc \<noteq> 0 then do {
       k \<leftarrow> close_if_open ops read_custody k;
       k \<leftarrow> close_if_open ops write_custody k;
       Some (rc, None, k)
     }
     else (case free_descriptor pr of
       None \<Rightarrow> do {
         k \<leftarrow> close_if_open ops read_custody k;
         k \<leftarrow> close_if_open ops write_custody k;
         Some (- errno ERR_NFILE, None, k)
       }
     | Some read_fd \<Rightarrow> do {
         k \<leftarrow> set_file_slot p read_fd read_custody k;
         pr \<leftarrow> k_processes k p;
         case free_descriptor pr of
           None \<Rightarrow> do {
             k \<leftarrow> close_if_open ops read_custody k;
             k \<leftarrow> close_if_open ops write_custody k;
             k \<leftarrow> set_file_slot p read_fd None k;
             Some (- errno ERR_NFILE, None, k)
           }
         | Some write_fd \<Rightarrow> do {
             k \<leftarrow> set_file_slot p write_fd write_custody k;
             Some (0, Some (read_fd, write_fd), k)
           }
       })
   }"

definition sys_movefd :: "('c, 's) fs_table \<Rightarrow> nat \<Rightarrow> i32 \<Rightarrow> i32 \<Rightarrow> ('c, 's) kernel \<Rightarrow> (int \<times> ('c, 's) kernel) option" where
  "sys_movefd ops p fd new_fd k = do {
     pr \<leftarrow> k_processes k p;
     case descriptor pr fd of
       None \<Rightarrow> Some (- errno ERR_BADF, k)
     | Some c \<Rightarrow>
         if \<not> valid_fd pr new_fd then Some (- errno ERR_BADF, k)
         else do {
           k \<leftarrow> close_if_open ops (openfiles pr ! unat new_fd) k;
           k \<leftarrow> set_file_slot p (unat new_fd) (Some c) k;
           k \<leftarrow> set_file_slot p (unat fd) None k;
           Some (0, k)
         }
   }"

text \<open>The custody to duplicate is read again after the target has been closed.\<close>

definition sys_dup2 :: "('c, 's) fs_table \<Rightarrow> nat \<Rightarrow> i32 \<Rightarrow> i32 \<Rightarrow> ('c, 's) kernel \<Rightarrow> (int \<times> ('c, 's) kernel) option" where
  "sys_dup2 ops p fd new_fd k = do {
     pr \<leftarrow> k_processes k p;
     if descriptor pr fd = None then Some (- errno ERR_BADF, k)
     else if \<not> valid_fd pr new_fd then Some (- errno ERR_BADF, k)
     else do {
       k \<leftarrow> (if openfiles pr ! unat new_fd \<noteq> None then do {
               k \<leftarrow> close_if_open ops (openfiles pr ! unat new_fd) k;
               set_file_slot p (unat new_fd) None k
             } else Some k);
       pr \<leftarrow> k_processes k p;
       c \<leftarrow> openfiles pr ! unat fd;
       (dup, v) \<leftarrow> vfs_duplicate c (k_vfs k);
       k \<leftarrow> set_file_slot p (unat new_fd) dup (k\<lparr>k_vfs := v\<rparr>);
       Some (0, k)
     }
   }"

subsection \<open>Reading, writing and the rest\<close>

definition sys_read ::
  "('c, 's) fs_table \<Rightarrow> nat \<Rightarrow> i32 \<Rightarrow> u32 \<Rightarrow> ('c, 's) kernel \<Rightarrow> ((int \<times> u8 list) blocking \<times> ('c, 's) kernel) option" where
  "sys_read ops p fd n k = do {
     pr \<leftarrow> k_processes k p;
     case descriptor pr fd of
       None \<Rightarrow> Some (Return (- errno ERR_BADF, []), k)
     | Some c \<Rightarrow> do {
         (r, v) \<leftarrow> vfs_read ops c n (k_vfs k);
         Some (r, k\<lparr>k_vfs := v\<rparr>)
       }
   }"

definition sys_write ::
  "('c, 's) fs_table \<Rightarrow> nat \<Rightarrow> i32 \<Rightarrow> u8 list \<Rightarrow> ('c, 's) kernel \<Rightarrow> (int blocking \<times> ('c, 's) kernel) option" where
  "sys_write ops p fd buf k = do {
     pr \<leftarrow> k_processes k p;
     case descriptor pr fd of
       None \<Rightarrow> Some (Return (- errno ERR_BADF), k)
     | Some c \<Rightarrow> do {
         (r, v) \<leftarrow> vfs_write ops c buf (k_vfs k);
         Some (r, k\<lparr>k_vfs := v\<rparr>)
       }
   }"

definition sys_fstat :: "nat \<Rightarrow> i32 \<Rightarrow> ('c, 's) kernel \<Rightarrow> (int \<times> Stat option) option" where
  "sys_fstat p fd k = do {
     pr \<leftarrow> k_processes k p;
     case descriptor pr fd of
       None \<Rightarrow> Some (- errno ERR_BADF, None)
     | Some c \<Rightarrow> do {
         (rc, stat) \<leftarrow> vfs_fstat c (k_vfs k);
         Some (rc, Some stat)
       }
   }"

definition sys_seek ::
  "('c, 's) fs_table \<Rightarrow> nat \<Rightarrow> i32 \<Rightarrow> i32 \<Rightarrow> int \<Rightarrow> ('c, 's) kernel \<Rightarrow> (int \<times> int option \<times> ('c, 's) kernel) option" where
  "sys_seek ops p fd off whence k = do {
     pr \<leftarrow> k_processes k p;
     case descriptor pr fd of
       None \<Rightarrow> Some (- errno ERR_BADF, None, k)
     | Some c \<Rightarrow> do {
         (newoff, v) \<leftarrow> vfs_seek ops c whence off (k_vfs k);
         let k = k\<lparr>k_vfs := v\<rparr>;
         if newoff < 0 then Some (newoff, None, k) else Some (0, Some newoff, k)
       }
   }"

definition sys_istty :: "('c, 's) fs_table \<Rightarrow> nat \<Rightarrow> i32 \<Rightarrow> ('c, 's) kernel \<Rightarrow> int option" where
  "sys_istty ops p fd k = do {
     pr \<leftarrow> k_processes k p;
     case descriptor pr fd of
       None \<Rightarrow> Some (- errno ERR_BADF)
     | Some c \<Rightarrow> vfs_istty ops c (k_vfs k)
   }"

text \<open>
  One round of the loop of \<^verbatim>\<open>sys$poll\<close> over the descriptors: an error, the index of the first one that is ready, or
  none; with the array as the round leaves it.
\<close>

record PollFd =
  poll_fd :: i32
  poll_events :: u32
  poll_revents :: u32

fun poll_round ::
  "('c, 's) fs_table \<Rightarrow> Process \<Rightarrow> ('c, 's) vfs \<Rightarrow> nat \<Rightarrow> PollFd list \<Rightarrow> ((int + nat option) \<times> PollFd list) option" where
  "poll_round ops pr v i [] = Some (Inr None, [])"
| "poll_round ops pr v i (f # fds) =
     (if sint (poll_fd f) < 0 then do {
        (r, fds) \<leftarrow> poll_round ops pr v (Suc i) fds;
        Some (r, f # fds)
      }
      else case descriptor pr (poll_fd f) of
        None \<Rightarrow> Some (Inl (- errno ERR_BADF), f # fds)
      | Some c \<Rightarrow> do {
          (rc, revents) \<leftarrow> vfs_poll ops c (poll_events f) 0 v;
          let f = f\<lparr>poll_revents := revents\<rparr>;
          if rc \<noteq> 0 then Some (Inl rc, f # fds)
          else if revents \<noteq> 0 then Some (Inr (Some i), f # fds)
          else do {
            (r, fds) \<leftarrow> poll_round ops pr v (Suc i) fds;
            Some (r, f # fds)
          }
        })"

text \<open>
  The call between two yields; \<open>elapsed\<close> are the milliseconds since it started.
\<close>

definition sys_poll ::
  "('c, 's) fs_table \<Rightarrow> nat \<Rightarrow> PollFd list \<Rightarrow> i32 \<Rightarrow> int \<Rightarrow> ('c, 's) kernel \<Rightarrow> (int blocking \<times> PollFd list) option" where
  "sys_poll ops p fds timeout elapsed k = do {
     pr \<leftarrow> k_processes k p;
     (r, fds) \<leftarrow> poll_round ops pr (k_vfs k) 0 fds;
     Some (case r of
         Inl rc \<Rightarrow> Return rc
       | Inr (Some i) \<Rightarrow> Return (int i)
       | Inr None \<Rightarrow> if sint timeout > 0 \<and> elapsed > sint timeout then Return (- errno ERR_TIMEDOUT) else Yield, fds)
   }"

definition sys_ioctl ::
  "('c, 's) fs_table \<Rightarrow> nat \<Rightarrow> i32 \<Rightarrow> u32 \<Rightarrow> u8 list \<Rightarrow> ('c, 's) kernel \<Rightarrow> (int \<times> u8 list \<times> ('c, 's) kernel) option" where
  "sys_ioctl ops p fd request argp k = do {
     pr \<leftarrow> k_processes k p;
     case descriptor pr fd of
       None \<Rightarrow> Some (- errno ERR_BADF, argp, k)
     | Some c \<Rightarrow> do {
         (rc, argp, v) \<leftarrow> vfs_ioctl ops c request argp (k_vfs k);
         Some (rc, argp, k\<lparr>k_vfs := v\<rparr>)
       }
   }"

definition sys_mmap :: "('c, 's) fs_table \<Rightarrow> nat \<Rightarrow> i32 \<Rightarrow> u32 \<Rightarrow> u32 \<Rightarrow> u32 \<Rightarrow> ('c, 's) kernel \<Rightarrow> int option" where
  "sys_mmap ops p fd vaddr len flags k = do {
     pr \<leftarrow> k_processes k p;
     if \<not> vm_addr_is_page_aligned vaddr then Some (- errno ERR_INVAL)
     else case descriptor pr fd of
       None \<Rightarrow> Some (- errno ERR_BADF)
     | Some c \<Rightarrow> vfs_mmap ops c vaddr (vm_align_up_to_page len) flags (k_vfs k)
   }"

subsection \<open>The working directory\<close>

text \<open>A C string in memory ends at its terminator.\<close>

definition c_string :: "string \<Rightarrow> string" where
  "c_string s = takeWhile (\<lambda>c. c \<noteq> NUL) s"

definition createcwd :: "string \<Rightarrow> string \<Rightarrow> ('c, 's) kernel \<Rightarrow> ((Errors + string) \<times> ('c, 's) kernel) option" where
  "createcwd workdir userpath k =
     (if path_is_absolute userpath then
        if strnlen userpath MAX_PATH_LEN \<ge> MAX_PATH_LEN then Some (Inl ERR_2BIG, k)
        else do {
          let (ok, k) = kernel_malloc k;
          cpath \<leftarrow> canonicalize_path ok userpath;
          case cpath of
            None \<Rightarrow> Some (Inl ERR_NOMEM, k)
          | Some cpath \<Rightarrow> do { s \<leftarrow> decanonicalize_path cpath; Some (Inr (c_string s), k) }
        }
      else
        let too_long = (strnlen workdir MAX_PATH_LEN + strnlen userpath MAX_PATH_LEN + 2 > MAX_PATH_LEN);
            (ok, k) = (if too_long then (False, k) else kernel_malloc k)
        in case pathjoin ok workdir userpath of
             None \<Rightarrow> Some (Inl ERR_NOMEM, k)
           | Some temp \<Rightarrow> do {
               let (ok, k) = kernel_malloc k;
               cpath \<leftarrow> canonicalize_path ok temp;
               case cpath of
                 None \<Rightarrow> Some (Inl ERR_NOMEM, k)
               | Some cpath \<Rightarrow> do { s \<leftarrow> decanonicalize_path cpath; Some (Inr (c_string s), k) }
             })"

definition sys_setcwd :: "nat \<Rightarrow> string \<Rightarrow> ('c, 's) kernel \<Rightarrow> (int \<times> ('c, 's) kernel) option" where
  "sys_setcwd p path k = do {
     pr \<leftarrow> k_processes k p;
     (r, k) \<leftarrow> createcwd (working_directory pr) path k;
     case r of
       Inl e \<Rightarrow> Some (- errno e, k)
     | Inr new_workdir \<Rightarrow> Some (0, set_process p (pr\<lparr>working_directory := new_workdir\<rparr>) k)
   }"

text \<open>The bytes that the call stores, padded with terminators by \<^verbatim>\<open>strncpy\<close>.\<close>

definition sys_getcwd :: "nat \<Rightarrow> nat \<Rightarrow> ('c, 's) kernel \<Rightarrow> (int \<times> string) option" where
  "sys_getcwd p buflen k = do {
     pr \<leftarrow> k_processes k p;
     let s = working_directory pr;
     if strnlen s MAX_PATH_LEN \<ge> buflen then Some (- errno ERR_2BIG, [])
     else Some (0, take (buflen - 1) (s @ replicate buflen NUL) @ [NUL])
   }"

subsection \<open>Processes\<close>

definition current_process :: "('c, 's) kernel \<Rightarrow> nat option" where
  "current_process k = do {
     t \<leftarrow> s_current_thread k;
     th \<leftarrow> k_threads k t;
     Some (thread_process th)
   }"

definition sys_getpid :: "nat \<Rightarrow> ('c, 's) kernel \<Rightarrow> int option" where
  "sys_getpid p k = map_option pid (k_processes k p)"

text \<open>The thread does not run again: it yields, and the scheduler frees it.\<close>

definition sys_exit :: "nat \<Rightarrow> i32 \<Rightarrow> ('c, 's) kernel \<Rightarrow> ('c, 's) kernel option" where
  "sys_exit t code k = do {
     th \<leftarrow> k_threads k t;
     pr \<leftarrow> k_processes k (thread_process th);
     Some (set_process (thread_process th) (pr\<lparr>exit_code := code\<rparr>) (set_thread t (th\<lparr>thread_state := Zombie\<rparr>) k))
   }"

text \<open>
  \<^verbatim>\<open>sys$waitexit\<close> up to the point where it takes its mutex \<open>m\<close>: the call has ended with a result, or it waits.
\<close>

definition sys_waitexit :: "nat \<Rightarrow> int \<Rightarrow> ('c, 's) kernel \<Rightarrow> (int blocking \<times> ('c, 's) kernel) option" where
  "sys_waitexit m n k = do {
     let k = k\<lparr>k_mutexes := (k_mutexes k)(m := mutex_init Locked)\<rparr>;
     found \<leftarrow> lookup_process_by_pid n k;
     case found of
       None \<Rightarrow> Some (Return (- errno ERR_INVAL), k)
     | Some q \<Rightarrow> do {
         pr \<leftarrow> k_processes k q;
         kassert (pid pr = n);
         zombie \<leftarrow> is_zombie pr k;
         if zombie then Some (Return 0, k)
         else Some (Yield, set_process q (pr\<lparr>exit_listeners := m # exit_listeners pr\<rparr>) k)
       }
   }"

text \<open>The mutex \<open>m\<close> is on the kernel stack; a timer that is started once releases it.\<close>

definition sys_millisleep :: "nat \<Rightarrow> i32 \<Rightarrow> ('c, 's) kernel \<Rightarrow> int blocking \<times> ('c, 's) kernel" where
  "sys_millisleep m ms k =
     (if sint ms < 0 then (Return (- errno ERR_INVAL), k)
      else if ms = 0 then (Return 0, k)
      else (Yield, k\<lparr>k_mutexes := (k_mutexes k)(m := mutex_init Locked), k_sleepers := m # k_sleepers k\<rparr>))"

definition sleep_expired :: "nat \<Rightarrow> ('c, 's) kernel \<Rightarrow> ('c, 's) kernel option" where
  "sleep_expired m k =
     (if m \<in> set (k_sleepers k)
      then Some (k\<lparr>k_mutexes := (k_mutexes k)(m := spinlock_release (k_mutexes k m)), k_sleepers := remove1 m (k_sleepers k)\<rparr>)
      else None)"

definition sys_getticks :: "u32 \<Rightarrow> int" where
  "sys_getticks ticks_ms = sint ticks_ms"

text \<open>\<^verbatim>\<open>mutex_take\<close> on the way: the wait is over when the mutex is free.\<close>

definition resume_wait :: "nat \<Rightarrow> ('c, 's) kernel \<Rightarrow> int blocking \<times> ('c, 's) kernel" where
  "resume_wait m k =
     (if spinlock_is_taken (k_mutexes k m) then (Yield, k)
      else (Return 0, k\<lparr>k_mutexes := (k_mutexes k)(m := snd (try_acquire (k_mutexes k m)))\<rparr>))"

text \<open>
  The loop that duplicates the open files into the new process, from descriptor \<open>i\<close>; \<open>False\<close> when \<^verbatim>\<open>malloc\<close> failed.
\<close>

fun fork_files :: "nat \<Rightarrow> nat \<Rightarrow> nat option list \<Rightarrow> ('c, 's) kernel \<Rightarrow> (bool \<times> ('c, 's) kernel) option" where
  "fork_files q i [] k = Some (True, k)"
| "fork_files q i (None # files) k = fork_files q (Suc i) files k"
| "fork_files q i (Some c # files) k = do {
     (dup, v) \<leftarrow> vfs_duplicate c (k_vfs k);
     k \<leftarrow> set_file_slot q i dup (k\<lparr>k_vfs := v\<rparr>);
     if dup = None then Some (False, k) else fork_files q (Suc i) files k
   }"

text \<open>The cleanup calls \<^verbatim>\<open>free_process\<close>, with a null pointer when there is no new process.\<close>

definition fork_failed :: "('c, 's) fs_table \<Rightarrow> nat option \<Rightarrow> ('c, 's) kernel \<Rightarrow> (int \<times> ('c, 's) kernel) option" where
  "fork_failed ops q k = do {
     q \<leftarrow> q;
     k \<leftarrow> free_process ops q k;
     Some (- errno ERR_NOMEM, k)
   }"

definition fork_memory ::
  "('c, 's) fs_table \<Rightarrow> nat \<Rightarrow> nat \<Rightarrow> Process \<Rightarrow> ('c, 's) kernel \<Rightarrow> (int \<times> ('c, 's) kernel) option" where
  "fork_memory ops t q pr k = do {
     th \<leftarrow> k_threads k t;
     qr \<leftarrow> k_processes k q;
     u \<leftarrow> (case threads_data qr of [] \<Rightarrow> None | u # _ \<Rightarrow> Some u);
     (err, as, vm) \<leftarrow> vm_fork (address_space pr) (address_space qr) (k_vm k);
     let k = set_process q (qr\<lparr>address_space := as\<rparr>) (k\<lparr>k_vm := vm\<rparr>);
     if err \<noteq> None then fork_failed ops (Some q) k
     else do {
       uth \<leftarrow> k_threads k u;
       let frame = (iframe th)\<lparr>frame_r := (frame_r (iframe th))[0 := 0]\<rparr>;
       k \<leftarrow> register_thread u (set_thread u (uth\<lparr>iframe := frame, thread_state := Runnable\<rparr>) k);
       Some (pid qr, k)
     }
   }"

definition sys_fork :: "('c, 's) fs_table \<Rightarrow> nat \<Rightarrow> ('c, 's) kernel \<Rightarrow> (int \<times> ('c, 's) kernel) option" where
  "sys_fork ops t k = do {
     th \<leftarrow> k_threads k t;
     pr \<leftarrow> k_processes k (thread_process th);
     (q, k) \<leftarrow> alloc_process (process_name pr) 0 False k;
     case q of
       None \<Rightarrow> fork_failed ops None k
     | Some q \<Rightarrow> do {
         qr \<leftarrow> k_processes k q;
         let (cwd_ok, k) = kernel_malloc k;
         if \<not> cwd_ok then fork_failed ops (Some q) k
         else do {
           let k = set_process q (qr\<lparr>working_directory := working_directory pr\<rparr>) k;
           (files_ok, k) \<leftarrow> fork_files q 0 (openfiles pr) k;
           if files_ok then fork_memory ops t q pr k else fork_failed ops (Some q) k
         }
       }
   }"

end
