(* ===== verification/UserMemory.thy ===== *)
theory UserMemory
  imports VmProps
begin

text \<open>
  The bytes of user memory, as the kernel reads and writes them through the translation tables of the current
  address space (\<^verbatim>\<open>vm_copy_from_user\<close>, \<^verbatim>\<open>vm_copy_to_user\<close> and \<^verbatim>\<open>vm_memset\<close> of \<^verbatim>\<open>kernel/memory/vm.cpp\<close>).  The processor
  walks the tables from the register \<open>ttbr0\<close>; an address without translation, or one that does not lead to RAM,
  gives \<open>None\<close>: the fault handler panics when the kernel faults on an address outside its own area.
\<close>

subsection \<open>Accesses\<close>

definition mmu_translate :: "vm_state \<Rightarrow> u32 \<Rightarrow> u32 option" where
  "mmu_translate s va = do {
     table \<leftarrow> phys2virt s (ttbr0 s);
     lvl1_entry \<leftarrow> load s (table_slot table (lvl1_index va));
     (if is_section lvl1_entry then
        Some (section_base_address (section_of lvl1_entry) OR (va AND 0x000fffff))
      else do {
        kassert (is_coarse_page lvl1_entry);
        lvl2_table \<leftarrow> phys2virt s (coarse_base_address (coarse_of lvl1_entry));
        lvl2_entry \<leftarrow> load s (table_slot lvl2_table (lvl2_index va));
        kassert (sp_identifier (small_page_of lvl2_entry) AND SMALL_PAGE_ENTRY_ID \<noteq> 0);
        Some (small_page_base_address (small_page_of lvl2_entry) OR (va AND 0x00000fff))
      })
   }"

definition user_address :: "vm_state \<Rightarrow> u32 \<Rightarrow> u32 option" where
  "user_address s va = do { phys \<leftarrow> mmu_translate s va; phys2virt s phys }"

definition set_word_byte :: "nat \<Rightarrow> u8 \<Rightarrow> u32 \<Rightarrow> u32" where
  "set_word_byte k b w = (w AND NOT (push_bit (8 * k) 0xff)) OR push_bit (8 * k) (ucast b)"

definition read_byte :: "vm_state \<Rightarrow> u32 \<Rightarrow> u8 option" where
  "read_byte s va = do {
     a \<leftarrow> user_address s va;
     w \<leftarrow> load s (a AND NOT (mask 2));
     Some (word_byte (unat (a AND mask 2)) w)
   }"

definition write_byte :: "u32 \<Rightarrow> u8 \<Rightarrow> vm_state \<Rightarrow> vm_state option" where
  "write_byte va b s = do {
     a \<leftarrow> user_address s va;
     w \<leftarrow> load s (a AND NOT (mask 2));
     store (a AND NOT (mask 2)) (set_word_byte (unat (a AND mask 2)) b w) s
   }"

fun write_bytes :: "u32 \<Rightarrow> u8 list \<Rightarrow> vm_state \<Rightarrow> vm_state option" where
  "write_bytes va [] s = Some s"
| "write_bytes va (b # bs) s = do { s \<leftarrow> write_byte va b s; write_bytes (va + 1) bs s }"

fun read_bytes :: "vm_state \<Rightarrow> u32 \<Rightarrow> nat \<Rightarrow> u8 list option" where
  "read_bytes s va 0 = Some []"
| "read_bytes s va (Suc n) = do { b \<leftarrow> read_byte s va; bs \<leftarrow> read_bytes s (va + 1) n; Some (b # bs) }"

text \<open>Copying to an address space that is not the current one is not implemented: the code panics.\<close>

definition vm_copy_from_user :: "nat option \<Rightarrow> u32 \<Rightarrow> nat \<Rightarrow> vm_state \<Rightarrow> u8 list option" where
  "vm_copy_from_user as src len s = (if current_as s = as then read_bytes s src len else None)"

definition vm_copy_to_user :: "nat option \<Rightarrow> u32 \<Rightarrow> u8 list \<Rightarrow> vm_state \<Rightarrow> vm_state option" where
  "vm_copy_to_user as dest src s = (if current_as s = as then write_bytes dest src s else None)"

definition vm_memset :: "nat option \<Rightarrow> u32 \<Rightarrow> u8 \<Rightarrow> nat \<Rightarrow> vm_state \<Rightarrow> vm_state option" where
  "vm_memset as dest val n s = (if current_as s = as then write_bytes dest (replicate n val) s else None)"

subsection \<open>Bytes of words\<close>

lemma word_ff: "(0xff :: u32) = mask 8"
  by (simp add: mask_eq_exp_minus_1)

lemma word_byte_same: "k < 4 \<Longrightarrow> word_byte k (set_word_byte k b w) = b"
  unfolding word_byte_def set_word_byte_def word_ff
  by (rule bit_word_eqI) (auto simp: bit_simps dest: bit_imp_le_length)

lemma word_byte_other:
  assumes "k < 4" "j < 4" "j \<noteq> k"
  shows "word_byte j (set_word_byte k b w) = word_byte j w"
  unfolding word_byte_def set_word_byte_def word_ff
  by (rule bit_word_eqI) (use assms in \<open>auto simp: bit_simps dest: bit_imp_le_length\<close>)

lemma align_unat: "unat ((a :: u32) AND NOT (mask n)) = unat a - unat a mod 2 ^ n"
proof -
  have "(a AND mask n) + (a AND NOT (mask n)) = (a AND mask n) OR (a AND NOT (mask n))"
    by (rule disjunctive_add) (simp add: bit_simps)
  also have "\<dots> = a" by (rule bit_word_eqI) (auto simp: bit_simps)
  finally have "a AND NOT (mask n) = a - (a AND mask n)" by (simp add: eq_diff_eq add.commute)
  moreover have "a AND mask n \<le> a" by (simp add: word_le_nat_alt and_mask_unat)
  ultimately show ?thesis by (simp add: unat_sub and_mask_unat)
qed

lemma align_win: "n < 2 ^ 29 \<Longrightarrow> win n AND NOT (mask 2) = win (4 * (n div 4)) \<and> unat (win n AND mask 2) = n mod 4"
proof -
  assume n: "n < 2 ^ 29"
  have "unat (win n AND NOT (mask 2)) = unat (win (4 * (n div 4)))"
    using n unat_win [of n] unat_win [of "4 * (n div 4)"] mult_div_mod_eq [of 4 n] by (simp add: align_unat mod_add_eq [symmetric]) presburger
  moreover have "unat (win n AND mask 2) = n mod 4"
    using unat_win [OF n] by (simp add: and_mask_unat) presburger
  ultimately show ?thesis by (simp add: word_unat_eq_iff)
qed

subsection \<open>The frames behind user memory\<close>

text \<open>
  Ghost value: \<open>D n\<close> is the page frame that backs page \<open>n\<close> of the current address space \<open>r\<close>.  Frames are blocks
  that the allocator has handed out, so that no frame is a translation table, and no frame backs two pages.
\<close>

definition page_number :: "u32 \<Rightarrow> nat" where
  "page_number va = unat va div 4096"

definition user_frames ::
  "vm_state \<Rightarrow> (PageOrder \<Rightarrow> nat list) \<Rightarrow> block list \<Rightarrow> nat set \<Rightarrow> (nat \<times> nat \<Rightarrow> nat option) \<Rightarrow> nat \<Rightarrow> (nat \<Rightarrow> nat option) \<Rightarrow> bool" where
  "user_frames s F A R T r D \<longleftrightarrow> vm_wf s F A R T \<and> r \<in> R \<and> current_as s = Some r \<and> ttbr0 s = phys_of s r \<and>
     (\<forall>n p. D n = Some p \<longrightarrow> (p, Order4KB) \<in> set A) \<and>
     (\<forall>n m p. D n = Some p \<longrightarrow> D m = Some p \<longrightarrow> n = m) \<and>
     (\<forall>va p. D (page_number va) = Some p \<longrightarrow> user_va va \<and> (\<exists>perm. lvl2_entry s T r va = small_entry (phys_of s p) perm))"

lemma same_entry_page: "same_entry v va \<longleftrightarrow> page_number v = page_number va"
proof
  assume "same_entry v va"
  then have "unat v div 4096 mod 256 = unat va div 4096 mod 256" "unat v div 4096 div 256 = unat va div 4096 div 256"
    by (simp_all add: same_entry_def lvl1_index_div lvl2_index_div div_mult2_eq [symmetric])
  then show "page_number v = page_number va" unfolding page_number_def by (metis mult_div_mod_eq)
next
  assume "page_number v = page_number va"
  then have "unat v div 4096 = unat va div 4096" by (simp add: page_number_def)
  then have "unat v div 4096 div 256 = unat va div 4096 div 256" "unat v div 4096 mod 256 = unat va div 4096 mod 256" by simp_all
  then show "same_entry v va" by (simp add: same_entry_def lvl1_index_div lvl2_index_div div_mult2_eq [symmetric])
qed

lemma user_framesD:
  assumes "user_frames s F A R T r D"
  shows "vm_wf s F A R T" "r \<in> R" "current_as s = Some r" "ttbr0 s = phys_of s r" "D n = Some p \<Longrightarrow> (p, Order4KB) \<in> set A"
    "D n = Some p \<Longrightarrow> D m = Some p \<Longrightarrow> n = m" "D (page_number va) = Some p \<Longrightarrow> user_va va"
    "D (page_number va) = Some p \<Longrightarrow> \<exists>perm. lvl2_entry s T r va = small_entry (phys_of s p) perm"
  using assms unfolding user_frames_def by blast+

lemma small_entry_identifier: "sp_identifier (small_page_of (small_entry a p)) = SMALL_PAGE_ENTRY_ID"
  using arg_cong [OF small_page_entry_fields [of a p], of sp_identifier]
  by (simp only: small_entry_def) (simp add: make_small_page_entry_def)

lemma coarse_entry_kind: "\<not> is_section (coarse_entry a) \<and> is_coarse_page (coarse_entry a)"
proof -
  have "cp_identifier (coarse_of x) = se_identifier (section_of x)" for x by (simp add: coarse_of_def section_of_def)
  then show ?thesis by (simp add: is_section_def is_coarse_page_def coarse_entry_identifier)
qed

lemma frame_block:
  assumes inv: "pa_inv (vm_pa s) F A []" and geom: "vm_geom s" and p: "(p, Order4KB) \<in> set A"
  shows "1024 * p + 4096 \<le> unat (ram_size s)" "p < length (pages_data (vm_pa s))" "phys_of s p AND mask 12 = 0"
proof -
  have al: "aligned_block (length (pages_data (vm_pa s))) (p, Order4KB)" using pa_inv_aligned [OF inv, of "(p, Order4KB)"] p by simp
  then show len: "1024 * p + 4096 \<le> unat (ram_size s)" using geom by (simp add: aligned_block_def vm_geom_def)
  show p': "p < length (pages_data (vm_pa s))" by (rule block_head [OF inv p])
  have "4096 dvd unat (ram_phys_start s)"
    using vm_geomD(5) [OF geom] and_mask_unat [of "ram_phys_start s" 12] by (simp add: mod_eq_0_iff_dvd)
  moreover obtain k where "p = 4 * k" using al by (auto simp: aligned_block_def mod_eq_0_iff_dvd elim: dvdE)
  then have "4096 dvd 1024 * p" by simp
  ultimately have "4096 dvd unat (phys_of s p)" unfolding unat_phys_of [OF geom p'] by (rule dvd_add)
  then have "unat (phys_of s p) mod 4096 = 0" by (simp add: mod_eq_0_iff_dvd)
  then have "unat (phys_of s p AND mask 12) = 0" by (simp add: and_mask_unat)
  then show "phys_of s p AND mask 12 = 0" by (simp add: unat_eq_0)
qed

text \<open>Where a byte of a mapped page is in the window.\<close>

definition byte_offset :: "nat \<Rightarrow> u32 \<Rightarrow> nat" where
  "byte_offset p va = 1024 * p + unat va mod 4096"

lemma mmu_translate_frame:
  assumes u: "user_frames s F A R T r D" and p: "D (page_number va) = Some p"
  shows "mmu_translate s va = Some (phys_of s p OR (va AND 0xfff))"
proof -
  note d = user_framesD [OF u] and w = vm_wfD [OF user_framesD(1) [OF u]]
  have va: "user_va va" by (rule d(7) [OF p])
  have i: "lvl1_index va < 3072" by (rule user_va_lvl1 [OF va])
  have r: "r < length (pages_data (vm_pa s))" by (rule block_head [OF w(2) w(4) [OF d(2)]])
  obtain perm where e: "lvl2_entry s T r va = small_entry (phys_of s p) perm" using d(8) [OF p] by blast
  then obtain q where q: "T (r, lvl1_index va) = Some q" using small_entry_not_0 [of "phys_of s p" perm]
    by (cases "T (r, lvl1_index va)") (simp_all add: lvl2_entry_def)
  have b1: "slot1_of r va < unat (ram_size s)" using slot_bounds [OF d(1,2)] i by simp
  have b2: "slot2_of q va < unat (ram_size s)" using table_bounds [OF d(1) q] lvl2_index_less [of va] by linarith
  have ql: "q < length (pages_data (vm_pa s))" by (rule block_head [OF w(2) w(6) [OF q]])
  have l1: "load s (win (slot1_of r va)) = Some (coarse_entry (phys_of s q))"
    using load_win [OF w(1) b1] w(5) [OF d(2) i] q by simp
  have l2: "load s (win (slot2_of q va)) = Some (small_entry (phys_of s p) perm)"
    using load_win [OF w(1) b2] e q by (simp add: lvl2_entry_def)
  have kind: "\<not> is_section (coarse_entry (phys_of s q))" "is_coarse_page (coarse_entry (phys_of s q))"
    using coarse_entry_kind by blast+
  show ?thesis
    using phys2virt_phys [OF w(1) r] l1 l2 kind coarse_entry_base [OF w(1) ql] aligned_and_not_mask [OF frame_block(3) [OF w(2,1) d(5) [OF p]]]
    by (simp add: mmu_translate_def d(4) table_slot_win small_entry_identifier small_entry_base SMALL_PAGE_ENTRY_ID_def)
qed

lemma or_low_bits: "(a :: u32) AND mask n = 0 \<Longrightarrow> a OR (v AND mask n) = a + (v AND mask n)"
  by (rule disjunctive_add [symmetric])
    (metis (no_types, lifting) bit_0_eq bit_and_iff bot_fun_def bot_bool_def and.assoc and.commute and_zero_eq)

lemma phys2virt_ram:
  assumes g: "vm_geom s" and n: "n < unat (ram_size s)"
  shows "phys2virt s (ram_phys_start s + word_of_nat n) = Some (win n)"
proof -
  note b = vm_geomD(4) [OF g]
  have un: "unat (word_of_nat n :: u32) = n" using n b by (intro unat_of_nat_u32) linarith
  have sum: "unat (ram_phys_start s + word_of_nat n) = unat (ram_phys_start s) + n"
    using unat_add_u32 [of "ram_phys_start s" "word_of_nat n"] un n b by simp
  moreover have "unat (ram_phys_start s + ram_size s) = unat (ram_phys_start s) + unat (ram_size s)"
    using b by (intro unat_add_u32)
  ultimately have "ram_phys_start s \<le> ram_phys_start s + word_of_nat n" "ram_phys_start s + word_of_nat n < ram_phys_start s + ram_size s"
    unfolding word_le_nat_alt word_less_nat_alt using n by linarith+
  then show ?thesis by (simp add: phys2virt_def win_def physical_mem_start_def)
qed

lemma user_address_frame:
  assumes u: "user_frames s F A R T r D" and p: "D (page_number va) = Some p"
  shows "user_address s va = Some (win (byte_offset p va)) \<and> byte_offset p va < unat (ram_size s)"
proof -
  note d = user_framesD [OF u] and w = vm_wfD [OF user_framesD(1) [OF u]]
  note fb = frame_block [OF w(2,1) d(5) [OF p]]
  have b: "byte_offset p va < unat (ram_size s)" using fb(1) by (simp add: byte_offset_def)
  have "word_of_nat (unat (va AND mask 12)) = va AND mask 12" by (simp only: of_nat_unat ucast_id)
  then have low: "va AND mask 12 = word_of_nat (unat va mod 4096)" by (simp add: and_mask_unat)
  have "phys_of s p OR (va AND mask 12) = phys_of s p + (va AND mask 12)" by (rule or_low_bits [OF fb(3)])
  also have "\<dots> = ram_phys_start s + word_of_nat (byte_offset p va)" by (simp add: phys_of_def low byte_offset_def)
  finally have "phys2virt s (phys_of s p OR (va AND mask 12)) = Some (win (byte_offset p va))"
    using phys2virt_ram [OF w(1) b] by simp
  then show ?thesis using mmu_translate_frame [OF u p] b by (simp add: user_address_def mask_eq_exp_minus_1)
qed

subsection \<open>Reading after writing\<close>

lemma read_byte_frame:
  assumes u: "user_frames s F A R T r D" and p: "D (page_number va) = Some p"
  shows "read_byte s va = Some (word_byte (byte_offset p va mod 4) (vm_mem s (win (4 * (byte_offset p va div 4)))))"
proof -
  note w = vm_wfD [OF user_framesD(1) [OF u]] and a = user_address_frame [OF u p]
  have b: "4 * (byte_offset p va div 4) < unat (ram_size s)" using a by linarith
  have "byte_offset p va < 2 ^ 29" using a vm_geomD(3) [OF w(1)] by linarith
  then show ?thesis using a load_win [OF w(1) b] align_win [of "byte_offset p va"] by (simp add: read_byte_def)
qed

definition byte_written :: "nat \<Rightarrow> u32 \<Rightarrow> u8 \<Rightarrow> vm_state \<Rightarrow> vm_state" where
  "byte_written p va b s = (let a = win (4 * (byte_offset p va div 4))
     in s\<lparr>vm_mem := (vm_mem s)(a := set_word_byte (byte_offset p va mod 4) b (vm_mem s a))\<rparr>)"

lemma write_byte_frame:
  assumes u: "user_frames s F A R T r D" and p: "D (page_number va) = Some p"
  shows "write_byte va b s = Some (byte_written p va b s)"
proof -
  note w = vm_wfD [OF user_framesD(1) [OF u]] and a = user_address_frame [OF u p]
  have bo: "4 * (byte_offset p va div 4) < unat (ram_size s)" using a by linarith
  have "byte_offset p va < 2 ^ 29" using a vm_geomD(3) [OF w(1)] by linarith
  then show ?thesis using a load_win [OF w(1) bo] store_win [OF w(1) bo] align_win [of "byte_offset p va"]
    by (simp add: write_byte_def byte_written_def Let_def)
qed

lemma byte_in_block: "in_block (p, Order4KB) (4 * (byte_offset p va div 4))"
proof -
  have "unat va mod 4096 < 4096" by simp
  then show ?thesis by (simp add: in_block_def byte_offset_def) linarith
qed

lemma byte_written_frames:
  assumes u: "user_frames s F A R T r D" and p: "D (page_number va) = Some p"
  shows "user_frames (byte_written p va b s) F A R T r D"
    and "lvl2_entry (byte_written p va b s) T x y = lvl2_entry s T x y"
    and "D (page_number v) = Some q \<Longrightarrow> read_byte (byte_written p va b s) v = (if v = va then Some b else read_byte s v)"
proof -
  note d = user_framesD [OF u] and w = vm_wfD [OF user_framesD(1) [OF u]] and a = user_address_frame [OF u p]
  let ?n = "4 * (byte_offset p va div 4)" and ?s = "byte_written p va b s"
  have n: "?n < unat (ram_size s)" using a by linarith
  have sz: "unat (ram_size s) \<le> 2 ^ 29" by (rule vm_geomD(3) [OF w(1)])
  have other: "win m \<noteq> win ?n" if "c \<in> set A" "c \<noteq> (p, Order4KB)" "in_block c m" "m < unat (ram_size s)" for c m
    using words_apart [OF w(2) sz that(1) d(5) [OF p] that(2,3) byte_in_block that(4) n] .
  have s: "?s = s\<lparr>vm_mem := vm_mem ?s\<rparr>" "vm_mem ?s = (vm_mem s)(win ?n := set_word_byte (byte_offset p va mod 4) b (vm_mem s (win ?n)))"
    by (simp_all add: byte_written_def Let_def)
  have mem: "vm_mem ?s (win m) = vm_mem s (win m)" if "c \<in> set A" "c \<noteq> (p, Order4KB)" "in_block c m" "m < unat (ram_size s)" for c m
    using other [OF that] s(2) by simp
  have root: "vm_mem ?s (win (1024 * x + 4 * i)) = lvl1_word s x i" if "x \<in> R" "i < 3072" for x i
    using mem [OF w(4) [OF that(1)] _ in_block_root slot_bounds [OF d(1) that(1)]] that(2) by simp
  have tab: "vm_mem ?s (win (1024 * q + 4 * j)) = vm_mem s (win (1024 * q + 4 * j))" if "T x = Some q" "j < 256" for x q j
    using mem [OF w(6) [OF that(1)] _ in_block_table [OF that(2)]] table_bounds [OF d(1) that(1)] that(2) by simp
  have entries: "lvl2_entry ?s T x v = lvl2_entry s T x v" for x v
    using tab [of "(x, lvl1_index v)"] lvl2_index_less [of v] by (cases "T (x, lvl1_index v)") (simp_all add: lvl2_entry_def)
  have phys: "phys_of ?s = phys_of s" by (simp add: byte_written_def Let_def phys_of_def fun_eq_iff)
  have wf: "vm_wf ?s F A R T" using d(1) root unfolding vm_wf_def phys by (simp add: byte_written_def Let_def)
  show "lvl2_entry ?s T x y = lvl2_entry s T x y" by (rule entries)
  show frames: "user_frames ?s F A R T r D"
    using u wf unfolding user_frames_def entries phys by (simp add: byte_written_def Let_def)
  assume q: "D (page_number v) = Some q"
  show "read_byte ?s v = (if v = va then Some b else read_byte s v)"
  proof (cases "v = va")
    case True
    then have "q = p" using p q by simp
    then show ?thesis using read_byte_frame [OF frames q] True by (simp add: s(2) word_byte_same)
  next
    case False
    let ?m = "byte_offset q v"
    have bm: "?m < unat (ram_size s)" using user_address_frame [OF u q] by simp
    have ne: "?m \<noteq> byte_offset p va"
    proof
      assume eq: "?m = byte_offset p va"
      then have "in_block (p, Order4KB) (4 * (?m div 4))" using byte_in_block [of p va] by simp
      then have "q = p" using in_block_unique [OF w(2) d(5) [OF q] d(5) [OF p] byte_in_block] by blast
      then have "page_number v = page_number va" using d(6) p q by blast
      moreover have "unat v mod 4096 = unat va mod 4096" using eq \<open>q = p\<close> by (simp add: byte_offset_def)
      ultimately show False using False unfolding page_number_def by (metis mult_div_mod_eq word_unat_eq_iff)
    qed
    have "word_byte (?m mod 4) (vm_mem ?s (win (4 * (?m div 4)))) = word_byte (?m mod 4) (vm_mem s (win (4 * (?m div 4))))"
    proof (cases "?m div 4 = byte_offset p va div 4")
      case True
      then have "?m mod 4 \<noteq> byte_offset p va mod 4" using ne by (metis mult_div_mod_eq)
      then show ?thesis by (simp add: s(2) True word_byte_other)
    next
      case False
      have "win (4 * (?m div 4)) \<noteq> win ?n" using False win_inj [of "4 * (?m div 4)" ?n] bm n sz by linarith
      then show ?thesis by (simp add: s(2))
    qed
    then show ?thesis using False read_byte_frame [OF frames q] read_byte_frame [OF u q] by simp
  qed
qed

lemma write_bytes_append:
  "write_bytes va (bs @ cs) s = do { s \<leftarrow> write_bytes va bs s; write_bytes (va + of_nat (length bs)) cs s }"
proof (induction bs arbitrary: va s)
  case (Cons b bs)
  then show ?case by (cases "write_byte va b s") (simp_all add: add.assoc)
qed simp

text \<open>What a write of several bytes to mapped pages does.\<close>

lemma write_bytes_frames:
  assumes u: "user_frames s F A R T r D" and len: "length bs < 2 ^ 32"
    and mapped: "\<forall>i<length bs. D (page_number (va + of_nat i)) \<noteq> None"
  shows "\<exists>m. write_bytes va bs s = Some (s\<lparr>vm_mem := m\<rparr>) \<and> user_frames (s\<lparr>vm_mem := m\<rparr>) F A R T r D \<and>
    lvl2_entry (s\<lparr>vm_mem := m\<rparr>) T = lvl2_entry s T \<and>
    (\<forall>v. D (page_number v) \<noteq> None \<longrightarrow> read_byte (s\<lparr>vm_mem := m\<rparr>) v =
       (if unat (v - va) < length bs then Some (bs ! unat (v - va)) else read_byte s v))"
  using len mapped
proof (induction bs rule: rev_induct)
  case Nil
  have "s = s\<lparr>vm_mem := vm_mem s\<rparr>" by simp
  then show ?case using u by (intro exI [of _ "vm_mem s"]) simp
next
  case (snoc b bs)
  let ?n = "length bs"
  from snoc obtain m where m: "write_bytes va bs s = Some (s\<lparr>vm_mem := m\<rparr>)" "user_frames (s\<lparr>vm_mem := m\<rparr>) F A R T r D"
      "lvl2_entry (s\<lparr>vm_mem := m\<rparr>) T = lvl2_entry s T" "\<And>v. D (page_number v) \<noteq> None \<Longrightarrow> read_byte (s\<lparr>vm_mem := m\<rparr>) v =
         (if unat (v - va) < ?n then Some (bs ! unat (v - va)) else read_byte s v)"
    by auto
  have "D (page_number (va + of_nat ?n)) \<noteq> None" using snoc.prems(2) by simp
  then obtain p where p: "D (page_number (va + of_nat ?n)) = Some p" by blast
  let ?t = "s\<lparr>vm_mem := m\<rparr>"
  let ?s = "byte_written p (va + of_nat ?n) b ?t"
  note w = write_byte_frame [OF m(2) p, of b] and f = byte_written_frames [OF m(2) p, where b = b]
  have s: "?s = s\<lparr>vm_mem := vm_mem ?s\<rparr>" by (simp add: byte_written_def Let_def)
  have run: "write_bytes va (bs @ [b]) s = Some ?s" using m(1) w by (simp add: write_bytes_append)
  have at: "unat (v - va) = ?n \<longleftrightarrow> v = va + of_nat ?n" for v
  proof
    assume "unat (v - va) = ?n"
    then have "of_nat ?n = v - va" by (metis of_nat_unat ucast_id)
    then show "v = va + of_nat ?n" by simp
  next
    assume "v = va + of_nat ?n"
    then show "unat (v - va) = ?n" using snoc.prems(1) by (simp add: unat_of_nat)
  qed
  have "read_byte ?s v = (if unat (v - va) < Suc ?n then Some ((bs @ [b]) ! unat (v - va)) else read_byte s v)"
    if v: "D (page_number v) \<noteq> None" for v
  proof -
    obtain q where "D (page_number v) = Some q" using v by blast
    from f(3) [OF this] show ?thesis using at [of v] m(4) [OF v] by (auto simp: nth_append less_Suc_eq)
  qed
  moreover have "lvl2_entry ?s T = lvl2_entry s T" using f(2) m(3) by (intro ext) simp
  ultimately show ?case using run f(1) s by (intro exI [of _ "vm_mem ?s"]) simp
qed

subsection \<open>A fresh page\<close>

text \<open>Mapping a page writes to tables only: the words of all other blocks stay.\<close>

lemma map_page_blocks:
  assumes wf: "vm_wf s F A R T" and r: "r \<in> R" and va: "user_va va"
    and run: "vm_map_page (win (1024 * r)) phys va perm s = Some s'" and e0: "lvl2_entry s T r va = 0"
  shows "\<exists>F' A' T'. vm_wf s' F' A' R T' \<and> one_entry_changed s T r va (small_entry phys perm) s' T' \<and> vm_frame s s' \<and>
    set A \<subseteq> set A' \<and> (vm_pa s' = vm_pa s \<or> (\<exists>q. physical_page_alloc Order1KB (vm_pa s) = Some (Inr q, vm_pa s'))) \<and>
    (\<forall>p n. (p, Order4KB) \<in> set A \<longrightarrow> in_block (p, Order4KB) n \<longrightarrow> vm_mem s' (win n) = vm_mem s (win n))"
proof -
  note w = vm_wfD [OF wf]
  have sz: "unat (ram_size s) \<le> 2 ^ 29" by (rule vm_geomD(3) [OF w(1)])
  have i: "lvl1_index va < 3072" by (rule user_va_lvl1 [OF va])
  have bound: "n < unat (ram_size s)" if "(p, Order4KB) \<in> set A" "in_block (p, Order4KB) n" for p n
    by (rule in_block_bound [OF w(2,1) that])
  have tab: "win n \<noteq> win (slot2_of q va)" if "(p, Order4KB) \<in> set A" "in_block (p, Order4KB) n" "T x = Some q" for p n q x
  proof -
    have "slot2_of q va < unat (ram_size s)" using table_bounds [OF wf that(3)] lvl2_index_less [of va] by linarith
    then show ?thesis
      using words_apart [OF w(2) sz that(1) w(6) [OF that(3)] _ that(2) in_block_table [OF lvl2_index_less] bound [OF that(1,2)]] by simp
  qed
  show ?thesis
  proof (cases "T (r, lvl1_index va)")
    case (Some q)
    have s': "s' = s\<lparr>vm_mem := (vm_mem s)(win (slot2_of q va) := small_entry phys perm)\<rparr>"
      using vm_map_page_existing [OF wf r va Some e0, of phys perm] run by simp
    show ?thesis
      by (rule exI [of _ F], rule exI [of _ A], rule exI [of _ T])
        (use write_lvl2 [OF wf r Some, where w = "small_entry phys perm"] tab [OF _ _ Some] in
          \<open>simp add: s' one_entry_changed_def same_entry_def vm_frame_def\<close>)
  next
    case None
    have "\<exists>ord. F ord \<noteq> []"
      using map_page_panics [OF wf r va None, of phys perm] run by auto
    then obtain q pa' F' where alloc: "physical_page_alloc Order1KB (vm_pa s) = Some (Inr q, pa')"
        and inv': "pa_inv pa' F' ((q, Order1KB) # A) []"
      by (rule_tac alloc_1KB_or_fail [OF w(2)]) auto
    let ?s1 = "s\<lparr>vm_pa := pa', vm_mem := zero_words (1024 * q) 256
      ((vm_mem s)(win (1024 * r + 4 * lvl1_index va) := coarse_entry (phys_of s q)))\<rparr>"
    let ?T = "T((r, lvl1_index va) \<mapsto> q)"
    note h = hook_table [OF wf r i None alloc inv']
    have T': "?T (r, lvl1_index va) = Some q" by simp
    note wr = write_lvl2 [OF h(1) r T', where w = "small_entry phys perm"]
    have s': "s' = ?s1\<lparr>vm_mem := (vm_mem ?s1)(win (slot2_of q va) := small_entry phys perm)\<rparr>"
      using vm_map_page_new [OF wf r va None alloc inv', of phys perm] run by simp
    have "vm_mem s' (win n) = vm_mem s (win n)" if p: "(p, Order4KB) \<in> set A" "in_block (p, Order4KB) n" for p n
    proof -
      have q: "1024 * q + 1024 \<le> unat (ram_size s)"
        using table_bounds [OF h(1) T'] by simp
      have "win n \<noteq> win (1024 * q + 4 * j)" if "j < 256" for j
        using words_apart [OF inv' sz, of "(p, Order4KB)" "(q, Order1KB)" n "1024 * q + 4 * j"] p bound [OF p] q
          in_block_table [OF that, of q] that by simp
      moreover have "win n \<noteq> win (slot1_of r va)"
        using words_apart [OF w(2) sz p(1) w(4) [OF r] _ p(2) in_block_root bound [OF p] slot_bounds [OF wf r]] i by simp
      ultimately show ?thesis by (simp add: s' zero_words_other)
    qed
    moreover have "one_entry_changed s T r va (small_entry phys perm) s' ?T"
      unfolding one_entry_changed_def same_entry_def s' wr(2) h(2) by blast
    moreover have "vm_frame s s'" using alloc_geometry [OF w(2) alloc] by (simp add: vm_frame_def s')
    moreover have "physical_page_alloc Order1KB (vm_pa s) = Some (Inr q, vm_pa s')" using alloc by (simp add: s')
    moreover have "vm_wf s' F' ((q, Order1KB) # A) R ?T" using wr(1) by (simp only: s')
    ultimately show ?thesis by (intro exI [of _ F'] exI [of _ "(q, Order1KB) # A"] exI [of _ ?T]) auto
  qed
qed

lemma alloc_keeps_wf:
  assumes wf: "vm_wf s F A R T" and alloc: "physical_page_alloc ord (vm_pa s) = Some (Inr p, pa')"
    and inv': "pa_inv pa' F' ((p, ord) # A) []"
  shows "vm_wf (s\<lparr>vm_pa := pa'\<rparr>) F' ((p, ord) # A) R T" "phys_of (s\<lparr>vm_pa := pa'\<rparr>) = phys_of s"
proof -
  note w = vm_wfD [OF wf] and g = alloc_geometry [OF vm_wfD(2) [OF wf] alloc]
  show ph: "phys_of (s\<lparr>vm_pa := pa'\<rparr>) = phys_of s" by (simp add: phys_of_def fun_eq_iff)
  have "vm_geom (s\<lparr>vm_pa := pa'\<rparr>)" using w(1) g by (simp add: vm_geom_def)
  then show "vm_wf (s\<lparr>vm_pa := pa'\<rparr>) F' ((p, ord) # A) R T" using wf inv' g unfolding vm_wf_def ph by simp
qed

lemma map_page_was_free:
  assumes wf: "vm_wf s F A R T" and r: "r \<in> R" and va: "user_va va"
    and run: "vm_map_page (win (1024 * r)) phys va perm s = Some s'"
  shows "lvl2_entry s T r va = 0"
proof (cases "T (r, lvl1_index va)")
  case None
  then show ?thesis by (simp add: lvl2_entry_def)
next
  case (Some q)
  note w = vm_wfD [OF wf]
  have b1: "slot1_of r va < unat (ram_size s)" using slot_bounds [OF wf r] user_va_lvl1 [OF va] by simp
  have b2: "slot2_of q va < unat (ram_size s)" using table_bounds [OF wf Some] lvl2_index_less [of va] by linarith
  have q: "q < length (pages_data (vm_pa s))" using block_head [OF w(2) w(6) [OF Some]] .
  obtain k where k: "kernel_as s = Some k" "k < length (pages_data (vm_pa s))" using w(3) by blast
  have e1: "vm_mem s (win (slot1_of r va)) = coarse_entry (phys_of s q)" using w(5) [OF r user_va_lvl1 [OF va]] Some by simp
  show ?thesis
    using run load_win [OF w(1) b1] load_win [OF w(1) b2] root_table_ptr [OF w(1) k(2)]
      coarse_entry_base [OF w(1) q] k(1) e1 coarse_not_section Some
    by (simp add: vm_map_page_def table_slot_win coarse_entry_identifier lvl2_entry_def Let_def split: if_splits)
qed

lemma fresh_page:
  assumes u: "user_frames s F A R T r D" and va: "user_va va"
    and alloc: "physical_page_alloc Order4KB (vm_pa s) = Some (Inr page, pa')"
    and map: "vm_map (Some r) page va perm (s\<lparr>vm_pa := pa'\<rparr>) = Some s'"
  shows "D (page_number va) = None \<and> (\<exists>F' A' T'. user_frames s' F' A' R T' r (D(page_number va \<mapsto> page)) \<and>
    (\<forall>v. D (page_number v) \<noteq> None \<longrightarrow> read_byte s' v = read_byte s v) \<and>
    (\<forall>v. page_number v \<noteq> page_number va \<longrightarrow> lvl2_entry s' T' r v = lvl2_entry s T r v)) \<and>
    (vm_pa s' = pa' \<or> (\<exists>q. physical_page_alloc Order1KB pa' = Some (Inr q, vm_pa s')))"
proof -
  note d = user_framesD [OF u] and w = vm_wfD [OF user_framesD(1) [OF u]]
  let ?s = "s\<lparr>vm_pa := pa'\<rparr>"
  obtain F1 where inv': "pa_inv pa' F1 ((page, Order4KB) # A) []"
  proof -
    obtain res pa2 where "physical_page_alloc Order4KB (vm_pa s) = Some (res, pa2)" "page_alloc_post (vm_pa s) F A Order4KB res pa2"
      by (rule physical_page_alloc_post [OF w(2)])
    then have "page_alloc_post (vm_pa s) F A Order4KB (Inr page) pa'" using alloc by simp
    then show ?thesis by (rule page_alloc_post_InrE) (rule that)
  qed
  note wf' = alloc_keeps_wf [OF d(1) alloc inv']
  have page: "page < length (pages_data (vm_pa ?s))" using pa_inv_bound [OF inv', of page Order4KB] by simp
  have run: "vm_map_page (win (1024 * r)) (phys_of s page) va perm ?s = Some s'"
    using map vm_map_root [OF wf'(1) d(2) page] wf'(2) by simp
  have e0: "lvl2_entry ?s T r va = 0" by (rule map_page_was_free [OF wf'(1) d(2) va run])
  have same: "lvl2_entry ?s T = lvl2_entry s T" by (intro ext lvl2_entry_cong) simp
  have free: "D (page_number va) = None"
  proof (cases "D (page_number va)")
    case (Some p)
    then show ?thesis using d(8) [OF Some] e0 same by auto
  qed simp
  obtain F2 A2 T2 where m: "vm_wf s' F2 A2 R T2" "one_entry_changed ?s T r va (small_entry (phys_of s page) perm) s' T2"
      "vm_frame ?s s'" "set ((page, Order4KB) # A) \<subseteq> set A2"
      "vm_pa s' = vm_pa ?s \<or> (\<exists>q. physical_page_alloc Order1KB (vm_pa ?s) = Some (Inr q, vm_pa s'))"
      "\<And>p n. (p, Order4KB) \<in> set ((page, Order4KB) # A) \<Longrightarrow> in_block (p, Order4KB) n \<Longrightarrow> vm_mem s' (win n) = vm_mem ?s (win n)"
    using map_page_blocks [OF wf'(1) d(2) va run e0] by blast
  have phys: "phys_of s' = phys_of s" using m(3) by (simp add: phys_of_def vm_frame_def fun_eq_iff)
  have fresh: "(page, Order4KB) \<notin> set A" using pa_inv_heads [OF inv'] by force
  let ?D = "D(page_number va \<mapsto> page)"
  have entry: "lvl2_entry s' T2 r v = (if page_number v = page_number va then small_entry (phys_of s page) perm else lvl2_entry s T r v)" for v
    using m(2) same by (simp add: one_entry_changed_def same_entry_page)
  have user: "user_va v" if "page_number v = page_number va" for v
  proof -
    have "lvl1_index v = lvl1_index va" using that by (simp add: same_entry_page [symmetric] same_entry_def)
    then have "lvl1_index v < 3072" using user_va_lvl1 [OF va] by simp
    then have "unat v < 3072 * 1048576" by (simp add: lvl1_index_div div_less_iff_less_mult)
    then show ?thesis by (simp add: user_va_def kernel_area_start_def word_less_nat_alt)
  qed
  have new: "user_frames s' F2 A2 R T2 r ?D"
    unfolding user_frames_def
  proof (intro conjI allI impI)
    show "ttbr0 s' = phys_of s' r" "current_as s' = Some r" using m(3) d(3,4) by (simp_all add: phys vm_frame_def)
    fix n n' p assume "?D n = Some p"
    then show "(p, Order4KB) \<in> set A2" using d(5) m(4) by (auto split: if_splits)
    assume "?D n' = Some p"
    with \<open>?D n = Some p\<close> show "n = n'" using d(5,6) fresh by (auto split: if_splits)
  next
    fix v p assume v: "?D (page_number v) = Some p"
    then show "user_va v" using d(7) user by (cases "page_number v = page_number va") auto
    show "\<exists>perm. lvl2_entry s' T2 r v = small_entry (phys_of s' p) perm"
      using v d(8) by (cases "page_number v = page_number va") (auto simp: entry phys)
  qed (use m(1) d(2) in auto)
  have "read_byte s' v = read_byte s v" if v: "D (page_number v) \<noteq> None" for v
  proof -
    obtain p where p: "D (page_number v) = Some p" using v by blast
    then have "?D (page_number v) = Some p" using free by auto
    from read_byte_frame [OF new this] read_byte_frame [OF u p]
    show ?thesis using m(6) [OF _ byte_in_block, of p v] d(5) [OF p] by simp
  qed
  moreover have "vm_pa s' = pa' \<or> (\<exists>q. physical_page_alloc Order1KB pa' = Some (Inr q, vm_pa s'))" using m(5) by simp
  ultimately show ?thesis using free new entry by (intro conjI exI [of _ F2] exI [of _ A2] exI [of _ T2]) auto
qed

subsection \<open>Growing an address space\<close>

text \<open>\<open>n\<close> requests for pages or for tables, in any order, are all granted.\<close>

fun can_alloc :: "nat \<Rightarrow> phys_alloc \<Rightarrow> bool" where
  "can_alloc 0 pa = True"
| "can_alloc (Suc n) pa =
     ((case physical_page_alloc Order4KB pa of Some (Inr p, pa') \<Rightarrow> can_alloc n pa' | _ \<Rightarrow> False) \<and>
      (case physical_page_alloc Order1KB pa of Some (Inr p, pa') \<Rightarrow> can_alloc n pa' | _ \<Rightarrow> False))"

lemma granted:
  "(case x of Some (Inr p, pa') \<Rightarrow> P pa' | _ \<Rightarrow> False) \<longleftrightarrow> (\<exists>p pa'. x = Some (Inr p, pa') \<and> P pa')"
proof (cases x)
  case (Some y)
  then show ?thesis by (cases y; cases "fst y") auto
qed simp

lemma can_alloc_Suc:
  "can_alloc (Suc n) pa \<longleftrightarrow> (\<exists>p pa'. physical_page_alloc Order4KB pa = Some (Inr p, pa') \<and> can_alloc n pa') \<and>
     (\<exists>p pa'. physical_page_alloc Order1KB pa = Some (Inr p, pa') \<and> can_alloc n pa')"
  by (simp only: can_alloc.simps(2) granted)

lemma can_alloc_less: "can_alloc (Suc n) pa \<Longrightarrow> can_alloc n pa"
proof (induction n arbitrary: pa)
  case (Suc n)
  then show ?case unfolding can_alloc_Suc [of "Suc n"] can_alloc_Suc [of n] by blast
qed simp

lemma can_alloc_take:
  assumes "can_alloc (Suc n) pa" "physical_page_alloc ord pa = Some (Inr p, pa')" "ord = Order1KB \<or> ord = Order4KB"
  shows "can_alloc n pa'"
  using assms unfolding can_alloc_Suc by auto

text \<open>
  The state that building the address space \<open>r\<close> goes through: \<open>R\<close> are all address spaces, \<open>D\<close> its pages so far, pages outside of \<open>E\<close> have no
  translation, and there is memory for \<open>n\<close> more requests.
\<close>

definition user_space :: "vm_state \<Rightarrow> nat set \<Rightarrow> nat \<Rightarrow> (nat \<Rightarrow> nat option) \<Rightarrow> nat set \<Rightarrow> nat \<Rightarrow> bool" where
  "user_space s R r D E n \<longleftrightarrow> (\<exists>F A T. user_frames s F A R T r D \<and>
     (\<forall>v. user_va v \<longrightarrow> page_number v \<notin> E \<longrightarrow> lvl2_entry s T r v = 0)) \<and> can_alloc n (vm_pa s)"

text \<open>Growing keeps the pages there are, and their bytes.\<close>

definition grows :: "vm_state \<Rightarrow> (nat \<Rightarrow> nat option) \<Rightarrow> vm_state \<Rightarrow> (nat \<Rightarrow> nat option) \<Rightarrow> bool" where
  "grows s D s' D' \<longleftrightarrow> D \<subseteq>\<^sub>m D' \<and> (\<forall>v. D (page_number v) \<noteq> None \<longrightarrow> read_byte s' v = read_byte s v)"

lemma grows_refl [simp]: "grows s D s D"
  by (simp add: grows_def)

lemma grows_trans: "grows s D s1 D1 \<Longrightarrow> grows s1 D1 s2 D2 \<Longrightarrow> grows s D s2 D2"
  unfolding grows_def by (auto intro: map_le_trans simp: map_le_def dom_def)

lemma map_fresh_page:
  assumes sp: "user_space s R r D E (Suc (Suc n))" and va: "user_va va" "page_number va \<notin> E"
  shows "\<exists>page pa' s'. physical_page_alloc Order4KB (vm_pa s) = Some (Inr page, pa') \<and>
    vm_map (Some r) page va perm (s\<lparr>vm_pa := pa'\<rparr>) = Some s' \<and>
    user_space s' R r (D(page_number va \<mapsto> page)) (insert (page_number va) E) n \<and> D (page_number va) = None \<and>
    grows s D s' (D(page_number va \<mapsto> page))"
proof -
  obtain F A T where u: "user_frames s F A R T r D"
      and e: "\<And>v. user_va v \<Longrightarrow> page_number v \<notin> E \<Longrightarrow> lvl2_entry s T r v = 0"
      and c: "can_alloc (Suc (Suc n)) (vm_pa s)"
    using sp unfolding user_space_def by blast
  note d = user_framesD [OF u] and w = vm_wfD [OF user_framesD(1) [OF u]]
  obtain page pa' where a: "physical_page_alloc Order4KB (vm_pa s) = Some (Inr page, pa')" "can_alloc (Suc n) pa'"
    using c unfolding can_alloc_Suc [of "Suc n"] by blast
  obtain F1 where inv': "pa_inv pa' F1 ((page, Order4KB) # A) []"
  proof -
    obtain res pa2 where "physical_page_alloc Order4KB (vm_pa s) = Some (res, pa2)" "page_alloc_post (vm_pa s) F A Order4KB res pa2"
      by (rule physical_page_alloc_post [OF w(2)])
    then have "page_alloc_post (vm_pa s) F A Order4KB (Inr page) pa'" using a by simp
    then show ?thesis by (rule page_alloc_post_InrE) (rule that)
  qed
  let ?s = "s\<lparr>vm_pa := pa'\<rparr>"
  note wf' = alloc_keeps_wf [OF d(1) a(1) inv']
  have page: "page < length (pages_data (vm_pa ?s))" using pa_inv_bound [OF inv', of page Order4KB] by simp
  have e0: "lvl2_entry ?s T r va = 0" using e [OF va] lvl2_entry_cong [of ?s s T r va] by simp
  have "\<exists>ord. F1 ord \<noteq> []"
  proof (rule alloc_1KB_or_fail [OF inv'])
    assume "physical_page_alloc Order1KB pa' = Some (Inl OutOfMemory, pa')"
    then show ?thesis using a(2) by (simp add: can_alloc_Suc del: can_alloc.simps)
  qed blast
  then obtain s' where "vm_map_page (win (1024 * r)) (phys_of s page) va perm ?s = Some s'"
    by (rule_tac map_page_core [OF wf'(1) d(2) va(1) e0]) auto
  then have map: "vm_map (Some r) page va perm ?s = Some s'" using vm_map_root [OF wf'(1) d(2) page] wf'(2) by simp
  obtain F' A' T' where f: "D (page_number va) = None" "user_frames s' F' A' R T' r (D(page_number va \<mapsto> page))"
      "\<And>v. D (page_number v) \<noteq> None \<Longrightarrow> read_byte s' v = read_byte s v"
      "\<And>v. page_number v \<noteq> page_number va \<Longrightarrow> lvl2_entry s' T' r v = lvl2_entry s T r v"
      "vm_pa s' = pa' \<or> (\<exists>q. physical_page_alloc Order1KB pa' = Some (Inr q, vm_pa s'))"
    using fresh_page [OF u va(1) a(1) map] by blast
  have "can_alloc n (vm_pa s')" using f(5) a(2) can_alloc_less can_alloc_take by blast
  then have "user_space s' R r (D(page_number va \<mapsto> page)) (insert (page_number va) E) n"
    unfolding user_space_def using f(2,4) e by (intro conjI exI [of _ F'] exI [of _ A'] exI [of _ T']) auto
  moreover have "grows s D s' (D(page_number va \<mapsto> page))" using f(1,3) by (auto simp: grows_def map_le_def)
  ultimately show ?thesis using a(1) map f(1) by blast
qed

lemma write_user_bytes:
  assumes sp: "user_space s R r D E n" and len: "length bs < 2 ^ 32"
    and mapped: "\<forall>i<length bs. D (page_number (va + of_nat i)) \<noteq> None"
  shows "\<exists>s'. vm_copy_to_user (Some r) va bs s = Some s' \<and> user_space s' R r D E n \<and>
    (\<forall>v. D (page_number v) \<noteq> None \<longrightarrow> read_byte s' v =
       (if unat (v - va) < length bs then Some (bs ! unat (v - va)) else read_byte s v))"
proof -
  obtain F A T where u: "user_frames s F A R T r D"
      and e: "\<And>v. user_va v \<Longrightarrow> page_number v \<notin> E \<Longrightarrow> lvl2_entry s T r v = 0" and c: "can_alloc n (vm_pa s)"
    using sp unfolding user_space_def by blast
  obtain m where m: "write_bytes va bs s = Some (s\<lparr>vm_mem := m\<rparr>)" "user_frames (s\<lparr>vm_mem := m\<rparr>) F A R T r D"
      "lvl2_entry (s\<lparr>vm_mem := m\<rparr>) T = lvl2_entry s T"
      "\<forall>v. D (page_number v) \<noteq> None \<longrightarrow> read_byte (s\<lparr>vm_mem := m\<rparr>) v =
        (if unat (v - va) < length bs then Some (bs ! unat (v - va)) else read_byte s v)"
    using write_bytes_frames [OF u len mapped] by blast
  have "user_space (s\<lparr>vm_mem := m\<rparr>) R r D E n"
    unfolding user_space_def using m(2,3) e c by (intro conjI exI [of _ F] exI [of _ A] exI [of _ T]) auto
  then show ?thesis using m(1,4) user_framesD(3) [OF u] by (simp add: vm_copy_to_user_def)
qed

text \<open>A page that is mapped and cleared, as the loader does it.\<close>

lemma cleared_page:
  assumes sp: "user_space s R r D E (Suc (Suc n))" and va: "user_va va" "page_number va \<notin> E" "unat va mod 4096 = 0"
  shows "\<exists>page pa' s1 s'. physical_page_alloc Order4KB (vm_pa s) = Some (Inr page, pa') \<and>
    vm_map (Some r) page va perm (s\<lparr>vm_pa := pa'\<rparr>) = Some s1 \<and> vm_memset (Some r) va 0 4096 s1 = Some s' \<and>
    user_space s' R r (D(page_number va \<mapsto> page)) (insert (page_number va) E) n \<and>
    grows s D s' (D(page_number va \<mapsto> page)) \<and> (\<forall>v. page_number v = page_number va \<longrightarrow> read_byte s' v = Some 0)"
proof -
  obtain page pa' s1 where m: "physical_page_alloc Order4KB (vm_pa s) = Some (Inr page, pa')"
      "vm_map (Some r) page va perm (s\<lparr>vm_pa := pa'\<rparr>) = Some s1"
      "user_space s1 R r (D(page_number va \<mapsto> page)) (insert (page_number va) E) n" "D (page_number va) = None"
      "grows s D s1 (D(page_number va \<mapsto> page))"
    using map_fresh_page [OF sp va(1,2)] by blast
  let ?D = "D(page_number va \<mapsto> page)"
  define bs where "bs = replicate 4096 (0 :: u8)"
  have bs: "length bs = 4096" "\<And>i. i < 4096 \<Longrightarrow> bs ! i = 0" by (simp_all add: bs_def del: replicate.simps)
  have off: "page_number v = page_number va \<longleftrightarrow> unat (v - va) < 4096" for v
  proof
    assume "page_number v = page_number va"
    then have "unat v div 4096 = unat va div 4096" by (simp add: page_number_def)
    moreover obtain k where "unat va = 4096 * k" using va(3) by (auto simp: mod_eq_0_iff_dvd elim: dvdE)
    ultimately have "unat va \<le> unat v \<and> unat v - unat va < 4096" by auto
    then show "unat (v - va) < 4096" by (simp add: unat_minus_u32 word_le_nat_alt)
  next
    assume lt: "unat (v - va) < 4096"
    obtain k where k: "unat va = 4096 * k" using va(3) by (auto simp: mod_eq_0_iff_dvd elim: dvdE)
    then have top: "unat va + 4096 \<le> 2 ^ 32" using unat_u32_less [of va] by simp
    have "unat (va + (v - va)) = unat va + unat (v - va)" using lt top by (intro unat_add_u32) linarith
    then have "unat v = unat va + unat (v - va)" by simp
    then show "page_number v = page_number va" using lt k by (simp add: page_number_def)
  qed
  have "\<forall>i<length bs. ?D (page_number (va + of_nat i)) \<noteq> None"
  proof (intro allI impI)
    fix i assume "i < length bs"
    then have "unat (va + of_nat i - va) < 4096" by (simp add: unat_of_nat bs(1))
    then have "page_number (va + of_nat i) = page_number va" using off by blast
    then show "?D (page_number (va + of_nat i)) \<noteq> None" by simp
  qed
  then obtain s' where s': "vm_copy_to_user (Some r) va bs s1 = Some s'" "user_space s' R r ?D (insert (page_number va) E) n"
      "\<And>v. ?D (page_number v) \<noteq> None \<Longrightarrow> read_byte s' v =
        (if unat (v - va) < length bs then Some (bs ! unat (v - va)) else read_byte s1 v)"
    using write_user_bytes [OF m(3), of bs va] bs(1) by auto
  have "grows s1 D s' ?D" unfolding grows_def
  proof (intro conjI allI impI)
    show "D \<subseteq>\<^sub>m ?D" using m(5) by (simp add: grows_def)
    fix v assume v: "D (page_number v) \<noteq> None"
    then have "page_number v \<noteq> page_number va" using m(4) by auto
    then show "read_byte s' v = read_byte s1 v" using s'(3) [of v] off [of v] v bs(1) by auto
  qed
  moreover have "read_byte s1 v = read_byte s v" if "D (page_number v) \<noteq> None" for v using m(5) that by (simp add: grows_def)
  ultimately have "grows s D s' ?D" by (simp add: grows_def)
  moreover have "read_byte s' v = Some 0" if "page_number v = page_number va" for v
    using s'(3) [of v] that off [of v] bs by simp
  ultimately show ?thesis using m(1,2) s'(1,2) unfolding vm_memset_def vm_copy_to_user_def bs_def
    by (intro exI [of _ page] exI [of _ pa'] exI [of _ s1] exI [of _ s']) auto
qed

end
