(* ===== verification/Elf.thy ===== *)
theory Elf
  imports UserMemory Inode
begin

text \<open>
  The loader of executables (\<^verbatim>\<open>kernel/task/elfloader.cpp\<close>) on the bytes of a file.  Reading past the end of the
  buffer is \<open>None\<close>, like a panic: the code bounds neither the offset of the program headers nor those of the
  segments by the size of the file.
\<close>

subsection \<open>Headers\<close>

record Elf32_Ehdr =
  e_ident :: "u8 list"
  e_type :: u16
  e_machine :: u16
  e_version :: u32
  e_entry :: u32
  e_phoff :: u32
  e_shoff :: u32
  e_flags :: u32
  e_ehsize :: u16
  e_phentsize :: u16
  e_phnum :: u16
  e_shentsize :: u16
  e_shnum :: u16
  e_shstrndx :: u16

record Elf32_Phdr =
  p_type :: u32
  p_offset :: u32
  p_vaddr :: u32
  p_paddr :: u32
  p_filesz :: u32
  p_memsz :: u32
  p_flags :: u32
  p_align :: u32

definition sizeof_Elf32_Ehdr :: nat where "sizeof_Elf32_Ehdr = 52"
definition sizeof_Elf32_Phdr :: nat where "sizeof_Elf32_Phdr = 32"
definition ET_EXEC :: u16 where "ET_EXEC = 2"
definition EM_ARM :: u16 where "EM_ARM = 40"
definition PT_LOAD :: u32 where "PT_LOAD = 1"

definition ehdr_at :: "u8 list \<Rightarrow> Elf32_Ehdr option" where
  "ehdr_at bin = do {
     type \<leftarrow> half_at bin 16; machine \<leftarrow> half_at bin 18; version \<leftarrow> word_at bin 20; entry \<leftarrow> word_at bin 24;
     phoff \<leftarrow> word_at bin 28; shoff \<leftarrow> word_at bin 32; flags \<leftarrow> word_at bin 36; ehsize \<leftarrow> half_at bin 40;
     phentsize \<leftarrow> half_at bin 42; phnum \<leftarrow> half_at bin 44; shentsize \<leftarrow> half_at bin 46; shnum \<leftarrow> half_at bin 48;
     shstrndx \<leftarrow> half_at bin 50;
     Some \<lparr>e_ident = take 16 bin, e_type = type, e_machine = machine, e_version = version, e_entry = entry, e_phoff = phoff,
       e_shoff = shoff, e_flags = flags, e_ehsize = ehsize, e_phentsize = phentsize, e_phnum = phnum,
       e_shentsize = shentsize, e_shnum = shnum, e_shstrndx = shstrndx\<rparr>
   }"

definition phdr_at :: "u8 list \<Rightarrow> nat \<Rightarrow> Elf32_Phdr option" where
  "phdr_at bin i = do {
     type \<leftarrow> word_at bin i; off \<leftarrow> word_at bin (i + 4); vaddr \<leftarrow> word_at bin (i + 8); paddr \<leftarrow> word_at bin (i + 12);
     filesz \<leftarrow> word_at bin (i + 16); memsz \<leftarrow> word_at bin (i + 20); flags \<leftarrow> word_at bin (i + 24); align \<leftarrow> word_at bin (i + 28);
     Some \<lparr>p_type = type, p_offset = off, p_vaddr = vaddr, p_paddr = paddr, p_filesz = filesz, p_memsz = memsz,
       p_flags = flags, p_align = align\<rparr>
   }"

definition verify_identification :: "Elf32_Ehdr \<Rightarrow> int" where
  "verify_identification header = (let e = e_ident header in
     if e ! 0 \<noteq> 0x7f \<or> e ! 1 \<noteq> 0x45 \<or> e ! 2 \<noteq> 0x4c \<or> e ! 3 \<noteq> 0x46 then - errno ERR_NOEXEC
     else if e ! 4 \<noteq> 1 \<or> e ! 5 \<noteq> 1 \<or> e ! 6 \<noteq> 1 then - errno ERR_NOTSUP
     else 0)"

subsection \<open>Segments\<close>

text \<open>The pages from \<open>addr\<close> on; the loop ends early when there is no page.\<close>

fun load_pages :: "nat option \<Rightarrow> u32 \<Rightarrow> nat \<Rightarrow> vm_state \<Rightarrow> (int \<times> vm_state) option" where
  "load_pages as addr 0 s = Some (0, s)"
| "load_pages as addr (Suc n) s = do {
     (r, pa) \<leftarrow> physical_page_alloc Order4KB (vm_pa s);
     let s = s\<lparr>vm_pa := pa\<rparr>;
     case r of
       Inl e \<Rightarrow> Some (- errno ERR_NOMEM, s)
     | Inr page \<Rightarrow> do {
         s \<leftarrow> vm_map as page addr UserFullAccess s;
         s \<leftarrow> vm_memset as addr 0 4096 s;
         load_pages as (addr + 4096) n s
       }
   }"

definition load_segment :: "nat option \<Rightarrow> u8 list \<Rightarrow> Elf32_Phdr \<Rightarrow> vm_state \<Rightarrow> (int \<times> vm_state) option" where
  "load_segment as bin p_hdr s = do {
     let start = round_down_u32 (p_vaddr p_hdr) 4096;
     let stop = round_up_u32 (p_paddr p_hdr + p_memsz p_hdr) 4096;
     (rc, s) \<leftarrow> load_pages as start (if start < stop then (unat stop - unat start) div 4096 else 0) s;
     if rc \<noteq> 0 \<or> p_filesz p_hdr = 0 then Some (rc, s)
     else do {
       kassert (unat (p_offset p_hdr) + unat (p_filesz p_hdr) \<le> length bin);
       s \<leftarrow> vm_copy_to_user as (p_vaddr p_hdr) (take (unat (p_filesz p_hdr)) (drop (unat (p_offset p_hdr)) bin)) s;
       Some (0, s)
     }
   }"

fun load_segments :: "nat option \<Rightarrow> u8 list \<Rightarrow> nat \<Rightarrow> nat \<Rightarrow> vm_state \<Rightarrow> (int \<times> vm_state) option" where
  "load_segments as bin program_header 0 s = Some (0, s)"
| "load_segments as bin program_header (Suc n) s = do {
     type \<leftarrow> word_at bin program_header;
     if type \<noteq> PT_LOAD then load_segments as bin (program_header + sizeof_Elf32_Phdr) n s
     else do {
       p_hdr \<leftarrow> phdr_at bin program_header;
       (rc, s) \<leftarrow> load_segment as bin p_hdr s;
       if rc \<noteq> 0 then Some (rc, s) else load_segments as bin (program_header + sizeof_Elf32_Phdr) n s
     }
   }"

text \<open>The result, the entry point once it has been stored, and the memory.\<close>

definition try_load_elf :: "u8 list \<Rightarrow> nat option \<Rightarrow> vm_state \<Rightarrow> (int \<times> u32 option \<times> vm_state) option" where
  "try_load_elf elf_binary as s =
     (if length elf_binary < sizeof_Elf32_Ehdr then Some (- errno ERR_NOEXEC, None, s)
      else do {
        header \<leftarrow> ehdr_at elf_binary;
        let rc = verify_identification header;
        if rc \<noteq> 0 then Some (rc, None, s)
        else if e_type header \<noteq> ET_EXEC then Some (- errno ERR_NOEXEC, None, s)
        else if e_machine header \<noteq> EM_ARM then Some (- errno ERR_NOTSUP, None, s)
        else do {
          (rc, s) \<leftarrow> vm_using_address_space as (load_segments as elf_binary (unat (e_phoff header)) (unat (e_phnum header))) s;
          Some (rc, Some (e_entry header), s)
        }
      })"

subsection \<open>The pages of a segment\<close>

lemma page_number_add: "unat addr = 4096 * a \<Longrightarrow> page_number addr = a"
  by (simp add: page_number_def)

lemma user_space_fresh:
  assumes "user_space s R r D E n" "user_va v" "page_number v \<notin> E"
  shows "D (page_number v) = None"
proof (cases "D (page_number v)")
  case (Some p)
  obtain F A T where u: "user_frames s F A R T r D" and e: "lvl2_entry s T r v = 0"
    using assms unfolding user_space_def by blast
  show ?thesis using user_framesD(8) [OF u Some] e by auto
qed simp

lemma user_space_less: "user_space s R r D E (Suc n) \<Longrightarrow> user_space s R r D E n"
  unfolding user_space_def by (meson can_alloc_less)

lemma load_pages_space:
  assumes "user_space s R r D E (2 * n + m)" and "unat addr = 4096 * a" and "4096 * (a + n) \<le> 0xc0000000"
    and "{a..<a + n} \<inter> E = {}"
  shows "\<exists>s' D'. load_pages (Some r) addr n s = Some (0, s') \<and> user_space s' R r D' (E \<union> {a..<a + n}) m \<and> grows s D s' D' \<and>
    (\<forall>v. page_number v \<in> {a..<a + n} \<longrightarrow> D' (page_number v) \<noteq> None \<and> read_byte s' v = Some 0)"
  using assms
proof (induction n arbitrary: s D E addr a)
  case (Suc n)
  have sp: "user_space s R r D E (Suc (Suc (2 * n + m)))" using Suc.prems(1) by simp
  have pn: "page_number addr = a" by (rule page_number_add [OF Suc.prems(2)])
  have va: "user_va addr" using Suc.prems(2,3) by (simp add: user_va_def kernel_area_start_def word_less_nat_alt)
  have "a \<in> {a..<a + Suc n}" by simp
  then have out: "page_number addr \<notin> E" using Suc.prems(4) unfolding pn by blast
  have al: "unat addr mod 4096 = 0" using Suc.prems(2) by simp
  obtain page pa' s1 s2 where c: "physical_page_alloc Order4KB (vm_pa s) = Some (Inr page, pa')"
      "vm_map (Some r) page addr UserFullAccess (s\<lparr>vm_pa := pa'\<rparr>) = Some s1" "vm_memset (Some r) addr 0 4096 s1 = Some s2"
      "user_space s2 R r (D(a \<mapsto> page)) (insert a E) (2 * n + m)" "grows s D s2 (D(a \<mapsto> page))"
      "\<And>v. page_number v = a \<Longrightarrow> read_byte s2 v = Some 0"
    using cleared_page [OF sp va out al, of UserFullAccess] unfolding pn by blast
  have next_addr: "unat (addr + 4096) = 4096 * (a + 1)"
    using Suc.prems(2,3) unat_add_u32 [of addr 4096] by simp
  have "{a + 1..<a + 1 + n} \<subseteq> {a..<a + Suc n}" "a \<notin> {a + 1..<a + 1 + n}" by auto
  then have rest: "4096 * (a + 1 + n) \<le> 0xc0000000" "{a + 1..<a + 1 + n} \<inter> insert a E = {}" using Suc.prems(3,4) by (simp, blast)
  obtain s' D' where r: "load_pages (Some r) (addr + 4096) n s2 = Some (0, s')" "user_space s' R r D' (insert a E \<union> {a + 1..<a + 1 + n}) m"
      "grows s2 (D(a \<mapsto> page)) s' D'"
      "\<And>v. page_number v \<in> {a + 1..<a + 1 + n} \<Longrightarrow> D' (page_number v) \<noteq> None \<and> read_byte s' v = Some 0"
    using Suc.IH [OF c(4) next_addr rest] by blast
  have here: "D' (page_number v) \<noteq> None \<and> read_byte s' v = Some 0" if "page_number v = a" for v
  proof -
    have "(D(a \<mapsto> page)) (page_number v) = Some page" using that by simp
    then have "D' (page_number v) = Some page" "read_byte s' v = read_byte s2 v"
      using r(3) unfolding grows_def map_le_def by (metis domI, metis option.distinct(1))
    then show ?thesis using c(6) [OF that] by simp
  qed
  have "insert a E \<union> {a + 1..<a + 1 + n} = E \<union> {a..<a + Suc n}" by auto
  then have "user_space s' R r D' (E \<union> {a..<a + Suc n}) m" using r(2) by simp
  moreover have "D' (page_number v) \<noteq> None \<and> read_byte s' v = Some 0" if "page_number v \<in> {a..<a + Suc n}" for v
    using that here [of v] r(4) [of v] by (cases "page_number v = a") auto
  ultimately show ?case using c(1,2,3) r(1) grows_trans [OF c(5) r(3)] by (intro exI [of _ s'] exI [of _ D']) simp
qed (auto intro: grows_refl)

text \<open>
  A segment whose bytes are in the file and whose memory is below the kernel's; the loader takes the end of a segment
  from the physical address of its header and the start from the virtual one.
\<close>

definition segment_pages :: "Elf32_Phdr \<Rightarrow> nat set" where
  "segment_pages ph = {unat (p_vaddr ph) div 4096..<(unat (p_vaddr ph) + unat (p_memsz ph) + 4095) div 4096}"

definition good_segment :: "u8 list \<Rightarrow> Elf32_Phdr \<Rightarrow> bool" where
  "good_segment bin ph \<longleftrightarrow> p_paddr ph = p_vaddr ph \<and> unat (p_vaddr ph) + unat (p_memsz ph) \<le> 0xc0000000 \<and>
     p_filesz ph \<le> p_memsz ph \<and> unat (p_offset ph) + unat (p_filesz ph) \<le> length bin"

text \<open>What the process has to find in its memory: the bytes of the file, then zeros.\<close>

definition image_byte :: "u8 list \<Rightarrow> Elf32_Phdr \<Rightarrow> nat \<Rightarrow> u8" where
  "image_byte bin ph k = (if k < unat (p_filesz ph) then bin ! (unat (p_offset ph) + k) else 0)"

definition segment_loaded :: "vm_state \<Rightarrow> u8 list \<Rightarrow> Elf32_Phdr \<Rightarrow> bool" where
  "segment_loaded s bin ph \<longleftrightarrow> (\<forall>k < unat (p_memsz ph). read_byte s (p_vaddr ph + of_nat k) = Some (image_byte bin ph k))"

lemma load_segment_space:
  assumes sp: "user_space s R r D E (2 * card (segment_pages ph) + m)" and good: "good_segment bin ph" and free: "segment_pages ph \<inter> E = {}"
  shows "\<exists>s' D'. load_segment (Some r) bin ph s = Some (0, s') \<and> user_space s' R r D' (E \<union> segment_pages ph) m \<and> grows s D s' D' \<and>
    segment_loaded s' bin ph \<and> (\<forall>k < unat (p_memsz ph). D' (page_number (p_vaddr ph + of_nat k)) \<noteq> None)"
proof -
  let ?v = "unat (p_vaddr ph)" and ?m = "unat (p_memsz ph)" and ?f = "unat (p_filesz ph)"
  let ?a = "?v div 4096" and ?b = "(?v + ?m + 4095) div 4096"
  have g: "p_paddr ph = p_vaddr ph" "?v + ?m \<le> 0xc0000000" "?f \<le> ?m" "unat (p_offset ph) + ?f \<le> length bin"
    using good by (auto simp: good_segment_def word_le_nat_alt)
  have ab: "?a \<le> ?b" by (intro div_le_mono) simp
  have top: "4096 * ?b \<le> 0xc0000000"
  proof -
    have "?b \<le> (0xc0000000 + 4095) div 4096" by (rule div_le_mono) (use g(2) in simp)
    then show ?thesis by simp
  qed
  let ?start = "round_down_u32 (p_vaddr ph) 4096" and ?stop = "round_up_u32 (p_paddr ph + p_memsz ph) 4096"
  have start: "unat ?start = 4096 * ?a" using unat_round_down [of "p_vaddr ph" 4096] by simp
  have sum: "unat (p_paddr ph + p_memsz ph) = ?v + ?m" unfolding g(1) using g(2) by (intro unat_add_u32) simp
  have stop: "unat ?stop = 4096 * ?b"
    using unat_round_up [of "p_paddr ph + p_memsz ph" 4096] sum g(2) by simp
  have count: "(if ?start < ?stop then (unat ?stop - unat ?start) div 4096 else 0) = ?b - ?a"
  proof (cases "?start < ?stop")
    case True
    have "4096 * ?b - 4096 * ?a = 4096 * (?b - ?a)" by (simp add: diff_mult_distrib2)
    then show ?thesis using True start stop by simp
  next
    case False
    then show ?thesis using start stop ab by (simp add: word_less_nat_alt)
  qed
  have pages: "{?a..<?a + (?b - ?a)} = segment_pages ph" "card (segment_pages ph) = ?b - ?a" using ab by (simp_all add: segment_pages_def)
  obtain s1 D1 where l: "load_pages (Some r) ?start (?b - ?a) s = Some (0, s1)" "user_space s1 R r D1 (E \<union> segment_pages ph) m"
      "grows s D s1 D1" "\<And>v. page_number v \<in> segment_pages ph \<Longrightarrow> D1 (page_number v) \<noteq> None \<and> read_byte s1 v = Some 0"
    using load_pages_space [of s R r D E "?b - ?a" m ?start ?a] sp start top free ab unfolding pages by auto
  have addr: "unat (p_vaddr ph + of_nat k) = ?v + k" if "k < ?m" for k
    using that g(2) unat_add_u32 [of "p_vaddr ph" "of_nat k"] by (simp add: unat_of_nat)
  have in_pages: "page_number (p_vaddr ph + of_nat k) \<in> segment_pages ph" if "k < ?m" for k
  proof -
    have "?a \<le> (?v + k) div 4096" by (intro div_le_mono) simp
    moreover have "(?v + k) div 4096 < ?b" using that by (simp add: less_eq_div_iff_mult_less_eq Suc_le_eq [symmetric])
    ultimately show ?thesis by (simp add: page_number_def addr [OF that] segment_pages_def)
  qed
  have old: "page_number v \<notin> segment_pages ph" if "D (page_number v) \<noteq> None" for v
  proof
    assume p: "page_number v \<in> segment_pages ph"
    then have "page_number v < ?b" unfolding segment_pages_def by (simp only: atLeastLessThan_iff)
    then have "page_number v + 1 \<le> ?b" by (simp only: Suc_le_eq Suc_eq_plus1 [symmetric])
    then have "4096 * (page_number v + 1) \<le> 4096 * ?b" by (rule mult_le_mono2)
    then have "4096 * (page_number v + 1) \<le> 0xc0000000" using top by (rule le_trans)
    moreover have "unat v < 4096 * (page_number v + 1)" unfolding page_number_def by (simp add: dividend_less_times_div)
    ultimately have "user_va v" by (simp add: user_va_def kernel_area_start_def word_less_nat_alt)
    moreover have "page_number v \<notin> E" using p free by (metis IntI empty_iff)
    ultimately show False using user_space_fresh [OF sp] that by simp
  qed
  have zero: "read_byte s1 (p_vaddr ph + of_nat k) = Some 0" if "k < ?m" for k using l(4) [OF in_pages [OF that]] by simp
  have mapped: "D1 (page_number (p_vaddr ph + of_nat k)) \<noteq> None" if "k < ?m" for k using l(4) [OF in_pages [OF that]] by simp
  show ?thesis
  proof (cases "p_filesz ph = 0")
    case True
    then have "load_segment (Some r) bin ph s = Some (0, s1)" using l(1) count by (simp add: load_segment_def)
    moreover have "segment_loaded s1 bin ph" using zero True by (simp add: segment_loaded_def image_byte_def)
    ultimately show ?thesis using l(2,3) mapped by blast
  next
    case False
    let ?bs = "take ?f (drop (unat (p_offset ph)) bin)"
    have bs: "length ?bs = ?f" "\<And>k. k < ?f \<Longrightarrow> ?bs ! k = bin ! (unat (p_offset ph) + k)" using g(4) by simp_all
    have "length ?bs < 2 ^ 32" unfolding bs(1) by (rule unat_u32_less)
    moreover have "\<forall>k<length ?bs. D1 (page_number (p_vaddr ph + of_nat k)) \<noteq> None" using mapped g(3) by (simp add: bs(1))
    ultimately obtain s' where c: "vm_copy_to_user (Some r) (p_vaddr ph) ?bs s1 = Some s'" "user_space s' R r D1 (E \<union> segment_pages ph) m"
        "\<And>v. D1 (page_number v) \<noteq> None \<Longrightarrow> read_byte s' v =
           (if unat (v - p_vaddr ph) < length ?bs then Some (?bs ! unat (v - p_vaddr ph)) else read_byte s1 v)"
      using write_user_bytes [OF l(2)] by blast
    have run: "load_segment (Some r) bin ph s = Some (0, s')" using l(1) count False g(4) c(1) by (simp add: load_segment_def)
    have off: "unat (p_vaddr ph + of_nat k - p_vaddr ph) = k" if "k < ?m" for k
      using that g(2) by (simp add: unat_of_nat)
    have "segment_loaded s' bin ph" unfolding segment_loaded_def
    proof (intro allI impI)
      fix k assume k: "k < ?m"
      show "read_byte s' (p_vaddr ph + of_nat k) = Some (image_byte bin ph k)"
        using c(3) [OF mapped [OF k]] zero [OF k] g(4) unfolding off [OF k] bs(1) by (cases "k < ?f") (simp_all add: image_byte_def)
    qed
    moreover have "grows s1 D s' D1" unfolding grows_def
    proof (intro conjI allI impI)
      show "D \<subseteq>\<^sub>m D1" using l(3) by (simp add: grows_def)
      fix v assume v: "D (page_number v) \<noteq> None"
      have "\<not> unat (v - p_vaddr ph) < ?f"
      proof
        assume lt: "unat (v - p_vaddr ph) < ?f"
        have "v = p_vaddr ph + of_nat (unat (v - p_vaddr ph))" by simp
        then show False using in_pages [of "unat (v - p_vaddr ph)"] lt g(3) old [OF v] by simp
      qed
      moreover have "D1 (page_number v) \<noteq> None" using v l(3) by (auto simp: grows_def map_le_def dom_def)
      ultimately show "read_byte s' v = read_byte s1 v" using c(3) [of v] bs(1) by simp
    qed
    then have "grows s D s' D1" using l(3) by (simp add: grows_def)
    ultimately show ?thesis using run c(2) mapped by blast
  qed
qed

subsection \<open>The whole image\<close>

text \<open>The segments that are loaded, in the order of their headers.\<close>

fun load_headers :: "u8 list \<Rightarrow> nat \<Rightarrow> nat \<Rightarrow> Elf32_Phdr list option" where
  "load_headers bin i 0 = Some []"
| "load_headers bin i (Suc n) = do {
     ph \<leftarrow> phdr_at bin i;
     phs \<leftarrow> load_headers bin (i + sizeof_Elf32_Phdr) n;
     Some (if p_type ph = PT_LOAD then ph # phs else phs)
   }"

definition disjoint_segments :: "Elf32_Phdr list \<Rightarrow> bool" where
  "disjoint_segments phs \<longleftrightarrow> sorted_wrt (\<lambda>a b. segment_pages a \<inter> segment_pages b = {}) phs"

definition image_pages :: "Elf32_Phdr list \<Rightarrow> nat" where
  "image_pages phs = sum_list (map (\<lambda>ph. card (segment_pages ph)) phs)"

lemma grows_loaded:
  assumes "segment_loaded s bin ph" "grows s D s' D'" "\<forall>k < unat (p_memsz ph). D (page_number (p_vaddr ph + of_nat k)) \<noteq> None"
  shows "segment_loaded s' bin ph"
  using assms by (simp add: segment_loaded_def grows_def)

lemma load_segments_space:
  assumes "user_space s R r D E (2 * image_pages phs)" and "load_headers bin i n = Some phs"
    and "\<forall>ph\<in>set phs. good_segment bin ph \<and> segment_pages ph \<inter> E = {}" and "disjoint_segments phs"
  shows "\<exists>s' D' E'. load_segments (Some r) bin i n s = Some (0, s') \<and> user_space s' R r D' E' 0 \<and> grows s D s' D' \<and>
    (\<forall>ph\<in>set phs. segment_loaded s' bin ph)"
  using assms
proof (induction n arbitrary: s D E i phs)
  case 0
  then show ?case using grows_refl by (auto simp: image_pages_def)
next
  case (Suc n)
  obtain ph rest where ph: "phdr_at bin i = Some ph" "load_headers bin (i + sizeof_Elf32_Phdr) n = Some rest"
      "phs = (if p_type ph = PT_LOAD then ph # rest else rest)"
    using Suc.prems(2) by (auto simp: bind_eq_Some_conv)
  have type: "word_at bin i = Some (p_type ph)" using ph(1) by (auto simp: phdr_at_def bind_eq_Some_conv)
  show ?case
  proof (cases "p_type ph = PT_LOAD")
    case False
    then show ?thesis using Suc.IH [OF Suc.prems(1)] ph type Suc.prems(3,4) by simp
  next
    case True
    then have phs: "phs = ph # rest" using ph(3) by simp
    have "user_space s R r D E (2 * card (segment_pages ph) + 2 * image_pages rest)"
      using Suc.prems(1) by (simp add: phs image_pages_def algebra_simps)
    moreover have "good_segment bin ph" "segment_pages ph \<inter> E = {}" using Suc.prems(3) by (simp_all add: phs)
    ultimately obtain s1 D1 where one: "load_segment (Some r) bin ph s = Some (0, s1)"
        "user_space s1 R r D1 (E \<union> segment_pages ph) (2 * image_pages rest)" "grows s D s1 D1" "segment_loaded s1 bin ph"
        "\<forall>k < unat (p_memsz ph). D1 (page_number (p_vaddr ph + of_nat k)) \<noteq> None"
      using load_segment_space by blast
    have "\<forall>x\<in>set rest. good_segment bin x \<and> segment_pages x \<inter> (E \<union> segment_pages ph) = {}"
      using Suc.prems(3,4) by (auto simp: phs disjoint_segments_def)
    moreover have "disjoint_segments rest" using Suc.prems(4) by (simp add: phs disjoint_segments_def)
    ultimately obtain s' D' E' where r: "load_segments (Some r) bin (i + sizeof_Elf32_Phdr) n s1 = Some (0, s')"
        "user_space s' R r D' E' 0" "grows s1 D1 s' D'" "\<forall>x\<in>set rest. segment_loaded s' bin x"
      using Suc.IH [OF one(2) ph(2)] by blast
    have "load_segments (Some r) bin i (Suc n) s = Some (0, s')" using type ph(1) one(1) r(1) True by simp
    then show ?thesis using r grows_trans [OF one(3) r(3)] grows_loaded [OF one(4) r(3) one(5)] by (auto simp: phs)
  qed
qed

text \<open>
  C13: An executable whose segments are inside the file, below the kernel's memory and on different pages loads
  without error when there is memory for two blocks per page; switched to the new address space the process
  finds at the address of every segment the bytes of the file and after them zeros up to the segment's size.
\<close>
theorem elf_image_loaded:
  assumes header: "ehdr_at bin = Some hdr" "length bin \<ge> sizeof_Elf32_Ehdr" "verify_identification hdr = 0"
      "e_type hdr = ET_EXEC" "e_machine hdr = EM_ARM"
    and segments: "load_headers bin (unat (e_phoff hdr)) (unat (e_phnum hdr)) = Some phs"
      "\<forall>ph\<in>set phs. good_segment bin ph \<and> segment_pages ph \<inter> E = {}" "disjoint_segments phs"
    and other: "current_as s = Some c" "c \<noteq> r" "c \<in> R"
    and space: "vm_switch_address_space (Some r) s = Some s0" "user_space s0 R r D E (2 * image_pages phs)"
  shows "\<exists>s' t. try_load_elf bin (Some r) s = Some (0, Some (e_entry hdr), s') \<and> current_as s' = Some c \<and>
    vm_switch_address_space (Some r) s' = Some t \<and> (\<forall>ph\<in>set phs. segment_loaded t bin ph)"
proof -
  obtain s1 D' E' where l: "load_segments (Some r) bin (unat (e_phoff hdr)) (unat (e_phnum hdr)) s0 = Some (0, s1)"
      "user_space s1 R r D' E' 0" "\<forall>ph\<in>set phs. segment_loaded s1 bin ph"
    using load_segments_space [OF space(2) segments] by blast
  obtain F A T where u: "user_frames s1 F A R T r D'" using l(2) unfolding user_space_def by blast
  note d = user_framesD [OF u] and w = vm_wfD [OF user_framesD(1) [OF u]]
  have page: "page2addr (vm_pa s1) p = Some (phys_of s1 p)" if "p \<in> R" for p
    by (rule page2addr_phys [OF w(1) block_head [OF w(2) w(4) [OF that]]])
  let ?s' = "s1\<lparr>ttbr0 := phys_of s1 c, current_as := Some c\<rparr>"
  have "vm_using_address_space (Some r) (load_segments (Some r) bin (unat (e_phoff hdr)) (unat (e_phnum hdr))) s = Some (0, ?s')"
    using other(1,2) space(1) l(1) page [OF other(3)] by (simp add: vm_using_address_space_def vm_switch_address_space_def Let_def)
  then have "try_load_elf bin (Some r) s = Some (0, Some (e_entry hdr), ?s')" using header by (simp add: try_load_elf_def)
  moreover have "vm_switch_address_space (Some r) ?s' = Some s1"
    using page [OF d(2)] d(3,4) by (simp add: vm_switch_address_space_def)
  ultimately show ?thesis using l(3) by (intro exI [of _ ?s'] exI [of _ s1]) simp
qed

text \<open>
  64 KB of RAM: two address spaces without any page, at the blocks 0 and 16, and a free block of 16 KB; and a program of
  four bytes, to be loaded at \<open>0x8002\<close> with four more zero bytes.
\<close>

definition empty_spaces :: vm_state where
  "empty_spaces = \<lparr>vm_pa = \<lparr>pages_data = map (\<lambda>p. \<lparr>ref_count = if p = 0 \<or> p = 16 then 1 else 0, next_page = None\<rparr>) [0..<64],
       ram_starting_address = 0x40000000, free_pages_lists = (\<lambda>ord. if ord = Order16KB then Some 32 else None)\<rparr>,
     vm_mem = \<lambda>_. 0, kernel_as = Some 0, current_as = Some 0, ttbr0 = 0x40000000, ioremap_used = [],
     ram_phys_start = 0x40000000, ram_size = 0x10000, init_state = InitCompleted\<rparr>"

definition small_program :: "u8 list" where
  "small_program =
     [0x7f, 0x45, 0x4c, 0x46, 1, 1, 1, 0, 0, 0, 0, 0, 0, 0, 0, 0, 2, 0, 40, 0, 1, 0, 0, 0, 2, 0x80, 0, 0, 52, 0, 0, 0] @
     [0, 0, 0, 0, 0, 0, 0, 0, 52, 0, 32, 0, 1, 0, 0, 0, 0, 0, 0, 0] @
     [1, 0, 0, 0, 84, 0, 0, 0, 2, 0x80, 0, 0, 2, 0x80, 0, 0, 4, 0, 0, 0, 8, 0, 0, 0, 7, 0, 0, 0, 0, 0x10, 0, 0] @
     [0xde, 0xad, 0xbe, 0xef]"

definition small_header :: Elf32_Ehdr where
  "small_header = \<lparr>e_ident = take 16 small_program, e_type = 2, e_machine = 40, e_version = 1, e_entry = 0x8002, e_phoff = 52,
     e_shoff = 0, e_flags = 0, e_ehsize = 52, e_phentsize = 32, e_phnum = 1, e_shentsize = 0, e_shnum = 0, e_shstrndx = 0\<rparr>"

definition small_segment :: Elf32_Phdr where
  "small_segment = \<lparr>p_type = 1, p_offset = 84, p_vaddr = 0x8002, p_paddr = 0x8002, p_filesz = 4, p_memsz = 8, p_flags = 7, p_align = 0x1000\<rparr>"

lemma small_program_headers:
  "ehdr_at small_program = Some small_header" "length small_program = 88" "verify_identification small_header = 0"
  "load_headers small_program 52 1 = Some [small_segment]"
  by code_simp+

lemma small_segment_good: "good_segment small_program small_segment" "segment_pages small_segment = {8}"
  by (auto simp: good_segment_def segment_pages_def small_segment_def small_program_headers(2))

lemma empty_spaces_memory: "can_alloc 2 (vm_pa empty_spaces)"
  by code_simp

lemma empty_spaces_ok: "user_space (empty_spaces\<lparr>ttbr0 := 0x40004000, current_as := Some 16\<rparr>) {0, 16} 16 Map.empty {} 2"
proof -
  let ?s = "empty_spaces\<lparr>ttbr0 := 0x40004000, current_as := Some 16\<rparr>"
  let ?F = "\<lambda>ord. if ord = Order16KB then [32] else []" and ?A = "[(0, Order16KB), (16, Order16KB)]"
  have "distinct (cover [(32, Order16KB), (0, Order16KB), (16, Order16KB)])" by (simp add: block_pages_def upt_rec)
  then have "pa_inv (vm_pa ?s) ?F ?A []"
    by (auto simp: pa_inv_def blocks_ok_def free_blocks_def aligned_block_def empty_spaces_def)
  then have "vm_wf ?s ?F ?A {0, 16} Map.empty"
    by (auto simp: vm_wf_def vm_geom_def empty_spaces_def mask_eq_exp_minus_1)
  then have "user_frames ?s ?F ?A {0, 16} Map.empty 16 Map.empty"
    by (simp add: user_frames_def phys_of_def empty_spaces_def)
  moreover have "lvl2_entry ?s Map.empty 16 v = 0" for v by (simp add: lvl2_entry_def)
  ultimately show ?thesis using empty_spaces_memory unfolding user_space_def by (simp del: can_alloc.simps) blast
qed

theorem elf_image_loaded_witness:
  "\<exists>s' t. try_load_elf small_program (Some 16) empty_spaces = Some (0, Some 0x8002, s') \<and>
     vm_switch_address_space (Some 16) s' = Some t \<and> read_byte t 0x8004 = Some 0xbe \<and> read_byte t 0x8009 = Some 0"
proof -
  have switch: "vm_switch_address_space (Some 16) empty_spaces = Some (empty_spaces\<lparr>ttbr0 := 0x40004000, current_as := Some 16\<rparr>)"
    by (simp add: vm_switch_address_space_def page2addr_def empty_spaces_def)
  have h: "e_phoff small_header = 52" "e_phnum small_header = 1" "e_type small_header = ET_EXEC" "e_machine small_header = EM_ARM"
      "e_entry small_header = 0x8002" "image_pages [small_segment] = 1"
    by (simp_all add: small_header_def ET_EXEC_def EM_ARM_def image_pages_def small_segment_good)
  obtain s' t where st: "try_load_elf small_program (Some 16) empty_spaces = Some (0, Some 0x8002, s')"
      "vm_switch_address_space (Some 16) s' = Some t" "segment_loaded t small_program small_segment"
  proof -
    have cur: "current_as empty_spaces = Some 0" "sizeof_Elf32_Ehdr \<le> length small_program" "disjoint_segments [small_segment]"
      by (simp_all add: empty_spaces_def sizeof_Elf32_Ehdr_def small_program_headers(2) disjoint_segments_def)
    have phs: "load_headers small_program (unat (e_phoff small_header)) (unat (e_phnum small_header)) = Some [small_segment]"
      using small_program_headers(4) by (simp add: h del: load_headers.simps)
    have "user_space (empty_spaces\<lparr>ttbr0 := 0x40004000, current_as := Some 16\<rparr>) {0, 16} 16 Map.empty {} (2 * image_pages [small_segment])"
      using empty_spaces_ok h(6) by simp
    from elf_image_loaded [OF small_program_headers(1) cur(2) small_program_headers(3) h(3,4) phs _ cur(3,1) _ _ switch this]
    show ?thesis using that small_segment_good(1) h(5) by auto
  qed
  have "read_byte t (0x8002 + of_nat 2) = Some (image_byte small_program small_segment 2)"
    "read_byte t (0x8002 + of_nat 7) = Some (image_byte small_program small_segment 7)"
    using st(3) by (simp_all add: segment_loaded_def small_segment_def del: of_nat_numeral)
  then show ?thesis using st(1,2) by (simp add: image_byte_def small_segment_def small_program_def)
qed

end
