(* ===== verification/Execve.thy ===== *)
theory Execve
  imports Syscalls Elf
begin

text \<open>
  Replacing the program of a process (\<^verbatim>\<open>sys$execve\<close> and its helpers in \<^verbatim>\<open>kernel/scheduler.cpp\<close>, the end of
  \<^verbatim>\<open>kernel/task/elfloader.cpp\<close>): the arguments are copied to the kernel, a new address space is filled from the
  file, and the arguments are pushed on its stack.
\<close>

subsection \<open>Arguments\<close>

text \<open>
  The copies of the strings, one allocation each.  When one fails, the code frees every slot of the array, also
  those that it has not filled yet: \<open>None\<close>, unless the last string was the one that failed.
\<close>

fun clone_strings :: "string list \<Rightarrow> ('c, 's) kernel \<Rightarrow> (int \<times> ('c, 's) kernel) option" where
  "clone_strings [] k = Some (0, k)"
| "clone_strings (x # xs) k =
     (if strnlen (c_string x) 256 = 256 then None
      else let (ok, k) = kernel_malloc k
        in if ok then clone_strings xs k
           else if xs = [] then Some (- errno ERR_NOMEM, k) else None)"

definition clone_user_array_of_strings :: "string list \<Rightarrow> ('c, 's) kernel \<Rightarrow> (int \<times> ('c, 's) kernel) option" where
  "clone_user_array_of_strings user_array k =
     (if length user_array \<ge> 128 then Some (- errno ERR_2BIG, k)
      else let (ok, k) = kernel_malloc k
        in if ok then clone_strings user_array k else Some (- errno ERR_NOMEM, k))"

definition write_word :: "u32 \<Rightarrow> u32 \<Rightarrow> vm_state \<Rightarrow> vm_state option" where
  "write_word va w s = write_bytes va (word_bytes w) s"

definition string_bytes :: "string \<Rightarrow> u8 list" where
  "string_bytes x = map of_char (c_string x) @ [0]"

text \<open>The strings go below the array of pointers, each below the one before.\<close>

fun push_strings :: "u32 \<Rightarrow> u32 \<Rightarrow> string list \<Rightarrow> vm_state \<Rightarrow> (u32 \<times> vm_state) option" where
  "push_strings userstack slot [] s = Some (userstack, s)"
| "push_strings userstack slot (x # xs) s = do {
     let userstack = userstack - of_nat (length (string_bytes x));
     s \<leftarrow> write_bytes userstack (string_bytes x) s;
     s \<leftarrow> write_word slot userstack s;
     push_strings userstack (slot + 4) xs s
   }"

definition push_string_array_to_stack :: "u32 \<Rightarrow> string list \<Rightarrow> vm_state \<Rightarrow> (u32 \<times> u32 \<times> vm_state) option" where
  "push_string_array_to_stack userstack strings s = do {
     let user_array = userstack - 4 * of_nat (length strings);
     (userstack, s) \<leftarrow> push_strings user_array user_array strings s;
     Some (round_down_u32 userstack 8, user_array, s)
   }"

definition push_process_args :: "u32 \<Rightarrow> string list \<Rightarrow> string list \<Rightarrow> vm_state \<Rightarrow> (u32 \<times> vm_state) option" where
  "push_process_args userstack argv envp s = do {
     (userstack, user_argv, s) \<leftarrow> push_string_array_to_stack userstack argv s;
     (userstack, user_envp, s) \<leftarrow> push_string_array_to_stack userstack envp s;
     let state = userstack - 16;
     s \<leftarrow> write_word state (of_nat (length argv)) s;
     s \<leftarrow> write_word (state + 4) user_argv s;
     s \<leftarrow> write_word (state + 8) (of_nat (length envp)) s;
     s \<leftarrow> write_word (state + 12) user_envp s;
     Some (round_down_u32 state 8, s)
   }"

subsection \<open>Loading the file\<close>

text \<open>
  \<open>raw\<close> is what the memory for the file holds before it is read into.  While the file is not ready, the call gives
  up the processor: \<open>Yield\<close>.
\<close>

definition elf_load_into_address_space ::
  "('c, 's) fs_table \<Rightarrow> u8 list \<Rightarrow> string \<Rightarrow> string \<Rightarrow> nat option \<Rightarrow> ('c, 's) kernel \<Rightarrow> ((int \<times> u32 option) blocking \<times> ('c, 's) kernel) option" where
  "elf_load_into_address_space ops raw workdir path as k = do {
     (rc, custody, v) \<leftarrow> vfs_open ops workdir path OF_RDONLY (k_vfs k);
     let k = k\<lparr>k_vfs := v\<rparr>;
     if rc \<noteq> 0 then do {
       (_, v) \<leftarrow> vfs_close ops custody (k_vfs k);
       Some (Return (rc, None), k\<lparr>k_vfs := v\<rparr>)
     }
     else do {
       c \<leftarrow> custody;
       (fsize, v) \<leftarrow> vfs_seek ops c SEEK_END 0 (k_vfs k);
       (_, v) \<leftarrow> vfs_seek ops c SEEK_SET 0 v;
       let (ok, k) = kernel_malloc (k\<lparr>k_vfs := v\<rparr>);
       if \<not> ok \<or> fsize < 0 then do {
         (_, v) \<leftarrow> vfs_close ops custody (k_vfs k);
         Some (Return (- errno ERR_NOMEM, None), k\<lparr>k_vfs := v\<rparr>)
       }
       else do {
         (r, v) \<leftarrow> vfs_read ops c (of_int fsize) (k_vfs k);
         case r of
           Yield \<Rightarrow> Some (Yield, k)
         | Return (n, bytes) \<Rightarrow> do {
             let binary = bytes @ take (nat fsize - length bytes) (drop (length bytes) raw);
             (rc, entry, vm) \<leftarrow> (if n < 0 then Some (n, None, k_vm k) else try_load_elf binary as (k_vm k));
             (_, v) \<leftarrow> vfs_close ops custody v;
             Some (Return (rc, entry), k\<lparr>k_vfs := v, k_vm := vm\<rparr>)
           }
       }
     }
   }"

subsection \<open>The system call\<close>

definition set_thread_start_values :: "u32 \<Rightarrow> u32 \<Rightarrow> InterruptFrame \<Rightarrow> InterruptFrame" where
  "set_thread_start_values entrypoint userstack frame = frame\<lparr>frame_lr := entrypoint, user_sp := userstack\<rparr>"

text \<open>The end of the call, once the new address space \<open>as\<close> has its program and its stack.\<close>

definition enter_program ::
  "nat \<Rightarrow> nat \<Rightarrow> string \<Rightarrow> string list \<Rightarrow> string list \<Rightarrow> nat \<Rightarrow> u32 \<Rightarrow> u32 \<Rightarrow> ('c, 's) kernel \<Rightarrow> (int \<times> ('c, 's) kernel) option" where
  "enter_program t p path argv envp as entrypoint userstack k = do {
     pr \<leftarrow> k_processes k p;
     kassert (threads_count pr \<le> 1);
     let old_as = address_space pr;
     let k = set_process p (pr\<lparr>process_name := take 63 (c_string path), address_space := Some as\<rparr>) k;
     vm \<leftarrow> vm_switch_address_space (Some as) (k_vm k);
     (_, vm) \<leftarrow> vm_free old_as vm;
     (userstack, vm) \<leftarrow> push_process_args userstack argv envp vm;
     kassert (unat userstack mod 8 = 0);
     th \<leftarrow> k_threads k t;
     Some (0, set_thread t (th\<lparr>iframe := set_thread_start_values entrypoint userstack (iframe th)\<rparr>) (k\<lparr>k_vm := vm\<rparr>))
   }"

text \<open>
  The cleanup frees the new address space, whose pointer nobody has set when the arguments cannot be copied or the
  address space cannot be created: \<open>None\<close>.  A call that waits for the file starts again with the state it began
  with, so what the code holds while it waits is not there.
\<close>

definition sys_execve ::
  "('c, 's) fs_table \<Rightarrow> u8 list \<Rightarrow> nat \<Rightarrow> nat \<Rightarrow> string \<Rightarrow> string list \<Rightarrow> string list \<Rightarrow> ('c, 's) kernel \<Rightarrow> (int blocking \<times> ('c, 's) kernel) option" where
  "sys_execve ops raw t p path user_argv user_envp k0 = do {
     pr \<leftarrow> k_processes k0 p;
     (rc, k) \<leftarrow> clone_user_array_of_strings user_argv k0;
     kassert (rc = 0);
     (rc, k) \<leftarrow> clone_user_array_of_strings user_envp k;
     kassert (rc = 0);
     (new_as, vm) \<leftarrow> vm_create_address_space (k_vm k);
     case new_as of
       Inl e \<Rightarrow> None
     | Inr as \<Rightarrow> do {
         (r, k) \<leftarrow> elf_load_into_address_space ops raw (working_directory pr) path (Some as) (k\<lparr>k_vm := vm\<rparr>);
         case r of
           Yield \<Rightarrow> Some (Yield, k0)
         | Return (rc, entry) \<Rightarrow>
             if rc \<noteq> 0 then do {
               (_, vm) \<leftarrow> vm_free (Some as) (k_vm k);
               Some (Return rc, k\<lparr>k_vm := vm\<rparr>)
             }
             else do {
               entrypoint \<leftarrow> entry;
               (userstack, vm) \<leftarrow> alloc_thread_user_stack (Some as) 0 (k_vm k);
               let k = k\<lparr>k_vm := vm\<rparr>;
               case userstack of
                 None \<Rightarrow> do {
                   (_, vm) \<leftarrow> vm_free (Some as) (k_vm k);
                   Some (Return (- errno ERR_NOMEM), k\<lparr>k_vm := vm\<rparr>)
                 }
               | Some userstack \<Rightarrow> do {
                   (rc, k) \<leftarrow> enter_program t p path user_argv user_envp as entrypoint userstack k;
                   Some (Return rc, k)
                 }
             }
       }
   }"

end
