(* ===== verification/ExecveArgs.thy ===== *)
theory ExecveArgs
  imports Execve
begin

text \<open>
  What a new program finds on its stack: the start code (\<^verbatim>\<open>userland/bsp/crt0.c\<close>) reads the counts and the arrays of
  pointers that \<^verbatim>\<open>push_process_args\<close> has put there (\<^verbatim>\<open>ArmCrt0InitialStackState\<close>).
\<close>

subsection \<open>The stack as an array of bytes\<close>

text \<open>The addresses from \<open>lo\<close> to below \<open>hi\<close> are mapped in the current address space \<open>r\<close>.\<close>

definition stack_space :: "nat \<Rightarrow> nat \<Rightarrow> vm_state \<Rightarrow> nat set \<Rightarrow> nat \<Rightarrow> (nat \<Rightarrow> nat option) \<Rightarrow> nat set \<Rightarrow> nat \<Rightarrow> bool" where
  "stack_space lo hi s R r D E n \<longleftrightarrow> user_space s R r D E n \<and> hi \<le> 0xc0000000 \<and>
     (\<forall>a. lo \<le> a \<longrightarrow> a < hi \<longrightarrow> D (page_number (of_nat a)) \<noteq> None)"

definition byte_at :: "vm_state \<Rightarrow> nat \<Rightarrow> u8 option" where
  "byte_at s a = read_byte s (of_nat a)"

definition bytes_at :: "vm_state \<Rightarrow> nat \<Rightarrow> u8 list \<Rightarrow> bool" where
  "bytes_at s a bs \<longleftrightarrow> (\<forall>i<length bs. byte_at s (a + i) = Some (bs ! i))"

lemma write_stack:
  assumes sp: "stack_space lo hi s R r D E n" and a: "lo \<le> a" "a + length bs \<le> hi"
  shows "\<exists>s'. write_bytes (of_nat a) bs s = Some s' \<and> stack_space lo hi s' R r D E n \<and> bytes_at s' a bs \<and>
    (\<forall>x. lo \<le> x \<longrightarrow> x < hi \<longrightarrow> x < a \<or> a + length bs \<le> x \<longrightarrow> byte_at s' x = byte_at s x)"
proof -
  have us: "user_space s R r D E n" and hi: "hi \<le> 0xc0000000"
    and mapped: "\<And>a. lo \<le> a \<Longrightarrow> a < hi \<Longrightarrow> D (page_number (of_nat a)) \<noteq> None"
    using sp by (auto simp: stack_space_def)
  have u: "unat (of_nat x :: u32) = x" if "x < hi" for x using that hi by (simp add: unat_of_nat)
  have len: "length bs < 2 ^ 32" using a hi by simp
  have "\<forall>i<length bs. D (page_number (of_nat a + of_nat i)) \<noteq> None"
    using mapped a by (simp flip: of_nat_add)
  then obtain s' where c: "vm_copy_to_user (Some r) (of_nat a) bs s = Some s'" "user_space s' R r D E n"
      "\<And>v. D (page_number v) \<noteq> None \<Longrightarrow> read_byte s' v =
         (if unat (v - of_nat a) < length bs then Some (bs ! unat (v - of_nat a)) else read_byte s v)"
    using write_user_bytes [OF us len] by blast
  have w: "write_bytes (of_nat a) bs s = Some s'" using c(1) by (simp add: vm_copy_to_user_def split: if_splits)
  have at: "byte_at s' x = (if a \<le> x \<and> x < a + length bs then Some (bs ! (x - a)) else byte_at s x)" if x: "lo \<le> x" "x < hi" for x
  proof (cases "a \<le> x")
    case True
    then have "(of_nat x - of_nat a :: u32) = of_nat (x - a)" by (simp add: of_nat_diff)
    then have "unat (of_nat x - of_nat a :: u32) = x - a" using u [of "x - a"] x by simp
    then show ?thesis using c(3) [OF mapped [OF x]] True by (auto simp: byte_at_def)
  next
    case False
    then have "(of_nat x :: u32) < of_nat a \<or> bs = []" using u [of x] u [of a] x a by (cases "a < hi"; cases bs) (auto simp: word_less_nat_alt)
    then have "\<not> unat (of_nat x - of_nat a :: u32) < length bs"
    proof
      assume less: "(of_nat x :: u32) < of_nat a"
      have "(of_nat (2 ^ 32 + x - a) :: u32) = of_nat (2 ^ 32) + of_nat x - of_nat a" using False a hi by (simp add: of_nat_diff)
      also have "(of_nat (2 ^ 32) :: u32) = 0" by simp
      finally have "(of_nat x - of_nat a :: u32) = of_nat (2 ^ 32 + x - a)" by simp
      moreover have "2 ^ 32 + x - a < (2 :: nat) ^ 32" using False by simp
      ultimately have "unat (of_nat x - of_nat a :: u32) = 2 ^ 32 + x - a" by (simp only: unat_of_nat) simp
      then show ?thesis using a hi by auto
    qed simp
    then show ?thesis using c(3) [OF mapped [OF x]] False by (simp add: byte_at_def)
  qed
  have "stack_space lo hi s' R r D E n" using c(2) hi mapped by (simp add: stack_space_def)
  moreover have "bytes_at s' a bs" using at a by (simp add: bytes_at_def)
  ultimately show ?thesis using w at by auto
qed

lemma bytes_at_keep:
  assumes "bytes_at s a bs" and "\<And>x. a \<le> x \<Longrightarrow> x < a + length bs \<Longrightarrow> byte_at s' x = byte_at s x"
  shows "bytes_at s' a bs"
  using assms by (simp add: bytes_at_def)

subsection \<open>Arrays of strings\<close>

definition strings_size :: "string list \<Rightarrow> nat" where
  "strings_size strs = sum_list (map (\<lambda>x. length (string_bytes x)) strs)"

text \<open>The strings are in the addresses from \<open>lo\<close> to below \<open>hi\<close>.\<close>

definition strings_in :: "nat \<Rightarrow> nat \<Rightarrow> nat list \<Rightarrow> string list \<Rightarrow> bool" where
  "strings_in lo hi ptrs strs \<longleftrightarrow> list_all2 (\<lambda>p x. lo \<le> p \<and> p + length (string_bytes x) \<le> hi) ptrs strs"

lemma strings_in_mono: "strings_in lo hi ptrs strs \<Longrightarrow> lo' \<le> lo \<Longrightarrow> hi \<le> hi' \<Longrightarrow> strings_in lo' hi' ptrs strs"
  unfolding strings_in_def by (erule list_all2_mono) simp

text \<open>The pointers \<open>ptrs\<close> at \<open>a\<close>, and a string behind each.\<close>

definition strings_at :: "vm_state \<Rightarrow> nat \<Rightarrow> nat list \<Rightarrow> string list \<Rightarrow> bool" where
  "strings_at s a ptrs strs \<longleftrightarrow> length ptrs = length strs \<and>
     (\<forall>i<length strs. bytes_at s (a + 4 * i) (word_bytes (of_nat (ptrs ! i))) \<and> bytes_at s (ptrs ! i) (string_bytes (strs ! i)))"

lemma strings_at_Cons:
  "strings_at s a (p # ps) (x # xs) \<longleftrightarrow> bytes_at s a (word_bytes (of_nat p)) \<and> bytes_at s p (string_bytes x) \<and> strings_at s (a + 4) ps xs"
  by (auto simp: strings_at_def nth_Cons add.assoc add.commute split: nat.split)

lemma push_strings_ok:
  assumes "stack_space lo hi s R r D E n" and "lo + strings_size strs \<le> u" and "u \<le> slot" and "slot + 4 * length strs \<le> hi"
  shows "\<exists>s' ptrs. push_strings (of_nat u) (of_nat slot) strs s = Some (of_nat (u - strings_size strs), s') \<and>
    stack_space lo hi s' R r D E n \<and> strings_at s' slot ptrs strs \<and> strings_in (u - strings_size strs) u ptrs strs \<and>
    (\<forall>x. u \<le> x \<longrightarrow> x < hi \<longrightarrow> x < slot \<or> slot + 4 * length strs \<le> x \<longrightarrow> byte_at s' x = byte_at s x)"
  using assms
proof (induction strs arbitrary: u slot s)
  case Nil
  then show ?case by (auto simp: strings_at_def strings_size_def strings_in_def)
next
  case (Cons x xs)
  let ?b = "string_bytes x" let ?p = "u - length ?b"
  have size: "strings_size (x # xs) = length ?b + strings_size xs" by (simp add: strings_size_def)
  have p: "lo \<le> ?p" "?p + length ?b \<le> hi" using Cons.prems(2-4) size by linarith+
  obtain s1 where s1: "write_bytes (of_nat ?p) ?b s = Some s1" "stack_space lo hi s1 R r D E n" "bytes_at s1 ?p ?b"
      "\<forall>y. lo \<le> y \<longrightarrow> y < hi \<longrightarrow> y < ?p \<or> ?p + length ?b \<le> y \<longrightarrow> byte_at s1 y = byte_at s y"
    using write_stack [OF Cons.prems(1) p] by blast
  obtain s2 where s2: "write_bytes (of_nat slot) (word_bytes (of_nat ?p)) s1 = Some s2" "stack_space lo hi s2 R r D E n"
      "bytes_at s2 slot (word_bytes (of_nat ?p))"
      "\<forall>y. lo \<le> y \<longrightarrow> y < hi \<longrightarrow> y < slot \<or> slot + 4 \<le> y \<longrightarrow> byte_at s2 y = byte_at s1 y"
    using write_stack [OF s1(2), of slot "word_bytes (of_nat ?p)"] Cons.prems(2-4) by auto
  have rest: "lo + strings_size xs \<le> ?p" "?p \<le> slot + 4" "slot + 4 + 4 * length xs \<le> hi"
    using Cons.prems(2-4) size by auto
  obtain s' ptrs where s': "push_strings (of_nat ?p) (of_nat (slot + 4)) xs s2 = Some (of_nat (?p - strings_size xs), s')"
      "stack_space lo hi s' R r D E n" "strings_at s' (slot + 4) ptrs xs" "strings_in (?p - strings_size xs) ?p ptrs xs"
      "\<forall>y. ?p \<le> y \<longrightarrow> y < hi \<longrightarrow> y < slot + 4 \<or> slot + 4 + 4 * length xs \<le> y \<longrightarrow> byte_at s' y = byte_at s2 y"
    using Cons.IH [OF s2(2) rest] by blast
  have "(of_nat u - of_nat (length ?b) :: u32) = of_nat ?p" using Cons.prems(2) size by (simp add: of_nat_diff)
  then have run: "push_strings (of_nat u) (of_nat slot) (x # xs) s = Some (of_nat (u - strings_size (x # xs)), s')"
    using s1(1) s2(1) s'(1) size by (simp add: write_word_def Let_def)
  have "bytes_at s' slot (word_bytes (of_nat ?p))"
    by (rule bytes_at_keep [OF s2(3)]) (use s'(5) Cons.prems(3,4) in auto)
  moreover have "bytes_at s' ?p ?b"
    by (rule bytes_at_keep [OF s1(3)]) (use s'(5) s2(4) Cons.prems(2-4) size in auto)
  ultimately have "strings_at s' slot (?p # ptrs) (x # xs)" using s'(3) by (simp add: strings_at_Cons)
  moreover have "byte_at s' y = byte_at s y" if "u \<le> y" "y < hi" "y < slot \<or> slot + 4 * length (x # xs) \<le> y" for y
    using that s1(4) s2(4) s'(5) Cons.prems(2) size by auto
  moreover have "strings_in (u - strings_size (x # xs)) u (?p # ptrs) (x # xs)"
    using strings_in_mono [OF s'(4), of "u - strings_size (x # xs)" u] Cons.prems(2) size by (simp add: strings_in_def)
  ultimately show ?case using run s'(2) by blast
qed

lemma strings_at_keep:
  assumes "strings_at s a ptrs strs" and "strings_in lo hi ptrs strs" and "lo \<le> a" and "a + 4 * length strs \<le> hi"
    and "\<And>x. lo \<le> x \<Longrightarrow> x < hi \<Longrightarrow> byte_at s' x = byte_at s x"
  shows "strings_at s' a ptrs strs"
  unfolding strings_at_def
proof (intro conjI allI impI)
  show "length ptrs = length strs" using assms(1) by (simp add: strings_at_def)
  fix i assume i: "i < length strs"
  then have p: "lo \<le> ptrs ! i" "ptrs ! i + length (string_bytes (strs ! i)) \<le> hi"
    using assms(2) by (auto simp: strings_in_def list_all2_conv_all_nth)
  have old: "bytes_at s (ptrs ! i) (string_bytes (strs ! i))" "bytes_at s (a + 4 * i) (word_bytes (of_nat (ptrs ! i)))"
    using assms(1) i by (simp_all add: strings_at_def)
  show "bytes_at s' (ptrs ! i) (string_bytes (strs ! i))"
    by (rule bytes_at_keep [OF old(1)]) (use p in \<open>intro assms(5), linarith+\<close>)
  show "bytes_at s' (a + 4 * i) (word_bytes (of_nat (ptrs ! i)))"
  proof (rule bytes_at_keep [OF old(2)])
    fix x assume "a + 4 * i \<le> x" "x < a + 4 * i + length (word_bytes (of_nat (ptrs ! i)))"
    then show "byte_at s' x = byte_at s x" using assms(3,4) i by (intro assms(5)) simp_all
  qed
qed

text \<open>An array and its strings, and a stack that is aligned again below them.\<close>

lemma unat_round_down_8: "n < 2 ^ 32 \<Longrightarrow> round_down_u32 (of_nat n) 8 = of_nat (n div 8 * 8)"
proof -
  assume n: "n < 2 ^ 32"
  have "n div 8 * 8 < 2 ^ 32" using n by (simp add: less_mult_imp_div_less)
  then have "unat (of_nat (n div 8 * 8) :: u32) = n div 8 * 8" by (simp only: unat_of_nat) simp
  moreover have "unat (round_down_u32 (of_nat n) 8) = n div 8 * 8"
    using n unat_round_down [of "of_nat n" 8] by (simp add: unat_of_nat)
  ultimately show ?thesis by (simp only: word_unat_eq_iff)
qed

lemma push_array_ok:
  assumes sp: "stack_space lo hi s R r D E n" and fits: "lo + 4 * length strs + strings_size strs + 7 \<le> t" "t \<le> hi"
  shows "\<exists>s' a ptrs u. push_string_array_to_stack (of_nat t) strs s = Some (of_nat u, of_nat a, s') \<and>
    stack_space lo hi s' R r D E n \<and> strings_at s' a ptrs strs \<and> strings_in u t ptrs strs \<and> u mod 8 = 0 \<and> u \<le> a \<and>
    a + 4 * length strs = t \<and> t \<le> u + 4 * length strs + strings_size strs + 7 \<and>
    (\<forall>x. t \<le> x \<longrightarrow> x < hi \<longrightarrow> byte_at s' x = byte_at s x)"
proof -
  let ?a = "t - 4 * length strs" let ?v = "?a - strings_size strs"
  have below: "lo + strings_size strs \<le> ?a" "?a + 4 * length strs \<le> hi" using fits by linarith+
  obtain s' ptrs where p: "push_strings (of_nat ?a) (of_nat ?a) strs s = Some (of_nat ?v, s')" "stack_space lo hi s' R r D E n"
      "strings_at s' ?a ptrs strs" "strings_in ?v ?a ptrs strs"
      "\<forall>x. ?a \<le> x \<longrightarrow> x < hi \<longrightarrow> x < ?a \<or> ?a + 4 * length strs \<le> x \<longrightarrow> byte_at s' x = byte_at s x"
    using push_strings_ok [OF sp below(1) order_refl below(2)] by blast
  have hi: "hi \<le> 0xc0000000" using sp by (simp add: stack_space_def)
  have a: "(of_nat t - 4 * of_nat (length strs) :: u32) = of_nat ?a" using fits by (simp add: of_nat_diff)
  have v: "round_down_u32 (of_nat ?v) 8 = of_nat (?v div 8 * 8)" using hi fits by (intro unat_round_down_8) simp
  have u: "?v div 8 * 8 \<le> ?v" "?v \<le> ?v div 8 * 8 + 7"
    using mult_div_mod_eq [of 8 ?v] mod_less_divisor [of 8 ?v] by linarith+
  have "push_string_array_to_stack (of_nat t) strs s = Some (of_nat (?v div 8 * 8), of_nat ?a, s')"
    unfolding push_string_array_to_stack_def Let_def a using p(1) v by simp
  moreover have "strings_in (?v div 8 * 8) t ptrs strs" by (rule strings_in_mono [OF p(4)]) (use u in auto)
  moreover have "?v div 8 * 8 \<le> ?a" "?a + 4 * length strs = t" "t \<le> ?v div 8 * 8 + 4 * length strs + strings_size strs + 7"
    using u fits by linarith+
  moreover have "\<forall>x. t \<le> x \<longrightarrow> x < hi \<longrightarrow> byte_at s' x = byte_at s x" using p(5) fits by auto
  ultimately show ?thesis using p(2,3)
    by (intro exI [of _ s'] exI [of _ ?a] exI [of _ ptrs] exI [of _ "?v div 8 * 8"]) simp
qed

subsection \<open>The whole stack\<close>

text \<open>The structure that the start code reads at the stack pointer.\<close>

definition start_state_at :: "vm_state \<Rightarrow> nat \<Rightarrow> string list \<Rightarrow> string list \<Rightarrow> bool" where
  "start_state_at s sp argv envp \<longleftrightarrow> (\<exists>a ps e qs.
     bytes_at s sp (word_bytes (of_nat (length argv))) \<and> bytes_at s (sp + 4) (word_bytes (of_nat a)) \<and>
     bytes_at s (sp + 8) (word_bytes (of_nat (length envp))) \<and> bytes_at s (sp + 12) (word_bytes (of_nat e)) \<and>
     strings_at s a ps argv \<and> strings_at s e qs envp)"

text \<open>Four words in a row.\<close>

lemma write_state:
  assumes sp: "stack_space lo hi s R r D E n" and p: "lo \<le> p" "p + 16 \<le> hi"
  shows "\<exists>s'. (do { s \<leftarrow> write_word (of_nat p) w0 s; s \<leftarrow> write_word (of_nat p + 4) w1 s;
      s \<leftarrow> write_word (of_nat p + 8) w2 s; s \<leftarrow> write_word (of_nat p + 12) w3 s; Some s }) = Some s' \<and>
    stack_space lo hi s' R r D E n \<and> bytes_at s' p (word_bytes w0) \<and> bytes_at s' (p + 4) (word_bytes w1) \<and>
    bytes_at s' (p + 8) (word_bytes w2) \<and> bytes_at s' (p + 12) (word_bytes w3) \<and>
    (\<forall>x. p + 16 \<le> x \<longrightarrow> x < hi \<longrightarrow> byte_at s' x = byte_at s x)"
proof -
  have four: "\<exists>s'. write_word (of_nat q) w t = Some s' \<and> stack_space lo hi s' R r D E n \<and> bytes_at s' q (word_bytes w) \<and>
      (\<forall>x. lo \<le> x \<longrightarrow> x < hi \<longrightarrow> x < q \<or> q + 4 \<le> x \<longrightarrow> byte_at s' x = byte_at t x)"
    if "stack_space lo hi t R r D E n" "lo \<le> q" "q + 4 \<le> hi" for q w t
    using write_stack [OF that(1,2), of "word_bytes w"] that(3) by (simp add: write_word_def)
  obtain s1 where s1: "write_word (of_nat p) w0 s = Some s1" "stack_space lo hi s1 R r D E n" "bytes_at s1 p (word_bytes w0)"
      "\<forall>x. lo \<le> x \<longrightarrow> x < hi \<longrightarrow> x < p \<or> p + 4 \<le> x \<longrightarrow> byte_at s1 x = byte_at s x"
    using four [OF sp, of p] p by auto
  obtain s2 where s2: "write_word (of_nat (p + 4)) w1 s1 = Some s2" "stack_space lo hi s2 R r D E n" "bytes_at s2 (p + 4) (word_bytes w1)"
      "\<forall>x. lo \<le> x \<longrightarrow> x < hi \<longrightarrow> x < p + 4 \<or> p + 4 + 4 \<le> x \<longrightarrow> byte_at s2 x = byte_at s1 x"
    using four [OF s1(2), of "p + 4"] p by auto
  obtain s3 where s3: "write_word (of_nat (p + 8)) w2 s2 = Some s3" "stack_space lo hi s3 R r D E n" "bytes_at s3 (p + 8) (word_bytes w2)"
      "\<forall>x. lo \<le> x \<longrightarrow> x < hi \<longrightarrow> x < p + 8 \<or> p + 8 + 4 \<le> x \<longrightarrow> byte_at s3 x = byte_at s2 x"
    using four [OF s2(2), of "p + 8"] p by auto
  obtain s4 where s4: "write_word (of_nat (p + 12)) w3 s3 = Some s4" "stack_space lo hi s4 R r D E n" "bytes_at s4 (p + 12) (word_bytes w3)"
      "\<forall>x. lo \<le> x \<longrightarrow> x < hi \<longrightarrow> x < p + 12 \<or> p + 12 + 4 \<le> x \<longrightarrow> byte_at s4 x = byte_at s3 x"
    using four [OF s3(2), of "p + 12"] p by auto
  have "bytes_at s4 p (word_bytes w0)"
    by (rule bytes_at_keep [OF s1(3)]) (use p s2(4) s3(4) s4(4) in simp)
  moreover have "bytes_at s4 (p + 4) (word_bytes w1)"
    by (rule bytes_at_keep [OF s2(3)]) (use p s3(4) s4(4) in simp)
  moreover have "bytes_at s4 (p + 8) (word_bytes w2)"
    by (rule bytes_at_keep [OF s3(3)]) (use p s4(4) in simp)
  moreover have "byte_at s4 x = byte_at s x" if "p + 16 \<le> x" "x < hi" for x
    using that p s1(4) s2(4) s3(4) s4(4) by simp
  ultimately show ?thesis using s1(1) s2(1) s3(1) s4(1-3) by simp
qed

text \<open>
  C14: A new program gets its arguments.  When the arguments and the environment fit on the part of the stack that is
  mapped, pushing them does not fault and gives a stack pointer that is a multiple of 8, at which the start code
  finds the two counts and two arrays of pointers, each to a copy of the string with its terminator.
\<close>
theorem exec_args_on_stack:
  assumes space: "stack_space lo hi s R r D E n"
    and fits: "lo + 4 * length argv + strings_size argv + 4 * length envp + strings_size envp + 30 \<le> hi"
  shows "\<exists>sp s'. push_process_args (of_nat hi) argv envp s = Some (of_nat sp, s') \<and> sp mod 8 = 0 \<and> lo \<le> sp \<and> sp \<le> hi \<and>
    start_state_at s' sp argv envp"
proof -
  have hi: "hi \<le> 0xc0000000" using space by (simp add: stack_space_def)
  obtain s1 a ps u where a: "push_string_array_to_stack (of_nat hi) argv s = Some (of_nat u, of_nat a, s1)"
      "stack_space lo hi s1 R r D E n" "strings_at s1 a ps argv" "strings_in u hi ps argv" "u \<le> a" "a + 4 * length argv = hi"
      "hi \<le> u + 4 * length argv + strings_size argv + 7"
    using push_array_ok [OF space, of argv hi] fits by auto
  have fits1: "lo + 4 * length envp + strings_size envp + 7 \<le> u" "u \<le> hi" using a(5-7) fits by linarith+
  obtain s2 e qs v where e: "push_string_array_to_stack (of_nat u) envp s1 = Some (of_nat v, of_nat e, s2)"
      "stack_space lo hi s2 R r D E n" "strings_at s2 e qs envp" "strings_in v u qs envp" "v mod 8 = 0" "v \<le> e"
      "e + 4 * length envp = u" "u \<le> v + 4 * length envp + strings_size envp + 7"
      "\<forall>x. u \<le> x \<longrightarrow> x < hi \<longrightarrow> byte_at s2 x = byte_at s1 x"
    using push_array_ok [OF a(2) fits1] by (elim exE conjE) (rule that; assumption)
  let ?sp = "v - 16"
  have sp: "lo \<le> ?sp" "?sp + 16 \<le> hi" "16 \<le> v" "v \<le> hi" using a(5-7) e(6-8) fits by linarith+
  obtain s3 where s3: "(do { s \<leftarrow> write_word (of_nat ?sp) (of_nat (length argv)) s2; s \<leftarrow> write_word (of_nat ?sp + 4) (of_nat a) s;
      s \<leftarrow> write_word (of_nat ?sp + 8) (of_nat (length envp)) s; s \<leftarrow> write_word (of_nat ?sp + 12) (of_nat e) s; Some s }) = Some s3"
      "bytes_at s3 ?sp (word_bytes (of_nat (length argv)))" "bytes_at s3 (?sp + 4) (word_bytes (of_nat a))"
      "bytes_at s3 (?sp + 8) (word_bytes (of_nat (length envp)))" "bytes_at s3 (?sp + 12) (word_bytes (of_nat e))"
      "\<forall>x. ?sp + 16 \<le> x \<longrightarrow> x < hi \<longrightarrow> byte_at s3 x = byte_at s2 x"
    using write_state [OF e(2) sp(1,2)] by blast
  have "strings_at s3 a ps argv"
    by (rule strings_at_keep [OF a(3,4)]) (use a(5,6) s3(6) e(6-9) sp in auto)
  moreover have "strings_at s3 e qs envp"
    by (rule strings_at_keep [OF e(3,4)]) (use e(6,7) s3(6) sp fits1 in auto)
  ultimately have "start_state_at s3 ?sp argv envp" using s3(2-5) unfolding start_state_at_def by blast
  moreover have aligned: "?sp mod 8 = 0" using e(5) sp(3) by presburger
  moreover have "push_process_args (of_nat hi) argv envp s = Some (of_nat ?sp, s3)"
  proof -
    have w: "(of_nat v - 16 :: u32) = of_nat ?sp" using sp(3) by (simp add: of_nat_diff)
    have "?sp div 8 * 8 = ?sp" using aligned by auto
    then have rd: "round_down_u32 (of_nat ?sp) 8 = of_nat ?sp" using unat_round_down_8 [of ?sp] hi sp(4) by simp
    show ?thesis unfolding push_process_args_def Let_def w [symmetric]
      using a(1) e(1) s3(1) [folded w] rd [folded w] by (auto simp: bind_eq_Some_conv)
  qed
  moreover have "?sp \<le> hi" using sp(4) by simp
  ultimately show ?thesis using sp(1) by (intro exI [of _ ?sp] exI [of _ s3] conjI)
qed

theorem exec_args_on_stack_witness:
  "\<exists>s sp s'. push_process_args 0xa000 [''ls'', ''-l''] [''A=b''] s = Some (of_nat sp, s') \<and> sp mod 8 = 0 \<and>
    start_state_at s' sp [''ls'', ''-l''] [''A=b'']"
proof -
  have "user_va 0x9000" "page_number 0x9000 \<notin> {}" by (simp_all add: user_va_def kernel_area_start_def)
  from map_fresh_page [OF empty_spaces_ok [unfolded numeral_2_eq_2] this, of UserFullAccess]
  obtain page s where s: "user_space s {0, 16} 16 [page_number 0x9000 \<mapsto> page] {page_number 0x9000} 0" by blast
  have "page_number (of_nat a) = page_number 0x9000" if "0x9000 \<le> a" "a < 0xa000" for a
  proof -
    have "unat (of_nat a :: u32) = a" using that by (simp add: unat_of_nat)
    then show ?thesis using that by (simp add: page_number_def div_nat_eqI)
  qed
  then have "stack_space 0x9000 0xa000 s {0, 16} 16 [page_number 0x9000 \<mapsto> page] {page_number 0x9000} 0"
    using s by (simp add: stack_space_def)
  from exec_args_on_stack [OF this, of "[''ls'', ''-l'']" "[''A=b'']"]
  obtain sp s' where "push_process_args (of_nat 0xa000) [''ls'', ''-l''] [''A=b''] s = Some (of_nat sp, s')" "sp mod 8 = 0"
      "start_state_at s' sp [''ls'', ''-l''] [''A=b'']"
    by (auto simp: strings_size_def string_bytes_def c_string_def)
  then show ?thesis by (intro exI [of _ s] exI [of _ sp] exI [of _ s']) simp
qed

end
