(* ===== verification/VfsInv.thy ===== *)
theory VfsInv
  imports Vfs
begin

text \<open>
  The reference counts of the virtual filesystem: an inode that is in use by an open file is in the cache and
  counted for, through every operation.  What a mounted filesystem has to keep is a locale.
\<close>

subsection \<open>Projections of the state updates\<close>

lemma vfs_malloc_sel [simp]:
  "vfs_inodes (snd (vfs_malloc s)) = vfs_inodes s" "vfs_custodies (snd (vfs_malloc s)) = vfs_custodies s"
  "vfs_icache (snd (vfs_malloc s)) = vfs_icache s" "vfs_next (snd (vfs_malloc s)) = vfs_next s"
  "vfs_root (snd (vfs_malloc s)) = vfs_root s" "s_mountpoints (snd (vfs_malloc s)) = s_mountpoints s"
  "vfs_fs (snd (vfs_malloc s)) = vfs_fs s"
  by (auto simp: vfs_malloc_def split: list.splits)

lemma vfs_mallocE:
  obtains ok s' where "vfs_malloc s = (ok, s')" "vfs_inodes s' = vfs_inodes s" "vfs_custodies s' = vfs_custodies s"
    "vfs_icache s' = vfs_icache s" "vfs_next s' = vfs_next s" "vfs_root s' = vfs_root s"
    "s_mountpoints s' = s_mountpoints s" "vfs_fs s' = vfs_fs s"
proof (cases "vfs_malloc s")
  case (Pair ok s')
  then have "s' = snd (vfs_malloc s)" by simp
  then show ?thesis using that [OF Pair] by simp
qed

lemma set_inode_sel [simp]:
  "vfs_inodes (set_inode p f i s) = (vfs_inodes s)(p \<mapsto> (f, i))" "vfs_custodies (set_inode p f i s) = vfs_custodies s"
  "vfs_icache (set_inode p f i s) = vfs_icache s" "vfs_next (set_inode p f i s) = vfs_next s"
  "vfs_root (set_inode p f i s) = vfs_root s" "s_mountpoints (set_inode p f i s) = s_mountpoints s"
  "vfs_fs (set_inode p f i s) = vfs_fs s"
  by (simp_all add: set_inode_def)

lemma free_inode_sel [simp]:
  "vfs_inodes (free_inode p s) = (vfs_inodes s)(p := None)" "vfs_custodies (free_inode p s) = vfs_custodies s"
  "vfs_icache (free_inode p s) = vfs_icache s" "vfs_next (free_inode p s) = vfs_next s"
  "vfs_root (free_inode p s) = vfs_root s" "s_mountpoints (free_inode p s) = s_mountpoints s"
  by (simp_all add: free_inode_def)

lemma set_custody_sel [simp]:
  "vfs_inodes (set_custody p c s) = vfs_inodes s" "vfs_custodies (set_custody p c s) = (vfs_custodies s)(p \<mapsto> c)"
  "vfs_icache (set_custody p c s) = vfs_icache s" "vfs_next (set_custody p c s) = vfs_next s"
  "vfs_root (set_custody p c s) = vfs_root s" "s_mountpoints (set_custody p c s) = s_mountpoints s"
  by (simp_all add: set_custody_def)

subsection \<open>The invariant\<close>

text \<open>The number of open files on an inode; \<open>h p\<close> is the number of further references that a running operation holds.\<close>

definition open_files :: "('c, 's) vfs \<Rightarrow> nat \<Rightarrow> nat" where
  "open_files s p = card {c. \<exists>cu. vfs_custodies s c = Some cu \<and> custody_inode cu = p}"

definition vfs_inv :: "(nat \<Rightarrow> nat) \<Rightarrow> ('c, 's) vfs \<Rightarrow> bool" where
  "vfs_inv h s \<longleftrightarrow>
     finite (dom (vfs_custodies s)) \<and> (\<forall>p\<in>dom (vfs_inodes s). p < vfs_next s) \<and> (\<forall>c\<in>dom (vfs_custodies s). c < vfs_next s) \<and>
     (\<forall>c cu. vfs_custodies s c = Some cu \<longrightarrow> custody_inode cu \<in> dom (vfs_inodes s)) \<and>
     (\<forall>p. 0 < h p \<longrightarrow> p \<in> dom (vfs_inodes s)) \<and>
     (\<forall>p f i. vfs_inodes s p = Some (f, i) \<longrightarrow>
        1 \<le> refcount i \<and> int (open_files s p + h p) \<le> refcount i \<and> (inode_id i, p) \<in> set (vfs_icache s f)) \<and>
     (\<forall>f. distinct (map fst (vfs_icache s f))) \<and>
     (\<forall>f k p. (k, p) \<in> set (vfs_icache s f) \<longrightarrow> (\<exists>i. vfs_inodes s p = Some (f, i) \<and> inode_id i = k))"

text \<open>The invariant looks at four fields, and at the inodes only through what they are counted and found by.\<close>

lemma vfs_inv_cong:
  assumes "vfs_inodes s' = vfs_inodes s" and "vfs_custodies s' = vfs_custodies s" and "vfs_icache s' = vfs_icache s"
    and "vfs_next s \<le> vfs_next s'" and "vfs_inv h s"
  shows "vfs_inv h s'"
proof -
  have "open_files s' = open_files s" by (simp add: open_files_def fun_eq_iff assms(2))
  then show ?thesis using assms(4,5) unfolding vfs_inv_def assms(1-3) by (auto intro: less_le_trans)
qed

lemma vfs_inv_mono:
  assumes "vfs_inv h s" and "\<And>p. h' p \<le> h p"
  shows "vfs_inv h' s"
proof -
  have "0 < h' p \<Longrightarrow> 0 < h p" for p using assms(2) [of p] by simp
  moreover have "int (open_files s p + h' p) \<le> int (open_files s p + h p)" for p using assms(2) by simp
  ultimately show ?thesis using assms(1) unfolding vfs_inv_def by (meson order_trans)
qed

lemma vfs_inv_set_inode:
  assumes inv: "vfs_inv h s" and old: "vfs_inodes s p = Some (f, i)" and id: "inode_id i' = inode_id i"
    and pos: "1 \<le> refcount i'" and refs: "int (open_files s p + h' p) \<le> refcount i'" and rest: "\<And>q. q \<noteq> p \<Longrightarrow> h' q = h q"
  shows "vfs_inv h' (set_inode p f i' s)"
proof -
  have "open_files (set_inode p f i' s) = open_files s" by (simp add: open_files_def fun_eq_iff)
  moreover have "0 < h' q \<longrightarrow> q = p \<or> q \<in> dom (vfs_inodes s)" for q
    using inv rest [of q] by (cases "q = p") (auto simp: vfs_inv_def)
  moreover have "(inode_id i', p) \<in> set (vfs_icache s f)" using inv old by (auto simp: vfs_inv_def id)
  moreover have "p < vfs_next s" using inv old by (auto simp: vfs_inv_def)
  moreover have "\<forall>g k q. (k, q) \<in> set (vfs_icache s g) \<longrightarrow> (\<exists>j. ((vfs_inodes s)(p \<mapsto> (f, i'))) q = Some (g, j) \<and> inode_id j = k)"
  proof (intro allI impI)
    fix g k q assume "(k, q) \<in> set (vfs_icache s g)"
    then obtain j where "vfs_inodes s q = Some (g, j)" "inode_id j = k" using inv unfolding vfs_inv_def by blast
    then show "\<exists>j. ((vfs_inodes s)(p \<mapsto> (f, i'))) q = Some (g, j) \<and> inode_id j = k" using old id by auto
  qed
  ultimately show ?thesis
    using inv pos refs rest unfolding vfs_inv_def by simp
qed

lemma icache_lookup_Some:
  "icache_lookup icache k = Some p \<Longrightarrow> (k, p) \<in> set icache"
  by (auto simp: icache_lookup_def find_Some_iff) (metis nth_mem)

lemma icache_lookup_None: "icache_lookup icache k = None \<longleftrightarrow> k \<notin> fst ` set icache"
  by (auto simp: icache_lookup_def find_None_iff image_iff)

lemma vfs_inv_add:
  assumes inv: "vfs_inv h s" and none: "icache_lookup (vfs_icache s f) (inode_id i) = None" and rc: "refcount i = 1"
    and ino: "vfs_inodes s' = (vfs_inodes s)(vfs_next s \<mapsto> (f, i))" and cus: "vfs_custodies s' = vfs_custodies s"
    and ica: "vfs_icache s' = (vfs_icache s)(f := (inode_id i, vfs_next s) # vfs_icache s f)"
    and nxt: "vfs_next s < vfs_next s'"
  shows "vfs_inv (h(vfs_next s := h (vfs_next s) + 1)) s'"
proof -
  let ?p = "vfs_next s"
  have fresh: "?p \<notin> dom (vfs_inodes s)" using inv by (auto simp: vfs_inv_def)
  then have h0: "h ?p = 0" using inv unfolding vfs_inv_def by blast
  have unref: "vfs_custodies s c = Some cu \<Longrightarrow> custody_inode cu \<noteq> ?p" for c cu
    using inv fresh unfolding vfs_inv_def by metis
  then have "{c. \<exists>cu. vfs_custodies s c = Some cu \<and> custody_inode cu = ?p} = {}" by blast
  then have no_files: "open_files s' ?p = 0" unfolding open_files_def cus by (simp only: card.empty)
  have files: "open_files s' = open_files s" by (simp add: open_files_def fun_eq_iff cus)
  have cached: "(\<exists>j. vfs_inodes s' q = Some (g, j) \<and> inode_id j = k)" if "(k, q) \<in> set (vfs_icache s' g)" for g k q
  proof (cases "g = f \<and> (k, q) = (inode_id i, ?p)")
    case True
    then show ?thesis by (simp add: ino)
  next
    case False
    then have "(k, q) \<in> set (vfs_icache s g)" using that by (auto simp: ica split: if_splits)
    then obtain j where "vfs_inodes s q = Some (g, j)" "inode_id j = k" using inv unfolding vfs_inv_def by blast
    then show ?thesis using fresh by (auto simp: ino)
  qed
  have counted: "1 \<le> refcount j \<and> int (open_files s' q + (h(?p := h ?p + 1)) q) \<le> refcount j \<and>
      (inode_id j, q) \<in> set (vfs_icache s' g)" if "vfs_inodes s' q = Some (g, j)" for q g j
  proof (cases "q = ?p")
    case True
    then show ?thesis using that rc no_files h0 by (auto simp: ino ica)
  next
    case False
    then have "vfs_inodes s q = Some (g, j)" using that by (simp add: ino)
    then show ?thesis using inv False unfolding vfs_inv_def files ica by auto
  qed
  have "distinct (map fst (vfs_icache s' g))" for g
    using inv none by (simp add: vfs_inv_def ica icache_lookup_None)
  moreover have up: "x < vfs_next s \<Longrightarrow> x < vfs_next s'" for x using nxt by simp
  ultimately show ?thesis
    using inv cached counted nxt h0 unfolding vfs_inv_def cus
    by (auto simp: ino intro: up)
qed


text \<open>A custody that goes away leaves its reference behind, and one that is made takes one over.\<close>

lemma open_files_upd:
  assumes "finite (dom (vfs_custodies s))" and "vfs_custodies s c = Some cu"
  shows "open_files (s\<lparr>vfs_custodies := (vfs_custodies s)(c := None)\<rparr>) p =
    open_files s p - (if custody_inode cu = p then 1 else 0)"
    and "custody_inode cu = p \<Longrightarrow> 0 < open_files s p"
proof -
  let ?A = "{c. \<exists>cu. vfs_custodies s c = Some cu \<and> custody_inode cu = p}"
  have "?A \<subseteq> dom (vfs_custodies s)" by auto
  then have fin: "finite ?A" using assms(1) by (rule finite_subset)
  have "{d. \<exists>cu. ((vfs_custodies s)(c := None)) d = Some cu \<and> custody_inode cu = p} =
      ?A - (if custody_inode cu = p then {c} else {})"
    using assms(2) by auto
  then show "open_files (s\<lparr>vfs_custodies := (vfs_custodies s)(c := None)\<rparr>) p =
      open_files s p - (if custody_inode cu = p then 1 else 0)"
    using fin assms(2) by (simp add: open_files_def)
  assume "custody_inode cu = p"
  then have "c \<in> ?A" using assms(2) by simp
  then have "?A \<noteq> {}" by blast
  then show "0 < open_files s p" unfolding open_files_def using fin card_gt_0_iff [of ?A] by blast
qed

lemma vfs_inv_drop_custody:
  assumes inv: "vfs_inv h s" and c: "vfs_custodies s c = Some cu"
  shows "vfs_inv (h(custody_inode cu := h (custody_inode cu) + 1)) (s\<lparr>vfs_custodies := (vfs_custodies s)(c := None)\<rparr>)"
proof -
  let ?q = "custody_inode cu"
  have fin: "finite (dom (vfs_custodies s))" using inv by (simp add: vfs_inv_def)
  have dom: "?q \<in> dom (vfs_inodes s)" using inv c unfolding vfs_inv_def by blast
  have "int (open_files (s\<lparr>vfs_custodies := (vfs_custodies s)(c := None)\<rparr>) p + (h(?q := h ?q + 1)) p) =
      int (open_files s p + h p)" for p
    using open_files_upd [OF fin c, of p] by auto
  then show ?thesis using inv dom unfolding vfs_inv_def by (auto split: if_splits)
qed

lemma vfs_inv_new_custody:
  assumes inv: "vfs_inv h s" and held: "0 < h p" and cu: "custody_inode cu = p"
  shows "vfs_inv (h(p := h p - 1)) (set_custody (vfs_next s) cu (s\<lparr>vfs_next := Suc (vfs_next s)\<rparr>))" (is "vfs_inv _ ?s")
proof -
  let ?c = "vfs_next s"
  have fin: "finite (dom (vfs_custodies s))" using inv by (simp add: vfs_inv_def)
  have fresh: "vfs_custodies s ?c = None" using inv unfolding vfs_inv_def by blast
  have dom: "p \<in> dom (vfs_inodes s)" using inv held unfolding vfs_inv_def by blast
  have fin': "finite (dom (vfs_custodies ?s))" using fin by simp
  have undo: "?s\<lparr>vfs_custodies := (vfs_custodies ?s)(?c := None)\<rparr> = s\<lparr>vfs_next := Suc ?c\<rparr>"
    using fresh by (cases s) (auto simp: set_custody_def)
  have same: "open_files (s\<lparr>vfs_next := Suc ?c\<rparr>) q = open_files s q" for q by (simp add: open_files_def)
  have less: "open_files s q = open_files ?s q - (if p = q then 1 else 0)" for q
    using open_files_upd(1) [OF fin', of ?c cu q] cu unfolding undo same by simp
  have "0 < open_files ?s p" using open_files_upd(2) [OF fin', of ?c cu p] cu by simp
  then have "open_files ?s q + (h(p := h p - 1)) q = open_files s q + h q" for q
    using less [of q] held by (cases "p = q") auto
  then have "int (open_files ?s q + (h(p := h p - 1)) q) = int (open_files s q + h q)" for q by simp
  then show ?thesis using inv cu dom unfolding vfs_inv_def by (auto simp: less_Suc_eq split: if_splits)
qed

text \<open>References that an operation holds through a pointer.\<close>

definition hold :: "nat option \<Rightarrow> (nat \<Rightarrow> nat) \<Rightarrow> nat \<Rightarrow> nat" where
  "hold ptr h = (case ptr of None \<Rightarrow> h | Some p \<Rightarrow> h(p := h p + 1))"

lemma hold_None [simp]: "hold None h = h"
  by (simp add: hold_def)

lemma hold_Some: "hold (Some p) h = h(p := h p + 1)"
  by (simp add: hold_def)

lemma hold_commute: "hold a (hold b h) = hold b (hold a h)"
  by (cases a; cases b) (auto simp: fun_eq_iff hold_Some)

lemma drop_hold: "vfs_inv (hold ptr h) s \<Longrightarrow> vfs_inv h s"
  by (erule vfs_inv_mono) (cases ptr; simp add: hold_Some)

lemma held_allocated: "vfs_inv (hold (Some p) h) s \<Longrightarrow> p \<in> dom (vfs_inodes s)"
  by (simp add: vfs_inv_def hold_Some)

lemma errno_nonzero [simp]: "errno e \<noteq> 0"
  by (cases e) simp_all

lemma fs_update_inv: "vfs_inv h s \<Longrightarrow> vfs_inv h (s\<lparr>vfs_fs := fs\<rparr>)"
  by (rule vfs_inv_cong) simp_all

subsection \<open>What a filesystem keeps\<close>

text \<open>
  The operations may change the size, the times and the private pointer of an inode, but not its number and
  not its count of references.
\<close>

locale counted_filesystems =
  fixes ops :: "nat \<Rightarrow> ('c, 's) fs_ops"
  assumes mount_unopened: "op_on_mount (ops f) fs = Some (i, fs') \<Longrightarrow> refcount i = 0"
    and open_keeps: "op_open_inode (ops f) i fs = Some (rc, i', fs') \<Longrightarrow>
      inode_id i' = inode_id i \<and> refcount i' = refcount i"
    and close_keeps: "op_close_inode (ops f) i fs = Some (rc, i', fs') \<Longrightarrow>
      inode_id i' = inode_id i \<and> refcount i' = refcount i"
    and create_keeps: "op_create (ops f) i name type fs = Some (res, i', fs') \<Longrightarrow>
      inode_id i' = inode_id i \<and> refcount i' = refcount i"
    and read_keeps: "op_read (ops f) i pos len fs = Some (rc, bytes, i', fs') \<Longrightarrow>
      inode_id i' = inode_id i \<and> refcount i' = refcount i"
    and write_keeps: "op_write (ops f) i pos buf fs = Some (rc, i', fs') \<Longrightarrow>
      inode_id i' = inode_id i \<and> refcount i' = refcount i"
begin

lemma open_inode_inv:
  assumes inv: "vfs_inv h s" and "open_inode ops p s = Some (rc, s')" and p: "p \<in> dom (vfs_inodes s)"
  shows "rc = 0 \<and> vfs_inv (hold (Some p) h) s'"
proof -
  obtain f i where i: "vfs_inodes s p = Some (f, i)" using p by auto
  then have rc: "1 \<le> refcount i" "int (open_files s p + h p) \<le> refcount i" using inv unfolding vfs_inv_def by blast+
  then have "rc = 0 \<and> s' = set_inode p f (i\<lparr>refcount := refcount i + 1\<rparr>) s" using assms(2) i by (simp add: open_inode_def)
  then show ?thesis using rc by (auto simp: hold_Some intro!: vfs_inv_set_inode [OF inv i])
qed

lemma close_inode_inv:
  assumes inv: "vfs_inv h s" and c: "close_inode ops (Some p) s = Some s'" and held: "0 < h p"
  shows "vfs_inv (h(p := h p - 1)) s'"
proof -
  have "p \<in> dom (vfs_inodes s)" using inv held unfolding vfs_inv_def by blast
  then obtain f i where i: "vfs_inodes s p = Some (f, i)" by auto
  then have rc: "1 \<le> refcount i" "int (open_files s p + h p) \<le> refcount i" using inv unfolding vfs_inv_def by blast+
  show ?thesis
  proof (cases "refcount i > 1")
    case True
    then have "s' = set_inode p f (i\<lparr>refcount := refcount i - 1\<rparr>) s" using c i by (simp add: close_inode_def)
    then show ?thesis using rc True held by (auto intro!: vfs_inv_set_inode [OF inv i])
  next
    case False
    then obtain r i' fs where o: "op_close_inode (ops f) i (vfs_fs s) = Some (r, i', fs)"
        and s': "s' = set_inode p f i' (s\<lparr>vfs_fs := fs\<rparr>)"
      using c i by (auto simp: close_inode_def bind_eq_Some_conv split: if_splits)
    have inv': "vfs_inv h (s\<lparr>vfs_fs := fs\<rparr>)" by (rule vfs_inv_cong [OF _ _ _ _ inv]) simp_all
    have "open_files (s\<lparr>vfs_fs := fs\<rparr>) p = open_files s p" by (simp add: open_files_def)
    then show ?thesis unfolding s'
      using close_keeps [OF o] rc False held i by (intro vfs_inv_set_inode [OF inv']) auto
  qed
qed

lemma close_ptr_inv:
  assumes "vfs_inv h s" and "close_inode ops ptr s = Some s'" and "\<And>p. ptr = Some p \<Longrightarrow> 0 < h p"
  shows "vfs_inv (case ptr of None \<Rightarrow> h | Some p \<Rightarrow> h(p := h p - 1)) s'"
  using assms close_inode_inv by (cases ptr) (auto simp: close_inode_def)

lemma close_inode_custodies:
  "close_inode ops ptr (s\<lparr>vfs_custodies := cs\<rparr>) = map_option (\<lambda>s. s\<lparr>vfs_custodies := cs\<rparr>) (close_inode ops ptr s)"
  unfolding close_inode_def set_inode_def
  by (simp split: option.splits Option.bind_splits prod.splits)

lemma close_inode_custodies_same: "close_inode ops ptr s = Some s' \<Longrightarrow> vfs_custodies s' = vfs_custodies s"
  by (auto simp: close_inode_def bind_eq_Some_conv split: option.splits if_splits)

lemma free_custody_inv:
  assumes inv: "vfs_inv h s" and "free_custody ops ptr s = Some s'"
  shows "vfs_inv h s'"
proof (cases ptr)
  case (Some c)
  then obtain cu s1 where cu: "vfs_custodies s c = Some cu"
      and s1: "close_inode ops (Some (custody_inode cu)) s = Some s1" and s': "s' = s1\<lparr>vfs_custodies := (vfs_custodies s1)(c := None)\<rparr>"
    using assms(2) by (auto simp: free_custody_def bind_eq_Some_conv)
  let ?h = "h(custody_inode cu := h (custody_inode cu) + 1)"
  let ?drop = "\<lambda>s. s\<lparr>vfs_custodies := (vfs_custodies s)(c := None)\<rparr>"
  have "close_inode ops (Some (custody_inode cu)) (?drop s) = Some (?drop s1)"
    unfolding close_inode_custodies s1 using cu close_inode_custodies_same [OF s1] by simp
  from close_inode_inv [OF vfs_inv_drop_custody [OF inv cu] this] show ?thesis by (simp add: s')
qed (use assms in \<open>simp add: free_custody_def\<close>)

lemma add_inode_inv:
  assumes inv: "vfs_inv h s" and none: "icache_lookup (vfs_icache s f) (inode_id temp) = None"
    and add: "add_inode ops f temp s = Some (rc, ptr, s')"
  shows "(if rc = 0 then ptr \<noteq> None else ptr = None) \<and> vfs_inv (hold ptr h) s'"
proof -
  obtain ok s1 where m: "vfs_malloc s = (ok, s1)" "vfs_inodes s1 = vfs_inodes s" "vfs_custodies s1 = vfs_custodies s"
      "vfs_icache s1 = vfs_icache s" "vfs_next s1 = vfs_next s" by (rule vfs_mallocE [of s])
  let ?p = "vfs_next s"
  have fresh: "?p \<notin> dom (vfs_inodes s)" using inv by (auto simp: vfs_inv_def)
  show ?thesis
  proof (cases ok)
    case False
    then show ?thesis using add m vfs_inv_cong [OF m(2-4) _ inv] by (simp add: add_inode_def)
  next
    case True
    let ?s2 = "set_inode ?p f (temp\<lparr>refcount := 0\<rparr>) (s1\<lparr>vfs_next := Suc ?p\<rparr>)"
    obtain rc1 i fs where o: "op_open_inode (ops f) (temp\<lparr>refcount := 0\<rparr>) (vfs_fs s1) = Some (rc1, i, fs)"
      using add m True by (auto simp: add_inode_def new_address_def open_inode_def bind_eq_Some_conv)
    have id: "inode_id i = inode_id temp" using open_keeps [OF o] by simp
    show ?thesis
    proof (cases "rc1 = 0")
      case False
      then have r: "rc = rc1" "ptr = None" "s' = free_inode ?p (set_inode ?p f i (?s2\<lparr>vfs_fs := fs\<rparr>))"
        using add m True o by (auto simp: add_inode_def new_address_def open_inode_def)
      have "vfs_inv h s'"
        by (rule vfs_inv_cong [OF _ _ _ _ inv]) (use fresh in \<open>auto simp: r m fun_upd_idem\<close>)
      then show ?thesis using r False by simp
    next
      case rc0: True
      let ?i = "i\<lparr>refcount := 1\<rparr>"
      let ?s3 = "set_inode ?p f ?i (?s2\<lparr>vfs_fs := fs\<rparr>)"
      obtain ok2 s4 where m4: "vfs_malloc ?s3 = (ok2, s4)" "vfs_inodes s4 = vfs_inodes ?s3"
          "vfs_custodies s4 = vfs_custodies ?s3" "vfs_icache s4 = vfs_icache ?s3" "vfs_next s4 = vfs_next ?s3"
        by (rule vfs_mallocE [of ?s3])
      have ins: "icache_insert f (inode_id temp) ?p ?s3 =
          (if ok2 then Some (0, s4\<lparr>vfs_icache := (vfs_icache s4)(f := (inode_id temp, ?p) # vfs_icache s4 f)\<rparr>)
           else Some (- errno ERR_NOMEM, s4))"
        using none m(4) m4(1) by (simp add: icache_insert_def)
      show ?thesis
      proof (cases ok2)
        case True
        then have r: "rc = 0" "ptr = Some ?p"
            "s' = s4\<lparr>vfs_icache := (vfs_icache s4)(f := (inode_id temp, ?p) # vfs_icache s4 f)\<rparr>"
          using add m \<open>ok\<close> o rc0 ins by (auto simp: add_inode_def new_address_def open_inode_def)
        have "vfs_inv (h(?p := h ?p + 1)) s'"
          by (rule vfs_inv_add [OF inv, of f ?i]) (simp_all add: none id r m m4)
        then show ?thesis using r by (simp add: hold_Some)
      next
        case False
        then obtain s5 where s5: "close_inode ops (Some ?p) s4 = Some s5" and r: "rc = - errno ERR_NOMEM" "ptr = None"
            "s' = free_inode ?p s5"
          using add m \<open>ok\<close> o rc0 ins by (auto simp: add_inode_def new_address_def open_inode_def bind_eq_Some_conv)
        have "vfs_inodes s4 ?p = Some (f, ?i)" by (simp add: m4)
        then obtain j fs5 where "s5 = set_inode ?p f j (s4\<lparr>vfs_fs := fs5\<rparr>)"
          using s5 by (auto simp: close_inode_def bind_eq_Some_conv)
        then have "vfs_inv h s'"
          by (intro vfs_inv_cong [OF _ _ _ _ inv]) (use fresh in \<open>auto simp: r m m4 fun_upd_idem\<close>)
        then show ?thesis using r by simp
      qed
    qed
  qed
qed

lemma close_hold:
  assumes "vfs_inv (hold ptr h) s" and "close_inode ops ptr s = Some s'"
  shows "vfs_inv h s'"
  using close_ptr_inv [OF assms] by (cases ptr) (auto simp: hold_def)

lemma lookup_inode_inv:
  assumes inv: "vfs_inv h s" and l: "lookup_inode ops parent name s = Some (rc, ptr, s')"
  shows "(if rc = 0 then ptr \<noteq> None else ptr = None) \<and> vfs_inv (hold ptr h) s'"
proof -
  obtain f dir res fs where d: "vfs_inodes s parent = Some (f, dir)"
      and r: "op_lookup (ops f) dir name (vfs_fs s) = Some (res, fs)"
    using l by (auto simp: lookup_inode_def bind_eq_Some_conv)
  let ?s = "s\<lparr>vfs_fs := fs\<rparr>"
  note inv' = fs_update_inv [OF inv, of fs]
  show ?thesis
  proof (cases res)
    case (Inl err)
    then show ?thesis using l d r inv' by (auto simp: lookup_inode_def)
  next
    case (Inr temp)
    show ?thesis
    proof (cases "icache_lookup (vfs_icache s f) (inode_id temp)")
      case None
      then have "add_inode ops f temp ?s = Some (rc, ptr, s')" using l d r Inr by (simp add: lookup_inode_def)
      from add_inode_inv [OF inv' _ this] None show ?thesis by simp
    next
      case (Some p)
      then have "(inode_id temp, p) \<in> set (vfs_icache s f)" by (rule icache_lookup_Some)
      then have p: "p \<in> dom (vfs_inodes ?s)" using inv unfolding vfs_inv_def by fastforce
      from l d r Inr Some obtain rc1 where "open_inode ops p ?s = Some (rc1, s')" "rc = rc1" "ptr = Some p"
        by (auto simp: lookup_inode_def bind_eq_Some_conv)
      with open_inode_inv [OF inv' _ p] show ?thesis by auto
    qed
  qed
qed

lemma create_inode_inv:
  assumes inv: "vfs_inv h s" and l: "create_inode ops parent name type s = Some (rc, ptr, s')"
  shows "(if rc = 0 then ptr \<noteq> None else ptr = None) \<and> vfs_inv (hold ptr h) s'"
proof -
  obtain f dir res dir' fs where d: "vfs_inodes s parent = Some (f, dir)"
      and r: "op_create (ops f) dir name type (vfs_fs s) = Some (res, dir', fs)"
    using l by (auto simp: create_inode_def bind_eq_Some_conv)
  let ?s = "set_inode parent f dir' (s\<lparr>vfs_fs := fs\<rparr>)"
  have dir: "1 \<le> refcount dir" "int (open_files s parent + h parent) \<le> refcount dir" using inv d unfolding vfs_inv_def by blast+
  have "open_files (s\<lparr>vfs_fs := fs\<rparr>) parent = open_files s parent" by (simp add: open_files_def)
  then have inv': "vfs_inv h ?s"
    using create_keeps [OF r] dir d by (intro vfs_inv_set_inode [OF fs_update_inv [OF inv]]) auto
  show ?thesis
  proof (cases res)
    case (Inl err)
    then show ?thesis using l d r inv' by (auto simp: create_inode_def)
  next
    case (Inr temp)
    then have "icache_lookup (vfs_icache ?s f) (inode_id temp) = None" "add_inode ops f temp ?s = Some (rc, ptr, s')"
      using l d r by (auto simp: create_inode_def split: if_splits)
    from add_inode_inv [OF inv' this] show ?thesis .
  qed
qed

lemma traverse_loop_inv:
  "vfs_inv (hold parent (hold (Some inode) h)) s \<Longrightarrow>
   traverse_loop ops path parent inode s = Some (rc, path', parent', inode', s') \<Longrightarrow>
   (if rc = 0 then inode' \<noteq> None else inode' = None) \<and> vfs_inv (hold parent' (hold inode' h)) s'"
proof (induction path arbitrary: parent inode s rule: measure_induct_rule [of length])
  case (less whole)
  then obtain c path where whole: "whole = c # path" by (cases whole) auto
  note step = less.prems(2) [unfolded whole]
  show ?case
  proof (cases "c = NUL")
    case True
    then show ?thesis using less.prems whole by auto
  next
    case False
    then obtain s1 f dir where s1: "close_inode ops parent s = Some s1" and dir: "vfs_inodes s1 inode = Some (f, dir)"
      using step by (auto simp: bind_eq_Some_conv)
    have inv1: "vfs_inv (hold (Some inode) h) s1" by (rule close_hold [OF less.prems(1) s1])
    show ?thesis
    proof (cases "inode_type dir = Directory")
      case no: False
      then have "rc \<noteq> 0 \<and> parent' = Some inode \<and> inode' = None \<and> s' = s1" using step False s1 dir by auto
      then show ?thesis using inv1 by simp
    next
      case True
      let ?name = "takeWhile (\<lambda>c. c \<noteq> NUL) (c # path)"
      obtain rc1 child s2 where lk: "lookup_inode ops inode ?name s1 = Some (rc1, child, s2)"
        using step False s1 dir True by (auto simp: bind_eq_Some_conv)
      note look = lookup_inode_inv [OF inv1 lk]
      show ?thesis
      proof (cases "rc1 = 0")
        case no: False
        then have "rc \<noteq> 0 \<and> parent' = Some inode \<and> inode' = child \<and> s' = s2" using step False s1 dir True lk by auto
        then show ?thesis using look no by auto
      next
        case rc1: True
        then obtain ch where ch: "child = Some ch" using look by auto
        have rest: "traverse_loop ops (drop (length ?name) path) (Some inode) ch s2 = Some (rc, path', parent', inode', s')"
          using step False s1 dir True lk rc1 ch by simp
        have "vfs_inv (hold (Some inode) (hold (Some ch) h)) s2"
          using look unfolding ch by (subst hold_commute) simp
        then show ?thesis
          using less.IH [OF _ _ rest] whole by simp
      qed
    qed
  qed
qed

lemma traverse_inv:
  assumes inv: "vfs_inv h s" and t: "traverse ops path s = Some (rc, parent, inode, s')"
  shows "(if rc = 0 then inode \<noteq> None else inode = None) \<and> vfs_inv (hold parent (hold inode h)) s'"
proof -
  obtain ok s0 where m: "vfs_malloc s = (ok, s0)" "vfs_inodes s0 = vfs_inodes s" "vfs_custodies s0 = vfs_custodies s"
      "vfs_icache s0 = vfs_icache s" "vfs_next s0 = vfs_next s" by (rule vfs_mallocE [of s])
  have inv0: "vfs_inv h s0" by (rule vfs_inv_cong [OF m(2-4) _ inv]) (simp add: m)
  obtain cpath where c: "canonicalize_path ok path = Some cpath"
    using t m by (auto simp: traverse_def bind_eq_Some_conv)
  show ?thesis
  proof (cases cpath)
    case None
    then show ?thesis using t m c inv0 by (auto simp: traverse_def)
  next
    case (Some cp)
    then obtain mp where mp: "find_mountpoint cp (s_mountpoints s0) = Some mp"
      using t m c by (auto simp: traverse_def bind_eq_Some_conv)
    show ?thesis
    proof (cases mp)
      case None
      then show ?thesis using t m c Some mp inv0 by (auto simp: traverse_def)
    next
      case (Some m')
      let ?f = "mp_fs m'" and ?path = "drop (mp_path_skip m') cp"
      have t': "traverse_in_fs ops ?f ?path s0 = Some (rc, parent, inode, s')"
        using t m c \<open>cpath = Some cp\<close> mp Some by (auto simp: traverse_def)
      show ?thesis
      proof (cases "icache_lookup (vfs_icache s0 ?f) (vfs_root s0 ?f)")
        case None
        then show ?thesis using t' inv0 by (auto simp: traverse_in_fs_def)
      next
        case (Some root)
        then have "(vfs_root s0 ?f, root) \<in> set (vfs_icache s0 ?f)" by (rule icache_lookup_Some)
        then have "root \<in> dom (vfs_inodes s0)" using inv0 unfolding vfs_inv_def by fastforce
        moreover obtain rc1 s1 where o: "open_inode ops root s0 = Some (rc1, s1)"
          using t' Some by (auto simp: traverse_in_fs_def bind_eq_Some_conv)
        ultimately have rc1: "rc1 = 0" and inv1: "vfs_inv (hold None (hold (Some root) h)) s1"
          using open_inode_inv [OF inv0] by auto
        obtain rc2 path2 parent2 inode2 s2 where l: "traverse_loop ops ?path None root s1 = Some (rc2, path2, parent2, inode2, s2)"
          using t' Some o rc1 by (auto simp: traverse_in_fs_def bind_eq_Some_conv)
        note inv2 = traverse_loop_inv [OF inv1 l]
        show ?thesis
        proof (cases "rc2 = 0")
          case True
          then show ?thesis using t' Some o rc1 l inv2 by (auto simp: traverse_in_fs_def)
        next
          case False
          then obtain p f dir where p: "parent2 = Some p" "vfs_inodes s2 p = Some (f, dir)" "path2 \<noteq> []"
            using t' Some o rc1 l by (auto simp: traverse_in_fs_def bind_eq_Some_conv)
          show ?thesis
          proof (cases "rc2 = - errno ERR_NOENT \<and> inode_type dir = Directory \<and> hd path2 = NUL")
            case True
            then have "rc = rc2 \<and> parent = parent2 \<and> inode = None \<and> s' = s2"
              using t' Some o rc1 l False p by (simp add: traverse_in_fs_def)
            then show ?thesis using inv2 False by auto
          next
            case no: False
            then obtain s3 where "close_inode ops parent2 s2 = Some s3"
                and r: "rc = rc2 \<and> parent = None \<and> inode = None \<and> s' = s3"
              using t' Some o rc1 l False p by (auto simp: traverse_in_fs_def bind_eq_Some_conv)
            with close_hold [of parent2 h s2 s3] inv2 False show ?thesis by auto
          qed
        qed
      qed
    qed
  qed
qed

lemma find_or_create_inv:
  assumes inv: "vfs_inv h s" and f: "find_or_create ops path flags s = Some (rc, parent, inode, s')"
  shows "(if rc = 0 then inode \<noteq> None else inode = None) \<and> vfs_inv (hold parent (hold inode h)) s'"
proof -
  obtain rc1 parent1 inode1 s1 where t: "traverse ops path s = Some (rc1, parent1, inode1, s1)"
    using f by (auto simp: find_or_create_def bind_eq_Some_conv)
  note inv1 = traverse_inv [OF inv t]
  show ?thesis
  proof (cases "rc1 \<noteq> 0 \<and> parent1 \<noteq> None \<and> flags AND OF_CREATE \<noteq> 0")
    case False
    then show ?thesis using f t inv1 by (auto simp: find_or_create_def)
  next
    case True
    then obtain p where c: "create_inode ops p (filename_of path) RegularFile s1 = Some (rc, inode, s')" and parent: "parent = parent1"
      using f t by (auto simp: find_or_create_def bind_eq_Some_conv split: if_splits)
    have "vfs_inv (hold parent h) s1" using inv1 True parent by auto
    from create_inode_inv [OF this c] show ?thesis by (subst hold_commute)
  qed
qed

lemma vfs_open_inv:
  assumes inv: "vfs_inv h s" and o: "vfs_open_absolute ops path flags s = Some (rc, custody, s')"
  shows "vfs_inv h s' \<and> (if rc = 0 then \<exists>c. custody = Some c \<and> c \<in> dom (vfs_custodies s') else custody = None)"
proof -
  obtain rc1 parent inode s1 where f: "find_or_create ops path flags s = Some (rc1, parent, inode, s1)"
    using o by (auto simp: vfs_open_absolute_def bind_eq_Some_conv)
  note inv1 = find_or_create_inv [OF inv f]
  obtain isdir where isdir: "(if rc1 = 0 then is_directory_error flags inode s1 else Some False) = Some isdir"
    using o f by (auto simp: vfs_open_absolute_def bind_eq_Some_conv)
  let ?rc = "if isdir then - errno ERR_ISDIR else rc1"
  obtain rc2 cust s2 where a: "(if ?rc = 0 then Option.bind inode (\<lambda>p. Some (alloc_custody p flags s1)) else Some (?rc, None, s1)) =
      Some (rc2, cust, s2)"
    using o f isdir unfolding vfs_open_absolute_def
    by (cases "if ?rc = 0 then Option.bind inode (\<lambda>p. Some (alloc_custody p flags s1)) else Some (?rc, None, s1)") auto
  have rest: "(if rc2 \<noteq> 0 then do {
       s \<leftarrow> close_inode ops parent s2; s \<leftarrow> close_inode ops inode s; s \<leftarrow> free_custody ops cust s;
       Some (rc2, cust, s) } else Some (rc2, cust, s2)) = Some (rc, custody, s')"
    using o f isdir a unfolding vfs_open_absolute_def by simp
  have cleanup: "vfs_inv h s' \<and> custody = None" if "rc2 \<noteq> 0" "vfs_inv (hold parent (hold inode h)) s2" "cust = None"
  proof -
    have "Option.bind (close_inode ops parent s2) (\<lambda>s. Option.bind (close_inode ops inode s) (\<lambda>s. Some (rc2, None, s))) =
        Some (rc, custody, s')"
      using rest that(1,3) by (simp add: free_custody_def)
    then obtain s3 s4 where s: "close_inode ops parent s2 = Some s3" "close_inode ops inode s3 = Some s4"
        "s' = s4" "custody = None"
      by (auto simp: bind_eq_Some_conv)
    show ?thesis using close_hold [OF close_hold [OF that(2) s(1)] s(2)] s by simp
  qed
  show ?thesis
  proof (cases "?rc = 0")
    case False
    then have "rc2 = ?rc \<and> cust = None \<and> s2 = s1" using a by auto
    moreover from this have "rc = rc2" using rest False by (auto simp: bind_eq_Some_conv split: if_splits)
    ultimately show ?thesis using cleanup inv1 False by auto
  next
    case True
    then have rc1: "rc1 = 0" by (auto split: if_splits)
    then obtain p where p: "inode = Some p" using inv1 by auto
    then have ac: "alloc_custody p flags s1 = (rc2, cust, s2)" using a True by simp
    obtain ok t where m: "vfs_malloc s1 = (ok, t)" "vfs_inodes t = vfs_inodes s1" "vfs_custodies t = vfs_custodies s1"
        "vfs_icache t = vfs_icache s1" "vfs_next t = vfs_next s1" by (rule vfs_mallocE [of s1])
    have invt: "vfs_inv (hold parent (hold inode h)) t"
      by (rule vfs_inv_cong [OF m(2-4)]) (use inv1 m in auto)
    show ?thesis
    proof (cases ok)
      case False
      then have "rc2 = - errno ERR_NOMEM \<and> cust = None \<and> s2 = t" using ac m by (simp add: alloc_custody_def)
      moreover from this have "rc = rc2" using rest by (auto simp: bind_eq_Some_conv)
      ultimately show ?thesis using cleanup invt by auto
    next
      case True
      let ?cu = "\<lparr>custody_inode = p, custody_flags = flags, custody_offset = 0\<rparr>"
      have s2: "rc2 = 0 \<and> cust = Some (vfs_next t) \<and> s2 = set_custody (vfs_next t) ?cu (t\<lparr>vfs_next := Suc (vfs_next t)\<rparr>)"
        using ac m True by (auto simp: alloc_custody_def new_address_def)
      have "vfs_inv (hold (Some p) h) t" using drop_hold [OF invt] p by simp
      from vfs_inv_new_custody [OF this, of p ?cu]
      have "vfs_inv h s2" using s2 by (simp add: hold_Some)
      moreover have "rc = 0 \<and> custody = cust \<and> s' = s2" using rest s2 by simp
      ultimately show ?thesis using s2 by simp
    qed
  qed
qed

lemma vfs_close_inv:
  "vfs_inv h s \<Longrightarrow> vfs_close ops ptr s = Some (rc, s') \<Longrightarrow> vfs_inv h s'"
  using free_custody_inv by (auto simp: vfs_close_def bind_eq_Some_conv)

lemma custody_refs:
  assumes "vfs_inv h s" and "vfs_custodies s c = Some cu"
  shows "\<exists>f i. vfs_inodes s (custody_inode cu) = Some (f, i) \<and> 1 \<le> refcount i \<and>
    int (open_files s (custody_inode cu) + h (custody_inode cu)) \<le> refcount i"
proof -
  have "custody_inode cu \<in> dom (vfs_inodes s)" using assms unfolding vfs_inv_def by blast
  then show ?thesis using assms(1) unfolding vfs_inv_def by fastforce
qed

lemma update_inode_inv:
  assumes inv: "vfs_inv h s" and i: "vfs_inodes s p = Some (f, i)"
    and keep: "inode_id i' = inode_id i \<and> refcount i' = refcount i"
  shows "vfs_inv h (set_inode p f i' (s\<lparr>vfs_fs := fs\<rparr>))"
proof -
  have "1 \<le> refcount i" "int (open_files s p + h p) \<le> refcount i" using inv i unfolding vfs_inv_def by blast+
  moreover have "open_files (s\<lparr>vfs_fs := fs\<rparr>) p = open_files s p" by (simp add: open_files_def)
  ultimately show ?thesis using keep i by (intro vfs_inv_set_inode [OF fs_update_inv [OF inv]]) auto
qed

lemma vfs_duplicate_inv:
  assumes inv: "vfs_inv h s" and d: "vfs_duplicate c s = Some (dup, s')"
  shows "vfs_inv h s'"
proof -
  obtain ok t where m: "vfs_malloc s = (ok, t)" "vfs_inodes t = vfs_inodes s" "vfs_custodies t = vfs_custodies s"
      "vfs_icache t = vfs_icache s" "vfs_next t = vfs_next s" by (rule vfs_mallocE [of s])
  have invt: "vfs_inv h t" by (rule vfs_inv_cong [OF m(2-4) _ inv]) (simp add: m)
  show ?thesis
  proof (cases ok)
    case False
    then show ?thesis using d m invt by (simp add: vfs_duplicate_def)
  next
    case True
    then obtain cu f i where cu: "vfs_custodies t c = Some cu" "vfs_inodes t (custody_inode cu) = Some (f, i)"
        and s': "s' = set_inode (custody_inode cu) f (i\<lparr>refcount := refcount i + 1\<rparr>)
          (set_custody (vfs_next t) cu (t\<lparr>vfs_next := Suc (vfs_next t)\<rparr>))"
      using d m by (auto simp: vfs_duplicate_def new_address_def bind_eq_Some_conv)
    let ?q = "custody_inode cu"
    have rc: "1 \<le> refcount i" "int (open_files t ?q + h ?q) \<le> refcount i" using invt cu(2) unfolding vfs_inv_def by blast+
    have "vfs_inv (hold (Some ?q) h) (set_inode ?q f (i\<lparr>refcount := refcount i + 1\<rparr>) t)"
      using rc by (auto simp: hold_Some intro!: vfs_inv_set_inode [OF invt cu(2)])
    from vfs_inv_new_custody [OF this, of ?q cu]
    have "vfs_inv h (set_custody (vfs_next t) cu
        (set_inode ?q f (i\<lparr>refcount := refcount i + 1\<rparr>) t\<lparr>vfs_next := Suc (vfs_next t)\<rparr>))"
      by (simp add: hold_Some)
    then show ?thesis unfolding s' by (rule vfs_inv_cong [rotated 4]) simp_all
  qed
qed

lemma set_offset_inv:
  assumes inv: "vfs_inv h s" and c: "vfs_custodies s c = Some cu"
  shows "vfs_inv h (set_custody c (cu\<lparr>custody_offset := x\<rparr>) s)"
proof -
  have "open_files (set_custody c (cu\<lparr>custody_offset := x\<rparr>) s) p = open_files s p" for p
    unfolding open_files_def by (rule arg_cong [of _ _ card]) (use c in auto)
  moreover have "c \<in> dom (vfs_custodies s)" using c by auto
  moreover have "dom (vfs_custodies (set_custody c (cu\<lparr>custody_offset := x\<rparr>) s)) = dom (vfs_custodies s)"
    using c by auto
  moreover have "custody_inode cu \<in> dom (vfs_inodes s)" using inv c unfolding vfs_inv_def by blast
  ultimately show ?thesis using inv unfolding vfs_inv_def by (simp only:) auto
qed

lemma vfs_seek_inv:
  assumes "vfs_inv h s" and "vfs_seek ops c whence off s = Some (r, s')"
  shows "vfs_inv h s'"
  using assms set_offset_inv by (auto simp: vfs_seek_def bind_eq_Some_conv Let_def split: if_splits)

lemma vfs_write_inv:
  assumes inv: "vfs_inv h s" and w: "vfs_write ops c buffer s = Some (r, s')"
  shows "vfs_inv h s'"
proof -
  obtain cu f i where c: "vfs_custodies s c = Some cu" "vfs_inodes s (custody_inode cu) = Some (f, i)"
    using w by (auto simp: vfs_write_def bind_eq_Some_conv)
  have "s' = s \<or> (\<exists>rc i' fs. op_write (ops f) i (custody_offset cu) buffer (vfs_fs s) = Some (rc, i', fs) \<and>
      (let t = set_inode (custody_inode cu) f i' (s\<lparr>vfs_fs := fs\<rparr>)
       in if rc > 0 then \<exists>x. vfs_seek ops c SEEK_CUR (of_int rc) t = Some (x, s') else s' = t))"
    using w c by (auto simp: vfs_write_def bind_eq_Some_conv Let_def split: if_splits)
  then show ?thesis
  proof (elim disjE exE conjE)
    fix rc i' fs assume o: "op_write (ops f) i (custody_offset cu) buffer (vfs_fs s) = Some (rc, i', fs)"
      and t: "let t = set_inode (custody_inode cu) f i' (s\<lparr>vfs_fs := fs\<rparr>)
       in if rc > 0 then \<exists>x. vfs_seek ops c SEEK_CUR (of_int rc) t = Some (x, s') else s' = t"
    have "vfs_inv h (set_inode (custody_inode cu) f i' (s\<lparr>vfs_fs := fs\<rparr>))"
      by (rule update_inode_inv [OF inv c(2) write_keeps [OF o]])
    then show ?thesis using t vfs_seek_inv by (auto simp: Let_def split: if_splits)
  qed (use inv in simp)
qed

lemma vfs_read_inv:
  assumes inv: "vfs_inv h s" and w: "vfs_read ops c len s = Some (r, s')"
  shows "vfs_inv h s'"
proof -
  obtain cu f i where c: "vfs_custodies s c = Some cu" "vfs_inodes s (custody_inode cu) = Some (f, i)"
    using w by (auto simp: vfs_read_def bind_eq_Some_conv)
  have "s' = s \<or> (\<exists>rc t. (if rc > (0 :: int) then \<exists>x. vfs_seek ops c SEEK_CUR (of_int rc) t = Some (x, s') else s' = t) \<and>
      (t = s \<or> (\<exists>bytes i' fs. op_read (ops f) i (custody_offset cu) len (vfs_fs s) = Some (rc, bytes, i', fs) \<and>
         t = set_inode (custody_inode cu) f i' (s\<lparr>vfs_fs := fs\<rparr>))))"
    using w c by (auto simp: vfs_read_def bind_eq_Some_conv Let_def split: if_splits) (metis)+
  then show ?thesis
  proof (elim disjE exE conjE)
    fix rc :: int and t bytes i' fs
    assume "op_read (ops f) i (custody_offset cu) len (vfs_fs s) = Some (rc, bytes, i', fs)"
      "t = set_inode (custody_inode cu) f i' (s\<lparr>vfs_fs := fs\<rparr>)"
      and t: "if rc > 0 then \<exists>x. vfs_seek ops c SEEK_CUR (of_int rc) t = Some (x, s') else s' = t"
    then have "vfs_inv h t" using update_inode_inv [OF inv c(2)] read_keeps by blast
    then show ?thesis using t vfs_seek_inv by (auto split: if_splits)
  qed (use inv vfs_seek_inv in \<open>auto split: if_splits\<close>)
qed

lemma vfs_stat_inv:
  assumes inv: "vfs_inv h s" and w: "vfs_stat ops path s = Some (r, st, s')"
  shows "vfs_inv h s'"
proof -
  obtain rc parent inode t t' where t: "traverse ops path s = Some (rc, parent, inode, t)"
      and "close_inode ops parent t = Some t'" "close_inode ops inode t' = Some s'"
    using w by (auto simp: vfs_stat_def bind_eq_Some_conv)
  then show ?thesis using close_hold traverse_inv [OF inv t] by blast
qed

text \<open>Mounting, with enough memory.\<close>

lemma canonicalize_allocated: "canonicalize_path True path \<noteq> Some None"
  by (auto simp: canonicalize_path_def Let_def bind_eq_Some_conv)

lemma vfs_mount_inv:
  assumes inv: "vfs_inv h s" and mem: "vfs_mallocs s = []" and m: "vfs_mount ops path f s = Some (rc, s')"
  shows "vfs_inv h s'"
proof -
  have ok: "vfs_malloc t = (True, t)" if "vfs_mallocs t = []" for t :: "('c, 's) vfs"
    using that by (simp add: vfs_malloc_def)
  obtain cpath len mps i fs where c: "canonicalize_path True path = Some (Some cpath)"
      "canonicalized_path_strlen cpath = Some len"
      "insert_mountpoint \<lparr>mp_path = cpath, mp_fs = f, mp_path_skip = len + 1\<rparr> len (s_mountpoints s) = Some mps"
      and o: "op_on_mount (ops f) (vfs_fs s) = Some (i, fs)"
    using m canonicalize_allocated [of path]
    by (auto simp: vfs_mount_def ok mem new_address_def bind_eq_Some_conv split: if_splits)
  let ?p = "vfs_next s"
  let ?s1 = "set_inode ?p f i (s\<lparr>vfs_next := Suc ?p, s_mountpoints := mps, vfs_fs := fs\<rparr>)"
  have rc0: "refcount i = 0" by (rule mount_unopened [OF o])
  obtain i' fs' where oi: "op_open_inode (ops f) i fs = Some (0, i', fs')"
      and ins: "\<exists>r. icache_insert f (inode_id i) ?p (set_inode ?p f (i'\<lparr>refcount := 1\<rparr>) (?s1\<lparr>vfs_fs := fs'\<rparr>)) = Some (r, s')"
    using m c o rc0
    by (auto simp: vfs_mount_def ok mem new_address_def bind_eq_Some_conv open_inode_def Let_def split: if_splits)
  let ?s2 = "set_inode ?p f (i'\<lparr>refcount := 1\<rparr>) (?s1\<lparr>vfs_fs := fs'\<rparr>)"
  have id: "inode_id i' = inode_id i" using open_keeps [OF oi] by simp
  have none: "icache_lookup (vfs_icache s f) (inode_id i) = None"
    and s': "s' = ?s2\<lparr>vfs_icache := (vfs_icache ?s2)(f := (inode_id i, ?p) # vfs_icache ?s2 f)\<rparr>"
    using ins mem by (auto simp: icache_insert_def vfs_malloc_def set_inode_def split: if_splits)
  have "vfs_inv (h(?p := h ?p + 1)) s'"
    by (rule vfs_inv_add [OF inv, of f "i'\<lparr>refcount := 1\<rparr>"]) (simp_all add: none id s')
  then show ?thesis using drop_hold [of "Some ?p" h] by (simp add: hold_Some)
qed

end

end
