(* ===== verification/TempFs.thy ===== *)
theory TempFs
  imports Inode
begin

text \<open>
  The temporary filesystem (\<^verbatim>\<open>kernel/vfs/tempfs/tempfs.cpp\<close>).  Its nodes are objects of the kernel heap;
  the address of a node is also its inode number, and 0 is the null pointer.  \<open>None\<close> is a failing assertion or
  an access to freed memory or outside of an object.  What \<^verbatim>\<open>malloc\<close> and \<^verbatim>\<open>realloc\<close> answer is a parameter.
\<close>

subsection \<open>State\<close>

definition BLOCK_SIZE :: u64 where "BLOCK_SIZE = 512"
definition MAX_NAME_LEN :: nat where "MAX_NAME_LEN = 63"
definition MAX_CHILDREN :: nat where "MAX_CHILDREN = 16"

definition sizeof_dirent :: int where "sizeof_dirent = 272"

text \<open>The bytes of a file are the contents of the heap object behind \<^verbatim>\<open>data\<close>, none for a null pointer.\<close>

datatype TempInode =
    TempFile (file_allocated: u32) (file_size: u32) (file_data: "u8 list")
  | TempDir (dir_children: "(string \<times> u64) list")

record TempFs =
  tfs_capacity :: u64
  tfs_used :: u64
  tfs_root :: u64
  tfs_heap :: "u64 \<Rightarrow> TempInode option"

text \<open>The pointer \<^verbatim>\<open>opaque\<close> of its inodes is null.\<close>

type_synonym 'c temp_inode = "'c option Inode"

definition empty_children :: "(string \<times> u64) list" where
  "empty_children = replicate MAX_CHILDREN ([], 0)"

definition tempfs_create :: "u64 \<Rightarrow> u32 \<Rightarrow> TempFs" where
  "tempfs_create root capacity = \<lparr>tfs_capacity = ucast capacity, tfs_used = 0, tfs_root = root,
     tfs_heap = Map.empty(root \<mapsto> TempDir empty_children)\<rparr>"

definition node_type :: "TempInode \<Rightarrow> InodeType" where
  "node_type node = (case node of TempFile _ _ _ \<Rightarrow> RegularFile | TempDir _ \<Rightarrow> Directory)"

definition fill_inode :: "u64 \<Rightarrow> TempInode \<Rightarrow> 'c temp_inode" where
  "fill_inode addr node = \<lparr>refcount = 0, inode_type = node_type node, inode_id = addr,
     devmajor = 0, devminor = 0, inode_mode = 493, inode_uid = 0, inode_gid = 0,
     inode_size = (case node of TempFile _ sz _ \<Rightarrow> ucast sz | TempDir _ \<Rightarrow> 0),
     access_time = no_time, creation_time = no_time, modification_time = no_time,
     blksize = BLOCK_SIZE, opaque = None\<rparr>"

definition tempfs_fs_on_mount :: "TempFs \<Rightarrow> 'c temp_inode" where
  "tempfs_fs_on_mount fs = \<lparr>refcount = 0, inode_type = Directory, inode_id = tfs_root fs,
     devmajor = 0, devminor = 0, inode_mode = 493, inode_uid = 0, inode_gid = 0, inode_size = 0,
     access_time = no_time, creation_time = no_time, modification_time = no_time,
     blksize = BLOCK_SIZE, opaque = None\<rparr>"

subsection \<open>Files\<close>

definition set_file ::
  "'c temp_inode \<Rightarrow> u64 \<Rightarrow> u64 \<Rightarrow> u8 list \<Rightarrow> u64 \<Rightarrow> TempFs \<Rightarrow> int \<times> 'c temp_inode \<times> TempFs" where
  "set_file self required_allocated sz bytes used fs =
     (0, self\<lparr>inode_size := sz\<rparr>,
      fs\<lparr>tfs_used := used,
         tfs_heap := (tfs_heap fs)(inode_id self \<mapsto> TempFile (ucast required_allocated) (ucast sz) bytes)\<rparr>)"

definition tempfs_file_inode_ftruncate ::
  "bool \<Rightarrow> 'c temp_inode \<Rightarrow> u64 \<Rightarrow> TempFs \<Rightarrow> (int \<times> 'c temp_inode \<times> TempFs) option" where
  "tempfs_file_inode_ftruncate realloc_ok self sz fs = do {
     node \<leftarrow> tfs_heap fs (inode_id self);
     case node of
       TempDir _ \<Rightarrow> None
     | TempFile allocated _ bytes \<Rightarrow>
         let allocated = ucast allocated; required_allocated = round_up_u64 sz BLOCK_SIZE
         in if required_allocated > allocated then
              let extra_required = required_allocated - allocated
              in if tfs_used fs + extra_required > tfs_capacity fs then Some (- errno ERR_NOMEM, self, fs)
                 else if \<not> realloc_ok then Some (- errno ERR_NOMEM, self, fs)
                 else Some (set_file self required_allocated sz (bytes @ replicate (unat extra_required) 0)
                        (tfs_used fs + extra_required) fs)
            else if required_allocated < allocated then
              if \<not> realloc_ok then Some (- errno ERR_NOMEM, self, fs)
              else Some (set_file self required_allocated sz (take (unat required_allocated) bytes)
                     (tfs_used fs - (allocated - required_allocated)) fs)
            else Some (set_file self required_allocated sz bytes (tfs_used fs) fs)
   }"

text \<open>The bytes that a read stores; the result is their number.\<close>

definition tempfs_file_inode_read :: "'c temp_inode \<Rightarrow> u64 \<Rightarrow> u32 \<Rightarrow> TempFs \<Rightarrow> u8 list option" where
  "tempfs_file_inode_read self off len fs = do {
     node \<leftarrow> tfs_heap fs (inode_id self);
     check (inode_type self = RegularFile);
     case node of
       TempDir _ \<Rightarrow> None
     | TempFile _ _ bytes \<Rightarrow>
         let len = (if off + ucast len > inode_size self then ucast (inode_size self - off) else len)
         in do {
           check (unat off + unat len \<le> length bytes);
           Some (take (unat len) (drop (unat off) bytes))
         }
   }"

definition store_bytes :: "'c temp_inode \<Rightarrow> u64 \<Rightarrow> u8 list \<Rightarrow> TempFs \<Rightarrow> TempFs option" where
  "store_bytes self off buffer fs = do {
     node \<leftarrow> tfs_heap fs (inode_id self);
     case node of
       TempDir _ \<Rightarrow> None
     | TempFile allocated sz bytes \<Rightarrow> do {
         check (unat off + length buffer \<le> length bytes);
         Some (fs\<lparr>tfs_heap := (tfs_heap fs)(inode_id self \<mapsto> TempFile allocated sz (overwrite bytes (unat off) buffer))\<rparr>)
       }
   }"

definition tempfs_file_inode_write ::
  "bool \<Rightarrow> 'c temp_inode \<Rightarrow> u64 \<Rightarrow> u8 list \<Rightarrow> TempFs \<Rightarrow> (int \<times> 'c temp_inode \<times> TempFs) option" where
  "tempfs_file_inode_write realloc_ok self off buffer fs = do {
     tfs_heap fs (inode_id self);
     check (inode_type self = RegularFile);
     let len = (of_nat (length buffer) :: u64);
     (rc, self, fs) \<leftarrow> (if off + len > inode_size self
                        then tempfs_file_inode_ftruncate realloc_ok self (off + len) fs
                        else Some (0, self, fs));
     (if rc < 0 then Some (rc, self, fs)
      else do {
        fs \<leftarrow> store_bytes self off buffer fs;
        Some (int (length buffer), self, fs)
      })
   }"

definition tempfs_file_inode_seek :: "'c temp_inode \<Rightarrow> u64 \<Rightarrow> int \<Rightarrow> i32 \<Rightarrow> u64 option" where
  "tempfs_file_inode_seek self current whence off = default_checked_seek (inode_size self) current whence off"

subsection \<open>Directories\<close>

definition dir_of :: "'c temp_inode \<Rightarrow> TempFs \<Rightarrow> (string \<times> u64) list option" where
  "dir_of self fs = (case tfs_heap fs (inode_id self) of Some (TempDir children) \<Rightarrow> Some children | _ \<Rightarrow> None)"

definition tempfs_dir_inode_lookup :: "'c temp_inode \<Rightarrow> string \<Rightarrow> TempFs \<Rightarrow> (Errors + 'c temp_inode) option" where
  "tempfs_dir_inode_lookup self name fs = do {
     children \<leftarrow> dir_of self fs;
     case List.find (\<lambda>(n, inode). inode \<noteq> 0 \<and> n = name) children of
       None \<Rightarrow> Some (Inl ERR_NOENT)
     | Some (_, inode) \<Rightarrow> do {
         node \<leftarrow> tfs_heap fs inode;
         Some (Inr (fill_inode inode node))
       }
   }"

text \<open>The loop of \<^verbatim>\<open>tempfs_dir_create\<close>: the last free slot, or the early return when the name exists.\<close>

fun find_free_slot :: "string \<Rightarrow> nat \<Rightarrow> nat \<Rightarrow> (string \<times> u64) list \<Rightarrow> nat option" where
  "find_free_slot name i free_idx [] = Some free_idx"
| "find_free_slot name i free_idx ((n, inode) # children) =
     (if inode = 0 then find_free_slot name (i + 1) i children
      else if n = name then None
      else find_free_slot name (i + 1) free_idx children)"

text \<open>\<open>new\<close> is the address that \<^verbatim>\<open>malloc\<close> returns, 0 when it fails.\<close>

definition tempfs_dir_create ::
  "u64 \<Rightarrow> 'c temp_inode \<Rightarrow> string \<Rightarrow> InodeType \<Rightarrow> TempFs \<Rightarrow> (Errors + 'c temp_inode \<times> 'c temp_inode \<times> TempFs) option" where
  "tempfs_dir_create new self name type fs = do {
     check (inode_type self = Directory);
     if length name > MAX_NAME_LEN then Some (Inl ERR_NAMETOOLONG)
     else do {
       children \<leftarrow> dir_of self fs;
       if type \<noteq> RegularFile \<and> type \<noteq> Directory then Some (Inl ERR_INVAL)
       else case find_free_slot name 0 MAX_CHILDREN children of
         None \<Rightarrow> Some (Inl ERR_EXIST)
       | Some free_idx \<Rightarrow>
           if free_idx = MAX_CHILDREN then Some (Inl ERR_NOSPACE)
           else if new = 0 then Some (Inl ERR_NOMEM)
           else
             let node = (if type = RegularFile then TempFile 0 0 [] else TempDir empty_children);
                 fs = fs\<lparr>tfs_heap := (tfs_heap fs)(new \<mapsto> node,
                        inode_id self \<mapsto> TempDir (children[free_idx := (take MAX_NAME_LEN name, new)]))\<rparr>
             in Some (Inr (fill_inode new node, self\<lparr>inode_size := inode_size self + of_int sizeof_dirent\<rparr>, fs))
     }
   }"

definition tempfs_dir_unlink :: "'c temp_inode \<Rightarrow> string \<Rightarrow> TempFs \<Rightarrow> (int \<times> TempFs) option" where
  "tempfs_dir_unlink self name fs = do {
     check (inode_type self = Directory);
     if tfs_root fs = inode_id self then Some (- errno ERR_INVAL, fs)
     else do {
       children \<leftarrow> dir_of self fs;
       case List.find (\<lambda>(n, inode). inode \<noteq> 0 \<and> n = name) children of
         None \<Rightarrow> Some (- errno ERR_NOENT, fs)
       | Some (_, child) \<Rightarrow> do {
           node \<leftarrow> tfs_heap fs child;
           case node of
             TempDir grandchildren \<Rightarrow>
               if list_ex (\<lambda>(_, inode). inode \<noteq> 0) grandchildren then Some (- errno ERR_NOTEMPTY, fs)
               else Some (0, fs\<lparr>tfs_heap := (tfs_heap fs)(child := None)\<rparr>)
           | TempFile allocated _ _ \<Rightarrow>
               Some (0, fs\<lparr>tfs_used := tfs_used fs - ucast allocated, tfs_heap := (tfs_heap fs)(child := None)\<rparr>)
         }
     }
   }"

text \<open>A directory entry: the inode number, whether it is a directory, and the name.\<close>

fun dents_loop :: "TempFs \<Rightarrow> int \<Rightarrow> nat \<Rightarrow> (string \<times> u64) list \<Rightarrow> (u64 \<times> bool \<times> string) list option" where
  "dents_loop fs off n [] = Some []"
| "dents_loop fs off n ((name, inode) # children) =
     (if n = 0 then Some []
      else if inode = 0 then dents_loop fs off n children
      else if off > 0 then dents_loop fs (off - sizeof_dirent) n children
      else do {
        node \<leftarrow> tfs_heap fs inode;
        rest \<leftarrow> dents_loop fs off (n - 1) children;
        Some ((inode, node_type node = Directory, name) # rest)
      })"

definition tempfs_dir_getdents :: "'c temp_inode \<Rightarrow> int \<Rightarrow> nat \<Rightarrow> TempFs \<Rightarrow> (int \<times> (u64 \<times> bool \<times> string) list) option" where
  "tempfs_dir_getdents self off n fs = do {
     children \<leftarrow> dir_of self fs;
     entries \<leftarrow> dents_loop fs off n children;
     Some (int (length entries) * sizeof_dirent, entries)
   }"


subsection \<open>Files as byte arrays\<close>

text \<open>Whole blocks for a number of bytes.\<close>

definition file_blocks :: "nat \<Rightarrow> nat" where
  "file_blocks n = (n + 511) div 512 * 512"

definition allocated_bytes :: "TempInode option \<Rightarrow> nat" where
  "allocated_bytes node = (case node of Some (TempFile allocated _ _) \<Rightarrow> unat allocated | _ \<Rightarrow> 0)"

definition heap_bytes :: "(u64 \<Rightarrow> TempInode option) \<Rightarrow> nat" where
  "heap_bytes h = (\<Sum>a\<in>dom h. allocated_bytes (h a))"

definition file_ok :: "TempInode \<Rightarrow> bool" where
  "file_ok node = (case node of
     TempFile allocated sz bytes \<Rightarrow> length bytes = unat allocated \<and> unat allocated = file_blocks (unat sz)
   | TempDir _ \<Rightarrow> True)"

text \<open>The account of the filesystem: what is used is what the files have allocated, within the capacity.\<close>

definition tempfs_inv :: "TempFs \<Rightarrow> bool" where
  "tempfs_inv fs \<longleftrightarrow> finite (dom (tfs_heap fs)) \<and> unat (tfs_used fs) = heap_bytes (tfs_heap fs) \<and>
     tfs_used fs \<le> tfs_capacity fs \<and> unat (tfs_capacity fs) < 2 ^ 32 \<and>
     (\<forall>a node. tfs_heap fs a = Some node \<longrightarrow> file_ok node)"

definition file_bytes :: "TempFs \<Rightarrow> u64 \<Rightarrow> u8 list" where
  "file_bytes fs a = (case tfs_heap fs a of Some (TempFile _ sz bytes) \<Rightarrow> take (unat sz) bytes | _ \<Rightarrow> [])"

text \<open>An open file: the cached inode knows the size.\<close>

definition tempfs_open_file :: "'c temp_inode \<Rightarrow> TempFs \<Rightarrow> bool" where
  "tempfs_open_file self fs \<longleftrightarrow> inode_type self = RegularFile \<and>
     (\<exists>allocated sz bytes. tfs_heap fs (inode_id self) = Some (TempFile allocated sz bytes) \<and> inode_size self = ucast sz)"

lemma file_blocks_ge: "n \<le> file_blocks n"
  using div_mult_mod_eq [of "n + 511" 512] mod_less_divisor [of 512 "n + 511"]
  unfolding file_blocks_def by linarith

lemma file_blocks_mono: "m \<le> n \<Longrightarrow> file_blocks m \<le> file_blocks n"
  unfolding file_blocks_def by (intro mult_right_mono div_le_mono) auto

lemma file_blocks_le: "file_blocks n \<le> n + 511"
  unfolding file_blocks_def by simp

lemma unat_round_up_u64:
  assumes "unat a < 2 ^ 33"
  shows "unat (round_up_u64 a BLOCK_SIZE) = file_blocks (unat a)"
proof -
  have e: "a + BLOCK_SIZE - 1 = a + 511" by (simp add: BLOCK_SIZE_def)
  have u: "unat (a + 511) = unat a + 511" using assms by (subst unat_add_lem [THEN iffD1]) auto
  have d: "unat ((a + BLOCK_SIZE - 1) div BLOCK_SIZE) = (unat a + 511) div 512"
    unfolding e unat_div u by (simp add: BLOCK_SIZE_def)
  have "(unat a + 511) div 512 * 512 \<le> unat a + 511" by (rule div_times_less_eq_dividend)
  also have "\<dots> < 2 ^ 64" using assms by simp
  finally have "unat ((a + BLOCK_SIZE - 1) div BLOCK_SIZE) * unat BLOCK_SIZE < 2 ^ 64"
    unfolding d by (simp add: BLOCK_SIZE_def)
  then show ?thesis unfolding round_up_u64_def file_blocks_def
    by (subst unat_mult_lem [THEN iffD1]) (simp_all add: d, simp add: BLOCK_SIZE_def)
qed

lemma heap_bytes_upd:
  assumes "finite (dom h)"
  shows "heap_bytes (h(a \<mapsto> node)) + allocated_bytes (h a) = heap_bytes h + allocated_bytes (Some node)"
proof -
  have same: "(\<Sum>b\<in>dom h - {a}. allocated_bytes ((h(a \<mapsto> node)) b)) = (\<Sum>b\<in>dom h - {a}. allocated_bytes (h b))"
    by (rule sum.cong) auto
  have "heap_bytes (h(a \<mapsto> node)) = allocated_bytes (Some node) + (\<Sum>b\<in>dom h - {a}. allocated_bytes (h b))"
    using assms same by (simp add: heap_bytes_def sum.insert_remove)
  moreover have "heap_bytes h = allocated_bytes (h a) + (\<Sum>b\<in>dom h - {a}. allocated_bytes (h b))"
  proof (cases "a \<in> dom h")
    case True
    then show ?thesis using assms by (simp add: heap_bytes_def sum.remove)
  next
    case False
    then have "dom h - {a} = dom h" "h a = None" by auto
    then show ?thesis by (simp add: heap_bytes_def allocated_bytes_def)
  qed
  ultimately show ?thesis by simp
qed

lemma heap_bytes_del:
  assumes "finite (dom h)"
  shows "heap_bytes (h(a := None)) + allocated_bytes (h a) = heap_bytes h"
proof (cases "a \<in> dom h")
  case True
  have "(\<Sum>b\<in>dom h - {a}. allocated_bytes ((h(a := None)) b)) = (\<Sum>b\<in>dom h - {a}. allocated_bytes (h b))"
    by (rule sum.cong) auto
  then show ?thesis using assms True by (simp add: heap_bytes_def sum.remove)
next
  case False
  then have "h(a := None) = h" "h a = None" by auto
  then show ?thesis by (simp add: allocated_bytes_def)
qed

lemma allocated_le_heap:
  assumes "finite (dom h)"
  shows "allocated_bytes (h a) \<le> heap_bytes h"
  using heap_bytes_del [OF assms, of a] by simp

text \<open>Writing a node with its new size keeps the account when \<open>used\<close> changes with it.\<close>

lemma set_node_inv:
  assumes "tempfs_inv fs" and "file_ok node"
    and "unat used + allocated_bytes (tfs_heap fs a) = unat (tfs_used fs) + allocated_bytes (Some node)"
    and "used \<le> tfs_capacity fs"
  shows "tempfs_inv (fs\<lparr>tfs_used := used, tfs_heap := (tfs_heap fs)(a \<mapsto> node)\<rparr>)"
  using assms heap_bytes_upd [of "tfs_heap fs" a node] by (auto simp: tempfs_inv_def)

lemma tempfs_inv_file:
  assumes "tempfs_inv fs" and "tfs_heap fs a = Some (TempFile allocated sz bytes)"
  shows "length bytes = unat allocated" and "unat allocated = file_blocks (unat sz)"
    and "unat allocated \<le> unat (tfs_used fs)" and "unat sz \<le> length bytes" and "unat allocated < 2 ^ 32"
proof -
  have ok: "file_ok (TempFile allocated sz bytes)" using assms by (auto simp: tempfs_inv_def)
  then show "length bytes = unat allocated" "unat allocated = file_blocks (unat sz)" by (simp_all add: file_ok_def)
  then show "unat sz \<le> length bytes" using file_blocks_ge [of "unat sz"] by simp
  show "unat allocated \<le> unat (tfs_used fs)"
    using allocated_le_heap [of "tfs_heap fs" a] assms by (simp add: tempfs_inv_def allocated_bytes_def)
  show "unat allocated < 2 ^ 32" by (rule unat_u32_less)
qed


text \<open>Growing a file.\<close>

lemma unat_sub_u64: "b \<le> a \<Longrightarrow> unat (a - b :: u64) = unat a - unat b"
  by (rule unat_sub)

lemma unat_ucast_u32_u64 [simp]: "unat (ucast (a :: u32) :: u64) = unat a"
  by transfer (simp add: take_bit_eq_mod)

lemma ftruncate_grow:
  assumes inv: "tempfs_inv fs" and node: "tfs_heap fs (inode_id self) = Some (TempFile allocated sz bytes)"
    and grow: "unat sz < unat n" and small: "unat n < 2 ^ 31"
  defines "extra \<equiv> file_blocks (unat n) - file_blocks (unat sz)"
  shows "tempfs_file_inode_ftruncate realloc_ok self n fs =
    (if unat (tfs_used fs) + extra \<le> unat (tfs_capacity fs) \<and> (extra = 0 \<or> realloc_ok)
     then Some (0, self\<lparr>inode_size := n\<rparr>,
       fs\<lparr>tfs_used := tfs_used fs + of_nat extra,
          tfs_heap := (tfs_heap fs)(inode_id self \<mapsto>
            TempFile (of_nat (file_blocks (unat n))) (ucast n) (bytes @ replicate extra 0))\<rparr>)
     else Some (- errno ERR_NOMEM, self, fs))"
proof -
  note fl = tempfs_inv_file [OF inv node]
  have r: "unat (round_up_u64 n BLOCK_SIZE) = file_blocks (unat n)"
    by (rule unat_round_up_u64) (use small in simp)
  have al: "unat (ucast allocated :: u64) = file_blocks (unat sz)" using fl(2) by simp
  have le: "file_blocks (unat sz) \<le> file_blocks (unat n)" using grow by (intro file_blocks_mono) simp
  have cap: "tfs_used fs \<le> tfs_capacity fs" "unat (tfs_capacity fs) < 2 ^ 32"
    using inv by (simp_all add: tempfs_inv_def)
  then have used: "unat (tfs_used fs) < 2 ^ 32" by (simp add: word_le_nat_alt)
  have small_blocks: "file_blocks (unat n) < 2 ^ 32" using file_blocks_le [of "unat n"] small by simp
  have le': "(ucast allocated :: u64) \<le> round_up_u64 n BLOCK_SIZE"
    unfolding word_le_nat_alt r al by (rule le)
  have ex: "unat (round_up_u64 n BLOCK_SIZE - ucast allocated) = extra"
    unfolding unat_sub_u64 [OF le'] r al extra_def by simp
  then have ex': "round_up_u64 n BLOCK_SIZE - ucast allocated = of_nat extra" by (metis of_nat_unat ucast_id)
  have "extra < 2 ^ 32" using small_blocks by (simp add: extra_def)
  then have sum: "unat (tfs_used fs + of_nat extra) = unat (tfs_used fs) + extra"
    unfolding ex' [symmetric] using used ex by (subst unat_add_lem [THEN iffD1]) auto
  have trunc: "ucast (round_up_u64 n BLOCK_SIZE) = (of_nat (file_blocks (unat n)) :: u32)"
    unfolding r [symmetric] by simp
  have room: "(tfs_capacity fs < tfs_used fs + of_nat extra) = (\<not> unat (tfs_used fs) + extra \<le> unat (tfs_capacity fs))"
    by (simp add: word_less_nat_alt sum not_le)
  show ?thesis
  proof (cases "extra = 0")
    case True
    then have "round_up_u64 n BLOCK_SIZE = ucast allocated" using ex' by simp
    then show ?thesis using True cap node trunc
      by (simp add: tempfs_file_inode_ftruncate_def set_file_def word_le_nat_alt)
  next
    case False
    then have "(ucast allocated :: u64) < round_up_u64 n BLOCK_SIZE"
      unfolding word_less_nat_alt r al extra_def by simp
    then show ?thesis using False node room
      by (simp add: tempfs_file_inode_ftruncate_def Let_def set_file_def ex ex' ex [unfolded ex'] trunc)
  qed
qed


lemma grow_inv:
  assumes inv: "tempfs_inv fs" and node: "tfs_heap fs a = Some (TempFile allocated sz bytes)"
    and grow: "unat sz \<le> n" and small: "n < 2 ^ 31"
    and room: "unat (tfs_used fs) + (file_blocks n - file_blocks (unat sz)) \<le> unat (tfs_capacity fs)"
    and len: "length bytes' = file_blocks n"
  shows "tempfs_inv (fs\<lparr>tfs_used := tfs_used fs + of_nat (file_blocks n - file_blocks (unat sz)),
    tfs_heap := (tfs_heap fs)(a \<mapsto> TempFile (of_nat (file_blocks n)) (of_nat n) bytes')\<rparr>)"
proof (rule set_node_inv [OF inv])
  note fl = tempfs_inv_file [OF inv node]
  let ?extra = "file_blocks n - file_blocks (unat sz)"
  have blocks: "file_blocks n < 2 ^ 32" using file_blocks_le [of n] small by simp
  then have u: "unat (of_nat (file_blocks n) :: u32) = file_blocks n" by (rule unat_of_nat_u32)
  have n: "unat (of_nat n :: u32) = n" using small by (intro unat_of_nat_u32) simp
  have cap: "unat (tfs_capacity fs) < 2 ^ 32" using inv by (simp add: tempfs_inv_def)
  have "unat (of_nat ?extra :: u64) = ?extra" using blocks by (subst unat_of_nat) simp
  then have sum: "unat (tfs_used fs + of_nat ?extra) = unat (tfs_used fs) + ?extra"
    using room cap by (subst unat_add_lem [THEN iffD1]) auto
  show "file_ok (TempFile (of_nat (file_blocks n)) (of_nat n) bytes')"
    by (simp add: file_ok_def u n len)
  show "tfs_used fs + of_nat ?extra \<le> tfs_capacity fs"
    unfolding word_le_nat_alt sum by (rule room)
  show "unat (tfs_used fs + of_nat ?extra) + allocated_bytes (tfs_heap fs a) =
      unat (tfs_used fs) + allocated_bytes (Some (TempFile (of_nat (file_blocks n)) (of_nat n) bytes'))"
    unfolding sum using file_blocks_mono [OF grow] fl(2) by (simp add: allocated_bytes_def node u)
qed

text \<open>What a write does to an open file, whether it fits or not.\<close>

definition write_fits :: "bool \<Rightarrow> nat \<Rightarrow> nat \<Rightarrow> TempFs \<Rightarrow> bool" where
  "write_fits realloc_ok old_size new_size fs \<longleftrightarrow>
     (let extra = file_blocks new_size - file_blocks old_size
      in unat (tfs_used fs) + extra \<le> unat (tfs_capacity fs) \<and> (extra = 0 \<or> realloc_ok))"

lemma write_inside:
  assumes inv: "tempfs_inv fs" and self: "inode_type self = RegularFile"
    and node: "tfs_heap fs (inode_id self) = Some (TempFile allocated sz bytes)" and sz: "inode_size self = ucast sz"
    and inside: "unat p + length b \<le> unat sz"
  shows "tempfs_file_inode_write realloc_ok self p b fs = Some (int (length b), self,
    fs\<lparr>tfs_heap := (tfs_heap fs)(inode_id self \<mapsto> TempFile allocated sz (overwrite bytes (unat p) b))\<rparr>)"
proof -
  note fl = tempfs_inv_file [OF inv node]
  have bound: "unat p + length b < 2 ^ 32" using inside unat_u32_less [of sz] by linarith
  then have "unat (of_nat (length b) :: u64) = length b" by (subst unat_of_nat) simp
  then have "unat (p + of_nat (length b)) = unat p + length b"
    using bound by (subst unat_add_lem [THEN iffD1]) auto
  then have "\<not> p + of_nat (length b) > inode_size self"
    using inside by (simp add: word_less_nat_alt sz not_less)
  then show ?thesis
    using self node inside fl(4) by (simp add: tempfs_file_inode_write_def store_bytes_def Let_def)
qed

lemma write_growing:
  assumes inv: "tempfs_inv fs" and self: "inode_type self = RegularFile"
    and node: "tfs_heap fs (inode_id self) = Some (TempFile allocated sz bytes)" and sz: "inode_size self = ucast sz"
    and p: "unat p \<le> unat sz" and grow: "unat sz < unat p + length b" and small: "unat p + length b < 2 ^ 31"
  defines "n \<equiv> unat p + length b"
  defines "extra \<equiv> file_blocks n - file_blocks (unat sz)"
  shows "tempfs_file_inode_write realloc_ok self p b fs =
    (if write_fits realloc_ok (unat sz) n fs
     then Some (int (length b), self\<lparr>inode_size := of_nat n\<rparr>,
       fs\<lparr>tfs_used := tfs_used fs + of_nat extra, tfs_heap := (tfs_heap fs)(inode_id self \<mapsto>
            TempFile (of_nat (file_blocks n)) (of_nat n) (overwrite (bytes @ replicate extra 0) (unat p) b))\<rparr>)
     else Some (- errno ERR_NOMEM, self, fs))"
proof -
  note fl = tempfs_inv_file [OF inv node]
  have "unat (of_nat (length b) :: u64) = length b" using small by (subst unat_of_nat) simp
  then have sum: "unat (p + of_nat (length b)) = n"
    unfolding n_def using small by (subst unat_add_lem [THEN iffD1]) auto
  then have sum': "p + of_nat (length b) = of_nat n" by (metis of_nat_unat ucast_id)
  have un: "unat (of_nat n :: u64) = n" using sum unfolding sum' .
  have past: "p + of_nat (length b) > inode_size self"
    using grow by (simp add: word_less_nat_alt sum sz n_def)
  have "ucast (p + of_nat (length b)) = (of_nat n :: u32)"
    unfolding sum [symmetric] by simp
  then have trunc: "ucast (of_nat n :: u64) = (of_nat n :: u32)" unfolding sum' .
  have ft: "tempfs_file_inode_ftruncate realloc_ok self (of_nat n) fs =
    (if write_fits realloc_ok (unat sz) n fs
     then Some (0, self\<lparr>inode_size := of_nat n\<rparr>,
       fs\<lparr>tfs_used := tfs_used fs + of_nat extra,
          tfs_heap := (tfs_heap fs)(inode_id self \<mapsto>
            TempFile (of_nat (file_blocks n)) (of_nat n) (bytes @ replicate extra 0))\<rparr>)
     else Some (- errno ERR_NOMEM, self, fs))"
    using ftruncate_grow [OF inv node, of "of_nat n" realloc_ok] grow small
    unfolding un trunc extra_def write_fits_def Let_def n_def [symmetric] by blast
  have "unat p + length b \<le> length bytes + extra"
    using fl(1,2) file_blocks_ge [of n] file_blocks_mono [of "unat sz" n] grow by (simp add: extra_def n_def)
  then show ?thesis
    using self node past by (simp add: tempfs_file_inode_write_def store_bytes_def Let_def sum' ft)
qed


lemma take_overwrite_inside:
  assumes "i + length b \<le> n" and "n \<le> length xs"
  shows "take n (overwrite xs i b) = overwrite (take n xs) i b"
proof -
  have "min n i = i" "min (n - i) (length b) = length b" using assms by auto
  then show ?thesis using assms by (simp add: overwrite_def drop_take add.commute)
qed

lemma take_overwrite_past:
  assumes "i \<le> n" and "n \<le> i + length b" and "n \<le> length xs"
  shows "take (i + length b) (overwrite (xs @ zs) i b) = overwrite (take n xs) i b"
  using assms by (auto simp: overwrite_def min_def)

lemma tempfs_read_file:
  assumes inv: "tempfs_inv fs" and self: "tempfs_open_file self fs"
    and q: "unat q \<le> length (file_bytes fs (inode_id self))"
  shows "tempfs_file_inode_read self q m fs = Some (take (unat m) (drop (unat q) (file_bytes fs (inode_id self))))"
proof -
  obtain allocated sz bytes where node: "tfs_heap fs (inode_id self) = Some (TempFile allocated sz bytes)"
      and sz: "inode_size self = ucast sz" "inode_type self = RegularFile"
    using self by (auto simp: tempfs_open_file_def)
  note fl = tempfs_inv_file [OF inv node]
  have fb: "file_bytes fs (inode_id self) = take (unat sz) bytes" by (simp add: file_bytes_def node)
  have q': "unat q \<le> unat sz" using q fl(4) by (simp add: fb)
  have bounds: "unat sz < 2 ^ 32" "unat m < 2 ^ 32" by (rule unat_u32_less)+
  have sum: "unat (q + ucast m) = unat q + unat m"
    using q' bounds by (subst unat_add_lem [THEN iffD1]) auto
  have le: "q \<le> ucast sz" using q' by (simp add: word_le_nat_alt)
  have "unat (ucast (ucast sz - q) :: u32) = unat (ucast sz - q :: u64) mod 2 ^ 32"
    by (simp add: unsigned_ucast_eq take_bit_eq_mod)
  also have "\<dots> = unat sz - unat q" using unat_sub_u64 [OF le] bounds by simp
  finally have rest: "unat (ucast (ucast sz - q) :: u32) = unat sz - unat q" .
  show ?thesis
  proof (cases "unat q + unat m > unat sz")
    case True
    then have "q + ucast m > inode_size self" by (simp add: word_less_nat_alt sum sz)
    then show ?thesis using node sz q' fl(4) True rest
      by (simp add: tempfs_file_inode_read_def Let_def fb drop_take)
  next
    case False
    then have "\<not> q + ucast m > inode_size self" by (simp add: word_less_nat_alt sum sz)
    then show ?thesis using node sz q' fl(4) False
      by (simp add: tempfs_file_inode_read_def Let_def fb drop_take min_def)
  qed
qed

text \<open>What a write leaves behind: the file with the range replaced, and every other node as it was.\<close>

definition wrote :: "'c temp_inode \<Rightarrow> u64 \<Rightarrow> u8 list \<Rightarrow> TempFs \<Rightarrow> 'c temp_inode \<Rightarrow> TempFs \<Rightarrow> bool" where
  "wrote self p b fs self' fs' \<longleftrightarrow>
     tempfs_inv fs' \<and> tempfs_open_file self' fs' \<and> inode_id self' = inode_id self \<and>
     file_bytes fs' (inode_id self) = overwrite (file_bytes fs (inode_id self)) (unat p) b \<and>
     (\<forall>a. a \<noteq> inode_id self \<longrightarrow> tfs_heap fs' a = tfs_heap fs a)"

lemma wrote_inside:
  assumes inv: "tempfs_inv fs" and node: "tfs_heap fs (inode_id self) = Some (TempFile allocated sz bytes)"
    and self: "inode_size self = ucast sz" "inode_type self = RegularFile" and inside: "unat p + length b \<le> unat sz"
  shows "wrote self p b fs self
    (fs\<lparr>tfs_heap := (tfs_heap fs)(inode_id self \<mapsto> TempFile allocated sz (overwrite bytes (unat p) b))\<rparr>)"
proof -
  let ?node = "TempFile allocated sz (overwrite bytes (unat p) b)"
  let ?fs = "fs\<lparr>tfs_heap := (tfs_heap fs)(inode_id self \<mapsto> ?node)\<rparr>"
  note fl = tempfs_inv_file [OF inv node]
  have "length (overwrite bytes (unat p) b) = length bytes" using inside fl(4) by simp
  then have "file_ok ?node" using fl(1,2) by (simp add: file_ok_def)
  then have "tempfs_inv ?fs"
    using set_node_inv [OF inv, of ?node "tfs_used fs" "inode_id self"] inv
    by (simp add: allocated_bytes_def node tempfs_inv_def)
  then show ?thesis
    using self take_overwrite_inside [OF inside fl(4)] by (auto simp: wrote_def tempfs_open_file_def file_bytes_def node)
qed

lemma wrote_growing:
  assumes inv: "tempfs_inv fs" and node: "tfs_heap fs (inode_id self) = Some (TempFile allocated sz bytes)"
    and self: "inode_size self = ucast sz" "inode_type self = RegularFile"
    and p: "unat p \<le> unat sz" and grow: "unat sz < unat p + length b" and small: "unat p + length b < 2 ^ 31"
    and fits: "write_fits realloc_ok (unat sz) (unat p + length b) fs"
  defines "n \<equiv> unat p + length b"
  defines "extra \<equiv> file_blocks n - file_blocks (unat sz)"
  shows "wrote self p b fs (self\<lparr>inode_size := of_nat n\<rparr>)
    (fs\<lparr>tfs_used := tfs_used fs + of_nat extra, tfs_heap := (tfs_heap fs)(inode_id self \<mapsto>
       TempFile (of_nat (file_blocks n)) (of_nat n) (overwrite (bytes @ replicate extra 0) (unat p) b))\<rparr>)"
proof -
  let ?bytes = "overwrite (bytes @ replicate extra 0) (unat p) b"
  note fl = tempfs_inv_file [OF inv node]
  have small': "n < 2 ^ 31" and grow': "unat sz < n" using small grow by (simp_all add: n_def)
  have n: "unat (of_nat n :: u32) = n" using small' by (intro unat_of_nat_u32) simp
  have sum: "file_blocks (unat sz) + extra = file_blocks n"
    using file_blocks_mono [of "unat sz" n] grow' by (simp add: extra_def)
  have "n \<le> length bytes + extra" using sum fl(1,2) file_blocks_ge [of n] by simp
  then have blen: "length ?bytes = file_blocks n" using sum fl(1,2) by (subst length_overwrite) (simp_all add: n_def)
  have "tempfs_inv (fs\<lparr>tfs_used := tfs_used fs + of_nat extra,
      tfs_heap := (tfs_heap fs)(inode_id self \<mapsto> TempFile (of_nat (file_blocks n)) (of_nat n) ?bytes)\<rparr>)"
    using fits [folded n_def] grow' small' blen unfolding extra_def
    by (intro grow_inv [OF inv node]) (simp_all add: write_fits_def Let_def)
  moreover have "ucast (of_nat n :: u32) = (of_nat n :: u64)"
    by (rule word_unat_eq_iff [THEN iffD2]) (use n small' in \<open>simp add: unat_of_nat\<close>)
  moreover have "take n ?bytes = overwrite (take (unat sz) bytes) (unat p) b"
    using take_overwrite_past [of "unat p" "unat sz" b bytes "replicate extra 0"] p grow fl(4) by (simp add: n_def)
  ultimately show ?thesis
    using self n by (simp add: wrote_def tempfs_open_file_def file_bytes_def node)
qed

text \<open>
  C16: On an open file a write at a position inside it or at its end either replaces exactly the bytes of that
  range, extends the file, and leaves every other file and the account correct, so that later reads return the
  new contents, or, when the blocks it needs do not fit, returns \<^verbatim>\<open>-ERR_NOMEM\<close> and changes nothing.
\<close>
theorem tempfs_write_read:
  assumes inv: "tempfs_inv fs" and self: "tempfs_open_file self fs"
    and p: "unat p \<le> length (file_bytes fs (inode_id self))" and small: "unat p + length b < 2 ^ 31"
  defines "xs \<equiv> file_bytes fs (inode_id self)"
  shows "if write_fits realloc_ok (length xs) (max (length xs) (unat p + length b)) fs
    then \<exists>self' fs'. tempfs_file_inode_write realloc_ok self p b fs = Some (int (length b), self', fs') \<and>
      tempfs_inv fs' \<and> tempfs_open_file self' fs' \<and> inode_id self' = inode_id self \<and>
      file_bytes fs' (inode_id self) = overwrite xs (unat p) b \<and>
      (\<forall>a. a \<noteq> inode_id self \<longrightarrow> tfs_heap fs' a = tfs_heap fs a) \<and>
      (\<forall>q m. unat q \<le> length (overwrite xs (unat p) b) \<longrightarrow>
         tempfs_file_inode_read self' q m fs' = Some (take (unat m) (drop (unat q) (overwrite xs (unat p) b))))
    else tempfs_file_inode_write realloc_ok self p b fs = Some (- errno ERR_NOMEM, self, fs)"
proof -
  obtain allocated sz bytes where node: "tfs_heap fs (inode_id self) = Some (TempFile allocated sz bytes)"
      and sz: "inode_size self = ucast sz" "inode_type self = RegularFile"
    using self by (auto simp: tempfs_open_file_def)
  note fl = tempfs_inv_file [OF inv node]
  have len: "length xs = unat sz" using fl(4) by (simp add: xs_def file_bytes_def node)
  have finish: "?thesis" if "tempfs_file_inode_write realloc_ok self p b fs = Some (int (length b), self', fs')"
      and "wrote self p b fs self' fs'" and "write_fits realloc_ok (length xs) (max (length xs) (unat p + length b)) fs"
    for self' fs'
    using tempfs_read_file [of fs' self'] that by (auto simp: wrote_def xs_def)
  show ?thesis
  proof (cases "unat p + length b \<le> unat sz")
    case True
    have "write_fits realloc_ok (length xs) (max (length xs) (unat p + length b)) fs"
      using inv True by (simp add: write_fits_def len tempfs_inv_def word_le_nat_alt max_absorb1)
    then show ?thesis using finish [OF write_inside [OF inv sz(2) node sz(1) True] wrote_inside [OF inv node sz True]] by simp
  next
    case False
    then have grow: "unat sz < unat p + length b" by simp
    have p': "unat p \<le> unat sz" using p len by (simp add: xs_def)
    have max: "max (length xs) (unat p + length b) = unat p + length b" using grow by (simp add: len)
    note w = write_growing [OF inv sz(2) node sz(1) p' grow small, of realloc_ok]
    show ?thesis
    proof (cases "write_fits realloc_ok (unat sz) (unat p + length b) fs")
      case True
      then show ?thesis
        using finish [OF w [simplified True if_True] wrote_growing [OF inv node sz p' grow small True]] max len by simp
    next
      case False
      then show ?thesis using w max by (simp add: len)
    qed
  qed
qed

definition example_fs :: TempFs where
  "example_fs = \<lparr>tfs_capacity = 1024, tfs_used = 512, tfs_root = 1,
     tfs_heap = Map.empty(1 \<mapsto> TempDir (empty_children[3 := (''notes'', 2)]),
       2 \<mapsto> TempFile 512 3 ([104, 105, 33] @ replicate 509 0))\<rparr>"

definition example_file :: "unit temp_inode" where
  "example_file = fill_inode 2 (TempFile 512 3 ([104, 105, 33] @ replicate 509 0))"

lemma example_fs_ok: "tempfs_inv example_fs" "tempfs_open_file example_file example_fs"
  "file_bytes example_fs (inode_id example_file) = [104, 105, 33]"
proof -
  have "dom (tfs_heap example_fs) = {1, 2}" by (auto simp: example_fs_def split: if_splits)
  then show "tempfs_inv example_fs"
    by (simp add: tempfs_inv_def heap_bytes_def)
      (simp add: example_fs_def allocated_bytes_def file_ok_def file_blocks_def)
  show "tempfs_open_file example_file example_fs"
    by (simp add: tempfs_open_file_def example_file_def fill_inode_def node_type_def example_fs_def)
  show "file_bytes example_fs (inode_id example_file) = [104, 105, 33]"
    by (simp add: file_bytes_def example_file_def fill_inode_def example_fs_def)
qed

text \<open>Appending two bytes to the example file.\<close>

theorem tempfs_write_read_witness:
  "\<exists>self' fs'. tempfs_file_inode_write True example_file 3 [33, 10] example_fs = Some (2, self', fs') \<and>
     file_bytes fs' 2 = [104, 105, 33, 33, 10] \<and> tempfs_file_inode_read self' 1 2 fs' = Some [105, 33]"
proof -
  have id: "inode_id example_file = 2" by (simp add: example_file_def fill_inode_def)
  have "write_fits True (Suc (Suc (Suc 0))) 5 example_fs" by (simp add: write_fits_def example_fs_def file_blocks_def)
  then obtain self' fs' where "tempfs_file_inode_write True example_file 3 [33, 10] example_fs = Some (2, self', fs')"
      "file_bytes fs' 2 = [104, 105, 33, 33, 10]"
      "\<forall>q m. unat q \<le> 5 \<longrightarrow> tempfs_file_inode_read self' q m fs' = Some (take (unat m) (drop (unat q) [104, 105, 33, 33, 10]))"
    using tempfs_write_read [OF example_fs_ok(1,2), of 3 "[33, 10]" True]
    by (auto simp: example_fs_ok(3) [unfolded id] id overwrite_def)
  then show ?thesis by (intro exI [of _ self'] exI [of _ fs']) simp
qed

lemma empty_children_eq:
  "empty_children = [([], 0), ([], 0), ([], 0), ([], 0), ([], 0), ([], 0), ([], 0), ([], 0),
     ([], 0), ([], 0), ([], 0), ([], 0), ([], 0), ([], 0), ([], 0), ([], 0)]"
  by (simp add: empty_children_def MAX_CHILDREN_def numeral_eq_Suc)

subsection \<open>The account of the blocks\<close>

text \<open>
  What can happen to a mounted filesystem: files and directories are created at fresh addresses, open files are
  written, names are removed.
\<close>

inductive tempfs_reach :: "TempFs \<Rightarrow> bool" where
  mkfs: "root \<noteq> 0 \<Longrightarrow> tempfs_reach (tempfs_create root capacity)"
| mknod: "tempfs_reach fs \<Longrightarrow> tfs_heap fs new = None \<Longrightarrow>
    tempfs_dir_create new (self :: unit temp_inode) name type fs = Some (Inr (child, self', fs')) \<Longrightarrow> tempfs_reach fs'"
| store: "tempfs_reach fs \<Longrightarrow> tempfs_open_file (self :: unit temp_inode) fs \<Longrightarrow> unat p \<le> length (file_bytes fs (inode_id self)) \<Longrightarrow>
    unat p + length b < 2 ^ 31 \<Longrightarrow>
    tempfs_file_inode_write realloc_ok self p b fs = Some (rc, self', fs') \<Longrightarrow> tempfs_reach fs'"
| unlink: "tempfs_reach fs \<Longrightarrow> tempfs_dir_unlink (self :: unit temp_inode) name fs = Some (rc, fs') \<Longrightarrow> tempfs_reach fs'"

lemma create_inv: "tempfs_inv (tempfs_create root capacity)"
  using unat_u32_less [of capacity]
  by (auto simp: tempfs_inv_def tempfs_create_def heap_bytes_def allocated_bytes_def file_ok_def)

lemma set_dir_inv:
  assumes "tempfs_inv fs" and "allocated_bytes (tfs_heap fs a) = 0" and "allocated_bytes (Some node) = 0" and "file_ok node"
  shows "tempfs_inv (fs\<lparr>tfs_heap := (tfs_heap fs)(a \<mapsto> node)\<rparr>)"
  using set_node_inv [of fs node "tfs_used fs" a] assms by (simp add: tempfs_inv_def)

lemma dir_create_inv:
  assumes inv: "tempfs_inv fs" and new: "tfs_heap fs new = None"
    and c: "tempfs_dir_create new self name type fs = Some (Inr (child, self', fs'))"
  shows "tempfs_inv fs'"
proof -
  obtain children node i where dir: "tfs_heap fs (inode_id self) = Some (TempDir children)"
      and node: "node = TempFile 0 0 [] \<or> node = TempDir empty_children"
      and fs': "fs' = fs\<lparr>tfs_heap := (tfs_heap fs)(new \<mapsto> node,
         inode_id self \<mapsto> TempDir (children[i := (take MAX_NAME_LEN name, new)]))\<rparr>"
    using c by (auto simp: tempfs_dir_create_def dir_of_def Let_def bind_eq_Some_conv
        split: if_splits option.splits TempInode.splits)
  have zero: "allocated_bytes (Some node) = 0" "file_ok node"
    using node by (auto simp: allocated_bytes_def file_ok_def file_blocks_def)
  let ?fs = "fs\<lparr>tfs_heap := (tfs_heap fs)(new \<mapsto> node)\<rparr>"
  have inv1: "tempfs_inv ?fs" using zero by (intro set_dir_inv [OF inv]) (simp_all add: new allocated_bytes_def)
  have "new \<noteq> inode_id self" using new dir by auto
  then have "allocated_bytes (tfs_heap ?fs (inode_id self)) = 0" by (simp add: dir allocated_bytes_def)
  from set_dir_inv [OF inv1 this, of "TempDir (children[i := (take MAX_NAME_LEN name, new)])"]
  show ?thesis by (simp add: fs' allocated_bytes_def file_ok_def)
qed

lemma unlink_cases:
  assumes u: "tempfs_dir_unlink self name fs = Some (rc, fs')"
  obtains (refused) "fs' = fs" and "rc \<noteq> 0"
  | (removed) children n a node where "tfs_heap fs (inode_id self) = Some (TempDir children)"
      and "List.find (\<lambda>(n, a). a \<noteq> 0 \<and> n = name) children = Some (n, a)" and "tfs_heap fs a = Some node"
      and "fs' = fs\<lparr>tfs_used := tfs_used fs - (case node of TempFile al _ _ \<Rightarrow> ucast al | TempDir _ \<Rightarrow> 0),
             tfs_heap := (tfs_heap fs)(a := None)\<rparr>"
      and "\<And>grandchildren. node = TempDir grandchildren \<Longrightarrow> \<not> list_ex (\<lambda>(_, a). a \<noteq> 0) grandchildren"
proof -
  show thesis
  proof (cases "tfs_root fs = inode_id self")
    case True
    then show thesis using u refused by (auto simp: tempfs_dir_unlink_def)
  next
    case False
    then obtain children where dir: "tfs_heap fs (inode_id self) = Some (TempDir children)"
      using u by (auto simp: tempfs_dir_unlink_def dir_of_def bind_eq_Some_conv split: option.splits TempInode.splits)
    show thesis
    proof (cases "List.find (\<lambda>(n, a). a \<noteq> 0 \<and> n = name) children")
      case None
      then show thesis using u refused False dir by (auto simp: tempfs_dir_unlink_def dir_of_def)
    next
      case (Some e)
      then obtain n a node where e: "e = (n, a)" and node: "tfs_heap fs a = Some node"
        using u False dir by (cases e) (auto simp: tempfs_dir_unlink_def dir_of_def bind_eq_Some_conv)
      show thesis
      proof (cases node)
        case (TempFile al sz bytes)
        then show thesis using u False dir Some e node removed [of children n a node]
          by (auto simp: tempfs_dir_unlink_def dir_of_def)
      next
        case (TempDir grandchildren)
        show thesis
        proof (cases "list_ex (\<lambda>(_, a). a \<noteq> 0) grandchildren")
          case True
          then show thesis using u False dir Some e node TempDir refused
            by (auto simp: tempfs_dir_unlink_def dir_of_def)
        next
          case no: False
          then show thesis using u False dir Some e node TempDir removed [of children n a node]
            by (auto simp: tempfs_dir_unlink_def dir_of_def)
        qed
      qed
    qed
  qed
qed

lemma unlink_inv:
  assumes inv: "tempfs_inv fs" and u: "tempfs_dir_unlink self name fs = Some (rc, fs')"
  shows "tempfs_inv fs'"
proof -
  have del: "tempfs_inv (fs\<lparr>tfs_used := tfs_used fs - ucast al, tfs_heap := (tfs_heap fs)(a := None)\<rparr>)"
    if "allocated_bytes (tfs_heap fs a) = unat al" for a and al :: u32
  proof -
    have fin: "finite (dom (tfs_heap fs))" using inv by (simp add: tempfs_inv_def)
    have "unat al \<le> unat (tfs_used fs)"
      using allocated_le_heap [OF fin, of a] inv that by (simp add: tempfs_inv_def)
    then have sub: "unat (tfs_used fs - ucast al) = unat (tfs_used fs) - unat al"
      by (subst unat_sub_u64) (simp_all add: word_le_nat_alt)
    then have "tfs_used fs - ucast al \<le> tfs_capacity fs" using inv by (auto simp: tempfs_inv_def word_le_nat_alt)
    then show ?thesis using inv heap_bytes_del [OF fin, of a] that sub by (auto simp: tempfs_inv_def)
  qed
  show ?thesis
    using u
  proof (cases rule: unlink_cases)
    case refused
    then show ?thesis using inv by simp
  next
    case (removed children n a node)
    then show ?thesis
      using del [of a "case node of TempFile al _ _ \<Rightarrow> al | TempDir _ \<Rightarrow> 0"]
      by (cases node) (auto simp: allocated_bytes_def)
  qed
qed

lemma write_inv:
  assumes "tempfs_inv fs" and "tempfs_open_file self fs" and "unat p \<le> length (file_bytes fs (inode_id self))"
    and "unat p + length b < 2 ^ 31" and "tempfs_file_inode_write realloc_ok self p b fs = Some (rc, self', fs')"
  shows "tempfs_inv fs'"
  using tempfs_write_read [OF assms(1-4), of realloc_ok] assms(1,5) by (auto split: if_splits)

text \<open>
  C26: In every state that a temporary filesystem reaches, the bytes counted as used are exactly the blocks that its
  files occupy, every file occupies just enough blocks for its size, and the capacity is not exceeded.
\<close>
theorem tempfs_accounting:
  assumes "tempfs_reach fs"
  shows "unat (tfs_used fs) = (\<Sum>a\<in>dom (tfs_heap fs). allocated_bytes (tfs_heap fs a)) \<and>
    tfs_used fs \<le> tfs_capacity fs \<and>
    (tfs_heap fs a = Some (TempFile allocated sz bytes) \<longrightarrow>
       length bytes = unat allocated \<and> unat allocated = file_blocks (unat sz))"
proof -
  have "tempfs_inv fs"
    using assms
  proof induction
    case (mkfs root capacity)
    show ?case by (rule create_inv)
  next
    case (mknod fs new self name type child self' fs')
    then show ?case using dir_create_inv by blast
  next
    case (store fs self p b realloc_ok rc self' fs')
    then show ?case using write_inv by blast
  next
    case (unlink fs self name rc fs')
    then show ?case using unlink_inv by blast
  qed
  then show ?thesis by (auto simp: tempfs_inv_def heap_bytes_def file_ok_def split: TempInode.splits)
qed


theorem tempfs_accounting_witness:
  "\<exists>fs. tempfs_reach fs \<and> unat (tfs_used fs) = (\<Sum>a\<in>dom (tfs_heap fs). allocated_bytes (tfs_heap fs a)) \<and>
     tfs_heap fs 2 = Some (TempFile 0 0 [])"
proof -
  let ?fs = "tempfs_create 1 4096"
  have "tempfs_reach ?fs" by (rule tempfs_reach.mkfs) simp
  moreover have new: "tfs_heap ?fs 2 = None" by (simp add: tempfs_create_def)
  moreover have "\<exists>child self' fs'. tempfs_dir_create 2 (tempfs_fs_on_mount ?fs :: unit temp_inode) ''f'' RegularFile ?fs =
      Some (Inr (child, self', fs')) \<and> tfs_heap fs' 2 = Some (TempFile 0 0 [])"
    by (simp add: tempfs_dir_create_def tempfs_fs_on_mount_def tempfs_create_def dir_of_def
        empty_children_eq MAX_CHILDREN_def MAX_NAME_LEN_def Let_def)
  then obtain child self' fs' where
      c: "tempfs_dir_create 2 (tempfs_fs_on_mount ?fs :: unit temp_inode) ''f'' RegularFile ?fs = Some (Inr (child, self', fs'))"
      "tfs_heap fs' 2 = Some (TempFile 0 0 [])" by blast
  ultimately have "tempfs_reach fs'" by (blast intro: tempfs_reach.mknod)
  from tempfs_accounting [OF this] this c(2) show ?thesis by blast
qed

subsection \<open>Names\<close>

lemma find_free_slot_None:
  "find_free_slot name i free children = None \<longleftrightarrow> (\<exists>(n, a)\<in>set children. a \<noteq> 0 \<and> n = name)"
  by (induction name i free children rule: find_free_slot.induct) auto

lemma find_free_slot_Some:
  "find_free_slot name i free children = Some j \<Longrightarrow>
   (j = free \<and> (\<forall>(n, a)\<in>set children. a \<noteq> 0)) \<or>
   (i \<le> j \<and> j < i + length children \<and> snd (children ! (j - i)) = 0)"
proof (induction name i free children rule: find_free_slot.induct)
  case (2 name i free n a children)
  show ?case
  proof (cases "a = 0")
    case True
    then show ?thesis using "2.IH"(1) "2.prems" by (cases "j = i") (auto simp: Suc_diff_le)
  next
    case False
    then show ?thesis using "2.IH"(2) "2.prems" by (auto simp: Suc_diff_le split: if_splits)
  qed
qed simp

lemma find_update_free:
  assumes "i < length children" and "snd (children ! i) = 0" and "name \<noteq> other"
  shows "List.find (\<lambda>(n, a). a \<noteq> 0 \<and> n = other) (children[i := (name, new)]) =
    List.find (\<lambda>(n, a). a \<noteq> 0 \<and> n = other) children"
  using assms by (induction children arbitrary: i) (auto split: nat.splits)

lemma find_update_new:
  assumes "i < length children" and "new \<noteq> 0" and "\<not> (\<exists>(n, a)\<in>set children. a \<noteq> 0 \<and> n = name)"
  shows "List.find (\<lambda>(n, a). a \<noteq> 0 \<and> n = name) (children[i := (name, new)]) = Some (name, new)"
  using assms by (induction children arbitrary: i) (auto split: nat.splits)

text \<open>A directory whose entries all point to nodes.\<close>

definition tempfs_directory :: "'c temp_inode \<Rightarrow> TempFs \<Rightarrow> (string \<times> u64) list \<Rightarrow> bool" where
  "tempfs_directory self fs children \<longleftrightarrow> inode_type self = Directory \<and> dir_of self fs = Some children \<and>
     length children = MAX_CHILDREN \<and> (\<forall>(n, a)\<in>set children. a \<noteq> 0 \<longrightarrow> a \<in> dom (tfs_heap fs))"

text \<open>The entry that \<^verbatim>\<open>tempfs_dir_create\<close> puts into a free slot.\<close>

definition new_node :: "InodeType \<Rightarrow> TempInode" where
  "new_node type = (if type = RegularFile then TempFile 0 0 [] else TempDir empty_children)"

lemma lookup_children:
  assumes "tempfs_directory self fs children"
  shows "tempfs_dir_inode_lookup self name fs =
    (case List.find (\<lambda>(n, a). a \<noteq> 0 \<and> n = name) children of
       None \<Rightarrow> Some (Inl ERR_NOENT)
     | Some (n, a) \<Rightarrow> map_option (\<lambda>node. Inr (fill_inode a node)) (tfs_heap fs a))"
  using assms
  by (auto simp: tempfs_directory_def tempfs_dir_inode_lookup_def map_option_case split: option.splits)

lemma created_entry:
  fixes node :: TempInode
  assumes dir: "tempfs_directory self fs children" and new: "new \<noteq> 0" "tfs_heap fs new = None"
    and i: "i < length children" "snd (children ! i) = 0"
    and fresh: "\<not> (\<exists>(n, a)\<in>set children. a \<noteq> 0 \<and> n = name)"
    and self': "inode_id self' = inode_id self" "inode_type self' = inode_type self"
  defines "fs' \<equiv> fs\<lparr>tfs_heap := (tfs_heap fs)(new \<mapsto> node, inode_id self \<mapsto> TempDir (children[i := (name, new)]))\<rparr>"
  shows "tempfs_directory self' fs' (children[i := (name, new)])"
    and "tempfs_dir_inode_lookup self' name fs' = Some (Inr (fill_inode new node))"
    and "other \<noteq> name \<Longrightarrow> tempfs_dir_inode_lookup self' other fs' = tempfs_dir_inode_lookup self other fs"
proof -
  have d: "inode_type self = Directory" "tfs_heap fs (inode_id self) = Some (TempDir children)"
    "length children = MAX_CHILDREN" "\<And>n a. (n, a) \<in> set children \<Longrightarrow> a \<noteq> 0 \<Longrightarrow> a \<in> dom (tfs_heap fs)"
    using dir by (auto simp: tempfs_directory_def dir_of_def split: option.splits TempInode.splits)
  have "a \<in> dom (tfs_heap fs')" if "(n, a) \<in> set (children[i := (name, new)])" "a \<noteq> 0" for n a
    using that d(4) set_update_subset_insert [of children i "(name, new)"] by (auto simp: fs'_def)
  then show dir': "tempfs_directory self' fs' (children[i := (name, new)])"
    using d self' by (auto simp: tempfs_directory_def dir_of_def fs'_def)
  have neq: "new \<noteq> inode_id self" using new(2) d(2) by auto
  then show "tempfs_dir_inode_lookup self' name fs' = Some (Inr (fill_inode new node))"
    using find_update_new [OF i(1) new(1) fresh] unfolding lookup_children [OF dir'] by (simp add: fs'_def)
  assume other: "other \<noteq> name"
  have "map_option (\<lambda>node. Inr (fill_inode a node)) (tfs_heap fs' a) =
      map_option (\<lambda>node. Inr (fill_inode a node)) (tfs_heap fs a)"
    if "List.find (\<lambda>(n, a). a \<noteq> 0 \<and> n = other) children = Some (n, a)" for n a
  proof -
    have "(n, a) \<in> set children" "a \<noteq> 0" using that by (auto simp: find_Some_iff dest: nth_mem)
    then have "a \<in> dom (tfs_heap fs)" using d(4) by blast
    then have "a \<noteq> new" using new(2) by auto
    then show ?thesis using d(2) by (auto simp: fs'_def fill_inode_def node_type_def)
  qed
  then show "tempfs_dir_inode_lookup self' other fs' = tempfs_dir_inode_lookup self other fs"
    unfolding lookup_children [OF dir'] lookup_children [OF dir] find_update_free [OF i other [symmetric]]
    by (auto split: option.splits)
qed

text \<open>
  Creating a name in a directory is refused exactly when the name exists or all sixteen slots are in use;
  otherwise the new name is found afterwards, every other name is found as before, and the directory still has
  no dangling entry.
\<close>
theorem tempfs_create_lookup:
  assumes dir: "tempfs_directory self fs children" and type: "type = RegularFile \<or> type = Directory"
    and name: "length name \<le> MAX_NAME_LEN" and new: "new \<noteq> 0" "tfs_heap fs new = None"
  shows "if \<exists>(n, a)\<in>set children. a \<noteq> 0 \<and> n = name then tempfs_dir_create new self name type fs = Some (Inl ERR_EXIST)
    else if \<forall>(n, a)\<in>set children. a \<noteq> 0 then tempfs_dir_create new self name type fs = Some (Inl ERR_NOSPACE)
    else \<exists>child self' fs' children'. tempfs_dir_create new self name type fs = Some (Inr (child, self', fs')) \<and>
      inode_type child = type \<and> tempfs_directory self' fs' children' \<and>
      tempfs_dir_inode_lookup self' name fs' = Some (Inr child) \<and>
      (\<forall>other. other \<noteq> name \<longrightarrow> tempfs_dir_inode_lookup self' other fs' = tempfs_dir_inode_lookup self other fs)"
proof -
  have d: "inode_type self = Directory" "dir_of self fs = Some children" "length children = MAX_CHILDREN"
    using dir by (auto simp: tempfs_directory_def)
  have take: "take MAX_NAME_LEN name = name" using name by simp
  show ?thesis
  proof (cases "find_free_slot name 0 MAX_CHILDREN children")
    case None
    then show ?thesis using find_free_slot_None [of name 0 MAX_CHILDREN children] name new(1) type d
      by (auto simp: tempfs_dir_create_def)
  next
    case (Some i)
    then have fresh: "\<not> (\<exists>(n, a)\<in>set children. a \<noteq> 0 \<and> n = name)"
      using find_free_slot_None [of name 0 MAX_CHILDREN children] by simp
    show ?thesis
    proof (cases "i = MAX_CHILDREN")
      case True
      then have "\<forall>(n, a)\<in>set children. a \<noteq> 0" using find_free_slot_Some [OF Some] d(3) by auto
      then show ?thesis using fresh Some True name new(1) type d by (auto simp: tempfs_dir_create_def)
    next
      case False
      then have i: "i < length children" "snd (children ! i) = 0" using find_free_slot_Some [OF Some] by auto
      then have "(fst (children ! i), 0) \<in> set children" using nth_mem [OF i(1)] by (metis prod.collapse)
      then have not_full: "\<not> (\<forall>(n, a)\<in>set children. a \<noteq> 0)" by auto
      have "inode_type (fill_inode new (new_node type)) = type"
        using type by (auto simp: new_node_def fill_inode_def node_type_def)
      moreover obtain self' fs' where
        "tempfs_dir_create new self name type fs = Some (Inr (fill_inode new (new_node type), self', fs'))"
        and self': "inode_id self' = inode_id self" "inode_type self' = inode_type self" and fs': "fs' = fs\<lparr>tfs_heap :=
            (tfs_heap fs)(new \<mapsto> new_node type, inode_id self \<mapsto> TempDir (children[i := (name, new)]))\<rparr>"
        using name type new False Some d by (auto simp: tempfs_dir_create_def take Let_def new_node_def)
      ultimately show ?thesis
        using fresh not_full created_entry [where node = "new_node type", OF dir new i fresh self', folded fs'] by auto
    qed
  qed
qed

theorem tempfs_create_lookup_witness:
  "\<exists>child self' fs'. tempfs_dir_create 3 (tempfs_fs_on_mount example_fs :: unit temp_inode) ''todo'' RegularFile example_fs =
       Some (Inr (child, self', fs')) \<and> tempfs_dir_inode_lookup self' ''todo'' fs' = Some (Inr child)"
proof -
  let ?children = "empty_children[3 := (''notes'', 2)]"
  have c: "?children = replicate 3 ([], 0) @ (''notes'', 2) # replicate 12 ([], 0)"
    by (simp add: empty_children_def MAX_CHILDREN_def numeral_eq_Suc)
  have dir: "tempfs_directory (tempfs_fs_on_mount example_fs :: unit temp_inode) example_fs ?children"
    unfolding tempfs_directory_def c
    by (simp add: tempfs_fs_on_mount_def example_fs_def dir_of_def c MAX_CHILDREN_def)
  have n: "\<not> (\<exists>(n, a)\<in>set ?children. a \<noteq> 0 \<and> n = ''todo'')" "\<not> (\<forall>(n, a)\<in>set ?children. a \<noteq> 0)"
    unfolding c by auto
  have new: "tfs_heap example_fs 3 = None" by (simp add: example_fs_def)
  show ?thesis
    using tempfs_create_lookup [OF dir, of RegularFile "''todo''" 3, OF _ _ _ new]
    unfolding if_not_P [OF n(1)] if_not_P [OF n(2)] by (auto simp: MAX_NAME_LEN_def)
qed

text \<open>
  \<^verbatim>\<open>tempfs_dir_unlink\<close> frees the node but leaves its slot in use: after every successful removal, looking
  the name up again follows the pointer to the freed node.
\<close>
theorem tempfs_unlink_dangling:
  assumes "tempfs_dir_unlink self name fs = Some (0, fs')"
  shows "tempfs_dir_inode_lookup self name fs' = None"
  using assms
proof (cases rule: unlink_cases)
  case (removed children n a node)
  have "(n, a) \<in> set children" "a \<noteq> 0" using removed(2) by (auto simp: find_Some_iff in_set_conv_nth)
  then have "a \<noteq> inode_id self" using removed(1,3,5) by (auto simp: list_ex_iff)
  then show ?thesis using removed(1,2,4) by (simp add: tempfs_dir_inode_lookup_def dir_of_def)
qed simp

text \<open>Removing \<open>notes\<close> from a directory below the root.\<close>

theorem tempfs_unlink_dangling_witness:
  "\<exists>fs'. tempfs_dir_unlink (tempfs_fs_on_mount example_fs :: unit temp_inode) ''notes'' (example_fs\<lparr>tfs_root := 7\<rparr>) = Some (0, fs') \<and>
     tempfs_dir_inode_lookup (tempfs_fs_on_mount example_fs :: unit temp_inode) ''notes'' fs' = None"
proof -
  have "\<exists>fs'. tempfs_dir_unlink (tempfs_fs_on_mount example_fs :: unit temp_inode) ''notes'' (example_fs\<lparr>tfs_root := 7\<rparr>) = Some (0, fs')"
    by (simp add: tempfs_dir_unlink_def tempfs_fs_on_mount_def example_fs_def dir_of_def empty_children_eq)
  then show ?thesis using tempfs_unlink_dangling by blast
qed

end
