(* ===== verification/PtyFs.thy ===== *)
theory PtyFs
  imports Tty Ctype
begin

text \<open>
  The filesystem of the pseudo terminals (\<^verbatim>\<open>kernel/vfs/ptyfs/ptyfs.cpp\<close>).  The arrays of masters and slaves are one
  list, because a slave is a member of its master: the slots are set and freed together.  The memory that a new
  terminal gets, \<open>raw\<close>, and whether there is any are parameters.  \<open>None\<close> is a failing assertion or a null pointer
  that is followed.
\<close>

text \<open>An inode of a terminal has no context; its pointer has the type that the contexts of pipes have.\<close>

type_synonym pty_node = "u8 ring_buffer option Inode"

record pty_pair =
  pair_tty :: pty
  m_ptyid :: u8
  m_closed :: bool
  slave_open :: bool

definition MAX_OPEN_PTYS :: nat where "MAX_OPEN_PTYS = 16"
definition ROOT_INODE_ID :: u64 where "ROOT_INODE_ID = 32"

record PtyfsFilesystemCtx =
  ptys :: "pty_pair option list"

definition ptyfs_create :: "bool \<Rightarrow> Errors + PtyfsFilesystemCtx" where
  "ptyfs_create malloc_ok =
     (if \<not> malloc_ok then Inl ERR_NOMEM else Inr \<lparr>ptys = replicate MAX_OPEN_PTYS None\<rparr>)"

definition get_pty_master_inode_id :: "nat \<Rightarrow> u64" where
  "get_pty_master_inode_id pty_id = of_nat pty_id"

definition get_pty_slave_inode_id :: "nat \<Rightarrow> u64" where
  "get_pty_slave_inode_id pty_id = of_nat (pty_id + MAX_OPEN_PTYS)"

text \<open>The slot of an inode, and whether the inode is the master.\<close>

definition pty_slot :: "u64 \<Rightarrow> (nat \<times> bool) option" where
  "pty_slot identifier = do {
     kassert (identifier < 2 * of_nat MAX_OPEN_PTYS);
     Some (if unat identifier < MAX_OPEN_PTYS then (unat identifier, True) else (unat identifier - MAX_OPEN_PTYS, False))
   }"

definition get_device_by_inode :: "pty_node \<Rightarrow> PtyfsFilesystemCtx \<Rightarrow> (pty_pair \<times> nat \<times> bool) option" where
  "get_device_by_inode inode ctx = do {
     (i, is_master) \<leftarrow> pty_slot (inode_id inode);
     pair \<leftarrow> ptys ctx ! i;
     Some (pair, i, is_master)
   }"

definition set_pty :: "nat \<Rightarrow> pty_pair option \<Rightarrow> PtyfsFilesystemCtx \<Rightarrow> PtyfsFilesystemCtx" where
  "set_pty i pair ctx = ctx\<lparr>ptys := (ptys ctx)[i := pair]\<rparr>"

text \<open>A new master with its slave.\<close>

definition new_pty :: "u8 list \<Rightarrow> u8 \<Rightarrow> pty_pair" where
  "new_pty raw ptyid = \<lparr>pair_tty = new_tty raw \<lparr>rb_data = raw, read_pos = 0, write_pos = 0, rb_count = 0\<rparr>,
     m_ptyid = ptyid, m_closed = False, slave_open = False\<rparr>"

definition create_pty_pair :: "bool \<Rightarrow> u8 list \<Rightarrow> nat \<Rightarrow> PtyfsFilesystemCtx \<Rightarrow> int \<times> PtyfsFilesystemCtx" where
  "create_pty_pair malloc_ok raw pty_id ctx =
     (if \<not> malloc_ok then (- errno ERR_NOMEM, ctx) else (0, set_pty pty_id (Some (new_pty raw (of_nat pty_id))) ctx))"

subsection \<open>Directory operations\<close>

definition pty_inode :: "u64 \<Rightarrow> pty_node" where
  "pty_inode identifier = \<lparr>refcount = 1, inode_type = CharacterDevice, inode_id = identifier,
     devmajor = 0, devminor = 0, inode_mode = 438, inode_uid = 0, inode_gid = 0, inode_size = 0,
     access_time = no_time, creation_time = no_time, modification_time = no_time, blksize = 1, opaque = None\<rparr>"

definition ptyfs_dir_inode_lookup_ptmx :: "PtyfsFilesystemCtx \<Rightarrow> Errors + pty_node" where
  "ptyfs_dir_inode_lookup_ptmx ctx = (
     let pty_id = length (takeWhile (\<lambda>p. p \<noteq> None) (ptys ctx))
     in if pty_id = length (ptys ctx) then Inl ERR_NOENT else Inr (pty_inode (get_pty_master_inode_id pty_id)))"

definition ptyfs_dir_inode_lookup_pty :: "i32 \<Rightarrow> PtyfsFilesystemCtx \<Rightarrow> Errors + pty_node" where
  "ptyfs_dir_inode_lookup_pty n ctx =
     (if sint n < 0 \<or> sint n \<ge> int MAX_OPEN_PTYS \<or> ptys ctx ! unat n = None then Inl ERR_NOENT
      else Inr (pty_inode (get_pty_slave_inode_id (unat n))))"

text \<open>
  \<^verbatim>\<open>sscanf(name, "pty%u", &pty_id)\<close>: the three letters, then what \<^verbatim>\<open>strtoul\<close> accepts; what follows the digits is
  ignored, a number that is too large becomes the largest one.
\<close>

definition scan_unsigned :: "string \<Rightarrow> u32 option" where
  "scan_unsigned s = (
     let s = dropWhile is_space s;
         negative = (s \<noteq> [] \<and> hd s = CHR ''-'');
         s = (if s \<noteq> [] \<and> hd s \<in> {CHR ''-'', CHR ''+''} then tl s else s);
         ds = takeWhile is_digit s;
         n = foldl (\<lambda>n c. 10 * n + (of_char c - 48)) 0 ds :: nat
     in if ds = [] then None
        else Some (if n \<ge> 2 ^ 32 then - 1 else if negative then - of_nat n else of_nat n))"

definition ptyfs_dir_inode_lookup :: "string \<Rightarrow> PtyfsFilesystemCtx \<Rightarrow> Errors + pty_node" where
  "ptyfs_dir_inode_lookup name ctx =
     (if name = ''ptmx'' then ptyfs_dir_inode_lookup_ptmx ctx
      else if take 3 name = ''pty'' then
        (case scan_unsigned (drop 3 name) of
           None \<Rightarrow> Inl ERR_NOENT
         | Some n \<Rightarrow> ptyfs_dir_inode_lookup_pty n ctx)
      else Inl ERR_NOENT)"

definition ptyfs_dir_inode_getdents :: int where
  "ptyfs_dir_inode_getdents = 0"

definition ptyfs_fs_on_mount :: "pty_node" where
  "ptyfs_fs_on_mount = \<lparr>refcount = 0, inode_type = Directory, inode_id = ROOT_INODE_ID,
     devmajor = 0, devminor = 0, inode_mode = 0, inode_uid = 0, inode_gid = 0, inode_size = 0,
     access_time = no_time, creation_time = no_time, modification_time = no_time, blksize = 1, opaque = None\<rparr>"

subsection \<open>File operations\<close>

definition ptyfs_file_inode_read :: "pty_node \<Rightarrow> nat \<Rightarrow> PtyfsFilesystemCtx \<Rightarrow> (u8 list \<times> PtyfsFilesystemCtx) option" where
  "ptyfs_file_inode_read inode n ctx = do {
     (pair, i, is_master) \<leftarrow> get_device_by_inode inode ctx;
     (bytes, p) \<leftarrow> (if is_master then Some (pty_master_read n (pair_tty pair)) else tty_read n (pair_tty pair));
     Some (bytes, set_pty i (Some (pair\<lparr>pair_tty := p\<rparr>)) ctx)
   }"

definition ptyfs_file_inode_write :: "pty_node \<Rightarrow> u8 list \<Rightarrow> PtyfsFilesystemCtx \<Rightarrow> (int \<times> PtyfsFilesystemCtx) option" where
  "ptyfs_file_inode_write inode buffer ctx = do {
     (pair, i, is_master) \<leftarrow> get_device_by_inode inode ctx;
     let (rc, p) = (if is_master then pty_master_write buffer (pair_tty pair) else tty_write rb_push buffer (pair_tty pair));
     Some (rc, set_pty i (Some (pair\<lparr>pair_tty := p\<rparr>)) ctx)
   }"

text \<open>
  The numbers of the requests are small and overlap, so that their meaning depends on the device.  \<open>argp\<close> are the
  bytes of the caller's buffer; a structure that does not fit in it is a fault of the kernel.
\<close>

definition PTYIO_GETSLAVE :: u32 where "PTYIO_GETSLAVE = 1"

definition tty_request :: "u32 \<Rightarrow> TtyIoctl" where
  "tty_request request = (if request = 1 then TTYIO_TCGETATTR else if request = 2 then TTYIO_TCSETATTR else TTYIO_OTHER)"

definition sizeof_termios :: nat where "sizeof_termios = 48"

definition termios_bytes :: "termios \<Rightarrow> u8 list" where
  "termios_bytes t = word_bytes (c_iflag t) @ word_bytes (c_oflag t) @ word_bytes (c_cflag t) @ word_bytes (c_lflag t) @ c_cc t"

definition bytes_termios :: "u8 list \<Rightarrow> termios option" where
  "bytes_termios bs = do {
     i \<leftarrow> word_at bs 0; ou \<leftarrow> word_at bs 4; c \<leftarrow> word_at bs 8; l \<leftarrow> word_at bs 12;
     kassert (sizeof_termios \<le> length bs);
     Some \<lparr>c_iflag = i, c_oflag = ou, c_cflag = c, c_lflag = l, c_cc = take 32 (drop 16 bs)\<rparr>
   }"

definition ptyfs_file_inode_ioctl ::
  "pty_node \<Rightarrow> u32 \<Rightarrow> u8 list \<Rightarrow> PtyfsFilesystemCtx \<Rightarrow> (int \<times> u8 list \<times> PtyfsFilesystemCtx) option" where
  "ptyfs_file_inode_ioctl inode request argp ctx = do {
     (pair, i, is_master) \<leftarrow> get_device_by_inode inode ctx;
     if is_master then Some (pty_master_ioctl (request = PTYIO_GETSLAVE) (m_ptyid pair), argp, ctx)
     else if tty_request request = TTYIO_OTHER then Some (fst (tty_ioctl TTYIO_OTHER (m_termios (pair_tty pair)) (pair_tty pair)), argp, ctx)
     else do {
       t \<leftarrow> bytes_termios argp;
       let (rc, t, p) = tty_ioctl (tty_request request) t (pair_tty pair);
       Some (rc, if tty_request request = TTYIO_TCGETATTR then termios_bytes t @ drop sizeof_termios argp else argp,
         set_pty i (Some (pair\<lparr>pair_tty := p\<rparr>)) ctx)
     }
   }"

text \<open>No device of a terminal can be mapped.\<close>

definition ptyfs_file_inode_mmap :: "pty_node \<Rightarrow> PtyfsFilesystemCtx \<Rightarrow> int option" where
  "ptyfs_file_inode_mmap inode ctx = do { _ \<leftarrow> get_device_by_inode inode ctx; Some (- errno ERR_NOTSUP) }"

lemma bytes_termios_bytes: "length (c_cc t) = 32 \<Longrightarrow> bytes_termios (termios_bytes t @ ys) = Some t"
  using word_at_word_bytes [of "[]" "c_iflag t"]
    word_at_word_bytes [of "word_bytes (c_iflag t)" "c_oflag t"]
    word_at_word_bytes [of "word_bytes (c_iflag t) @ word_bytes (c_oflag t)" "c_cflag t"]
    word_at_word_bytes [of "word_bytes (c_iflag t) @ word_bytes (c_oflag t) @ word_bytes (c_cflag t)" "c_lflag t"]
  by (simp add: termios_bytes_def bytes_termios_def sizeof_termios_def kassert_def)

definition ptyfs_file_inode_seek :: u64 where
  "ptyfs_file_inode_seek = 0"

definition ptyfs_file_inode_poll :: "pty_node \<Rightarrow> u32 \<Rightarrow> u32 \<Rightarrow> PtyfsFilesystemCtx \<Rightarrow> u32 option" where
  "ptyfs_file_inode_poll inode events out_revents ctx = do {
     (pair, i, is_master) \<leftarrow> get_device_by_inode inode ctx;
     Some (if is_master then pty_master_poll events out_revents (pair_tty pair)
           else tty_poll events out_revents (pair_tty pair))
   }"

definition ptyfs_file_inode_istty :: "pty_node \<Rightarrow> int" where
  "ptyfs_file_inode_istty inode = (if inode_id inode = ROOT_INODE_ID then 0 else 1)"

subsection \<open>Opening and closing\<close>

text \<open>The result of \<^verbatim>\<open>create_pty_pair\<close> is not looked at.\<close>

definition ptyfs_fs_open_inode :: "bool \<Rightarrow> u8 list \<Rightarrow> pty_node \<Rightarrow> PtyfsFilesystemCtx \<Rightarrow> (int \<times> PtyfsFilesystemCtx) option" where
  "ptyfs_fs_open_inode malloc_ok raw inode ctx =
     (if inode_id inode = ROOT_INODE_ID then Some (0, ctx)
      else do {
        (i, is_master) \<leftarrow> pty_slot (inode_id inode);
        if is_master then Some (0, snd (create_pty_pair malloc_ok raw i ctx))
        else (case ptys ctx ! i of
                None \<Rightarrow> Some (- errno ERR_NOENT, ctx)
              | Some pair \<Rightarrow> Some (0, set_pty i (Some (pair\<lparr>slave_open := True\<rparr>)) ctx))
      })"

definition ptyfs_fs_close_inode :: "pty_node \<Rightarrow> PtyfsFilesystemCtx \<Rightarrow> (int \<times> PtyfsFilesystemCtx) option" where
  "ptyfs_fs_close_inode inode ctx =
     (if inode_id inode = ROOT_INODE_ID then Some (0, ctx)
      else do {
        (i, is_master) \<leftarrow> pty_slot (inode_id inode);
        Some (case ptys ctx ! i of
            None \<Rightarrow> (- errno ERR_NOENT, ctx)
          | Some pair \<Rightarrow>
              let pair = (if is_master then pair\<lparr>m_closed := True\<rparr> else pair\<lparr>slave_open := False\<rparr>)
              in (0, set_pty i (if m_closed pair \<and> \<not> slave_open pair then None else Some pair) ctx))
      })"

end
