(* ===== verification/VfsMounts.thy ===== *)
theory VfsMounts
  imports VfsInv TempFs PipeFs PtyFs
begin

text \<open>
  The temporary filesystem, the pipes and the pseudo terminals as operation tables of the virtual filesystem, and
  what follows for the files that are open on them.
\<close>

subsection \<open>The operation tables\<close>

text \<open>
  The state of the three filesystems.  Memory for new nodes, pipe buffers and terminals is available; a new node
  of the temporary filesystem is at the address \<open>m_new_node\<close>.
\<close>

record mounted =
  m_temp :: TempFs
  m_pipe :: PipeFSFilesystemCtx
  m_pty :: PtyfsFilesystemCtx
  m_new_node :: u64

text \<open>The bytes of a directory entry: number, type, name, and the padding of the structure.\<close>

definition dirent_bytes :: "u64 \<times> bool \<times> string \<Rightarrow> u8 list" where
  "dirent_bytes entry = (case entry of (ino, is_dir, name) \<Rightarrow>
     map (\<lambda>k. ucast (drop_bit (8 * k) ino)) [0..<8] @ [if is_dir then 4 else 8] @
     take 256 (map of_char name @ replicate 256 0) @ replicate 7 0)"

definition temp_ops :: "(u8 ring_buffer option, mounted) fs_ops" where
  "temp_ops = \<lparr>
     op_on_mount = \<lambda>m. Some (tempfs_fs_on_mount (m_temp m), m),
     op_open_inode = \<lambda>inode m. Some (0, inode, m),
     op_close_inode = \<lambda>inode m. Some (0, inode, m),
     op_lookup = \<lambda>dir name m. map_option (\<lambda>r. (r, m)) (tempfs_dir_inode_lookup dir name (m_temp m)),
     op_create = \<lambda>dir name type m.
       (case tempfs_dir_create (m_new_node m) dir name type (m_temp m) of
          None \<Rightarrow> None
        | Some (Inl err) \<Rightarrow> Some (Inl err, dir, m)
        | Some (Inr (child, dir, fs)) \<Rightarrow> Some (Inr child, dir, m\<lparr>m_temp := fs, m_new_node := m_new_node m + 1\<rparr>)),
     op_getdents = \<lambda>dir pos n m. map_option (\<lambda>(rc, entries). (rc, concat (map dirent_bytes entries)))
       (tempfs_dir_getdents dir (uint pos) (unat n) (m_temp m)),
     op_read = \<lambda>inode pos len m. map_option (\<lambda>bytes. (int (length bytes), bytes, inode, m))
       (tempfs_file_inode_read inode pos len (m_temp m)),
     op_write = \<lambda>inode pos buffer m. map_option (\<lambda>(rc, inode, fs). (rc, inode, m\<lparr>m_temp := fs\<rparr>))
       (tempfs_file_inode_write True inode pos buffer (m_temp m)),
     op_seek = tempfs_file_inode_seek,
     op_poll = \<lambda>inode events revents m. Some (0, fs_file_inode_poll_always_ready events),
     op_istty = \<lambda>inode m. Some fs_file_inode_istty_always_false,
     op_ioctl = \<lambda>inode request argp m. Some (fs_inode_ioctl_not_supported, argp, m),
     op_mmap = \<lambda>inode vaddr len flags m. Some fs_file_inode_mmap_not_supported\<rparr>"

definition pipe_memory :: "u8 ring_buffer" where
  "pipe_memory = \<lparr>rb_data = replicate 4096 0, read_pos = 0, write_pos = 0, rb_count = 0\<rparr>"

definition pipe_ops :: "(u8 ring_buffer option, mounted) fs_ops" where
  "pipe_ops = \<lparr>
     op_on_mount = \<lambda>m. Some (pipefs_fs_on_mount, m),
     op_open_inode = \<lambda>inode m. (case pipefs_fs_open_inode True pipe_memory inode of
         Inl err \<Rightarrow> Some (- errno err, inode, m) | Inr inode \<Rightarrow> Some (0, inode, m)),
     op_close_inode = \<lambda>inode m. Some (0, pipefs_fs_close_inode inode, m),
     op_lookup = \<lambda>dir name m. (case pipefs_dir_inode_lookup dir name (m_pipe m) of
         Inl err \<Rightarrow> Some (Inl err, m) | Inr (inode, fs) \<Rightarrow> Some (Inr inode, m\<lparr>m_pipe := fs\<rparr>)),
     op_create = \<lambda>dir name type m. Some (Inl ERR_NOTSUP, dir, m),
     op_getdents = \<lambda>dir pos n m. Some (fs_dir_inode_getdents_not_supported, []),
     op_read = \<lambda>inode pos len m. map_option (\<lambda>(bytes, inode). (int (length bytes), bytes, inode, m))
       (pipefs_file_inode_read inode (unat len)),
     op_write = \<lambda>inode pos buffer m. map_option (\<lambda>(n, inode). (int n, inode, m))
       (pipefs_file_inode_write inode buffer),
     op_seek = \<lambda>inode current whence off. Some fs_inode_seek_not_supported,
     op_poll = \<lambda>inode events revents m. map_option (\<lambda>r. (0, r)) (pipefs_file_inode_poll inode events revents),
     op_istty = \<lambda>inode m. Some fs_file_inode_istty_always_false,
     op_ioctl = \<lambda>inode request argp m. Some (fs_inode_ioctl_not_supported, argp, m),
     op_mmap = \<lambda>inode vaddr len flags m. Some fs_file_inode_mmap_not_supported\<rparr>"

definition pty_ops :: "(u8 ring_buffer option, mounted) fs_ops" where
  "pty_ops = \<lparr>
     op_on_mount = \<lambda>m. Some (ptyfs_fs_on_mount, m),
     op_open_inode = \<lambda>inode m. map_option (\<lambda>(rc, fs). (rc, inode, m\<lparr>m_pty := fs\<rparr>))
       (ptyfs_fs_open_inode True (replicate 4096 0) inode (m_pty m)),
     op_close_inode = \<lambda>inode m. map_option (\<lambda>(rc, fs). (rc, inode, m\<lparr>m_pty := fs\<rparr>)) (ptyfs_fs_close_inode inode (m_pty m)),
     op_lookup = \<lambda>dir name m. Some (ptyfs_dir_inode_lookup name (m_pty m), m),
     op_create = \<lambda>dir name type m. Some (Inl ERR_NOTSUP, dir, m),
     op_getdents = \<lambda>dir pos n m. Some (ptyfs_dir_inode_getdents, []),
     op_read = \<lambda>inode pos len m. map_option (\<lambda>(bytes, fs). (int (length bytes), bytes, inode, m\<lparr>m_pty := fs\<rparr>))
       (ptyfs_file_inode_read inode (unat len) (m_pty m)),
     op_write = \<lambda>inode pos buffer m. map_option (\<lambda>(rc, fs). (rc, inode, m\<lparr>m_pty := fs\<rparr>))
       (ptyfs_file_inode_write inode buffer (m_pty m)),
     op_seek = \<lambda>inode current whence off. Some ptyfs_file_inode_seek,
     op_poll = \<lambda>inode events revents m. map_option (\<lambda>r. (0, r)) (ptyfs_file_inode_poll inode events revents (m_pty m)),
     op_istty = \<lambda>inode m. Some (ptyfs_file_inode_istty inode),
     op_ioctl = \<lambda>inode request argp m. map_option (\<lambda>(rc, argp, fs). (rc, argp, m\<lparr>m_pty := fs\<rparr>))
       (ptyfs_file_inode_ioctl inode request argp (m_pty m)),
     op_mmap = \<lambda>inode vaddr len flags m. ptyfs_file_inode_mmap inode (m_pty m)\<rparr>"

text \<open>Filesystem 0 is the temporary one, 2 the pseudo terminals, all others are pipes.\<close>

definition kernel_ops :: "nat \<Rightarrow> (u8 ring_buffer option, mounted) fs_ops" where
  "kernel_ops f = (if f = 0 then temp_ops else if f = 2 then pty_ops else pipe_ops)"

lemma ftruncate_keeps:
  assumes "tempfs_file_inode_ftruncate ok i n fs = Some (rc, i', fs')"
  shows "inode_id i' = inode_id i \<and> refcount i' = refcount i"
proof -
  obtain node where node: "tfs_heap fs (inode_id i) = Some node"
    using assms by (auto simp: tempfs_file_inode_ftruncate_def bind_eq_Some_conv)
  show ?thesis
  proof (cases node)
    case (TempFile al sz bytes)
    then have "i' = i \<or> i' = i\<lparr>inode_size := n\<rparr>"
      using assms node by (simp add: tempfs_file_inode_ftruncate_def set_file_def Let_def split: if_splits)
    then show ?thesis by auto
  qed (use assms node in \<open>simp add: tempfs_file_inode_ftruncate_def\<close>)
qed

lemma temp_write_keeps:
  "tempfs_file_inode_write ok i pos buf fs = Some (rc, i', fs') \<Longrightarrow> inode_id i' = inode_id i \<and> refcount i' = refcount i"
  by (auto simp: tempfs_file_inode_write_def Let_def bind_eq_Some_conv split: if_splits dest: ftruncate_keeps)

lemma temp_create_keeps:
  "tempfs_dir_create new i name type fs = Some (Inr (child, i', fs')) \<Longrightarrow> inode_id i' = inode_id i \<and> refcount i' = refcount i"
  by (auto simp: tempfs_dir_create_def Let_def bind_eq_Some_conv split: if_splits option.splits)

lemma pipe_read_keeps:
  "pipefs_file_inode_read i n = Some (bytes, i') \<Longrightarrow> inode_id i' = inode_id i \<and> refcount i' = refcount i"
  by (cases "opaque i") (auto simp: pipefs_file_inode_read_def split: if_splits prod.splits)

lemma pipe_write_keeps:
  "pipefs_file_inode_write i buf = Some (n, i') \<Longrightarrow> inode_id i' = inode_id i \<and> refcount i' = refcount i"
  by (cases "opaque i") (auto simp: pipefs_file_inode_write_def split: prod.splits)

interpretation kernel: counted_filesystems kernel_ops
proof
  fix f rc res i i' fs fs' name type pos len buf bytes
  show "op_on_mount (kernel_ops f) fs = Some (i, fs') \<Longrightarrow> refcount i = 0"
    by (auto simp: kernel_ops_def temp_ops_def pipe_ops_def pty_ops_def ptyfs_fs_on_mount_def tempfs_fs_on_mount_def pipefs_fs_on_mount_def split: if_splits)
  show "op_open_inode (kernel_ops f) i fs = Some (rc, i', fs') \<Longrightarrow> inode_id i' = inode_id i \<and> refcount i' = refcount i"
    by (auto simp: kernel_ops_def temp_ops_def pipe_ops_def pty_ops_def pipefs_fs_open_inode_def split: if_splits)
  show "op_close_inode (kernel_ops f) i fs = Some (rc, i', fs') \<Longrightarrow> inode_id i' = inode_id i \<and> refcount i' = refcount i"
    by (auto simp: kernel_ops_def temp_ops_def pipe_ops_def pty_ops_def pipefs_fs_close_inode_def split: if_splits)
  show "op_create (kernel_ops f) i name type fs = Some (res, i', fs') \<Longrightarrow> inode_id i' = inode_id i \<and> refcount i' = refcount i"
    by (auto simp: kernel_ops_def temp_ops_def pipe_ops_def pty_ops_def split: if_splits option.splits sum.splits dest: temp_create_keeps)
  show "op_read (kernel_ops f) i pos len fs = Some (rc, bytes, i', fs') \<Longrightarrow> inode_id i' = inode_id i \<and> refcount i' = refcount i"
    by (auto simp: kernel_ops_def temp_ops_def pipe_ops_def pty_ops_def split: if_splits dest: pipe_read_keeps)
  show "op_write (kernel_ops f) i pos buf fs = Some (rc, i', fs') \<Longrightarrow> inode_id i' = inode_id i \<and> refcount i' = refcount i"
    by (auto simp: kernel_ops_def temp_ops_def pipe_ops_def pty_ops_def split: if_splits dest: temp_write_keeps pipe_write_keeps)
qed

subsection \<open>Reachable states\<close>

definition boot_vfs :: "(nat \<Rightarrow> u64) \<Rightarrow> 's \<Rightarrow> ('c, 's) vfs" where
  "boot_vfs roots fs = \<lparr>vfs_mallocs = [], vfs_next = 0, vfs_inodes = Map.empty, vfs_custodies = Map.empty,
     vfs_icache = \<lambda>_. [], vfs_root = roots, s_mountpoints = [], vfs_fs = fs\<rparr>"

datatype vfs_event =
    Mount string nat
  | MemoryShortage "bool list"
  | Open string u32
  | Close nat
  | Duplicate nat
  | ReadFile nat u32
  | WriteFile nat "u8 list"
  | SeekFile nat int i32
  | StatFile string

fun vfs_step :: "(nat \<Rightarrow> ('c, 's) fs_ops) \<Rightarrow> vfs_event \<Rightarrow> ('c, 's) vfs \<Rightarrow> ('c, 's) vfs option" where
  "vfs_step ops (Mount path f) s = (if vfs_mallocs s = [] then map_option snd (vfs_mount ops path f s) else None)"
| "vfs_step ops (MemoryShortage answers) s = Some (s\<lparr>vfs_mallocs := answers\<rparr>)"
| "vfs_step ops (Open path flags) s = map_option (snd \<circ> snd) (vfs_open_absolute ops path flags s)"
| "vfs_step ops (Close c) s = map_option snd (vfs_close ops (Some c) s)"
| "vfs_step ops (Duplicate c) s = map_option snd (vfs_duplicate c s)"
| "vfs_step ops (ReadFile c n) s = map_option snd (vfs_read ops c n s)"
| "vfs_step ops (WriteFile c buf) s = map_option snd (vfs_write ops c buf s)"
| "vfs_step ops (SeekFile c whence off) s = map_option snd (vfs_seek ops c whence off s)"
| "vfs_step ops (StatFile path) s = map_option (snd \<circ> snd) (vfs_stat ops path s)"

inductive vfs_reach :: "(nat \<Rightarrow> ('c, 's) fs_ops) \<Rightarrow> ('c, 's) vfs \<Rightarrow> bool" for ops where
  boot: "vfs_reach ops (boot_vfs roots fs)"
| event: "vfs_reach ops s \<Longrightarrow> vfs_step ops e s = Some s' \<Longrightarrow> vfs_reach ops s'"

lemma boot_inv: "vfs_inv (\<lambda>_. 0) (boot_vfs roots fs)"
  by (simp add: vfs_inv_def boot_vfs_def)

context counted_filesystems
begin

lemma vfs_step_inv:
  assumes inv: "vfs_inv h s" and step: "vfs_step ops e s = Some s'"
  shows "vfs_inv h s'"
proof (cases e)
  case (MemoryShortage answers)
  then show ?thesis using step vfs_inv_cong [OF _ _ _ _ inv, of s'] by auto
next
  case (Mount path f)
  then show ?thesis using step vfs_mount_inv [OF inv] by (auto split: if_splits)
qed (use step vfs_open_inv [OF inv] vfs_close_inv [OF inv] vfs_duplicate_inv [OF inv] vfs_read_inv [OF inv]
    vfs_write_inv [OF inv] vfs_seek_inv [OF inv] vfs_stat_inv [OF inv] in auto)

lemma vfs_reach_inv: "vfs_reach ops s \<Longrightarrow> vfs_inv (\<lambda>_. 0) s"
  by (induction rule: vfs_reach.induct) (auto intro: boot_inv vfs_step_inv)

lemma shared_close:
  assumes "vfs_reach ops s" and c: "vfs_custodies s c = Some cu" and c': "vfs_custodies s c' = Some cu'"
    and "c \<noteq> c'" and same: "custody_inode cu' = custody_inode cu"
  shows "\<exists>s' f i. vfs_close ops (Some c) s = Some (0, s') \<and> vfs_fs s' = vfs_fs s \<and> vfs_custodies s' c' = Some cu' \<and>
    vfs_inodes s (custody_inode cu) = Some (f, i) \<and>
    vfs_inodes s' (custody_inode cu) = Some (f, i\<lparr>refcount := refcount i - 1\<rparr>) \<and> 1 \<le> refcount i - 1"
proof -
  have inv: "vfs_inv (\<lambda>_. 0) s" by (rule vfs_reach_inv [OF assms(1)])
  let ?p = "custody_inode cu"
  obtain f i where i: "vfs_inodes s ?p = Some (f, i)" "int (open_files s ?p) \<le> refcount i"
    using custody_refs [OF inv c] by auto
  have "finite {d. \<exists>x. vfs_custodies s d = Some x \<and> custody_inode x = ?p}"
    by (rule finite_subset [of _ "dom (vfs_custodies s)"]) (use inv in \<open>auto simp: vfs_inv_def\<close>)
  moreover have "{c, c'} \<subseteq> {d. \<exists>x. vfs_custodies s d = Some x \<and> custody_inode x = ?p}" using c c' same by auto
  ultimately have "card {c, c'} \<le> open_files s ?p" unfolding open_files_def by (rule card_mono)
  then have "2 \<le> refcount i" using i(2) \<open>c \<noteq> c'\<close> by simp
  then show ?thesis using c c' i(1) \<open>c \<noteq> c'\<close>
    by (simp add: vfs_close_def free_custody_def close_inode_def set_inode_def)
qed

end

text \<open>
  \<^verbatim>\<open>refcount\<close> is an \<^verbatim>\<open>int\<close>.  Every successful open leaves a reference to the directory behind, so that a count can
  leave the range of its type after some two thousand million opens; the runs in which no count comes near its end.
\<close>

definition counts_fit :: "('c, 's) vfs \<Rightarrow> bool" where
  "counts_fit s \<longleftrightarrow> list_all (\<lambda>p. case vfs_inodes s p of None \<Rightarrow> True | Some (f, i) \<Rightarrow> refcount i < 2 ^ 31 - 16) [0..<vfs_next s]"

inductive vfs_reach_int :: "(nat \<Rightarrow> ('c, 's) fs_ops) \<Rightarrow> ('c, 's) vfs \<Rightarrow> bool" for ops where
  boot_int: "vfs_reach_int ops (boot_vfs roots fs)"
| event_int: "vfs_reach_int ops s \<Longrightarrow> vfs_step ops e s = Some s' \<Longrightarrow> counts_fit s' \<Longrightarrow> vfs_reach_int ops s'"

lemma vfs_reach_int_reach: "vfs_reach_int ops s \<Longrightarrow> vfs_reach ops s"
  by (induction rule: vfs_reach_int.induct) (auto intro: vfs_reach.intros)

text \<open>
  C8: Whatever has been mounted, opened, duplicated, read, written, examined and closed, with or without memory
  shortages, in any run in which the counts stay in the range of \<^verbatim>\<open>int\<close>: the inode of an open file is in the cache and
  counts at least as many references as there are open files on it.  Closing one of several open files on an
  inode leaves the inode open for the others: it is not handed back to its filesystem, and its count only goes down by
  one.
\<close>
theorem shared_inode_stays_open:
  assumes "vfs_reach_int kernel_ops s" and "vfs_custodies s c = Some cu"
  shows "\<exists>f i. vfs_inodes s (custody_inode cu) = Some (f, i) \<and> int (open_files s (custody_inode cu)) \<le> refcount i \<and>
    (\<forall>c' cu'. vfs_custodies s c' = Some cu' \<longrightarrow> c \<noteq> c' \<longrightarrow> custody_inode cu' = custody_inode cu \<longrightarrow>
      (\<exists>s'. vfs_close kernel_ops (Some c) s = Some (0, s') \<and> vfs_fs s' = vfs_fs s \<and> vfs_custodies s' c' = Some cu' \<and>
        vfs_inodes s' (custody_inode cu) = Some (f, i\<lparr>refcount := refcount i - 1\<rparr>) \<and> 1 \<le> refcount i - 1))"
proof -
  have reach: "vfs_reach kernel_ops s" using assms(1) by (rule vfs_reach_int_reach)
  obtain f i where "vfs_inodes s (custody_inode cu) = Some (f, i)" "int (open_files s (custody_inode cu)) \<le> refcount i"
    using kernel.custody_refs [OF kernel.vfs_reach_inv [OF reach] assms(2)] by auto
  moreover note kernel.shared_close [OF reach assms(2)]
  ultimately show ?thesis by fastforce
qed

text \<open>A pipe: its two ends share one inode.\<close>

definition booted :: "(u8 ring_buffer option, mounted) vfs" where
  "booted = boot_vfs (\<lambda>f. if f = 0 then 1 else if f = 2 then ROOT_INODE_ID else 0)
     \<lparr>m_temp = tempfs_create 1 0x800000, m_pipe = \<lparr>next_pipe_id = 1\<rparr>,
       m_pty = \<lparr>ptys = replicate MAX_OPEN_PTYS None\<rparr>, m_new_node = 2\<rparr>"

definition vfs_steps :: "(nat \<Rightarrow> ('c, 's) fs_ops) \<Rightarrow> vfs_event list \<Rightarrow> ('c, 's) vfs \<Rightarrow> ('c, 's) vfs option" where
  "vfs_steps ops es s = fold (\<lambda>e r. Option.bind r (vfs_step ops e)) es (Some s)"

definition vfs_int_steps :: "(nat \<Rightarrow> ('c, 's) fs_ops) \<Rightarrow> vfs_event list \<Rightarrow> ('c, 's) vfs \<Rightarrow> ('c, 's) vfs option" where
  "vfs_int_steps ops es s =
     fold (\<lambda>e r. do { s \<leftarrow> r; s' \<leftarrow> vfs_step ops e s; kassert (counts_fit s'); Some s' }) es (Some s)"

lemma vfs_int_steps_reach: "vfs_reach_int ops s \<Longrightarrow> vfs_int_steps ops es s = Some s' \<Longrightarrow> vfs_reach_int ops s'"
proof (induction es arbitrary: s' rule: rev_induct)
  case (snoc e es)
  then obtain t where "vfs_int_steps ops es s = Some t" "vfs_step ops e t = Some s'" "counts_fit s'"
    by (auto simp: vfs_int_steps_def bind_eq_Some_conv)
  then show ?case using snoc.IH [OF snoc.prems(1)] vfs_reach_int.event_int by blast
qed (simp add: vfs_int_steps_def)

lemma vfs_steps_reach: "vfs_reach ops s \<Longrightarrow> vfs_steps ops es s = Some s' \<Longrightarrow> vfs_reach ops s'"
proof (induction es arbitrary: s' rule: rev_induct)
  case (snoc e es)
  then obtain t where "vfs_steps ops es s = Some t" "vfs_step ops e t = Some s'"
    by (auto simp: vfs_steps_def bind_eq_Some_conv)
  then show ?case using snoc.IH [OF snoc.prems(1)] vfs_reach.event by blast
qed (simp add: vfs_steps_def)

definition shared_events :: "vfs_event list" where
  "shared_events = [Mount ''/'' 0, Open ''/a'' 0x202, Duplicate 2]"

lemma shared_events_custodies:
  "map_option (\<lambda>s. (vfs_custodies s 2, vfs_custodies s 3)) (vfs_int_steps kernel_ops shared_events booted) =
   Some (Some \<lparr>custody_inode = 1, custody_flags = 0x202, custody_offset = 0\<rparr>,
         Some \<lparr>custody_inode = 1, custody_flags = 0x202, custody_offset = 0\<rparr>)"
  by code_simp

theorem shared_inode_stays_open_witness:
  "\<exists>s s'. vfs_int_steps kernel_ops shared_events booted = Some s \<and>
     vfs_close kernel_ops (Some 2) s = Some (0, s') \<and> vfs_fs s' = vfs_fs s"
proof -
  obtain s where s: "vfs_int_steps kernel_ops shared_events booted = Some s"
      "vfs_custodies s 2 = Some \<lparr>custody_inode = 1, custody_flags = 0x202, custody_offset = 0\<rparr>"
      "vfs_custodies s 3 = Some \<lparr>custody_inode = 1, custody_flags = 0x202, custody_offset = 0\<rparr>"
    using shared_events_custodies by auto
  have "vfs_reach_int kernel_ops booted" unfolding booted_def by (rule boot_int)
  then have "vfs_reach_int kernel_ops s" using vfs_int_steps_reach s(1) by blast
  from shared_inode_stays_open [OF this s(2)] s(1) s(3) show ?thesis by (auto dest!: spec [of _ 3])
qed

text \<open>
  The reference to the directory that a successful walk holds is never given back: two files opened and closed
  again leave the count of the root at 3 where mounting had made it 1.
\<close>

lemma parent_reference_leaked:
  "map_option (\<lambda>s. map_option (refcount \<circ> snd) (vfs_inodes s 0)) (vfs_steps kernel_ops [Mount ''/'' 0] booted) = Some (Some 1)"
  "map_option (\<lambda>s. map_option (refcount \<circ> snd) (vfs_inodes s 0)) (vfs_steps kernel_ops
     [Mount ''/'' 0, Open ''/a'' 0x202, Close 2, Open ''/a'' 0x2, Close 3] booted) = Some (Some 3)"
  by code_simp+

text \<open>\<^verbatim>\<open>vfs_stat\<close> fills in nothing when it succeeds, and follows a null pointer when a directory on the way is missing.\<close>

lemma stat_without_result:
  "map_option (fst \<circ> snd) (Option.bind (vfs_steps kernel_ops [Mount ''/'' 0, Open ''/a'' 0x202] booted)
     (vfs_stat kernel_ops ''/a'')) = Some None"
  "Option.bind (vfs_steps kernel_ops [Mount ''/'' 0] booted) (vfs_stat kernel_ops ''/b/c'') = None"
  by code_simp+

subsection \<open>The order of the mount points\<close>


definition good_mount :: "MountPoint \<Rightarrow> bool" where
  "good_mount mp \<longleftrightarrow> canonicalized_path_strlen (mp_path mp) \<noteq> None"







text \<open>Mounted last, the root goes to the front of the list, where it is a prefix of everything.\<close>

lemma late_root_hides:
  assumes "\<forall>m\<in>set mps. good_mount m" and "canonicalized_path_strlen cpath \<noteq> None"
    and root_def: "root = \<lparr>mp_path = [NUL, NUL, NUL], mp_fs = f, mp_path_skip = 1\<rparr>"
  shows "insert_mountpoint root 0 mps = Some (root # mps)" and "find_mountpoint cpath (root # mps) = Some (Some root)"
proof -
  have "find_shorter 0 mps = Some None"
    using assms(1) by (induction mps) (auto simp: good_mount_def)
  then show "insert_mountpoint root 0 mps = Some (root # mps)" by (simp add: insert_mountpoint_def)
  show "find_mountpoint cpath (root # mps) = Some (Some root)"
    using assms(2) by (auto simp: root_def canonicalized_path_startswith_def)
qed


subsection \<open>Terminals that are opened again\<close>

text \<open>
  C12: When the last open file of a terminal's master is closed and its slave is not open, the terminal is freed,
  but its inode stays in the cache with one reference: the next walk to it takes a further reference instead of
  opening it, and a write to the file that is opened then follows the null pointer of the freed terminal.
\<close>
theorem closed_terminal_dangles:
  assumes c: "vfs_custodies s c = Some cu" and i: "vfs_inodes s (custody_inode cu) = Some (2, i)" "refcount i = 1"
    and slot: "pty_slot (inode_id i) = Some (n, True)" "n < length (ptys (m_pty (vfs_fs s)))"
    and pair: "ptys (m_pty (vfs_fs s)) ! n = Some pair" "\<not> slave_open pair"
    and kind: "inode_type i \<noteq> Directory" "flags AND OF_ACCMODE \<noteq> OF_RDONLY"
  shows "\<exists>s1 s2. vfs_close kernel_ops (Some c) s = Some (0, s1) \<and> ptys (m_pty (vfs_fs s1)) ! n = None \<and>
    open_inode kernel_ops (custody_inode cu) s1 = Some (0, s2) \<and> vfs_fs s2 = vfs_fs s1 \<and>
    (\<forall>c' s3 buf. alloc_custody (custody_inode cu) flags s2 = (0, Some c', s3) \<longrightarrow> vfs_write kernel_ops c' buf s3 = None)"
proof -
  let ?p = "custody_inode cu"
  let ?fs = "(vfs_fs s)\<lparr>m_pty := set_pty n None (m_pty (vfs_fs s))\<rparr>"
  let ?s1 = "(set_inode ?p 2 i (s\<lparr>vfs_fs := ?fs\<rparr>))\<lparr>vfs_custodies := (vfs_custodies s)(c := None)\<rparr>"
  let ?s2 = "set_inode ?p 2 (i\<lparr>refcount := 2\<rparr>) ?s1"
  have root: "inode_id i \<noteq> ROOT_INODE_ID" using slot(1) by (auto simp: pty_slot_def ROOT_INODE_ID_def MAX_OPEN_PTYS_def)
  have k: "kernel_ops 2 = pty_ops" by (simp add: kernel_ops_def)
  have "ptyfs_fs_close_inode i (m_pty (vfs_fs s)) = Some (0, set_pty n None (m_pty (vfs_fs s)))"
    using root slot(1) pair by (simp add: ptyfs_fs_close_inode_def Let_def)
  then have close: "vfs_close kernel_ops (Some c) s = Some (0, ?s1)"
    using c i by (simp add: vfs_close_def free_custody_def close_inode_def k pty_ops_def set_inode_def)
  have none: "ptys (m_pty (vfs_fs ?s1)) ! n = None" using slot(2) by (simp add: set_pty_def set_inode_def)
  have again: "open_inode kernel_ops ?p ?s1 = Some (0, ?s2)" using i by (simp add: open_inode_def set_inode_def)
  have "vfs_write kernel_ops c' buf s3 = None" if a: "alloc_custody ?p flags ?s2 = (0, Some c', s3)" for c' s3 buf
  proof -
    have s3: "vfs_custodies s3 c' = Some \<lparr>custody_inode = ?p, custody_flags = flags, custody_offset = 0\<rparr>"
        "vfs_inodes s3 ?p = Some (2, i\<lparr>refcount := 2\<rparr>)" "vfs_fs s3 = vfs_fs ?s1"
      using a by (auto simp: alloc_custody_def new_address_def vfs_malloc_def set_custody_def set_inode_def Let_def
          split: if_splits list.split_asm)
    have dev: "get_device_by_inode (i\<lparr>refcount := 2\<rparr>) (m_pty (vfs_fs s3)) = None"
      using slot(1) none by (simp add: get_device_by_inode_def s3(3))
    show ?thesis
      using s3 dev kind
      by (simp add: vfs_write_def Let_def not_ready_def vfs_poll_def k pty_ops_def ptyfs_file_inode_poll_def ptyfs_file_inode_write_def)
  qed
  then show ?thesis using close none again by (intro exI [of _ ?s1] exI [of _ ?s2]) (simp add: set_inode_def)
qed

text \<open>One terminal, whose master is open once.\<close>

definition terminal_vfs :: "(u8 ring_buffer option, mounted) vfs" where
  "terminal_vfs = booted\<lparr>vfs_inodes := [1 \<mapsto> (2, pty_inode 0)],
     vfs_custodies := [2 \<mapsto> \<lparr>custody_inode = 1, custody_flags = 2, custody_offset = 0\<rparr>], vfs_next := 3,
     vfs_fs := (vfs_fs booted)\<lparr>m_pty := set_pty 0 (Some (new_pty (replicate 4096 0) 0)) (m_pty (vfs_fs booted))\<rparr>\<rparr>"

theorem closed_terminal_dangles_witness:
  "\<exists>s1. vfs_close kernel_ops (Some 2) terminal_vfs = Some (0, s1) \<and> ptys (m_pty (vfs_fs s1)) ! 0 = None"
proof -
  have "vfs_custodies terminal_vfs 2 = Some \<lparr>custody_inode = 1, custody_flags = 2, custody_offset = 0\<rparr>"
    "vfs_inodes terminal_vfs 1 = Some (2, pty_inode 0)" "refcount (pty_inode 0) = 1" "pty_slot (inode_id (pty_inode 0)) = Some (0, True)"
    "inode_type (pty_inode 0) \<noteq> Directory" "length (ptys (m_pty (vfs_fs terminal_vfs))) = 16"
    "ptys (m_pty (vfs_fs terminal_vfs)) ! 0 = Some (new_pty (replicate 4096 0) 0)" "\<not> slave_open (new_pty (replicate 4096 0) 0)"
    by (simp_all add: terminal_vfs_def booted_def boot_vfs_def pty_inode_def pty_slot_def MAX_OPEN_PTYS_def set_pty_def new_pty_def
        del: replicate.simps)
  then show ?thesis
    using closed_terminal_dangles [of terminal_vfs 2 _ "pty_inode 0" 0 "new_pty (replicate 4096 0) 0" 2]
    by (auto simp: OF_ACCMODE_def OF_RDONLY_def)
qed

end
