(* ===== verification/Scheduler.thy ===== *)
theory Scheduler
  imports Execve VfsMounts
begin

text \<open>
  The scheduler loop and the dispatch of system calls (\<^verbatim>\<open>kernel/scheduler.cpp\<close>, \<^verbatim>\<open>kernel/syscall.cpp\<close>), and the runs
  of the kernel that they give: threads are run in the order of their slots, each until it gives up the processor.
\<close>

subsection \<open>The first process\<close>

text \<open>Each of the three standard descriptors is opened with the same statements.\<close>

definition open_kernel_log :: "('c, 's) fs_table \<Rightarrow> nat \<Rightarrow> nat \<Rightarrow> u32 \<Rightarrow> ('c, 's) kernel \<Rightarrow> ('c, 's) kernel option" where
  "open_kernel_log ops p fd flags k = do {
     (rc, custody, v) \<leftarrow> vfs_open_absolute ops ''/dev/kernel_log'' flags (k_vfs k);
     kassert (rc = 0);
     set_file_slot p fd custody (k\<lparr>k_vfs := v\<rparr>)
   }"

definition create_first_process :: "('c, 's) fs_table \<Rightarrow> u32 \<Rightarrow> ('c, 's) kernel \<Rightarrow> ('c, 's) kernel option" where
  "create_first_process ops entrypoint k = do {
     (p, k) \<leftarrow> alloc_process ''kernel'' entrypoint True k;
     p \<leftarrow> p;
     pr \<leftarrow> k_processes k p;
     t \<leftarrow> (case threads_data pr of [] \<Rightarrow> None | t # _ \<Rightarrow> Some t);
     k \<leftarrow> register_thread t k;
     k \<leftarrow> open_kernel_log ops p 0 OF_RDONLY k;
     k \<leftarrow> open_kernel_log ops p 1 OF_WRONLY k;
     k \<leftarrow> open_kernel_log ops p 2 OF_WRONLY k;
     th \<leftarrow> k_threads k t;
     Some ((set_thread t (th\<lparr>thread_state := Runnable\<rparr>) k)\<lparr>s_current_thread := Some t\<rparr>)
   }"

subsection \<open>The loop of the scheduler\<close>

text \<open>What the loop does with slot \<open>i\<close>; the thread to switch to, if it switches.\<close>

definition scheduler_visit :: "('c, 's) fs_table \<Rightarrow> nat \<Rightarrow> ('c, 's) kernel \<Rightarrow> (nat option \<times> ('c, 's) kernel) option" where
  "scheduler_visit ops i k =
     (case s_all_threads k ! i of
        None \<Rightarrow> Some (None, k)
      | Some t \<Rightarrow> do {
          th \<leftarrow> k_threads k t;
          case thread_state th of
            Zombie \<Rightarrow> do {
              k \<leftarrow> free_thread ops t k;
              Some (None, k\<lparr>s_all_threads := (s_all_threads k)[i := None]\<rparr>)
            }
          | Suspended \<Rightarrow> Some (None, k)
          | Runnable \<Rightarrow> do {
              pr \<leftarrow> k_processes k (thread_process th);
              vm \<leftarrow> vm_switch_address_space (address_space pr) (k_vm k);
              Some (Some t, k\<lparr>k_vm := vm, s_current_thread := Some t\<rparr>)
            }
        })"

subsection \<open>System calls\<close>

text \<open>
  The arguments that a call reads from the memory of its process come with it; \<open>CallWaitExit\<close> has the address of
  the mutex on the kernel stack, as \<open>CallMilliSleep\<close> does, \<open>CallPoll\<close> the time since its start, \<open>CallGetTicks\<close> the
  time, \<open>CallExecve\<close> what is in the memory that the file is read into, and \<open>ResumeWait\<close> continues a wait.
\<close>

datatype kernel_call =
    CallYield
  | CallExit i32
  | CallGetPid
  | CallFork
  | CallPoll "PollFd list" i32 int
  | CallOpen string u32
  | CallRead i32 u32
  | CallWrite i32 "u8 list"
  | CallClose i32
  | CallFStat i32
  | CallSeek i32 i32 int
  | CallCreatePipe
  | CallMoveFd i32 i32
  | CallIsTty i32
  | CallDup2 i32 i32
  | CallSetCwd string
  | CallGetCwd nat
  | CallWaitExit nat int
  | CallExecve "u8 list" string "string list" "string list"
  | CallIoctl i32 u32 "u8 list"
  | CallMMap i32 u32 u32 u32
  | CallMilliSleep nat i32
  | CallGetTicks u32
  | CallUnknown
  | ResumeWait nat

fun map_blocking :: "('a \<Rightarrow> 'b) \<Rightarrow> 'a blocking \<Rightarrow> 'b blocking" where
  "map_blocking f Yield = Yield"
| "map_blocking f (Return x) = Return (f x)"

abbreviation returns :: "int \<times> ('c, 's) kernel \<Rightarrow> int blocking \<times> ('c, 's) kernel" where
  "returns \<equiv> map_prod Return id"

definition dispatch_syscall ::
  "('c, 's) fs_table \<Rightarrow> kernel_call \<Rightarrow> ('c, 's) kernel \<Rightarrow> (int blocking \<times> ('c, 's) kernel) option" where
  "dispatch_syscall ops call k = do {
     t \<leftarrow> s_current_thread k;
     p \<leftarrow> current_process k;
     case call of
       CallYield \<Rightarrow> Some (Yield, k)
     | CallExit code \<Rightarrow> map_option (\<lambda>k. (Yield, k)) (sys_exit t code k)
     | CallGetPid \<Rightarrow> map_option (\<lambda>rc. (Return rc, k)) (sys_getpid p k)
     | CallFork \<Rightarrow> map_option returns (sys_fork ops t k)
     | CallPoll fds timeout elapsed \<Rightarrow> map_option (\<lambda>(r, _). (r, k)) (sys_poll ops p fds timeout elapsed k)
     | CallOpen path flags \<Rightarrow> map_option returns (sys_open ops p path flags k)
     | CallRead fd n \<Rightarrow> map_option (map_prod (map_blocking fst) id) (sys_read ops p fd n k)
     | CallWrite fd buf \<Rightarrow> sys_write ops p fd buf k
     | CallClose fd \<Rightarrow> map_option returns (sys_close ops p fd k)
     | CallFStat fd \<Rightarrow> map_option (\<lambda>(rc, _). (Return rc, k)) (sys_fstat p fd k)
     | CallSeek fd off whence \<Rightarrow> map_option (\<lambda>(rc, _, k). (Return rc, k)) (sys_seek ops p fd off whence k)
     | CallCreatePipe \<Rightarrow> map_option (\<lambda>(rc, _, k). (Return rc, k)) (sys_create_pipe ops p k)
     | CallMoveFd fd new_fd \<Rightarrow> map_option returns (sys_movefd ops p fd new_fd k)
     | CallIsTty fd \<Rightarrow> map_option (\<lambda>rc. (Return rc, k)) (sys_istty ops p fd k)
     | CallDup2 fd new_fd \<Rightarrow> map_option returns (sys_dup2 ops p fd new_fd k)
     | CallSetCwd path \<Rightarrow> map_option returns (sys_setcwd p path k)
     | CallGetCwd n \<Rightarrow> map_option (\<lambda>(rc, _). (Return rc, k)) (sys_getcwd p n k)
     | CallWaitExit m n \<Rightarrow> sys_waitexit m n k
     | CallExecve raw path argv envp \<Rightarrow> sys_execve ops raw t p path argv envp k
     | CallIoctl fd request argp \<Rightarrow> map_option (\<lambda>(rc, _, k). (Return rc, k)) (sys_ioctl ops p fd request argp k)
     | CallMMap fd vaddr len flags \<Rightarrow> map_option (\<lambda>rc. (Return rc, k)) (sys_mmap ops p fd vaddr len flags k)
     | CallMilliSleep m ms \<Rightarrow> Some (sys_millisleep m ms k)
     | CallGetTicks ticks_ms \<Rightarrow> Some (Return (sys_getticks ticks_ms), k)
     | CallUnknown \<Rightarrow> Some (Return (- errno ERR_NOSYS), k)
     | ResumeWait m \<Rightarrow> Some (resume_wait m k)
   }"

subsection \<open>Runs\<close>

text \<open>A thread runs until one of its calls gives up the processor, or its part of the program ends.\<close>

fun run_calls :: "('c, 's) fs_table \<Rightarrow> kernel_call list \<Rightarrow> ('c, 's) kernel \<Rightarrow> ('c, 's) kernel option" where
  "run_calls ops [] k = Some k"
| "run_calls ops (call # calls) k = do {
     (r, k) \<leftarrow> dispatch_syscall ops call k;
     case r of Yield \<Rightarrow> Some k | Return _ \<Rightarrow> run_calls ops calls k
   }"

text \<open>
  \<open>n\<close> visits of the scheduler from slot \<open>i\<close> on, and the threads that ran; \<open>prog n t\<close> is what thread \<open>t\<close> does when
  it runs while \<open>n\<close> visits are left.
\<close>

fun scheduler_run ::
  "('c, 's) fs_table \<Rightarrow> (nat \<Rightarrow> nat \<Rightarrow> kernel_call list) \<Rightarrow> nat \<Rightarrow> nat \<Rightarrow> ('c, 's) kernel \<Rightarrow> (nat list \<times> ('c, 's) kernel) option" where
  "scheduler_run ops prog 0 i k = Some ([], k)"
| "scheduler_run ops prog (Suc n) i k = do {
     (chosen, k) \<leftarrow> scheduler_visit ops i k;
     k \<leftarrow> (case chosen of
            None \<Rightarrow> Some k
          | Some t \<Rightarrow> do {
              k \<leftarrow> run_calls ops (prog n t) k;
              Some (k\<lparr>g_scheduler_has_started := True\<rparr>)
            });
     (ts, k) \<leftarrow> scheduler_run ops prog n (Suc i mod MAX_THREADS) k;
     Some ((case chosen of None \<Rightarrow> ts | Some t \<Rightarrow> t # ts), k)
   }"

datatype kernel_event =
    FirstProcess u32
  | KernelShortage "bool list"
  | Visit nat
  | Call kernel_call
  | SleepOver nat

fun kernel_step :: "('c, 's) fs_table \<Rightarrow> kernel_event \<Rightarrow> ('c, 's) kernel \<Rightarrow> ('c, 's) kernel option" where
  "kernel_step ops (FirstProcess entrypoint) k = create_first_process ops entrypoint k"
| "kernel_step ops (KernelShortage answers) k = Some (k\<lparr>k_vfs := (k_vfs k)\<lparr>vfs_mallocs := answers\<rparr>\<rparr>)"
| "kernel_step ops (Visit i) k = (if i < MAX_THREADS then map_option snd (scheduler_visit ops i k) else None)"
| "kernel_step ops (Call call) k = map_option snd (dispatch_syscall ops call k)"
| "kernel_step ops (SleepOver m) k = sleep_expired m k"

text \<open>The kernel before the first process: some filesystems are mounted, no file is open.\<close>

definition boot_kernel :: "('c, 's) vfs \<Rightarrow> vm_state \<Rightarrow> ('c, 's) kernel" where
  "boot_kernel v vm = \<lparr>k_vfs = v, k_vm = vm, k_processes = Map.empty, k_threads = Map.empty, k_mutexes = \<lambda>_. 0, k_sleepers = [],
     s_next_available_pid = 0, g_scheduler_has_started = False, s_current_thread = None,
     s_all_threads = replicate MAX_THREADS None, s_all_threads_len = 0\<rparr>"

inductive kernel_reach :: "('c, 's) fs_table \<Rightarrow> ('c, 's) kernel \<Rightarrow> bool" for ops where
  boot: "vfs_reach ops v \<Longrightarrow> vfs_custodies v = Map.empty \<Longrightarrow> kernel_reach ops (boot_kernel v vm)"
| event: "kernel_reach ops k \<Longrightarrow> kernel_step ops e k = Some k' \<Longrightarrow> kernel_reach ops k'"

end
