(* ===== verification/VfsCustodies.thy ===== *)
theory VfsCustodies
  imports VfsMounts
begin

text \<open>
  Which open files there are after each operation of the virtual filesystem, and that addresses are only handed
  out once: the basis for the ownership of open files by descriptors.
\<close>

definition same_custodies :: "('c, 's) vfs \<Rightarrow> ('c, 's) vfs \<Rightarrow> bool" where
  "same_custodies s s' \<longleftrightarrow> vfs_custodies s' = vfs_custodies s \<and> vfs_next s \<le> vfs_next s'"

lemma same_custodies_refl [simp]: "same_custodies s s"
  by (simp add: same_custodies_def)

lemma same_custodies_trans: "same_custodies s t \<Longrightarrow> same_custodies t u \<Longrightarrow> same_custodies s u"
  by (simp add: same_custodies_def)

lemma same_custodies_simps [simp]:
  "same_custodies s (t\<lparr>vfs_fs := fs\<rparr>) \<longleftrightarrow> same_custodies s t"
  "same_custodies s (t\<lparr>vfs_icache := ic\<rparr>) \<longleftrightarrow> same_custodies s t"
  "same_custodies s (t\<lparr>vfs_mallocs := ms\<rparr>) \<longleftrightarrow> same_custodies s t"
  "same_custodies s (set_inode p f i t) \<longleftrightarrow> same_custodies s t"
  "same_custodies s (free_inode p t) \<longleftrightarrow> same_custodies s t"
  "same_custodies (s\<lparr>vfs_fs := fs\<rparr>) t \<longleftrightarrow> same_custodies s t"
  "same_custodies (set_inode p f i s) t \<longleftrightarrow> same_custodies s t"
  by (simp_all add: same_custodies_def)

lemma malloc_custodies: "vfs_malloc s = (ok, s') \<Longrightarrow> same_custodies s s' \<and> vfs_next s' = vfs_next s"
  by (rule vfs_mallocE [of s]) (simp add: same_custodies_def)

lemma open_inode_custodies: "open_inode ops p s = Some (rc, s') \<Longrightarrow> same_custodies s s'"
  by (auto simp: open_inode_def bind_eq_Some_conv Let_def split: if_splits)

lemma close_inode_keeps: "close_inode ops ptr s = Some s' \<Longrightarrow> same_custodies s s'"
  by (auto simp: close_inode_def bind_eq_Some_conv split: option.splits if_splits)

lemma icache_insert_custodies: "icache_insert f k p s = Some (rc, s') \<Longrightarrow> same_custodies s s'"
  by (auto simp: icache_insert_def Let_def dest: malloc_custodies split: prod.splits if_splits)

lemma add_inode_custodies:
  assumes "add_inode ops f temp s = Some (rc, ptr, s')"
  shows "same_custodies s s'"
proof -
  obtain ok t where m: "vfs_malloc s = (ok, t)" by fastforce
  let ?t = "set_inode (vfs_next t) f (temp\<lparr>refcount := 0\<rparr>) (t\<lparr>vfs_next := Suc (vfs_next t)\<rparr>)"
  have t: "same_custodies s t" "same_custodies s ?t"
    using malloc_custodies [OF m] by (auto simp: same_custodies_def)
  show ?thesis
    using assms m t(1) same_custodies_trans [OF t(2)]
    by (auto simp: add_inode_def new_address_def bind_eq_Some_conv split: if_splits
        dest!: open_inode_custodies icache_insert_custodies close_inode_keeps) (metis same_custodies_trans)+
qed

lemma lookup_inode_custodies:
  assumes l: "lookup_inode ops parent name s = Some (rc, ptr, s')"
  shows "same_custodies s s'"
proof -
  obtain f dir res fs where r: "vfs_inodes s parent = Some (f, dir)" "op_lookup (ops f) dir name (vfs_fs s) = Some (res, fs)"
    using l by (auto simp: lookup_inode_def bind_eq_Some_conv)
  show ?thesis
  proof (cases res)
    case (Inr temp)
    then show ?thesis
      using l r by (cases "icache_lookup (vfs_icache s f) (inode_id temp)")
        (auto simp: lookup_inode_def bind_eq_Some_conv dest!: open_inode_custodies add_inode_custodies)
  qed (use l r in \<open>auto simp: lookup_inode_def\<close>)
qed

lemma create_inode_custodies:
  assumes l: "create_inode ops parent name type s = Some (rc, ptr, s')"
  shows "same_custodies s s'"
proof -
  obtain f dir res dir' fs where r: "vfs_inodes s parent = Some (f, dir)"
      "op_create (ops f) dir name type (vfs_fs s) = Some (res, dir', fs)"
    using l by (auto simp: create_inode_def bind_eq_Some_conv)
  show ?thesis
    using l r by (cases res) (auto simp: create_inode_def dest!: add_inode_custodies split: if_splits)
qed

lemma traverse_loop_custodies:
  "traverse_loop ops path parent inode s = Some (rc, path', parent', inode', s') \<Longrightarrow> same_custodies s s'"
proof (induction path arbitrary: parent inode s rule: measure_induct_rule [of length])
  case (less whole)
  then obtain c path where whole: "whole = c # path" by (cases whole) auto
  show ?case
  proof (cases "c = NUL")
    case True
    then show ?thesis using less.prems by (simp add: whole)
  next
    case False
    have shorter: "length (drop n path) < length whole" for n by (simp add: whole)
    show ?thesis
      using less.prems False
      by (auto simp: whole bind_eq_Some_conv Let_def split: if_splits dest!: close_inode_keeps lookup_inode_custodies
          less.IH [OF shorter] intro: same_custodies_trans)
  qed
qed

lemma traverse_in_fs_custodies:
  assumes t: "traverse_in_fs ops f path s = Some (rc, parent, inode, s')"
  shows "same_custodies s s'"
proof (cases "icache_lookup (vfs_icache s f) (vfs_root s f)")
  case None
  then show ?thesis using t by (simp add: traverse_in_fs_def)
next
  case (Some root)
  then obtain rc1 s1 where o: "open_inode ops root s = Some (rc1, s1)"
    using t by (auto simp: traverse_in_fs_def bind_eq_Some_conv)
  show ?thesis
  proof (cases "rc1 = 0")
    case False
    then show ?thesis using t Some o open_inode_custodies [OF o] by (simp add: traverse_in_fs_def)
  next
    case True
    then obtain rc2 path2 p2 i2 s2 where l: "traverse_loop ops path None root s1 = Some (rc2, path2, p2, i2, s2)"
      using t Some o by (auto simp: traverse_in_fs_def bind_eq_Some_conv)
    have "same_custodies s2 s'"
      using t Some o True l by (auto simp: traverse_in_fs_def bind_eq_Some_conv split: if_splits dest: close_inode_keeps)
    then show ?thesis
      using open_inode_custodies [OF o] traverse_loop_custodies [OF l] same_custodies_trans by blast
  qed
qed

lemma traverse_custodies:
  assumes t: "traverse ops path s = Some (rc, parent, inode, s')"
  shows "same_custodies s s'"
proof -
  obtain ok s1 where m: "vfs_malloc s = (ok, s1)" by fastforce
  obtain cpath where c: "canonicalize_path ok path = Some cpath"
    using t m by (auto simp: traverse_def bind_eq_Some_conv)
  have "same_custodies s1 s'"
  proof (cases cpath)
    case None
    then show ?thesis using t m c by (simp add: traverse_def)
  next
    case (Some cp)
    then obtain mp where mp: "find_mountpoint cp (s_mountpoints s1) = Some mp"
      using t m c by (auto simp: traverse_def bind_eq_Some_conv)
    then show ?thesis
      using t m c Some by (cases mp) (auto simp: traverse_def dest: traverse_in_fs_custodies)
  qed
  then show ?thesis using malloc_custodies [OF m] same_custodies_trans by blast
qed

lemma find_or_create_custodies: "find_or_create ops path flags s = Some (rc, parent, inode, s') \<Longrightarrow> same_custodies s s'"
  by (auto simp: find_or_create_def bind_eq_Some_conv Let_def split: if_splits
      dest!: traverse_custodies create_inode_custodies intro: same_custodies_trans)

subsection \<open>The operations on open files\<close>

text \<open>\<open>opened X s s'\<close>: the open files of \<open>s\<close> are kept, those in \<open>X\<close> are new.\<close>

definition opened :: "nat set \<Rightarrow> ('c, 's) vfs \<Rightarrow> ('c, 's) vfs \<Rightarrow> bool" where
  "opened X s s' \<longleftrightarrow> dom (vfs_custodies s') = X \<union> dom (vfs_custodies s) \<and> X \<inter> dom (vfs_custodies s) = {} \<and>
     vfs_next s \<le> vfs_next s'"

lemma opened_same: "same_custodies s s' \<Longrightarrow> opened {} s s'"
  by (simp add: opened_def same_custodies_def)

lemma opened_trans: "opened X s t \<Longrightarrow> opened Y t u \<Longrightarrow> opened (X \<union> Y) s u"
  by (auto simp: opened_def)

lemma opened_simps [simp]: "opened X (set_inode p f i (s\<lparr>vfs_fs := fs\<rparr>)) t \<longleftrightarrow> opened X s t"
  by (simp add: opened_def)

lemma opened_before: "same_custodies s t \<Longrightarrow> opened X t u \<Longrightarrow> opened X s u"
  using opened_trans [OF opened_same] by fastforce

lemma vfs_close_custodies:
  assumes "vfs_close ops (Some c) s = Some (rc, s')"
  shows "dom (vfs_custodies s') = dom (vfs_custodies s) - {c} \<and> c \<in> dom (vfs_custodies s) \<and>
    vfs_next s \<le> vfs_next s' \<and> rc = 0"
  using assms
  by (auto simp: vfs_close_def free_custody_def bind_eq_Some_conv same_custodies_def dest!: close_inode_keeps split: if_splits)

lemma vfs_seek_custodies: "vfs_seek ops c whence off s = Some (r, s') \<Longrightarrow> opened {} s s'"
  by (auto simp: vfs_seek_def opened_def bind_eq_Some_conv Let_def split: if_splits)

lemma seek_after_custodies:
  "(if b then map_option snd (vfs_seek ops c whence off t) else Some t) = Some s' \<Longrightarrow> opened {} t s'"
  by (auto simp: opened_same dest: vfs_seek_custodies split: if_splits)

lemma vfs_write_custodies:
  assumes w: "vfs_write ops c buffer s = Some (r, s')"
  shows "opened {} s s'"
proof -
  obtain cu f i where c: "vfs_custodies s c = Some cu" "vfs_inodes s (custody_inode cu) = Some (f, i)"
    using w by (auto simp: vfs_write_def bind_eq_Some_conv)
  have "s' = s \<or> (\<exists>rc i' fs. (if rc > 0
        then map_option snd (vfs_seek ops c SEEK_CUR (of_int rc) (set_inode (custody_inode cu) f i' (s\<lparr>vfs_fs := fs\<rparr>)))
        else Some (set_inode (custody_inode cu) f i' (s\<lparr>vfs_fs := fs\<rparr>))) = Some s')"
    using w c by (auto simp: vfs_write_def bind_eq_Some_conv Let_def split: if_splits)
  then show ?thesis
    by (elim disjE exE) (auto simp: opened_same dest!: seek_after_custodies)
qed

lemma vfs_read_custodies:
  assumes w: "vfs_read ops c n s = Some (r, s')"
  shows "opened {} s s'"
proof -
  obtain cu f i where c: "vfs_custodies s c = Some cu" "vfs_inodes s (custody_inode cu) = Some (f, i)"
    using w by (auto simp: vfs_read_def bind_eq_Some_conv)
  have "s' = s \<or> (\<exists>rc t. same_custodies s t \<and>
      (if rc > (0 :: int) then map_option snd (vfs_seek ops c SEEK_CUR (of_int rc) t) else Some t) = Some s')"
    using w c by (auto simp: vfs_read_def bind_eq_Some_conv Let_def split: if_splits) (metis same_custodies_refl same_custodies_simps)+
  then show ?thesis
    by (auto simp: opened_same intro: opened_before dest!: seek_after_custodies)
qed

context counted_filesystems
begin

lemma vfs_open_custodies:
  assumes inv: "vfs_inv h s" and o: "vfs_open_absolute ops path flags s = Some (rc, custody, s')"
  shows "if rc = 0 then \<exists>c. custody = Some c \<and> opened {c} s s' else custody = None \<and> opened {} s s'"
proof -
  obtain rc1 parent inode s1 where f: "find_or_create ops path flags s = Some (rc1, parent, inode, s1)"
    using o by (auto simp: vfs_open_absolute_def bind_eq_Some_conv)
  note same = find_or_create_custodies [OF f]
  have less: "c < vfs_next s1" if "c \<in> dom (vfs_custodies s1)" for c
  proof -
    have "c < vfs_next s" using inv that same by (auto simp: vfs_inv_def same_custodies_def)
    then show ?thesis using same by (simp add: same_custodies_def)
  qed
  have alloc: "if rc2 = 0 then cust = Some (vfs_next s1) \<and> opened {vfs_next s1} s s2
      else cust = None \<and> same_custodies s s2" if "alloc_custody p flags s1 = (rc2, cust, s2)" for p rc2 cust s2
    using that less same
    by (auto simp: alloc_custody_def new_address_def opened_def same_custodies_def split: prod.splits if_splits
        dest!: malloc_custodies)
  have cleanup: "custody = None \<and> opened {} s s'"
    if "same_custodies s s2" "close_inode ops parent s2 = Some s3" "close_inode ops inode s3 = Some s4"
      "free_custody ops None s4 = Some s5" "(rc2, None, s5) = (rc, custody, s')" for s2 s3 s4 s5 rc2
  proof -
    have "same_custodies s s4"
      using that(1) close_inode_keeps [OF that(2)] close_inode_keeps [OF that(3)] same_custodies_trans by blast
    then show ?thesis using that(4,5) by (simp add: free_custody_def opened_same)
  qed
  obtain isdir where isdir: "(if rc1 = 0 then is_directory_error flags inode s1 else Some False) = Some isdir"
    using o f by (auto simp: vfs_open_absolute_def bind_eq_Some_conv)
  let ?rc = "if isdir then - errno ERR_ISDIR else rc1"
  obtain rc2 cust s2 where a: "(if ?rc = 0 then Option.bind inode (\<lambda>p. Some (alloc_custody p flags s1)) else Some (?rc, None, s1)) =
      Some (rc2, cust, s2)"
    using o f isdir unfolding vfs_open_absolute_def
    by (cases "if ?rc = 0 then Option.bind inode (\<lambda>p. Some (alloc_custody p flags s1)) else Some (?rc, None, s1)") auto
  have rest: "(if rc2 \<noteq> 0 then do {
       s \<leftarrow> close_inode ops parent s2; s \<leftarrow> close_inode ops inode s; s \<leftarrow> free_custody ops cust s;
       Some (rc2, cust, s) } else Some (rc2, cust, s2)) = Some (rc, custody, s')"
    using o f isdir a unfolding vfs_open_absolute_def by simp
  have s2: "if rc2 = 0 then cust = Some (vfs_next s1) \<and> opened {vfs_next s1} s s2 else cust = None \<and> same_custodies s s2"
    using a alloc [of _ rc2 cust s2] same by (auto simp: bind_eq_Some_conv split: if_splits)
  show ?thesis
  proof (cases "rc2 = 0")
    case True
    then show ?thesis using rest s2 by auto
  next
    case False
    then obtain s3 s4 where "close_inode ops parent s2 = Some s3" "close_inode ops inode s3 = Some s4"
        "free_custody ops None s4 = Some s'" "rc = rc2" "custody = None"
      using rest s2 by (auto simp: bind_eq_Some_conv)
    then show ?thesis using cleanup [of s2 s3 s4 s' rc] s2 False by simp
  qed
qed

lemma vfs_open_relative_custodies:
  assumes inv: "vfs_inv h s" and o: "vfs_open ops workdir path flags s = Some (rc, custody, s')"
  shows "vfs_inv h s' \<and> (if rc = 0 then \<exists>c. custody = Some c \<and> opened {c} s s' else custody = None \<and> opened {} s s')"
proof (cases "path_is_absolute path")
  case True
  then show ?thesis using o vfs_open_inv [OF inv] vfs_open_custodies [OF inv] by (auto simp: vfs_open_def)
next
  case False
  let ?long = "strnlen workdir MAX_PATH_LEN + strnlen path MAX_PATH_LEN + 2 > MAX_PATH_LEN"
  obtain ok t where m: "(if ?long then (False, s) else vfs_malloc s) = (ok, t)" by fastforce
  have t: "same_custodies s t" "vfs_next t = vfs_next s" using m malloc_custodies [of s] by (auto split: if_splits)
  have "vfs_inv h t"
  proof (cases ?long)
    case True
    then show ?thesis using m inv by simp
  next
    case False
    then have "vfs_malloc s = (ok, t)" using m by simp
    then show ?thesis
      by (cases rule: vfs_mallocE [of s]) (use vfs_inv_cong [OF _ _ _ _ inv, of t] in auto)
  qed
  note invt = this
  show ?thesis
  proof (cases "pathjoin ok workdir path")
    case None
    then show ?thesis using o False m t invt by (auto simp: vfs_open_def opened_same split: if_splits)
  next
    case (Some cpath)
    then have o': "vfs_open_absolute ops cpath flags t = Some (rc, custody, s')"
      using o False m by (auto simp: vfs_open_def split: if_splits)
    show ?thesis
      using vfs_open_inv [OF invt o'] vfs_open_custodies [OF invt o'] opened_before [OF t(1)]
      by (cases "rc = 0") auto
  qed
qed

lemma vfs_duplicate_custodies:
  assumes inv: "vfs_inv h s" and d: "vfs_duplicate c s = Some (dup, s')"
  shows "case dup of None \<Rightarrow> opened {} s s' | Some d \<Rightarrow> opened {d} s s'"
proof -
  obtain ok t where m: "vfs_malloc s = (ok, t)" by fastforce
  have less: "\<forall>c\<in>dom (vfs_custodies t). c < vfs_next t"
    using inv malloc_custodies [OF m] by (simp add: vfs_inv_def same_custodies_def)
  then show ?thesis
    using d m malloc_custodies [OF m]
    by (auto simp: vfs_duplicate_def new_address_def opened_def same_custodies_def bind_eq_Some_conv split: if_splits)
qed

lemma set_flags_inv:
  assumes inv: "vfs_inv h s" and c: "vfs_custodies s c = Some cu"
  shows "vfs_inv h (set_custody c (cu\<lparr>custody_flags := x\<rparr>) s)"
proof -
  have "open_files (set_custody c (cu\<lparr>custody_flags := x\<rparr>) s) p = open_files s p" for p
    unfolding open_files_def by (rule arg_cong [of _ _ card]) (use c in auto)
  moreover have "c \<in> dom (vfs_custodies s)" using c by auto
  moreover have "dom (vfs_custodies (set_custody c (cu\<lparr>custody_flags := x\<rparr>) s)) = dom (vfs_custodies s)"
    using c by auto
  moreover have "custody_inode cu \<in> dom (vfs_inodes s)" using inv c unfolding vfs_inv_def by blast
  ultimately show ?thesis using inv unfolding vfs_inv_def by (simp only:) auto
qed

lemma vfs_create_pipe_custodies:
  assumes inv: "vfs_inv h s" and d: "vfs_create_pipe ops s = Some (rc, snd_c, rcv_c, s')"
  shows "vfs_inv h s' \<and> (if rc = 0 then \<exists>a b. snd_c = Some a \<and> rcv_c = Some b \<and> a \<noteq> b \<and> opened {a, b} s s'
    else snd_c = None \<and> rcv_c = None \<and> opened {} s s')"
proof -
  obtain rc1 c1 s1 where o: "vfs_open_absolute ops ''/pipe/new'' OF_CREATE s = Some (rc1, c1, s1)"
    using d by (auto simp: vfs_create_pipe_def bind_eq_Some_conv)
  note inv1 = vfs_open_inv [OF inv o] and open1 = vfs_open_custodies [OF inv o]
  show ?thesis
  proof (cases "rc1 = 0")
    case False
    then show ?thesis using d o inv1 open1 by (auto simp: vfs_create_pipe_def free_custody_def)
  next
    case True
    then obtain a where a: "c1 = Some a" "opened {a} s s1" using open1 by auto
    obtain dup s2 where dup: "vfs_duplicate a s1 = Some (dup, s2)"
      using d o True a by (auto simp: vfs_create_pipe_def bind_eq_Some_conv)
    note inv2 = vfs_duplicate_inv [OF conjunct1 [OF inv1] dup] and open2 = vfs_duplicate_custodies [OF conjunct1 [OF inv1] dup]
    show ?thesis
    proof (cases dup)
      case None
      then obtain s3 where f: "free_custody ops (Some a) s2 = Some s3" and s': "s' = s3" "rc = - errno ERR_NOMEM" "snd_c = None" "rcv_c = None"
        using d o True a dup by (auto simp: vfs_create_pipe_def bind_eq_Some_conv)
      have "vfs_close ops (Some a) s2 = Some (0, s3)" using f by (simp add: vfs_close_def)
      from vfs_close_custodies [OF this] have "opened {} s s3" using a(2) open2 None by (auto simp: opened_def)
      then show ?thesis using s' free_custody_inv [OF inv2 f] by simp
    next
      case (Some b)
      then obtain sc rv where cs: "vfs_custodies s2 a = Some sc" "vfs_custodies s2 b = Some rv"
          and s': "s' = set_custody b (rv\<lparr>custody_flags := OF_RDONLY\<rparr>) (set_custody a (sc\<lparr>custody_flags := OF_WRONLY\<rparr>) s2)"
            "rc = 0" "snd_c = Some a" "rcv_c = Some b"
        using d o True a dup by (auto simp: vfs_create_pipe_def bind_eq_Some_conv)
      have o2: "opened {b} s1 s2" using open2 Some by simp
      then have "a \<noteq> b" "opened ({a} \<union> {b}) s s2" using a(2) opened_trans by (auto simp: opened_def)
      moreover from this have "opened {a, b} s s'" unfolding s' by (auto simp: opened_def)
      moreover have "vfs_inv h s'" unfolding s'(1)
        by (intro set_flags_inv set_flags_inv [OF inv2 cs(1)]) (use cs \<open>a \<noteq> b\<close> in simp)
      ultimately show ?thesis using s' by simp
    qed
  qed
qed

end

end
