(* ===== verification/Descriptors.thy ===== *)
theory Descriptors
  imports Scheduler VfsCustodies
begin

text \<open>
  The ownership of open files by file descriptors: in every state that the kernel reaches each open file belongs
  to exactly one descriptor of one process, and each descriptor that is in use refers to an open file.
\<close>

subsection \<open>Ownership\<close>

definition file_at :: "('c, 's) kernel \<Rightarrow> nat \<Rightarrow> nat \<Rightarrow> nat option" where
  "file_at k p fd = (case k_processes k p of
     None \<Rightarrow> None
   | Some pr \<Rightarrow> if fd < length (openfiles pr) then openfiles pr ! fd else None)"

text \<open>
  \<open>H\<close> are the open files that a running operation has in its hands, \<open>lo\<close> is a lower bound of the addresses that
  the heap gives out next: a step that keeps the invariant for every \<open>lo\<close> never lowers it.
\<close>

definition taken :: "(nat \<Rightarrow> nat \<Rightarrow> nat option) \<Rightarrow> nat set" where
  "taken f = {c. \<exists>p fd. f p fd = Some c}"

definition one_owner :: "(nat \<Rightarrow> nat \<Rightarrow> nat option) \<Rightarrow> bool" where
  "one_owner f \<longleftrightarrow> (\<forall>p fd q gd c. f p fd = Some c \<longrightarrow> f q gd = Some c \<longrightarrow> p = q \<and> fd = gd)"

definition owns :: "nat set \<Rightarrow> (nat \<Rightarrow> nat \<Rightarrow> nat option) \<Rightarrow> nat set \<Rightarrow> bool" where
  "owns H f D \<longleftrightarrow> D = H \<union> taken f \<and> H \<inter> taken f = {} \<and> one_owner f"

definition fd_inv :: "nat \<Rightarrow> nat set \<Rightarrow> ('c, 's) kernel \<Rightarrow> bool" where
  "fd_inv lo H k \<longleftrightarrow> lo \<le> vfs_next (k_vfs k) \<and> vfs_inv (\<lambda>_. 0) (k_vfs k) \<and> owns H (file_at k) (dom (vfs_custodies (k_vfs k))) \<and>
     (\<forall>p pr. k_processes k p = Some pr \<longrightarrow> p < vfs_next (k_vfs k) \<and> length (openfiles pr) = MAX_OPEN_FILES)"

lemma takenI: "f p fd = Some c \<Longrightarrow> c \<in> taken f"
  by (auto simp: taken_def)

lemma taken_clear:
  assumes "one_owner f" and "f p fd = Some c"
  shows "taken (f(p := (f p)(fd := None))) = taken f - {c}" and "one_owner (f(p := (f p)(fd := None)))"
proof -
  let ?g = "f(p := (f p)(fd := None))"
  have g: "?g q gd = (if q = p \<and> gd = fd then None else f q gd)" for q gd by simp
  show "taken ?g = taken f - {c}"
  proof (intro set_eqI iffI)
    fix x assume "x \<in> taken f - {c}"
    then obtain q gd where "f q gd = Some x" "x \<noteq> c" by (auto simp: taken_def)
    then have "?g q gd = Some x" using assms(2) by (auto simp: g)
    then show "x \<in> taken ?g" by (rule takenI)
  next
    fix x assume "x \<in> taken ?g"
    then obtain q gd where "f q gd = Some x" "\<not> (q = p \<and> gd = fd)" unfolding taken_def g by (auto split: if_splits)
    then show "x \<in> taken f - {c}" using assms takenI [of f q gd x] unfolding one_owner_def by blast
  qed
  show "one_owner ?g" unfolding one_owner_def g using assms(1) by (auto simp: one_owner_def)
qed

lemma taken_fill:
  assumes "f p fd = None"
  shows "taken (f(p := (f p)(fd := Some c))) = insert c (taken f)"
    and "one_owner f \<Longrightarrow> c \<notin> taken f \<Longrightarrow> one_owner (f(p := (f p)(fd := Some c)))"
proof -
  let ?g = "f(p := (f p)(fd := Some c))"
  have g: "?g q gd = (if q = p \<and> gd = fd then Some c else f q gd)" for q gd by simp
  show "taken ?g = insert c (taken f)"
    unfolding taken_def g using assms by (auto split: if_splits) (metis option.distinct(1))
  show "one_owner f \<Longrightarrow> c \<notin> taken f \<Longrightarrow> one_owner ?g"
    unfolding one_owner_def taken_def g by (auto split: if_splits)
qed

lemma taken_drop:
  "taken f = {c. \<exists>fd. f p fd = Some c} \<union> taken (f(p := \<lambda>_. None))"
  "one_owner f \<Longrightarrow> {c. \<exists>fd. f p fd = Some c} \<inter> taken (f(p := \<lambda>_. None)) = {} \<and> one_owner (f(p := \<lambda>_. None))"
  unfolding taken_def one_owner_def by (auto split: if_splits)

lemma owns_open: "owns H f D \<Longrightarrow> X \<inter> D = {} \<Longrightarrow> owns (H \<union> X) f (X \<union> D)"
  by (auto simp: owns_def)

lemma owns_close: "owns H f D \<Longrightarrow> c \<in> H \<Longrightarrow> owns (H - {c}) f (D - {c})"
  by (auto simp: owns_def)

lemma owns_clear: "owns H f D \<Longrightarrow> f p fd = Some c \<Longrightarrow> owns (insert c H) (f(p := (f p)(fd := None))) D"
  using taken_clear [of f p fd c] takenI [of f p fd c] by (auto simp: owns_def)

lemma owns_fill: "owns H f D \<Longrightarrow> f p fd = None \<Longrightarrow> c \<in> H \<Longrightarrow> owns (H - {c}) (f(p := (f p)(fd := Some c))) D"
proof -
  assume o: "owns H f D" and f: "f p fd = None" and c: "c \<in> H"
  then have "c \<notin> taken f" by (auto simp: owns_def)
  then show "owns (H - {c}) (f(p := (f p)(fd := Some c))) D"
    using taken_fill [of f p fd, OF f, of c] o c by (auto simp: owns_def)
qed

lemma owns_drop: "owns H f D \<Longrightarrow> owns (H \<union> {c. \<exists>fd. f p fd = Some c}) (f(p := \<lambda>_. None)) D"
  using taken_drop [of f p] unfolding owns_def by auto

lemma file_at_simps [simp]:
  "file_at (k\<lparr>k_vfs := v\<rparr>) = file_at k" "file_at (k\<lparr>k_vm := vm\<rparr>) = file_at k" "file_at (k\<lparr>k_mutexes := ms\<rparr>) = file_at k" "file_at (k\<lparr>k_sleepers := ss\<rparr>) = file_at k"
  "file_at (k\<lparr>k_threads := ts\<rparr>) = file_at k" "file_at (k\<lparr>s_all_threads := xs\<rparr>) = file_at k"
  "file_at (k\<lparr>s_all_threads_len := n\<rparr>) = file_at k" "file_at (k\<lparr>s_current_thread := t\<rparr>) = file_at k"
  "file_at (k\<lparr>s_next_available_pid := m\<rparr>) = file_at k" "file_at (k\<lparr>g_scheduler_has_started := b\<rparr>) = file_at k"
  "file_at (set_thread u th k) = file_at k"
  by (simp_all add: fun_eq_iff file_at_def set_thread_def)

lemma file_at_set_process:
  "file_at (set_process p pr k) = (file_at k)(p := \<lambda>fd. if fd < length (openfiles pr) then openfiles pr ! fd else None)"
  by (simp add: fun_eq_iff file_at_def set_process_def)

lemma file_at_process:
  "k_processes k p = Some pr \<Longrightarrow> file_at k p = (\<lambda>fd. if fd < length (openfiles pr) then openfiles pr ! fd else None)"
  by (simp add: fun_eq_iff file_at_def)

lemma fd_inv_simps [simp]:
  "fd_inv lo H (k\<lparr>k_vm := vm\<rparr>) \<longleftrightarrow> fd_inv lo H k" "fd_inv lo H (k\<lparr>k_mutexes := ms\<rparr>) \<longleftrightarrow> fd_inv lo H k"
  "fd_inv lo H (k\<lparr>k_sleepers := ss\<rparr>) \<longleftrightarrow> fd_inv lo H k"
  "fd_inv lo H (k\<lparr>k_threads := ts\<rparr>) \<longleftrightarrow> fd_inv lo H k" "fd_inv lo H (k\<lparr>s_all_threads := xs\<rparr>) \<longleftrightarrow> fd_inv lo H k"
  "fd_inv lo H (k\<lparr>s_all_threads_len := n\<rparr>) \<longleftrightarrow> fd_inv lo H k" "fd_inv lo H (k\<lparr>s_current_thread := t\<rparr>) \<longleftrightarrow> fd_inv lo H k"
  "fd_inv lo H (k\<lparr>s_next_available_pid := m\<rparr>) \<longleftrightarrow> fd_inv lo H k" "fd_inv lo H (k\<lparr>g_scheduler_has_started := b\<rparr>) \<longleftrightarrow> fd_inv lo H k"
  "fd_inv lo H (set_thread u th k) \<longleftrightarrow> fd_inv lo H k"
  by (simp_all add: fd_inv_def) (simp_all add: set_thread_def)

lemma fd_invD:
  assumes "fd_inv lo H k" and "k_processes k p = Some pr"
  shows "p < vfs_next (k_vfs k)" "length (openfiles pr) = MAX_OPEN_FILES"
  using assms by (auto simp: fd_inv_def)

subsection \<open>Steps that keep it\<close>

lemma fd_inv_vfs:
  assumes "fd_inv lo H k" and "opened X (k_vfs k) v" and "vfs_inv (\<lambda>_. 0) v"
  shows "fd_inv lo (H \<union> X) (k\<lparr>k_vfs := v\<rparr>)"
  using assms owns_open [of H "file_at k" _ X] by (fastforce simp: fd_inv_def opened_def)

lemma fd_inv_malloc: "kernel_malloc k = (ok, k') \<Longrightarrow> fd_inv lo H k \<Longrightarrow> fd_inv lo H k'"
proof -
  assume m: "kernel_malloc k = (ok, k')" and inv: "fd_inv lo H k"
  obtain v where v: "vfs_malloc (k_vfs k) = (ok, v)" "k' = k\<lparr>k_vfs := v\<rparr>"
    using m by (auto simp: kernel_malloc_def split: prod.splits)
  have "vfs_inv (\<lambda>_. 0) v"
    by (cases rule: vfs_mallocE [of "k_vfs k"]) (use v(1) inv vfs_inv_cong [of v "k_vfs k"] in \<open>auto simp: fd_inv_def\<close>)
  then show "fd_inv lo H k'" using fd_inv_vfs [OF inv opened_same] malloc_custodies [OF v(1)] v(2) by fastforce
qed

lemma kernel_malloc_fields:
  "kernel_malloc k = (ok, k') \<Longrightarrow> k_processes k' = k_processes k \<and> k_threads k' = k_threads k \<and>
     s_all_threads k' = s_all_threads k \<and> s_all_threads_len k' = s_all_threads_len k \<and>
     vfs_next (k_vfs k') = vfs_next (k_vfs k) \<and> s_current_thread k' = s_current_thread k"
  by (auto simp: kernel_malloc_def dest: malloc_custodies split: prod.splits)

lemma fd_inv_address:
  assumes "kernel_address k = (a, k')" and "fd_inv lo H k"
  shows "fd_inv lo H k' \<and> a = vfs_next (k_vfs k) \<and> vfs_next (k_vfs k') = Suc a \<and> k_processes k' = k_processes k"
proof -
  let ?v = "(k_vfs k)\<lparr>vfs_next := Suc (vfs_next (k_vfs k))\<rparr>"
  have k': "k' = k\<lparr>k_vfs := ?v\<rparr>" "a = vfs_next (k_vfs k)" using assms(1) by (auto simp: kernel_address_def new_address_def)
  have "vfs_inv (\<lambda>_. 0) ?v" by (rule vfs_inv_cong [of _ "k_vfs k"]) (use assms(2) in \<open>auto simp: fd_inv_def\<close>)
  moreover have "opened {} (k_vfs k) ?v" by (simp add: opened_def)
  ultimately show ?thesis using fd_inv_vfs [OF assms(2)] by (fastforce simp: k')
qed

lemma fd_inv_set_process:
  assumes "fd_inv lo H k" and "k_processes k p = Some pr" and "openfiles pr' = openfiles pr"
  shows "fd_inv lo H (set_process p pr' k)"
proof -
  have "file_at (set_process p pr' k) = file_at k"
    unfolding file_at_set_process assms(3) file_at_process [OF assms(2), symmetric] by simp
  then show ?thesis using assms by (auto simp: fd_inv_def) (auto simp: set_process_def split: if_splits)
qed

lemma fd_inv_new_process:
  assumes inv: "fd_inv lo H k" and p: "p < vfs_next (k_vfs k)" "k_processes k p = None"
    and pr: "openfiles pr = replicate MAX_OPEN_FILES None"
  shows "fd_inv lo H (set_process p pr k)"
proof -
  have "file_at k p = (\<lambda>_. None)" using p(2) by (simp add: file_at_def fun_eq_iff)
  then have "file_at (set_process p pr k) = file_at k"
    unfolding file_at_set_process pr by (auto simp: fun_eq_iff)
  then show ?thesis using inv p(1) pr by (auto simp: fd_inv_def) (auto simp: set_process_def split: if_splits)
qed

lemma set_file_slot_eq:
  "set_file_slot p fd c k = Some k' \<longleftrightarrow>
     (\<exists>pr. k_processes k p = Some pr \<and> k' = set_process p (pr\<lparr>openfiles := (openfiles pr)[fd := c]\<rparr>) k)"
  by (auto simp: set_file_slot_def bind_eq_Some_conv)

lemma file_at_slot:
  assumes "fd_inv lo H k" and "set_file_slot p fd c k = Some k'" and "fd < MAX_OPEN_FILES"
  shows "file_at k' = (file_at k)(p := (file_at k p)(fd := c))"
proof -
  obtain pr where pr: "k_processes k p = Some pr" "k' = set_process p (pr\<lparr>openfiles := (openfiles pr)[fd := c]\<rparr>) k"
    using assms(2) by (auto simp: set_file_slot_eq)
  then show ?thesis using fd_invD(2) [OF assms(1) pr(1)] assms(3)
    by (auto simp: file_at_set_process fun_eq_iff file_at_process nth_list_update)
qed

lemma file_at_less: "fd_inv lo H k \<Longrightarrow> file_at k p fd = Some c \<Longrightarrow> fd < MAX_OPEN_FILES"
  by (auto simp: file_at_def fd_inv_def split: option.splits if_splits)

lemma fd_inv_slot:
  assumes "fd_inv lo H k" and s: "set_file_slot p fd c k = Some k'" and "owns H' (file_at k') (dom (vfs_custodies (k_vfs k)))"
  shows "fd_inv lo H' k'"
  using assms by (auto simp: set_file_slot_eq fd_inv_def) (auto simp: set_process_def split: if_splits)

lemma fd_inv_clear:
  assumes inv: "fd_inv lo H k" and s: "set_file_slot p fd None k = Some k'" and c: "file_at k p fd = Some c"
  shows "fd_inv lo (insert c H) k'"
  using owns_clear [of H "file_at k" _ p fd c] inv c file_at_slot [OF inv s file_at_less [OF inv c]]
  by (intro fd_inv_slot [OF inv s]) (simp add: fd_inv_def)

lemma fd_inv_fill:
  assumes inv: "fd_inv lo H k" and s: "set_file_slot p fd (Some c) k = Some k'" and "file_at k p fd = None"
    and fd: "fd < MAX_OPEN_FILES" and c: "c \<in> H"
  shows "fd_inv lo (H - {c}) k'"
  using owns_fill [of H "file_at k" _ p fd c] assms file_at_slot [OF inv s fd]
  by (intro fd_inv_slot [OF inv s]) (simp add: fd_inv_def)

text \<open>A free slot whose value is overwritten with the same null pointer.\<close>

lemma fd_inv_null:
  assumes inv: "fd_inv lo H k" and s: "set_file_slot p fd None k = Some k'" and "file_at k p fd = None" and fd: "fd < MAX_OPEN_FILES"
  shows "fd_inv lo H k'"
proof -
  have "file_at k' = file_at k" using file_at_slot [OF inv s fd] assms(3) by (auto simp: fun_eq_iff)
  then show ?thesis using inv by (intro fd_inv_slot [OF inv s]) (simp add: fd_inv_def)
qed

context counted_filesystems
begin

lemma fd_inv_close:
  assumes inv: "fd_inv lo H k" and c: "vfs_close ops (Some c) (k_vfs k) = Some (rc, v)" and "c \<in> H"
  shows "fd_inv lo (H - {c}) (k\<lparr>k_vfs := v\<rparr>)"
proof -
  have "owns (H - {c}) (file_at k) (dom (vfs_custodies v))"
    using owns_close [of H "file_at k" _ c] inv assms(3) vfs_close_custodies [OF c] by (simp add: fd_inv_def)
  moreover have "vfs_inv (\<lambda>_. 0) v" using vfs_close_inv [OF _ c] inv by (simp add: fd_inv_def)
  ultimately show ?thesis using inv vfs_close_custodies [OF c] unfolding fd_inv_def by fastforce
qed

lemma close_if_open_held:
  assumes "fd_inv lo H k" and "close_if_open ops c k = Some k'" and "\<And>x. c = Some x \<Longrightarrow> x \<in> H"
  shows "fd_inv lo (H - {x. c = Some x}) k' \<and> k_processes k' = k_processes k"
  using assms fd_inv_close by (cases c) (auto simp: close_if_open_def bind_eq_Some_conv)

lemma fd_inv_close_slot:
  assumes inv: "fd_inv lo H k" and c: "vfs_close ops (Some c) (k_vfs k) = Some (rc, v)" and slot: "file_at k p fd = Some c"
    and s: "set_file_slot p fd None (k\<lparr>k_vfs := v\<rparr>) = Some k'"
  shows "fd_inv lo H k'"
proof -
  obtain pr where pr: "k_processes k p = Some pr"
      and k': "k' = set_process p (pr\<lparr>openfiles := (openfiles pr)[fd := None]\<rparr>) (k\<lparr>k_vfs := v\<rparr>)"
    using s by (auto simp: set_file_slot_eq)
  let ?k = "set_process p (pr\<lparr>openfiles := (openfiles pr)[fd := None]\<rparr>) k"
  have "set_file_slot p fd None k = Some ?k" using pr by (simp add: set_file_slot_eq)
  from fd_inv_clear [OF inv this slot] have "fd_inv lo (insert c H) ?k" .
  moreover have "c \<notin> H" using inv takenI [of "file_at k" p fd c] slot by (auto simp: fd_inv_def owns_def)
  moreover have "k_vfs ?k = k_vfs k" "?k\<lparr>k_vfs := v\<rparr> = k'" by (simp_all add: set_process_def k')
  ultimately show ?thesis using fd_inv_close [of lo "insert c H" ?k c rc v] c by simp
qed

end

end
