(* ===== verification/DescriptorsInv.thy ===== *)
theory DescriptorsInv
  imports Descriptors
begin

text \<open>Every system call and every step of the scheduler keeps the ownership of open files.\<close>

lemma free_descriptor_Some:
  assumes "free_descriptor pr = Some fd"
  shows "fd < length (openfiles pr) \<and> openfiles pr ! fd = None"
proof -
  have fd: "fd = length (takeWhile (\<lambda>c. c \<noteq> None) (openfiles pr))" "fd < length (openfiles pr)"
    using assms by (auto simp: free_descriptor_def Let_def split: if_splits)
  then show ?thesis using nth_length_takeWhile [of "\<lambda>c. c \<noteq> None" "openfiles pr"] by simp
qed

lemma free_slot:
  assumes "fd_inv lo H k" and "k_processes k p = Some pr" and "free_descriptor pr = Some fd"
  shows "file_at k p fd = None" "fd < MAX_OPEN_FILES"
  using free_descriptor_Some [OF assms(3)] fd_invD(2) [OF assms(1,2)] by (auto simp: file_at_process [OF assms(2)])

lemma descriptor_file_at:
  "k_processes k p = Some pr \<Longrightarrow> descriptor pr fd = Some c \<Longrightarrow> file_at k p (unat fd) = Some c \<and> valid_fd pr fd"
  by (auto simp: descriptor_def file_at_process valid_fd_def split: if_splits)

lemma valid_fd_less: "fd_inv lo H k \<Longrightarrow> k_processes k p = Some pr \<Longrightarrow> valid_fd pr fd \<Longrightarrow> unat fd < MAX_OPEN_FILES"
  using fd_invD(2) by (fastforce simp: valid_fd_def)

lemma vfs_of_fd_inv: "fd_inv lo H k \<Longrightarrow> vfs_inv (\<lambda>_. 0) (k_vfs k)"
  by (simp add: fd_inv_def)

lemma fd_inv_opened: "fd_inv lo H k \<Longrightarrow> opened {} (k_vfs k) v \<Longrightarrow> vfs_inv (\<lambda>_. 0) v \<Longrightarrow> fd_inv lo H (k\<lparr>k_vfs := v\<rparr>)"
  using fd_inv_vfs [of lo H k "{}" v] by simp

lemma distinct_filterI:
  "(\<And>i j. i < length xs \<Longrightarrow> j < length xs \<Longrightarrow> P (xs ! i) \<Longrightarrow> xs ! i = xs ! j \<Longrightarrow> i = j) \<Longrightarrow> distinct (filter P xs)"
proof (induction xs)
  case (Cons x xs)
  have "distinct (filter P xs)" by (rule Cons.IH) (use Cons.prems [of "Suc _" "Suc _"] in auto)
  moreover have "P x \<Longrightarrow> x \<notin> set xs"
    using Cons.prems [of 0 "Suc _"] by (auto simp: in_set_conv_nth)
  ultimately show ?case by simp
qed simp

context counted_filesystems
begin

subsection \<open>Calls on one file\<close>

lemma sys_open_inv:
  assumes inv: "fd_inv lo {} k" and s: "sys_open ops p path flags k = Some (r, k')"
  shows "fd_inv lo {} k'"
proof -
  obtain pr where pr: "k_processes k p = Some pr" using s by (auto simp: sys_open_def bind_eq_Some_conv)
  show ?thesis
  proof (cases "free_descriptor pr")
    case None
    then show ?thesis using s pr inv by (simp add: sys_open_def)
  next
    case (Some fd)
    then obtain rc custody v where o: "vfs_open ops (working_directory pr) path flags (k_vfs k) = Some (rc, custody, v)"
      using s pr by (auto simp: sys_open_def bind_eq_Some_conv)
    note op = vfs_open_relative_custodies [OF vfs_of_fd_inv [OF inv] o]
    show ?thesis
    proof (cases "rc = 0")
      case False
      then show ?thesis using s pr Some o op fd_inv_opened [OF inv] by (auto simp: sys_open_def)
    next
      case True
      then obtain c where c: "custody = Some c" "opened {c} (k_vfs k) v" using op by auto
      have set: "set_file_slot p fd (Some c) (k\<lparr>k_vfs := v\<rparr>) = Some k'"
        using s pr Some o True c by (auto simp: sys_open_def bind_eq_Some_conv)
      have "fd_inv lo {c} (k\<lparr>k_vfs := v\<rparr>)" using fd_inv_vfs [OF inv c(2)] op by simp
      from fd_inv_fill [OF this set] free_slot [OF inv pr Some] show ?thesis by simp
    qed
  qed
qed

lemma sys_close_inv:
  assumes inv: "fd_inv lo {} k" and s: "sys_close ops p fd k = Some (r, k')"
  shows "fd_inv lo {} k'"
proof -
  obtain pr where pr: "k_processes k p = Some pr" using s by (auto simp: sys_close_def bind_eq_Some_conv)
  show ?thesis
  proof (cases "descriptor pr fd")
    case None
    then show ?thesis using s pr inv by (simp add: sys_close_def)
  next
    case (Some c)
    then obtain v where "vfs_close ops (Some c) (k_vfs k) = Some (r, v)" "set_file_slot p (unat fd) None (k\<lparr>k_vfs := v\<rparr>) = Some k'"
      using s pr by (auto simp: sys_close_def bind_eq_Some_conv)
    then show ?thesis using fd_inv_close_slot [OF inv] descriptor_file_at [OF pr Some] by blast
  qed
qed

lemma sys_read_inv:
  assumes inv: "fd_inv lo {} k" and s: "sys_read ops p fd n k = Some (r, k')"
  shows "fd_inv lo {} k'"
proof -
  obtain pr where pr: "k_processes k p = Some pr" using s by (auto simp: sys_read_def bind_eq_Some_conv)
  show ?thesis
    using s pr inv vfs_read_inv [OF vfs_of_fd_inv [OF inv]] fd_inv_opened [OF inv vfs_read_custodies]
    by (cases "descriptor pr fd") (auto simp: sys_read_def bind_eq_Some_conv)
qed

lemma sys_write_inv:
  assumes inv: "fd_inv lo {} k" and s: "sys_write ops p fd buf k = Some (r, k')"
  shows "fd_inv lo {} k'"
proof -
  obtain pr where pr: "k_processes k p = Some pr" using s by (auto simp: sys_write_def bind_eq_Some_conv)
  show ?thesis
    using s pr inv vfs_write_inv [OF vfs_of_fd_inv [OF inv]] fd_inv_opened [OF inv vfs_write_custodies]
    by (cases "descriptor pr fd") (auto simp: sys_write_def bind_eq_Some_conv)
qed

lemma sys_seek_inv:
  assumes inv: "fd_inv lo {} k" and s: "sys_seek ops p fd off whence k = Some (r, x, k')"
  shows "fd_inv lo {} k'"
proof -
  obtain pr where pr: "k_processes k p = Some pr" using s by (auto simp: sys_seek_def bind_eq_Some_conv)
  show ?thesis
    using s pr inv vfs_seek_inv [OF vfs_of_fd_inv [OF inv]] fd_inv_opened [OF inv vfs_seek_custodies]
    by (cases "descriptor pr fd") (auto simp: sys_seek_def bind_eq_Some_conv Let_def split: if_splits)
qed

subsection \<open>Moving and duplicating descriptors\<close>

lemma sys_movefd_inv:
  assumes inv: "fd_inv lo {} k" and s: "sys_movefd ops p fd new_fd k = Some (r, k')"
  shows "fd_inv lo {} k'"
proof -
  obtain pr where pr: "k_processes k p = Some pr" using s by (auto simp: sys_movefd_def bind_eq_Some_conv)
  show ?thesis
  proof (cases "descriptor pr fd = None \<or> \<not> valid_fd pr new_fd")
    case True
    then show ?thesis using s pr inv by (auto simp: sys_movefd_def split: option.splits)
  next
    case False
    then obtain c where c: "descriptor pr fd = Some c" and new: "valid_fd pr new_fd" by auto
    let ?a = "unat fd" let ?b = "unat new_fd"
    note at = descriptor_file_at [OF pr c] and less = valid_fd_less [OF inv pr]
    have ofs: "openfiles pr ! ?a = Some c" using c by (auto simp: descriptor_def split: if_splits)
    obtain k1 where k1: "close_if_open ops (openfiles pr ! ?b) k = Some k1"
        and k': "k' = set_process p (pr\<lparr>openfiles := (openfiles pr)[?b := Some c, ?a := None]\<rparr>) k1"
        and pr1: "k_processes k1 p = Some pr"
      using s pr c new by (auto simp: sys_movefd_def bind_eq_Some_conv set_file_slot_eq set_process_def close_if_open_def split: if_splits)
    let ?k2 = "set_process p (pr\<lparr>openfiles := (openfiles pr)[?b := None]\<rparr>) k1"
    have s2: "set_file_slot p ?b None k1 = Some ?k2" using pr1 by (simp add: set_file_slot_eq)
    have b: "?b < length (openfiles pr)" using new by (simp add: valid_fd_def)
    have inv2: "fd_inv lo {} ?k2"
    proof (cases "openfiles pr ! ?b")
      case None
      then have "k1 = k" using k1 by (simp add: close_if_open_def)
      then show ?thesis
        using fd_inv_null [OF inv, of p ?b] s2 None b less [OF new] by (simp add: file_at_process [OF pr])
    next
      case (Some d)
      then obtain rc v where "vfs_close ops (Some d) (k_vfs k) = Some (rc, v)" "k1 = k\<lparr>k_vfs := v\<rparr>"
        using k1 by (auto simp: close_if_open_def bind_eq_Some_conv)
      then show ?thesis
        using fd_inv_close_slot [OF inv, of d rc v p ?b] s2 Some b by (simp add: file_at_process [OF pr])
    qed
    show ?thesis
    proof (cases "?a = ?b")
      case True
      then have "k' = ?k2" by (simp add: k')
      then show ?thesis using inv2 by simp
    next
      case False
      let ?ofs = "(openfiles pr)[?b := None, ?a := None]"
      let ?k3 = "set_process p (pr\<lparr>openfiles := ?ofs\<rparr>) k1"
      have p2: "k_processes ?k2 p = Some (pr\<lparr>openfiles := (openfiles pr)[?b := None]\<rparr>)" by (simp add: set_process_def)
      have s3: "set_file_slot p ?a None ?k2 = Some ?k3" unfolding set_file_slot_eq p2 by (simp add: set_process_def)
      have "file_at ?k2 p ?a = Some c" using False ofs at less [of fd] fd_invD(2) [OF inv pr] by (simp add: file_at_process [OF p2])
      from fd_inv_clear [OF inv2 s3 this] have inv3: "fd_inv lo {c} ?k3" .
      have p3: "k_processes ?k3 p = Some (pr\<lparr>openfiles := ?ofs\<rparr>)" by (simp add: set_process_def)
      have "set_file_slot p ?b (Some c) ?k3 = Some k'"
        unfolding set_file_slot_eq p3 k' using False by (simp add: set_process_def list_update_swap)
      moreover have "file_at ?k3 p ?b = None" using b False by (simp add: file_at_process [OF p3])
      ultimately show ?thesis using fd_inv_fill [OF inv3] less [OF new] by simp
    qed
  qed
qed

lemma sys_dup2_inv:
  assumes inv: "fd_inv lo {} k" and s: "sys_dup2 ops p fd new_fd k = Some (r, k')"
  shows "fd_inv lo {} k'"
proof -
  obtain pr where pr: "k_processes k p = Some pr" using s by (auto simp: sys_dup2_def bind_eq_Some_conv)
  show ?thesis
  proof (cases "descriptor pr fd = None \<or> \<not> valid_fd pr new_fd")
    case True
    then show ?thesis using s pr inv by (auto simp: sys_dup2_def split: if_splits)
  next
    case False
    then have new: "valid_fd pr new_fd" by simp
    let ?b = "unat new_fd"
    have b: "?b < length (openfiles pr)" using new by (simp add: valid_fd_def)
    obtain k1 pr1 c dup v where k1: "(if openfiles pr ! ?b \<noteq> None
          then Option.bind (close_if_open ops (openfiles pr ! ?b) k) (set_file_slot p ?b None) else Some k) = Some k1"
        and pr1: "k_processes k1 p = Some pr1" and dup: "vfs_duplicate c (k_vfs k1) = Some (dup, v)"
        and k': "set_file_slot p ?b dup (k1\<lparr>k_vfs := v\<rparr>) = Some k'"
      using s pr False unfolding sys_dup2_def by (auto simp: bind_eq_Some_conv)
    have inv1: "fd_inv lo {} k1 \<and> file_at k1 p ?b = None"
    proof (cases "openfiles pr ! ?b")
      case None
      then have same: "k1 = k" using k1 by simp
      have "file_at k p ?b = None" using None b by (simp add: file_at_process [OF pr])
      then show ?thesis using inv same by simp
    next
      case (Some d)
      then obtain rc v where v: "vfs_close ops (Some d) (k_vfs k) = Some (rc, v)" "set_file_slot p ?b None (k\<lparr>k_vfs := v\<rparr>) = Some k1"
        using k1 by (auto simp: close_if_open_def bind_eq_Some_conv)
      then have "fd_inv lo {} k1" using fd_inv_close_slot [OF inv, of d rc v p ?b] Some b by (simp add: file_at_process [OF pr])
      moreover have "file_at k1 p ?b = None"
        using v(2) by (auto simp: set_file_slot_eq file_at_set_process)
      ultimately show ?thesis by simp
    qed
    then have i1: "fd_inv lo {} k1" and at1: "file_at k1 p ?b = None" by auto
    have less: "?b < MAX_OPEN_FILES" by (rule valid_fd_less [OF inv pr new])
    note d = vfs_duplicate_custodies [OF vfs_of_fd_inv [OF i1] dup] and invv = vfs_duplicate_inv [OF vfs_of_fd_inv [OF i1] dup]
    show ?thesis
    proof (cases dup)
      case None
      then have "fd_inv lo {} (k1\<lparr>k_vfs := v\<rparr>)" using fd_inv_opened [OF i1 _ invv] d by simp
      then show ?thesis using fd_inv_null [of lo "{}" "k1\<lparr>k_vfs := v\<rparr>" p ?b k'] k' None at1 less by simp
    next
      case (Some x)
      then have "fd_inv lo {x} (k1\<lparr>k_vfs := v\<rparr>)" using fd_inv_vfs [OF i1 _ invv, of "{x}"] d by simp
      then show ?thesis using fd_inv_fill [of lo "{x}" _ p ?b x k'] k' Some at1 less by simp
    qed
  qed
qed

subsection \<open>Pipes\<close>

lemma close_two:
  assumes inv: "fd_inv lo {a, b} k" and "a \<noteq> b"
    and "close_if_open ops (Some b) k = Some k1" and "close_if_open ops (Some a) k1 = Some k2"
  shows "fd_inv lo {} k2 \<and> k_processes k2 = k_processes k"
proof -
  have "fd_inv lo {a} k1 \<and> k_processes k1 = k_processes k"
    using close_if_open_held [OF inv assms(3)] \<open>a \<noteq> b\<close> by (simp add: insert_Diff_if)
  then show ?thesis using close_if_open_held [of lo "{a}" k1 "Some a" k2] assms(4) by simp
qed

lemma close_if_open_commute:
  "close_if_open ops c (k\<lparr>k_processes := ps\<rparr>) = map_option (\<lambda>k. k\<lparr>k_processes := ps\<rparr>) (close_if_open ops c k)"
  by (simp add: close_if_open_def split: Option.bind_splits prod.splits)

lemma sys_create_pipe_inv:
  assumes inv: "fd_inv lo {} k" and s: "sys_create_pipe ops p k = Some (r, fds, k')"
  shows "fd_inv lo {} k'"
proof -
  obtain rc w rd v pr where c: "vfs_create_pipe ops (k_vfs k) = Some (rc, w, rd, v)" and pr: "k_processes k p = Some pr"
    using s by (auto simp: sys_create_pipe_def bind_eq_Some_conv Let_def)
  note cp = vfs_create_pipe_custodies [OF vfs_of_fd_inv [OF inv] c]
  let ?k = "k\<lparr>k_vfs := v\<rparr>"
  have pr': "k_processes ?k p = Some pr" using pr by simp
  show ?thesis
  proof (cases "rc = 0")
    case False
    then show ?thesis using s c pr cp fd_inv_opened [OF inv] by (auto simp: sys_create_pipe_def close_if_open_def)
  next
    case True
    then obtain a b where ab: "w = Some a" "rd = Some b" "a \<noteq> b" "opened {a, b} (k_vfs k) v" using cp by auto
    have inv1: "fd_inv lo {a, b} ?k" using fd_inv_vfs [OF inv ab(4)] cp by simp
    show ?thesis
    proof (cases "free_descriptor pr")
      case None
      then show ?thesis using s c pr True ab close_two [OF inv1 ab(3)] by (auto simp: sys_create_pipe_def bind_eq_Some_conv)
    next
      case (Some rfd)
      let ?pr = "pr\<lparr>openfiles := (openfiles pr)[rfd := Some b]\<rparr>"
      let ?k2 = "set_process p ?pr ?k"
      have set: "set_file_slot p rfd (Some b) ?k = Some ?k2" using pr by (simp add: set_file_slot_eq)
      note slot = free_slot [OF inv1 pr' Some]
      have inv2: "fd_inv lo {a} ?k2"
        using fd_inv_fill [OF inv1 set slot] \<open>a \<noteq> b\<close> by (simp add: insert_Diff_if)
      have pr2: "k_processes ?k2 p = Some ?pr" by (simp add: set_process_def)
      show ?thesis
      proof (cases "free_descriptor ?pr")
        case None
        then obtain k3 k4 where k: "close_if_open ops (Some b) ?k2 = Some k3" "close_if_open ops (Some a) k3 = Some k4"
            "set_file_slot p rfd None k4 = Some k'"
          using s c pr True ab Some pr2 set by (auto simp: sys_create_pipe_def bind_eq_Some_conv)
        let ?ps = "(k_processes k)(p \<mapsto> ?pr)"
        have k2: "?k2 = ?k\<lparr>k_processes := ?ps\<rparr>" by (simp add: set_process_def)
        obtain l3 l4 where l: "close_if_open ops (Some b) ?k = Some l3" "close_if_open ops (Some a) l3 = Some l4"
            "k4 = l4\<lparr>k_processes := ?ps\<rparr>"
          using k(1,2) unfolding k2 close_if_open_commute by (auto simp: close_if_open_commute)
        from close_two [OF inv1 ab(3) l(1,2)] have inv4: "fd_inv lo {} l4" "k_processes l4 = k_processes k" by auto
        have "(openfiles pr)[rfd := None] = openfiles pr"
          using free_descriptor_Some [OF Some] by (metis list_update_id)
        then have "k' = l4"
          using k(3) pr inv4(2) by (auto simp: l(3) set_file_slot_eq set_process_def fun_upd_idem)
        then show ?thesis using inv4 by simp
      next
        case (Some wfd)
        then have "set_file_slot p wfd (Some a) ?k2 = Some k'"
          using s c pr True ab \<open>free_descriptor pr = Some rfd\<close> pr2 set by (auto simp: sys_create_pipe_def bind_eq_Some_conv)
        from fd_inv_fill [OF inv2 this free_slot [OF inv2 pr2 Some]] show ?thesis by simp
      qed
    qed
  qed
qed

subsection \<open>The working directory, exit and waiting\<close>

lemma createcwd_keeps:
  assumes inv: "fd_inv lo {} k" and c: "createcwd wd path k = Some (r, k')"
  shows "fd_inv lo {} k' \<and> k_processes k' = k_processes k"
proof -
  have m: "fd_inv lo {} k1 \<and> k_processes k1 = k_processes k0" if "kernel_malloc k0 = (ok, k1)" "fd_inv lo {} k0" for ok k0 k1
    using that fd_inv_malloc kernel_malloc_fields by blast
  show ?thesis
    using c inv m unfolding createcwd_def
    by (auto simp: bind_eq_Some_conv Let_def split: if_splits prod.split_asm option.split_asm)
qed

lemma sys_setcwd_inv:
  assumes inv: "fd_inv lo {} k" and s: "sys_setcwd p path k = Some (r, k')"
  shows "fd_inv lo {} k'"
proof -
  obtain pr r1 k1 where pr: "k_processes k p = Some pr" and c: "createcwd (working_directory pr) path k = Some (r1, k1)"
    using s by (auto simp: sys_setcwd_def bind_eq_Some_conv)
  note k1 = createcwd_keeps [OF inv c]
  show ?thesis
    using s pr c k1 fd_inv_set_process [of lo "{}" k1 p pr] by (cases r1) (auto simp: sys_setcwd_def)
qed

lemma sys_exit_inv:
  assumes inv: "fd_inv lo {} k" and s: "sys_exit t code k = Some k'"
  shows "fd_inv lo {} k'"
proof -
  obtain th pr where th: "k_threads k t = Some th" and pr: "k_processes k (thread_process th) = Some pr"
    and k': "k' = set_process (thread_process th) (pr\<lparr>exit_code := code\<rparr>) (set_thread t (th\<lparr>thread_state := Zombie\<rparr>) k)"
    using s by (auto simp: sys_exit_def bind_eq_Some_conv)
  show ?thesis unfolding k'
    by (rule fd_inv_set_process) (use inv pr in \<open>simp_all\<close>, simp add: set_thread_def)
qed

lemma sys_waitexit_inv:
  assumes inv: "fd_inv lo {} k" and s: "sys_waitexit m n k = Some (r, k')"
  shows "fd_inv lo {} k'"
proof -
  let ?k = "k\<lparr>k_mutexes := (k_mutexes k)(m := mutex_init Locked)\<rparr>"
  have inv1: "fd_inv lo {} ?k" using inv by simp
  obtain found where f: "lookup_process_by_pid n ?k = Some found" using s by (auto simp: sys_waitexit_def bind_eq_Some_conv Let_def)
  show ?thesis
  proof (cases found)
    case None
    then show ?thesis using s f inv1 by (auto simp: sys_waitexit_def)
  next
    case (Some q)
    then obtain pr where "k_processes ?k q = Some pr" using s f by (auto simp: sys_waitexit_def bind_eq_Some_conv Let_def)
    then show ?thesis
      using s f Some inv1 fd_inv_set_process [OF inv1, of q pr]
      by (auto simp: sys_waitexit_def bind_eq_Some_conv Let_def split: if_splits)
  qed
qed

subsection \<open>Release\<close>

lemma notify_exit_inv:
  assumes inv: "fd_inv lo {} k" and s: "notify_exit p k = Some k'"
  shows "fd_inv lo {} k'"
proof -
  obtain pr where pr: "k_processes k p = Some pr" using s by (auto simp: notify_exit_def bind_eq_Some_conv)
  then show ?thesis using s inv by (auto simp: notify_exit_def intro!: fd_inv_set_process)
qed

lemma close_files_inv:
  assumes "close_files ops fs v = Some v'" and "fd_inv lo H k" and "k_vfs k = v"
    and "distinct (filter (\<lambda>c. c \<noteq> None) fs)" and "{c. Some c \<in> set fs} \<subseteq> H"
  shows "fd_inv lo (H - {c. Some c \<in> set fs}) (k\<lparr>k_vfs := v'\<rparr>)"
  using assms
proof (induction fs arbitrary: v H k)
  case (Cons c fs)
  show ?case
  proof (cases c)
    case None
    then show ?thesis using Cons by simp
  next
    case (Some d)
    then obtain rc v1 where v1: "vfs_close ops (Some d) v = Some (rc, v1)" "close_files ops fs v1 = Some v'"
      using Cons.prems(1) by (auto simp: bind_eq_Some_conv)
    have "fd_inv lo (H - {d}) (k\<lparr>k_vfs := v1\<rparr>)"
      using fd_inv_close [OF Cons.prems(2), of d rc v1] v1(1) Cons.prems(3,5) Some by auto
    moreover have "Some d \<notin> set fs" using Cons.prems(4) Some by auto
    then have "{c. Some c \<in> set fs} \<subseteq> H - {d}" using Cons.prems(5) Some by auto
    ultimately have "fd_inv lo (H - {d} - {c. Some c \<in> set fs}) (k\<lparr>k_vfs := v1, k_vfs := v'\<rparr>)"
      using Cons.IH [OF v1(2), of "H - {d}" "k\<lparr>k_vfs := v1\<rparr>"] Cons.prems(4) Some by simp
    moreover have "H - {d} - {c. Some c \<in> set fs} = H - {x. Some x \<in> set (c # fs)}" using Some by auto
    ultimately show ?thesis by simp
  qed
qed (auto simp: fd_inv_def)

lemma release_process_inv:
  assumes inv: "fd_inv lo {} k" and s: "release_process ops p k = Some k'"
  shows "fd_inv lo {} k'"
proof -
  obtain pr v as vm where pr: "k_processes k p = Some pr" and v: "close_files ops (openfiles pr) (k_vfs k) = Some v"
      and k': "k' = k\<lparr>k_vfs := v, k_vm := vm, k_processes := (k_processes k)(p := None)\<rparr>"
    using s by (auto simp: release_process_def bind_eq_Some_conv)
  let ?H = "{c. Some c \<in> set (openfiles pr)}" let ?k = "k\<lparr>k_processes := (k_processes k)(p := None)\<rparr>"
  have at: "{c. \<exists>fd. file_at k p fd = Some c} = ?H"
    by (auto simp: file_at_process [OF pr] in_set_conv_nth split: if_splits)
  have "file_at ?k = (file_at k)(p := \<lambda>_. None)" by (auto simp: file_at_def fun_eq_iff)
  then have inv1: "fd_inv lo ?H ?k"
    using inv owns_drop [of "{}" "file_at k" _ p] by (auto simp: fd_inv_def at split: if_splits)
  have "one_owner (file_at k)" using inv by (simp add: fd_inv_def owns_def)
  then have "distinct (filter (\<lambda>c. c \<noteq> None) (openfiles pr))"
    unfolding one_owner_def by (intro distinct_filterI) (metis file_at_process [OF pr] option.exhaust)
  then have "fd_inv lo {} (?k\<lparr>k_vfs := v\<rparr>)"
    using close_files_inv [OF v inv1] by simp
  moreover have "k' = (?k\<lparr>k_vfs := v\<rparr>)\<lparr>k_vm := vm\<rparr>" by (simp add: k')
  ultimately show ?thesis by simp
qed

lemma free_thread_inv:
  assumes inv: "fd_inv lo {} k" and s: "free_thread ops t k = Some k'"
  shows "fd_inv lo {} k'"
proof -
  obtain th pr where th: "k_threads k t = Some th" and pr: "k_processes k (thread_process th) = Some pr"
    using s by (auto simp: free_thread_def bind_eq_Some_conv Let_def)
  let ?p = "thread_process th"
  let ?pr = "pr\<lparr>threads_data := snd (array_swap_remove (threads_data pr) (unat (threads_count pr)) t),
                 threads_count := threads_count pr - 1\<rparr>"
  let ?k = "set_process ?p ?pr (k\<lparr>k_threads := (k_threads k)(t := None)\<rparr>)"
  have inv1: "fd_inv lo {} ?k" by (rule fd_inv_set_process) (use inv pr in simp_all)
  let ?i = "array_find (s_all_threads ?k) (s_all_threads_len ?k) (Some t)"
  define k2 where "k2 = (if ?i \<noteq> s_all_threads_len ?k then ?k\<lparr>s_all_threads := (s_all_threads ?k)[?i := None]\<rparr> else ?k)"
  have inv2: "fd_inv lo {} k2" using inv1 by (simp add: k2_def)
  have "(if threads_count ?pr = 0 then Option.bind (notify_exit ?p k2) (release_process ops ?p) else Some k2) = Some k'"
    using s th pr unfolding free_thread_def k2_def Let_def by (auto simp: bind_eq_Some_conv split: if_splits)
  then consider "k' = k2" | k3 where "notify_exit ?p k2 = Some k3" "release_process ops ?p k3 = Some k'"
    by (auto simp: bind_eq_Some_conv split: if_splits)
  then show ?thesis using inv2 notify_exit_inv release_process_inv by cases blast+
qed

lemma free_threads_loop_inv:
  assumes "free_threads_loop ops i p k = Some k'" and "fd_inv lo {} k"
  shows "fd_inv lo {} k'"
proof -
  let ?P = "\<lambda>ops' i p k k'. ops' = ops \<longrightarrow> fd_inv lo {} k \<longrightarrow> fd_inv lo {} k'"
  have "?P ops i p k k'"
  proof (rule free_threads_loop.raw_induct [where P = ?P, OF _ assms(1)])
    fix loop :: "('c, 's) fs_table \<Rightarrow> nat \<Rightarrow> nat \<Rightarrow> ('c, 's) kernel \<Rightarrow> ('c, 's) kernel option"
    fix ops' i p and k k' :: "('c, 's) kernel"
    assume IH: "\<And>ops' i p k k'. loop ops' i p k = Some k' \<Longrightarrow> ?P ops' i p k k'"
      and s: "Option.bind (k_processes k p) (\<lambda>pr. if i < unat (threads_count pr)
        then Option.bind (case threads_data pr of [] \<Rightarrow> None | t # _ \<Rightarrow> Some t)
               (\<lambda>t. Option.bind (free_thread ops' t k) (loop ops' (Suc i) p))
        else Some k) = Some k'"
    consider "k' = k" | t k1 where "free_thread ops' t k = Some k1" "loop ops' (Suc i) p k1 = Some k'"
      using s by (auto simp: bind_eq_Some_conv split: if_splits)
    then show "?P ops' i p k k'" using IH free_thread_inv by cases blast+
  qed
  then show ?thesis using assms(2) by simp
qed

lemma free_process_inv:
  assumes inv: "fd_inv lo {} k" and s: "free_process ops p k = Some k'"
  shows "fd_inv lo {} k'"
proof -
  obtain k1 k2 where "notify_exit p k = Some k1" "free_threads_loop ops 0 p k1 = Some k2" "release_process ops p k2 = Some k'"
    using s by (auto simp: free_process_def bind_eq_Some_conv)
  then show ?thesis using notify_exit_inv [OF inv] free_threads_loop_inv release_process_inv by blast
qed

subsection \<open>Creation\<close>

lemma alloc_process_stacks_inv:
  assumes inv: "fd_inv lo {} k" and s: "alloc_process_stacks p t as n name entrypoint privileged k = Some (r, k')"
    and p: "p < vfs_next (k_vfs k)" "k_processes k p = None"
  shows "fd_inv lo {} k' \<and> (\<forall>q. r = Some q \<longrightarrow> q = p \<and> file_at k' p = (\<lambda>_. None))"
proof -
  obtain stack vm where st: "alloc_kernel_stack (k_vm k) = Some (stack, vm)"
    using s by (auto simp: alloc_process_stacks_def bind_eq_Some_conv)
  let ?k = "k\<lparr>k_vm := vm\<rparr>"
  show ?thesis
  proof (cases stack)
    case None
    then show ?thesis using s st inv by (auto simp: alloc_process_stacks_def alloc_process_cleanup_def bind_eq_Some_conv)
  next
    case (Some sp)
    then obtain us vm2 where us: "alloc_thread_user_stack (Some as) 0 vm = Some (us, vm2)"
      using s st by (auto simp: alloc_process_stacks_def bind_eq_Some_conv)
    show ?thesis
    proof (cases us)
      case None
      then show ?thesis
        using s st us Some inv by (auto simp: alloc_process_stacks_def alloc_process_cleanup_def bind_eq_Some_conv)
    next
      case (Some u)
      obtain sp' frame where init: "arch_create_initial_kernel_stack sp u entrypoint privileged = (sp', frame)" by fastforce
      obtain pr th where k': "r = Some p" "k' = set_thread t th (set_process p pr (k\<lparr>k_vm := vm2\<rparr>))"
          and pr: "openfiles pr = replicate MAX_OPEN_FILES None"
        using s st us Some \<open>stack = Some sp\<close> init by (auto simp: alloc_process_stacks_def)
      have "fd_inv lo {} (set_process p pr (k\<lparr>k_vm := vm2\<rparr>))"
        by (rule fd_inv_new_process) (use inv p pr in simp_all)
      then show ?thesis using k' pr by (auto simp: file_at_set_process)
    qed
  qed
qed

lemma alloc_process_inv:
  assumes inv: "fd_inv lo {} k" and s: "alloc_process name entrypoint privileged k = Some (r, k')"
  shows "fd_inv lo {} k' \<and> (\<forall>q. r = Some q \<longrightarrow> file_at k' q = (\<lambda>_. None))"
proof -
  obtain a1 k1 where m1: "kernel_malloc k = (a1, k1)" by fastforce
  obtain a2 k2 where m2: "kernel_malloc k1 = (a2, k2)" by fastforce
  obtain a3 k3 where m3: "kernel_malloc k2 = (a3, k3)" by fastforce
  obtain p k4 where n1: "kernel_address k3 = (p, k4)" by fastforce
  obtain t k5 where n2: "kernel_address k4 = (t, k5)" by fastforce
  let ?k6 = "k5\<lparr>s_next_available_pid := s_next_available_pid k5 + 1\<rparr>"
  obtain a7 k7 where m7: "kernel_malloc ?k6 = (a7, k7)" by fastforce
  have i3: "fd_inv lo {} k3" using fd_inv_malloc inv m1 m2 m3 by blast
  note i4 = fd_inv_address [OF n1 i3]
  from i4 have "fd_inv lo {} k4" by simp
  note i5 = fd_inv_address [OF n2 this]
  have i6: "fd_inv lo {} ?k6" using i5 by simp
  have i7: "fd_inv lo {} k7" by (rule fd_inv_malloc [OF m7 i6])
  have p: "p < vfs_next (k_vfs k7)" "k_processes k7 p = None"
    using kernel_malloc_fields [OF m7] i4 i5 fd_invD(1) [OF i3, of p] by (auto intro: ccontr)
  show ?thesis
  proof (cases a1)
    case False
    then show ?thesis using s m1 m2 m3 i3 by (simp add: alloc_process_def)
  next
    case True
    then obtain created vm where "vm_create_address_space (k_vm k7) = Some (created, vm)"
      using s m1 m2 m3 n1 n2 m7 by (auto simp: alloc_process_def Let_def bind_eq_Some_conv)
    then obtain as where "alloc_process_stacks p t as (s_next_available_pid k5) name entrypoint privileged (k7\<lparr>k_vm := vm\<rparr>) = Some (r, k')"
      using s m1 m2 m3 n1 n2 m7 True
      by (cases created) (auto simp: alloc_process_def Let_def bind_eq_Some_conv)
    then show ?thesis
      using alloc_process_stacks_inv [of lo "k7\<lparr>k_vm := vm\<rparr>"] i7 p by fastforce
  qed
qed

end

end
