(* ===== verification/ExecveInv.thy ===== *)
theory ExecveInv
  imports DescriptorsInv
begin

text \<open>
  What the calls on devices and the change of program keep: the ownership of open files, and the state of every
  thread.
\<close>

subsection \<open>What loading a program changes\<close>

lemma kernel_malloc_eq: "kernel_malloc k = (ok, k') \<Longrightarrow> \<exists>v. k' = k\<lparr>k_vfs := v\<rparr>"
  by (auto simp: kernel_malloc_def split: prod.splits)

lemma clone_strings_eq: "clone_strings xs k = Some (rc, k') \<Longrightarrow> \<exists>v. k' = k\<lparr>k_vfs := v\<rparr>"
proof (induction xs arbitrary: k)
  case Nil
  then have "k' = k\<lparr>k_vfs := k_vfs k\<rparr>" by simp
  then show ?case by blast
next
  case (Cons x xs)
  obtain ok k1 where m: "kernel_malloc k = (ok, k1)" by fastforce
  obtain v where "k1 = k\<lparr>k_vfs := v\<rparr>" using kernel_malloc_eq [OF m] by blast
  then show ?case using Cons.prems Cons.IH [of k1] m by (auto split: if_splits)
qed

lemma clone_array_eq: "clone_user_array_of_strings xs k = Some (rc, k') \<Longrightarrow> \<exists>v. k' = k\<lparr>k_vfs := v\<rparr>"
proof -
  assume c: "clone_user_array_of_strings xs k = Some (rc, k')"
  obtain ok k1 where m: "kernel_malloc k = (ok, k1)" by fastforce
  have same: "k = k\<lparr>k_vfs := k_vfs k\<rparr>" by simp
  obtain v where k1: "k1 = k\<lparr>k_vfs := v\<rparr>" using kernel_malloc_eq [OF m] by blast
  have "k' = k \<or> k' = k1 \<or> clone_strings xs k1 = Some (rc, k')"
    using c m by (auto simp: clone_user_array_of_strings_def split: if_splits)
  then show ?thesis using clone_strings_eq [of xs k1 rc k'] k1 same by (elim disjE) (blast, blast, fastforce)
qed

lemma elf_load_eq:
  assumes "elf_load_into_address_space ops raw workdir path as k = Some (r, k')"
  shows "\<exists>v vm. k' = k\<lparr>k_vfs := v, k_vm := vm\<rparr>"
proof -
  have same: "k1\<lparr>k_vfs := v\<rparr> = k1\<lparr>k_vfs := v, k_vm := k_vm k1\<rparr>" for k1 :: "('a, 'b) kernel" and v by simp
  obtain rc custody v where o: "vfs_open ops workdir path OF_RDONLY (k_vfs k) = Some (rc, custody, v)"
    using assms by (auto simp: elf_load_into_address_space_def bind_eq_Some_conv)
  note l = assms [unfolded elf_load_into_address_space_def o, simplified]
  show ?thesis
  proof (cases "rc = 0")
    case False
    then obtain v' where "k' = k\<lparr>k_vfs := v'\<rparr>" using l by (auto simp: bind_eq_Some_conv)
    then show ?thesis using same by blast
  next
    case True
    then obtain c n v2 x v3 where s: "custody = Some c" "vfs_seek ops c SEEK_END 0 v = Some (n, v2)"
        "vfs_seek ops c SEEK_SET 0 v2 = Some (x, v3)"
      using l by (auto simp: bind_eq_Some_conv)
    obtain ok k2 where m: "kernel_malloc (k\<lparr>k_vfs := v3\<rparr>) = (ok, k2)" by fastforce
    obtain w where "k2 = k\<lparr>k_vfs := w\<rparr>" using kernel_malloc_eq [OF m] by auto
    moreover have "k' = k2 \<or> (\<exists>v'. k' = k2\<lparr>k_vfs := v'\<rparr>) \<or> (\<exists>v' vm. k' = k2\<lparr>k_vfs := v', k_vm := vm\<rparr>)"
    proof (cases "\<not> ok \<or> n < 0")
      case True
      then show ?thesis using l \<open>rc = 0\<close> s m by (auto simp: bind_eq_Some_conv)
    next
      case False
      then obtain b v4 where r: "vfs_read ops c (of_int n) (k_vfs k2) = Some (b, v4)"
        using l \<open>rc = 0\<close> s m by (auto simp: bind_eq_Some_conv)
      show ?thesis
      proof (cases b)
        case Yield
        then show ?thesis using l \<open>rc = 0\<close> s m False r by simp
      next
        case (Return y)
        then obtain v' vm where "k' = k2\<lparr>k_vfs := v', k_vm := vm\<rparr>"
          using l \<open>rc = 0\<close> s m False r by (cases y) (auto simp: bind_eq_Some_conv)
        then show ?thesis by blast
      qed
    qed
    ultimately have "(\<exists>v'. k' = k\<lparr>k_vfs := v'\<rparr>) \<or> (\<exists>v' vm. k' = k\<lparr>k_vfs := v', k_vm := vm\<rparr>)" by auto
    then show ?thesis using same by blast
  qed
qed

text \<open>What is certain once the call has got as far as loading the file.\<close>

lemma sys_execve_start:
  assumes "sys_execve ops raw t p path argv envp k = Some (r, k')"
  obtains pr k1 k2 as vm q k3 where "k_processes k p = Some pr" and "clone_user_array_of_strings argv k = Some (0, k1)"
    and "clone_user_array_of_strings envp k1 = Some (0, k2)" and "vm_create_address_space (k_vm k2) = Some (Inr as, vm)"
    and "elf_load_into_address_space ops raw (working_directory pr) path (Some as) (k2\<lparr>k_vm := vm\<rparr>) = Some (q, k3)"
proof -
  obtain pr k1 k2 na vm where pr: "k_processes k p = Some pr" and c1: "clone_user_array_of_strings argv k = Some (0, k1)"
      and c2: "clone_user_array_of_strings envp k1 = Some (0, k2)" and a: "vm_create_address_space (k_vm k2) = Some (na, vm)"
    using assms by (auto simp: sys_execve_def bind_eq_Some_conv kassert_def split: if_splits)
  obtain as where na: "na = Inr as" using assms pr c1 c2 a by (cases na) (simp_all add: sys_execve_def kassert_def)
  obtain q k3 where "elf_load_into_address_space ops raw (working_directory pr) path (Some as) (k2\<lparr>k_vm := vm\<rparr>) = Some (q, k3)"
    using assms pr c1 c2 a na by (simp add: sys_execve_def kassert_def bind_eq_Some_conv) blast
  then show ?thesis using that pr c1 c2 a na by blast
qed

lemma sys_execve_cases:
  assumes "sys_execve ops raw t p path argv envp k = Some (r, k')"
  obtains (kept) v vm where "k' = k\<lparr>k_vfs := v, k_vm := vm\<rparr>"
  | (entered) v vm as entrypoint userstack rc where
      "enter_program t p path argv envp as entrypoint userstack (k\<lparr>k_vfs := v, k_vm := vm\<rparr>) = Some (rc, k')"
proof -
  obtain pr k1 k2 as vm q k3 where pr: "k_processes k p = Some pr" and c1: "clone_user_array_of_strings argv k = Some (0, k1)"
      and c2: "clone_user_array_of_strings envp k1 = Some (0, k2)" and a: "vm_create_address_space (k_vm k2) = Some (Inr as, vm)"
      and l: "elf_load_into_address_space ops raw (working_directory pr) path (Some as) (k2\<lparr>k_vm := vm\<rparr>) = Some (q, k3)"
    using assms by (rule sys_execve_start)
  obtain v1 where "k1 = k\<lparr>k_vfs := v1\<rparr>" using clone_array_eq [OF c1] by blast
  then obtain v2 where "k2 = k\<lparr>k_vfs := v2\<rparr>" using clone_array_eq [OF c2] by auto
  then obtain v3 vm3 where k3: "k3 = k\<lparr>k_vfs := v3, k_vm := vm3\<rparr>" using elf_load_eq [OF l] by auto
  note s = assms [unfolded sys_execve_def, simplified pr c1 c2 a l kassert_def Option.bind.bind_lunit prod.case sum.case simp_thms if_True]
  have same: "k\<lparr>k_vfs := k_vfs k, k_vm := k_vm k\<rparr> = k" by simp
  show ?thesis
  proof (cases q)
    case Yield
    then show ?thesis using s kept [of "k_vm k" "k_vfs k"] by simp
  next
    case (Return x)
    then obtain rc entry where q: "q = Return (rc, entry)" by (cases x) auto
    show ?thesis
    proof (cases "rc = 0")
      case False
      then show ?thesis using s q k3 kept by (auto simp: bind_eq_Some_conv)
    next
      case True
      then obtain e u vm4 where u: "entry = Some e" "alloc_thread_user_stack (Some as) 0 vm3 = Some (u, vm4)"
        using s q k3 by (auto simp: bind_eq_Some_conv)
      show ?thesis using s q k3 True u kept entered by (cases u) (auto simp: bind_eq_Some_conv)
    qed
  qed
qed

context counted_filesystems
begin

subsection \<open>Calls on devices\<close>

lemma vfs_ioctl_inv:
  assumes inv: "vfs_inv h s" and i: "vfs_ioctl ops c request argp s = Some (rc, argp', s')"
  shows "vfs_inv h s' \<and> opened {} s s'"
proof -
  obtain fs where "s' = s \<or> s' = s\<lparr>vfs_fs := fs\<rparr>"
    using i by (auto simp: vfs_ioctl_def bind_eq_Some_conv split: if_splits)
  moreover have "vfs_inv h (s\<lparr>vfs_fs := fs\<rparr>)" by (rule vfs_inv_cong [of _ s]) (use inv in simp_all)
  ultimately show ?thesis using inv by (auto simp: opened_def)
qed

lemma sys_ioctl_inv:
  assumes inv: "fd_inv lo {} k" and s: "sys_ioctl ops p fd request argp k = Some (rc, argp', k')"
  shows "fd_inv lo {} k'"
proof -
  obtain pr where pr: "k_processes k p = Some pr" using s by (auto simp: sys_ioctl_def bind_eq_Some_conv)
  show ?thesis
    using s pr inv vfs_ioctl_inv [OF vfs_of_fd_inv [OF inv]] fd_inv_opened [OF inv]
    by (cases "descriptor pr fd") (auto simp: sys_ioctl_def bind_eq_Some_conv)
qed

lemma sys_millisleep_inv: "fd_inv lo {} k \<Longrightarrow> sys_millisleep m ms k = (r, k') \<Longrightarrow> fd_inv lo {} k'"
  by (auto simp: sys_millisleep_def split: if_splits)

lemma sleep_expired_inv: "fd_inv lo {} k \<Longrightarrow> sleep_expired m k = Some k' \<Longrightarrow> fd_inv lo {} k'"
  by (auto simp: sleep_expired_def split: if_splits)

subsection \<open>Changing the program\<close>

lemma clone_strings_inv: "clone_strings xs k = Some (rc, k') \<Longrightarrow> fd_inv lo H k \<Longrightarrow> fd_inv lo H k'"
proof (induction xs arbitrary: k)
  case (Cons x xs)
  obtain ok k1 where m: "kernel_malloc k = (ok, k1)" by fastforce
  have "fd_inv lo H k1" by (rule fd_inv_malloc [OF m Cons.prems(2)])
  then show ?case using Cons.prems(1) Cons.IH [of k1] m by (auto split: if_splits)
qed simp

lemma clone_array_inv:
  assumes c: "clone_user_array_of_strings xs k = Some (rc, k')" and inv: "fd_inv lo H k"
  shows "fd_inv lo H k'"
proof -
  obtain ok k1 where m: "kernel_malloc k = (ok, k1)" by fastforce
  have "k' = k \<or> k' = k1 \<or> clone_strings xs k1 = Some (rc, k')"
    using c m by (auto simp: clone_user_array_of_strings_def split: if_splits)
  then show ?thesis using inv fd_inv_malloc [OF m inv] clone_strings_inv by blast
qed

text \<open>The file that is open while a program is loaded is closed again when the call returns.\<close>

lemma elf_load_inv:
  assumes l0: "elf_load_into_address_space ops raw workdir path as k = Some (Return x, k')" and inv: "fd_inv lo {} k"
  shows "fd_inv lo {} k'"
proof -
  obtain rc custody v where o: "vfs_open ops workdir path OF_RDONLY (k_vfs k) = Some (rc, custody, v)"
    using l0 by (auto simp: elf_load_into_address_space_def bind_eq_Some_conv)
  note l = l0 [unfolded elf_load_into_address_space_def o, simplified]
    and op = vfs_open_relative_custodies [OF vfs_of_fd_inv [OF inv] o]
  show ?thesis
  proof (cases "rc = 0")
    case False
    then show ?thesis using l op fd_inv_opened [OF inv, of v] by (auto simp: vfs_close_def free_custody_def bind_eq_Some_conv)
  next
    case True
    then obtain c n v2 y v3 where s: "custody = Some c" "vfs_seek ops c SEEK_END 0 v = Some (n, v2)"
        "vfs_seek ops c SEEK_SET 0 v2 = Some (y, v3)"
      using l by (auto simp: bind_eq_Some_conv)
    have i1: "fd_inv lo {c} (k\<lparr>k_vfs := v\<rparr>)" using fd_inv_vfs [OF inv, of "{c}" v] op True s(1) by simp
    have i2: "fd_inv lo {c} (k\<lparr>k_vfs := v2\<rparr>)"
      using fd_inv_opened [OF i1, of v2] vfs_seek_custodies [OF s(2)] vfs_seek_inv [OF vfs_of_fd_inv [OF i1], of c SEEK_END] s(2) by simp
    have i3: "fd_inv lo {c} (k\<lparr>k_vfs := v3\<rparr>)"
      using fd_inv_opened [OF i2, of v3] vfs_seek_custodies [OF s(3)] vfs_seek_inv [OF vfs_of_fd_inv [OF i2], of c SEEK_SET] s(3) by simp
    obtain ok k2 where m: "kernel_malloc (k\<lparr>k_vfs := v3\<rparr>) = (ok, k2)" by fastforce
    note i4 = fd_inv_malloc [OF m i3]
    show ?thesis
    proof (cases "\<not> ok \<or> n < 0")
      case True
      then show ?thesis using l s m \<open>rc = 0\<close> fd_inv_close [OF i4, of c] by (auto simp: bind_eq_Some_conv)
    next
      case False
      then obtain b v4 where r: "vfs_read ops c (of_int n) (k_vfs k2) = Some (b, v4)"
        using l s m \<open>rc = 0\<close> by (auto simp: bind_eq_Some_conv)
      obtain z v5 vm where cl: "vfs_close ops (Some c) v4 = Some (z, v5)" and k': "k' = k2\<lparr>k_vfs := v5, k_vm := vm\<rparr>"
        using l s m \<open>rc = 0\<close> False r by (cases b) (auto simp: bind_eq_Some_conv)
      have "fd_inv lo {c} (k2\<lparr>k_vfs := v4\<rparr>)"
        using fd_inv_opened [OF i4, of v4] vfs_read_custodies [OF r] vfs_read_inv [OF vfs_of_fd_inv [OF i4] r] by simp
      from fd_inv_close [OF this, of c z v5] cl show ?thesis by (simp add: k')
    qed
  qed
qed

lemma enter_program_inv:
  assumes "enter_program t p path argv envp as entrypoint userstack k = Some (rc, k')" and inv: "fd_inv lo H k"
  shows "fd_inv lo H k'"
proof -
  obtain pr th vm where pr: "k_processes k p = Some pr" and k': "k' = set_thread t th
      ((set_process p (pr\<lparr>process_name := take 63 (c_string path), address_space := Some as\<rparr>) k)\<lparr>k_vm := vm\<rparr>)"
    using assms(1) by (auto simp: enter_program_def bind_eq_Some_conv Let_def)
  show ?thesis unfolding k' using fd_inv_set_process [OF inv pr] by simp
qed

lemma sys_execve_inv:
  assumes inv: "fd_inv lo {} k" and s0: "sys_execve ops raw t p path argv envp k = Some (r, k')"
  shows "fd_inv lo {} k'"
proof -
  obtain pr k1 k2 as vm q k3 where pr: "k_processes k p = Some pr" and c1: "clone_user_array_of_strings argv k = Some (0, k1)"
      and c2: "clone_user_array_of_strings envp k1 = Some (0, k2)" and a: "vm_create_address_space (k_vm k2) = Some (Inr as, vm)"
      and l: "elf_load_into_address_space ops raw (working_directory pr) path (Some as) (k2\<lparr>k_vm := vm\<rparr>) = Some (q, k3)"
    using s0 by (rule sys_execve_start)
  note s = s0 [unfolded sys_execve_def, simplified pr c1 c2 a l kassert_def Option.bind.bind_lunit prod.case sum.case simp_thms if_True]
  show ?thesis
  proof (cases q)
    case Yield
    then show ?thesis using s inv by simp
  next
    case (Return x)
    then obtain rc entry where q: "q = Return (rc, entry)" by (cases x) auto
    have inv3: "fd_inv lo {} k3"
      using elf_load_inv [OF l [unfolded q]] clone_array_inv [OF c2 clone_array_inv [OF c1 inv]] by simp
    note enter = enter_program_inv [where H = "{}" and lo = lo and k' = k']
    show ?thesis using s q inv3 by (auto simp: bind_eq_Some_conv Let_def dest!: enter split: if_splits option.split_asm)
  qed
qed

end

end
