(* ===== verification/DescriptorsRun.thy ===== *)
theory DescriptorsRun
  imports ExecveInv
begin

text \<open>The ownership of open files through the creation of processes and over whole runs of the kernel.\<close>

lemma file_at_slot_other:
  "set_file_slot p fd c k = Some k' \<Longrightarrow> gd \<noteq> fd \<Longrightarrow> file_at k' p gd = file_at k p gd"
  by (auto simp: set_file_slot_eq file_at_set_process file_at_process)

lemma file_at_same:
  "k_processes k p = Some pr \<Longrightarrow> openfiles pr' = openfiles pr \<Longrightarrow> file_at (set_process p pr' k) = file_at k"
  by (simp add: fun_eq_iff file_at_set_process file_at_process)

context counted_filesystems
begin

subsection \<open>Fork\<close>

lemma fork_files_inv:
  assumes "fork_files q i fs k = Some (ok, k')" and "fd_inv lo {} k" and "i + length fs \<le> MAX_OPEN_FILES"
    and "\<forall>j\<ge>i. file_at k q j = None"
  shows "fd_inv lo {} k'"
  using assms
proof (induction q i fs k rule: fork_files.induct)
  case (3 q i c files k)
  obtain dup v k1 where dup: "vfs_duplicate c (k_vfs k) = Some (dup, v)" and k1: "set_file_slot q i dup (k\<lparr>k_vfs := v\<rparr>) = Some k1"
    using 3 by (auto simp: bind_eq_Some_conv)
  have i: "i < MAX_OPEN_FILES" "file_at (k\<lparr>k_vfs := v\<rparr>) q i = None" using 3 by auto
  note d = vfs_duplicate_custodies [OF vfs_of_fd_inv [OF 3(3)] dup]
    and invv = vfs_duplicate_inv [OF vfs_of_fd_inv [OF 3(3)] dup]
  show ?case
  proof (cases dup)
    case None
    then have "fd_inv lo {} (k\<lparr>k_vfs := v\<rparr>)" using fd_inv_opened [OF 3(3) _ invv] d by simp
    then show ?thesis using fd_inv_null [OF _ k1 [unfolded None] i(2,1)] 3(2) dup k1 None by simp
  next
    case (Some x)
    then have "fd_inv lo {x} (k\<lparr>k_vfs := v\<rparr>)" using fd_inv_vfs [OF 3(3) _ invv, of "{x}"] d by simp
    from fd_inv_fill [OF this k1 [unfolded Some] i(2,1)] have "fd_inv lo {} k1" by simp
    moreover have "\<forall>j\<ge>Suc i. file_at k1 q j = None" using file_at_slot_other [OF k1] 3(5) by auto
    ultimately show ?thesis using 3(1) [OF dup refl k1] 3(2,4) dup k1 Some by auto
  qed
qed auto

lemma fork_failed_inv:
  assumes inv: "fd_inv lo {} k" and s: "fork_failed ops q k = Some (r, k')"
  shows "fd_inv lo {} k'"
  using s free_process_inv [OF inv] by (auto simp: fork_failed_def bind_eq_Some_conv)

lemma fork_memory_inv:
  assumes inv: "fd_inv lo {} k" and s: "fork_memory ops t q pr k = Some (r, k')"
  shows "fd_inv lo {} k'"
proof -
  obtain th qr u err as vm where th: "k_threads k t = Some th" and qr: "k_processes k q = Some qr"
      and u: "(case threads_data qr of [] \<Rightarrow> None | u # _ \<Rightarrow> Some u) = Some u"
      and vm: "vm_fork (address_space pr) (address_space qr) (k_vm k) = Some (err, as, vm)"
    using s by (auto simp: fork_memory_def bind_eq_Some_conv Let_def)
  let ?k = "set_process q (qr\<lparr>address_space := as\<rparr>) (k\<lparr>k_vm := vm\<rparr>)"
  have inv1: "fd_inv lo {} ?k" by (rule fd_inv_set_process) (use inv qr in simp_all)
  show ?thesis
  proof (cases err)
    case None
    then obtain uth th' where "register_thread u (set_thread u th' ?k) = Some k'"
      using s th qr u vm by (auto simp: fork_memory_def bind_eq_Some_conv Let_def)
    then show ?thesis using inv1 by (auto simp: register_thread_def bind_eq_Some_conv)
  next
    case (Some e)
    then have "fork_failed ops (Some q) ?k = Some (r, k')"
      using s th qr u vm by (auto simp: fork_memory_def bind_eq_Some_conv Let_def)
    then show ?thesis by (rule fork_failed_inv [OF inv1])
  qed
qed

lemma sys_fork_from:
  assumes inv: "fd_inv lo {} k" and s: "sys_fork ops t k = Some (r, k')"
    and th: "k_threads k t = Some th" and pr: "k_processes k (thread_process th) = Some pr"
    and al: "alloc_process (process_name pr) 0 False k = Some (Some q, k1)"
    and inv1: "fd_inv lo' {} k1" and at1: "file_at k1 q = (\<lambda>_. None)"
  shows "fd_inv lo' {} k'"
proof -
  obtain qr where qr: "k_processes k1 q = Some qr" using s th pr al by (auto simp: sys_fork_def bind_eq_Some_conv)
  obtain ok k2 where m: "kernel_malloc k1 = (ok, k2)" by fastforce
  have inv2: "fd_inv lo' {} k2" by (rule fd_inv_malloc [OF m inv1])
  have qr2: "k_processes k2 q = Some qr" using kernel_malloc_fields [OF m] qr by simp
  let ?k = "set_process q (qr\<lparr>working_directory := working_directory pr\<rparr>) k2"
  show ?thesis
  proof (cases ok)
    case False
    then show ?thesis using s th pr al qr m fork_failed_inv [OF inv2] by (auto simp: sys_fork_def)
  next
    case True
    have inv3: "fd_inv lo' {} ?k" by (rule fd_inv_set_process [OF inv2 qr2]) simp
    obtain fok k4 where f: "fork_files q 0 (openfiles pr) ?k = Some (fok, k4)"
        and s4: "(if fok then fork_memory ops t q pr k4 else fork_failed ops (Some q) k4) = Some (r, k')"
      using s th pr al qr m True by (auto simp: sys_fork_def bind_eq_Some_conv)
    have at: "file_at ?k q = (\<lambda>_. None)"
      using at1 file_at_same [OF qr2, of "qr\<lparr>working_directory := working_directory pr\<rparr>"] kernel_malloc_fields [OF m]
      by (simp add: file_at_def fun_eq_iff)
    have inv4: "fd_inv lo' {} k4"
      by (rule fork_files_inv [OF f inv3]) (use at fd_invD(2) [OF inv pr] in simp_all)
    show ?thesis using s4 fork_memory_inv [OF inv4] fork_failed_inv [OF inv4] by (cases fok) simp_all
  qed
qed

lemma sys_fork_inv:
  assumes inv: "fd_inv lo {} k" and s: "sys_fork ops t k = Some (r, k')"
  shows "fd_inv lo {} k'"
proof -
  obtain th pr q k1 where th: "k_threads k t = Some th" and pr: "k_processes k (thread_process th) = Some pr"
      and al: "alloc_process (process_name pr) 0 False k = Some (q, k1)"
    using s by (auto simp: sys_fork_def bind_eq_Some_conv)
  show ?thesis
  proof (cases q)
    case None
    then show ?thesis using s th pr al by (simp add: sys_fork_def fork_failed_def)
  next
    case (Some q')
    then show ?thesis using sys_fork_from [OF inv s th pr, of q' k1 lo] al alloc_process_inv [OF inv al] by simp
  qed
qed

subsection \<open>The first process\<close>

lemma open_kernel_log_inv:
  assumes inv: "fd_inv lo {} k" and s: "open_kernel_log ops p fd flags k = Some k'"
    and fd: "file_at k p fd = None" "fd < MAX_OPEN_FILES"
  shows "fd_inv lo {} k' \<and> (\<forall>gd. gd \<noteq> fd \<longrightarrow> file_at k' p gd = file_at k p gd)"
proof -
  obtain custody v where o: "vfs_open_absolute ops ''/dev/kernel_log'' flags (k_vfs k) = Some (0, custody, v)"
      and set: "set_file_slot p fd custody (k\<lparr>k_vfs := v\<rparr>) = Some k'"
    using s by (auto simp: open_kernel_log_def bind_eq_Some_conv)
  note op = vfs_open_custodies [OF vfs_of_fd_inv [OF inv] o]
  then obtain c where c: "custody = Some c" "opened {c} (k_vfs k) v" by auto
  have "fd_inv lo {c} (k\<lparr>k_vfs := v\<rparr>)" using fd_inv_vfs [OF inv c(2)] vfs_open_inv [OF vfs_of_fd_inv [OF inv] o] by simp
  from fd_inv_fill [OF this set [unfolded c(1)]] fd have "fd_inv lo {} k'" by simp
  then show ?thesis using file_at_slot_other [OF set] by simp
qed

lemma standard_files_inv:
  assumes inv: "fd_inv lo {} k" and at: "file_at k p = (\<lambda>_. None)"
    and o: "open_kernel_log ops p 0 OF_RDONLY k = Some k1" "open_kernel_log ops p 1 OF_WRONLY k1 = Some k2"
      "open_kernel_log ops p 2 OF_WRONLY k2 = Some k3"
  shows "fd_inv lo {} k3"
proof -
  have i1: "fd_inv lo {} k1" "file_at k1 p 1 = None" "file_at k1 p 2 = None"
    using open_kernel_log_inv [OF inv o(1)] at by (simp_all add: MAX_OPEN_FILES_def)
  have i2: "fd_inv lo {} k2" "file_at k2 p 2 = None"
    using open_kernel_log_inv [OF i1(1) o(2) i1(2)] i1(3) by (simp_all add: MAX_OPEN_FILES_def)
  show ?thesis using open_kernel_log_inv [OF i2(1) o(3) i2(2)] by (simp add: MAX_OPEN_FILES_def)
qed

lemma create_first_process_inv:
  assumes inv: "fd_inv lo {} k" and s: "create_first_process ops entrypoint k = Some k'"
  shows "fd_inv lo {} k'"
proof -
  obtain p k1 pr t k2 k3 k4 k5 th where al: "alloc_process ''kernel'' entrypoint True k = Some (Some p, k1)"
      and pr: "k_processes k1 p = Some pr" and reg: "register_thread t k1 = Some k2"
      and o: "open_kernel_log ops p 0 OF_RDONLY k2 = Some k3" "open_kernel_log ops p 1 OF_WRONLY k3 = Some k4"
        "open_kernel_log ops p 2 OF_WRONLY k4 = Some k5"
      and k': "k' = (set_thread t th k5)\<lparr>s_current_thread := Some t\<rparr>"
    using s unfolding create_first_process_def by (auto simp: bind_eq_Some_conv)
  note a = alloc_process_inv [OF inv al]
  have inv2: "fd_inv lo {} k2" and at2: "file_at k2 p = (\<lambda>_. None)"
    using reg a by (auto simp: register_thread_def bind_eq_Some_conv)
  show ?thesis using standard_files_inv [OF inv2 at2 o] by (simp add: k')
qed

subsection \<open>The scheduler, the calls and runs\<close>

lemma scheduler_visit_inv:
  assumes inv: "fd_inv lo {} k" and s: "scheduler_visit ops i k = Some (chosen, k')"
  shows "fd_inv lo {} k'"
proof (cases "s_all_threads k ! i")
  case None
  then show ?thesis using s inv by (simp add: scheduler_visit_def)
next
  case (Some t)
  then obtain th where th: "k_threads k t = Some th" using s by (auto simp: scheduler_visit_def bind_eq_Some_conv)
  show ?thesis
  proof (cases "thread_state th")
    case Zombie
    then obtain k1 where "free_thread ops t k = Some k1" "k' = k1\<lparr>s_all_threads := (s_all_threads k1)[i := None]\<rparr>"
      using s Some th by (auto simp: scheduler_visit_def bind_eq_Some_conv)
    then show ?thesis using free_thread_inv [OF inv] by simp
  next
    case Runnable
    then obtain vm where "k' = k\<lparr>k_vm := vm, s_current_thread := Some t\<rparr>"
      using s Some th by (auto simp: scheduler_visit_def bind_eq_Some_conv)
    then show ?thesis using inv by simp
  next
    case Suspended
    then show ?thesis using s Some th inv by (simp add: scheduler_visit_def)
  qed
qed

lemma dispatch_syscall_inv:
  assumes inv: "fd_inv lo {} k" and s: "dispatch_syscall ops call k = Some (r, k')"
  shows "fd_inv lo {} k'"
proof -
  obtain t p where t: "s_current_thread k = Some t" and p: "current_process k = Some p"
    using s by (auto simp: dispatch_syscall_def bind_eq_Some_conv)
  note d = s [unfolded dispatch_syscall_def t p, simplified]
  show ?thesis
  proof (cases call)
    case (ResumeWait m)
    then show ?thesis using d inv by (auto simp: resume_wait_def split: if_splits)
  qed (use d inv in \<open>auto intro: sys_exit_inv [OF inv] sys_fork_inv [OF inv] sys_open_inv [OF inv] sys_read_inv [OF inv]
      sys_write_inv [OF inv] sys_close_inv [OF inv] sys_seek_inv [OF inv] sys_create_pipe_inv [OF inv]
      sys_movefd_inv [OF inv] sys_dup2_inv [OF inv] sys_setcwd_inv [OF inv] sys_waitexit_inv [OF inv]
      sys_execve_inv [OF inv] sys_ioctl_inv [OF inv] sys_millisleep_inv [OF inv]\<close>)
qed

lemma run_calls_inv: "run_calls ops calls k = Some k' \<Longrightarrow> fd_inv lo {} k \<Longrightarrow> fd_inv lo {} k'"
proof (induction calls arbitrary: k)
  case (Cons call calls)
  then obtain r k1 where d: "dispatch_syscall ops call k = Some (r, k1)" by (auto simp: bind_eq_Some_conv)
  have "fd_inv lo {} k1" by (rule dispatch_syscall_inv [OF Cons.prems(2) d])
  then show ?case using Cons.IH [of k1] Cons.prems(1) d by (cases r) auto
qed simp

lemma boot_kernel_inv:
  assumes "vfs_inv (\<lambda>_. 0) v" and "vfs_custodies v = Map.empty"
  shows "fd_inv 0 {} (boot_kernel v vm)"
proof -
  have "file_at (boot_kernel v vm) = (\<lambda>_ _. None)" by (simp add: file_at_def boot_kernel_def fun_eq_iff)
  then show ?thesis using assms by (simp add: fd_inv_def boot_kernel_def owns_def taken_def one_owner_def)
qed

lemma kernel_step_inv:
  assumes inv: "fd_inv lo {} k" and s: "kernel_step ops e k = Some k'"
  shows "fd_inv lo {} k'"
proof (cases e)
  case (FirstProcess entrypoint)
  then show ?thesis using s create_first_process_inv [OF inv] by simp
next
  case (KernelShortage answers)
  have "vfs_inv (\<lambda>_. 0) ((k_vfs k)\<lparr>vfs_mallocs := answers\<rparr>)"
    by (rule vfs_inv_cong [of _ "k_vfs k"]) (use vfs_of_fd_inv [OF inv] in simp_all)
  then show ?thesis using s KernelShortage fd_inv_opened [OF inv, of "(k_vfs k)\<lparr>vfs_mallocs := answers\<rparr>"]
    by (auto simp: opened_def)
next
  case (Visit i)
  then obtain chosen where "scheduler_visit ops i k = Some (chosen, k')" using s by (auto split: if_splits)
  then show ?thesis by (rule scheduler_visit_inv [OF inv])
next
  case (Call call)
  then obtain r where "dispatch_syscall ops call k = Some (r, k')" using s by auto
  then show ?thesis by (rule dispatch_syscall_inv [OF inv])
next
  case (SleepOver m)
  then show ?thesis using s sleep_expired_inv [OF inv] by simp
qed

lemma kernel_reach_inv: "kernel_reach ops k \<Longrightarrow> fd_inv 0 {} k"
proof (induction rule: kernel_reach.induct)
  case (boot v vm)
  then show ?case using boot_kernel_inv vfs_reach_inv by blast
next
  case (event k e k')
  then show ?case using kernel_step_inv by blast
qed

lemma fd_inv_next: "fd_inv lo H k \<longleftrightarrow> lo \<le> vfs_next (k_vfs k) \<and> fd_inv 0 H k"
  by (auto simp: fd_inv_def)

end

text \<open>
  C5: In every state the kernel reaches, file descriptors and open files match one to one: an open file exists
  exactly if some descriptor of some process refers to it, and no two descriptors, of one process or of two, refer
  to the same open file.  Opening, closing, duplicating and moving descriptors, pipes, fork, exit and the release
  of processes neither leak an open file nor leave a descriptor behind that refers to a closed one.
\<close>
theorem descriptors_own_files:
  assumes "kernel_reach kernel_ops k"
  shows "(vfs_custodies (k_vfs k) c \<noteq> None \<longleftrightarrow> (\<exists>p fd. file_at k p fd = Some c)) \<and>
    (file_at k p fd = Some c \<longrightarrow> file_at k q gd = Some c \<longrightarrow> p = q \<and> fd = gd)"
proof -
  have "owns {} (file_at k) (dom (vfs_custodies (k_vfs k)))"
    using kernel.kernel_reach_inv [OF assms] by (simp add: fd_inv_def)
  then have "dom (vfs_custodies (k_vfs k)) = taken (file_at k)" "one_owner (file_at k)" by (simp_all add: owns_def)
  then show ?thesis unfolding taken_def one_owner_def by blast
qed

end
