(* ===== verification/Scheduling.thy ===== *)
theory Scheduling
  imports DescriptorsRun
begin

text \<open>The table of threads over runs of the kernel: what can be created, and who runs.\<close>

subsection \<open>Calls that leave the table of threads alone\<close>

definition same_threads :: "('c, 's) kernel \<Rightarrow> ('c, 's) kernel \<Rightarrow> bool" where
  "same_threads k k' \<longleftrightarrow> k_threads k' = k_threads k \<and> s_all_threads k' = s_all_threads k \<and>
     s_all_threads_len k' = s_all_threads_len k \<and> s_next_available_pid k' = s_next_available_pid k \<and>
     s_current_thread k' = s_current_thread k"

lemma same_threads_refl [simp]: "same_threads k k"
  by (simp add: same_threads_def)

lemma same_threads_trans: "same_threads k k1 \<Longrightarrow> same_threads k1 k2 \<Longrightarrow> same_threads k k2"
  by (simp add: same_threads_def)

lemma same_threads_simps [simp]:
  "same_threads k (k'\<lparr>k_vfs := v\<rparr>) \<longleftrightarrow> same_threads k k'" "same_threads k (k'\<lparr>k_vm := vm\<rparr>) \<longleftrightarrow> same_threads k k'"
  "same_threads k (k'\<lparr>k_mutexes := ms\<rparr>) \<longleftrightarrow> same_threads k k'" "same_threads k (set_process p pr k') \<longleftrightarrow> same_threads k k'"
  "same_threads k (k'\<lparr>k_processes := ps\<rparr>) \<longleftrightarrow> same_threads k k'" "same_threads (k\<lparr>k_vfs := v\<rparr>) k' \<longleftrightarrow> same_threads k k'"
  "same_threads (k\<lparr>k_mutexes := ms\<rparr>) k' \<longleftrightarrow> same_threads k k'" "same_threads k (k'\<lparr>k_sleepers := ss\<rparr>) \<longleftrightarrow> same_threads k k'"
  by (simp_all add: same_threads_def set_process_def)

lemma same_threads_slot: "set_file_slot p fd c k = Some k' \<Longrightarrow> same_threads k k'"
  by (auto simp: set_file_slot_eq)

lemma same_threads_close: "close_if_open ops c k = Some k' \<Longrightarrow> same_threads k k'"
  by (auto simp: close_if_open_def bind_eq_Some_conv split: if_splits)

lemma same_threads_malloc: "kernel_malloc k = (ok, k') \<Longrightarrow> same_threads k k'"
  by (auto simp: kernel_malloc_def split: prod.splits)

lemmas same_threads_steps = same_threads_slot same_threads_close same_threads_malloc

lemma sys_open_threads: "sys_open ops p path flags k = Some (r, k') \<Longrightarrow> same_threads k k'"
  by (auto simp: same_threads_def sys_open_def bind_eq_Some_conv Let_def dest!: same_threads_steps split: option.split_asm if_splits)

lemma sys_close_threads: "sys_close ops p fd k = Some (r, k') \<Longrightarrow> same_threads k k'"
  by (auto simp: same_threads_def sys_close_def bind_eq_Some_conv dest!: same_threads_steps split: option.split_asm)

lemma sys_read_threads: "sys_read ops p fd n k = Some (r, k') \<Longrightarrow> same_threads k k'"
  by (auto simp: same_threads_def sys_read_def bind_eq_Some_conv split: option.split_asm)

lemma sys_write_threads: "sys_write ops p fd buf k = Some (r, k') \<Longrightarrow> same_threads k k'"
  by (auto simp: same_threads_def sys_write_def bind_eq_Some_conv split: option.split_asm)

lemma sys_seek_threads: "sys_seek ops p fd off whence k = Some (r, x, k') \<Longrightarrow> same_threads k k'"
  by (auto simp: same_threads_def sys_seek_def bind_eq_Some_conv Let_def split: option.split_asm if_splits)

lemma sys_movefd_threads:
  assumes "sys_movefd ops p fd new_fd k = Some (r, k')"
  shows "same_threads k k'"
proof -
  obtain pr where "k_processes k p = Some pr" using assms by (auto simp: sys_movefd_def bind_eq_Some_conv)
  then show ?thesis using assms
    by (cases "descriptor pr fd") (auto simp: sys_movefd_def same_threads_def bind_eq_Some_conv dest!: same_threads_steps split: if_splits)
qed

lemma sys_dup2_threads: "sys_dup2 ops p fd new_fd k = Some (r, k') \<Longrightarrow> same_threads k k'"
  by (auto simp: same_threads_def sys_dup2_def bind_eq_Some_conv dest!: same_threads_steps split: option.split_asm if_splits)

lemma sys_create_pipe_threads: "sys_create_pipe ops p k = Some (r, fds, k') \<Longrightarrow> same_threads k k'"
  by (auto simp: same_threads_def sys_create_pipe_def bind_eq_Some_conv Let_def dest!: same_threads_steps split: option.split_asm if_splits)

lemma createcwd_threads: "createcwd wd path k = Some (r, k') \<Longrightarrow> same_threads k k'"
  unfolding createcwd_def
  by (auto simp: same_threads_def bind_eq_Some_conv Let_def dest!: same_threads_malloc split: if_splits prod.split_asm option.split_asm)

lemma sys_setcwd_threads:
  assumes "sys_setcwd p path k = Some (r, k')"
  shows "same_threads k k'"
proof -
  obtain pr r1 k1 where "k_processes k p = Some pr" "createcwd (working_directory pr) path k = Some (r1, k1)"
    using assms by (auto simp: sys_setcwd_def bind_eq_Some_conv)
  then show ?thesis using assms createcwd_threads by (cases r1) (fastforce simp: sys_setcwd_def)+
qed

lemma sys_waitexit_threads: "sys_waitexit m n k = Some (r, k') \<Longrightarrow> same_threads k k'"
  by (auto simp: same_threads_def set_process_def sys_waitexit_def bind_eq_Some_conv Let_def split: option.split_asm if_splits)

lemma notify_exit_threads: "notify_exit p k = Some k' \<Longrightarrow> same_threads k k'"
  by (auto simp: same_threads_def set_process_def notify_exit_def bind_eq_Some_conv)

lemma release_process_threads: "release_process ops p k = Some k' \<Longrightarrow> same_threads k k'"
  by (auto simp: same_threads_def set_process_def release_process_def bind_eq_Some_conv)

lemma sys_ioctl_threads: "sys_ioctl ops p fd request argp k = Some (r, x, k') \<Longrightarrow> same_threads k k'"
  by (auto simp: same_threads_def sys_ioctl_def bind_eq_Some_conv split: option.split_asm)

lemma sys_millisleep_threads: "sys_millisleep m ms k = (r, k') \<Longrightarrow> same_threads k k'"
  by (auto simp: sys_millisleep_def split: if_splits)

text \<open>A change of program gives the thread other registers; the table and the states of the threads stay.\<close>

definition same_table :: "('c, 's) kernel \<Rightarrow> ('c, 's) kernel \<Rightarrow> bool" where
  "same_table k k' \<longleftrightarrow> (\<forall>u. map_option thread_state (k_threads k' u) = map_option thread_state (k_threads k u)) \<and>
     s_all_threads k' = s_all_threads k \<and> s_all_threads_len k' = s_all_threads_len k \<and>
     s_next_available_pid k' = s_next_available_pid k \<and> s_current_thread k' = s_current_thread k"

lemma same_table_threads: "same_threads k k' \<Longrightarrow> same_table k k'"
  by (simp add: same_table_def same_threads_def)

lemma sys_execve_table:
  assumes "sys_execve ops raw t p path argv envp k = Some (r, k')"
  shows "same_table k k'"
  using assms
proof (cases rule: sys_execve_cases)
  case (kept v vm)
  then show ?thesis by (simp add: same_table_def)
next
  case (entered v vm as entrypoint userstack rc)
  then show ?thesis
    by (auto simp: enter_program_def same_table_def set_process_def set_thread_def bind_eq_Some_conv Let_def)
qed

lemma call_threads:
  assumes s: "dispatch_syscall ops call k = Some (r, k')" and "call \<noteq> CallFork" and "\<And>code. call \<noteq> CallExit code"
  shows "same_table k k'"
proof -
  obtain t p where t: "s_current_thread k = Some t" and p: "current_process k = Some p"
    using s by (auto simp: dispatch_syscall_def bind_eq_Some_conv)
  note d = s [unfolded dispatch_syscall_def t p, simplified]
  show ?thesis
  proof (cases call)
    case (ResumeWait m)
    then show ?thesis using d by (auto simp: resume_wait_def same_table_threads split: if_splits)
  next
    case (CallExecve raw path argv envp)
    then show ?thesis using d sys_execve_table by simp
  qed (use d assms(2,3) in \<open>auto intro!: same_table_threads intro: sys_ioctl_threads sys_millisleep_threads sys_open_threads sys_read_threads sys_write_threads sys_close_threads sys_seek_threads
      sys_create_pipe_threads sys_movefd_threads sys_dup2_threads sys_setcwd_threads sys_waitexit_threads\<close>)
qed

subsection \<open>A new process\<close>

definition young :: "nat \<Rightarrow> ('c, 's) kernel \<Rightarrow> bool" where
  "young q k \<longleftrightarrow> (\<exists>pr t th. k_processes k q = Some pr \<and> threads_count pr = 1 \<and> threads_data pr = [t] \<and>
     k_threads k t = Some th \<and> thread_process th = q)"

text \<open>The release of its only thread releases the process, which the rest of \<^verbatim>\<open>free_process\<close> then follows.\<close>

lemma free_process_young:
  assumes "young q k"
  shows "free_process ops q k = None"
proof (rule ccontr)
  assume "free_process ops q k \<noteq> None"
  then obtain k1 k2 where k1: "notify_exit q k = Some k1" and k2: "free_threads_loop ops 0 q k1 = Some k2"
      "release_process ops q k2 \<noteq> None"
    by (auto simp: free_process_def bind_eq_Some_conv)
  obtain pr t th where y: "k_processes k q = Some pr" "threads_count pr = 1" "threads_data pr = [t]" "k_threads k t = Some th"
      "thread_process th = q"
    using assms by (auto simp: young_def)
  then have y1: "k_processes k1 q = Some (pr\<lparr>exit_listeners := []\<rparr>)" "k_threads k1 t = Some th"
    using k1 by (auto simp: notify_exit_def set_process_def)
  obtain k3 where k3: "free_thread ops t k1 = Some k3" "free_threads_loop ops 1 q k3 = Some k2"
    using k2(1) y y1 by (subst (asm) free_threads_loop.simps) (auto simp: bind_eq_Some_conv)
  obtain k4 where "release_process ops q k4 = Some k3"
    using k3(1) y y1 by (auto simp: free_thread_def bind_eq_Some_conv Let_def split: if_splits)
  then have "k_processes k3 q = None" by (auto simp: release_process_def bind_eq_Some_conv)
  then show False using k3(2) by (subst (asm) free_threads_loop.simps) simp
qed

lemma fork_failed_young: "young q k \<Longrightarrow> fork_failed ops (Some q) k = None"
  by (simp add: fork_failed_def free_process_young)

lemma young_simps [simp]:
  "young q (k\<lparr>k_vfs := v\<rparr>) \<longleftrightarrow> young q k" "young q (k\<lparr>k_vm := vm\<rparr>) \<longleftrightarrow> young q k"
  by (simp_all add: young_def)

lemma young_set_process:
  "young q k \<Longrightarrow> k_processes k q = Some qr \<Longrightarrow> threads_count qr' = threads_count qr \<Longrightarrow> threads_data qr' = threads_data qr \<Longrightarrow>
   young q (set_process q qr' k)"
  by (auto simp: young_def set_process_def)

lemma fork_files_young: "fork_files q i fs k = Some (ok, k') \<Longrightarrow> young q k \<Longrightarrow> young q k' \<and> same_threads k k'"
proof (induction q i fs k rule: fork_files.induct)
  case (3 q i c files k)
  obtain dup v k1 where dup: "vfs_duplicate c (k_vfs k) = Some (dup, v)" and k1: "set_file_slot q i dup (k\<lparr>k_vfs := v\<rparr>) = Some k1"
    using 3 by (auto simp: bind_eq_Some_conv)
  obtain pr where pr: "k_processes k q = Some pr" "k1 = set_process q (pr\<lparr>openfiles := (openfiles pr)[i := dup]\<rparr>) (k\<lparr>k_vfs := v\<rparr>)"
    using k1 by (auto simp: set_file_slot_eq)
  have "young q k1" unfolding pr(2) by (rule young_set_process [of _ _ pr]) (use 3(3) pr(1) in simp_all)
  moreover have "same_threads k k1" using same_threads_slot [OF k1] by simp
  ultimately show ?case
    using 3(1) [OF dup refl k1] 3(2) dup k1 same_threads_trans by (cases dup) auto
qed simp_all

lemma fork_files_process:
  "fork_files q i fs k = Some (ok, k') \<Longrightarrow> k_processes k q = Some pr \<Longrightarrow>
   \<exists>pr'. k_processes k' q = Some pr' \<and> pid pr' = pid pr \<and> threads_count pr' = threads_count pr \<and> threads_data pr' = threads_data pr"
proof (induction q i fs k arbitrary: pr rule: fork_files.induct)
  case (3 q i c files k)
  obtain dup v k1 where dup: "vfs_duplicate c (k_vfs k) = Some (dup, v)" and k1: "set_file_slot q i dup (k\<lparr>k_vfs := v\<rparr>) = Some k1"
    using 3 by (auto simp: bind_eq_Some_conv)
  have pr1: "k_processes k1 q = Some (pr\<lparr>openfiles := (openfiles pr)[i := dup]\<rparr>)"
    using k1 3(3) by (auto simp: set_file_slot_eq set_process_def)
  show ?case
    using 3(1) [OF dup refl k1 _ _ pr1] 3(2) dup k1 pr1 by (cases dup) auto
qed simp_all

lemma alloc_process_stacks_result:
  assumes s: "alloc_process_stacks p t as n name entrypoint privileged k = Some (Some q, k')"
  shows "\<exists>th pr vm. q = p \<and> k' = set_thread t th (set_process p pr (k\<lparr>k_vm := vm\<rparr>)) \<and> thread_process th = p \<and>
    pid pr = n \<and> threads_count pr = 1 \<and> threads_data pr = [t]"
proof -
  obtain stack vm where st: "alloc_kernel_stack (k_vm k) = Some (stack, vm)"
    using s by (auto simp: alloc_process_stacks_def bind_eq_Some_conv)
  then obtain sp where sp: "stack = Some sp"
    using s by (cases stack) (auto simp: alloc_process_stacks_def alloc_process_cleanup_def bind_eq_Some_conv)
  obtain us vm2 where us: "alloc_thread_user_stack (Some as) 0 vm = Some (us, vm2)"
    using s st sp by (auto simp: alloc_process_stacks_def bind_eq_Some_conv)
  then obtain u where u: "us = Some u"
    using s st sp by (cases us) (auto simp: alloc_process_stacks_def alloc_process_cleanup_def bind_eq_Some_conv)
  obtain sp' frame where "arch_create_initial_kernel_stack sp u entrypoint privileged = (sp', frame)" by fastforce
  then have "q = p" "k' = set_thread t \<lparr>tid = 0, thread_process = p, iframe = frame, kernel_stack_ptr = sp', thread_state = Suspended\<rparr>
      (set_process p \<lparr>next_available_tid = 1, pid = n, exit_code = 0, process_name = name, address_space = Some as,
         openfiles = replicate MAX_OPEN_FILES None, working_directory = ''/'', exit_listeners = [], threads_data = [t],
         threads_count = 1\<rparr> (k\<lparr>k_vm := vm2\<rparr>))"
    using s st sp us u by (auto simp: alloc_process_stacks_def)
  then show ?thesis
    by (intro exI [of _ "\<lparr>tid = 0, thread_process = p, iframe = frame, kernel_stack_ptr = sp', thread_state = Suspended\<rparr>"]
      exI [of _ "\<lparr>next_available_tid = 1, pid = n, exit_code = 0, process_name = name, address_space = Some as,
         openfiles = replicate MAX_OPEN_FILES None, working_directory = ''/'', exit_listeners = [], threads_data = [t],
         threads_count = 1\<rparr>"] exI [of _ vm2]) simp
qed

lemma alloc_process_result:
  assumes s: "alloc_process name entrypoint privileged k = Some (Some q, k')"
  obtains t th pr where "k_threads k' = (k_threads k)(t \<mapsto> th)" "thread_process th = q"
    "vfs_next (k_vfs k) \<le> t" "t < vfs_next (k_vfs k')" "k_processes k' q = Some pr"
    "pid pr = s_next_available_pid k" "threads_count pr = 1" "threads_data pr = [t]"
    "s_all_threads k' = s_all_threads k" "s_all_threads_len k' = s_all_threads_len k"
    "s_current_thread k' = s_current_thread k" "s_next_available_pid k' = s_next_available_pid k + 1"
proof -
  obtain a1 k1 where m1: "kernel_malloc k = (a1, k1)" by fastforce
  obtain a2 k2 where m2: "kernel_malloc k1 = (a2, k2)" by fastforce
  obtain a3 k3 where m3: "kernel_malloc k2 = (a3, k3)" by fastforce
  obtain p k4 where n1: "kernel_address k3 = (p, k4)" by fastforce
  obtain t k5 where n2: "kernel_address k4 = (t, k5)" by fastforce
  let ?k6 = "k5\<lparr>s_next_available_pid := s_next_available_pid k5 + 1\<rparr>"
  obtain a7 k7 where m7: "kernel_malloc ?k6 = (a7, k7)" by fastforce
  have a1: a1 using s m1 m2 m3 by (cases a1) (simp_all add: alloc_process_def)
  then obtain created vm where "vm_create_address_space (k_vm k7) = Some (created, vm)"
    using s m1 m2 m3 n1 n2 m7 by (auto simp: alloc_process_def Let_def bind_eq_Some_conv)
  then obtain as where al: "alloc_process_stacks p t as (s_next_available_pid k5) name entrypoint privileged (k7\<lparr>k_vm := vm\<rparr>) = Some (Some q, k')"
    using s m1 m2 m3 n1 n2 m7 a1 by (cases created) (auto simp: alloc_process_def Let_def bind_eq_Some_conv)
  have fresh: "vfs_next (k_vfs k) \<le> t" "t < vfs_next (k_vfs k7)"
    using n1 n2 kernel_malloc_fields [OF m1] kernel_malloc_fields [OF m2] kernel_malloc_fields [OF m3] kernel_malloc_fields [OF m7]
    by (auto simp: kernel_address_def new_address_def)
  have "same_threads k k1" "same_threads k1 k2" "same_threads k2 k3" "same_threads ?k6 k7"
    using same_threads_malloc m1 m2 m3 m7 by blast+
  then have same: "k_threads k7 = k_threads k" "s_all_threads k7 = s_all_threads k" "s_all_threads_len k7 = s_all_threads_len k"
      "s_current_thread k7 = s_current_thread k" "s_next_available_pid k7 = s_next_available_pid k + 1"
      "s_next_available_pid k5 = s_next_available_pid k"
    using n1 n2 by (auto simp: same_threads_def kernel_address_def split: prod.splits)
  obtain th pr vm' where r: "q = p" "k' = set_thread t th (set_process p pr (k7\<lparr>k_vm := vm'\<rparr>))" "thread_process th = p"
      "pid pr = s_next_available_pid k5" "threads_count pr = 1" "threads_data pr = [t]"
    using alloc_process_stacks_result [OF al] by (auto simp: set_process_def)
  show ?thesis
    by (rule that [of t th pr]) (use r fresh same in \<open>simp_all add: set_thread_def set_process_def\<close>)
qed

text \<open>A fork that returns has registered one more thread; there is no other way for it to return.\<close>

lemma sys_fork_result:
  assumes s: "sys_fork ops t k = Some (r, k')"
  obtains th pr q k1 u uth slot where "k_threads k t = Some th" "k_processes k (thread_process th) = Some pr"
    "alloc_process (process_name pr) 0 False k = Some (Some q, k1)"
    "k_threads k' = (k_threads k)(u \<mapsto> uth)" "vfs_next (k_vfs k) \<le> u" "u < vfs_next (k_vfs k1)"
    "s_all_threads_len k < MAX_THREADS" "s_all_threads k' = (s_all_threads k)[s_all_threads_len k := slot]"
    "s_all_threads_len k' = s_all_threads_len k + 1" "s_current_thread k' = s_current_thread k"
    "r = s_next_available_pid k" "s_next_available_pid k' = s_next_available_pid k + 1"
proof -
  obtain th pr q k1 where th: "k_threads k t = Some th" and pr: "k_processes k (thread_process th) = Some pr"
      and al: "alloc_process (process_name pr) 0 False k = Some (q, k1)"
    using s by (auto simp: sys_fork_def bind_eq_Some_conv)
  obtain q' where q: "q = Some q'" using s th pr al by (cases q) (simp_all add: sys_fork_def fork_failed_def)
  obtain u uth qr where new: "k_threads k1 = (k_threads k)(u \<mapsto> uth)" "thread_process uth = q'"
      "vfs_next (k_vfs k) \<le> u" "u < vfs_next (k_vfs k1)" "k_processes k1 q' = Some qr"
      "pid qr = s_next_available_pid k" "threads_count qr = 1" "threads_data qr = [u]"
      "s_all_threads k1 = s_all_threads k" "s_all_threads_len k1 = s_all_threads_len k"
      "s_current_thread k1 = s_current_thread k" "s_next_available_pid k1 = s_next_available_pid k + 1"
    using alloc_process_result [OF al [unfolded q]] by blast
  have young1: "young q' k1" using new by (auto simp: young_def)
  obtain ok k2 where m: "kernel_malloc k1 = (ok, k2)" by fastforce
  have k2: "young q' k2" "k_processes k2 q' = Some qr" "same_threads k1 k2"
    using kernel_malloc_fields [OF m] young1 new(5) same_threads_malloc [OF m] by (auto simp: young_def)
  have ok using s th pr al q new(5) m fork_failed_young [OF k2(1)] by (cases ok) (simp_all add: sys_fork_def)
  let ?qr = "qr\<lparr>working_directory := working_directory pr\<rparr>"
  let ?k = "set_process q' ?qr k2"
  have young3: "young q' ?k" by (rule young_set_process [OF k2(1,2)]) simp_all
  obtain fok k4 where f: "fork_files q' 0 (openfiles pr) ?k = Some (fok, k4)"
      and s4: "(if fok then fork_memory ops t q' pr k4 else fork_failed ops (Some q') k4) = Some (r, k')"
    using s th pr al q new(5) m \<open>ok\<close> by (auto simp: sys_fork_def bind_eq_Some_conv)
  note y4 = fork_files_young [OF f young3]
  have fok: fok using s4 fork_failed_young [of q' k4] y4 by (cases fok) simp_all
  have pid4: "\<exists>qr4. k_processes k4 q' = Some qr4 \<and> pid qr4 = pid qr \<and> threads_count qr4 = 1 \<and> threads_data qr4 = [u]"
    using fork_files_process [OF f, of ?qr] new by (auto simp: set_process_def)
  then obtain qr4 where qr4: "k_processes k4 q' = Some qr4" "pid qr4 = pid qr" "threads_count qr4 = 1" "threads_data qr4 = [u]"
    by auto
  have same4: "same_threads k1 k4" using y4 k2(3) by (auto simp: same_threads_def set_process_def)
  obtain th4 err as vm where vm: "k_threads k4 t = Some th4" "vm_fork (address_space pr) (address_space qr4) (k_vm k4) = Some (err, as, vm)"
    using s4 fok qr4 by (auto simp: fork_memory_def bind_eq_Some_conv)
  let ?k5 = "set_process q' (qr4\<lparr>address_space := as\<rparr>) (k4\<lparr>k_vm := vm\<rparr>)"
  have young5: "young q' ?k5"
    by (rule young_set_process [of _ _ qr4]) (use y4 qr4 in simp_all)
  have err: "err = None" using s4 fok qr4 vm fork_failed_young [OF young5] by (cases err) (auto simp: fork_memory_def)
  have "\<exists>uth'. register_thread u (set_thread u uth' ?k5) = Some k' \<and> r = pid qr4"
    using s4 fok qr4 vm err by (auto simp: fork_memory_def bind_eq_Some_conv Let_def)
  then show ?thesis
    using that [OF th pr] al q new same4 qr4
    by (auto simp: register_thread_def bind_eq_Some_conv same_threads_def set_thread_def set_process_def)
qed

subsection \<open>The table of threads\<close>

definition sched_inv :: "('c, 's) kernel \<Rightarrow> bool" where
  "sched_inv k \<longleftrightarrow> length (s_all_threads k) = MAX_THREADS \<and> s_all_threads_len k \<le> MAX_THREADS \<and>
     (\<forall>j. s_all_threads_len k \<le> j \<longrightarrow> j < MAX_THREADS \<longrightarrow> s_all_threads k ! j = None) \<and>
     (\<forall>t th. k_threads k t = Some th \<longrightarrow> t < vfs_next (k_vfs k)) \<and>
     s_next_available_pid k = int (s_all_threads_len k)"

lemma sched_inv_same:
  assumes "sched_inv k" and t: "same_table k k'" and n: "vfs_next (k_vfs k) \<le> vfs_next (k_vfs k')"
  shows "sched_inv k'"
proof -
  have "u < vfs_next (k_vfs k')" if u: "k_threads k' u = Some th" for u th
  proof -
    have "map_option thread_state (k_threads k' u) = map_option thread_state (k_threads k u)" using t by (simp add: same_table_def)
    then obtain th' where "k_threads k u = Some th'" using u by (cases "k_threads k u") auto
    then show ?thesis using assms(1) n by (fastforce simp: sched_inv_def)
  qed
  then show ?thesis using assms(1) t by (simp add: sched_inv_def same_table_def)
qed

text \<open>What the release of a thread does to the threads.\<close>

lemma free_thread_result:
  assumes s: "free_thread ops t k = Some k'" and len: "s_all_threads_len k \<le> length (s_all_threads k)"
  shows "k_threads k' = (k_threads k)(t := None) \<and> s_all_threads_len k' = s_all_threads_len k \<and>
    s_next_available_pid k' = s_next_available_pid k \<and> s_current_thread k' = s_current_thread k \<and>
    (s_all_threads k' = s_all_threads k \<or>
     (\<exists>i. i < s_all_threads_len k \<and> s_all_threads k ! i = Some t \<and> s_all_threads k' = (s_all_threads k)[i := None]))"
proof -
  obtain th pr where th: "k_threads k t = Some th" and pr: "k_processes k (thread_process th) = Some pr"
    using s by (auto simp: free_thread_def bind_eq_Some_conv Let_def)
  let ?p = "thread_process th"
  let ?pr = "pr\<lparr>threads_data := snd (array_swap_remove (threads_data pr) (unat (threads_count pr)) t),
                 threads_count := threads_count pr - 1\<rparr>"
  let ?k = "set_process ?p ?pr (k\<lparr>k_threads := (k_threads k)(t := None)\<rparr>)"
  let ?i = "array_find (s_all_threads k) (s_all_threads_len k) (Some t)"
  define k2 where "k2 = (if ?i \<noteq> s_all_threads_len k then ?k\<lparr>s_all_threads := (s_all_threads k)[?i := None]\<rparr> else ?k)"
  have slots: "s_all_threads ?k = s_all_threads k" "s_all_threads_len ?k = s_all_threads_len k"
    by (simp_all add: set_process_def)
  have "(if threads_count ?pr = 0 then Option.bind (notify_exit ?p k2) (release_process ops ?p) else Some k2) = Some k'"
    using s th pr slots unfolding free_thread_def k2_def Let_def by (auto simp: bind_eq_Some_conv split: if_splits)
  then have same: "same_threads k2 k'"
    using notify_exit_threads release_process_threads same_threads_trans
    by (cases "threads_count ?pr = 0") (fastforce simp: bind_eq_Some_conv)+
  have "?i \<noteq> s_all_threads_len k \<Longrightarrow> ?i < s_all_threads_len k \<and> s_all_threads k ! ?i = Some t"
    by (rule array_find_nth [OF len])
  then show ?thesis using same unfolding k2_def same_threads_def by (auto simp: set_process_def split: if_splits)
qed

lemma sched_inv_slots:
  "sched_inv k \<Longrightarrow> sched_inv (k\<lparr>s_all_threads := (s_all_threads k)[i := None]\<rparr>)"
  by (cases "i < length (s_all_threads k)") (auto simp: sched_inv_def nth_list_update)

lemma free_thread_sched:
  assumes inv: "sched_inv k" and s: "free_thread ops t k = Some k'" and nx: "vfs_next (k_vfs k) \<le> vfs_next (k_vfs k')"
  shows "sched_inv k'"
proof -
  have len: "s_all_threads_len k \<le> length (s_all_threads k)" using inv by (simp add: sched_inv_def)
  note r = free_thread_result [OF s len]
  have "length (s_all_threads k') = MAX_THREADS"
    "\<forall>j. s_all_threads_len k \<le> j \<longrightarrow> j < MAX_THREADS \<longrightarrow> s_all_threads k' ! j = None"
    using r inv by (auto simp: sched_inv_def)
  moreover have "\<forall>u th. k_threads k' u = Some th \<longrightarrow> u < vfs_next (k_vfs k')"
  proof (intro allI impI)
    fix u th assume "k_threads k' u = Some th"
    then have "k_threads k u = Some th" using r by (auto split: if_splits)
    then have "u < vfs_next (k_vfs k)" using inv by (auto simp: sched_inv_def)
    then show "u < vfs_next (k_vfs k')" using nx by simp
  qed
  ultimately show ?thesis using r inv by (auto simp: sched_inv_def)
qed

lemma exit_threads:
  "sys_exit t code k = Some k' \<Longrightarrow> \<exists>th. k_threads k t = Some th \<and> k_threads k' = (k_threads k)(t \<mapsto> th\<lparr>thread_state := Zombie\<rparr>) \<and>
     s_all_threads k' = s_all_threads k \<and> s_all_threads_len k' = s_all_threads_len k \<and>
     s_next_available_pid k' = s_next_available_pid k \<and> s_current_thread k' = s_current_thread k \<and> k_vfs k' = k_vfs k"
  by (auto simp: sys_exit_def bind_eq_Some_conv set_process_def set_thread_def)

text \<open>Slots are only cleared, and new ones only taken behind the last one.\<close>

definition slots_kept :: "('c, 's) kernel \<Rightarrow> ('c, 's) kernel \<Rightarrow> bool" where
  "slots_kept k k' \<longleftrightarrow> s_all_threads_len k \<le> s_all_threads_len k' \<and>
     (\<forall>j < s_all_threads_len k. s_all_threads k' ! j = s_all_threads k ! j \<or> s_all_threads k' ! j = None)"

lemma slots_kept_same: "same_table k k' \<Longrightarrow> slots_kept k k'"
  by (simp add: slots_kept_def same_table_def)

lemma slots_kept_new:
  "s_all_threads_len k' = s_all_threads_len k + 1 \<Longrightarrow> s_all_threads k' = (s_all_threads k)[s_all_threads_len k := slot] \<Longrightarrow>
     slots_kept k k'"
  by (simp add: slots_kept_def)

lemma free_thread_slots:
  "free_thread ops t k = Some k' \<Longrightarrow> s_all_threads_len k \<le> length (s_all_threads k) \<Longrightarrow> slots_kept k k'"
  using free_thread_result [of ops t k k'] by (fastforce simp: slots_kept_def nth_list_update)

context counted_filesystems
begin

lemma dispatch_next: "fd_inv 0 {} k \<Longrightarrow> dispatch_syscall ops call k = Some (r, k') \<Longrightarrow> vfs_next (k_vfs k) \<le> vfs_next (k_vfs k')"
  using dispatch_syscall_inv [of "vfs_next (k_vfs k)" k call r k'] fd_inv_next [of "vfs_next (k_vfs k)"] by blast

lemma visit_next: "fd_inv 0 {} k \<Longrightarrow> scheduler_visit ops i k = Some (c, k') \<Longrightarrow> vfs_next (k_vfs k) \<le> vfs_next (k_vfs k')"
  using scheduler_visit_inv [of "vfs_next (k_vfs k)" k i c k'] fd_inv_next [of "vfs_next (k_vfs k)"] by blast

lemma free_thread_next: "fd_inv 0 {} k \<Longrightarrow> free_thread ops t k = Some k' \<Longrightarrow> vfs_next (k_vfs k) \<le> vfs_next (k_vfs k')"
  using free_thread_inv [of "vfs_next (k_vfs k)" k t k'] fd_inv_next [of "vfs_next (k_vfs k)"] by blast

lemma fork_sched:
  assumes inv: "fd_inv 0 {} k" and sched: "sched_inv k" and s: "sys_fork ops t k = Some (r, k')"
  shows "sched_inv k'"
proof -
  obtain th pr q k1 u uth slot where f: "k_threads k t = Some th" "k_processes k (thread_process th) = Some pr"
      "alloc_process (process_name pr) 0 False k = Some (Some q, k1)"
      "k_threads k' = (k_threads k)(u \<mapsto> uth)" "vfs_next (k_vfs k) \<le> u" "u < vfs_next (k_vfs k1)"
      "s_all_threads_len k < MAX_THREADS" "s_all_threads k' = (s_all_threads k)[s_all_threads_len k := slot]"
      "s_all_threads_len k' = s_all_threads_len k + 1" "s_next_available_pid k' = s_next_available_pid k + 1"
    using sys_fork_result [OF s] by metis
  note a = alloc_process_inv [OF inv f(3)]
  have "fd_inv (vfs_next (k_vfs k1)) {} k1" "file_at k1 q = (\<lambda>_. None)" using a fd_inv_next by blast+
  from sys_fork_from [OF inv s f(1,2,3) this] have n1: "vfs_next (k_vfs k1) \<le> vfs_next (k_vfs k')" using fd_inv_next by blast
  have lt: "v < vfs_next (k_vfs k')" if "k_threads k' v = Some vth" for v vth
  proof (cases "v = u")
    case False
    then have "k_threads k v = Some vth" using that f(4) by simp
    then show ?thesis using sched f(5,6) n1 by (fastforce simp: sched_inv_def)
  qed (use f(6) n1 in simp)
  have "length (s_all_threads k') = MAX_THREADS" "s_all_threads_len k' \<le> MAX_THREADS"
    "s_next_available_pid k' = int (s_all_threads_len k')"
    using sched f by (simp_all add: sched_inv_def)
  moreover have "\<forall>j. s_all_threads_len k' \<le> j \<longrightarrow> j < MAX_THREADS \<longrightarrow> s_all_threads k' ! j = None"
    using sched f(7-9) by (simp add: sched_inv_def)
  ultimately show ?thesis using lt by (simp add: sched_inv_def)
qed

lemma dispatch_sched:
  assumes inv: "fd_inv 0 {} k" and sched: "sched_inv k" and s: "dispatch_syscall ops call k = Some (r, k')"
  shows "sched_inv k'"
proof -
  obtain t p where t: "s_current_thread k = Some t" and p: "current_process k = Some p"
    using s by (auto simp: dispatch_syscall_def bind_eq_Some_conv)
  note d = s [unfolded dispatch_syscall_def t p, simplified]
  consider "call = CallFork" | code where "call = CallExit code" | "call \<noteq> CallFork" "\<And>code. call \<noteq> CallExit code" by blast
  then show ?thesis
  proof cases
    case 1
    then show ?thesis using d fork_sched [OF inv sched] by auto
  next
    case 2
    then obtain th where "k_threads k t = Some th" "k_threads k' = (k_threads k)(t \<mapsto> th\<lparr>thread_state := Zombie\<rparr>)"
        "s_all_threads k' = s_all_threads k" "s_all_threads_len k' = s_all_threads_len k"
        "s_next_available_pid k' = s_next_available_pid k" "k_vfs k' = k_vfs k"
      using d exit_threads by fastforce
    then show ?thesis using sched by (auto simp: sched_inv_def split: if_splits)
  next
    case 3
    then show ?thesis using sched_inv_same [OF sched call_threads [OF s] dispatch_next [OF inv s]] by blast
  qed
qed

lemma visit_sched:
  assumes inv: "fd_inv 0 {} k" and sched: "sched_inv k" and s: "scheduler_visit ops i k = Some (chosen, k')"
  shows "sched_inv k'"
proof (cases "s_all_threads k ! i")
  case None
  then show ?thesis using s sched by (simp add: scheduler_visit_def)
next
  case (Some t)
  then obtain th where th: "k_threads k t = Some th" using s by (auto simp: scheduler_visit_def bind_eq_Some_conv)
  show ?thesis
  proof (cases "thread_state th")
    case Zombie
    then obtain k1 where "free_thread ops t k = Some k1" "k' = k1\<lparr>s_all_threads := (s_all_threads k1)[i := None]\<rparr>"
      using s Some th by (auto simp: scheduler_visit_def bind_eq_Some_conv)
    then show ?thesis using sched_inv_slots free_thread_sched [OF sched] free_thread_next [OF inv] by blast
  next
    case Runnable
    then obtain vm where "k' = k\<lparr>k_vm := vm, s_current_thread := Some t\<rparr>"
      using s Some th by (auto simp: scheduler_visit_def bind_eq_Some_conv)
    then show ?thesis using sched by (simp add: sched_inv_def)
  next
    case Suspended
    then show ?thesis using s Some th sched by (simp add: scheduler_visit_def)
  qed
qed

lemma open_kernel_log_threads: "open_kernel_log ops p fd flags k = Some k' \<Longrightarrow> same_threads k k'"
  by (auto simp: open_kernel_log_def bind_eq_Some_conv dest!: same_threads_slot)

lemma first_process_sched:
  assumes inv: "fd_inv 0 {} k" and sched: "sched_inv k" and s: "create_first_process ops entrypoint k = Some k'"
  shows "sched_inv k'"
proof -
  obtain p k1 pr t k2 k3 k4 k5 th where al: "alloc_process ''kernel'' entrypoint True k = Some (Some p, k1)"
      and reg: "register_thread t k1 = Some k2"
      and o: "open_kernel_log ops p 0 OF_RDONLY k2 = Some k3" "open_kernel_log ops p 1 OF_WRONLY k3 = Some k4"
        "open_kernel_log ops p 2 OF_WRONLY k4 = Some k5"
      and th: "k_threads k5 t = Some th" and k': "k' = (set_thread t (th\<lparr>thread_state := Runnable\<rparr>) k5)\<lparr>s_current_thread := Some t\<rparr>"
    using s unfolding create_first_process_def by (auto simp: bind_eq_Some_conv)
  obtain u uth where new: "k_threads k1 = (k_threads k)(u \<mapsto> uth)" "u < vfs_next (k_vfs k1)"
      "s_all_threads k1 = s_all_threads k" "s_all_threads_len k1 = s_all_threads_len k"
      "s_next_available_pid k1 = s_next_available_pid k + 1" "vfs_next (k_vfs k) \<le> u"
    using alloc_process_result [OF al] by metis
  note a = alloc_process_inv [OF inv al]
  have sched2: "sched_inv k2"
    using reg new sched by (auto simp: register_thread_def sched_inv_def nth_list_update split: if_splits) fastforce
  have i2: "fd_inv (vfs_next (k_vfs k2)) {} k2" "file_at k2 p = (\<lambda>_. None)"
    using reg a fd_inv_next [of "vfs_next (k_vfs k2)" "{}" k2] by (auto simp: register_thread_def bind_eq_Some_conv)
  have "fd_inv (vfs_next (k_vfs k2)) {} k5" by (rule standard_files_inv [OF i2 o])
  then have "vfs_next (k_vfs k2) \<le> vfs_next (k_vfs k5)" using fd_inv_next by blast
  moreover have "same_threads k2 k5" using o open_kernel_log_threads same_threads_trans by blast
  ultimately have "sched_inv k5" using sched_inv_same [OF sched2] same_table_threads by blast
  then show ?thesis using th by (auto simp: k' sched_inv_def set_thread_def split: if_splits)
qed

lemma first_process_slots:
  assumes s: "create_first_process ops entrypoint k = Some k'"
  shows "slots_kept k k'"
proof -
  obtain p k1 t k2 k3 k4 k5 th where al: "alloc_process ''kernel'' entrypoint True k = Some (Some p, k1)"
      and reg: "register_thread t k1 = Some k2"
      and o: "open_kernel_log ops p 0 OF_RDONLY k2 = Some k3" "open_kernel_log ops p 1 OF_WRONLY k3 = Some k4"
        "open_kernel_log ops p 2 OF_WRONLY k4 = Some k5"
      and k': "k' = (set_thread t (th\<lparr>thread_state := Runnable\<rparr>) k5)\<lparr>s_current_thread := Some t\<rparr>"
    using s unfolding create_first_process_def by (auto simp: bind_eq_Some_conv)
  have "s_all_threads k1 = s_all_threads k" "s_all_threads_len k1 = s_all_threads_len k"
    using alloc_process_result [OF al] by metis+
  moreover have "same_threads k2 k5" using o open_kernel_log_threads same_threads_trans by blast
  ultimately show ?thesis
    using reg by (intro slots_kept_new [where slot = "Some t"])
      (auto simp: k' register_thread_def bind_eq_Some_conv same_threads_def set_thread_def)
qed

lemma visit_slots:
  assumes len: "s_all_threads_len k \<le> length (s_all_threads k)" and s: "scheduler_visit ops i k = Some (chosen, k')"
  shows "slots_kept k k'"
proof (cases "s_all_threads k ! i")
  case None
  then show ?thesis using s by (simp add: scheduler_visit_def slots_kept_def)
next
  case (Some t)
  then obtain th where th: "k_threads k t = Some th" using s by (auto simp: scheduler_visit_def bind_eq_Some_conv)
  show ?thesis
  proof (cases "thread_state th")
    case Zombie
    then obtain k1 where k1: "free_thread ops t k = Some k1" "k' = k1\<lparr>s_all_threads := (s_all_threads k1)[i := None]\<rparr>"
      using s Some th by (auto simp: scheduler_visit_def bind_eq_Some_conv)
    have "slots_kept k k1" by (rule free_thread_slots [OF k1(1) len])
    moreover have "slots_kept k1 k'"
      by (cases "i < length (s_all_threads k1)") (auto simp: k1(2) slots_kept_def nth_list_update list_update_beyond)
    ultimately show ?thesis unfolding slots_kept_def by (metis order_less_le_trans order_trans)
  next
    case Runnable
    then obtain vm where "k' = k\<lparr>k_vm := vm, s_current_thread := Some t\<rparr>"
      using s Some th by (auto simp: scheduler_visit_def bind_eq_Some_conv)
    then show ?thesis by (simp add: slots_kept_def)
  next
    case Suspended
    then show ?thesis using s Some th by (simp add: scheduler_visit_def slots_kept_def)
  qed
qed

lemma kernel_step_slots:
  assumes sched: "sched_inv k" and s: "kernel_step ops e k = Some k'"
  shows "slots_kept k k'"
proof (cases e)
  case (FirstProcess entrypoint)
  then show ?thesis using s first_process_slots by simp
next
  case (KernelShortage answers)
  then show ?thesis using s by (auto simp: slots_kept_def)
next
  case (Visit i)
  then obtain chosen where "scheduler_visit ops i k = Some (chosen, k')" using s by (auto split: if_splits)
  then show ?thesis using visit_slots sched by (auto simp: sched_inv_def)
next
  case (Call call)
  then obtain r where d: "dispatch_syscall ops call k = Some (r, k')" using s by auto
  obtain t p where t: "s_current_thread k = Some t" and p: "current_process k = Some p"
    using d by (auto simp: dispatch_syscall_def bind_eq_Some_conv)
  note d' = d [unfolded dispatch_syscall_def t p, simplified]
  consider "call = CallFork" | code where "call = CallExit code" | "call \<noteq> CallFork" "\<And>code. call \<noteq> CallExit code" by blast
  then show ?thesis
  proof cases
    case 1
    then obtain rc where f: "sys_fork ops t k = Some (rc, k')" using d' by auto
    show ?thesis by (rule sys_fork_result [OF f]) (rule slots_kept_new)
  next
    case 2
    then show ?thesis using d' exit_threads by (fastforce simp: slots_kept_def)
  next
    case 3
    then show ?thesis using slots_kept_same [OF call_threads [OF d]] by blast
  qed
next
  case (SleepOver m)
  then show ?thesis using s by (auto simp: sleep_expired_def slots_kept_def split: if_splits)
qed

lemma kernel_reach_sched: "kernel_reach ops k \<Longrightarrow> fd_inv 0 {} k \<and> sched_inv k"
proof (induction rule: kernel_reach.induct)
  case (boot v vm)
  then have "fd_inv 0 {} (boot_kernel v vm)" using kernel_reach.boot kernel_reach_inv by blast
  then show ?case by (simp add: sched_inv_def boot_kernel_def MAX_THREADS_def)
next
  case (event k e k')
  then have inv: "fd_inv 0 {} k" and sched: "sched_inv k" by auto
  have "fd_inv 0 {} k'" by (rule kernel_step_inv [OF inv event(2)])
  moreover have "sched_inv k'"
  proof (cases e)
    case (FirstProcess entrypoint)
    then show ?thesis using event(2) first_process_sched [OF inv sched] by simp
  next
    case (KernelShortage answers)
    then show ?thesis using event(2) sched by (auto simp: sched_inv_def)
  next
    case (Visit i)
    then obtain chosen where "scheduler_visit ops i k = Some (chosen, k')" using event(2) by (auto split: if_splits)
    then show ?thesis by (rule visit_sched [OF inv sched])
  next
    case (Call call)
    then obtain r where "dispatch_syscall ops call k = Some (r, k')" using event(2) by auto
    then show ?thesis by (rule dispatch_sched [OF inv sched])
  next
    case (SleepOver m)
    then show ?thesis using event(2) sched by (auto simp: sleep_expired_def sched_inv_def split: if_splits)
  qed
  ultimately show ?case by simp
qed

end

subsection \<open>The shape of the state\<close>

text \<open>
  C7: Every state the kernel reaches has the shape its types promise.  Every process has a table of 16 descriptors;
  every descriptor leads to an open file, the open file to an inode with a positive count, and the inode is in the
  cache of its own filesystem under its own number; the cache has no dead or misplaced entry.  The table of threads
  has 64 slots, those behind the counted ones are empty.
\<close>
theorem kernel_state_shape:
  assumes "kernel_reach kernel_ops k"
  shows "(k_processes k p = Some pr \<longrightarrow> length (openfiles pr) = 16) \<and>
    (file_at k p fd = Some c \<longrightarrow> (\<exists>cu f i. vfs_custodies (k_vfs k) c = Some cu \<and>
       vfs_inodes (k_vfs k) (custody_inode cu) = Some (f, i) \<and> 1 \<le> refcount i \<and>
       icache_lookup (vfs_icache (k_vfs k) f) (inode_id i) = Some (custody_inode cu))) \<and>
    (icache_lookup (vfs_icache (k_vfs k) g) identifier = Some q \<longrightarrow>
       (\<exists>i. vfs_inodes (k_vfs k) q = Some (g, i) \<and> inode_id i = identifier \<and> 1 \<le> refcount i)) \<and>
    length (s_all_threads k) = 64 \<and> (s_all_threads_len k \<le> j \<longrightarrow> j < 64 \<longrightarrow> s_all_threads k ! j = None)"
proof -
  have inv: "fd_inv 0 {} k" and sched: "sched_inv k" using kernel.kernel_reach_sched [OF assms] by auto
  have v: "vfs_inv (\<lambda>_. 0) (k_vfs k)" using inv by (simp add: fd_inv_def)
  have cached: "\<exists>i. vfs_inodes (k_vfs k) q = Some (f, i) \<and> inode_id i = key \<and> 1 \<le> refcount i"
    if "icache_lookup (vfs_icache (k_vfs k) f) key = Some q" for f key q
    using icache_lookup_Some [OF that] v unfolding vfs_inv_def by meson
  have inode: "1 \<le> refcount i \<and> icache_lookup (vfs_icache (k_vfs k) f) (inode_id i) = Some q"
    if i: "vfs_inodes (k_vfs k) q = Some (f, i)" for q f i
  proof -
    have e: "1 \<le> refcount i" "(inode_id i, q) \<in> set (vfs_icache (k_vfs k) f)" "distinct (map fst (vfs_icache (k_vfs k) f))"
      using i v unfolding vfs_inv_def by blast+
    then obtain q' where q': "icache_lookup (vfs_icache (k_vfs k) f) (inode_id i) = Some q'"
      using icache_lookup_None [of "vfs_icache (k_vfs k) f" "inode_id i"] by force
    have "q' = q" by (rule eq_key_imp_eq_value [OF e(3) icache_lookup_Some [OF q'] e(2)])
    then show ?thesis using e(1) q' by simp
  qed
  have "\<exists>cu f i. vfs_custodies (k_vfs k) c = Some cu \<and> vfs_inodes (k_vfs k) (custody_inode cu) = Some (f, i)"
    if "file_at k p fd = Some c"
  proof -
    have "c \<in> dom (vfs_custodies (k_vfs k))" using inv takenI [of "file_at k" p fd c] that by (auto simp: fd_inv_def owns_def)
    then obtain cu where cu: "vfs_custodies (k_vfs k) c = Some cu" by blast
    then have "custody_inode cu \<in> dom (vfs_inodes (k_vfs k))" using v unfolding vfs_inv_def by blast
    then show ?thesis using cu by auto
  qed
  then show ?thesis
    using cached inode fd_invD(2) [OF inv] sched by (fastforce simp: sched_inv_def MAX_THREADS_def MAX_OPEN_FILES_def)
qed

subsection \<open>A limited number of processes\<close>

text \<open>
  C10: A run of the kernel has at most 64 processes, however many of them have exited.  The table of threads has 64 slots;
  whatever happens, a slot that has been used is only ever cleared and not used again.  A fork that returns the
  number of a new process has taken the next slot and the next number, so that with a full table no fork returns
  one.  (A fork that runs out of memory goes into a cleanup that releases the new process twice or a process
  that there is not; the model ends there.)
\<close>
theorem process_budget:
  assumes "kernel_reach kernel_ops k"
  shows "s_all_threads_len k \<le> 64 \<and>
    (kernel_step kernel_ops e k = Some k' \<longrightarrow> s_all_threads_len k \<le> s_all_threads_len k' \<and>
      (\<forall>j < s_all_threads_len k. s_all_threads k' ! j = s_all_threads k ! j \<or> s_all_threads k' ! j = None)) \<and>
    (sys_fork kernel_ops t k = Some (r, k'') \<longrightarrow> 0 \<le> r \<longrightarrow>
      s_all_threads_len k < 64 \<and> s_all_threads_len k'' = s_all_threads_len k + 1 \<and>
      r = s_next_available_pid k \<and> s_next_available_pid k'' = r + 1)"
proof -
  have sched: "sched_inv k" using kernel.kernel_reach_sched [OF assms] by auto
  have "s_all_threads_len k < MAX_THREADS \<and> s_all_threads_len k'' = s_all_threads_len k + 1 \<and>
      r = s_next_available_pid k \<and> s_next_available_pid k'' = r + 1" if f: "sys_fork kernel_ops t k = Some (r, k'')"
    by (rule sys_fork_result [OF f]) simp
  moreover have "slots_kept k k'" if "kernel_step kernel_ops e k = Some k'"
    using kernel.kernel_step_slots [OF sched that] .
  ultimately show ?thesis using sched by (auto simp: sched_inv_def MAX_THREADS_def slots_kept_def)
qed

subsection \<open>Every runnable thread runs\<close>

text \<open>What another thread does leaves a thread that waits for the processor as it is.\<close>

definition waits_at :: "nat \<Rightarrow> nat \<Rightarrow> ('c, 's) kernel \<Rightarrow> bool" where
  "waits_at j t k \<longleftrightarrow> s_all_threads k ! j = Some t \<and> (\<exists>th. k_threads k t = Some th \<and> thread_state th = Runnable)"

lemma waits_at_same: "waits_at j t k \<Longrightarrow> same_table k k' \<Longrightarrow> waits_at j t k'"
proof -
  assume w: "waits_at j t k" and s: "same_table k k'"
  then have "map_option thread_state (k_threads k' t) = Some Runnable" by (auto simp: waits_at_def same_table_def)
  then show "waits_at j t k'" using w s by (auto simp: waits_at_def same_table_def)
qed

lemma dispatch_current:
  assumes s: "dispatch_syscall ops call k = Some (r, k')"
  shows "s_current_thread k' = s_current_thread k"
proof -
  obtain u p where u: "s_current_thread k = Some u" and p: "current_process k = Some p"
    using s by (auto simp: dispatch_syscall_def bind_eq_Some_conv)
  note d = s [unfolded dispatch_syscall_def u p, simplified]
  consider "call = CallFork" | code where "call = CallExit code" | "call \<noteq> CallFork" "\<And>code. call \<noteq> CallExit code" by blast
  then show ?thesis
  proof cases
    case 1
    then obtain rc where f: "sys_fork ops u k = Some (rc, k')" using d by auto
    show ?thesis by (rule sys_fork_result [OF f])
  next
    case 2
    then show ?thesis using d exit_threads by fastforce
  next
    case 3
    then show ?thesis using call_threads [OF s 3] by (simp add: same_table_def)
  qed
qed

lemma dispatch_waits:
  assumes sched: "sched_inv k" and w: "waits_at j t k" "j < MAX_THREADS" and s: "dispatch_syscall ops call k = Some (r, k')"
    and cur: "s_current_thread k \<noteq> Some t"
  shows "waits_at j t k'"
proof -
  obtain u p where u: "s_current_thread k = Some u" and p: "current_process k = Some p"
    using s by (auto simp: dispatch_syscall_def bind_eq_Some_conv)
  note d = s [unfolded dispatch_syscall_def u p, simplified]
  consider "call = CallFork" | code where "call = CallExit code" | "call \<noteq> CallFork" "\<And>code. call \<noteq> CallExit code" by blast
  then show ?thesis
  proof cases
    case 1
    then obtain rc where f: "sys_fork ops u k = Some (rc, k')" using d by auto
    obtain v vth slot where v: "k_threads k' = (k_threads k)(v \<mapsto> vth)" "vfs_next (k_vfs k) \<le> v"
        "s_all_threads k' = (s_all_threads k)[s_all_threads_len k := slot]"
      by (rule sys_fork_result [OF f]) blast
    have "t < vfs_next (k_vfs k)" "j \<noteq> s_all_threads_len k" using w sched by (auto simp: waits_at_def sched_inv_def)
    then show ?thesis using w v by (auto simp: waits_at_def)
  next
    case 2
    then obtain th where "k_threads k u = Some th" "k_threads k' = (k_threads k)(u \<mapsto> th\<lparr>thread_state := Zombie\<rparr>)"
        "s_all_threads k' = s_all_threads k"
      using d exit_threads by fastforce
    then show ?thesis using w cur u by (auto simp: waits_at_def)
  next
    case 3
    show ?thesis by (rule waits_at_same [OF w(1) call_threads [OF s 3]])
  qed
qed

context counted_filesystems
begin

lemma run_calls_waits:
  assumes "run_calls ops calls k = Some k'" and "fd_inv 0 {} k" and "sched_inv k" and "s_current_thread k \<noteq> Some t"
  shows "fd_inv 0 {} k' \<and> sched_inv k' \<and> (waits_at j t k \<longrightarrow> j < MAX_THREADS \<longrightarrow> waits_at j t k')"
  using assms
proof (induction calls arbitrary: k)
  case (Cons call calls)
  then obtain r k1 where d: "dispatch_syscall ops call k = Some (r, k1)" by (auto simp: bind_eq_Some_conv)
  have k1: "fd_inv 0 {} k1" "sched_inv k1"
    using dispatch_syscall_inv dispatch_sched Cons.prems(2,3) d by blast+
  have cur: "s_current_thread k1 = s_current_thread k" by (rule dispatch_current [OF d])
  have w: "waits_at j t k \<Longrightarrow> j < MAX_THREADS \<Longrightarrow> waits_at j t k1" using dispatch_waits d Cons.prems(3,4) by blast
  show ?case
  proof (cases r)
    case Yield
    then have "k' = k1" using Cons.prems(1) d by simp
    then show ?thesis using k1 w by simp
  next
    case (Return x)
    then have "run_calls ops calls k1 = Some k'" using Cons.prems(1) d by simp
    then show ?thesis using Cons.IH [OF _ k1] cur Cons.prems(4) w by simp
  qed
qed simp

lemma visit_waits:
  assumes sched: "sched_inv k" and s: "scheduler_visit ops i k = Some (chosen, k')"
    and w: "waits_at j t k" "j < MAX_THREADS"
  shows "if i = j then chosen = Some t else chosen = Some t \<or> waits_at j t k' \<and> (\<forall>u. chosen = Some u \<longrightarrow> s_current_thread k' \<noteq> Some t)"
proof (cases "s_all_threads k ! i")
  case None
  then show ?thesis using s w by (auto simp: scheduler_visit_def waits_at_def)
next
  case (Some u)
  then obtain th where th: "k_threads k u = Some th" using s by (auto simp: scheduler_visit_def bind_eq_Some_conv)
  show ?thesis
  proof (cases "thread_state th")
    case Zombie
    then have u: "u \<noteq> t" "i \<noteq> j" using w Some th by (auto simp: waits_at_def)
    obtain k1 where k1: "free_thread ops u k = Some k1" "chosen = None" "k' = k1\<lparr>s_all_threads := (s_all_threads k1)[i := None]\<rparr>"
      using s Some th Zombie by (auto simp: scheduler_visit_def bind_eq_Some_conv)
    have "s_all_threads_len k \<le> length (s_all_threads k)" using sched by (simp add: sched_inv_def)
    note r = free_thread_result [OF k1(1) this]
    have "s_all_threads k1 ! j = s_all_threads k ! j"
      using r w(1) u(1) by (metis nth_list_update_neq option.inject waits_at_def)
    then have "waits_at j t k1" using r w u by (simp add: waits_at_def)
    then show ?thesis using u k1 by (simp add: waits_at_def)
  next
    case Runnable
    then show ?thesis using s Some th w by (auto simp: scheduler_visit_def bind_eq_Some_conv waits_at_def)
  next
    case Suspended
    then show ?thesis using s Some th w by (auto simp: scheduler_visit_def waits_at_def)
  qed
qed

lemma run_reaches:
  assumes "scheduler_run ops prog n i k = Some (ts, k')" and "fd_inv 0 {} k" and "sched_inv k" and "waits_at j t k"
    and "m < n" and "(i + m) mod MAX_THREADS = j"  and "i < MAX_THREADS"
  shows "t \<in> set ts"
  using assms
proof (induction n arbitrary: i k ts m)
  case (Suc n)
  have j: "j < MAX_THREADS" using Suc.prems(6) by (auto simp: MAX_THREADS_def)
  obtain chosen k1 where v: "scheduler_visit ops i k = Some (chosen, k1)"
    using Suc.prems(1) by (auto simp: bind_eq_Some_conv)
  note w = visit_waits [OF Suc.prems(3) v Suc.prems(4) j]
  have k1: "fd_inv 0 {} k1" "sched_inv k1"
    using scheduler_visit_inv [OF Suc.prems(2) v] visit_sched [OF Suc.prems(2,3) v] by auto
  show ?case
  proof (cases "chosen = Some t")
    case True
    then show ?thesis using Suc.prems(1) v by (auto simp: bind_eq_Some_conv)
  next
    case False
    then have ne: "i \<noteq> j" and wk1: "waits_at j t k1" using w by (auto split: if_splits)
    then obtain m' where m: "m = Suc m'" using Suc.prems(6,7) by (cases m) auto
    obtain k2 where k2: "(case chosen of None \<Rightarrow> Some k1
          | Some u \<Rightarrow> Option.bind (run_calls ops (prog n u) k1) (\<lambda>k. Some (k\<lparr>g_scheduler_has_started := True\<rparr>))) = Some k2"
        and r2: "Option.bind (scheduler_run ops prog n (Suc i mod MAX_THREADS) k2)
          (\<lambda>(ts, k). Some ((case chosen of None \<Rightarrow> ts | Some t \<Rightarrow> t # ts), k)) = Some (ts, k')"
      using Suc.prems(1) v by (auto simp: bind_eq_Some_conv)
    obtain ts' where rest: "scheduler_run ops prog n (Suc i mod MAX_THREADS) k2 = Some (ts', k')" and sub: "set ts' \<subseteq> set ts"
      using r2 by (cases chosen) (fastforce simp: bind_eq_Some_conv)+
    have "fd_inv 0 {} k2 \<and> sched_inv k2 \<and> waits_at j t k2"
    proof (cases chosen)
      case None
      then show ?thesis using k2 k1 wk1 by simp
    next
      case (Some u)
      then obtain k3 where k3: "run_calls ops (prog n u) k1 = Some k3" "k2 = k3\<lparr>g_scheduler_has_started := True\<rparr>"
        using k2 by (auto simp: bind_eq_Some_conv)
      have "s_current_thread k1 \<noteq> Some t" using w ne False Some by auto
      from run_calls_waits [OF k3(1) k1 this, of j] show ?thesis
        using wk1 j by (simp add: k3(2) sched_inv_def waits_at_def)
    qed
    moreover have "(Suc i mod MAX_THREADS + m') mod MAX_THREADS = j" using Suc.prems(6) m by (simp add: mod_add_left_eq)
    ultimately have "t \<in> set ts'"
      using Suc.IH [OF rest, of m'] Suc.prems(5) m by (simp add: MAX_THREADS_def)
    then show ?thesis using sub by blast
  qed
qed simp

end

text \<open>
  C6: The scheduler is fair: from every reachable state, from every slot it starts at and whatever the threads do
  when they run, a thread that is runnable in some slot has run when the scheduler has made 64 visits without a
  panic.
\<close>
theorem every_runnable_thread_runs:
  assumes "kernel_reach kernel_ops k" and "scheduler_run kernel_ops prog 64 i k = Some (ts, k')" and "i < 64" and "j < 64"
    and "s_all_threads k ! j = Some t" and "k_threads k t = Some th" and "thread_state th = Runnable"
  shows "t \<in> set ts"
proof -
  have inv: "fd_inv 0 {} k" "sched_inv k" using kernel.kernel_reach_sched [OF assms(1)] by auto
  have "waits_at j t k" using assms(5-7) by (simp add: waits_at_def)
  moreover have "(i + (j + 64 - i) mod 64) mod MAX_THREADS = j"
    using assms(3,4) by (simp add: MAX_THREADS_def mod_add_right_eq)
  ultimately show ?thesis
    using kernel.run_reaches [OF assms(2) inv, of j t "(j + 64 - i) mod 64"] assms(3) by (simp add: MAX_THREADS_def)
qed

end
