(* ===== verification/FirstProcess.thy ===== *)
theory FirstProcess
  imports Scheduling VmProps
begin

text \<open>
  A concrete machine on which the kernel boots and creates its first process: 128 KB of RAM at \<open>0x40000000\<close>, the
  kernel's root table in page 0, its second level table for the vectors in page 16, the vectors in page 20, and
  six free blocks of 16 KB from page 32 on.
\<close>

subsection \<open>Tables in empty memory\<close>

definition apart :: "nat \<Rightarrow> nat \<Rightarrow> u32 \<Rightarrow> bool" where
  "apart m n c \<longleftrightarrow> unat c < 0xe0000000 + m \<or> 0xe0000000 + m + 4 * n \<le> unat c"

lemma apart_slot: "apart m n c \<Longrightarrow> i < n \<Longrightarrow> m + 4 * n \<le> 2 ^ 29 \<Longrightarrow> win (m + 4 * i) \<noteq> c"
  using unat_win [of "m + 4 * i"] by (auto simp: apart_def)

lemma memset_clear:
  assumes "vm_geom s" and "m + 4 * n \<le> unat (ram_size s)" and "unat (ram_size s) \<le> 2 ^ 29"
    and "\<And>a. a \<notin> set cs \<Longrightarrow> vm_mem s a = 0" and "list_all (apart m n) cs"
  shows "memset_words (win m) n s = Some s"
proof -
  have "vm_mem s (win (m + 4 * i)) = 0" if "i < n" for i
  proof (cases "win (m + 4 * i) \<in> set cs")
    case True
    then have "apart m n (win (m + 4 * i))" using assms(5) by (auto simp: list_all_iff)
    then show ?thesis using apart_slot that assms(2,3) by fastforce
  qed (use assms(4) in simp)
  then have "zero_words m n (vm_mem s) = vm_mem s" by (auto simp: zero_words_def fun_eq_iff)
  then show ?thesis using memset_words_win [OF assms(1,2)] by simp
qed

lemma copy_clear:
  assumes "\<And>i. j \<le> i \<Longrightarrow> i < j + n \<Longrightarrow> load s (table_slot src i) = Some 0 \<and> load s (table_slot dst i) = Some 0"
  shows "copy_kernel_entries dst src j n s = Some s"
  using assms
proof (induction n arbitrary: j)
  case (Suc n)
  have "load s (table_slot src j) = Some 0" "load s (table_slot dst j) = Some 0" using Suc.prems [of j] by auto
  then have "store (table_slot dst j) 0 s = Some s"
    by (auto simp: load_def store_def fun_upd_idem split: if_splits)
  then show ?case using Suc.IH [of "Suc j"] Suc.prems \<open>load s (table_slot src j) = Some 0\<close> by simp
qed simp

lemma load_clear:
  assumes "vm_geom s" and "m + 4 * n \<le> unat (ram_size s)" and "j \<le> i" and "i < n"
    and "\<And>a. a \<notin> set cs \<Longrightarrow> vm_mem s a = 0" and "list_all (apart (m + 4 * j) (n - j)) cs"
  shows "load s (table_slot (win m) i) = Some 0"
proof -
  let ?a = "win (m + 4 * i)"
  have "?a \<notin> set cs"
  proof
    assume "?a \<in> set cs"
    then have "apart (m + 4 * j) (n - j) ?a" using assms(6) by (auto simp: list_all_iff)
    then have "win (m + 4 * j + 4 * (i - j)) \<noteq> ?a"
      by (rule apart_slot) (use assms(2-4) vm_geomD(3) [OF assms(1)] in linarith)+
    moreover have "m + 4 * j + 4 * (i - j) = m + 4 * i" using assms(3) by simp
    ultimately show False by simp
  qed
  then have "vm_mem s ?a = 0" by (rule assms(5))
  then show ?thesis using load_win [OF assms(1), of "m + 4 * i"] assms(2-4) by (simp add: table_slot_win)
qed

subsection \<open>The machine\<close>

definition boot_pages :: "PhysicalPage list" where
  "boot_pages = map (\<lambda>p. \<lparr>ref_count = (if p \<in> {0, 16, 20} then 1 else 0),
     next_page = (if p \<in> {32, 48, 64, 80, 96} then Some (p + 16) else None)\<rparr>) [0..<128]"

definition boot_vm :: vm_state where
  "boot_vm = \<lparr>vm_pa = \<lparr>pages_data = boot_pages, ram_starting_address = 0x40000000,
       free_pages_lists = (\<lambda>_. None)(Order16KB := Some 32)\<rparr>,
     vm_mem = (\<lambda>_. 0)(0xe0000000 := coarse_entry 0x40004000, 0xe0004000 := small_entry 0x40005000 PriviledgedOnly),
     kernel_as = Some 0, current_as = Some 0, ttbr0 = 0x40000000, ioremap_used = replicate 8192 False,
     ram_phys_start = 0x40000000, ram_size = 0x20000, init_state = InitCompleted\<rparr>"

lemma boot_pages_simps [simp]: "length boot_pages = 128" "p < 128 \<Longrightarrow> boot_pages ! p =
   \<lparr>ref_count = (if p \<in> {0, 16, 20} then 1 else 0), next_page = (if p \<in> {32, 48, 64, 80, 96} then Some (p + 16) else None)\<rparr>"
  by (simp_all add: boot_pages_def)

lemmas alloc_defs = physical_page_alloc_def raw_page_alloc_def raw_page_alloc_16KB_def raw_page_alloc_4KB_def
  raw_page_alloc_1KB_def pop_result_def pop_page_from_free_pages_list_def split_page_in_smaller_chunks_def
  append_page_to_free_pages_list_def set_free_list_def set_next_def set_ref_count_def page_at_def smaller_order_def
  order2page_size_def page2addr_def addr2page_def kassert_def Let_def

lemmas table_defs = get_root_table_ptr_def phys2virt_def load_def store_def in_window_def table_slot_def
  physical_mem_start_def LVL1_TABLE_SIZE_def LVL2_TABLE_SIZE_def LVL1_ENTRIES_def kernel_area_start_def

definition pa1 :: phys_alloc where
  "pa1 = \<lparr>pages_data = boot_pages
        [32 := \<lparr>ref_count = 1, next_page = None\<rparr>, 48 := \<lparr>ref_count = 0, next_page = None\<rparr>,
         52 := \<lparr>ref_count = 0, next_page = Some 48\<rparr>, 56 := \<lparr>ref_count = 0, next_page = Some 52\<rparr>,
         60 := \<lparr>ref_count = 0, next_page = None\<rparr>, 61 := \<lparr>ref_count = 0, next_page = Some 60\<rparr>,
         62 := \<lparr>ref_count = 0, next_page = Some 61\<rparr>, 63 := \<lparr>ref_count = 1, next_page = None\<rparr>],
     ram_starting_address = 0x40000000, free_pages_lists = [Order16KB \<mapsto> 64, Order4KB \<mapsto> 56, Order1KB \<mapsto> 62]\<rparr>"

definition pa2 :: phys_alloc where
  "pa2 = set_ref_count 20 2 pa1"

definition vm2 :: vm_state where
  "vm2 = boot_vm\<lparr>vm_pa := pa2, vm_mem := (vm_mem boot_vm)(0xe0008000 := coarse_entry 0x4000fc00,
     0xe000fc00 := small_entry 0x40005000 PriviledgedOnly)\<rparr>"

lemma geom: "pages_data pa = boot_pages[a := x1, b := x2, c := x3, d := x4, e := x5, f := x6, g := x7, h := x8] \<Longrightarrow>
  ram_starting_address pa = 0x40000000 \<Longrightarrow> vm_geom (boot_vm\<lparr>vm_pa := pa, vm_mem := m\<rparr>)"
  by (simp add: vm_geom_def boot_vm_def mask_eq_exp_minus_1)

lemma coarse_at: "coarse_base_address (coarse_of (coarse_entry a)) = a AND NOT (mask 10)"
  by (simp add: coarse_entry_def coarse_entry_fields coarse_base_make)

lemma entry_bases [simp]:
  "coarse_base_address (coarse_of (coarse_entry 0x40004000)) = 0x40004000"
  "coarse_base_address (coarse_of (coarse_entry 0x4000fc00)) = 0x4000fc00"
  "coarse_base_address (coarse_of (coarse_entry 0x4000f800)) = 0x4000f800"
  "small_page_base_address (small_page_of (small_entry 0x40005000 p)) = 0x40005000"
  by (simp_all add: coarse_at small_entry_base mask_eq_exp_minus_1)

lemma create_example: "vm_create_address_space boot_vm = Some (Inr 32, vm2)"
proof -
  have al: "\<exists>pa. physical_page_alloc Order16KB (vm_pa boot_vm) = Some (Inr 32, pa) \<and> physical_page_alloc Order1KB pa = Some (Inr 63, pa1)"
    by (simp add: alloc_defs boot_vm_def pa1_def)
  let ?s1 = "boot_vm\<lparr>vm_pa := pa1\<rparr>"
  have g1: "vm_geom (boot_vm\<lparr>vm_pa := pa1, vm_mem := m\<rparr>)" for m by (rule geom) (simp_all add: pa1_def)
  have m1: "memset_words 0xe0008000 4096 ?s1 = Some ?s1"
    using memset_clear [of ?s1 "0x8000" 4096 "[0xe0000000, 0xe0004000]"] g1 [of "vm_mem boot_vm"]
    by (simp add: boot_vm_def apart_def win_def)
  have c: "copy_kernel_entries 0xe0008000 0xe0000000 3072 1024 ?s1 = Some ?s1"
  proof (rule copy_clear)
    fix i assume i: "3072 \<le> i" "i < 3072 + (1024 :: nat)"
    have mem: "a \<notin> set [0xe0000000, 0xe0004000] \<Longrightarrow> vm_mem ?s1 a = 0" for a by (simp add: boot_vm_def)
    have g: "vm_geom ?s1" using g1 [of "vm_mem boot_vm"] by simp
    have "load ?s1 (table_slot (win 0) i) = Some 0"
      by (rule load_clear [where n = 4096 and cs = "[0xe0000000, 0xe0004000]", OF g _ i(1) _ mem]) (use i in \<open>simp_all add: boot_vm_def apart_def\<close>)
    moreover have "load ?s1 (table_slot (win 0x8000) i) = Some 0"
      by (rule load_clear [where n = 4096 and cs = "[0xe0000000, 0xe0004000]", OF g _ i(1) _ mem]) (use i in \<open>simp_all add: boot_vm_def apart_def\<close>)
    ultimately show "load ?s1 (table_slot 0xe0000000 i) = Some 0 \<and> load ?s1 (table_slot 0xe0008000 i) = Some 0"
      by (simp add: win_def)
  qed
  have roots: "get_root_table_ptr ?s1 (Some 32) = Some 0xe0008000" "get_root_table_ptr ?s1 (kernel_as ?s1) = Some 0xe0000000"
    by (simp_all add: table_defs boot_vm_def pa1_def page2addr_def)
  have idx: "lvl1_index kernel_area_start = 3072" by (simp add: lvl1_index_div kernel_area_start_def)
  have v: "map_vector_page 0xe0008000 0xe0000000 63 ?s1 = Some vm2"
  proof -
    let ?m = "(vm_mem boot_vm)(0xe0008000 := coarse_entry 0x4000fc00)"
    let ?s2 = "boot_vm\<lparr>vm_pa := pa2, vm_mem := ?m\<rparr>"
    have g2: "vm_geom ?s2" unfolding pa2_def set_ref_count_def by (simp add: vm_geom_def boot_vm_def pa1_def mask_eq_exp_minus_1)
    have m2: "memset_words 0xe000fc00 256 ?s2 = Some ?s2"
      using memset_clear [of ?s2 "0xfc00" 256 "[0xe0000000, 0xe0004000, 0xe0008000]"] g2
      by (simp add: boot_vm_def apart_def win_def)
    show ?thesis
      using m2
      by (simp add: map_vector_page_def table_defs boot_vm_def pa1_def pa2_def vm2_def page2addr_def addr2page_def page_at_def
          set_ref_count_def coarse_entry_def [symmetric] small_entry_def [symmetric] Let_def)
  qed
  obtain pa where "physical_page_alloc Order16KB (vm_pa boot_vm) = Some (Inr 32, pa)" "physical_page_alloc Order1KB pa = Some (Inr 63, pa1)"
    using al by blast
  then show ?thesis using m1 c v roots
    by (simp add: vm_create_address_space_def idx LVL1_TABLE_SIZE_def LVL1_ENTRIES_def Let_def del: o_apply)
qed

definition pa3 :: phys_alloc where
  "pa3 = pa2\<lparr>pages_data := (pages_data pa2)[56 := \<lparr>ref_count = 1, next_page = None\<rparr>],
     free_pages_lists := [Order16KB \<mapsto> 64, Order4KB \<mapsto> 52, Order1KB \<mapsto> 62]\<rparr>"

lemma kernel_stack_example: "alloc_kernel_stack vm2 = Some (Some 0xe000eff8, vm2\<lparr>vm_pa := pa3\<rparr>)"
  by (simp add: alloc_kernel_stack_def vm2_def pa3_def pa2_def pa1_def boot_vm_def alloc_defs table_defs fun_upd_twist)

definition pa4 :: phys_alloc where
  "pa4 = pa3\<lparr>pages_data := (pages_data pa3)
        [52 := \<lparr>ref_count = 1, next_page = None\<rparr>, 48 := \<lparr>ref_count = 1, next_page = None\<rparr>,
         64 := \<lparr>ref_count = 0, next_page = None\<rparr>, 68 := \<lparr>ref_count = 0, next_page = Some 64\<rparr>,
         72 := \<lparr>ref_count = 0, next_page = Some 68\<rparr>, 76 := \<lparr>ref_count = 1, next_page = None\<rparr>,
         72 := \<lparr>ref_count = 1, next_page = None\<rparr>],
     free_pages_lists := [Order16KB \<mapsto> 80, Order4KB \<mapsto> 68, Order1KB \<mapsto> 62]\<rparr>"

lemma user_pages_example: "alloc_user_stack_pages pa3 = Some (Some [52, 48, 76, 72], pa4)"
proof -
  have four: "(4 :: nat) = Suc (Suc (Suc (Suc 0)))" by simp
  show ?thesis
    unfolding alloc_user_stack_pages_def four
    by (simp add: pa4_def pa3_def pa2_def pa1_def alloc_defs fun_upd_twist)
qed

definition pa5 :: phys_alloc where
  "pa5 = pa4\<lparr>pages_data := (pages_data pa4)[62 := \<lparr>ref_count = 1, next_page = None\<rparr>],
     free_pages_lists := [Order16KB \<mapsto> 80, Order4KB \<mapsto> 68, Order1KB \<mapsto> 61]\<rparr>"

lemma table_page_example: "physical_page_alloc Order1KB pa4 = Some (Inr 62, pa5)"
  by (simp add: pa5_def pa4_def pa3_def pa2_def pa1_def alloc_defs fun_upd_twist)

lemma pa_simps [simp]:
  "ram_starting_address pa2 = 0x40000000" "ram_starting_address pa3 = 0x40000000" "ram_starting_address pa4 = 0x40000000"
  "ram_starting_address pa5 = 0x40000000" "length (pages_data pa2) = 128" "length (pages_data pa3) = 128"
  "length (pages_data pa4) = 128" "length (pages_data pa5) = 128"
  by (simp_all add: pa5_def pa4_def pa3_def pa2_def pa1_def set_ref_count_def)

definition user_mem :: "u32 \<Rightarrow> u32" where
  "user_mem = (vm_mem vm2)(0xe000affc := coarse_entry 0x4000f800)"

lemma map_example:
  "vm_map (Some 32) 52 0xbffff000 UserFullAccess (vm2\<lparr>vm_pa := pa4\<rparr>) =
     Some (vm2\<lparr>vm_pa := pa5, vm_mem := user_mem(0xe000fbfc := small_entry 0x4000d000 UserFullAccess)\<rparr>)"
proof -
  let ?s = "vm2\<lparr>vm_pa := pa5, vm_mem := user_mem\<rparr>"
  have g: "vm_geom ?s"
    by (simp add: vm_geom_def vm2_def boot_vm_def mask_eq_exp_minus_1)
  have m: "memset_words 0xe000f800 256 ?s = Some ?s"
    using memset_clear [of ?s "0xf800" 256 "[0xe0000000, 0xe0004000, 0xe0008000, 0xe000fc00, 0xe000affc]"] g
    by (simp add: vm2_def boot_vm_def user_mem_def apart_def win_def)
  show ?thesis
    using m table_page_example
    by (simp add: vm_map_def vm_map_page_def fill_lvl1_slot_def alloc_lvl2_table_def table_defs lvl1_index_div lvl2_index_div
        vm2_def boot_vm_def user_mem_def page2addr_def Let_def range_contains_def kernel_area_end_def section_of_0
        SECTION_ENTRY_ID_def coarse_entry_def [symmetric] small_entry_def [symmetric])
qed

lemma map_more_example:
  assumes m: "m 0xe000affc = coarse_entry 0x4000f800" and "p < 128"
    and v: "v \<in> {0xbfffe000, 0xbfffd000, 0xbfffc000}" and "m (0xe000f800 + 4 * word_of_nat (lvl2_index v)) = 0"
  shows "vm_map (Some 32) p v UserFullAccess (vm2\<lparr>vm_pa := pa5, vm_mem := m\<rparr>) =
    Some (vm2\<lparr>vm_pa := pa5, vm_mem := m(0xe000f800 + 4 * word_of_nat (lvl2_index v) :=
      small_entry (0x40000000 + word_of_nat p * 1024) UserFullAccess)\<rparr>)"
proof -
  have l1: "lvl1_index v = 3071" using v by (auto simp: lvl1_index_div)
  have l2: "lvl2_index v \<in> {254, 253, 252}" using v by (auto simp: lvl2_index_div)
  show ?thesis
    using l2 assms(2,4)
    by (auto simp: vm_map_def vm_map_page_def table_defs l1 m vm2_def boot_vm_def page2addr_def Let_def
        coarse_entry_identifier small_entry_def [symmetric])
qed

lemma user_stack_example:
  "\<exists>vm. alloc_thread_user_stack (Some 32) 0 (vm2\<lparr>vm_pa := pa3\<rparr>) = Some (Some 0xbffffff8, vm) \<and>
     page2addr (vm_pa vm) 32 = Some 0x40008000"
proof -
  have l: "lvl2_index 0xbfffe000 = 254" "lvl2_index 0xbfffd000 = 253" "lvl2_index 0xbfffc000 = 252"
    by (simp_all add: lvl2_index_div)
  let ?m1 = "user_mem(0xe000fbfc := small_entry 0x4000d000 UserFullAccess)"
  let ?m2 = "?m1(0xe000fbf8 := small_entry 0x4000c000 UserFullAccess)"
  let ?m3 = "?m2(0xe000fbf4 := small_entry 0x40013000 UserFullAccess)"
  have m: "user_mem 0xe000affc = coarse_entry 0x4000f800" "user_mem 0xe000fbf8 = 0" "user_mem 0xe000fbf4 = 0" "user_mem 0xe000fbf0 = 0"
    by (simp_all add: user_mem_def vm2_def boot_vm_def)
  show ?thesis
    using map_more_example [of ?m1 48 "0xbfffe000"] map_more_example [of ?m2 76 "0xbfffd000"]
      map_more_example [of ?m3 72 "0xbfffc000"] m
    by (simp add: alloc_thread_user_stack_def user_pages_example Let_def kernel_area_start_def map_example l page2addr_def)
qed

subsection \<open>The first process\<close>

text \<open>The file that the standard descriptors are opened on is created before, in a filesystem mounted at \<^verbatim>\<open>/dev\<close>.\<close>

definition log_events :: "vfs_event list" where
  "log_events = [Mount ''/dev'' 0, Open ''/dev/kernel_log'' 0x202, Close 2]"

definition open_three :: "(nat \<Rightarrow> ('c, 's) fs_ops) \<Rightarrow> ('c, 's) vfs \<Rightarrow> (int \<times> nat option) list option" where
  "open_three ops v = do {
     (rc0, c0, v) \<leftarrow> vfs_open_absolute ops ''/dev/kernel_log'' OF_RDONLY v;
     (rc1, c1, v) \<leftarrow> vfs_open_absolute ops ''/dev/kernel_log'' OF_WRONLY v;
     (rc2, c2, v) \<leftarrow> vfs_open_absolute ops ''/dev/kernel_log'' OF_WRONLY v;
     Some [(rc0, c0), (rc1, c1), (rc2, c2)]
   }"

lemma log_state:
  "map_option (\<lambda>v. (vfs_next v, vfs_mallocs v, map (vfs_custodies v) [0, 1, 2], open_three kernel_ops (v\<lparr>vfs_next := 5\<rparr>)))
     (vfs_steps kernel_ops log_events booted) =
   Some (3, [], [None, None, None], Some [(0, Some 5), (0, Some 6), (0, Some 7)])"
  by code_simp

lemma log_vfs:
  obtains v where "vfs_reach kernel_ops v" "vfs_custodies v = Map.empty" "vfs_next v = 3" "vfs_mallocs v = []"
    "open_three kernel_ops (v\<lparr>vfs_next := 5\<rparr>) = Some [(0, Some 5), (0, Some 6), (0, Some 7)]"
proof -
  obtain v where v: "vfs_steps kernel_ops log_events booted = Some v" "vfs_next v = 3" "vfs_mallocs v = []"
      "vfs_custodies v 0 = None" "vfs_custodies v 1 = None" "vfs_custodies v 2 = None"
      "open_three kernel_ops (v\<lparr>vfs_next := 5\<rparr>) = Some [(0, Some 5), (0, Some 6), (0, Some 7)]"
    using log_state by auto
  have "vfs_reach kernel_ops booted" unfolding booted_def by (rule vfs_reach.boot)
  then have r: "vfs_reach kernel_ops v" using vfs_steps_reach v(1) by blast
  have "vfs_custodies v c = None" for c
  proof (cases "c < 3")
    case True
    then have "c = 0 \<or> c = 1 \<or> c = 2" by linarith
    then show ?thesis using v(4-6) by auto
  next
    case False
    then show ?thesis using kernel.vfs_reach_inv [OF r] v(2) by (cases "vfs_custodies v c") (auto simp: vfs_inv_def)
  qed
  then show ?thesis using that [OF r] v by auto
qed

definition kernel_thread :: "u32 \<Rightarrow> Thread" where
  "kernel_thread entry = \<lparr>tid = 0, thread_process = 3,
     iframe = \<lparr>user_sp = 0xbffffff8, user_lr = 0, frame_r = map of_nat [0..<13], frame_lr = entry, spsr = 0x1f\<rparr>,
     kernel_stack_ptr = 0xe000ef78, thread_state = Suspended\<rparr>"

definition kernel_process :: Process where
  "kernel_process = \<lparr>next_available_tid = 1, pid = 0, exit_code = 0, process_name = ''kernel'', address_space = Some 32,
     openfiles = replicate 16 None, working_directory = ''/'', exit_listeners = [], threads_data = [4], threads_count = 1\<rparr>"

definition with_process :: "('c, 's) vfs \<Rightarrow> vm_state \<Rightarrow> u32 \<Rightarrow> ('c, 's) kernel" where
  "with_process v vm entry = set_thread 4 (kernel_thread entry) (set_process 3 kernel_process
     ((boot_kernel v boot_vm)\<lparr>k_vfs := v\<lparr>vfs_next := 5\<rparr>, k_vm := vm, s_next_available_pid := 1\<rparr>))"

lemma first_alloc:
  assumes "vfs_next v = 3" and "vfs_mallocs v = []"
  shows "\<exists>vm. alloc_process ''kernel'' entry True (boot_kernel v boot_vm) = Some (Some 3, with_process v vm entry) \<and>
    page2addr (vm_pa vm) 32 = Some 0x40008000"
proof -
  obtain vm where us: "alloc_thread_user_stack (Some 32) 0 (vm2\<lparr>vm_pa := pa3\<rparr>) = Some (Some 0xbffffff8, vm)"
      "page2addr (vm_pa vm) 32 = Some 0x40008000"
    using user_stack_example by blast
  have m: "kernel_malloc k = (True, k)" if "vfs_mallocs (k_vfs k) = []" for k :: "('a, 'b) kernel"
    using that by (simp add: kernel_malloc_def vfs_malloc_def)
  show ?thesis
    by (rule exI [of _ vm], simp only: with_process_def)
      (simp add: alloc_process_def m assms boot_kernel_def kernel_address_def new_address_def create_example us
        alloc_process_stacks_def kernel_stack_example arch_create_initial_kernel_stack_def Let_def kernel_thread_def
        kernel_process_def MAX_OPEN_FILES_def)
qed

lemma open_kernel_log_step:
  "vfs_open_absolute ops ''/dev/kernel_log'' flags (k_vfs k) = Some (0, c, v') \<Longrightarrow> k_processes k p = Some pr \<Longrightarrow>
   open_kernel_log ops p fd flags k = Some (set_process p (pr\<lparr>openfiles := (openfiles pr)[fd := c]\<rparr>) (k\<lparr>k_vfs := v'\<rparr>))"
  by (simp add: open_kernel_log_def set_file_slot_def)

lemma create_chain:
  "alloc_process ''kernel'' entry True k = Some (Some p, k1) \<Longrightarrow> k_processes k1 p = Some pr \<Longrightarrow> threads_data pr = [t] \<Longrightarrow>
   open_kernel_log ops p 0 OF_RDONLY k2 = Some k3 \<Longrightarrow> open_kernel_log ops p 1 OF_WRONLY k3 = Some k4 \<Longrightarrow>
   open_kernel_log ops p 2 OF_WRONLY k4 = Some k5 \<Longrightarrow> register_thread t k1 = Some k2 \<Longrightarrow> k_threads k5 t = Some th \<Longrightarrow>
   create_first_process ops entry k = Some ((set_thread t (th\<lparr>thread_state := Runnable\<rparr>) k5)\<lparr>s_current_thread := Some t\<rparr>)"
  by (simp add: create_first_process_def)

text \<open>The state after the first process: its three descriptors refer to the files 5, 6 and 7, thread 4 is runnable.\<close>

lemma first_process:
  assumes "vfs_next v = 3" and "vfs_mallocs v = []"
    and "open_three kernel_ops (v\<lparr>vfs_next := 5\<rparr>) = Some [(0, Some 5), (0, Some 6), (0, Some 7)]"
  shows "\<exists>k. create_first_process kernel_ops entry (boot_kernel v boot_vm) = Some k \<and>
    map (file_at k 3) [0, 1, 2, 3] = [Some 5, Some 6, Some 7, None] \<and>
    s_all_threads k = (replicate 64 None)[0 := Some 4] \<and> k_threads k 4 = Some ((kernel_thread entry)\<lparr>thread_state := Runnable\<rparr>) \<and>
    k_processes k 3 = Some (kernel_process\<lparr>openfiles := (replicate 16 None)[0 := Some 5, 1 := Some 6, 2 := Some 7]\<rparr>) \<and>
    page2addr (vm_pa (k_vm k)) 32 = Some 0x40008000"
proof -
  obtain vm where al: "alloc_process ''kernel'' entry True (boot_kernel v boot_vm) = Some (Some 3, with_process v vm entry)"
      and vm: "page2addr (vm_pa vm) 32 = Some 0x40008000"
    using first_alloc [OF assms(1,2)] by blast
  obtain v1 v2 v3 where o: "vfs_open_absolute kernel_ops ''/dev/kernel_log'' OF_RDONLY (v\<lparr>vfs_next := 5\<rparr>) = Some (0, Some 5, v1)"
      "vfs_open_absolute kernel_ops ''/dev/kernel_log'' OF_WRONLY v1 = Some (0, Some 6, v2)"
      "vfs_open_absolute kernel_ops ''/dev/kernel_log'' OF_WRONLY v2 = Some (0, Some 7, v3)"
    using assms(3) by (auto simp: open_three_def bind_eq_Some_conv)
  have p: "k_processes (with_process v vm entry) 3 = Some kernel_process" "threads_data kernel_process = [4]"
      "k_vfs (with_process v vm entry) = v\<lparr>vfs_next := 5\<rparr>"
      "k_threads (with_process v vm entry) 4 = Some (kernel_thread entry)" "s_all_threads (with_process v vm entry) = replicate 64 None"
      "s_all_threads_len (with_process v vm entry) = 0" "k_vm (with_process v vm entry) = vm"
      "openfiles kernel_process = replicate 16 None"
    by (simp_all add: with_process_def kernel_process_def set_process_def set_thread_def boot_kernel_def MAX_THREADS_def)
  let ?k = "with_process v vm entry"
  let ?k2 = "?k\<lparr>s_all_threads := (replicate 64 None)[0 := Some 4], s_all_threads_len := 1\<rparr>"
  let ?pr = "\<lambda>fs. kernel_process\<lparr>openfiles := fs\<rparr>"
  let ?k3 = "set_process 3 (?pr ((replicate 16 None)[0 := Some 5])) (?k2\<lparr>k_vfs := v1\<rparr>)"
  let ?k4 = "set_process 3 (?pr ((replicate 16 None)[0 := Some 5, 1 := Some 6])) (?k3\<lparr>k_vfs := v2\<rparr>)"
  let ?k5 = "set_process 3 (?pr ((replicate 16 None)[0 := Some 5, 1 := Some 6, 2 := Some 7])) (?k4\<lparr>k_vfs := v3\<rparr>)"
  have "open_kernel_log kernel_ops 3 0 OF_RDONLY ?k2 = Some ?k3"
    using open_kernel_log_step [of kernel_ops OF_RDONLY ?k2 "Some 5" v1 3 kernel_process 0] o(1) p by simp
  moreover have "open_kernel_log kernel_ops 3 1 OF_WRONLY ?k3 = Some ?k4"
    using open_kernel_log_step [of kernel_ops OF_WRONLY ?k3 "Some 6" v2 3 _ 1] o(2) by (simp add: set_process_def)
  moreover have "open_kernel_log kernel_ops 3 2 OF_WRONLY ?k4 = Some ?k5"
    using open_kernel_log_step [of kernel_ops OF_WRONLY ?k4 "Some 7" v3 3 _ 2] o(3) by (simp add: set_process_def)
  moreover have "register_thread 4 ?k = Some ?k2" using p by (simp add: register_thread_def MAX_THREADS_def)
  moreover have "k_threads ?k5 4 = Some (kernel_thread entry)" using p by (simp add: set_process_def)
  ultimately have "create_first_process kernel_ops entry (boot_kernel v boot_vm) =
      Some ((set_thread 4 ((kernel_thread entry)\<lparr>thread_state := Runnable\<rparr>) ?k5)\<lparr>s_current_thread := Some 4\<rparr>)"
    using create_chain [OF al p(1,2)] by blast
  then show ?thesis
    using p vm by (simp add: set_process_def set_thread_def file_at_def del: list_update.simps replicate.simps)
qed

lemma first_process_reached:
  obtains k where "kernel_reach kernel_ops k" "map (file_at k 3) [0, 1, 2, 3] = [Some 5, Some 6, Some 7, None]"
    "s_all_threads k = (replicate 64 None)[0 := Some 4]" "k_threads k 4 = Some ((kernel_thread entry)\<lparr>thread_state := Runnable\<rparr>)"
    "k_processes k 3 = Some (kernel_process\<lparr>openfiles := (replicate 16 None)[0 := Some 5, 1 := Some 6, 2 := Some 7]\<rparr>)"
    "page2addr (vm_pa (k_vm k)) 32 = Some 0x40008000"
proof -
  obtain v where v: "vfs_reach kernel_ops v" "vfs_custodies v = Map.empty" "vfs_next v = 3" "vfs_mallocs v = []"
      "open_three kernel_ops (v\<lparr>vfs_next := 5\<rparr>) = Some [(0, Some 5), (0, Some 6), (0, Some 7)]"
    by (rule log_vfs)
  obtain k where k: "create_first_process kernel_ops entry (boot_kernel v boot_vm) = Some k"
      "map (file_at k 3) [0, 1, 2, 3] = [Some 5, Some 6, Some 7, None]"
      "s_all_threads k = (replicate 64 None)[0 := Some 4]" "k_threads k 4 = Some ((kernel_thread entry)\<lparr>thread_state := Runnable\<rparr>)"
      "k_processes k 3 = Some (kernel_process\<lparr>openfiles := (replicate 16 None)[0 := Some 5, 1 := Some 6, 2 := Some 7]\<rparr>)"
      "page2addr (vm_pa (k_vm k)) 32 = Some 0x40008000"
    using first_process [OF v(3-5), of entry] by (elim exE conjE) (rule that; assumption)
  have "kernel_reach kernel_ops (boot_kernel v boot_vm)" using kernel_reach.boot v(1,2) by blast
  then have "kernel_reach kernel_ops k" using kernel_reach.event [of _ _ "FirstProcess entry" k] k(1) by simp
  from that [OF this k(2-6)] show ?thesis .
qed

text \<open>The two theorems on this state.\<close>

theorem descriptors_own_files_witness:
  "\<exists>k. kernel_reach kernel_ops k \<and> file_at k 3 0 = Some 5 \<and> vfs_custodies (k_vfs k) 5 \<noteq> None \<and> file_at k 3 3 = None"
proof -
  obtain k where k: "kernel_reach kernel_ops k" "map (file_at k 3) [0, 1, 2, 3] = [Some 5, Some 6, Some 7, None]"
    by (rule first_process_reached) (rule that; assumption)
  have at: "file_at k 3 0 = Some 5" "file_at k 3 3 = None" using k(2) by simp_all
  then show ?thesis using descriptors_own_files [OF k(1), of 5 3 0] k(1) by blast
qed

theorem kernel_state_shape_witness:
  "\<exists>k cu f i. kernel_reach kernel_ops k \<and> file_at k 3 0 = Some 5 \<and> vfs_custodies (k_vfs k) 5 = Some cu \<and>
    vfs_inodes (k_vfs k) (custody_inode cu) = Some (f, i) \<and> 1 \<le> refcount i"
proof -
  obtain k where k: "kernel_reach kernel_ops k" "map (file_at k 3) [0, 1, 2, 3] = [Some 5, Some 6, Some 7, None]"
    by (rule first_process_reached) (rule that; assumption)
  have at: "file_at k 3 0 = Some 5" using k(2) by simp
  then show ?thesis using kernel_state_shape [OF k(1), of 3 _ 0 5] k(1) by blast
qed

lemma idle_visits:
  "\<forall>j. i \<le> j \<longrightarrow> j < i + n \<longrightarrow> s_all_threads k ! j = None \<Longrightarrow> i + n \<le> MAX_THREADS \<Longrightarrow> i < MAX_THREADS \<Longrightarrow>
   scheduler_run ops prog n i k = Some ([], k)"
proof (induction n arbitrary: i)
  case (Suc n)
  have "scheduler_run ops prog n (Suc i mod MAX_THREADS) k = Some ([], k)"
  proof (cases n)
    case (Suc m)
    then show ?thesis using Suc.IH [of "Suc i"] Suc.prems by simp
  qed simp
  then show ?case using Suc.prems(1) by (simp add: scheduler_visit_def)
qed simp

lemma visit_then:
  "scheduler_visit ops i k = Some (Some t, k1) \<Longrightarrow> run_calls ops (prog n t) k1 = Some k2 \<Longrightarrow>
   scheduler_run ops prog n (Suc i mod MAX_THREADS) (k2\<lparr>g_scheduler_has_started := True\<rparr>) = Some (ts, k3) \<Longrightarrow>
   scheduler_run ops prog (Suc n) i k = Some (t # ts, k3)"
  by simp

theorem every_runnable_thread_runs_witness:
  "\<exists>k ts k'. kernel_reach kernel_ops k \<and> scheduler_run kernel_ops (\<lambda>_ _. [CallGetPid, CallYield]) 64 0 k = Some (ts, k') \<and> 4 \<in> set ts"
proof -
  obtain k where k: "kernel_reach kernel_ops k" "map (file_at k 3) [0, 1, 2, 3] = [Some 5, Some 6, Some 7, None]"
      "s_all_threads k = (replicate 64 None)[0 := Some 4]" "k_threads k 4 = Some ((kernel_thread 0)\<lparr>thread_state := Runnable\<rparr>)"
      "k_processes k 3 = Some (kernel_process\<lparr>openfiles := (replicate 16 None)[0 := Some 5, 1 := Some 6, 2 := Some 7]\<rparr>)"
      "page2addr (vm_pa (k_vm k)) 32 = Some 0x40008000"
    by (rule first_process_reached) (rule that; assumption)
  let ?p = "\<lambda>_ _. [CallGetPid, CallYield]"
  let ?vm = "(k_vm k)\<lparr>ttbr0 := 0x40008000, current_as := Some 32\<rparr>"
  let ?k1 = "k\<lparr>k_vm := ?vm, s_current_thread := Some 4\<rparr>"
  let ?k2 = "?k1\<lparr>g_scheduler_has_started := True\<rparr>"
  have 0: "s_all_threads k ! 0 = Some 4" "thread_process (kernel_thread 0) = 3" "address_space kernel_process = Some 32"
    by (simp_all add: k(3) kernel_thread_def kernel_process_def)
  have v: "scheduler_visit kernel_ops 0 k = Some (Some 4, ?k1)"
    using 0 k(4-6) by (simp add: scheduler_visit_def vm_switch_address_space_def)
  have c: "run_calls kernel_ops [CallGetPid, CallYield] ?k1 = Some ?k1"
    using k(4,5) 0(2) by (simp add: dispatch_syscall_def current_process_def sys_getpid_def)
  have "s_all_threads k ! j = None" if "1 \<le> j" "j < 64" for j using that by (simp add: k(3))
  then have i: "scheduler_run kernel_ops ?p 63 1 ?k2 = Some ([], ?k2)"
    using idle_visits [of 1 63 ?k2 kernel_ops ?p] by (simp add: MAX_THREADS_def)
  have n: "(64 :: nat) = Suc 63" by simp
  have run: "scheduler_run kernel_ops ?p 64 0 k = Some ([4], ?k2)"
    unfolding n by (rule visit_then [OF v c]) (use i in \<open>simp add: MAX_THREADS_def\<close>)
  have "4 \<in> set [4 :: nat]"
    by (rule every_runnable_thread_runs [OF k(1) run _ _ 0(1) k(4)]) simp_all
  then show ?thesis using k(1) run by blast
qed

theorem process_budget_witness:
  "\<exists>k k'. kernel_reach kernel_ops k \<and> kernel_step kernel_ops (KernelShortage []) k = Some k' \<and> s_all_threads k ! 0 = Some 4 \<and>
     s_all_threads_len k \<le> 64 \<and> s_all_threads_len k \<le> s_all_threads_len k'"
proof -
  obtain k where k: "kernel_reach kernel_ops k" "s_all_threads k = (replicate 64 None)[0 := Some 4]"
    by (rule first_process_reached) (rule that; assumption)
  have "s_all_threads k ! 0 = Some 4" by (simp add: k(2))
  then show ?thesis using process_budget [OF k(1), where e = "KernelShortage []"] k(1) by auto
qed

end
