(* ===== verification/Spec2Isabelle.thy ===== *)
theory Spec2Isabelle
  imports PageAllocatorProps KHeap PipeFs Timer MoreTime LibGfx VmProps BlockDevice Tty Locking DevFs VirtioInput Shell ExecveArgs FirstProcess
begin

text \<open>
  A verification of parts of pi0-os, a small operating system for 32-bit ARM with a user space.  Paths are relative
  to the \<^verbatim>\<open>src\<close> directory of the repository.

  \<^bold>\<open>The program.\<close>  The kernel (\<^verbatim>\<open>kernel/\<close>) manages physical memory in blocks of 1, 4 and 16 KB, builds the translation
  tables of the processor from them, and gives every process an address space of its own.  Processes reach files
  through descriptors; a descriptor refers to an open file (a custody), an open file to an inode of the cache, an
  inode to the filesystem that made it.  The scheduler runs the threads in the order of a table with 64 slots; a
  thread runs until a system call gives up the processor, so the kernel code between two such points is not
  interleaved with other kernel code.  Interrupts are masked by \<^verbatim>\<open>irq_lock\<close>, the timers run in the interrupt of the
  system timer.  User programs are linked with small libraries for graphics and dates.

  \<^bold>\<open>Conventions.\<close>  A crash of the kernel (a failing assertion, a panic, a null pointer that is followed, an access to
  freed memory or outside of an object) is \<open>None\<close>; an error that is returned to the caller is a value.  Words have
  the width of the code's types.  Objects of the heap are numbers, which are handed out once; whether \<^verbatim>\<open>malloc\<close>
  succeeds is an argument, or a list of answers in the state, because the allocator is the C library's.

  \<^bold>\<open>The theories.\<close>
  \<^item> \<open>Prelude\<close>, \<open>KernelError\<close>: word types, crashes as options, error codes (\<^verbatim>\<open>kernel/error.h\<close>).
  \<^item> \<open>PhysicalAlloc\<close> (\<^verbatim>\<open>kernel/memory/physicalalloc.cpp\<close>) has the page array, the three free lists, splitting and the
    test of the buddies; \<open>PhysicalAllocInv\<close> the invariant that free and allocated blocks are disjoint and the lists
    well linked; \<open>PageAllocator\<close> the interface as the locale \<open>page_allocator\<close>, its interpretation and the reachable
    states; \<open>PageAllocatorProps\<close> the properties.
  \<^item> \<open>Mmu\<close> and \<open>Vm\<close> (\<^verbatim>\<open>kernel/arch/arm/armv6mmu.h\<close>, \<^verbatim>\<open>kernel/memory/vm.cpp\<close>) have the table entries bit by bit, mapping,
    unmapping, translation, address spaces with their copies, page faults and the device mappings; \<open>VmInv\<close> the
    invariant that no two tables overlap; \<open>VmProps\<close> that mapping a page changes one translation of one address
    space, that unmapping is its inverse, and where it is not.  \<open>UserMemory\<close> is the memory of a user program byte by
    byte, through the tables, as the kernel's copies see it.
  \<^item> \<open>KHeap\<close> (\<^verbatim>\<open>kernel/memory/kheap.cpp\<close>, \<^verbatim>\<open>bootalloc.cpp\<close>): the pages below the break that the C library's \<^verbatim>\<open>malloc\<close> moves.
  \<^item> \<open>Elf\<close> (\<^verbatim>\<open>kernel/task/elfloader.cpp\<close>): the checks of a program file and its segments, and that a program is
    in memory as its file says.
  \<^item> \<open>IntrusiveList\<close>, \<open>RingBuffer\<close>, \<open>ArrayUtils\<close> (\<^verbatim>\<open>kernel/lib/\<close>): the containers, refined to sequences and queues.
  \<^item> \<open>Locking\<close> (\<^verbatim>\<open>kernel/locking/\<close>): mutual exclusion and progress of mutexes over all interleavings.
  \<^item> \<open>Timer\<close> (\<^verbatim>\<open>kernel/timer.cpp\<close>): which timers one interrupt fires, and that none is touched after it has been freed.
  \<^item> \<open>Ctype\<close> (\<^verbatim>\<open>ctype.h\<close>, the C library's): the character classes and decimal numbers the programs use.
  \<^item> \<open>MoreTime\<close>: the calendar (\<^verbatim>\<open>kernel/lib/more_time.cpp\<close>), the clock driver and the user programs' dates.
  \<^item> \<open>BlockDevice\<close>, \<open>Tty\<close> (\<^verbatim>\<open>kernel/drivers/\<close>): sector devices against the RAM disk, and the line discipline.
  \<^item> \<open>Virtio\<close>, \<open>VirtioInput\<close> (\<^verbatim>\<open>kernel/drivers/bus/virtio\<close>, \<^verbatim>\<open>block/virtioblk.cpp\<close>, \<^verbatim>\<open>char/virtioinput.cpp\<close>): the queues, and
    the disk and keyboard drivers; the device is an argument, what its specification promises a hypothesis.
  \<^item> \<open>Inode\<close>, \<open>Path\<close>, \<open>TempFs\<close>, \<open>PipeFs\<close>, \<open>PtyFs\<close>, \<open>DevFs\<close> (\<^verbatim>\<open>kernel/vfs/\<close>): inodes, paths, and the filesystems.  The
    drivers behind the device filesystem are a parameter of its file operations.
  \<^item> \<open>Vfs\<close> (\<^verbatim>\<open>kernel/vfs/vfs.cpp\<close>) has the inode cache, the path walk, mounting and the operations on open files, over
    the operation tables of the mounted filesystems; \<open>VfsInv\<close> the reference counts, in the locale
    \<open>counted_filesystems\<close> of what a filesystem has to keep; \<open>VfsMounts\<close> interprets it by the temporary, the
    pipe and the terminal filesystem, and shows what a closed terminal leaves in the cache;
    \<open>VfsCustodies\<close> says which files each operation opens and closes.
  \<^item> \<open>Process\<close>, \<open>Syscalls\<close>, \<open>Execve\<close>, \<open>Scheduler\<close> (\<^verbatim>\<open>kernel/scheduler.cpp\<close>, \<^verbatim>\<open>kernel/syscall.cpp\<close>): processes, threads,
    the system calls, the scheduler loop, and the runs of the kernel they give (\<open>kernel_reach\<close>).  The state \<open>kernel\<close> holds the
    state of the virtual filesystem and of the virtual memory, and every operation calls theirs.
  \<^item> \<open>Descriptors\<close>, \<open>DescriptorsInv\<close>, \<open>ExecveInv\<close>, \<open>DescriptorsRun\<close>: in all runs descriptors and open files match one to one.
    \<open>ExecveArgs\<close>: what a new program finds on its stack.  \<open>Scheduling\<close>: the shape of the state, fairness of the scheduler, and the limit on processes.  \<open>FirstProcess\<close>: a machine on which the
    kernel boots and creates its first process, for the witnesses.
  \<^item> \<open>LibGfx\<close>, \<open>DefaultFont\<close> (\<^verbatim>\<open>userland/bsp/libgfx/\<close>): drawing, fonts and the built-in font.  \<open>Shell\<close>
    (\<^verbatim>\<open>userland/shell/main.c\<close>): what the shell makes of a line.

  \<^bold>\<open>Loops.\<close>  Loops that the code does not bound (free lists, the mapping of RAM, the release of threads) are
  \<open>partial_function (option)\<close>; the properties that say that an operation succeeds prove that they end.  The recursion
  of \<^verbatim>\<open>free_process\<close> through \<^verbatim>\<open>free_thread\<close> is written out, because the inner call has no thread left to release.

  \<^bold>\<open>Assumptions.\<close>  The list of exit listeners, which the code does not initialise, is taken to be empty in a new process.
  A process has a single thread, as nothing in the code creates a second one.  Operation tables of an inode are
  determined by its filesystem.  The statements over runs of the kernel have the temporary, the pipe and
  the terminal filesystem mounted; any others that satisfy \<open>counted_filesystems\<close> would do.  A system call that waits
  gives up the processor (\<open>Yield\<close>) and is called again, with the arguments and the state of its start: the memory and
  the open file that \<^verbatim>\<open>execve\<close> holds while it waits for the disk are not in the state between.  Memory that the code
  reads before it has written it is an argument (\<open>raw\<close>) where its contents matter, and a crash where a pointer is
  read from it.

  \<^bold>\<open>Not modelled.\<close>  The FAT32 filesystem, which is calls into a library that is not in the repository; hardware registers
  with the handshakes of the devices, boot and assembly; the GPU driver; output formatting; the commands of the shell,
  the window manager, the editor and the vendored programs (Doom, flanterm).
\<close>

end
